(* ===== verification/Prelude.thy ===== *)
theory Prelude
  imports Main "HOL-Library.Word"
begin

text \<open>
  Shared vocabulary of the development: the machine types of an LP64 host, the result type of
  operations that can fail or dereference a null pointer, the collections of rewrite rules the
  component theories add to, and generic facts about lists, maps and words that no library
  theory states in the form needed here.
\<close>

unbundle bit_operations_syntax

subsection \<open>Machine types\<close>

text \<open>
  \<open>unsigned long\<close>, \<open>arch_addr_t\<close> and every object pointer are 64 bit wide on the host the
  program is built for; \<open>NULL\<close> is the address 0.
\<close>

type_synonym u8 = "8 word"
type_synonym u16 = "16 word"
type_synonym u32 = "32 word"
type_synonym u64 = "64 word"
type_synonym ulong = "64 word"
type_synonym ptr = "64 word"

abbreviation NULL :: ptr where "NULL \<equiv> 0"

subsection \<open>Collections of rewrite rules\<close>

named_theorems store_simps \<open>reading a field of an updated store\<close>
named_theorems refine_simps \<open>an operation on a store seen through its abstraction\<close>
named_theorems inv_intros \<open>an operation preserves the invariant of its component\<close>

subsection \<open>Options as results\<close>

lemma bind_eq_SomeD: "Option.bind x f = Some y \<Longrightarrow> \<exists>z. x = Some z \<and> f z = Some y"
  by (cases x) auto

text \<open>
  An operation that can end the program returns \<open>Inl\<close> of the error; \<open>bindE\<close> is sequencing.
\<close>

definition bindE :: "'e + 'a \<Rightarrow> ('a \<Rightarrow> 'e + 'b) \<Rightarrow> 'e + 'b" where
  "bindE m f = (case m of Inl e \<Rightarrow> Inl e | Inr x \<Rightarrow> f x)"

lemma bindE_simps [simp]: "bindE (Inl e) f = Inl e" "bindE (Inr x) f = f x"
  by (simp_all add: bindE_def)

lemma bindE_eq_Inr [simp]: "bindE m f = Inr y \<longleftrightarrow> (\<exists>x. m = Inr x \<and> f x = Inr y)"
  by (cases m) auto

lemma bindE_assoc: "bindE (bindE m f) g = bindE m (\<lambda>x. bindE (f x) g)"
  by (cases m) auto

lemma bindE_cong [fundef_cong]:
  "m = m' \<Longrightarrow> (\<And>x. m' = Inr x \<Longrightarrow> f x = f' x) \<Longrightarrow> bindE m f = bindE m' f'"
  by (cases m') auto

subsection \<open>Lists\<close>

lemma rev_cases_set:
  assumes "xs \<noteq> []"
  obtains ys z where "xs = ys @ [z]"
  using assms by (cases xs rule: rev_cases) auto

lemma distinct_split_unique:
  assumes "distinct (xs @ a # ys)" and "xs @ a # ys = us @ a # vs"
  shows "us = xs \<and> vs = ys"
proof -
  have "a \<notin> set xs" "a \<notin> set ys" using assms(1) by auto
  moreover have "a \<notin> set us" "a \<notin> set vs" using assms by (metis distinct_append not_distinct_conv_prefix
    distinct.simps(2) append.assoc disjoint_insert(1) list.set(2))+
  ultimately show ?thesis using assms(2)
    by (metis append_Cons_eq_iff)
qed

end
