(* ===== verification/Client_Types.thy ===== *)
theory Client_Types
  imports Prelude "HOL-Library.List_Lexorder"
begin

text \<open>
  The wire format shared by the tracer and its client (\<open>memtrace.h\<close>) and the byte-level helpers of
  \<open>client/process.c\<close>: reading and writing integers of either byte order in a message buffer, and
  the comparison of two byte strings that orders the stack table. The client runs on a
  little-endian machine; \<open>swap_endian\<close> then means that the traced process is big-endian. A buffer is a
  list of bytes; reading past its end has no value.
\<close>

unbundle bit_operations_syntax

subsection \<open>Operations\<close>

datatype mt_operation =
    MT_INFO | MT_DISCONNECT | MT_ADD_MAP | MT_DEL_MAP | MT_ATTACH | MT_ATTACH64 | MT_FORK
  | MT_ABOUT_EXIT | MT_EXIT | MT_NOFOLLOW | MT_MALLOC | MT_REALLOC_ENTER | MT_REALLOC_DONE
  | MT_REALLOC | MT_FREE | MT_MMAP | MT_MMAP64 | MT_MUNMAP | MT_MEMALIGN | MT_POSIX_MEMALIGN
  | MT_ALIGNED_ALLOC | MT_VALLOC | MT_PVALLOC | MT_SCAN | MT_STOP | MT_START | MT_DETACH
  | MT_NEW | MT_NEW_ARRAY | MT_DELETE | MT_DELETE_ARRAY | MT_DEPTH

fun str_operation :: "mt_operation \<Rightarrow> string" where
  "str_operation MT_MALLOC = ''malloc''"
| "str_operation MT_REALLOC_ENTER = ''realloc enter''"
| "str_operation MT_REALLOC = ''realloc''"
| "str_operation MT_REALLOC_DONE = ''realloc done''"
| "str_operation MT_MEMALIGN = ''memalign''"
| "str_operation MT_POSIX_MEMALIGN = ''posix_memalign''"
| "str_operation MT_ALIGNED_ALLOC = ''aligned_alloc''"
| "str_operation MT_VALLOC = ''valloc''"
| "str_operation MT_PVALLOC = ''pvalloc''"
| "str_operation MT_MMAP = ''mmap''"
| "str_operation MT_MMAP64 = ''mmap64''"
| "str_operation MT_FREE = ''free''"
| "str_operation MT_MUNMAP = ''munmap''"
| "str_operation MT_NEW = ''new''"
| "str_operation MT_NEW_ARRAY = ''new[]''"
| "str_operation MT_DELETE = ''delete''"
| "str_operation MT_DELETE_ARRAY = ''delete[]''"
| "str_operation _ = ''unknow operation''"

definition is_mmap :: "mt_operation \<Rightarrow> bool" where
  "is_mmap operation \<longleftrightarrow> operation = MT_MMAP \<or> operation = MT_MMAP64"

record mt_msg =
  operation :: mt_operation
  msg_pid :: "16 word"
  payload_len :: u32

subsection \<open>Integers in a buffer\<close>

type_synonym bytes = "u8 list"

fun le_word :: "bytes \<Rightarrow> u64" where
  "le_word [] = 0"
| "le_word (b # bs) = ucast b OR push_bit 8 (le_word bs)"

primrec le_bytes :: "nat \<Rightarrow> u64 \<Rightarrow> bytes" where
  "le_bytes 0 v = []"
| "le_bytes (Suc n) v = ucast v # le_bytes n (drop_bit 8 v)"

definition read_bytes :: "nat \<Rightarrow> bytes \<Rightarrow> bytes option" where
  "read_bytes n p = (if n \<le> length p then Some (take n p) else None)"

definition bswap_16 :: "u16 \<Rightarrow> u16" where
  "bswap_16 v = ucast (le_word (rev (le_bytes 2 (ucast v))))"

definition bswap_32 :: "u32 \<Rightarrow> u32" where
  "bswap_32 v = ucast (le_word (rev (le_bytes 4 (ucast v))))"

definition bswap_64 :: "u64 \<Rightarrow> u64" where
  "bswap_64 v = le_word (rev (le_bytes 8 v))"

definition get_uint64 :: "bytes \<Rightarrow> ulong option" where
  "get_uint64 p = map_option le_word (read_bytes 8 p)"

definition get_uint64_swap :: "bytes \<Rightarrow> ulong option" where
  "get_uint64_swap p = map_option (\<lambda>bs. bswap_64 (le_word bs)) (read_bytes 8 p)"

definition get_uint32 :: "bytes \<Rightarrow> ulong option" where
  "get_uint32 p = map_option (\<lambda>bs. ucast (ucast (le_word bs) :: u32)) (read_bytes 4 p)"

definition get_uint32_swap :: "bytes \<Rightarrow> ulong option" where
  "get_uint32_swap p = map_option (\<lambda>bs. ucast (bswap_32 (ucast (le_word bs)))) (read_bytes 4 p)"

text \<open>The bytes the \<open>put\<close> functions store at their pointer.\<close>

definition put_uint64 :: "ulong \<Rightarrow> bytes" where
  "put_uint64 v = le_bytes 8 v"

definition put_uint64_swap :: "ulong \<Rightarrow> bytes" where
  "put_uint64_swap v = le_bytes 8 (bswap_64 v)"

definition put_uint32 :: "ulong \<Rightarrow> bytes" where
  "put_uint32 v = le_bytes 4 (ucast (ucast v :: u32))"

definition put_uint32_swap :: "ulong \<Rightarrow> bytes" where
  "put_uint32_swap v = le_bytes 4 (ucast (bswap_32 (ucast v)))"

definition val16 :: "u16 \<Rightarrow> u16" where "val16 v = v"
definition val16_swap :: "u16 \<Rightarrow> u16" where "val16_swap v = bswap_16 v"
definition val32 :: "u32 \<Rightarrow> u32" where "val32 v = v"
definition val32_swap :: "u32 \<Rightarrow> u32" where "val32_swap v = bswap_32 v"
definition val64 :: "u64 \<Rightarrow> u64" where "val64 v = v"
definition val64_swap :: "u64 \<Rightarrow> u64" where "val64_swap v = bswap_64 v"

subsection \<open>Comparison of byte strings\<close>

text \<open>The sign of \<open>memcmp\<close> on two buffers of the same length.\<close>

fun memcmp :: "bytes \<Rightarrow> bytes \<Rightarrow> int" where
  "memcmp (x # xs) (y # ys) = (if x < y then -1 else if y < x then 1 else memcmp xs ys)"
| "memcmp _ _ = 0"

definition memncmp :: "bytes \<Rightarrow> bytes \<Rightarrow> int" where
  "memncmp p1 p2 =
     (let n = (if length p1 < length p2 then length p1 else length p2);
          ret = memcmp (take n p1) (take n p2)
      in if ret \<noteq> 0 then ret
         else if length p1 < length p2 then -1
         else if length p1 > length p2 then 1
         else 0)"

subsection \<open>Round trips\<close>

lemma length_le_bytes [simp]: "length (le_bytes n v) = n"
  by (induction n arbitrary: v) auto

lemma bit_le_word: "bit (le_word bs) i \<longleftrightarrow> i < 64 \<and> i div 8 < length bs \<and> bit (bs ! (i div 8)) (i mod 8)"
proof (induction bs arbitrary: i)
  case (Cons b bs)
  show ?case
  proof (cases "i < 8")
    case True
    then show ?thesis by (auto simp: bit_or_iff bit_push_bit_iff bit_ucast_iff)
  next
    case False
    then have "i div 8 = Suc ((i - 8) div 8)" "i mod 8 = (i - 8) mod 8"
      by (simp_all add: div_if [of i] mod_if [of i])
    moreover have "\<not> bit b i" using False by (auto dest: bit_imp_le_length)
    ultimately show ?thesis
      using False Cons.IH [of "i - 8"]
      by (auto simp: bit_or_iff bit_push_bit_iff bit_ucast_iff)
  qed
qed simp

lemma nth_le_bytes: "i < n \<Longrightarrow> bit (le_bytes n v ! i) j \<longleftrightarrow> j < 8 \<and> bit v (8 * i + j)"
proof (induction n arbitrary: i v)
  case (Suc n)
  then show ?case
    by (cases i) (auto simp: bit_ucast_iff bit_drop_bit_eq algebra_simps dest: bit_imp_le_length)
qed simp

lemma le_word_bytes: "le_word (le_bytes n v) = take_bit (8 * n) v"
proof (rule bit_word_eqI)
  fix i
  assume "i < LENGTH(64)"
  have "i div 8 < n \<longleftrightarrow> i < 8 * n" by (simp add: div_less_iff_less_mult mult.commute)
  then show "bit (le_word (le_bytes n v)) i \<longleftrightarrow> bit (take_bit (8 * n) v) i"
    using \<open>i < LENGTH(64)\<close>
    by (auto simp: bit_le_word nth_le_bytes bit_take_bit_iff)
qed

lemma le_bytes_word: "length bs \<le> 8 \<Longrightarrow> le_bytes (length bs) (le_word bs) = bs"
proof (rule nth_equalityI)
  fix i
  assume "length bs \<le> 8" and "i < length (le_bytes (length bs) (le_word bs))"
  then show "le_bytes (length bs) (le_word bs) ! i = bs ! i"
    by (intro bit_word_eqI) (auto simp: nth_le_bytes bit_le_word)
qed simp

lemma take_bit_64 [simp]: "take_bit 64 (v :: u64) = v"
  by (rule bit_word_eqI) (simp add: bit_take_bit_iff)

lemma le_word_bytes_8 [simp]: "le_word (le_bytes 8 v) = v"
  using le_word_bytes [of 8 v] by simp

lemma le_word_bytes_4 [simp]: "le_word (le_bytes 4 (ucast (v :: u32))) = ucast v"
  by (rule bit_word_eqI) (auto simp: le_word_bytes bit_take_bit_iff bit_ucast_iff dest: bit_imp_le_length)

lemma ucast_ucast_32 [simp]: "ucast (ucast (v :: u32) :: u64) = v"
  by (rule bit_word_eqI) (auto simp: bit_ucast_iff)

lemma le_word_rev_4: "ucast (ucast (le_word (rev (le_bytes 4 v))) :: u32) = le_word (rev (le_bytes 4 v))"
  by (rule bit_word_eqI) (auto simp: bit_ucast_iff bit_le_word dest: bit_imp_le_length)

lemma bswap_64_bswap_64 [simp]: "bswap_64 (bswap_64 v) = v"
  using le_bytes_word [of "rev (le_bytes 8 v)"] by (simp add: bswap_64_def)

lemma bswap_32_bswap_32 [simp]: "bswap_32 (bswap_32 v) = v"
  using le_bytes_word [of "rev (le_bytes 4 (ucast v))"] le_word_rev_4 [of "ucast v"] by (simp add: bswap_32_def)

lemma read_bytes_append [simp]: "length bs = n \<Longrightarrow> read_bytes n (bs @ p) = Some bs"
  by (simp add: read_bytes_def)

lemma get_put_uint64:
  "get_uint64 (put_uint64 v @ p) = Some v" "get_uint64_swap (put_uint64_swap v @ p) = Some v"
  by (simp_all add: get_uint64_def put_uint64_def get_uint64_swap_def put_uint64_swap_def)

lemma get_put_uint32:
  "get_uint32 (put_uint32 v @ p) = Some (take_bit 32 v)"
  "get_uint32_swap (put_uint32_swap v @ p) = Some (take_bit 32 v)"
proof -
  have t: "ucast (ucast v :: u32) = take_bit 32 v"
    by (rule bit_word_eqI) (auto simp: bit_ucast_iff bit_take_bit_iff dest: bit_imp_le_length)
  have "get_uint32 (put_uint32 v @ p) = Some (ucast (ucast v :: u32))"
    "get_uint32_swap (put_uint32_swap v @ p) = Some (ucast (ucast v :: u32))"
    by (simp_all only: get_uint32_def put_uint32_def get_uint32_swap_def put_uint32_swap_def
        read_bytes_append length_le_bytes option.map le_word_bytes_4 ucast_ucast_32 bswap_32_bswap_32)
  with t show "get_uint32 (put_uint32 v @ p) = Some (take_bit 32 v)"
    "get_uint32_swap (put_uint32_swap v @ p) = Some (take_bit 32 v)" by simp_all
qed

subsection \<open>\<open>memncmp\<close> is the lexicographic order\<close>

lemma memncmp_simps [simp]:
  "memncmp [] [] = 0"
  "memncmp [] (y # ys) = -1"
  "memncmp (x # xs) [] = 1"
  "memncmp (x # xs) (y # ys) = (if x < y then -1 else if y < x then 1 else memncmp xs ys)"
  by (auto simp: memncmp_def Let_def)

lemma memncmp_sign: "memncmp p q = (if p < q then -1 else if q < p then 1 else 0)"
  by (induction p arbitrary: q; case_tac q) (auto split: if_splits)

lemma memncmp_less [simp]: "memncmp p q < 0 \<longleftrightarrow> p < q" "0 < memncmp p q \<longleftrightarrow> q < p" "memncmp p q = 0 \<longleftrightarrow> p = q"
  by (auto simp: memncmp_sign)

end
