(* ===== verification/RBTree.thy ===== *)
theory RBTree
  imports Prelude
begin

text \<open>
  Red-black trees as values: the trees that \<open>rbtree.c\<close> builds in memory, and its rebalancing
  loops written on a tree with a marked position. A position is the subtree at it and the path
  back to the root (\<open>'a ctx\<close>, innermost frame first), which is what the parent pointers of the
  C code provide. The theory \<open>RBTree_Heap\<close> shows that the pointer code computes exactly these
  functions; here they are shown to keep the in-order sequence of the nodes and the red-black
  invariants.
\<close>

subsection \<open>Trees and positions\<close>

datatype color = Red | Black

datatype 'a rbt = Leaf | Node "'a rbt" color 'a "'a rbt"

datatype 'a frame = FL color 'a "'a rbt" | FR "'a rbt" color 'a

type_synonym 'a ctx = "'a frame list"

fun plug :: "'a ctx \<Rightarrow> 'a rbt \<Rightarrow> 'a rbt" where
  "plug [] t = t"
| "plug (FL c a r # k) t = plug k (Node t c a r)"
| "plug (FR l c a # k) t = plug k (Node l c a t)"

fun nodes :: "'a rbt \<Rightarrow> 'a list" where
  "nodes Leaf = []"
| "nodes (Node l c a r) = nodes l @ a # nodes r"

fun before :: "'a ctx \<Rightarrow> 'a list" where
  "before [] = []"
| "before (FL c a r # k) = before k"
| "before (FR l c a # k) = before k @ nodes l @ [a]"

fun after :: "'a ctx \<Rightarrow> 'a list" where
  "after [] = []"
| "after (FL c a r # k) = a # nodes r @ after k"
| "after (FR l c a # k) = after k"

lemma nodes_plug [simp]: "nodes (plug k t) = before k @ nodes t @ after k"
  by (induction k t rule: plug.induct) auto

lemma plug_append [simp]: "plug (k @ k') t = plug k' (plug k t)"
  by (induction k t rule: plug.induct) auto

lemma before_append [simp]: "before (k @ k') = before k' @ before k"
  by (induction k rule: before.induct) auto

lemma after_append [simp]: "after (k @ k') = after k @ after k'"
  by (induction k rule: after.induct) auto

lemma plug_eq_Leaf [simp]: "plug k t = Leaf \<longleftrightarrow> k = [] \<and> t = Leaf"
  by (induction k t rule: plug.induct) auto

fun color_of :: "'a rbt \<Rightarrow> color" where
  "color_of Leaf = Black"
| "color_of (Node l c a r) = c"

fun paint :: "color \<Rightarrow> 'a rbt \<Rightarrow> 'a rbt" where
  "paint c Leaf = Leaf"
| "paint c (Node l c' a r) = Node l c a r"

lemma nodes_paint [simp]: "nodes (paint c t) = nodes t"
  by (cases t) auto

fun frame_color :: "'a frame \<Rightarrow> color" where
  "frame_color (FL c a r) = c"
| "frame_color (FR l c a) = c"

subsection \<open>Insertion\<close>

text \<open>
  The loop of \<open>rb_insert_color\<close>. It runs while the parent (the innermost frame) is red; with a
  red uncle the grandparent is recoloured and becomes the node, otherwise one or two rotations
  end it. \<open>rb_set_black(root->rb_node)\<close> closes the function.
\<close>

fun ins_fix :: "'a rbt \<Rightarrow> 'a ctx \<Rightarrow> 'a rbt" where
  "ins_fix t [] = paint Black t"
| "ins_fix t [f] = paint Black (plug [f] t)"
| "ins_fix t (f # g # k) =
     (if frame_color f = Black then paint Black (plug (f # g # k) t)
      else case g of
        FL gc ga u \<Rightarrow>
          (if color_of u = Red
           then ins_fix (Node (paint Black (plug [f] t)) Red ga (paint Black u)) k
           else case f of
             FL pc p r \<Rightarrow> paint Black (plug k (Node t Black p (Node r Red ga u)))
           | FR l pc p \<Rightarrow>
               (case t of
                  Leaf \<Rightarrow> paint Black (plug (f # g # k) t)
                | Node nl nc n nr \<Rightarrow>
                    paint Black (plug k (Node (Node l pc p nl) Black n (Node nr Red ga u)))))
      | FR u gc ga \<Rightarrow>
          (if color_of u = Red
           then ins_fix (Node (paint Black u) Red ga (paint Black (plug [f] t))) k
           else case f of
             FR l pc p \<Rightarrow> paint Black (plug k (Node (Node u Red ga l) Black p t))
           | FL pc p r \<Rightarrow>
               (case t of
                  Leaf \<Rightarrow> paint Black (plug (f # g # k) t)
                | Node nl nc n nr \<Rightarrow>
                    paint Black (plug k (Node (Node u Red ga nl) Black n (Node nr pc p r))))))"

subsection \<open>Deletion\<close>

text \<open>
  The loop of \<open>__rb_erase_color\<close>. The subtree \<open>t\<close> at the position lacks one black node; the
  loop ends at the root or at a red node, which is then painted black.
\<close>

abbreviation is_red :: "'a rbt \<Rightarrow> bool" where
  "is_red t \<equiv> color_of t = Red"

text \<open>
  The part of the loop body after the test for a red sibling. \<open>Inl\<close> is a tree that is
  finished, \<open>Inr\<close> the next position of the loop. The first function has the node as the left
  child of its parent, the second as the right child.
\<close>

fun del_left :: "'a rbt \<Rightarrow> color \<Rightarrow> 'a \<Rightarrow> 'a rbt \<Rightarrow> 'a ctx \<Rightarrow> 'a rbt + 'a rbt \<times> 'a ctx" where
  "del_left t pc p Leaf k = Inl (plug k (Node t pc p Leaf))"
| "del_left t pc p (Node ol oc other r) k =
     (if \<not> is_red ol \<and> \<not> is_red r then Inr (Node t pc p (Node ol Red other r), k)
      else if \<not> is_red r then
        (case ol of
           Leaf \<Rightarrow> Inl (plug k (Node t pc p (Node ol oc other r)))
         | Node a c x b \<Rightarrow>
             Inl (paint Black (plug k (Node (Node t Black p a) pc x (paint Black (Node b Red other r))))))
      else Inl (paint Black (plug k (Node (Node t Black p ol) pc other (paint Black r)))))"

fun del_right :: "'a rbt \<Rightarrow> color \<Rightarrow> 'a \<Rightarrow> 'a rbt \<Rightarrow> 'a ctx \<Rightarrow> 'a rbt + 'a rbt \<times> 'a ctx" where
  "del_right Leaf pc p t k = Inl (plug k (Node Leaf pc p t))"
| "del_right (Node l oc other r) pc p t k =
     (if \<not> is_red l \<and> \<not> is_red r then Inr (Node (Node l Red other r) pc p t, k)
      else if \<not> is_red l then
        (case r of
           Leaf \<Rightarrow> Inl (plug k (Node (Node l oc other r) pc p t))
         | Node a c x b \<Rightarrow>
             Inl (paint Black (plug k (Node (paint Black (Node l Red other a)) pc x (Node b Black p t)))))
      else Inl (paint Black (plug k (Node (paint Black l) pc other (Node r Black p t)))))"

definition del_step :: "'a rbt \<Rightarrow> 'a frame \<Rightarrow> 'a ctx \<Rightarrow> 'a rbt + 'a rbt \<times> 'a ctx" where
  "del_step t f k =
     (case f of
        FL pc p (Node l Red s r) \<Rightarrow> del_left t Red p l (FL Black s r # k)
      | FL pc p other \<Rightarrow> del_left t pc p other k
      | FR (Node l Red s r) pc p \<Rightarrow> del_right r Red p t (FR l Black s # k)
      | FR other pc p \<Rightarrow> del_right other pc p t k)"

text \<open>A step that goes on moves up, or stays at the same depth with a red node.\<close>

lemma del_left_Inr: "del_left t pc p s k = Inr (t', k') \<Longrightarrow> k' = k \<and> color_of t' = pc"
  by (cases s) (auto split: if_splits rbt.splits)

lemma del_right_Inr: "del_right s pc p t k = Inr (t', k') \<Longrightarrow> k' = k \<and> color_of t' = pc"
  by (cases s) (auto split: if_splits rbt.splits)

declare del_left.simps [simp del] del_right.simps [simp del]

lemma del_step_Inr:
  "del_step t f k = Inr (t', k') \<Longrightarrow>
     k' = k \<or> length k' = Suc (length k) \<and> is_red t'"
  by (auto simp: del_step_def split: frame.splits rbt.splits color.splits
      dest!: del_left_Inr del_right_Inr)

function del_fix :: "'a rbt \<Rightarrow> 'a ctx \<Rightarrow> 'a rbt" where
  "del_fix t [] = paint Black t"
| "del_fix t (f # k) =
     (if is_red t then plug (f # k) (paint Black t)
      else case del_step t f k of
        Inl t' \<Rightarrow> t'
      | Inr (t', k') \<Rightarrow> del_fix t' k')"
  by pat_completeness auto
termination
  by (relation "measure (\<lambda>(t, k). 2 * length k + (if is_red t then 0 else 1))")
     (auto dest!: del_step_Inr)

text \<open>
  \<open>rb_erase\<close> at a position: a node with at most one child is bypassed; otherwise its in-order
  successor takes its place and its colour, and the successor's right child moves up.
\<close>

fun min_pos :: "'a rbt \<Rightarrow> color \<Rightarrow> 'a \<Rightarrow> 'a rbt \<Rightarrow> 'a ctx \<Rightarrow> 'a ctx \<times> color \<times> 'a \<times> 'a rbt" where
  "min_pos Leaf c a r k = (k, c, a, r)"
| "min_pos (Node l' c' a' r') c a r k = min_pos l' c' a' r' (FL c a r # k)"

definition rb_splice :: "color \<Rightarrow> 'a rbt \<Rightarrow> 'a ctx \<Rightarrow> 'a rbt" where
  "rb_splice c child k = (if c = Black then del_fix child k else plug k child)"

definition rb_erase_at :: "'a rbt \<Rightarrow> color \<Rightarrow> 'a rbt \<Rightarrow> 'a ctx \<Rightarrow> 'a rbt" where
  "rb_erase_at l c r k =
     (case l of
        Leaf \<Rightarrow> rb_splice c r k
      | Node _ _ _ _ \<Rightarrow>
          (case r of
             Leaf \<Rightarrow> rb_splice c l k
           | Node rl rc ra rr \<Rightarrow>
               (case min_pos rl rc ra rr [] of
                  (k', mc, m, mr) \<Rightarrow> rb_splice mc mr (k' @ FR l c m # k))))"

subsection \<open>The in-order sequence\<close>

lemma nodes_ins_fix [simp]: "nodes (ins_fix t k) = before k @ nodes t @ after k"
  by (induction t k rule: ins_fix.induct) (auto split: frame.splits rbt.splits)

lemma nodes_del_left:
  "case_sum nodes (\<lambda>(t', k'). nodes (plug k' t')) (del_left t pc p s k)
     = before k @ nodes t @ p # nodes s @ after k"
  by (cases s) (auto simp: del_left.simps split: rbt.splits)

lemma nodes_del_right:
  "case_sum nodes (\<lambda>(t', k'). nodes (plug k' t')) (del_right s pc p t k)
     = before k @ nodes s @ p # nodes t @ after k"
  by (cases s) (auto simp: del_right.simps split: rbt.splits)

lemma nodes_del_step:
  "case_sum nodes (\<lambda>(t', k'). nodes (plug k' t')) (del_step t f k) = nodes (plug (f # k) t)"
proof (cases f)
  case (FL pc p s)
  show ?thesis
    by (cases s; simp add: FL del_step_def nodes_del_left split: color.splits)
next
  case (FR s pc p)
  show ?thesis
    by (cases s; simp add: FR del_step_def nodes_del_right split: color.splits)
qed

lemma nodes_del_fix [simp]: "nodes (del_fix t k) = before k @ nodes t @ after k"
proof (induction t k rule: del_fix.induct)
  case (2 t f k)
  then show ?case
    using nodes_del_step [of t f k]
    by (auto split: sum.splits)
qed simp

lemma nodes_rb_splice [simp]: "nodes (rb_splice c t k) = before k @ nodes t @ after k"
  by (simp add: rb_splice_def)

lemma min_pos_plug:
  "min_pos l c a r k = (k', mc, m, mr) \<Longrightarrow>
     plug k' (Node Leaf mc m mr) = plug k (Node l c a r) \<and> before k' = before k"
  by (induction l c a r k rule: min_pos.induct) auto

lemma min_pos_nodes:
  assumes "min_pos l c a r [] = (k', mc, m, mr)"
  shows "nodes (Node l c a r) = m # nodes mr @ after k'" and "before k' = []"
proof -
  from min_pos_plug [OF assms]
  have *: "plug k' (Node Leaf mc m mr) = Node l c a r" and b: "before k' = []" by auto
  from arg_cong [OF *, of nodes] b
  show "nodes (Node l c a r) = m # nodes mr @ after k'" by simp
  from b show "before k' = []" .
qed

theorem nodes_rb_erase_at [simp]:
  "nodes (rb_erase_at l c r k) = before k @ nodes l @ nodes r @ after k"
proof (cases l)
  case Leaf
  then show ?thesis by (simp add: rb_erase_at_def)
next
  case l: Node
  show ?thesis
  proof (cases r)
    case Leaf
    with l show ?thesis by (simp add: rb_erase_at_def)
  next
    case r: (Node rl rc ra rr)
    obtain k' mc m mr where m: "min_pos rl rc ra rr [] = (k', mc, m, mr)"
      by (metis prod_cases4)
    from min_pos_nodes [OF m] l r m show ?thesis by (simp add: rb_erase_at_def)
  qed
qed

subsection \<open>The red-black invariants\<close>

text \<open>
  \<open>red_ok\<close>: no red node has a red child. \<open>balanced\<close>: all paths from a node down carry the
  same number of black nodes. Both are stated for positions as well, with the colour and the
  black height of the subtree at the position as arguments.
\<close>

fun red_ok :: "'a rbt \<Rightarrow> bool" where
  "red_ok Leaf \<longleftrightarrow> True"
| "red_ok (Node l c a r) \<longleftrightarrow>
     red_ok l \<and> red_ok r \<and> (c = Red \<longrightarrow> color_of l = Black \<and> color_of r = Black)"

fun black :: "color \<Rightarrow> nat" where
  "black Black = 1"
| "black Red = 0"

lemma black_eq [simp]: "black c = 0 \<longleftrightarrow> c = Red" "black c = Suc 0 \<longleftrightarrow> c = Black"
  by (cases c; simp)+

fun bh :: "'a rbt \<Rightarrow> nat" where
  "bh Leaf = 0"
| "bh (Node l c a r) = bh l + black c"

fun balanced :: "'a rbt \<Rightarrow> bool" where
  "balanced Leaf \<longleftrightarrow> True"
| "balanced (Node l c a r) \<longleftrightarrow> balanced l \<and> balanced r \<and> bh l = bh r"

fun ctx_red_ok :: "color \<Rightarrow> 'a ctx \<Rightarrow> bool" where
  "ctx_red_ok c [] \<longleftrightarrow> True"
| "ctx_red_ok c (FL fc a r # k) \<longleftrightarrow>
     red_ok r \<and> (fc = Red \<longrightarrow> c = Black \<and> color_of r = Black) \<and> ctx_red_ok fc k"
| "ctx_red_ok c (FR l fc a # k) \<longleftrightarrow>
     red_ok l \<and> (fc = Red \<longrightarrow> c = Black \<and> color_of l = Black) \<and> ctx_red_ok fc k"

fun ctx_balanced :: "nat \<Rightarrow> 'a ctx \<Rightarrow> bool" where
  "ctx_balanced n [] \<longleftrightarrow> True"
| "ctx_balanced n (FL c a r # k) \<longleftrightarrow> balanced r \<and> bh r = n \<and> ctx_balanced (n + black c) k"
| "ctx_balanced n (FR l c a # k) \<longleftrightarrow> balanced l \<and> bh l = n \<and> ctx_balanced (n + black c) k"

fun ctx_root :: "color \<Rightarrow> 'a ctx \<Rightarrow> color" where
  "ctx_root c [] = c"
| "ctx_root c (f # k) = ctx_root (frame_color f) k"

lemma color_of_plug [simp]: "color_of (plug k t) = ctx_root (color_of t) k"
  by (induction k t rule: plug.induct) auto

lemma red_ok_plug [simp]: "red_ok (plug k t) \<longleftrightarrow> red_ok t \<and> ctx_red_ok (color_of t) k"
  by (induction k t rule: plug.induct) auto

lemma balanced_plug [simp]: "balanced (plug k t) \<longleftrightarrow> balanced t \<and> ctx_balanced (bh t) k"
  by (induction k t rule: plug.induct) auto

lemma ctx_append_inv [simp]:
  "ctx_red_ok c (k @ k') \<longleftrightarrow> ctx_red_ok c k \<and> ctx_red_ok (ctx_root c k) k'"
  "ctx_root c (k @ k') = ctx_root (ctx_root c k) k'"
  by (induction c k rule: ctx_red_ok.induct) auto

definition is_rbt :: "'a rbt \<Rightarrow> bool" where
  "is_rbt t \<longleftrightarrow> red_ok t \<and> balanced t \<and> color_of t = Black"

lemma paint_simps [simp]:
  "color_of (paint Black t) = Black"
  "balanced (paint c t) = balanced t"
  "paint Black (paint c t) = paint Black t"
  by (cases t; simp)+

lemma paint_Black_red_ok [simp]: "red_ok t \<Longrightarrow> red_ok (paint Black t)"
  by (cases t) auto

lemma ctx_red_ok_Black: "ctx_red_ok c k \<Longrightarrow> ctx_red_ok Black k"
  by (induction c k rule: ctx_red_ok.induct) auto

lemma bh_paint_Black: "bh (paint Black t) = (if is_red t then Suc (bh t) else bh t)"
  by (cases t rule: rbt.exhaust; cases "color_of t") auto

lemma color_cases_neq [simp]: "c \<noteq> Black \<longleftrightarrow> c = Red" "c \<noteq> Red \<longleftrightarrow> c = Black"
  by (cases c; simp)+

lemma black_paint [simp]: "color_of t = Black \<Longrightarrow> paint Black t = t"
  by (cases t) auto

text \<open>Insertion: only the new red node may clash with a red parent.\<close>

definition ins_pre :: "'a rbt \<Rightarrow> 'a ctx \<Rightarrow> bool" where
  "ins_pre t k \<longleftrightarrow>
     is_red t \<and> red_ok t \<and> balanced t \<and>
     ctx_red_ok Black k \<and> ctx_balanced (bh t) k \<and> (k \<noteq> [] \<longrightarrow> ctx_root Red k = Black)"

lemma is_rbt_paint_Black: "red_ok t \<Longrightarrow> balanced t \<Longrightarrow> is_rbt (paint Black t)"
  by (simp add: is_rbt_def)

lemma is_rbt_plug_Black:
  "red_ok t \<Longrightarrow> balanced t \<Longrightarrow> ctx_red_ok (color_of t) k \<Longrightarrow> ctx_balanced (bh t) k \<Longrightarrow>
   is_rbt (paint Black (plug k t))"
  by (rule is_rbt_paint_Black) auto

lemma red_okD: "red_ok t \<Longrightarrow> is_red t \<Longrightarrow> \<exists>l a r. t = Node l Red a r \<and> color_of l = Black \<and>
    color_of r = Black \<and> red_ok l \<and> red_ok r"
  by (cases t) auto

lemma ins_fix_rbt: "ins_pre t k \<Longrightarrow> is_rbt (ins_fix t k)"
proof (induction t k rule: ins_fix.induct)
  case (1 t)
  then show ?case by (simp add: ins_pre_def is_rbt_paint_Black)
next
  case (2 t f)
  then show ?case
    by (cases f) (auto simp: ins_pre_def is_rbt_def)
next
  case (3 t f g k)
  then obtain nl n nr where t: "t = Node nl Red n nr"
      and tr: "color_of nl = Black" "color_of nr = Black" "red_ok nl" "red_ok nr"
    unfolding ins_pre_def using red_okD by blast
  show ?case
  proof (cases "frame_color f = Black")
    case True
    with "3.prems" show ?thesis
      by (cases f) (auto simp: ins_pre_def is_rbt_def)
  next
    case False
    then have fr: "frame_color f = Red" by simp
    have rt: "k \<noteq> [] \<longrightarrow> ctx_root Red k = Black"
      using "3.prems" by (cases k) (auto simp: ins_pre_def)
    show ?thesis
    proof (cases g)
      case (FL gc ga u)
      show ?thesis
      proof (cases "is_red u")
        case True
        have "ins_pre (Node (paint Black (plug [f] t)) Red ga (paint Black u)) k"
          using "3.prems" FL fr True rt
          by (cases f) (auto simp: ins_pre_def bh_paint_Black dest: ctx_red_ok_Black)
        with "3.IH"(1) [OF False] FL True fr show ?thesis by simp
      next
        case u: False
        with "3.prems" FL fr t tr show ?thesis
          by (cases f) (auto simp: ins_pre_def intro!: is_rbt_plug_Black dest: ctx_red_ok_Black)
      qed
    next
      case (FR u gc ga)
      show ?thesis
      proof (cases "is_red u")
        case True
        have "ins_pre (Node (paint Black u) Red ga (paint Black (plug [f] t))) k"
          using "3.prems" FR fr True rt
          by (cases f) (auto simp: ins_pre_def bh_paint_Black dest: ctx_red_ok_Black)
        with "3.IH"(2) [OF False] FR True fr show ?thesis by simp
      next
        case u: False
        with "3.prems" FR fr t tr show ?thesis
          by (cases f) (auto simp: ins_pre_def intro!: is_rbt_plug_Black dest: ctx_red_ok_Black)
      qed
    qed
  qed
qed

text \<open>Linking a new red node into an empty position of a red-black tree.\<close>

lemma ins_pre_link: "is_rbt (plug k Leaf) \<Longrightarrow> ins_pre (Node Leaf Red a Leaf) k"
proof -
  assume r: "is_rbt (plug k Leaf)"
  have "ctx_root Red k = ctx_root Black k" if "k \<noteq> []"
    using that by (cases k) auto
  with r show ?thesis by (auto simp: ins_pre_def is_rbt_def)
qed

theorem rb_insert_rbt: "is_rbt (plug k Leaf) \<Longrightarrow> is_rbt (ins_fix (Node Leaf Red a Leaf) k)"
  by (rule ins_fix_rbt, rule ins_pre_link)

text \<open>Deletion: the subtree at the position is one black node short.\<close>

definition del_pre :: "'a rbt \<Rightarrow> 'a ctx \<Rightarrow> bool" where
  "del_pre t k \<longleftrightarrow>
     red_ok (paint Black t) \<and> balanced t \<and> ctx_red_ok Black k \<and> ctx_balanced (Suc (bh t)) k \<and>
     (k \<noteq> [] \<longrightarrow> ctx_root Red k = Black)"

definition del_post :: "'a rbt + 'a rbt \<times> 'a ctx \<Rightarrow> bool" where
  "del_post x = case_sum is_rbt (\<lambda>(t, k). del_pre t k) x"

lemma del_left_inv:
  assumes "red_ok t" "balanced t" "color_of t = Black" "red_ok s" "balanced s"
    and "color_of s = Black" "bh s = Suc (bh t)"
    and "ctx_red_ok pc k" "ctx_balanced (Suc (bh t) + black pc) k"
    and "k \<noteq> [] \<longrightarrow> ctx_root Red k = Black"
  shows "del_post (del_left t pc p s k)"
proof (cases s)
  case Leaf
  with assms show ?thesis by simp
next
  case (Node ol oc ov r)
  then show ?thesis
    using assms
    by (cases ol; cases r)
       (auto simp: del_left.simps del_post_def del_pre_def bh_paint_Black
          intro!: is_rbt_plug_Black dest: ctx_red_ok_Black)
qed

lemma del_right_inv:
  assumes "red_ok t" "balanced t" "color_of t = Black" "red_ok s" "balanced s"
    and "color_of s = Black" "bh s = Suc (bh t)"
    and "ctx_red_ok pc k" "ctx_balanced (Suc (bh t) + black pc) k"
    and "k \<noteq> [] \<longrightarrow> ctx_root Red k = Black"
  shows "del_post (del_right s pc p t k)"
proof (cases s)
  case Leaf
  with assms show ?thesis by simp
next
  case (Node l oc ov r)
  then show ?thesis
    using assms
    by (cases l; cases r)
       (auto simp: del_right.simps del_post_def del_pre_def bh_paint_Black
          intro!: is_rbt_plug_Black dest: ctx_red_ok_Black)
qed

lemma ctx_root_nonempty: "k \<noteq> [] \<Longrightarrow> ctx_root c k = ctx_root c' k"
  by (cases k) auto

lemma del_step_inv:
  assumes "del_pre t (f # k)" and "color_of t = Black"
  shows "del_post (del_step t f k)"
proof -
  have t: "red_ok t" "balanced t" using assms by (auto simp: del_pre_def)
  have rt: "k \<noteq> [] \<longrightarrow> ctx_root Red k = Black"
    using assms(1) ctx_root_nonempty [of k "frame_color f" Red] by (auto simp: del_pre_def)
  show ?thesis
  proof (cases f)
    case (FL pc p s)
    show ?thesis
    proof (cases "is_red s")
      case True
      then obtain l sv r where s: "s = Node l Red sv r" by (cases s) auto
      with FL assms t rt show ?thesis
        by (auto simp: del_step_def del_pre_def intro!: del_left_inv)
    next
      case False
      with FL assms t rt show ?thesis
        by (cases s) (auto simp: del_step_def del_pre_def intro!: del_left_inv)
    qed
  next
    case (FR s pc p)
    show ?thesis
    proof (cases "is_red s")
      case True
      then obtain l sv r where s: "s = Node l Red sv r" by (cases s) auto
      with FR assms t rt show ?thesis
        by (auto simp: del_step_def del_pre_def intro!: del_right_inv)
    next
      case False
      with FR assms t rt show ?thesis
        by (cases s) (auto simp: del_step_def del_pre_def intro!: del_right_inv)
    qed
  qed
qed

lemma del_fix_rbt: "del_pre t k \<Longrightarrow> is_rbt (del_fix t k)"
proof (induction t k rule: del_fix.induct)
  case (1 t)
  then show ?case by (simp add: del_pre_def is_rbt_def)
next
  case (2 t f k)
  show ?case
  proof (cases "is_red t")
    case True
    with "2.prems" show ?thesis
      by (simp add: del_pre_def is_rbt_def bh_paint_Black)
  next
    case False
    with del_step_inv [OF "2.prems"] have "del_post (del_step t f k)" by simp
    with False "2.IH" show ?thesis
      by (auto simp: del_post_def split: sum.splits)
  qed
qed

text \<open>Erasing any node of a red-black tree leaves a red-black tree.\<close>

lemma rb_splice_rbt:
  assumes "red_ok t" "balanced t" "ctx_red_ok c k" "ctx_balanced (bh t + black c) k"
    and "k \<noteq> [] \<longrightarrow> ctx_root Red k = Black" and "c = Red \<longrightarrow> color_of t = Black"
    and "k = [] \<longrightarrow> c = Black"
  shows "is_rbt (rb_splice c t k)"
proof (cases c)
  case Red
  with assms show ?thesis
    using ctx_red_ok_Black [of c k] ctx_root_nonempty [of k "color_of t" Red]
    by (cases "k = []") (auto simp: rb_splice_def is_rbt_def)
next
  case Black
  with assms have "del_pre t k" by (auto simp: del_pre_def)
  with Black show ?thesis by (simp add: rb_splice_def del_fix_rbt)
qed

lemma rbt_position:
  assumes "is_rbt (plug k (Node l c a r))"
  shows "red_ok l" "red_ok r" "balanced l" "balanced r" "bh l = bh r" "ctx_red_ok c k"
    "ctx_balanced (bh l + black c) k" "c = Red \<longrightarrow> color_of l = Black \<and> color_of r = Black"
    "k \<noteq> [] \<longrightarrow> ctx_root Red k = Black" "k = [] \<longrightarrow> c = Black"
  using assms ctx_root_nonempty [of k c Red] by (auto simp: is_rbt_def)

theorem rb_erase_rbt:
  assumes "is_rbt (plug k (Node l c a r))"
  shows "is_rbt (rb_erase_at l c r k)"
proof (cases "l = Leaf \<or> r = Leaf")
  case True
  with rbt_position [OF assms] show ?thesis
    by (cases l; cases r) (auto simp: rb_erase_at_def intro!: rb_splice_rbt)
next
  case False
  then obtain rl rc ra rr where r: "r = Node rl rc ra rr" and l: "l \<noteq> Leaf" by (cases r) auto
  obtain k' mc m mr where m: "min_pos rl rc ra rr [] = (k', mc, m, mr)" by (metis prod_cases4)
  from min_pos_plug [OF m] r have pl: "plug k' (Node Leaf mc m mr) = r" by simp
  \<comment> \<open>The tree with the successor's value at the erased position.\<close>
  have "is_rbt (plug (k' @ FR l c m # k) (Node Leaf mc m mr))"
    using assms pl by (auto simp: is_rbt_def)
  from rbt_position [OF this] have "is_rbt (rb_splice mc mr (k' @ FR l c m # k))"
    by (intro rb_splice_rbt) auto
  with l r m show ?thesis by (cases l) (auto simp: rb_erase_at_def)
qed

subsection \<open>Height\<close>

fun height :: "'a rbt \<Rightarrow> nat" where
  "height Leaf = 0"
| "height (Node l c a r) = Suc (max (height l) (height r))"

lemma height_bh:
  "red_ok t \<Longrightarrow> balanced t \<Longrightarrow> height t \<le> 2 * bh t + (if is_red t then 1 else 0)"
proof (induction t)
  case (Node l c a r)
  then show ?case by (cases c) (auto split: if_splits)
qed simp

lemma bh_size: "balanced t \<Longrightarrow> 2 ^ bh t \<le> Suc (length (nodes t))"
proof (induction t)
  case (Node l c a r)
  then have "2 ^ bh l \<le> Suc (length (nodes l))" "2 ^ bh l \<le> Suc (length (nodes r))" by auto
  then show ?case by (cases c) (auto intro: le_trans)
qed simp

text \<open>A search visits at most \<open>2 * log2 (n + 1)\<close> nodes.\<close>

theorem rbt_height: "is_rbt t \<Longrightarrow> 2 ^ height t \<le> (Suc (length (nodes t)))\<^sup>2"
proof -
  assume r: "is_rbt t"
  then have "(2::nat) ^ height t \<le> 2 ^ (2 * bh t)"
    using height_bh [of t] by (intro power_increasing) (auto simp: is_rbt_def)
  also have "\<dots> = (2 ^ bh t)\<^sup>2" by (simp add: power_mult [symmetric] mult.commute)
  also have "\<dots> \<le> (Suc (length (nodes t)))\<^sup>2"
    using bh_size [of t] r by (intro power_mono) (auto simp: is_rbt_def)
  finally show ?thesis .
qed

end
