(* ===== verification/Block_Table.thy ===== *)
theory Block_Table
  imports RBTree "HOL-Library.Multiset"
begin

text \<open>
  Tables kept in a red-black tree and ordered by a key. The locale \<open>ordered_table\<close> is the contract
  the client's tables rely on: what erasing, replacing and linking do to the in-order sequence of
  entries, and that they keep the tree well formed. Its facts (multisets, sums and order of the
  entries) are proved once. The interpretation discharges the contract for the functions of
  \<open>RBTree\<close>. The theory then holds the descents of \<open>client/process.c\<close>, which are searches in such a
  table.
\<close>

subsection \<open>The contract\<close>

locale ordered_table =
  fixes entries :: "'t \<Rightarrow> 'b list" and ok :: "'t \<Rightarrow> bool"
    and at :: "'p \<Rightarrow> 'b" and table_of :: "'p \<Rightarrow> 't"
    and erase :: "'p \<Rightarrow> 't" and replace :: "'b \<Rightarrow> 'p \<Rightarrow> 't"
    and hole :: "'q \<Rightarrow> 't" and link :: "'b \<Rightarrow> 'q \<Rightarrow> 't"
  assumes at_split: "\<exists>xs ys. entries (table_of p) = xs @ at p # ys \<and> entries (erase p) = xs @ ys \<and>
      (\<forall>b. entries (replace b p) = xs @ b # ys)"
    and link_split: "\<exists>xs ys. entries (hole q) = xs @ ys \<and> (\<forall>b. entries (link b q) = xs @ b # ys)"
    and ok_erase: "ok (table_of p) \<Longrightarrow> ok (erase p)"
    and ok_replace: "ok (table_of p) \<Longrightarrow> ok (replace b p)"
    and ok_link: "ok (hole q) \<Longrightarrow> ok (link b q)"
begin

lemma mset_erase: "mset (entries (table_of p)) = add_mset (at p) (mset (entries (erase p)))"
  using at_split [of p] by auto

lemma mset_replace: "mset (entries (replace b p)) = add_mset b (mset (entries (erase p)))"
  using at_split [of p] by auto

lemma mset_link: "mset (entries (link b q)) = add_mset b (mset (entries (hole q)))"
  using link_split [of q] by auto

lemma length_erase: "length (entries (table_of p)) = Suc (length (entries (erase p)))"
  using at_split [of p] by auto

lemma sum_erase:
  fixes f :: "'b \<Rightarrow> 'c :: comm_monoid_add"
  shows "sum_list (map f (entries (table_of p))) = f (at p) + sum_list (map f (entries (erase p)))"
  using at_split [of p] by (auto simp: add_ac)

lemma sum_replace:
  fixes f :: "'b \<Rightarrow> 'c :: comm_monoid_add"
  shows "sum_list (map f (entries (replace b p))) = f b + sum_list (map f (entries (erase p)))"
  using at_split [of p] by (auto simp: add_ac)

lemma sum_link:
  fixes f :: "'b \<Rightarrow> 'c :: comm_monoid_add"
  shows "sum_list (map f (entries (link b q))) = f b + sum_list (map f (entries (hole q)))"
  using link_split [of q] by (auto simp: add_ac)

lemma sorted_erase:
  fixes key :: "'b \<Rightarrow> 'k :: linorder"
  shows "sorted (map key (entries (table_of p))) \<Longrightarrow> sorted (map key (entries (erase p)))"
  using at_split [of p] by (auto simp: sorted_append)

lemma sorted_replace:
  fixes key :: "'b \<Rightarrow> 'k :: linorder"
  assumes "key b = key (at p)"
  shows "sorted (map key (entries (table_of p))) \<Longrightarrow> sorted (map key (entries (replace b p)))"
  using at_split [of p] assms by (auto simp: sorted_append)

lemma at_entry: "at p \<in> set (entries (table_of p))"
  using at_split [of p] by auto

lemma set_erase: "set (entries (erase p)) \<subseteq> set (entries (table_of p))"
  using at_split [of p] by auto

end

subsection \<open>The red-black tree provides it\<close>

type_synonym 'a position = "'a rbt \<times> color \<times> 'a \<times> 'a rbt \<times> 'a ctx"

fun pos_at :: "'a position \<Rightarrow> 'a" where
  "pos_at (l, c, b, r, k) = b"

fun pos_tree :: "'a position \<Rightarrow> 'a rbt" where
  "pos_tree (l, c, b, r, k) = plug k (Node l c b r)"

fun pos_erase :: "'a position \<Rightarrow> 'a rbt" where
  "pos_erase (l, c, b, r, k) = rb_erase_at l c r k"

fun pos_replace :: "'a \<Rightarrow> 'a position \<Rightarrow> 'a rbt" where
  "pos_replace b' (l, c, b, r, k) = plug k (Node l c b' r)"

definition tree_link :: "'a \<Rightarrow> 'a ctx \<Rightarrow> 'a rbt" where
  "tree_link b k = ins_fix (Node Leaf Red b Leaf) k"

lemma is_rbt_replace: "is_rbt (plug k (Node l c b r)) \<Longrightarrow> is_rbt (plug k (Node l c b' r))"
  by (auto simp: is_rbt_def)

interpretation tbl: ordered_table nodes is_rbt pos_at pos_tree pos_erase pos_replace "\<lambda>k. plug k Leaf" tree_link
proof
  fix p :: "'a position"
  obtain l c b r k where p: "p = (l, c, b, r, k)" by (cases p)
  then show "\<exists>xs ys. nodes (pos_tree p) = xs @ pos_at p # ys \<and> nodes (pos_erase p) = xs @ ys \<and>
      (\<forall>b. nodes (pos_replace b p) = xs @ b # ys)"
    by (intro exI [of _ "before k @ nodes l"] exI [of _ "nodes r @ after k"]) simp
  show "is_rbt (pos_tree p) \<Longrightarrow> is_rbt (pos_erase p)" using p rb_erase_rbt by auto
  show "is_rbt (pos_tree p) \<Longrightarrow> is_rbt (pos_replace b p)" for b using p is_rbt_replace by auto
next
  fix q :: "'a ctx" and b
  show "\<exists>xs ys. nodes (plug q Leaf) = xs @ ys \<and> (\<forall>b. nodes (tree_link b q) = xs @ b # ys)"
    by (intro exI [of _ "before q"] exI [of _ "after q"]) (simp add: tree_link_def)
  show "is_rbt (plug q Leaf) \<Longrightarrow> is_rbt (tree_link b q)"
    by (simp add: tree_link_def rb_insert_rbt)
qed

subsection \<open>The block table\<close>

record rb_block =
  b_flags :: ulong
  b_addr :: ulong
  b_size :: ulong
  b_stack :: nat

type_synonym block_table = "rb_block rbt"

text \<open>A block starts inside the range that begins at \<open>addr\<close>; the sum wraps around.\<close>

definition starts_in :: "ulong \<Rightarrow> ulong \<Rightarrow> rb_block \<Rightarrow> bool" where
  "starts_in addr sz b \<longleftrightarrow> addr \<le> b_addr b \<and> addr + sz > b_addr b"

fun search_range_loop :: "ulong \<Rightarrow> ulong \<Rightarrow> block_table \<Rightarrow> rb_block ctx \<Rightarrow> rb_block position option" where
  "search_range_loop addr sz Leaf k = None"
| "search_range_loop addr sz (Node l c b r) k =
     (if addr \<le> b_addr b \<and> addr + sz > b_addr b then Some (l, c, b, r, k)
      else if addr < b_addr b then search_range_loop addr sz l (FL c b r # k)
      else search_range_loop addr sz r (FR l c b # k))"

definition process_rb_search_range :: "block_table \<Rightarrow> ulong \<Rightarrow> ulong \<Rightarrow> rb_block position option" where
  "process_rb_search_range root addr sz =
     (let sz = (if sz = 0 then 1 else sz) in search_range_loop addr sz root [])"

fun search_loop :: "ulong \<Rightarrow> block_table \<Rightarrow> rb_block ctx \<Rightarrow> rb_block position option" where
  "search_loop addr Leaf k = None"
| "search_loop addr (Node l c b r) k =
     (if addr = b_addr b then Some (l, c, b, r, k)
      else if addr < b_addr b then search_loop addr l (FL c b r # k)
      else search_loop addr r (FR l c b # k))"

definition process_rb_search :: "block_table \<Rightarrow> ulong \<Rightarrow> rb_block position option" where
  "process_rb_search root addr = search_loop addr root []"

text \<open>
  The descent of \<open>process_rb_insert_block\<close>: the place for the new block, and the blocks on the
  way that start inside it.
\<close>

fun insert_place :: "ulong \<Rightarrow> ulong \<Rightarrow> block_table \<Rightarrow> rb_block ctx \<Rightarrow> rb_block list \<times> rb_block ctx" where
  "insert_place addr n Leaf k = ([], k)"
| "insert_place addr n (Node l c b r) k =
     (let (hits, place) =
            (if addr < b_addr b then insert_place addr n l (FL c b r # k)
             else insert_place addr n r (FR l c b # k))
      in (if addr \<le> b_addr b \<and> addr + n > b_addr b then b # hits else hits, place))"

abbreviation by_addr :: "block_table \<Rightarrow> bool" where
  "by_addr t \<equiv> sorted (map b_addr (nodes t))"

text \<open>A search gives a position of the table.\<close>

lemma search_range_loop_Some:
  "search_range_loop addr n t k = Some p \<Longrightarrow> pos_tree p = plug k t \<and> starts_in addr n (pos_at p)"
  by (induction addr n t k rule: search_range_loop.induct) (auto simp: starts_in_def split: if_splits)

lemma search_range_loop_None:
  "search_range_loop addr n t k = None \<Longrightarrow> by_addr t \<Longrightarrow> b \<in> set (nodes t) \<Longrightarrow> \<not> starts_in addr n b"
proof (induction addr n t k rule: search_range_loop.induct)
  case (2 addr n l c x r k)
  have le: "\<And>y. y \<in> set (nodes l) \<Longrightarrow> b_addr y \<le> b_addr x" "\<And>y. y \<in> set (nodes r) \<Longrightarrow> b_addr x \<le> b_addr y"
    using "2.prems"(2) by (auto simp: sorted_append)
  have no: "\<not> starts_in addr n x" using "2.prems"(1) by (auto simp: starts_in_def split: if_splits)
  have s: "by_addr l" "by_addr r" using "2.prems"(2) by (auto simp: sorted_append)
  show ?case
  proof (cases "addr < b_addr x")
    case True
    then have "\<not> starts_in addr n y" if "y \<in> set (nodes r)" for y
      using no le(2) [OF that] by (auto simp: starts_in_def)
    then show ?thesis using True "2.IH"(1) "2.prems" no s by (auto simp: starts_in_def split: if_splits)
  next
    case False
    then have "\<not> starts_in addr n y" if "y \<in> set (nodes l)" for y
      using no le(1) [OF that] False unfolding starts_in_def by (metis dual_order.antisym dual_order.trans leI)
    then show ?thesis using False "2.IH"(2) "2.prems" no s by (auto simp: starts_in_def split: if_splits)
  qed
qed simp

lemma process_rb_search_range_Some:
  "process_rb_search_range t addr sz = Some p \<Longrightarrow>
   pos_tree p = t \<and> starts_in addr (if sz = 0 then 1 else sz) (pos_at p)"
  by (auto simp: process_rb_search_range_def Let_def dest: search_range_loop_Some split: if_splits)

lemma process_rb_search_range_None:
  "process_rb_search_range t addr sz = None \<Longrightarrow> by_addr t \<Longrightarrow> b \<in> set (nodes t) \<Longrightarrow>
   \<not> starts_in addr (if sz = 0 then 1 else sz) b"
  by (auto simp: process_rb_search_range_def Let_def dest: search_range_loop_None split: if_splits)

lemma search_loop_Some: "search_loop addr t k = Some p \<Longrightarrow> pos_tree p = plug k t \<and> b_addr (pos_at p) = addr"
  by (induction addr t k rule: search_loop.induct) (auto split: if_splits)

lemma search_loop_None:
  "search_loop addr t k = None \<Longrightarrow> by_addr t \<Longrightarrow> b \<in> set (nodes t) \<Longrightarrow> b_addr b \<noteq> addr"
proof (induction addr t k rule: search_loop.induct)
  case (2 addr l c x r k)
  then show ?case by (cases "addr < b_addr x") (auto simp: sorted_append split: if_splits)
qed simp

lemma process_rb_search_Some:
  "process_rb_search t addr = Some p \<Longrightarrow> pos_tree p = t \<and> b_addr (pos_at p) = addr"
  by (auto simp: process_rb_search_def dest: search_loop_Some)

lemma process_rb_search_None:
  "process_rb_search t addr = None \<Longrightarrow> by_addr t \<Longrightarrow> b \<in> set (nodes t) \<Longrightarrow> b_addr b \<noteq> addr"
  by (auto simp: process_rb_search_def dest: search_loop_None)

lemma insert_place_plug: "insert_place addr n t k = (hits, place) \<Longrightarrow> plug place Leaf = plug k t"
  by (induction addr n t k arbitrary: hits rule: insert_place.induct) (auto split: if_splits prod.splits)

lemma insert_place_before:
  "insert_place addr n t k = (hits, place) \<Longrightarrow> by_addr t \<Longrightarrow>
   \<exists>xs ys. before place = before k @ xs \<and> after place = ys @ after k \<and> nodes t = xs @ ys \<and>
     (\<forall>x \<in> set xs. b_addr x \<le> addr) \<and> (\<forall>y \<in> set ys. addr < b_addr y)"
proof (induction addr n t k arbitrary: hits rule: insert_place.induct)
  case (2 addr n l c x r k)
  show ?case
  proof (cases "addr < b_addr x")
    case True
    with 2 obtain hits' xs ys where xy: "before place = before k @ xs" "after place = ys @ x # nodes r @ after k"
        "nodes l = xs @ ys" "\<forall>x \<in> set xs. b_addr x \<le> addr" "\<forall>y \<in> set ys. addr < b_addr y"
      by (fastforce simp: sorted_append split: prod.splits)
    with True "2.prems"(2) show ?thesis
      by (intro exI [of _ xs] exI [of _ "ys @ x # nodes r"]) (auto simp: sorted_append)
  next
    case False
    with 2 obtain hits' xs ys where xy: "before place = before k @ nodes l @ x # xs" "after place = ys @ after k"
        "nodes r = xs @ ys" "\<forall>x \<in> set xs. b_addr x \<le> addr" "\<forall>y \<in> set ys. addr < b_addr y"
      by (fastforce simp: sorted_append split: prod.splits)
    with False "2.prems"(2) show ?thesis
      by (intro exI [of _ "nodes l @ x # xs"] exI [of _ ys]) (auto simp: sorted_append)
  qed
qed simp

lemma by_addr_link:
  assumes "insert_place addr n t [] = (hits, place)" and "by_addr t" and "b_addr b = addr"
  shows "by_addr (tree_link b place)"
  using insert_place_before [OF assms(1,2)] assms(2,3)
  by (auto simp: tree_link_def sorted_append)

text \<open>When no block starts inside the new one, the new address is not in the table.\<close>

lemma insert_place_hits:
  "insert_place addr n t k = (hits, place) \<Longrightarrow> b \<in> set hits \<Longrightarrow> b \<in> set (nodes t) \<and> starts_in addr n b"
  by (induction addr n t k arbitrary: hits rule: insert_place.induct)
     (auto simp: starts_in_def split: if_splits prod.splits)

end
