(* ===== verification/Client_Process.thy ===== *)
theory Client_Process
  imports Client_Types Block_Table
begin

text \<open>
  The client's view of a traced process (\<open>client/process.c\<close>, \<open>client/process.h\<close>): the table of
  open allocations, the table of call stacks with their reference counts and statistics, the list
  of mappings and the list of pending reallocations, with every message handler. Blocks live in the
  nodes of the block table; a stack node and the stack it shares with the copies of the process are
  heap objects named by a number, absent once freed. A handler returns the process and the heap, or
  the way the client dies: \<open>NullDeref\<close> for a null or dangling pointer, \<open>ReadPastEnd\<close> for a read
  outside the message, \<open>Abort\<close>, \<open>AssertFailed\<close> and \<open>Fatal\<close> for the calls of that name.
  Output is a log of events. BFD and the regular expression library are parameters (\<open>client_env\<close>).
\<close>

unbundle bit_operations_syntax

subsection \<open>State\<close>

datatype client_error = NullDeref | ReadPastEnd | Abort | AssertFailed | Fatal string

type_synonym 'a res = "client_error + 'a"

definition BLOCK_LEAKED :: ulong where "BLOCK_LEAKED = 1"
definition BLOCK_SCANNED :: ulong where "BLOCK_SCANNED = 2"
definition BLOCK_IGNORE :: ulong where "BLOCK_IGNORE = 4"

record rb_sym =
  sym_addr :: ulong
  sym_name :: "string option"
  sym_binfile :: "string option"
  sym_si_info :: bool

record stack =
  s_refcnt :: ulong
  s_addrs :: bytes
  s_size :: u32
  s_entries :: u32
  s_syms :: "rb_sym option list option"
  s_operation :: mt_operation
  s_ignore :: bool

record rb_stack =
  rs_stack :: nat
  rs_refcnt :: ulong
  rs_leaks :: ulong
  rs_n_allocations :: u64
  rs_total_allocations :: u64
  rs_bytes_used :: u64
  rs_bytes_leaked :: u64
  rs_tsc :: u64
  rs_n_mismatched :: u64
  rs_n_badfree :: u64

record map_entry =
  m_offset :: ulong
  m_addr :: ulong
  m_size :: ulong
  m_bias :: ulong
  m_filename :: string
  m_binfile :: "nat option"
  m_ignore :: bool

record realloc_entry =
  re_pid :: u32
  re_addr :: ulong
  re_size :: ulong
  re_flags :: ulong
  re_stack :: "nat option"

datatype process_status =
  MT_PROCESS_RUNNING | MT_PROCESS_EXIT | MT_PROCESS_EXITING | MT_PROCESS_IGNORE | MT_PROCESS_DETACH

record process =
  status :: process_status
  p_pid :: u32
  filename :: "string option"
  bytes_used :: ulong
  n_allocations :: ulong
  total_allocations :: ulong
  leaks :: ulong
  leaked_bytes :: u64
  stack_trees :: ulong
  block_table :: block_table
  stack_table :: "nat rbt"
  map_list :: "map_entry list"
  realloc_list :: "realloc_entry list"
  tsc :: u64
  tracing :: bool
  swap_endian :: bool
  is_64bit :: bool
  attached :: bool
  get_ulong :: "bytes \<Rightarrow> ulong option"
  put_ulong :: "ulong \<Rightarrow> bytes"
  pval16 :: "u16 \<Rightarrow> u16"
  pval32 :: "u32 \<Rightarrow> u32"
  pval64 :: "u64 \<Rightarrow> u64"
  ptr_size :: nat

text \<open>What the handlers print or send.\<close>

datatype event =
    Collision u32 mt_operation ulong ulong mt_operation ulong ulong
  | FileNotFound string
  | InsertFailed
  | Message mt_operation bytes
  | Report string "ulong list"
  | StackReport mt_operation rb_stack "(ulong \<times> string list) list"

text \<open>
  The heap: stack nodes, stacks, the number of calls of \<open>malloc\<close> so far and which of them fail.
\<close>

record heap =
  rbs :: "nat \<Rightarrow> rb_stack option"
  stks :: "nat \<Rightarrow> stack option"
  brk :: nat
  oom :: "nat \<Rightarrow> bool"
  events :: "event list"

text \<open>
  The options and the libraries. \<open>env_fdiv\<close> is the quotient of two integers as doubles, a point of the
  totally ordered set of double values.
\<close>

record client_env =
  env_access :: "string \<Rightarrow> bool"
  env_asprintf :: "string \<Rightarrow> bool"
  env_bin_file_open :: "string \<Rightarrow> string \<Rightarrow> nat option"
  env_bin_file_lookup :: "nat \<Rightarrow> ulong \<Rightarrow> ulong \<Rightarrow> rb_sym option"
  regex_ignore_list :: "(string \<Rightarrow> bool) list"
  opt_b :: "string list"
  opt_kill :: bool
  opt_interactive :: bool
  opt_auto_scan :: bool
  opt_sort_by :: nat
  opt_verbose :: nat
  opt_lflag :: bool
  opt_output_stderr :: bool
  env_fdiv :: "u64 \<Rightarrow> u64 \<Rightarrow> int"
  env_pager_quit :: "nat \<Rightarrow> bool"

subsection \<open>Heap access\<close>

definition malloc :: "heap \<Rightarrow> nat option \<times> heap" where
  "malloc h = (if oom h (brk h) then None else Some (brk h), h\<lparr>brk := Suc (brk h)\<rparr>)"

definition emit :: "event \<Rightarrow> heap \<Rightarrow> heap" where
  "emit e h = h\<lparr>events := events h @ [e]\<rparr>"

definition get_rbs :: "heap \<Rightarrow> nat \<Rightarrow> rb_stack res" where
  "get_rbs h i = (case rbs h i of None \<Rightarrow> Inl NullDeref | Some n \<Rightarrow> Inr n)"

definition get_stk :: "heap \<Rightarrow> nat \<Rightarrow> stack res" where
  "get_stk h i = (case stks h i of None \<Rightarrow> Inl NullDeref | Some s \<Rightarrow> Inr s)"

definition upd_rbs :: "nat \<Rightarrow> (rb_stack \<Rightarrow> rb_stack) \<Rightarrow> heap \<Rightarrow> heap res" where
  "upd_rbs i f h = bindE (get_rbs h i) (\<lambda>n. Inr (h\<lparr>rbs := (rbs h)(i := Some (f n))\<rparr>))"

text \<open>\<open>stack_node->stack->operation\<close> and the like.\<close>

definition stack_of :: "heap \<Rightarrow> nat \<Rightarrow> stack res" where
  "stack_of h i = bindE (get_rbs h i) (\<lambda>n. get_stk h (rs_stack n))"

definition add_ignore_regex :: "(string \<Rightarrow> bool) \<Rightarrow> client_env \<Rightarrow> client_env" where
  "add_ignore_regex re env = env\<lparr>regex_ignore_list := regex_ignore_list env @ [re]\<rparr>"

subsection \<open>Mappings and symbols\<close>

fun locate_map :: "map_entry list \<Rightarrow> ulong \<Rightarrow> nat option" where
  "locate_map [] a = None"
| "locate_map (m # ms) a =
     (if a \<ge> m_addr m \<and> a < m_addr m + m_size m then Some 0 else map_option Suc (locate_map ms a))"

text \<open>
  The inner loop of \<open>open_map\<close>: the file name as it is, then without its leading components. The
  outer value is \<open>None\<close> when the name is not found, \<open>Some None\<close> when memory for the path runs out.
\<close>

function try_names :: "client_env \<Rightarrow> string \<Rightarrow> string \<Rightarrow> string \<Rightarrow> nat option option res" where
  "try_names env prefix mapname fname =
     (let realpath = prefix @ fname in
      if \<not> env_asprintf env realpath then Inr (Some None)
      else case (if env_access env realpath then env_bin_file_open env realpath mapname else None) of
        Some bf \<Rightarrow> Inr (Some (Some bf))
      | None \<Rightarrow>
          (case fname of
             [] \<Rightarrow> Inl ReadPastEnd
           | _ # rest \<Rightarrow>
               (case dropWhile (\<lambda>c. c \<noteq> CHR ''/'') rest of
                  [] \<Rightarrow> Inr None
                | _ # fname' \<Rightarrow> try_names env prefix mapname fname')))"
  by pat_completeness auto
termination
proof (relation "measure (\<lambda>(env, prefix, mapname, fname). length fname)")
  fix rest fname' :: string and x c env prefix mapname fname
  assume "fname = x # rest" "dropWhile (\<lambda>c. c \<noteq> CHR ''/'') rest = c # fname'"
  then show "((env, prefix, mapname, fname'), env, prefix, mapname, fname) \<in> measure (\<lambda>(env, prefix, mapname, fname). length fname)"
    using length_dropWhile_le [of "\<lambda>c. c \<noteq> CHR ''/''" rest] by simp
qed simp

declare try_names.simps [simp del]

definition path_prefix :: "string \<Rightarrow> string" where
  "path_prefix pathname =
     rev (dropWhile (\<lambda>c. c = CHR ''/'') (rev pathname)) @ (if pathname = [] then [] else ''/'')"

fun try_paths :: "client_env \<Rightarrow> string list \<Rightarrow> string \<Rightarrow> nat option option res" where
  "try_paths env [] mapname = Inr None"
| "try_paths env (p # ps) mapname =
     bindE (try_names env (path_prefix p) mapname mapname)
       (\<lambda>r. case r of None \<Rightarrow> try_paths env ps mapname | Some bf \<Rightarrow> Inr (Some bf))"

definition open_map ::
  "client_env \<Rightarrow> process \<Rightarrow> heap \<Rightarrow> ulong \<Rightarrow> (map_entry option \<times> process \<times> heap) res" where
  "open_map env pr h addr =
     (case locate_map (map_list pr) addr of
        None \<Rightarrow> Inr (None, pr, h)
      | Some i \<Rightarrow>
          let m = map_list pr ! i in
          if m_binfile m \<noteq> None then Inr (Some m, pr, h)
          else if m_ignore m then Inr (Some m, pr, h)
          else
            bindE (try_paths env (if opt_b env = [] then [''''] else opt_b env) (m_filename m))
              (\<lambda>r. let m' = (case r of Some (Some bf) \<Rightarrow> m\<lparr>m_binfile := Some bf\<rparr>
                             | _ \<Rightarrow> m\<lparr>m_ignore := True\<rparr>);
                       h' = (if r = None then emit (FileNotFound (m_filename m)) h else h)
                   in Inr (Some m', pr\<lparr>map_list := (map_list pr)[i := m']\<rparr>, h')))"

definition resolv_address ::
  "client_env \<Rightarrow> process \<Rightarrow> heap \<Rightarrow> ulong \<Rightarrow> (rb_sym option \<times> process \<times> heap) res" where
  "resolv_address env pr h addr =
     bindE (open_map env pr h addr) (\<lambda>(m, pr, h).
       let looked = (case m of None \<Rightarrow> None
                     | Some m \<Rightarrow> (case m_binfile m of None \<Rightarrow> None
                                  | Some bf \<Rightarrow> env_bin_file_lookup env bf addr (m_bias m)))
       in case looked of
            Some sy \<Rightarrow> Inr (Some sy, pr, h)
          | None \<Rightarrow>
              (case malloc h of
                 (None, h) \<Rightarrow> Inr (None, pr, h)
               | (Some _, h) \<Rightarrow>
                   (case m of
                      None \<Rightarrow> Inl NullDeref
                    | Some m \<Rightarrow> Inr (Some \<lparr>sym_addr = addr, sym_name = Some (m_filename m),
                        sym_binfile = None, sym_si_info = False\<rparr>, pr, h))))"

text \<open>\<open>stack_resolv\<close>: the symbols of the first \<open>n\<close> addresses, then the ignore filter.\<close>

fun resolv_all ::
  "client_env \<Rightarrow> process \<Rightarrow> heap \<Rightarrow> nat \<Rightarrow> bytes \<Rightarrow> (rb_sym option list \<times> process \<times> heap) res" where
  "resolv_all env pr h 0 addrs = Inr ([], pr, h)"
| "resolv_all env pr h (Suc n) addrs =
     (case get_ulong pr addrs of
        None \<Rightarrow> Inl ReadPastEnd
      | Some addr \<Rightarrow>
          bindE (resolv_address env pr h addr) (\<lambda>(sy, pr, h).
            bindE (resolv_all env pr h n (drop (ptr_size pr) addrs)) (\<lambda>(syms, pr, h).
              Inr (sy # syms, pr, h))))"

definition sym_matches :: "client_env \<Rightarrow> rb_sym option \<Rightarrow> bool" where
  "sym_matches env sy =
     (case sy of
        Some s \<Rightarrow> (case sym_name s of Some n \<Rightarrow> list_ex (\<lambda>re. re n) (regex_ignore_list env) | None \<Rightarrow> False)
      | None \<Rightarrow> False)"

definition stack_resolv ::
  "client_env \<Rightarrow> process \<Rightarrow> heap \<Rightarrow> stack \<Rightarrow> (stack \<times> process \<times> heap) res" where
  "stack_resolv env pr h s =
     (case malloc h of
        (None, h) \<Rightarrow> Inr (s\<lparr>s_syms := None\<rparr>, pr, h)
      | (Some _, h) \<Rightarrow>
          bindE (resolv_all env pr h (unat (s_entries s)) (s_addrs s)) (\<lambda>(syms, pr, h).
            Inr (s\<lparr>s_syms := Some syms, s_ignore := s_ignore s \<or> list_ex (sym_matches env) syms\<rparr>, pr, h)))"

subsection \<open>Stack nodes\<close>

definition stack_get :: "nat \<Rightarrow> heap \<Rightarrow> heap res" where
  "stack_get i h =
     bindE (get_rbs h i) (\<lambda>n.
     bindE (get_stk h (rs_stack n)) (\<lambda>s.
       Inr (h\<lparr>rbs := (rbs h)(i := Some (n\<lparr>rs_refcnt := rs_refcnt n + 1\<rparr>)),
              stks := (stks h)(rs_stack n := Some (s\<lparr>s_refcnt := s_refcnt s + 1\<rparr>))\<rparr>)))"

definition stack_put :: "nat \<Rightarrow> heap \<Rightarrow> heap res" where
  "stack_put i h =
     bindE (get_rbs h i) (\<lambda>n.
     bindE (get_stk h (rs_stack n)) (\<lambda>s.
       Inr (h\<lparr>rbs := (rbs h)(i := (if rs_refcnt n - 1 = 0 then None
                                   else Some (n\<lparr>rs_refcnt := rs_refcnt n - 1\<rparr>))),
              stks := (stks h)(rs_stack n := (if s_refcnt s - 1 = 0 then None
                                              else Some (s\<lparr>s_refcnt := s_refcnt s - 1\<rparr>)))\<rparr>)))"

text \<open>
  The descent of \<open>stack_add\<close> and \<open>stack_clone\<close>: the node with these addresses, or the place for a
  new one.
\<close>

fun stack_place :: "heap \<Rightarrow> bytes \<Rightarrow> nat rbt \<Rightarrow> nat ctx \<Rightarrow> (nat + nat ctx) res" where
  "stack_place h addrs Leaf k = Inr (Inr k)"
| "stack_place h addrs (Node l c i r) k =
     bindE (stack_of h i) (\<lambda>s.
       let ret = memncmp addrs (s_addrs s) in
       if ret < 0 then stack_place h addrs l (FL c i r # k)
       else if ret > 0 then stack_place h addrs r (FR l c i # k)
       else Inr (Inl i))"

definition stack_clone :: "process \<Rightarrow> heap \<Rightarrow> nat \<Rightarrow> (nat option \<times> process \<times> heap) res" where
  "stack_clone pr h i =
     bindE (get_rbs h i) (\<lambda>n.
     bindE (get_stk h (rs_stack n)) (\<lambda>s.
     bindE (stack_place h (s_addrs s) (stack_table pr) []) (\<lambda>place.
       case place of
         Inl this \<Rightarrow> Inr (Some this, pr, h)
       | Inr k \<Rightarrow>
           (case malloc h of
              (None, h) \<Rightarrow> Inr (None, pr, h)
            | (Some this, h) \<Rightarrow>
                bindE (stack_get this (h\<lparr>rbs := (rbs h)(this := Some (n\<lparr>rs_refcnt := 0\<rparr>))\<rparr>)) (\<lambda>h.
                  Inr (Some this,
                    pr\<lparr>stack_table := tree_link this k, stack_trees := stack_trees pr + 1\<rparr>, h))))))"

definition stack_add ::
  "client_env \<Rightarrow> process \<Rightarrow> heap \<Rightarrow> bytes \<Rightarrow> u32 \<Rightarrow> mt_operation \<Rightarrow> (nat option \<times> process \<times> heap) res" where
  "stack_add env pr h addrs stack_size op =
     (case read_bytes (unat stack_size) addrs of
        None \<Rightarrow> Inl ReadPastEnd
      | Some addrs \<Rightarrow>
     bindE (stack_place h addrs (stack_table pr) []) (\<lambda>place.
       case place of
         Inl this \<Rightarrow>
           bindE (stack_of h this) (\<lambda>s.
             if s_operation s = op then Inr (Some this, pr, h) else Inl AssertFailed)
       | Inr k \<Rightarrow>
           (case malloc h of
              (None, h) \<Rightarrow> Inr (None, pr, h)
            | (Some this, h) \<Rightarrow>
                (case malloc h of
                   (None, h) \<Rightarrow> Inr (None, pr, h)
                 | (Some sp, h) \<Rightarrow>
                     (case malloc h of
                        (None, h) \<Rightarrow> Inl NullDeref
                      | (Some _, h) \<Rightarrow>
                          let s = \<lparr>s_refcnt = 0, s_addrs = addrs, s_size = stack_size,
                                s_entries = stack_size div of_nat (ptr_size pr), s_syms = None,
                                s_operation = op, s_ignore = False\<rparr>;
                              n = \<lparr>rs_stack = sp, rs_refcnt = 0, rs_leaks = 0, rs_n_allocations = 0,
                                rs_total_allocations = 0, rs_bytes_used = 0, rs_bytes_leaked = 0,
                                rs_tsc = 0, rs_n_mismatched = 0, rs_n_badfree = 0\<rparr>
                          in
                          bindE (stack_get this (h\<lparr>rbs := (rbs h)(this := Some n), stks := (stks h)(sp := Some s)\<rparr>)) (\<lambda>h.
                          bindE (get_stk h sp) (\<lambda>s.
                          bindE (stack_resolv env pr h s) (\<lambda>(s, pr, h).
                            Inr (Some this,
                              pr\<lparr>stack_table := tree_link this k, stack_trees := stack_trees pr + 1\<rparr>,
                              h\<lparr>stks := (stks h)(sp := Some s)\<rparr>)))))))))"

subsection \<open>Blocks\<close>

definition process_dump_collision ::
  "process \<Rightarrow> heap \<Rightarrow> rb_block \<Rightarrow> ulong \<Rightarrow> ulong \<Rightarrow> mt_operation \<Rightarrow> heap res" where
  "process_dump_collision pr h this addr sz op =
     bindE (stack_of h (b_stack this)) (\<lambda>s.
       Inr (emit (Collision (p_pid pr) op addr sz (s_operation s) (b_addr this) (b_size this)) h))"

text \<open>The block as \<open>process_release_mem\<close> leaves it; its \<open>size\<close> parameter has 32 bits.\<close>

definition process_release_mem ::
  "process \<Rightarrow> heap \<Rightarrow> rb_block \<Rightarrow> u32 \<Rightarrow> (rb_block \<times> process \<times> heap) res" where
  "process_release_mem pr h b sz =
     bindE
       (if b_flags b AND BLOCK_LEAKED \<noteq> 0
        then bindE (upd_rbs (b_stack b) (\<lambda>n. n\<lparr>rs_leaks := rs_leaks n - 1,
                 rs_bytes_leaked := rs_bytes_leaked n - b_size b\<rparr>) h) (\<lambda>h.
               Inr (b\<lparr>b_flags := b_flags b AND NOT BLOCK_LEAKED\<rparr>,
                    pr\<lparr>leaks := leaks pr - 1, leaked_bytes := leaked_bytes pr - b_size b\<rparr>, h))
        else Inr (b, pr, h))
       (\<lambda>(b, pr, h).
          bindE (upd_rbs (b_stack b) (\<lambda>n. n\<lparr>rs_bytes_used := rs_bytes_used n - ucast sz\<rparr>) h) (\<lambda>h.
            Inr (b, pr\<lparr>bytes_used := bytes_used pr - ucast sz\<rparr>, h)))"

definition process_rb_delete_block ::
  "process \<Rightarrow> heap \<Rightarrow> rb_block position \<Rightarrow> (process \<times> heap) res" where
  "process_rb_delete_block pr h pos =
     (let pr = pr\<lparr>block_table := pos_erase pos\<rparr>; b = pos_at pos in
      bindE (process_release_mem pr h b (ucast (b_size b))) (\<lambda>(b, pr, h).
      bindE (upd_rbs (b_stack b) (\<lambda>n. n\<lparr>rs_n_allocations := rs_n_allocations n - 1\<rparr>) h) (\<lambda>h.
      bindE (stack_put (b_stack b) h) (\<lambda>h.
        Inr (pr\<lparr>n_allocations := n_allocations pr - 1\<rparr>, h)))))"

fun dump_collisions ::
  "client_env \<Rightarrow> process \<Rightarrow> heap \<Rightarrow> rb_block list \<Rightarrow> ulong \<Rightarrow> ulong \<Rightarrow> mt_operation \<Rightarrow> heap res" where
  "dump_collisions env pr h [] addr sz op = Inr h"
| "dump_collisions env pr h (b # bs) addr sz op =
     bindE (process_dump_collision pr h b addr sz op) (\<lambda>h.
       if opt_kill env then Inl Abort else dump_collisions env pr h bs addr sz op)"

text \<open>The result is \<open>False\<close> when there is no memory for the block.\<close>

definition process_rb_insert_block ::
  "client_env \<Rightarrow> process \<Rightarrow> heap \<Rightarrow> ulong \<Rightarrow> ulong \<Rightarrow> nat option \<Rightarrow> ulong \<Rightarrow> mt_operation
     \<Rightarrow> (bool \<times> process \<times> heap) res" where
  "process_rb_insert_block env pr h addr sz stk flags op =
     (let n = (if sz = 0 then 1 else sz);
          (hits, place) = insert_place addr n (block_table pr) []
      in
      bindE (dump_collisions env pr h hits addr sz op) (\<lambda>h.
        case malloc h of
          (None, h) \<Rightarrow> Inr (False, pr, h)
        | (Some _, h) \<Rightarrow>
            (case stk of
               None \<Rightarrow> Inl NullDeref
             | Some i \<Rightarrow>
                 bindE (upd_rbs i (\<lambda>n. n\<lparr>rs_n_allocations := rs_n_allocations n + 1,
                   rs_total_allocations := rs_total_allocations n + 1,
                   rs_bytes_used := rs_bytes_used n + sz\<rparr>) h) (\<lambda>h.
                 bindE (stack_get i h) (\<lambda>h.
                   let b = \<lparr>b_flags = flags, b_addr = addr, b_size = sz, b_stack = i\<rparr> in
                   Inr (True, pr\<lparr>block_table := tree_link b place, n_allocations := n_allocations pr + 1\<rparr>, h))))))"


subsection \<open>Mappings\<close>

definition process_add_map_entry ::
  "process \<Rightarrow> ulong \<Rightarrow> ulong \<Rightarrow> ulong \<Rightarrow> ulong \<Rightarrow> string \<Rightarrow> nat option \<Rightarrow> process" where
  "process_add_map_entry pr addr offset sz bias fname binfile =
     (let m = \<lparr>m_offset = offset, m_addr = addr, m_size = sz, m_bias = bias, m_filename = fname,
            m_binfile = binfile, m_ignore = False\<rparr>;
          pr = (if map_list pr = [] then pr\<lparr>filename := Some fname\<rparr> else pr)
      in pr\<lparr>map_list := map_list pr @ [m]\<rparr>)"

text \<open>\<open>safe_strncpy\<close> into a buffer one longer than the source: the bytes up to the first zero.\<close>

definition c_string :: "bytes \<Rightarrow> string" where
  "c_string bs = map (\<lambda>b. char_of (unat b)) (takeWhile (\<lambda>b. b \<noteq> 0) bs)"

text \<open>A field of \<open>struct mt_map_payload\<close>: 8 bytes at \<open>off\<close>, in the byte order of the sender.\<close>

definition payload_u64 :: "process \<Rightarrow> bytes \<Rightarrow> nat \<Rightarrow> u64 res" where
  "payload_u64 pr payload off =
     (case read_bytes 8 (drop off payload) of
        None \<Rightarrow> Inl ReadPastEnd
      | Some bs \<Rightarrow> Inr (pval64 pr (le_word bs)))"

definition process_add_map :: "process \<Rightarrow> bytes \<Rightarrow> u32 \<Rightarrow> process res" where
  "process_add_map pr payload len =
     bindE (payload_u64 pr payload 0) (\<lambda>addr.
     bindE (payload_u64 pr payload 8) (\<lambda>offset.
     bindE (payload_u64 pr payload 16) (\<lambda>sz.
     bindE (payload_u64 pr payload 24) (\<lambda>bias.
       case read_bytes (unat len) payload of
         None \<Rightarrow> Inl ReadPastEnd
       | Some bs \<Rightarrow> Inr (process_add_map_entry pr addr offset sz bias (c_string (drop 32 bs)) None)))))"

fun del_map :: "map_entry list \<Rightarrow> ulong \<Rightarrow> ulong \<Rightarrow> ulong \<Rightarrow> map_entry list res" where
  "del_map [] addr offset sz = Inl (Fatal ''process_del_map'')"
| "del_map (m # ms) addr offset sz =
     (if m_addr m = addr \<and> m_offset m = offset \<and> m_size m = sz then Inr ms
      else bindE (del_map ms addr offset sz) (\<lambda>ms. Inr (m # ms)))"

definition process_del_map :: "process \<Rightarrow> bytes \<Rightarrow> process res" where
  "process_del_map pr payload =
     bindE (payload_u64 pr payload 0) (\<lambda>addr.
     bindE (payload_u64 pr payload 8) (\<lambda>offset.
     bindE (payload_u64 pr payload 16) (\<lambda>sz.
     bindE (del_map (map_list pr) addr offset sz) (\<lambda>ms.
       Inr (pr\<lparr>map_list := ms\<rparr>)))))"

subsection \<open>Life of a process\<close>

definition process_init :: "bool \<Rightarrow> bool \<Rightarrow> bool \<Rightarrow> process \<Rightarrow> process" where
  "process_init swap is64 att pr =
     pr\<lparr>ptr_size := (if is64 then 8 else 4),
        get_ulong := (if is64 then (if swap then get_uint64_swap else get_uint64)
                      else (if swap then get_uint32_swap else get_uint32)),
        put_ulong := (if is64 then (if swap then put_uint64_swap else put_uint64)
                      else (if swap then put_uint32_swap else put_uint32)),
        pval16 := (if swap then val16_swap else val16),
        pval32 := (if swap then val32_swap else val32),
        pval64 := (if swap then val64_swap else val64),
        is_64bit := is64, attached := att, swap_endian := swap,
        status := MT_PROCESS_RUNNING, filename := None\<rparr>"

definition process_new :: "u32 \<Rightarrow> bool \<Rightarrow> bool \<Rightarrow> process" where
  "process_new pid swap trc =
     process_init swap False False
       \<lparr>status = MT_PROCESS_RUNNING, p_pid = pid, filename = None, bytes_used = 0, n_allocations = 0,
        total_allocations = 0, leaks = 0, leaked_bytes = 0, stack_trees = 0, block_table = Leaf,
        stack_table = Leaf, map_list = [], realloc_list = [], tsc = 0, tracing = trc,
        swap_endian = False, is_64bit = False, attached = False, get_ulong = get_uint32,
        put_ulong = put_uint32, pval16 = val16, pval32 = val32, pval64 = val64, ptr_size = 0\<rparr>"

definition realloc_del :: "realloc_entry \<Rightarrow> heap \<Rightarrow> heap res" where
  "realloc_del re h = (case re_stack re of None \<Rightarrow> Inr h | Some i \<Rightarrow> stack_put i h)"

text \<open>The loops over the trees follow \<open>rbtree_postorder_for_each_entry_safe\<close>.\<close>

fun rbt_postorder :: "'a rbt \<Rightarrow> 'a list" where
  "rbt_postorder Leaf = []"
| "rbt_postorder (Node l c a r) = rbt_postorder l @ rbt_postorder r @ [a]"

fun reset_blocks :: "rb_block list \<Rightarrow> process \<Rightarrow> heap \<Rightarrow> (process \<times> heap) res" where
  "reset_blocks [] pr h = Inr (pr, h)"
| "reset_blocks (b # bs) pr h =
     bindE (upd_rbs (b_stack b) (\<lambda>n. n\<lparr>rs_n_allocations := rs_n_allocations n - 1\<rparr>) h) (\<lambda>h.
     bindE (stack_put (b_stack b) h) (\<lambda>h.
       reset_blocks bs (pr\<lparr>n_allocations := n_allocations pr - 1\<rparr>) h))"

fun reset_reallocs :: "realloc_entry list \<Rightarrow> heap \<Rightarrow> heap res" where
  "reset_reallocs [] h = Inr h"
| "reset_reallocs (re # res) h = bindE (realloc_del re h) (reset_reallocs res)"

definition process_reset_allocations :: "process \<Rightarrow> heap \<Rightarrow> (process \<times> heap) res" where
  "process_reset_allocations pr h =
     bindE (reset_blocks (rbt_postorder (block_table pr)) pr h) (\<lambda>(pr, h).
       if n_allocations pr \<noteq> 0 then Inl (Fatal ''invalid allocation count!'')
       else
         let pr = pr\<lparr>block_table := Leaf\<rparr> in
         bindE (reset_reallocs (realloc_list pr) h) (\<lambda>h.
           Inr (pr\<lparr>realloc_list := [], total_allocations := 0, bytes_used := 0, leaks := 0,
                 leaked_bytes := 0, tsc := 0\<rparr>, h)))"

fun reset_stacks :: "nat list \<Rightarrow> process \<Rightarrow> heap \<Rightarrow> (process \<times> heap) res" where
  "reset_stacks [] pr h = Inr (pr, h)"
| "reset_stacks (i # is) pr h =
     bindE (get_rbs h i) (\<lambda>n.
       if rs_refcnt n \<noteq> 1 then Inl (Fatal ''unexpected stack tree ref count!'')
       else bindE (stack_put i h) (\<lambda>h.
         reset_stacks is (pr\<lparr>stack_trees := stack_trees pr - 1\<rparr>) h))"

definition process_reset :: "process \<Rightarrow> heap \<Rightarrow> (process \<times> heap) res" where
  "process_reset pr h =
     bindE (process_reset_allocations pr h) (\<lambda>(pr, h).
     bindE (reset_stacks (rbt_postorder (stack_table pr)) pr h) (\<lambda>(pr, h).
       if stack_trees pr \<noteq> 0 then Inl (Fatal ''invalid stack tree count!'')
       else Inr (pr\<lparr>stack_table := Leaf, map_list := [], filename := None\<rparr>, h)))"

definition process_reinit :: "process \<Rightarrow> heap \<Rightarrow> bool \<Rightarrow> bool \<Rightarrow> bool \<Rightarrow> (process \<times> heap) res" where
  "process_reinit pr h swap is64 att =
     bindE (process_reset pr h) (\<lambda>(pr, h). Inr (process_init swap is64 att pr, h))"

text \<open>The callback gives whether it succeeded; \<open>rb_iterate\<close> calls it in post-order.\<close>

definition process_rb_duplicate_block ::
  "client_env \<Rightarrow> rb_block \<Rightarrow> process \<Rightarrow> heap \<Rightarrow> (bool \<times> process \<times> heap) res" where
  "process_rb_duplicate_block env b pr h =
     bindE (stack_clone pr h (b_stack b)) (\<lambda>(stk, pr, h).
     bindE (stack_of h (b_stack b)) (\<lambda>s.
     bindE (process_rb_insert_block env pr h (b_addr b) (b_size b) stk (b_flags b) (s_operation s)) (\<lambda>(done, pr, h).
       if \<not> done then Inr (False, pr, h)
       else Inr (True, pr\<lparr>bytes_used := bytes_used pr + b_size b\<rparr>, h))))"

text \<open>
  A failing callback makes \<open>rb_iterate\<close> call it again for the same block; the model stops there
  with \<open>None\<close>, no result.
\<close>

fun duplicate_blocks ::
  "client_env \<Rightarrow> rb_block list \<Rightarrow> process \<Rightarrow> heap \<Rightarrow> (process \<times> heap) option res" where
  "duplicate_blocks env [] pr h = Inr (Some (pr, h))"
| "duplicate_blocks env (b # bs) pr h =
     bindE (process_rb_duplicate_block env b pr h) (\<lambda>(done, pr, h).
       if done then duplicate_blocks env bs pr h else Inr None)"

definition add_map_copy :: "process \<Rightarrow> map_entry \<Rightarrow> process" where
  "add_map_copy pr m =
     process_add_map_entry pr (m_addr m) (m_offset m) (m_size m) (m_bias m) (m_filename m) (m_binfile m)"

text \<open>
  \<open>copy\<close> is the process to copy, \<open>None\<close> for a null pointer, which \<open>process_init\<close> dereferences before
  it is tested.
\<close>

definition process_duplicate ::
  "client_env \<Rightarrow> process \<Rightarrow> heap \<Rightarrow> process option \<Rightarrow> (process \<times> heap) option res" where
  "process_duplicate env pr h copy =
     bindE (process_reset pr h) (\<lambda>(pr, h).
       case copy of
         None \<Rightarrow> Inl NullDeref
       | Some cp \<Rightarrow>
           let pr = process_init (swap_endian cp) (is_64bit cp) (attached cp) pr in
           bindE (duplicate_blocks env (rbt_postorder (block_table cp)) pr h) (\<lambda>r.
             case r of
               None \<Rightarrow> Inr None
             | Some (pr, h) \<Rightarrow>
                 if bytes_used cp \<noteq> bytes_used pr \<or> n_allocations cp \<noteq> n_allocations pr
                 then Inl AssertFailed
                 else Inr (Some ((foldl add_map_copy pr (map_list cp))
                        \<lparr>total_allocations := total_allocations cp, tsc := tsc cp\<rparr>, h))))"


subsection \<open>Allocation messages\<close>

text \<open>
  \<open>struct mt_alloc_payload_64\<close> or \<open>_32\<close>: pointer, size (or thread), and the bytes of the call
  stack with their number, which wraps around when the message is shorter than the structure.
\<close>

definition alloc_payload :: "process \<Rightarrow> mt_msg \<Rightarrow> bytes \<Rightarrow> (ulong \<times> ulong \<times> bytes \<times> ulong) res" where
  "alloc_payload pr msg payload =
     (let w = (if is_64bit pr then 8 else 4) in
      case (get_ulong pr payload, get_ulong pr (drop w payload)) of
        (Some ptr, Some sz) \<Rightarrow>
          Inr (ptr, sz, drop (2 * w) payload, ucast (payload_len msg) - of_nat (2 * w))
      | _ \<Rightarrow> Inl ReadPastEnd)"

lemma delete_block_length:
  assumes "process_rb_delete_block pr h pos = Inr (pr', h')"
  shows "length (nodes (pos_tree pos)) = Suc (length (nodes (block_table pr')))"
  using assms tbl.length_erase [of pos]
  by (auto simp: process_rb_delete_block_def process_release_mem_def Let_def split: if_splits)

text \<open>The loop of \<open>process_alloc\<close> that drops the blocks that start inside the new one.\<close>

function evict_blocks ::
  "client_env \<Rightarrow> process \<Rightarrow> heap \<Rightarrow> ulong \<Rightarrow> ulong \<Rightarrow> mt_operation \<Rightarrow> (process \<times> heap) res" where
  "evict_blocks env pr h ptr sz op =
     (case process_rb_search_range (block_table pr) ptr sz of
        None \<Rightarrow> Inr (pr, h)
      | Some pos \<Rightarrow>
          bindE (process_dump_collision pr h (pos_at pos) ptr sz op) (\<lambda>h.
            if opt_kill env then Inl Abort
            else bindE (process_rb_delete_block pr h pos) (\<lambda>s.
              evict_blocks env (fst s) (snd s) ptr sz op)))"
  by pat_completeness auto
termination
proof (relation "measure (\<lambda>(env, pr, h, ptr, sz, op). length (nodes (block_table pr)))")
  fix env pr h ptr sz op pos h' s
  assume f: "process_rb_search_range (block_table pr) ptr sz = Some pos"
    and d: "process_rb_delete_block pr h' pos = Inr s"
  show "((env, fst s, snd s, ptr, sz, op), env, pr, h, ptr, sz, op) \<in>
      measure (\<lambda>(env, pr, h, ptr, sz, op). length (nodes (block_table pr)))"
    using delete_block_length [of pr h' pos "fst s" "snd s"] process_rb_search_range_Some [OF f] d by simp
qed simp

declare evict_blocks.simps [simp del]

definition process_alloc :: "client_env \<Rightarrow> process \<Rightarrow> heap \<Rightarrow> mt_msg \<Rightarrow> bytes \<Rightarrow> (process \<times> heap) res" where
  "process_alloc env pr h msg payload =
     (if \<not> tracing pr then Inr (pr, h)
      else
      bindE (alloc_payload pr msg payload) (\<lambda>(ptr, sz, stack_data, stack_size).
      bindE (evict_blocks env pr h ptr sz (operation msg)) (\<lambda>(pr, h).
      bindE (stack_add env pr h stack_data (ucast stack_size) (operation msg)) (\<lambda>(stk, pr, h).
      bindE (process_rb_insert_block env pr h ptr sz stk 0 (operation msg)) (\<lambda>(done, pr, h).
        if \<not> done then Inr (pr, emit InsertFailed h)
        else
          (case stk of
             None \<Rightarrow> Inl NullDeref
           | Some i \<Rightarrow>
               bindE (upd_rbs i (\<lambda>n. n\<lparr>rs_tsc := tsc pr\<rparr>) h) (\<lambda>h.
                 Inr (pr\<lparr>total_allocations := total_allocations pr + 1,
                       bytes_used := bytes_used pr + sz, tsc := tsc pr + 1\<rparr>, h))))))))"

text \<open>Which kind of release fits which kind of allocation.\<close>

fun is_sane_op :: "mt_operation \<Rightarrow> mt_operation \<Rightarrow> bool" where
  "is_sane_op MT_MALLOC op \<longleftrightarrow> op = MT_FREE \<or> op = MT_REALLOC_ENTER"
| "is_sane_op MT_REALLOC op \<longleftrightarrow> op = MT_FREE \<or> op = MT_REALLOC_ENTER"
| "is_sane_op MT_MEMALIGN op \<longleftrightarrow> op = MT_FREE \<or> op = MT_REALLOC_ENTER"
| "is_sane_op MT_POSIX_MEMALIGN op \<longleftrightarrow> op = MT_FREE \<or> op = MT_REALLOC_ENTER"
| "is_sane_op MT_ALIGNED_ALLOC op \<longleftrightarrow> op = MT_FREE \<or> op = MT_REALLOC_ENTER"
| "is_sane_op MT_VALLOC op \<longleftrightarrow> op = MT_FREE \<or> op = MT_REALLOC_ENTER"
| "is_sane_op MT_PVALLOC op \<longleftrightarrow> op = MT_FREE \<or> op = MT_REALLOC_ENTER"
| "is_sane_op MT_NEW op \<longleftrightarrow> op = MT_DELETE"
| "is_sane_op MT_NEW_ARRAY op \<longleftrightarrow> op = MT_DELETE_ARRAY"
| "is_sane_op _ op \<longleftrightarrow> False"

definition is_sane :: "heap \<Rightarrow> rb_block \<Rightarrow> mt_operation \<Rightarrow> bool res" where
  "is_sane h b op = bindE (stack_of h (b_stack b)) (\<lambda>s. Inr (is_sane_op (s_operation s) op))"

definition realloc_add ::
  "process \<Rightarrow> heap \<Rightarrow> ulong \<Rightarrow> ulong \<Rightarrow> ulong \<Rightarrow> ulong \<Rightarrow> nat option \<Rightarrow> (process \<times> heap) res" where
  "realloc_add pr h pid addr sz flags stk =
     (let re = \<lparr>re_pid = ucast pid, re_addr = addr, re_size = sz, re_flags = flags, re_stack = stk\<rparr> in
      bindE (case stk of None \<Rightarrow> Inr h | Some i \<Rightarrow> stack_get i h) (\<lambda>h.
        Inr (pr\<lparr>realloc_list := realloc_list pr @ [re]\<rparr>, h)))"

text \<open>\<open>stack_add\<close>, then a counter of the node and its time stamp; the result is not tested.\<close>

definition count_stack ::
  "client_env \<Rightarrow> process \<Rightarrow> heap \<Rightarrow> bytes \<Rightarrow> ulong \<Rightarrow> mt_operation \<Rightarrow> (rb_stack \<Rightarrow> rb_stack) \<Rightarrow> (process \<times> heap) res" where
  "count_stack env pr h stack_data stack_size op f =
     bindE (stack_add env pr h stack_data (ucast stack_size) op) (\<lambda>(stk, pr, h).
       case stk of
         None \<Rightarrow> Inl NullDeref
       | Some i \<Rightarrow>
           bindE (upd_rbs i (\<lambda>n. (f n)\<lparr>rs_tsc := tsc pr\<rparr>) h) (\<lambda>h.
             Inr (pr\<lparr>tsc := tsc pr + 1\<rparr>, h)))"

definition process_free :: "client_env \<Rightarrow> process \<Rightarrow> heap \<Rightarrow> mt_msg \<Rightarrow> bytes \<Rightarrow> (process \<times> heap) res" where
  "process_free env pr h msg payload =
     (if \<not> tracing pr then Inr (pr, h)
      else
      bindE (alloc_payload pr msg payload) (\<lambda>(ptr, pid, stack_data, stack_size).
        if ptr = 0 then Inr (pr, h)
        else
          (case process_rb_search (block_table pr) ptr of
             Some pos \<Rightarrow>
               let b = pos_at pos in
               bindE (stack_of h (b_stack b)) (\<lambda>s.
               if is_mmap (s_operation s) \<and> opt_kill env then Inl Abort
               else
               bindE
                 (if stack_size \<noteq> 0 then
                    bindE (is_sane h b (operation msg)) (\<lambda>sane.
                      if \<not> sane
                      then count_stack env pr h stack_data stack_size (operation msg)
                             (\<lambda>n. n\<lparr>rs_n_mismatched := rs_n_mismatched n + 1\<rparr>)
                      else Inr (pr, h))
                  else Inr (pr, h)) (\<lambda>(pr, h).
               bindE
                 (if operation msg = MT_REALLOC_ENTER
                  then realloc_add pr h pid (b_addr b) (b_size b) (b_flags b) (Some (b_stack b))
                  else Inr (pr, h)) (\<lambda>(pr, h).
                 process_rb_delete_block pr h pos)))
           | None \<Rightarrow>
               bindE
                 (if \<not> attached pr then
                    if opt_kill env then Inl Abort
                    else if stack_size \<noteq> 0
                    then count_stack env pr h stack_data stack_size (operation msg)
                           (\<lambda>n. n\<lparr>rs_n_badfree := rs_n_badfree n + 1\<rparr>)
                    else Inr (pr, h)
                  else Inr (pr, h)) (\<lambda>(pr, h).
                 if operation msg = MT_REALLOC_ENTER then realloc_add pr h pid 0 0 0 None
                 else Inr (pr, h)))))"

fun find_realloc :: "realloc_entry list \<Rightarrow> u32 \<Rightarrow> (realloc_entry \<times> realloc_entry list) option" where
  "find_realloc [] pid = None"
| "find_realloc (re # res) pid =
     (if re_pid re = pid then Some (re, res)
      else map_option (\<lambda>(x, rest). (x, re # rest)) (find_realloc res pid))"

definition process_realloc_done ::
  "client_env \<Rightarrow> process \<Rightarrow> heap \<Rightarrow> mt_msg \<Rightarrow> bytes \<Rightarrow> (process \<times> heap) res" where
  "process_realloc_done env pr h msg payload =
     (if \<not> tracing pr then Inr (pr, h)
      else
      bindE (alloc_payload pr msg payload) (\<lambda>(ptr, pid, _, _).
        case find_realloc (realloc_list pr) (ucast pid) of
          Some (re, rest) \<Rightarrow>
            bindE
              (if ptr = 0 \<and> re_addr re \<noteq> 0 then
                 (case re_stack re of
                    None \<Rightarrow> Inl NullDeref
                  | Some i \<Rightarrow>
                      bindE (stack_of h i) (\<lambda>s.
                      bindE (process_rb_insert_block env pr h (re_addr re) (re_size re) (Some i)
                               (re_flags re) (s_operation s)) (\<lambda>(_, pr, h).
                        Inr (pr, h))))
               else Inr (pr, h)) (\<lambda>(pr, h).
            bindE (realloc_del re h) (\<lambda>h. Inr (pr\<lparr>realloc_list := rest\<rparr>, h)))
        | None \<Rightarrow> if opt_kill env then Inl Abort else Inr (pr, h)))"

text \<open>
  One round of the loop of \<open>process_munmap\<close>; \<open>Inl\<close> is a \<open>break\<close>, \<open>Inr\<close> the pointer and size the
  condition is tested with. \<open>off\<close> has 32 bits in the source.
\<close>

definition munmap_round ::
  "client_env \<Rightarrow> process \<Rightarrow> heap \<Rightarrow> mt_operation \<Rightarrow> ulong \<Rightarrow> ulong
     \<Rightarrow> ((process \<times> heap) + (process \<times> heap \<times> ulong \<times> ulong)) res" where
  "munmap_round env pr h op ptr sz =
     (case process_rb_search_range (block_table pr) ptr sz of
        None \<Rightarrow> Inr (Inl (pr, h))
      | Some pos \<Rightarrow>
          let b = pos_at pos in
          bindE (stack_of h (b_stack b)) (\<lambda>s.
          if \<not> is_mmap (s_operation s) then (if opt_kill env then Inl Abort else Inr (Inl (pr, h)))
          else if b_addr b \<ge> ptr then
            let off = (ucast (b_addr b - ptr) :: u32);
                sz = sz - ucast off;
                ptr = ptr + ucast off
            in
            if sz < b_size b then
              bindE (process_release_mem pr h b (ucast sz)) (\<lambda>(b, pr, h).
                Inr (Inl (pr\<lparr>block_table := pos_replace
                  (b\<lparr>b_addr := b_addr b + sz, b_size := b_size b - sz\<rparr>) pos\<rparr>, h)))
            else
              bindE (process_rb_delete_block pr h pos) (\<lambda>(pr, h).
                Inr (Inr (pr, h, ptr + b_size b, sz - b_size b)))
          else
            let off = (ucast (ptr - b_addr b) :: u32) in
            if ucast off + sz < b_size b then
              let new_addr = b_addr b + (ucast off + sz);
                  new_size = b_size b - (ucast off + sz)
              in
              bindE (process_release_mem pr h b (ucast (b_size b - ucast off - new_size))) (\<lambda>(b, pr, h).
                let pr = pr\<lparr>block_table := pos_replace (b\<lparr>b_size := ucast off\<rparr>) pos\<rparr> in
                bindE (process_rb_insert_block env pr h new_addr new_size (Some (b_stack b)) 0 op) (\<lambda>(done, pr, h).
                  if \<not> done then Inr (Inl (pr, h))
                  else Inr (Inl (pr\<lparr>n_allocations := n_allocations pr + 1,
                         total_allocations := total_allocations pr + 1,
                         bytes_used := bytes_used pr + new_size\<rparr>, h))))
            else
              bindE (process_release_mem pr h b off) (\<lambda>(b, pr, h).
                let b = b\<lparr>b_addr := b_addr b + ucast off, b_size := b_size b - ucast off\<rparr> in
                Inr (Inr (pr\<lparr>block_table := pos_replace b pos\<rparr>, h, ptr + b_size b, sz - b_size b)))))"

text \<open>The loop, with a bound on the number of rounds; \<open>None\<close> when it is not enough.\<close>

fun munmap_loop ::
  "nat \<Rightarrow> client_env \<Rightarrow> process \<Rightarrow> heap \<Rightarrow> mt_operation \<Rightarrow> ulong \<Rightarrow> ulong \<Rightarrow> (process \<times> heap) option res" where
  "munmap_loop 0 env pr h op ptr sz = Inr None"
| "munmap_loop (Suc fuel) env pr h op ptr sz =
     bindE (munmap_round env pr h op ptr sz) (\<lambda>r.
       case r of
         Inl s \<Rightarrow> Inr (Some s)
       | Inr (pr, h, ptr, sz) \<Rightarrow>
           if sz \<noteq> 0 then munmap_loop fuel env pr h op ptr sz else Inr (Some (pr, h)))"

definition process_munmap ::
  "client_env \<Rightarrow> process \<Rightarrow> heap \<Rightarrow> mt_msg \<Rightarrow> bytes \<Rightarrow> (process \<times> heap) option res" where
  "process_munmap env pr h msg payload =
     (if \<not> tracing pr then Inr (Some (pr, h))
      else
      bindE (alloc_payload pr msg payload) (\<lambda>(ptr, sz, _, _).
        munmap_loop (Suc (length (nodes (block_table pr)))) env pr h (operation msg) ptr sz))"


subsection \<open>Leak scans\<close>

text \<open>
  \<open>process_scan\<close>: the addresses the traced process reports as unreachable. The second value is the
  list of those that were not known as leaked, which the source collects at the start of the
  buffer it reads.
\<close>

fun scan_loop :: "nat \<Rightarrow> bytes \<Rightarrow> process \<Rightarrow> heap \<Rightarrow> (ulong list \<times> process \<times> heap) res" where
  "scan_loop 0 buf pr h = Inr ([], pr, h)"
| "scan_loop (Suc n) buf pr h =
     (case get_ulong pr buf of
        None \<Rightarrow> Inl ReadPastEnd
      | Some a \<Rightarrow>
          (case process_rb_search (block_table pr) a of
             Some pos \<Rightarrow>
               let b = pos_at pos in
               if b_flags b AND BLOCK_LEAKED = 0 then
                 bindE (upd_rbs (b_stack b) (\<lambda>n. n\<lparr>rs_leaks := rs_leaks n + 1,
                          rs_bytes_leaked := rs_bytes_leaked n + b_size b\<rparr>) h) (\<lambda>h.
                 bindE (scan_loop n (drop (ptr_size pr) buf)
                   (pr\<lparr>block_table := pos_replace (b\<lparr>b_flags := b_flags b OR BLOCK_LEAKED\<rparr>) pos,
                       leaks := leaks pr + 1, leaked_bytes := leaked_bytes pr + b_size b\<rparr>) h) (\<lambda>(new, pr, h).
                   Inr (a # new, pr, h)))
               else scan_loop n (drop (ptr_size pr) buf) pr h
           | None \<Rightarrow> scan_loop n (drop (ptr_size pr) buf) pr h))"

text \<open>The order of two stacks in a report.\<close>

definition cmp_desc :: "'a :: linorder \<Rightarrow> 'a \<Rightarrow> int" where
  "cmp_desc x y = (if x > y then -1 else if x < y then 1 else 0)"

definition then_cmp :: "int \<Rightarrow> int \<Rightarrow> int" where
  "then_cmp r r' = (if r \<noteq> 0 then r else r')"

definition sort_tsc :: "rb_stack \<Rightarrow> rb_stack \<Rightarrow> int" where
  "sort_tsc p q = cmp_desc (rs_tsc p) (rs_tsc q)"

definition sort_badfree_only :: "rb_stack \<Rightarrow> rb_stack \<Rightarrow> int" where
  "sort_badfree_only p q = cmp_desc (rs_n_badfree p) (rs_n_badfree q)"

definition sort_mismatched_only :: "rb_stack \<Rightarrow> rb_stack \<Rightarrow> int" where
  "sort_mismatched_only p q = cmp_desc (rs_n_mismatched p) (rs_n_mismatched q)"

definition sort_badfree :: "rb_stack \<Rightarrow> rb_stack \<Rightarrow> int" where
  "sort_badfree p q = then_cmp (sort_badfree_only p q) (sort_mismatched_only p q)"

definition sort_mismatched :: "rb_stack \<Rightarrow> rb_stack \<Rightarrow> int" where
  "sort_mismatched p q = then_cmp (sort_mismatched_only p q) (sort_badfree_only p q)"

definition sort_usage :: "rb_stack \<Rightarrow> rb_stack \<Rightarrow> int" where
  "sort_usage p q = then_cmp (cmp_desc (rs_bytes_used p) (rs_bytes_used q)) (sort_tsc p q)"

definition sort_average :: "client_env \<Rightarrow> rb_stack \<Rightarrow> rb_stack \<Rightarrow> int" where
  "sort_average env p q =
     (let pv = (if rs_n_allocations p \<noteq> 0 then env_fdiv env (rs_bytes_used p) (rs_n_allocations p) else 0);
          qv = (if rs_n_allocations q \<noteq> 0 then env_fdiv env (rs_bytes_used q) (rs_n_allocations q) else 0)
      in then_cmp (cmp_desc pv qv) (sort_usage p q))"

definition sort_leaks :: "rb_stack \<Rightarrow> rb_stack \<Rightarrow> int" where
  "sort_leaks p q = then_cmp (cmp_desc (rs_leaks p) (rs_leaks q)) (sort_usage p q)"

definition sort_bytes_leaked :: "rb_stack \<Rightarrow> rb_stack \<Rightarrow> int" where
  "sort_bytes_leaked p q = then_cmp (cmp_desc (rs_bytes_leaked p) (rs_bytes_leaked q)) (sort_leaks p q)"

definition sort_allocations :: "rb_stack \<Rightarrow> rb_stack \<Rightarrow> int" where
  "sort_allocations p q = then_cmp (cmp_desc (rs_n_allocations p) (rs_n_allocations q)) (sort_usage p q)"

definition sort_total :: "rb_stack \<Rightarrow> rb_stack \<Rightarrow> int" where
  "sort_total p q = then_cmp (cmp_desc (rs_total_allocations p) (rs_total_allocations q)) (sort_allocations p q)"

definition skip_none :: "rb_stack \<Rightarrow> bool" where "skip_none n = False"
definition skip_zero_allocations :: "rb_stack \<Rightarrow> bool" where "skip_zero_allocations n \<longleftrightarrow> rs_n_allocations n = 0"
definition skip_zero_leaks :: "rb_stack \<Rightarrow> bool" where "skip_zero_leaks n \<longleftrightarrow> rs_leaks n = 0"

text \<open>\<open>qsort\<close> on the array of nodes, as an insertion sort.\<close>

fun qsort_insert :: "('a \<Rightarrow> 'a \<Rightarrow> int) \<Rightarrow> 'a \<Rightarrow> 'a list \<Rightarrow> 'a list" where
  "qsort_insert cmp x [] = [x]"
| "qsort_insert cmp x (y # ys) = (if cmp x y \<le> 0 then x # y # ys else y # qsort_insert cmp x ys)"

definition qsort :: "('a \<Rightarrow> 'a \<Rightarrow> int) \<Rightarrow> 'a list \<Rightarrow> 'a list" where
  "qsort cmp xs = foldr (qsort_insert cmp) xs []"

text \<open>The lines of \<open>dump_stack\<close>: each address with what is printed after it.\<close>

fun dump_rows :: "bool \<Rightarrow> (bytes \<Rightarrow> ulong option) \<Rightarrow> nat \<Rightarrow> rb_sym option list \<Rightarrow> bytes \<Rightarrow> (ulong \<times> string list) list res" where
  "dump_rows lflag getf psz [] addrs = Inr []"
| "dump_rows lflag getf psz (sy # syms) addrs =
     (case getf addrs of
        None \<Rightarrow> Inl ReadPastEnd
      | Some a \<Rightarrow>
          let parts =
            (case sy of
               None \<Rightarrow> [''?'']
             | Some s \<Rightarrow>
                 (if (lflag \<and> sym_si_info s) \<or> \<not> sym_si_info s
                  then (case sym_binfile s of Some m \<Rightarrow> [m] | None \<Rightarrow> []) else [])
                 @ (case sym_name s of Some n \<Rightarrow> [n] | None \<Rightarrow> []))
          in bindE (dump_rows lflag getf psz syms (drop psz addrs)) (\<lambda>rows. Inr ((a, parts) # rows)))"

definition dump_stack :: "stack \<Rightarrow> bool \<Rightarrow> (bytes \<Rightarrow> ulong option) \<Rightarrow> nat \<Rightarrow> (ulong \<times> string list) list res" where
  "dump_stack s lflag getf psz =
     (case s_syms s of None \<Rightarrow> Inr [] | Some syms \<Rightarrow> dump_rows lflag getf psz syms (s_addrs s))"

fun get_all :: "nat list \<Rightarrow> heap \<Rightarrow> heap res" where
  "get_all [] h = Inr h"
| "get_all (i # is) h = bindE (stack_get i h) (get_all is)"

fun put_all :: "nat list \<Rightarrow> heap \<Rightarrow> heap res" where
  "put_all [] h = Inr h"
| "put_all (i # is) h = bindE (stack_put i h) (put_all is)"

fun read_all :: "heap \<Rightarrow> nat list \<Rightarrow> (nat \<times> rb_stack) list res" where
  "read_all h [] = Inr []"
| "read_all h (i # is) = bindE (get_rbs h i) (\<lambda>n. bindE (read_all h is) (\<lambda>ns. Inr ((i, n) # ns)))"

fun dump_loop ::
  "client_env \<Rightarrow> process \<Rightarrow> (rb_stack \<Rightarrow> bool) \<Rightarrow> bool \<Rightarrow> nat \<Rightarrow> (nat \<times> rb_stack) list \<Rightarrow> heap \<Rightarrow> heap res" where
  "dump_loop env pr skip lflag i [] h = Inr h"
| "dump_loop env pr skip lflag i ((_, n) # ns) h =
     (if skip n then dump_loop env pr skip lflag (Suc i) ns h
      else if env_pager_quit env i then Inr h
      else
        bindE (get_stk h (rs_stack n)) (\<lambda>s.
        bindE (dump_stack s lflag (get_ulong pr) (ptr_size pr)) (\<lambda>rows.
          dump_loop env pr skip lflag (Suc i) ns (emit (StackReport (s_operation s) n rows) h))))"

text \<open>The nodes are held while they are printed; the order is reversed for the error stream.\<close>

definition process_dump_to ::
  "client_env \<Rightarrow> process \<Rightarrow> heap \<Rightarrow> (rb_stack \<Rightarrow> rb_stack \<Rightarrow> int) \<Rightarrow> (rb_stack \<Rightarrow> bool) \<Rightarrow> bool \<Rightarrow> bool \<Rightarrow> heap res" where
  "process_dump_to env pr h sortby skip to_stderr lflag =
     (if stack_trees pr = 0 then Inr h
      else
      (case malloc h of
         (None, h) \<Rightarrow> Inr h
       | (Some _, h) \<Rightarrow>
           let arr = nodes (stack_table pr) in
           bindE (get_all arr h) (\<lambda>h.
           if stack_trees pr \<noteq> of_nat (length arr) then Inl (Fatal ''invalid stack tree count!'')
           else
             bindE (read_all h arr) (\<lambda>ns.
             let h = emit (Report ''Process dump'' [ucast (p_pid pr)]) h;
                 sorted_ns = qsort (\<lambda>p q. sortby (snd p) (snd q)) ns;
                 ordered = (if to_stderr then rev sorted_ns else sorted_ns)
             in
             bindE (dump_loop env pr skip lflag 0 ordered h) (\<lambda>h.
               put_all (map fst ordered) h)))))"

definition process_dump_sortby :: "client_env \<Rightarrow> process \<Rightarrow> heap \<Rightarrow> heap res" where
  "process_dump_sortby env pr h =
     (let dump = (\<lambda>sortby skip. process_dump_to env pr h sortby skip (opt_output_stderr env) (opt_lflag env)) in
      if opt_sort_by env = 1 then dump (sort_average env) skip_zero_allocations
      else if opt_sort_by env = 2 then dump sort_bytes_leaked skip_zero_leaks
      else if opt_sort_by env = 3 then dump sort_leaks skip_zero_leaks
      else if opt_sort_by env = 4 then dump sort_allocations skip_none
      else if opt_sort_by env = 5 then dump sort_total skip_none
      else if opt_sort_by env = 6 then dump sort_tsc skip_zero_allocations
      else if opt_sort_by env = 7 then dump sort_usage skip_zero_allocations
      else if opt_sort_by env = 8 then dump sort_mismatched skip_none
      else if opt_sort_by env = 9 then dump sort_badfree skip_none
      else dump sort_allocations skip_zero_allocations)"

definition process_scan ::
  "client_env \<Rightarrow> process \<Rightarrow> heap \<Rightarrow> bytes \<Rightarrow> u32 \<Rightarrow> (bool \<times> process \<times> heap) res" where
  "process_scan env pr h payload len =
     (let n = unat len div ptr_size pr in
      bindE (scan_loop n payload pr h) (\<lambda>(new, pr, h).
        let h = emit (Report ''leaks reported'' [of_nat n]) h;
            h = emit (Report ''new leaks found'' [of_nat (length new)]) h;
            h = emit (Report ''leaked bytes'' [leaked_bytes pr]) h;
            h = (if opt_verbose env > 1 then emit (Report ''leaked at'' new) h else h);
            h = emit (Report ''leaks total'' [leaks pr]) h
        in
        if \<not> opt_interactive env then bindE (process_dump_sortby env pr h) (\<lambda>h. Inr (True, pr, h))
        else Inr (False, pr, h)))"

text \<open>\<open>process_leaks_scan\<close>: the addresses of the blocks in the request to the traced process.\<close>

record block_helper =
  bh_len :: u32
  bh_mask :: ulong
  bh_data :: bytes

function shift_mask :: "ulong \<Rightarrow> ulong \<Rightarrow> ulong" where
  "shift_mask addr msk = (if addr AND msk \<noteq> 0 then shift_mask addr (drop_bit 1 msk) else msk)"
  by pat_completeness auto
termination
proof (relation "measure (\<lambda>(addr, msk). unat msk)")
  fix addr msk :: ulong
  assume "addr AND msk \<noteq> 0"
  then have "msk \<noteq> 0" by auto
  then have "unat (drop_bit 1 msk) < unat msk"
    by (simp add: drop_bit_eq_div unat_div_distrib unat_gt_0)
  then show "((addr, drop_bit 1 msk), addr, msk) \<in> measure (\<lambda>(addr, msk). unat msk)" by simp
qed simp

declare shift_mask.simps [simp del]

definition set_block ::
  "process \<Rightarrow> heap \<Rightarrow> ulong \<Rightarrow> ulong \<Rightarrow> rb_block \<Rightarrow> block_helper \<Rightarrow> (rb_block \<times> block_helper) res" where
  "set_block pr h fmask fmode b hp =
     bindE (stack_of h (b_stack b)) (\<lambda>s.
       if s_ignore s then Inr (b, hp)
       else if b_flags b AND fmask \<noteq> 0 then Inr (b, hp)
       else if b_flags b AND fmode \<noteq> fmode then Inr (b, hp)
       else Inr (b\<lparr>b_flags := b_flags b OR BLOCK_SCANNED\<rparr>,
              hp\<lparr>bh_mask := shift_mask (b_addr b) (bh_mask hp),
                 bh_data := bh_data hp @ put_ulong pr (b_addr b), bh_len := bh_len hp + 1\<rparr>))"

fun process_block_foreach ::
  "(rb_block \<Rightarrow> 'u \<Rightarrow> (rb_block \<times> 'u) res) \<Rightarrow> block_table \<Rightarrow> 'u \<Rightarrow> (block_table \<times> 'u) res" where
  "process_block_foreach f Leaf u = Inr (Leaf, u)"
| "process_block_foreach f (Node l c b r) u =
     bindE (process_block_foreach f l u) (\<lambda>(l, u).
     bindE (f b u) (\<lambda>(b, u).
     bindE (process_block_foreach f r u) (\<lambda>(r, u).
       Inr (Node l c b r, u))))"

datatype scan_mode = SCAN_ALL | SCAN_LEAK | SCAN_NEW

definition process_leaks_scan ::
  "process \<Rightarrow> heap \<Rightarrow> scan_mode \<Rightarrow> (ulong \<times> process \<times> heap) res" where
  "process_leaks_scan pr h mode =
     (if n_allocations pr = 0 then Inr (0, pr, h)
      else
        let (fmask, fmode) = (case mode of SCAN_ALL \<Rightarrow> (0, 0) | SCAN_NEW \<Rightarrow> (BLOCK_SCANNED, 0)
                              | SCAN_LEAK \<Rightarrow> (0, BLOCK_LEAKED))
        in
        (case malloc h of
           (None, h) \<Rightarrow> Inr (0, pr, h)
         | (Some _, h) \<Rightarrow>
             bindE (process_block_foreach (set_block pr h (fmask OR BLOCK_IGNORE) fmode) (block_table pr)
                      \<lparr>bh_len = 0, bh_mask = -1, bh_data = []\<rparr>) (\<lambda>(t, hp).
               let n = (ucast (bh_len hp) :: ulong);
                   h = emit (Report ''scanning'' [n]) h;
                   len = (ucast (16 + n * of_nat (ptr_size pr)) :: u32);
                   msg = le_bytes 4 (ucast (pval32 pr (of_nat (ptr_size pr)))) @ le_bytes 4 0 @
                         le_bytes 8 (pval64 pr (bh_mask hp)) @ bh_data hp
               in Inr (n, pr\<lparr>block_table := t\<rparr>, emit (Message MT_SCAN (take (unat len) msg)) h))))"

subsection \<open>Status\<close>

definition process_set_status :: "process \<Rightarrow> process_status \<Rightarrow> process" where
  "process_set_status pr st = pr\<lparr>status := st\<rparr>"

definition process_exit :: "client_env \<Rightarrow> process \<Rightarrow> heap \<Rightarrow> (bool \<times> process \<times> heap) res" where
  "process_exit env pr h =
     (let pr = process_set_status pr MT_PROCESS_EXIT in
      if \<not> opt_interactive env then bindE (process_dump_sortby env pr h) (\<lambda>h. Inr (True, pr, h))
      else Inr (False, pr, emit (Report ''exited'' [ucast (p_pid pr)]) h))"

definition process_about_exit :: "client_env \<Rightarrow> process \<Rightarrow> heap \<Rightarrow> (process \<times> heap) res" where
  "process_about_exit env pr h =
     (let pr = process_set_status pr MT_PROCESS_EXITING in
      bindE (if opt_auto_scan env then bindE (process_leaks_scan pr h SCAN_ALL) (\<lambda>(_, pr, h). Inr (pr, h))
             else Inr (pr, h)) (\<lambda>(pr, h).
        Inr (pr, emit (Message MT_ABOUT_EXIT []) h)))"

definition process_detach :: "client_env \<Rightarrow> process \<Rightarrow> heap \<Rightarrow> (bool \<times> process \<times> heap) res" where
  "process_detach env pr h =
     (let pr = process_set_status pr MT_PROCESS_DETACH in
      bindE (if opt_auto_scan env
             then bindE (process_leaks_scan pr h SCAN_ALL) (\<lambda>(_, pr, h). Inr (False, pr, h))
             else if \<not> opt_interactive env
             then bindE (process_dump_sortby env pr h) (\<lambda>h. Inr (True, pr, h))
             else Inr (False, pr, h)) (\<lambda>(ret, pr, h).
        Inr (ret, pr, emit (Message MT_DETACH []) h)))"

fun process_get_status :: "process_status \<Rightarrow> string" where
  "process_get_status MT_PROCESS_RUNNING = ''running''"
| "process_get_status MT_PROCESS_EXIT = ''exited''"
| "process_get_status MT_PROCESS_EXITING = ''exiting''"
| "process_get_status MT_PROCESS_IGNORE = ''ignored''"
| "process_get_status MT_PROCESS_DETACH = ''detached''"

text \<open>The numbers and the status line that \<open>process_status\<close> prints, the average apart.\<close>

definition process_status_report :: "process \<Rightarrow> ulong list \<times> string" where
  "process_status_report pr =
     ([ucast (p_pid pr), bytes_used pr, n_allocations pr, total_allocations pr, leaks pr, leaked_bytes pr],
      process_get_status (status pr))"

end
