(* ===== verification/Client_Invariant.thy ===== *)
theory Client_Invariant
  imports Client_Process
begin

text \<open>
  The bookkeeping invariant of the client. The counters of the process and of every stack node are
  the counts and sums over the block table, in the wrap-around arithmetic of the code; reference
  counts are the numbers of holders; tables are ordered red-black trees. The lemmas show that the
  block operations succeed on such a state and keep it.
\<close>

unbundle bit_operations_syntax

subsection \<open>The invariant\<close>

abbreviation blocks :: "process \<Rightarrow> rb_block list" where
  "blocks pr \<equiv> nodes (block_table pr)"

abbreviation stack_ids :: "process \<Rightarrow> nat set" where
  "stack_ids pr \<equiv> set (nodes (stack_table pr))"

definition leaked :: "rb_block \<Rightarrow> bool" where
  "leaked b \<longleftrightarrow> b_flags b AND BLOCK_LEAKED \<noteq> 0"

text \<open>Sums over the blocks, in total and for one stack.\<close>

definition leak1 :: "rb_block \<Rightarrow> ulong" where "leak1 b = (if leaked b then 1 else 0)"
definition leaksz :: "rb_block \<Rightarrow> ulong" where "leaksz b = (if leaked b then b_size b else 0)"

definition for_stack :: "nat \<Rightarrow> (rb_block \<Rightarrow> 'a :: zero) \<Rightarrow> rb_block \<Rightarrow> 'a" where
  "for_stack i f b = (if b_stack b = i then f b else 0)"

definition tot :: "(rb_block \<Rightarrow> 'a :: comm_monoid_add) \<Rightarrow> process \<Rightarrow> 'a" where
  "tot f pr = sum_list (map f (blocks pr))"

definition pending :: "process \<Rightarrow> nat \<Rightarrow> nat" where
  "pending pr i = length (filter (\<lambda>re. re_stack re = Some i) (realloc_list pr))"

definition refs :: "process \<Rightarrow> nat \<Rightarrow> nat" where
  "refs pr i = Suc (tot (for_stack i (\<lambda>_. 1)) pr + pending pr i)"

definition counters_ok :: "process \<Rightarrow> nat \<Rightarrow> rb_stack \<Rightarrow> bool" where
  "counters_ok pr i n \<longleftrightarrow>
     rs_refcnt n = of_nat (refs pr i) \<and>
     rs_n_allocations n = tot (for_stack i (\<lambda>_. 1)) pr \<and>
     rs_bytes_used n = tot (for_stack i b_size) pr \<and>
     rs_leaks n = tot (for_stack i leak1) pr \<and>
     rs_bytes_leaked n = tot (for_stack i leaksz) pr"

definition node_ok :: "process \<Rightarrow> heap \<Rightarrow> nat \<Rightarrow> bool" where
  "node_ok pr h i \<longleftrightarrow>
     (\<exists>n s. rbs h i = Some n \<and> stks h (rs_stack n) = Some s \<and> counters_ok pr i n \<and>
            refs pr i \<le> unat (s_refcnt s))"

definition tables_ok :: "process \<Rightarrow> bool" where
  "tables_ok pr \<longleftrightarrow>
     is_rbt (block_table pr) \<and> by_addr (block_table pr) \<and> is_rbt (stack_table pr) \<and>
     stack_trees pr = of_nat (length (nodes (stack_table pr))) \<and>
     (\<forall>b \<in> set (blocks pr). b_stack b \<in> stack_ids pr) \<and>
     (\<forall>re \<in> set (realloc_list pr). \<forall>i. re_stack re = Some i \<longrightarrow> i \<in> stack_ids pr)"

definition totals_ok :: "process \<Rightarrow> bool" where
  "totals_ok pr \<longleftrightarrow>
     n_allocations pr = tot (\<lambda>_. 1) pr \<and> bytes_used pr = tot b_size pr \<and>
     leaks pr = tot leak1 pr \<and> leaked_bytes pr = tot leaksz pr"

definition heap_ok :: "process \<Rightarrow> heap \<Rightarrow> bool" where
  "heap_ok pr h \<longleftrightarrow>
     (\<forall>i. rbs h i \<noteq> None \<longrightarrow> i < brk h) \<and> (\<forall>i. stks h i \<noteq> None \<longrightarrow> i < brk h) \<and>
     (\<forall>i \<in> stack_ids pr. node_ok pr h i) \<and>
     inj_on (\<lambda>i. map_option rs_stack (rbs h i)) (stack_ids pr)"

text \<open>The stack table is ordered by the call stacks, without repetition.\<close>

definition stack_key :: "heap \<Rightarrow> nat \<Rightarrow> bytes" where
  "stack_key h i = (case rbs h i of None \<Rightarrow> []
     | Some n \<Rightarrow> (case stks h (rs_stack n) of None \<Rightarrow> [] | Some s \<Rightarrow> s_addrs s))"

definition by_stack :: "heap \<Rightarrow> nat rbt \<Rightarrow> bool" where
  "by_stack h t \<longleftrightarrow> sorted_wrt (<) (map (stack_key h) (nodes t))"

definition proc_inv :: "process \<Rightarrow> heap \<Rightarrow> bool" where
  "proc_inv pr h \<longleftrightarrow> tables_ok pr \<and> totals_ok pr \<and> heap_ok pr h \<and> by_stack h (stack_table pr)"

text \<open>There is room for \<open>k\<close> more references.\<close>

definition room :: "nat \<Rightarrow> process \<Rightarrow> heap \<Rightarrow> bool" where
  "room k pr h \<longleftrightarrow> length (blocks pr) + length (realloc_list pr) + k + 1 < 2 ^ 64 \<and>
     (\<forall>i s. stks h i = Some s \<longrightarrow> unat (s_refcnt s) + k < 2 ^ 64)"

subsection \<open>Sums\<close>

lemma tot_erase:
  "pos_tree pos = block_table pr \<Longrightarrow>
   tot f pr = f (pos_at pos) + tot f (pr\<lparr>block_table := pos_erase pos\<rparr>)"
  using tbl.sum_erase [of f pos] by (simp add: tot_def)

lemma tot_erase_word:
  fixes f :: "rb_block \<Rightarrow> ulong"
  shows "pos_tree pos = block_table pr \<Longrightarrow>
    tot f (pr\<lparr>block_table := pos_erase pos\<rparr>) = tot f pr - f (pos_at pos)"
  by (simp add: tot_erase [of pos pr f])

lemma tot_replace:
  "pos_tree pos = block_table pr \<Longrightarrow>
   tot f (pr\<lparr>block_table := pos_replace b pos\<rparr>) = f b + tot f (pr\<lparr>block_table := pos_erase pos\<rparr>)"
  using tbl.sum_replace [of f b pos] by (simp add: tot_def)

lemma tot_link:
  "plug place Leaf = block_table pr \<Longrightarrow>
   tot f (pr\<lparr>block_table := tree_link b place\<rparr>) = f b + tot f pr"
  using tbl.sum_link [of f b place] by (simp add: tot_def)

lemma tot_cong [simp]:
  "tot f (pr\<lparr>bytes_used := x1\<rparr>) = tot f pr" "tot f (pr\<lparr>n_allocations := x1\<rparr>) = tot f pr"
  "tot f (pr\<lparr>total_allocations := x1\<rparr>) = tot f pr" "tot f (pr\<lparr>leaks := x1\<rparr>) = tot f pr"
  "tot f (pr\<lparr>leaked_bytes := x2\<rparr>) = tot f pr" "tot f (pr\<lparr>tsc := x2\<rparr>) = tot f pr"
  "tot f (pr\<lparr>realloc_list := x3\<rparr>) = tot f pr" "tot f (pr\<lparr>stack_table := x4\<rparr>) = tot f pr"
  "tot f (pr\<lparr>stack_trees := x1\<rparr>) = tot f pr" "tot f (pr\<lparr>map_list := x5\<rparr>) = tot f pr"
  by (simp_all add: tot_def)

lemma tot_for_stack_le: "tot (for_stack i (\<lambda>_. 1 :: nat)) pr \<le> length (blocks pr)"
proof -
  have "sum_list (map (for_stack i (\<lambda>_. 1)) bs) \<le> length bs" for bs
    by (induction bs) (auto simp: for_stack_def)
  then show ?thesis by (simp add: tot_def)
qed

lemma pending_le: "pending pr i \<le> length (realloc_list pr)"
  by (simp add: pending_def)

lemma refs_bound: "room (Suc k) pr h \<Longrightarrow> refs pr i + 1 < 2 ^ 64"
  using tot_for_stack_le [of i pr] pending_le [of pr i] unfolding room_def refs_def by linarith

lemma room_mono: "room (Suc k) pr h \<Longrightarrow> room k pr h"
  by (fastforce simp: room_def)

lemma unat_refs: "room (Suc k) pr h \<Longrightarrow> unat (of_nat (refs pr i) :: ulong) = refs pr i"
  using refs_bound [of k pr h i] by (simp add: unat_of_nat)

lemma tot_pos: "b \<in> set (blocks pr) \<Longrightarrow> tot (for_stack (b_stack b) (\<lambda>_. 1 :: nat)) pr \<ge> 1"
proof -
  have "b \<in> set bs \<Longrightarrow> sum_list (map (for_stack (b_stack b) (\<lambda>_. 1)) bs) \<ge> (1 :: nat)" for bs
    by (induction bs) (auto simp: for_stack_def)
  then show "b \<in> set (blocks pr) \<Longrightarrow> ?thesis" by (simp add: tot_def)
qed

lemma for_stack_other [simp]: "b_stack b \<noteq> i \<Longrightarrow> for_stack i f b = 0"
  by (simp add: for_stack_def)

lemma for_stack_same [simp]: "for_stack (b_stack b) f b = f b"
  by (simp add: for_stack_def)

lemma ucast_u32_small: "v < 2 ^ 32 \<Longrightarrow> ucast (ucast (v :: u64) :: u32) = v"
proof -
  assume "v < 2 ^ 32"
  then have "take_bit 32 v = v" by (simp add: take_bit_eq_mod mod_word_less)
  moreover have "ucast (ucast v :: u32) = take_bit 32 v"
    by (rule bit_word_eqI) (auto simp: bit_ucast_iff bit_take_bit_iff dest: bit_imp_le_length)
  ultimately show ?thesis by simp
qed

lemma and_not_absorb:
  fixes w m :: "'a :: len word"
  assumes "w AND m = 0"
  shows "w AND NOT m = w"
proof (rule bit_word_eqI)
  fix n
  assume "n < LENGTH('a)"
  moreover have "\<not> bit (w AND m) n" using assms by simp
  ultimately show "bit (w AND NOT m) n \<longleftrightarrow> bit w n" by (auto simp: bit_and_iff bit_not_iff)
qed

subsection \<open>Changing one stack node\<close>

definition set_node :: "nat \<Rightarrow> rb_stack \<Rightarrow> stack \<Rightarrow> heap \<Rightarrow> heap" where
  "set_node i n s h = h\<lparr>rbs := (rbs h)(i := Some n), stks := (stks h)(rs_stack n := Some s)\<rparr>"

lemma heap_ok_set_node:
  assumes ok: "heap_ok pr h" and i: "i \<in> stack_ids pr" "rbs h i = Some n" "stks h (rs_stack n) = Some s"
    and st: "stack_table pr' = stack_table pr"
    and other: "\<And>j m. j \<noteq> i \<Longrightarrow> counters_ok pr' j m = counters_ok pr j m \<and> refs pr' j = refs pr j"
    and n': "rs_stack n' = rs_stack n" "counters_ok pr' i n'" "refs pr' i \<le> unat (s_refcnt s')"
  shows "heap_ok pr' (set_node i n' s' h)"
proof -
  have "node_ok pr' (set_node i n' s' h) j" if "j \<in> stack_ids pr" for j
  proof (cases "j = i")
    case True
    with n' show ?thesis by (simp add: node_ok_def set_node_def)
  next
    case False
    from ok that obtain m t where m: "rbs h j = Some m" "stks h (rs_stack m) = Some t" "counters_ok pr j m"
        "refs pr j \<le> unat (s_refcnt t)" by (auto simp: heap_ok_def node_ok_def)
    moreover have "rs_stack m \<noteq> rs_stack n"
      using ok that i(1,2) False m(1) unfolding heap_ok_def by (metis inj_onD option.map(2))
    ultimately show ?thesis using other [OF False] n'(1) False by (simp add: node_ok_def set_node_def)
  qed
  moreover have "(\<lambda>j. map_option rs_stack (rbs (set_node i n' s' h) j)) = (\<lambda>j. map_option rs_stack (rbs h j))"
    using i(2) n'(1) by (auto simp: set_node_def)
  ultimately show ?thesis
    using ok i(2,3) st n'(1) unfolding heap_ok_def by (auto simp: set_node_def)
qed

lemma stack_key_set_node:
  "rbs h i = Some n \<Longrightarrow> stks h (rs_stack n) = Some s \<Longrightarrow> rs_stack n' = rs_stack n \<Longrightarrow> s_addrs s' = s_addrs s \<Longrightarrow>
   stack_key (set_node i n' s' h) = stack_key h"
  by (auto simp: stack_key_def set_node_def fun_eq_iff split: option.splits)

lemma by_stack_set_node:
  "rbs h i = Some n \<Longrightarrow> stks h (rs_stack n) = Some s \<Longrightarrow> rs_stack n' = rs_stack n \<Longrightarrow> s_addrs s' = s_addrs s \<Longrightarrow>
   by_stack (set_node i n' s' h) t = by_stack h t"
  by (simp add: by_stack_def stack_key_set_node)

subsection \<open>Deleting a block\<close>

lemma release_mem_result:
  assumes "rbs h (b_stack b) = Some n"
  shows "process_release_mem pr h b sz =
     Inr (b\<lparr>b_flags := b_flags b AND NOT BLOCK_LEAKED\<rparr>,
       pr\<lparr>leaks := leaks pr - leak1 b, leaked_bytes := leaked_bytes pr - leaksz b,
          bytes_used := bytes_used pr - ucast sz\<rparr>,
       h\<lparr>rbs := (rbs h)(b_stack b := Some (n\<lparr>rs_leaks := rs_leaks n - leak1 b,
          rs_bytes_leaked := rs_bytes_leaked n - leaksz b, rs_bytes_used := rs_bytes_used n - ucast sz\<rparr>))\<rparr>)"
proof (cases "leaked b")
  case True
  with assms show ?thesis
    by (simp add: process_release_mem_def leaked_def leak1_def leaksz_def upd_rbs_def get_rbs_def)
next
  case False
  then have f: "b_flags b AND NOT BLOCK_LEAKED = b_flags b"
    by (simp only: leaked_def not_not and_not_absorb)
  have z: "leak1 b = 0" "leaksz b = 0" using False by (simp_all add: leak1_def leaksz_def)
  have "b\<lparr>b_flags := b_flags b\<rparr> = b" "pr\<lparr>leaks := leaks pr, leaked_bytes := leaked_bytes pr\<rparr> = pr"
    "n\<lparr>rs_leaks := rs_leaks n, rs_bytes_leaked := rs_bytes_leaked n\<rparr> = n" by simp_all
  with False assms f z show ?thesis
    by (simp add: process_release_mem_def leaked_def upd_rbs_def get_rbs_def)
qed


lemma delete_block_result:
  assumes n: "rbs h (b_stack b) = Some n" and s: "stks h (rs_stack n) = Some s"
    and b: "b = pos_at pos" and r: "rs_refcnt n \<noteq> 1" "s_refcnt s \<noteq> 1"
  shows "process_rb_delete_block pr h pos =
     Inr (pr\<lparr>block_table := pos_erase pos, leaks := leaks pr - leak1 b,
            leaked_bytes := leaked_bytes pr - leaksz b,
            bytes_used := bytes_used pr - ucast (ucast (b_size b) :: u32),
            n_allocations := n_allocations pr - 1\<rparr>,
          set_node (b_stack b) (n\<lparr>rs_leaks := rs_leaks n - leak1 b,
            rs_bytes_leaked := rs_bytes_leaked n - leaksz b,
            rs_bytes_used := rs_bytes_used n - ucast (ucast (b_size b) :: u32),
            rs_n_allocations := rs_n_allocations n - 1, rs_refcnt := rs_refcnt n - 1\<rparr>)
            (s\<lparr>s_refcnt := s_refcnt s - 1\<rparr>) h)"
  using assms release_mem_result [of h b n "pr\<lparr>block_table := pos_erase pos\<rparr>"]
  by (simp add: process_rb_delete_block_def Let_def upd_rbs_def get_rbs_def stack_put_def get_stk_def set_node_def)

lemma pos_stack_in:
  "tables_ok pr \<Longrightarrow> pos_tree pos = block_table pr \<Longrightarrow> b_stack (pos_at pos) \<in> stack_ids pr"
  using tbl.at_entry [of pos] by (auto simp: tables_ok_def)

lemma delete_refs:
  assumes "pos_tree pos = block_table pr" and "i = b_stack (pos_at pos)"
    and "pr' = pr\<lparr>block_table := pos_erase pos, leaks := l, leaked_bytes := lb, bytes_used := u, n_allocations := a\<rparr>"
  shows "refs pr i = Suc (refs pr' i)" and "j \<noteq> i \<Longrightarrow> refs pr' j = refs pr j"
  using assms tot_erase [OF assms(1), of "for_stack i (\<lambda>_. 1 :: nat)"]
    tot_erase [OF assms(1), of "for_stack j (\<lambda>_. 1 :: nat)"]
  by (simp_all add: refs_def pending_def)

theorem delete_block_inv:
  assumes inv: "proc_inv pr h" and room: "room (Suc k) pr h" and pos: "pos_tree pos = block_table pr"
    and small: "b_size (pos_at pos) < 2 ^ 32"
  shows "\<exists>pr' h' l lb u a. process_rb_delete_block pr h pos = Inr (pr', h') \<and> proc_inv pr' h' \<and> room (Suc k) pr' h' \<and>
      oom h' = oom h \<and> pr' = pr\<lparr>block_table := pos_erase pos, leaks := l, leaked_bytes := lb, bytes_used := u,
        n_allocations := a\<rparr>"
proof -
  define b where "b = pos_at pos"
  define i where "i = b_stack b"
  have i: "i \<in> stack_ids pr" using inv pos pos_stack_in by (simp add: proc_inv_def i_def b_def)
  then obtain n s where n: "rbs h i = Some n" "stks h (rs_stack n) = Some s" "counters_ok pr i n"
      "refs pr i \<le> unat (s_refcnt s)" using inv by (auto simp: proc_inv_def heap_ok_def node_ok_def)
  define pr' where "pr' = pr\<lparr>block_table := pos_erase pos, leaks := leaks pr - leak1 b,
      leaked_bytes := leaked_bytes pr - leaksz b, bytes_used := bytes_used pr - b_size b,
      n_allocations := n_allocations pr - 1\<rparr>"
  define n' where "n' = n\<lparr>rs_leaks := rs_leaks n - leak1 b, rs_bytes_leaked := rs_bytes_leaked n - leaksz b,
      rs_bytes_used := rs_bytes_used n - b_size b, rs_n_allocations := rs_n_allocations n - 1,
      rs_refcnt := rs_refcnt n - 1\<rparr>"
  have sz: "ucast (ucast (b_size b) :: u32) = b_size b"
    using small by (simp add: b_def ucast_u32_small)
  have r: "refs pr i = Suc (refs pr' i)" and ro: "\<And>j. j \<noteq> i \<Longrightarrow> refs pr' j = refs pr j"
    using delete_refs [OF pos, of i pr'] by (simp_all add: pr'_def i_def b_def)
  have pos_refs: "refs pr' i \<ge> 1" by (simp add: refs_def)
  have rn: "unat (rs_refcnt n) = refs pr i" using n(3) unat_refs [OF room] by (simp add: counters_ok_def)
  then have ne: "rs_refcnt n \<noteq> 1" "s_refcnt s \<noteq> 1" using r pos_refs n(4) by auto
  have rn': "rs_refcnt n - 1 = of_nat (refs pr' i)" using n(3) r by (simp add: counters_ok_def)
  have del: "process_rb_delete_block pr h pos = Inr (pr', set_node i n' (s\<lparr>s_refcnt := s_refcnt s - 1\<rparr>) h)"
    using delete_block_result [of h b n s pos pr] n(1,2) ne sz by (simp add: b_def i_def pr'_def n'_def)
  have other: "counters_ok pr' j m = counters_ok pr j m \<and> refs pr' j = refs pr j" if "j \<noteq> i" for j m
    using that ro [OF that] by (simp add: counters_ok_def pr'_def tot_erase_word [OF pos] i_def b_def)
  have ci: "counters_ok pr' i n'"
    using n(3) rn' by (simp add: counters_ok_def pr'_def n'_def tot_erase_word [OF pos] i_def b_def)
  have sr: "refs pr' i \<le> unat (s_refcnt s - 1)"
  proof -
    have "s_refcnt s \<noteq> 0" using n(4) r by auto
    then have "unat (s_refcnt s - 1) = unat (s_refcnt s) - 1" by (rule unat_minus_one)
    with n(4) r show ?thesis by simp
  qed
  have "heap_ok pr' (set_node i n' (s\<lparr>s_refcnt := s_refcnt s - 1\<rparr>) h)"
    by (rule heap_ok_set_node [OF _ i n(1,2)]) (use inv other ci sr in \<open>auto simp: proc_inv_def pr'_def n'_def\<close>)
  moreover have "by_stack (set_node i n' (s\<lparr>s_refcnt := s_refcnt s - 1\<rparr>) h) (stack_table pr')"
    using by_stack_set_node [OF n(1,2)] inv by (simp add: proc_inv_def pr'_def n'_def)
  moreover have "tables_ok pr'"
    using inv pos tbl.ok_erase [of pos] tbl.sorted_erase [of b_addr pos] tbl.set_erase [of pos]
    by (auto simp: proc_inv_def tables_ok_def pr'_def)
  moreover have "totals_ok pr'"
    using inv by (simp add: proc_inv_def totals_ok_def pr'_def tot_erase_word [OF pos] b_def)
  ultimately have "proc_inv pr' (set_node i n' (s\<lparr>s_refcnt := s_refcnt s - 1\<rparr>) h)" by (simp add: proc_inv_def)
  moreover have "room (Suc k) pr' (set_node i n' (s\<lparr>s_refcnt := s_refcnt s - 1\<rparr>) h)"
  proof -
    have "s_refcnt s \<noteq> 0" using n(4) r by auto
    then have "unat (s_refcnt s - 1) \<le> unat (s_refcnt s)" by (simp add: unat_minus_one)
    moreover have "unat (s_refcnt s) + Suc k < 2 ^ 64" using room n(2) by (auto simp: room_def)
    ultimately have "unat (s_refcnt s - 1) + Suc k < 2 ^ 64" by linarith
    with room tbl.length_erase [of pos] pos show ?thesis by (auto simp: room_def pr'_def n'_def set_node_def)
  qed
  moreover have "oom (set_node i n' (s\<lparr>s_refcnt := s_refcnt s - 1\<rparr>) h) = oom h" by (simp add: set_node_def)
  ultimately show ?thesis using del pr'_def by blast
qed


subsection \<open>Inserting a block\<close>

definition no_oom :: "heap \<Rightarrow> bool" where
  "no_oom h \<longleftrightarrow> (\<forall>k. \<not> oom h k)"

text \<open>The event log and further calls of \<open>malloc\<close> do not matter.\<close>

lemma stack_key_frame [simp]:
  "stack_key (h\<lparr>events := e\<rparr>) = stack_key h" "stack_key (h\<lparr>brk := k\<rparr>) = stack_key h"
  by (auto simp: stack_key_def fun_eq_iff split: option.splits)

lemma heap_frame [simp]:
  "heap_ok pr (h\<lparr>events := e\<rparr>) = heap_ok pr h" "by_stack (h\<lparr>events := e\<rparr>) t = by_stack h t"
  "by_stack (h\<lparr>brk := k\<rparr>) t = by_stack h t" "room m pr (h\<lparr>events := e\<rparr>) = room m pr h"
  "room m pr (h\<lparr>brk := k\<rparr>) = room m pr h" "no_oom (h\<lparr>events := e\<rparr>) = no_oom h" "no_oom (h\<lparr>brk := k\<rparr>) = no_oom h"
  "no_oom (set_node i n s h) = no_oom h"
  by (simp_all add: heap_ok_def node_ok_def by_stack_def room_def no_oom_def set_node_def)

lemma heap_ok_brk [simp]: "heap_ok pr h \<Longrightarrow> heap_ok pr (h\<lparr>brk := Suc (brk h)\<rparr>)"
  by (auto simp: heap_ok_def node_ok_def less_Suc_eq)

lemma proc_inv_emit [simp]: "proc_inv pr (emit e h) = proc_inv pr h"
  by (simp add: proc_inv_def emit_def)

lemma proc_inv_stack_of:
  assumes "proc_inv pr h" and "i \<in> stack_ids pr"
  shows "\<exists>s. stack_of h i = Inr s"
  using assms by (auto simp: proc_inv_def heap_ok_def node_ok_def stack_of_def get_rbs_def get_stk_def
      dest!: bspec [of _ _ i])

lemma dump_collisions_inv:
  assumes "proc_inv pr h" and "\<not> opt_kill env" and "\<And>b. b \<in> set hits \<Longrightarrow> b_stack b \<in> stack_ids pr"
  shows "\<exists>ev. dump_collisions env pr h hits addr sz op = Inr (h\<lparr>events := ev\<rparr>)"
  using assms
proof (induction hits arbitrary: h)
  case Nil
  then show ?case by (intro exI [of _ "events h"]) simp
next
  case (Cons b hits)
  then obtain s where s: "stack_of h (b_stack b) = Inr s" using proc_inv_stack_of by fastforce
  let ?h = "emit (Collision (p_pid pr) op addr sz (s_operation s) (b_addr b) (b_size b)) h"
  have "\<exists>ev. dump_collisions env pr ?h hits addr sz op = Inr (?h\<lparr>events := ev\<rparr>)"
    by (rule Cons.IH) (use Cons.prems in simp_all)
  with s Cons.prems(2) show ?case by (auto simp: process_dump_collision_def emit_def)
qed

theorem insert_block_inv:
  assumes inv: "proc_inv pr h" and room: "room (Suc k) pr h" and i: "i \<in> stack_ids pr"
    and env: "\<not> opt_kill env" "no_oom h" and fl: "flags AND BLOCK_LEAKED = 0"
    and b: "b = \<lparr>b_flags = flags, b_addr = addr, b_size = sz, b_stack = i\<rparr>"
  shows "\<exists>place pr' h'. process_rb_insert_block env pr h addr sz (Some i) flags op = Inr (True, pr', h') \<and>
      plug place Leaf = block_table pr \<and>
      pr' = pr\<lparr>block_table := tree_link b place, n_allocations := n_allocations pr + 1\<rparr> \<and>
      proc_inv (pr'\<lparr>bytes_used := bytes_used pr' + sz\<rparr>) h' \<and> no_oom h' \<and> stack_key h' = stack_key h"
proof -
  obtain hits place where pl: "insert_place addr (if sz = 0 then 1 else sz) (block_table pr) [] = (hits, place)"
    by (cases "insert_place addr (if sz = 0 then 1 else sz) (block_table pr) []")
  have p: "plug place Leaf = block_table pr" using insert_place_plug [OF pl] by simp
  have "b_stack x \<in> stack_ids pr" if "x \<in> set hits" for x
    using insert_place_hits [OF pl that] inv by (auto simp: proc_inv_def tables_ok_def)
  from dump_collisions_inv [OF inv env(1) this, of hits addr sz op] obtain ev where
    ev: "dump_collisions env pr h hits addr sz op = Inr (h\<lparr>events := ev\<rparr>)" by blast
  define h1 where "h1 = h\<lparr>events := ev, brk := Suc (brk h)\<rparr>"
  obtain n s where n: "rbs h i = Some n" "stks h (rs_stack n) = Some s" "counters_ok pr i n"
      "refs pr i \<le> unat (s_refcnt s)" using inv i by (auto simp: proc_inv_def heap_ok_def node_ok_def)
  define pr' where "pr' = pr\<lparr>block_table := tree_link b place, n_allocations := n_allocations pr + 1\<rparr>"
  define n' where "n' = n\<lparr>rs_n_allocations := rs_n_allocations n + 1,
      rs_total_allocations := rs_total_allocations n + 1, rs_bytes_used := rs_bytes_used n + sz,
      rs_refcnt := rs_refcnt n + 1\<rparr>"
  let ?s = "s\<lparr>s_refcnt := s_refcnt s + 1\<rparr>" and ?pr = "pr'\<lparr>bytes_used := bytes_used pr' + sz\<rparr>"
  have res: "process_rb_insert_block env pr h addr sz (Some i) flags op = Inr (True, pr', set_node i n' ?s h1)"
    using pl ev n(1,2) env(2)
    by (simp add: process_rb_insert_block_def malloc_def no_oom_def upd_rbs_def get_rbs_def stack_get_def
        get_stk_def Let_def set_node_def pr'_def n'_def h1_def b)
  have lz: "leak1 b = 0" "leaksz b = 0" using fl by (simp_all add: leak1_def leaksz_def leaked_def b)
  have bi: "b_stack b = i" "b_size b = sz" by (simp_all add: b)
  have r: "refs ?pr j = refs pr j + (if j = i then 1 else 0)" for j
    using tot_link [OF p, of "for_stack j (\<lambda>_. 1 :: nat)"] bi
    by (auto simp: refs_def pending_def pr'_def for_stack_def)
  have c: "counters_ok ?pr j m = counters_ok pr j m \<and> refs ?pr j = refs pr j" if "j \<noteq> i" for j m
    using that r [of j] bi by (simp add: counters_ok_def pr'_def tot_link [OF p])
  have ci: "counters_ok ?pr i n'"
    using n(3) r [of i] bi lz by (simp add: counters_ok_def pr'_def n'_def tot_link [OF p] for_stack_def add.commute)
  have sr: "refs ?pr i \<le> unat (s_refcnt s + 1)"
  proof -
    have "unat (s_refcnt s) + 1 < 2 ^ 64" using room n(2) by (fastforce simp: room_def)
    then have "unat (s_refcnt s + 1) = unat (s_refcnt s) + 1" by (simp add: unat_word_ariths)
    with n(4) r [of i] show ?thesis by simp
  qed
  have h1: "heap_ok pr h1" "rbs h1 = rbs h" "stks h1 = stks h"
    using inv heap_ok_brk [of pr "h\<lparr>events := ev\<rparr>"] by (simp_all add: proc_inv_def h1_def)
  have "heap_ok ?pr (set_node i n' ?s h1)"
    by (rule heap_ok_set_node [OF h1(1) i]) (use n h1(2,3) c ci sr in \<open>auto simp: pr'_def n'_def\<close>)
  moreover have "by_stack (set_node i n' ?s h1) (stack_table ?pr)"
    using by_stack_set_node [of h1 i n s] n h1 inv by (simp add: proc_inv_def pr'_def n'_def h1_def)
  moreover have "tables_ok ?pr"
  proof -
    have "set (nodes (tree_link b place)) = insert b (set (blocks pr))"
      using tbl.mset_link [of b place] p by (metis set_mset_add_mset_insert set_mset_mset)
    moreover have "by_addr (tree_link b place)"
      using by_addr_link [OF pl] inv by (simp add: proc_inv_def tables_ok_def b)
    ultimately show ?thesis
      using inv tbl.ok_link [of place b] p i by (simp add: proc_inv_def tables_ok_def pr'_def b)
  qed
  moreover have "totals_ok ?pr"
    using inv lz bi by (simp add: proc_inv_def totals_ok_def pr'_def tot_link [OF p] add.commute)
  ultimately have "proc_inv ?pr (set_node i n' ?s h1)" by (simp add: proc_inv_def)
  moreover have "no_oom (set_node i n' ?s h1)" using env(2) by (simp add: h1_def)
  moreover have "stack_key (set_node i n' ?s h1) = stack_key h"
    using stack_key_set_node [of h1 i n s n' ?s] n(1,2) h1(2,3) by (simp add: n'_def h1_def)
  ultimately show ?thesis using res p pr'_def by blast
qed


subsection \<open>Making room for a block\<close>

definition small_blocks :: "process \<Rightarrow> bool" where
  "small_blocks pr \<longleftrightarrow> (\<forall>b \<in> set (blocks pr). b_size b < 2 ^ 32)"

text \<open>What the handlers leave alone when they touch only the accounts.\<close>

definition same_config :: "process \<Rightarrow> process \<Rightarrow> bool" where
  "same_config pr pr' \<longleftrightarrow>
     get_ulong pr' = get_ulong pr \<and> ptr_size pr' = ptr_size pr \<and> is_64bit pr' = is_64bit pr \<and>
     tracing pr' = tracing pr \<and> attached pr' = attached pr \<and> p_pid pr' = p_pid pr \<and> status pr' = status pr"

lemma same_config_refl [simp]: "same_config pr pr"
  by (simp add: same_config_def)

theorem evict_blocks_inv:
  assumes "proc_inv pr h" "room (Suc k) pr h" "\<not> opt_kill env" "small_blocks pr"
  shows "\<exists>pr' h'. evict_blocks env pr h ptr sz op = Inr (pr', h') \<and> proc_inv pr' h' \<and> room (Suc k) pr' h' \<and>
      oom h' = oom h \<and> same_config pr pr' \<and> stack_table pr' = stack_table pr \<and>
      realloc_list pr' = realloc_list pr \<and> total_allocations pr' = total_allocations pr \<and>
      blocks pr' = filter (\<lambda>b. \<not> starts_in ptr (if sz = 0 then 1 else sz) b) (blocks pr)"
  using assms
proof (induction "length (blocks pr)" arbitrary: pr h rule: less_induct)
  case less
  show ?case
  proof (cases "process_rb_search_range (block_table pr) ptr sz")
    case None
    have "by_addr (block_table pr)" using less.prems(1) by (simp add: proc_inv_def tables_ok_def)
    from process_rb_search_range_None [OF None this]
    have "filter (\<lambda>b. \<not> starts_in ptr (if sz = 0 then 1 else sz) b) (blocks pr) = blocks pr"
      by (simp add: filter_id_conv)
    then show ?thesis using None less.prems by (subst evict_blocks.simps) simp
  next
    case (Some pos)
    note pos = process_rb_search_range_Some [OF Some]
    obtain s where s: "stack_of h (b_stack (pos_at pos)) = Inr s"
      using proc_inv_stack_of [OF less.prems(1)] pos_stack_in [of pr pos] less.prems(1) pos
      unfolding proc_inv_def by blast
    define h1 where "h1 = emit (Collision (p_pid pr) op ptr sz (s_operation s) (b_addr (pos_at pos)) (b_size (pos_at pos))) h"
    have "proc_inv pr h1" "room (Suc k) pr h1" using less.prems by (simp_all add: h1_def emit_def proc_inv_def)
    moreover have "b_size (pos_at pos) < 2 ^ 32"
      using less.prems(4) tbl.at_entry [of pos] pos by (auto simp: small_blocks_def)
    ultimately obtain pr2 h2 l lb u a where d: "process_rb_delete_block pr h1 pos = Inr (pr2, h2)" "proc_inv pr2 h2"
        "room (Suc k) pr2 h2" "oom h2 = oom h1" "pr2 = pr\<lparr>block_table := pos_erase pos, leaks := l, leaked_bytes := lb,
          bytes_used := u, n_allocations := a\<rparr>"
      using delete_block_inv [of pr h1 k pos] pos by blast
    have "length (blocks pr2) < length (blocks pr)" using d(5) tbl.length_erase [of pos] pos by simp
    moreover have "small_blocks pr2" using less.prems(4) d(5) tbl.set_erase [of pos] pos by (auto simp: small_blocks_def)
    ultimately obtain pr' h' where IH: "evict_blocks env pr2 h2 ptr sz op = Inr (pr', h')" "proc_inv pr' h'" "room (Suc k) pr' h'"
        "oom h' = oom h2" "same_config pr2 pr'" "stack_table pr' = stack_table pr2" "realloc_list pr' = realloc_list pr2"
        "total_allocations pr' = total_allocations pr2"
        "blocks pr' = filter (\<lambda>b. \<not> starts_in ptr (if sz = 0 then 1 else sz) b) (blocks pr2)"
      using less.hyps [of pr2 h2] d less.prems(3) by blast
    have "evict_blocks env pr h ptr sz op = Inr (pr', h')"
      using Some s d(1) IH(1) less.prems(3)
      by (subst evict_blocks.simps) (simp add: process_dump_collision_def h1_def)
    moreover have "filter (\<lambda>b. \<not> starts_in ptr (if sz = 0 then 1 else sz) b) (blocks pr2)
        = filter (\<lambda>b. \<not> starts_in ptr (if sz = 0 then 1 else sz) b) (blocks pr)"
      using tbl.at_split [of pos] pos d(5) by fastforce
    ultimately show ?thesis using IH d(4,5) by (auto simp: h1_def emit_def same_config_def)
  qed
qed


subsection \<open>Finding or adding a call stack\<close>

text \<open>Resolving symbols changes the mappings, the log and the number of allocations only.\<close>

definition resolv_frame :: "process \<Rightarrow> heap \<Rightarrow> process \<Rightarrow> heap \<Rightarrow> bool" where
  "resolv_frame pr h pr' h' \<longleftrightarrow>
     (\<exists>ms ev k. pr' = pr\<lparr>map_list := ms\<rparr> \<and> h' = h\<lparr>events := ev, brk := k\<rparr> \<and> brk h \<le> k)"

lemma resolv_frame_refl: "resolv_frame pr h pr h"
  unfolding resolv_frame_def by (intro exI [of _ "map_list pr"] exI [of _ "events h"] exI [of _ "brk h"]) simp

lemma resolv_frame_trans:
  "resolv_frame pr h pr1 h1 \<Longrightarrow> resolv_frame pr1 h1 pr2 h2 \<Longrightarrow> resolv_frame pr h pr2 h2"
  unfolding resolv_frame_def by fastforce

lemma resolv_frame_malloc: "malloc h = (r, h') \<Longrightarrow> resolv_frame pr h pr h'"
  unfolding resolv_frame_def malloc_def
  by (intro exI [of _ "map_list pr"] exI [of _ "events h"] exI [of _ "Suc (brk h)"]) auto

lemma open_map_frame:
  assumes "open_map env pr h addr = Inr (m, pr', h')"
  shows "resolv_frame pr h pr' h'"
proof -
  have f: "resolv_frame pr h (pr\<lparr>map_list := ms\<rparr>) h" "resolv_frame pr h (pr\<lparr>map_list := ms\<rparr>) (emit e h)" for ms e
    unfolding resolv_frame_def emit_def
    by (intro exI [of _ ms] exI [of _ "events h"] exI [of _ "brk h"], simp)
       (intro exI [of _ ms] exI [of _ "events h @ [e]"] exI [of _ "brk h"], simp)
  show ?thesis
  proof (cases "locate_map (map_list pr) addr")
    case None
    with assms show ?thesis by (simp add: open_map_def resolv_frame_refl)
  next
    case (Some i)
    show ?thesis
    proof (cases "m_binfile (map_list pr ! i) \<noteq> None \<or> m_ignore (map_list pr ! i)")
      case True
      with Some assms show ?thesis by (auto simp: open_map_def Let_def resolv_frame_refl split: if_splits)
    next
      case False
      with Some assms have "\<exists>ms. pr' = pr\<lparr>map_list := ms\<rparr> \<and> (h' = h \<or> (\<exists>e. h' = emit e h))"
        by (auto simp: open_map_def Let_def simp del: try_paths.simps split: if_splits)
      with f show ?thesis by auto
    qed
  qed
qed

lemma resolv_address_frame:
  assumes "resolv_address env pr h addr = Inr (sy, pr', h')"
  shows "resolv_frame pr h pr' h'"
proof -
  from assms obtain m pr1 h1 where o1: "open_map env pr h addr = Inr (m, pr1, h1)"
    by (auto simp: resolv_address_def)
  have "resolv_frame pr1 h1 pr' h'"
    using assms o1 resolv_frame_malloc [of h1 _ _ pr1] resolv_frame_refl
    by (auto simp: resolv_address_def Let_def split: option.splits prod.splits)
  with open_map_frame [OF o1] show ?thesis by (rule resolv_frame_trans)
qed

lemma resolv_all_frame:
  "resolv_all env pr h n addrs = Inr (syms, pr', h') \<Longrightarrow> resolv_frame pr h pr' h'"
proof (induction n arbitrary: pr h addrs syms)
  case 0
  then show ?case by (simp add: resolv_frame_refl)
next
  case (Suc n)
  then obtain addr sy pr1 h1 syms1 where
    "resolv_address env pr h addr = Inr (sy, pr1, h1)"
    "resolv_all env pr1 h1 n (drop (ptr_size pr1) addrs) = Inr (syms1, pr', h')"
    by (auto split: option.splits)
  with Suc.IH resolv_address_frame resolv_frame_trans show ?case by blast
qed

lemma stack_resolv_frame:
  assumes "stack_resolv env pr h s = Inr (s', pr', h')"
  shows "resolv_frame pr h pr' h' \<and> s_addrs s' = s_addrs s \<and> s_refcnt s' = s_refcnt s \<and> s_operation s' = s_operation s"
  using assms resolv_frame_malloc [of h _ _ pr] resolv_frame_trans resolv_all_frame
  by (fastforce simp: stack_resolv_def split: option.splits prod.splits)

text \<open>The descent in the stack table.\<close>

lemma stack_of_key: "stack_of h i = Inr s \<Longrightarrow> s_addrs s = stack_key h i"
  by (auto simp: stack_of_def get_rbs_def get_stk_def stack_key_def split: option.splits)

lemma stack_place_correct:
  assumes "by_stack h t" and "\<And>i. i \<in> set (nodes t) \<Longrightarrow> \<exists>s. stack_of h i = Inr s"
  shows "(\<exists>i. stack_place h addrs t k = Inr (Inl i) \<and> i \<in> set (nodes t) \<and> stack_key h i = addrs) \<or>
    (\<exists>k' xs ys. stack_place h addrs t k = Inr (Inr k') \<and> plug k' Leaf = plug k t \<and>
       before k' = before k @ xs \<and> after k' = ys @ after k \<and> nodes t = xs @ ys \<and>
       (\<forall>x \<in> set xs. stack_key h x < addrs) \<and> (\<forall>y \<in> set ys. addrs < stack_key h y))"
  using assms
proof (induction h addrs t k rule: stack_place.induct)
  case (1 h addrs k)
  then show ?case by simp
next
  case (2 h addrs l c i r k)
  from "2.prems"(2) [of i] obtain s where s: "stack_of h i = Inr s" by auto
  note key = stack_of_key [OF s]
  have ord: "by_stack h l" "by_stack h r" "\<forall>x \<in> set (nodes l). stack_key h x < stack_key h i"
      "\<forall>y \<in> set (nodes r). stack_key h i < stack_key h y"
    using "2.prems"(1) by (auto simp: by_stack_def sorted_wrt_append)
  consider "addrs < stack_key h i" | "stack_key h i < addrs" | "addrs = stack_key h i" by fastforce
  then show ?case
  proof cases
    case 1
    with s key have st: "stack_place h addrs (Node l c i r) k = stack_place h addrs l (FL c i r # k)" by simp
    show ?thesis
    proof (cases "\<exists>j. stack_place h addrs l (FL c i r # k) = Inr (Inl j)")
      case True
      with "2.IH"(1) [OF s refl _ ord(1)] 1 key "2.prems"(2) st show ?thesis by fastforce
    next
      case False
      with "2.IH"(1) [OF s refl _ ord(1)] 1 key "2.prems"(2) obtain k' xs ys where
        p: "stack_place h addrs l (FL c i r # k) = Inr (Inr k')" "plug k' Leaf = plug k (Node l c i r)"
          "before k' = before k @ xs" "after k' = ys @ i # nodes r @ after k" "nodes l = xs @ ys"
          "\<forall>x \<in> set xs. stack_key h x < addrs" "\<forall>y \<in> set ys. addrs < stack_key h y" by fastforce
      have "\<forall>y \<in> set (nodes r). addrs < stack_key h y" using 1 ord(4) by (meson less_trans)
      with p st 1 show ?thesis by (intro disjI2 exI [of _ k'] exI [of _ xs] exI [of _ "ys @ i # nodes r"]) auto
    qed
  next
    case 2
    with s key have st: "stack_place h addrs (Node l c i r) k = stack_place h addrs r (FR l c i # k)" by auto
    show ?thesis
    proof (cases "\<exists>j. stack_place h addrs r (FR l c i # k) = Inr (Inl j)")
      case True
      with "2.IH"(2) [OF s refl _ _ ord(2)] 2 key "2.prems"(2) st show ?thesis by fastforce
    next
      case False
      with "2.IH"(2) [OF s refl _ _ ord(2)] 2 key "2.prems"(2) obtain k' xs ys where
        p: "stack_place h addrs r (FR l c i # k) = Inr (Inr k')" "plug k' Leaf = plug k (Node l c i r)"
          "before k' = before k @ nodes l @ i # xs" "after k' = ys @ after k" "nodes r = xs @ ys"
          "\<forall>x \<in> set xs. stack_key h x < addrs" "\<forall>y \<in> set ys. addrs < stack_key h y" by fastforce
      have "\<forall>x \<in> set (nodes l). stack_key h x < addrs" using 2 ord(3) by (meson less_trans)
      with p st 2 show ?thesis by (intro disjI2 exI [of _ k'] exI [of _ "nodes l @ i # xs"] exI [of _ ys]) auto
    qed
  next
    case 3
    with s key show ?thesis by simp
  qed
qed


text \<open>A fresh node with no blocks, linked at its place.\<close>

definition fresh_node :: "nat \<Rightarrow> rb_stack" where
  "fresh_node sp = \<lparr>rs_stack = sp, rs_refcnt = 1, rs_leaks = 0, rs_n_allocations = 0,
     rs_total_allocations = 0, rs_bytes_used = 0, rs_bytes_leaked = 0, rs_tsc = 0,
     rs_n_mismatched = 0, rs_n_badfree = 0\<rparr>"

lemma tot_zero: "(\<And>b. b \<in> set (blocks pr) \<Longrightarrow> f b = 0) \<Longrightarrow> tot f pr = 0"
proof -
  have "(\<And>b. b \<in> set bs \<Longrightarrow> f b = 0) \<Longrightarrow> sum_list (map f bs) = 0" for bs
    by (induction bs) auto
  then show "(\<And>b. b \<in> set (blocks pr) \<Longrightarrow> f b = 0) \<Longrightarrow> tot f pr = 0" by (simp add: tot_def)
qed

lemma unused_refs:
  assumes "tables_ok pr" and "i \<notin> stack_ids pr"
  shows "refs pr i = 1" and "tot (for_stack i f) pr = 0"
proof -
  have "for_stack i g b = 0" if "b \<in> set (blocks pr)" for g :: "rb_block \<Rightarrow> 'b :: zero" and b
    using assms that by (auto simp: tables_ok_def for_stack_def)
  moreover have "for_stack i g b = 0" if "b \<in> set (blocks pr)" for g :: "rb_block \<Rightarrow> nat" and b
    using assms that by (auto simp: tables_ok_def for_stack_def)
  moreover have "pending pr i = 0" using assms by (auto simp: tables_ok_def pending_def filter_empty_conv)
  ultimately show "refs pr i = 1" using tot_zero [of pr "for_stack i (\<lambda>_. 1 :: nat)"] by (simp add: refs_def)
  have "for_stack i f b = 0" if "b \<in> set (blocks pr)" for b
    using assms that by (auto simp: tables_ok_def for_stack_def)
  then show "tot (for_stack i f) pr = 0" by (rule tot_zero)
qed

lemma new_stack_inv:
  assumes inv: "proc_inv pr h" and fr: "rbs h this = None" "stks h sp = None" "this < k" "sp < k" "brk h \<le> k"
    and place: "plug place Leaf = stack_table pr"
      "\<And>x. x \<in> set (before place) \<Longrightarrow> stack_key h x < s_addrs s" "\<And>y. y \<in> set (after place) \<Longrightarrow> s_addrs s < stack_key h y"
    and s: "s_refcnt s = 1"
    and h': "h' = h\<lparr>rbs := (rbs h)(this := Some (fresh_node sp)), stks := (stks h)(sp := Some s), events := ev, brk := k\<rparr>"
    and pr': "pr' = pr\<lparr>map_list := ms, stack_table := tree_link this place, stack_trees := stack_trees pr + 1\<rparr>"
  shows "proc_inv pr' h'" and "stack_key h' this = s_addrs s"
proof -
  have nd: "nodes (stack_table pr) = before place @ after place" using place(1) by (metis append_Nil nodes.simps(1) nodes_plug)
  have nd': "nodes (stack_table pr') = before place @ this # after place" by (simp add: pr' tree_link_def)
  have old: "i \<noteq> this \<and> (\<exists>n t. rbs h i = Some n \<and> stks h (rs_stack n) = Some t \<and> rs_stack n \<noteq> sp)" if "i \<in> stack_ids pr" for i
    using inv fr(1,2) that by (fastforce simp: proc_inv_def heap_ok_def node_ok_def)
  have tn: "this \<notin> stack_ids pr" using old by blast
  have t: "tables_ok pr" using inv by (simp add: proc_inv_def)
  have refs: "refs pr' i = refs pr i" for i by (simp add: refs_def pending_def pr')
  have cnt: "counters_ok pr' i n = counters_ok pr i n" for i n by (simp add: counters_ok_def refs) (simp add: pr')
  have new: "node_ok pr' h' this"
    using s by (simp add: node_ok_def h' fresh_node_def counters_ok_def refs unused_refs [OF t tn])
       (simp add: pr' unused_refs [OF t tn])
  have node: "node_ok pr' h' i" if "i \<in> stack_ids pr" for i
  proof -
    from inv that obtain n t where "rbs h i = Some n" "stks h (rs_stack n) = Some t" "counters_ok pr i n"
        "refs pr i \<le> unat (s_refcnt t)" by (auto simp: proc_inv_def heap_ok_def node_ok_def)
    with old [OF that] show ?thesis by (auto simp: node_ok_def h' cnt refs)
  qed
  have key: "stack_key h' i = stack_key h i" if "i \<in> stack_ids pr" for i
    using old [OF that] by (auto simp: stack_key_def h')
  show kt: "stack_key h' this = s_addrs s" by (simp add: stack_key_def h' fresh_node_def)
  have ids: "stack_ids pr' = insert this (stack_ids pr)" using nd nd' by auto
  have "inj_on (\<lambda>i. map_option rs_stack (rbs h' i)) (stack_ids pr')"
    unfolding ids
  proof (rule inj_on_insert [THEN iffD2], intro conjI)
    have "inj_on (\<lambda>i. map_option rs_stack (rbs h i)) (stack_ids pr)" using inv by (simp add: proc_inv_def heap_ok_def)
    then show "inj_on (\<lambda>i. map_option rs_stack (rbs h' i)) (stack_ids pr)"
      by (rule inj_on_cong [THEN iffD1, rotated]) (use old in \<open>auto simp: h'\<close>)
    show "map_option rs_stack (rbs h' this) \<notin> (\<lambda>i. map_option rs_stack (rbs h' i)) ` (stack_ids pr - {this})"
      using old by (fastforce simp: h' fresh_node_def)
  qed
  moreover have "(\<forall>i. rbs h' i \<noteq> None \<longrightarrow> i < brk h') \<and> (\<forall>i. stks h' i \<noteq> None \<longrightarrow> i < brk h')"
    using inv fr by (auto simp: h' proc_inv_def heap_ok_def dest: less_le_trans)
  ultimately have "heap_ok pr' h'" using ids new node by (simp add: heap_ok_def)
  moreover have "by_stack h' (stack_table pr')"
  proof -
    have m: "map (stack_key h') (nodes (stack_table pr')) =
        map (stack_key h) (before place) @ s_addrs s # map (stack_key h) (after place)"
      using key nd nd' kt by simp
    have "by_stack h (stack_table pr)" using inv by (simp add: proc_inv_def)
    then show ?thesis
      using place(2,3) nd unfolding by_stack_def m by (auto simp: sorted_wrt_append)
  qed
  moreover have "tables_ok pr'"
    using t ids tbl.ok_link [of place this] place(1) nd nd' by (auto simp: tables_ok_def pr')
  moreover have "totals_ok pr'" using inv by (simp add: proc_inv_def totals_ok_def pr')
  ultimately show "proc_inv pr' h'" by (simp add: proc_inv_def)
qed


text \<open>The fields \<open>stack_add\<close> can change.\<close>

definition stack_frame :: "process \<Rightarrow> process \<Rightarrow> bool" where
  "stack_frame pr pr' \<longleftrightarrow>
     (\<exists>ms t k. pr' = pr\<lparr>map_list := ms, stack_table := t, stack_trees := k\<rparr> \<and> set (nodes (stack_table pr)) \<subseteq> set (nodes t))"

lemma stack_frame_refl: "stack_frame pr pr"
  unfolding stack_frame_def
  by (intro exI [of _ "map_list pr"] exI [of _ "stack_table pr"] exI [of _ "stack_trees pr"]) simp

lemma stack_frame_simps:
  assumes "stack_frame pr pr'"
  shows "block_table pr' = block_table pr" "realloc_list pr' = realloc_list pr" "same_config pr pr'"
    "bytes_used pr' = bytes_used pr" "n_allocations pr' = n_allocations pr"
    "total_allocations pr' = total_allocations pr" "leaks pr' = leaks pr" "leaked_bytes pr' = leaked_bytes pr"
    "tsc pr' = tsc pr" "stack_ids pr \<subseteq> stack_ids pr'"
  using assms by (auto simp: stack_frame_def same_config_def)

lemma stack_add_new:
  assumes place: "stack_place h addrs (stack_table pr) [] = Inr (Inr place)" and oom: "no_oom h"
    and rd: "read_bytes (unat sz) data = Some addrs"
    and res: "stack_add env pr h data sz op = Inr (stk, pr', h')"
  shows "\<exists>s ms ev k. stk = Some (brk h) \<and> s_addrs s = addrs \<and> s_refcnt s = 1 \<and> s_operation s = op \<and> brk h + 2 < k \<and>
      h' = h\<lparr>rbs := (rbs h)(brk h := Some (fresh_node (Suc (brk h)))), stks := (stks h)(Suc (brk h) := Some s),
        events := ev, brk := k\<rparr> \<and>
      pr' = pr\<lparr>map_list := ms, stack_table := tree_link (brk h) place, stack_trees := stack_trees pr + 1\<rparr>"
proof -
  define s1 where "s1 = \<lparr>s_refcnt = 1, s_addrs = addrs, s_size = sz, s_entries = sz div of_nat (ptr_size pr),
    s_syms = None, s_operation = op, s_ignore = False\<rparr>"
  define h4 where "h4 = h\<lparr>brk := Suc (Suc (Suc (brk h))), rbs := (rbs h)(brk h := Some (fresh_node (Suc (brk h)))),
    stks := (stks h)(Suc (brk h) := Some s1)\<rparr>"
  have "bindE (stack_resolv env pr h4 s1) (\<lambda>(s, pr, h).
      Inr (Some (brk h4 - 3), pr\<lparr>stack_table := tree_link (brk h4 - 3) place, stack_trees := stack_trees pr + 1\<rparr>,
        h\<lparr>stks := (stks h)(brk h4 - 2 := Some s)\<rparr>)) = Inr (stk, pr', h')"
    using res rd place oom
    by (simp add: stack_add_def malloc_def no_oom_def stack_get_def get_rbs_def get_stk_def s1_def h4_def fresh_node_def)
  then obtain s2 pr2 h5 where r: "stack_resolv env pr h4 s1 = Inr (s2, pr2, h5)" "stk = Some (brk h)"
      "pr' = pr2\<lparr>stack_table := tree_link (brk h) place, stack_trees := stack_trees pr2 + 1\<rparr>"
      "h' = h5\<lparr>stks := (stks h5)(Suc (brk h) := Some s2)\<rparr>"
    by (auto simp: h4_def numeral_3_eq_3 numeral_2_eq_2)
  from stack_resolv_frame [OF r(1)] obtain ms ev k where f: "pr2 = pr\<lparr>map_list := ms\<rparr>" "h5 = h4\<lparr>events := ev, brk := k\<rparr>"
      "brk h4 \<le> k" "s_addrs s2 = addrs" "s_refcnt s2 = 1" "s_operation s2 = op"
    by (auto simp: resolv_frame_def s1_def)
  show ?thesis
    by (rule exI [of _ s2], rule exI [of _ ms], rule exI [of _ ev], rule exI [of _ k])
       (use r f in \<open>simp add: h4_def\<close>)
qed

theorem stack_add_inv:
  assumes inv: "proc_inv pr h" and oom: "no_oom h" and res: "stack_add env pr h data sz op = Inr (stk, pr', h')"
  shows "\<exists>i. stk = Some i \<and> i \<in> stack_ids pr' \<and> proc_inv pr' h' \<and> oom h' = oom h \<and> stack_frame pr pr' \<and>
      (room m pr h \<longrightarrow> room m pr' h') \<and> stack_key h' i = take (unat sz) data"
proof -
  obtain addrs where rd: "read_bytes (unat sz) data = Some addrs" using res by (auto simp: stack_add_def split: option.splits)
  then have addrs: "addrs = take (unat sz) data" by (auto simp: read_bytes_def split: if_splits)
  have bs: "by_stack h (stack_table pr)" using inv by (simp add: proc_inv_def)
  from stack_place_correct [OF bs, of addrs "[]"] proc_inv_stack_of [OF inv]
  consider (old) i where "stack_place h addrs (stack_table pr) [] = Inr (Inl i)" "i \<in> stack_ids pr" "stack_key h i = addrs"
    | (new) k xs ys where "stack_place h addrs (stack_table pr) [] = Inr (Inr k)" "plug k Leaf = stack_table pr"
      "before k = xs" "after k = ys"
      "\<forall>x \<in> set xs. stack_key h x < addrs" "\<forall>y \<in> set ys. addrs < stack_key h y" by fastforce
  then show ?thesis
  proof cases
    case old
    with res rd have "stk = Some i \<and> pr' = pr \<and> h' = h" by (auto simp: stack_add_def split: if_splits)
    with old inv addrs stack_frame_refl show ?thesis by auto
  next
    case new
    from stack_add_new [OF new(1) oom rd res] obtain s ms ev k' where
      r: "stk = Some (brk h)" "s_addrs s = addrs" "s_refcnt s = 1" "brk h + 2 < k'"
        "h' = h\<lparr>rbs := (rbs h)(brk h := Some (fresh_node (Suc (brk h)))), stks := (stks h)(Suc (brk h) := Some s),
          events := ev, brk := k'\<rparr>"
        "pr' = pr\<lparr>map_list := ms, stack_table := tree_link (brk h) k, stack_trees := stack_trees pr + 1\<rparr>" by blast
    have fr: "rbs h (brk h) = None" "stks h (Suc (brk h)) = None"
      using inv by (fastforce simp: proc_inv_def heap_ok_def)+
    have inv': "proc_inv pr' h'" "stack_key h' (brk h) = s_addrs s"
      by (rule new_stack_inv [OF inv fr _ _ _ new(2) _ _ r(3,5,6)]; use r(2,4) new in auto)+
    have nd: "nodes (stack_table pr') = before k @ brk h # after k" "nodes (stack_table pr) = before k @ after k"
      using new(2) r(6) by (auto simp: tree_link_def simp flip: new(2))
    have "stack_frame pr pr'" using nd r(6) unfolding stack_frame_def by (intro exI) auto
    moreover have "room m pr h \<longrightarrow> room m pr' h'" using r(3,5,6) by (auto simp: room_def)
    ultimately show ?thesis using r inv' nd addrs by auto
  qed
qed


subsection \<open>Statistics that are not sums over the blocks\<close>

definition keeps_counters :: "(rb_stack \<Rightarrow> rb_stack) \<Rightarrow> bool" where
  "keeps_counters f \<longleftrightarrow>
     (\<forall>n. rs_stack (f n) = rs_stack n \<and> rs_refcnt (f n) = rs_refcnt n \<and>
          rs_n_allocations (f n) = rs_n_allocations n \<and> rs_bytes_used (f n) = rs_bytes_used n \<and>
          rs_leaks (f n) = rs_leaks n \<and> rs_bytes_leaked (f n) = rs_bytes_leaked n)"

lemma upd_rbs_inv:
  assumes inv: "proc_inv pr h" and i: "i \<in> stack_ids pr" and f: "keeps_counters f"
  shows "\<exists>h'. upd_rbs i f h = Inr h' \<and> proc_inv pr h' \<and> oom h' = oom h \<and> (room m pr h \<longrightarrow> room m pr h') \<and>
      stack_key h' = stack_key h"
proof -
  obtain n s where n: "rbs h i = Some n" "stks h (rs_stack n) = Some s" "counters_ok pr i n"
      "refs pr i \<le> unat (s_refcnt s)" using inv i by (auto simp: proc_inv_def heap_ok_def node_ok_def)
  have st: "rs_stack (f n) = rs_stack n" using f by (simp add: keeps_counters_def)
  have eq: "upd_rbs i f h = Inr (set_node i (f n) s h)"
    using n st by (simp add: upd_rbs_def get_rbs_def set_node_def fun_upd_idem)
  have "counters_ok pr i (f n)" using n(3) f by (simp add: counters_ok_def keeps_counters_def)
  then have "heap_ok pr (set_node i (f n) s h)"
    using heap_ok_set_node [of pr h i n s pr "f n" s] inv i n st by (simp add: proc_inv_def)
  moreover have k: "stack_key (set_node i (f n) s h) = stack_key h" using stack_key_set_node [OF n(1,2) st] by simp
  ultimately have "proc_inv pr (set_node i (f n) s h)" using inv by (simp add: proc_inv_def by_stack_def)
  moreover have "room m pr h \<longrightarrow> room m pr (set_node i (f n) s h)"
    using n(2) st by (auto simp: room_def set_node_def)
  ultimately show ?thesis using eq k by (auto simp: set_node_def)
qed

lemma proc_inv_stats [simp]:
  "proc_inv (pr\<lparr>tsc := x\<rparr>) h = proc_inv pr h" "proc_inv (pr\<lparr>total_allocations := y\<rparr>) h = proc_inv pr h"
  "proc_inv (pr\<lparr>status := z\<rparr>) h = proc_inv pr h"
  by (simp_all add: proc_inv_def tables_ok_def totals_ok_def heap_ok_def node_ok_def counters_ok_def
      refs_def pending_def tot_def)

subsection \<open>\<open>process_alloc\<close>\<close>

theorem process_alloc_inv:
  assumes inv: "proc_inv pr h" "room (Suc k) pr h" "small_blocks pr" and env: "\<not> opt_kill env" "no_oom h"
    and tr: "tracing pr" and pl: "alloc_payload pr msg payload = Inr (ptr, sz, data, ssz)"
    and res: "process_alloc env pr h msg payload = Inr (pr', h')"
  shows "proc_inv pr' h' \<and> total_allocations pr' = total_allocations pr + 1 \<and> realloc_list pr' = realloc_list pr \<and>
    (\<exists>i xs ys. i \<in> stack_ids pr' \<and> stack_key h' i = take (unat (ucast ssz :: u32)) data \<and>
       blocks pr' = xs @ \<lparr>b_flags = 0, b_addr = ptr, b_size = sz, b_stack = i\<rparr> # ys \<and>
       xs @ ys = filter (\<lambda>b. \<not> starts_in ptr (if sz = 0 then 1 else sz) b) (blocks pr))"
proof -
  obtain pr1 h1 where e: "evict_blocks env pr h ptr sz (operation msg) = Inr (pr1, h1)" "proc_inv pr1 h1" "room (Suc k) pr1 h1"
      "oom h1 = oom h" "realloc_list pr1 = realloc_list pr" "total_allocations pr1 = total_allocations pr"
      "blocks pr1 = filter (\<lambda>b. \<not> starts_in ptr (if sz = 0 then 1 else sz) b) (blocks pr)"
    using evict_blocks_inv [OF inv(1,2) env(1) inv(3)] by blast
  have oom1: "no_oom h1" using e(4) env(2) by (simp add: no_oom_def)
  from res tr pl e(1) obtain stk pr2 h2 where
    a0: "stack_add env pr1 h1 data (ucast ssz) (operation msg) = Inr (stk, pr2, h2)"
    by (auto simp: process_alloc_def split: if_splits)
  from stack_add_inv [OF e(2) oom1 a0] obtain i where a: "stk = Some i" "i \<in> stack_ids pr2" "proc_inv pr2 h2"
      "oom h2 = oom h1" "stack_frame pr1 pr2" "room (Suc k) pr2 h2" "stack_key h2 i = take (unat (ucast ssz :: u32)) data"
    using e(3) by blast
  have oom2: "no_oom h2" using a(4) oom1 by (simp add: no_oom_def)
  define b where "b = \<lparr>b_flags = 0, b_addr = ptr, b_size = sz, b_stack = i\<rparr>"
  from insert_block_inv [OF a(3) a(6) a(2) env(1) oom2 _ b_def, of "operation msg"] obtain place pr3 h3 where
    b: "process_rb_insert_block env pr2 h2 ptr sz (Some i) 0 (operation msg) = Inr (True, pr3, h3)"
      "plug place Leaf = block_table pr2"
      "pr3 = pr2\<lparr>block_table := tree_link b place, n_allocations := n_allocations pr2 + 1\<rparr>"
      "proc_inv (pr3\<lparr>bytes_used := bytes_used pr3 + sz\<rparr>) h3" "stack_key h3 = stack_key h2" by auto
  let ?pr3 = "pr3\<lparr>bytes_used := bytes_used pr3 + sz\<rparr>"
  have i3: "i \<in> stack_ids ?pr3" using a(2) b(3) by simp
  have kc: "keeps_counters (\<lambda>n. n\<lparr>rs_tsc := tsc pr3\<rparr>)" by (simp add: keeps_counters_def)
  from upd_rbs_inv [OF b(4) i3 kc] obtain h4 where
    u: "upd_rbs i (\<lambda>n. n\<lparr>rs_tsc := tsc pr3\<rparr>) h3 = Inr h4" "proc_inv ?pr3 h4" "stack_key h4 = stack_key h3" by blast
  have r: "h' = h4" "pr' = pr3\<lparr>total_allocations := total_allocations pr3 + 1, bytes_used := bytes_used pr3 + sz,
      tsc := tsc pr3 + 1\<rparr>"
    using res tr pl e(1) a0 a(1) b(1) u(1) by (auto simp: process_alloc_def)
  have p': "pr' = ?pr3\<lparr>total_allocations := total_allocations pr3 + 1, tsc := tsc pr3 + 1\<rparr>" using r by simp
  have "proc_inv pr' h'" unfolding p' r(1) using u(2) by simp
  moreover have "total_allocations pr' = total_allocations pr + 1" "realloc_list pr' = realloc_list pr"
    using p' b(3) stack_frame_simps [OF a(5)] e(5,6) by simp_all
  moreover have "blocks pr' = before place @ b # after place" using p' b(3) by (simp add: tree_link_def)
  moreover have "before place @ after place = blocks pr1"
    using b(2) stack_frame_simps(1) [OF a(5)] by (metis append_Nil nodes.simps(1) nodes_plug)
  moreover have "i \<in> stack_ids pr'" using i3 p' by simp
  ultimately show ?thesis
    using e(7) u(3) b(5) a(7) r(1) b_def
    by (intro conjI exI [of _ i] exI [of _ "before place"] exI [of _ "after place"]) simp_all
qed


subsection \<open>\<open>process_free\<close>\<close>

lemma count_stack_inv:
  assumes inv: "proc_inv pr h" and oom: "no_oom h" and f: "keeps_counters f"
    and res: "count_stack env pr h data ssz op f = Inr (pr', h')"
  shows "proc_inv pr' h' \<and> oom h' = oom h \<and> (room m pr h \<longrightarrow> room m pr' h') \<and>
      (\<exists>pr1. stack_frame pr pr1 \<and> pr' = pr1\<lparr>tsc := tsc pr + 1\<rparr>)"
proof -
  from res obtain stk pr1 h1 where a: "stack_add env pr h data (ucast ssz) op = Inr (stk, pr1, h1)"
    by (auto simp: count_stack_def)
  from stack_add_inv [OF inv oom a, of m] obtain i where i: "stk = Some i" "i \<in> stack_ids pr1" "proc_inv pr1 h1"
      "oom h1 = oom h" "stack_frame pr pr1" "room m pr h \<longrightarrow> room m pr1 h1" by blast
  have "keeps_counters (\<lambda>n. (f n)\<lparr>rs_tsc := tsc pr1\<rparr>)" using f by (simp add: keeps_counters_def)
  from upd_rbs_inv [OF i(3,2) this, of m] obtain h2 where
    u: "upd_rbs i (\<lambda>n. (f n)\<lparr>rs_tsc := tsc pr1\<rparr>) h1 = Inr h2" "proc_inv pr1 h2" "oom h2 = oom h1"
      "room m pr1 h1 \<longrightarrow> room m pr1 h2" by blast
  have "pr' = pr1\<lparr>tsc := tsc pr1 + 1\<rparr>" "h' = h2" using res a i(1) u(1) by (auto simp: count_stack_def)
  moreover have "room m (pr1\<lparr>tsc := tsc pr1 + 1\<rparr>) h2 = room m pr1 h2" by (simp add: room_def)
  ultimately show ?thesis using u(2-4) i(4-6) stack_frame_simps(9) [OF i(5)] by auto
qed

lemma stack_get_inv:
  assumes inv: "proc_inv pr h" and room: "room (Suc k) pr h" and i: "i \<in> stack_ids pr"
    and re: "re_stack re = Some i" and pr': "pr' = pr\<lparr>realloc_list := realloc_list pr @ [re]\<rparr>"
  shows "\<exists>h'. stack_get i h = Inr h' \<and> proc_inv pr' h' \<and> room k pr' h' \<and> oom h' = oom h"
proof -
  obtain n s where n: "rbs h i = Some n" "stks h (rs_stack n) = Some s" "counters_ok pr i n"
      "refs pr i \<le> unat (s_refcnt s)" using inv i by (auto simp: proc_inv_def heap_ok_def node_ok_def)
  let ?n = "n\<lparr>rs_refcnt := rs_refcnt n + 1\<rparr>" and ?s = "s\<lparr>s_refcnt := s_refcnt s + 1\<rparr>"
  have eq: "stack_get i h = Inr (set_node i ?n ?s h)"
    using n by (simp add: stack_get_def get_rbs_def get_stk_def set_node_def)
  have r: "refs pr' j = refs pr j + (if j = i then 1 else 0)" for j
    using re by (auto simp: refs_def pending_def pr')
  have su: "unat (s_refcnt s) + Suc k < 2 ^ 64" using room n(2) by (auto simp: room_def)
  then have s1: "unat (s_refcnt s + 1) = unat (s_refcnt s) + 1" by (simp add: unat_word_ariths)
  have "counters_ok pr' j m = counters_ok pr j m \<and> refs pr' j = refs pr j" if "j \<noteq> i" for j m
    using that r [of j] by (simp add: counters_ok_def pr')
  moreover have "counters_ok pr' i ?n" using n(3) r [of i] by (simp add: counters_ok_def pr' add.commute)
  moreover have "refs pr' i \<le> unat (s_refcnt ?s)" using n(4) r [of i] s1 by simp
  ultimately have "heap_ok pr' (set_node i ?n ?s h)"
    using heap_ok_set_node [of pr h i n s pr' ?n ?s] inv i n by (simp add: proc_inv_def pr')
  moreover have "by_stack (set_node i ?n ?s h) (stack_table pr')"
    using by_stack_set_node [OF n(1,2)] inv by (simp add: proc_inv_def pr')
  moreover have "tables_ok pr'" using inv i re by (auto simp: proc_inv_def tables_ok_def pr')
  moreover have "totals_ok pr'" using inv by (simp add: proc_inv_def totals_ok_def pr')
  ultimately have "proc_inv pr' (set_node i ?n ?s h)" by (simp add: proc_inv_def)
  moreover have "room k pr' (set_node i ?n ?s h)"
  proof -
    have "unat (s_refcnt t) + k < 2 ^ 64" if "stks h j = Some t" for j t
      using room that by (fastforce simp: room_def)
    with su s1 room show ?thesis by (auto simp: room_def pr' set_node_def)
  qed
  ultimately show ?thesis using eq by (simp add: set_node_def)
qed

lemma realloc_add_none_inv:
  "proc_inv pr h \<Longrightarrow> proc_inv (pr\<lparr>realloc_list := realloc_list pr @
     [\<lparr>re_pid = p, re_addr = a, re_size = z, re_flags = f, re_stack = None\<rparr>]\<rparr>) h"
  by (simp add: proc_inv_def tables_ok_def totals_ok_def heap_ok_def node_ok_def counters_ok_def
      refs_def pending_def ball_Un)

text \<open>What \<open>process_free\<close> does before it deletes the block it has found.\<close>

lemma free_found:
  assumes inv: "proc_inv pr h" "room (Suc (Suc k)) pr h" and oom: "no_oom h"
    and pos: "pos_tree pos = block_table pr" "b = pos_at pos" and kc: "keeps_counters f"
    and c: "(if c then count_stack env pr h data ssz op f else Inr (pr, h)) = Inr (pr1, h1)"
    and r: "(if r then realloc_add pr1 h1 pid (b_addr b) (b_size b) (b_flags b) (Some (b_stack b)) else Inr (pr1, h1)) = Inr (pr2, h2)"
  shows "proc_inv pr2 h2 \<and> room (Suc k) pr2 h2 \<and> block_table pr2 = block_table pr \<and> same_config pr pr2 \<and>
      realloc_list pr2 = realloc_list pr @ (if r then [\<lparr>re_pid = ucast pid, re_addr = b_addr b, re_size = b_size b,
        re_flags = b_flags b, re_stack = Some (b_stack b)\<rparr>] else [])"
proof -
  have 1: "proc_inv pr1 h1 \<and> room (Suc (Suc k)) pr1 h1 \<and> block_table pr1 = block_table pr \<and>
      realloc_list pr1 = realloc_list pr \<and> same_config pr pr1"
  proof (cases c)
    case True
    with count_stack_inv [OF inv(1) oom kc, of env data ssz op pr1 h1 "Suc (Suc k)"] c inv(2) obtain p1 where
      "proc_inv pr1 h1" "room (Suc (Suc k)) pr1 h1" "stack_frame pr p1" "pr1 = p1\<lparr>tsc := tsc pr + 1\<rparr>" by auto
    with stack_frame_simps [of pr p1] show ?thesis by (simp add: same_config_def)
  next
    case False
    with c inv show ?thesis by simp
  qed
  show ?thesis
  proof (cases r)
    case True
    have "b_stack b \<in> stack_ids pr1" using 1 pos pos_stack_in [of pr1 pos] by (simp add: proc_inv_def)
    from stack_get_inv [OF _ _ this _ refl, of h1 "Suc k" "\<lparr>re_pid = ucast pid, re_addr = b_addr b, re_size = b_size b,
        re_flags = b_flags b, re_stack = Some (b_stack b)\<rparr>"] 1 True r
    show ?thesis by (auto simp: realloc_add_def Let_def same_config_def)
  next
    case False
    with r 1 show ?thesis by (auto dest: room_mono)
  qed
qed

text \<open>The handler on a known block.\<close>

lemma process_free_eq:
  assumes "tracing pr" "alloc_payload pr msg payload = Inr (ptr, pid, data, ssz)" "ptr \<noteq> 0"
    and "process_rb_search (block_table pr) ptr = Some pos" "b = pos_at pos" "stack_of h (b_stack b) = Inr s"
    and "\<not> opt_kill env"
  shows "process_free env pr h msg payload =
     bindE (if ssz \<noteq> 0 \<and> \<not> is_sane_op (s_operation s) (operation msg)
            then count_stack env pr h data ssz (operation msg) (\<lambda>n. n\<lparr>rs_n_mismatched := rs_n_mismatched n + 1\<rparr>)
            else Inr (pr, h)) (\<lambda>(pr, h).
     bindE (if operation msg = MT_REALLOC_ENTER
            then realloc_add pr h pid (b_addr b) (b_size b) (b_flags b) (Some (b_stack b))
            else Inr (pr, h)) (\<lambda>(pr, h).
       process_rb_delete_block pr h pos))"
  using assms by (cases "ssz = 0") (simp_all add: process_free_def Let_def is_sane_def)

theorem process_free_found:
  assumes inv: "proc_inv pr h" "room 2 pr h" "small_blocks pr" and env: "\<not> opt_kill env" "no_oom h"
    and tr: "tracing pr" and pl: "alloc_payload pr msg payload = Inr (ptr, pid, data, ssz)" "ptr \<noteq> 0"
    and res: "process_free env pr h msg payload = Inr (pr', h')"
    and found: "\<exists>b \<in> set (blocks pr). b_addr b = ptr"
  shows "proc_inv pr' h' \<and> (\<exists>b xs ys. b_addr b = ptr \<and> blocks pr = xs @ b # ys \<and> blocks pr' = xs @ ys \<and>
      realloc_list pr' = realloc_list pr @ (if operation msg = MT_REALLOC_ENTER
        then [\<lparr>re_pid = ucast pid, re_addr = b_addr b, re_size = b_size b, re_flags = b_flags b,
               re_stack = Some (b_stack b)\<rparr>] else []))"
proof -
  have "by_addr (block_table pr)" using inv(1) by (simp add: proc_inv_def tables_ok_def)
  with found obtain pos where pos: "process_rb_search (block_table pr) ptr = Some pos"
    using process_rb_search_None by (cases "process_rb_search (block_table pr) ptr") auto
  note ps = process_rb_search_Some [OF pos]
  define b where "b = pos_at pos"
  let ?f = "\<lambda>n. n\<lparr>rs_n_mismatched := rs_n_mismatched n + 1\<rparr>"
  obtain s where s: "stack_of h (b_stack b) = Inr s"
    using proc_inv_stack_of [OF inv(1)] pos_stack_in [of pr pos] inv(1) ps unfolding proc_inv_def b_def by blast
  let ?c = "ssz \<noteq> 0 \<and> \<not> is_sane_op (s_operation s) (operation msg)"
  from res process_free_eq [OF tr pl pos b_def s env(1)] obtain pr1 h1 pr2 h2 where
    c: "(if ?c then count_stack env pr h data ssz (operation msg) ?f else Inr (pr, h)) = Inr (pr1, h1)" and
    r: "(if operation msg = MT_REALLOC_ENTER then realloc_add pr1 h1 pid (b_addr b) (b_size b) (b_flags b) (Some (b_stack b))
         else Inr (pr1, h1)) = Inr (pr2, h2)" and
    d: "process_rb_delete_block pr2 h2 pos = Inr (pr', h')"
    by (auto split del: if_split)
  have kc: "keeps_counters ?f" by (simp add: keeps_counters_def)
  have f: "proc_inv pr2 h2" "room (Suc 0) pr2 h2" "block_table pr2 = block_table pr"
      "realloc_list pr2 = realloc_list pr @ (if operation msg = MT_REALLOC_ENTER then [\<lparr>re_pid = ucast pid,
        re_addr = b_addr b, re_size = b_size b, re_flags = b_flags b, re_stack = Some (b_stack b)\<rparr>] else [])"
    using free_found [OF inv(1) _ env(2) _ b_def kc c r, of 0] inv(2) ps by (auto simp: numeral_2_eq_2)
  have "b_size (pos_at pos) < 2 ^ 32" using inv(3) tbl.at_entry [of pos] ps by (auto simp: small_blocks_def)
  with delete_block_inv [OF f(1,2), of pos] f(3) ps d obtain l lb u a where
    "proc_inv pr' h'" "pr' = pr2\<lparr>block_table := pos_erase pos, leaks := l, leaked_bytes := lb, bytes_used := u, n_allocations := a\<rparr>"
    by auto
  moreover obtain xs ys where "blocks pr = xs @ b # ys" "nodes (pos_erase pos) = xs @ ys"
    using tbl.at_split [of pos] ps b_def by auto
  ultimately show ?thesis using ps f(4) b_def
    by (intro conjI exI [of _ b] exI [of _ xs] exI [of _ ys]) simp_all
qed

end
