(* ===== verification/Client_Handlers.thy ===== *)
theory Client_Handlers
  imports Client_Invariant
begin

text \<open>
  The remaining message handlers of the client keep the bookkeeping invariant: a free of an unknown
  address, the end of a successful reallocation, the reports of a leak scan, the scan request, the
  mapping messages and the resets. The step relation \<open>client_step\<close> collects the handlers; every
  state it reaches from a new process satisfies the invariant.
\<close>

unbundle bit_operations_syntax

subsection \<open>Releasing an unknown address\<close>

theorem process_free_unknown:
  assumes inv: "proc_inv pr h" and env: "\<not> opt_kill env" "no_oom h"
    and tr: "tracing pr" and pl: "alloc_payload pr msg payload = Inr (ptr, pid, data, ssz)" "ptr \<noteq> 0"
    and res: "process_free env pr h msg payload = Inr (pr', h')"
    and unknown: "\<forall>b \<in> set (blocks pr). b_addr b \<noteq> ptr"
  shows "proc_inv pr' h' \<and> blocks pr' = blocks pr \<and>
      realloc_list pr' = realloc_list pr @ (if operation msg = MT_REALLOC_ENTER
        then [\<lparr>re_pid = ucast pid, re_addr = 0, re_size = 0, re_flags = 0, re_stack = None\<rparr>] else [])"
proof -
  have s: "process_rb_search (block_table pr) ptr = None"
  proof (cases "process_rb_search (block_table pr) ptr")
    case (Some pos)
    from process_rb_search_Some [OF this] tbl.at_entry [of pos] unknown show ?thesis by auto
  qed simp
  let ?f = "\<lambda>n. n\<lparr>rs_n_badfree := rs_n_badfree n + 1\<rparr>" and ?c = "\<not> attached pr \<and> ssz \<noteq> 0"
  have eq: "process_free env pr h msg payload =
     bindE (if ?c then count_stack env pr h data ssz (operation msg) ?f else Inr (pr, h)) (\<lambda>(pr, h).
       if operation msg = MT_REALLOC_ENTER then realloc_add pr h pid 0 0 0 None else Inr (pr, h))"
    using tr pl s env(1) by (cases "attached pr") (simp_all add: process_free_def)
  have kc: "keeps_counters ?f" by (simp add: keeps_counters_def)
  from res eq obtain pr1 h1 where c: "(if ?c then count_stack env pr h data ssz (operation msg) ?f else Inr (pr, h)) = Inr (pr1, h1)"
    and r: "(if operation msg = MT_REALLOC_ENTER then realloc_add pr1 h1 pid 0 0 0 None else Inr (pr1, h1)) = Inr (pr', h')"
    by (auto split del: if_split)
  have 1: "proc_inv pr1 h1 \<and> block_table pr1 = block_table pr \<and> realloc_list pr1 = realloc_list pr"
  proof (cases ?c)
    case True
    with count_stack_inv [OF inv env(2) kc, of env data ssz "operation msg" pr1 h1 0] c obtain p1 where
      "proc_inv pr1 h1" "stack_frame pr p1" "pr1 = p1\<lparr>tsc := tsc pr + 1\<rparr>" by auto
    with stack_frame_simps [of pr p1] show ?thesis by simp
  next
    case False
    with c inv show ?thesis by (auto split: if_splits)
  qed
  with r realloc_add_none_inv [of pr1 h1 "ucast pid" 0 0 0] show ?thesis
    by (auto simp: realloc_add_def Let_def split: if_splits)
qed

subsection \<open>The end of a reallocation\<close>

lemma find_realloc_Some:
  "find_realloc res pid = Some (re, rest) \<Longrightarrow> \<exists>xs ys. res = xs @ re # ys \<and> rest = xs @ ys \<and> re_pid re = pid"
proof (induction res arbitrary: rest)
  case (Cons r res)
  show ?case
  proof (cases "re_pid r = pid")
    case True
    with Cons.prems show ?thesis by (intro exI [of _ "[]"] exI [of _ res]) auto
  next
    case False
    with Cons obtain xs ys where "res = xs @ re # ys" "rest = r # xs @ ys" "re_pid re = pid" by fastforce
    then show ?thesis by (intro exI [of _ "r # xs"] exI [of _ ys]) auto
  qed
qed simp

lemma realloc_del_inv:
  assumes inv: "proc_inv pr h" and room: "room (Suc k) pr h" and l: "realloc_list pr = xs @ re # ys"
    and pr': "pr' = pr\<lparr>realloc_list := xs @ ys\<rparr>"
  shows "\<exists>h'. realloc_del re h = Inr h' \<and> proc_inv pr' h' \<and> oom h' = oom h \<and> room (Suc k) pr' h'"
proof (cases "re_stack re")
  case None
  have "refs pr' = refs pr" using None by (auto simp: refs_def pending_def pr' l)
  moreover from this have "counters_ok pr' = counters_ok pr" by (auto simp: counters_ok_def fun_eq_iff pr')
  ultimately have "proc_inv pr' h"
    using inv l by (simp add: proc_inv_def tables_ok_def totals_ok_def heap_ok_def node_ok_def ball_Un pr')
  moreover have "room (Suc k) pr' h" using room by (simp add: room_def pr' l)
  ultimately show ?thesis using None by (simp add: realloc_del_def)
next
  case (Some i)
  have i: "i \<in> stack_ids pr" using inv l Some by (auto simp: proc_inv_def tables_ok_def)
  then obtain n s where n: "rbs h i = Some n" "stks h (rs_stack n) = Some s" "counters_ok pr i n"
      "refs pr i \<le> unat (s_refcnt s)" using inv by (auto simp: proc_inv_def heap_ok_def node_ok_def)
  let ?n = "n\<lparr>rs_refcnt := rs_refcnt n - 1\<rparr>" and ?s = "s\<lparr>s_refcnt := s_refcnt s - 1\<rparr>"
  have r: "refs pr j = refs pr' j + (if j = i then 1 else 0)" for j
    using Some by (auto simp: refs_def pending_def pr' l)
  have "refs pr' i \<ge> 1" by (simp add: refs_def)
  moreover have "unat (rs_refcnt n) = refs pr i" using n(3) unat_refs [OF room] by (simp add: counters_ok_def)
  ultimately have ne: "rs_refcnt n \<noteq> 1" "s_refcnt s \<noteq> 1" "s_refcnt s \<noteq> 0" using r [of i] n(4) by auto
  have s1: "unat (s_refcnt s - 1) = unat (s_refcnt s) - 1" by (rule unat_minus_one [OF ne(3)])
  have eq: "realloc_del re h = Inr (set_node i ?n ?s h)"
    using n ne Some by (simp add: realloc_del_def stack_put_def get_rbs_def get_stk_def set_node_def)
  have "counters_ok pr' j m = counters_ok pr j m \<and> refs pr' j = refs pr j" if "j \<noteq> i" for j m
    using that r [of j] by (simp add: counters_ok_def pr')
  moreover have "counters_ok pr' i ?n" using n(3) r [of i] by (simp add: counters_ok_def pr')
  moreover have "refs pr' i \<le> unat (s_refcnt ?s)" using n(4) r [of i] s1 by simp
  ultimately have "heap_ok pr' (set_node i ?n ?s h)"
    using heap_ok_set_node [of pr h i n s pr' ?n ?s] inv i n by (simp add: proc_inv_def pr')
  moreover have "by_stack (set_node i ?n ?s h) (stack_table pr')"
    using by_stack_set_node [OF n(1,2)] inv by (simp add: proc_inv_def pr')
  moreover have "tables_ok pr'" using inv l by (auto simp: proc_inv_def tables_ok_def pr')
  moreover have "totals_ok pr'" using inv by (simp add: proc_inv_def totals_ok_def pr')
  ultimately have "proc_inv pr' (set_node i ?n ?s h)" by (simp add: proc_inv_def)
  moreover have "room (Suc k) pr' (set_node i ?n ?s h)"
  proof -
    have "unat (s_refcnt s) + Suc k < 2 ^ 64" using room n(2) by (auto simp: room_def)
    then have "unat (s_refcnt s - 1) + Suc k < 2 ^ 64" using s1 by linarith
    with room l show ?thesis by (auto simp: room_def pr' set_node_def)
  qed
  ultimately show ?thesis using eq by (simp add: set_node_def)
qed

text \<open>A reallocation that succeeded, or that had no known block: the pending entry is dropped.\<close>

theorem process_realloc_done_inv:
  assumes inv: "proc_inv pr h" "room 1 pr h" and tr: "tracing pr"
    and pl: "alloc_payload pr msg payload = Inr (ptr, pid, data, ssz)"
    and f: "find_realloc (realloc_list pr) (ucast pid) = Some (re, rest)" and ok: "ptr \<noteq> 0 \<or> re_addr re = 0"
  shows "\<exists>h'. process_realloc_done env pr h msg payload = Inr (pr\<lparr>realloc_list := rest\<rparr>, h') \<and>
      proc_inv (pr\<lparr>realloc_list := rest\<rparr>) h'"
proof -
  from find_realloc_Some [OF f] obtain xs ys where l: "realloc_list pr = xs @ re # ys" "rest = xs @ ys" by blast
  from realloc_del_inv [OF inv(1) _ l(1) refl, of 0] inv(2) l(2) obtain h' where
    "realloc_del re h = Inr h'" "proc_inv (pr\<lparr>realloc_list := rest\<rparr>) h'" by auto
  with tr pl f ok show ?thesis by (auto simp: process_realloc_done_def)
qed


subsection \<open>Leak reports\<close>

lemma or_and_self: "(w OR m) AND m = (m :: 'a :: len word)"
  by (rule bit_word_eqI) (auto simp: bit_and_iff bit_or_iff)

lemma leaked_or [simp]: "leaked (b\<lparr>b_flags := f OR BLOCK_LEAKED\<rparr>)"
  by (simp add: leaked_def or_and_self) (simp add: BLOCK_LEAKED_def)

text \<open>The identity of a block: everything but its flags.\<close>

definition ident :: "rb_block \<Rightarrow> ulong \<times> ulong \<times> nat" where
  "ident b = (b_addr b, b_size b, b_stack b)"

lemma mark_leaked_inv:
  assumes inv: "proc_inv pr h" and pos: "pos_tree pos = block_table pr" "b = pos_at pos" and nl: "\<not> leaked b"
    and pr': "pr' = pr\<lparr>block_table := pos_replace (b\<lparr>b_flags := b_flags b OR BLOCK_LEAKED\<rparr>) pos,
        leaks := leaks pr + 1, leaked_bytes := leaked_bytes pr + b_size b\<rparr>"
  shows "\<exists>h'. upd_rbs (b_stack b) (\<lambda>n. n\<lparr>rs_leaks := rs_leaks n + 1, rs_bytes_leaked := rs_bytes_leaked n + b_size b\<rparr>) h
      = Inr h' \<and> proc_inv pr' h' \<and> map ident (blocks pr') = map ident (blocks pr)"
proof -
  define i where "i = b_stack b"
  define b' where "b' = b\<lparr>b_flags := b_flags b OR BLOCK_LEAKED\<rparr>"
  have i: "i \<in> stack_ids pr" using inv pos pos_stack_in by (simp add: proc_inv_def i_def)
  then obtain n s where n: "rbs h i = Some n" "stks h (rs_stack n) = Some s" "counters_ok pr i n"
      "refs pr i \<le> unat (s_refcnt s)" using inv by (auto simp: proc_inv_def heap_ok_def node_ok_def)
  let ?n = "n\<lparr>rs_leaks := rs_leaks n + 1, rs_bytes_leaked := rs_bytes_leaked n + b_size b\<rparr>"
  have eq: "upd_rbs i (\<lambda>n. n\<lparr>rs_leaks := rs_leaks n + 1, rs_bytes_leaked := rs_bytes_leaked n + b_size b\<rparr>) h
      = Inr (set_node i ?n s h)"
    using n by (simp add: upd_rbs_def get_rbs_def set_node_def fun_upd_idem)
  have b': "b_stack b' = i" "b_size b' = b_size b" "b_addr b' = b_addr b" "leaked b'"
    by (simp_all add: b'_def i_def)
  have tw: "tot f pr' = tot f pr - f b + f b'" for f :: "rb_block \<Rightarrow> ulong"
    using tot_replace [OF pos(1), of f b'] tot_erase_word [OF pos(1), of f] pos(2) by (simp add: pr' b'_def)
  have tn: "tot (for_stack j (\<lambda>_. 1 :: nat)) pr' = tot (for_stack j (\<lambda>_. 1)) pr" for j
    using tot_replace [OF pos(1), of "for_stack j (\<lambda>_. 1 :: nat)" b'] tot_erase [OF pos(1), of "for_stack j (\<lambda>_. 1 :: nat)"]
      pos(2) b'(1) by (simp add: pr' b'_def for_stack_def i_def)
  have refs: "refs pr' j = refs pr j" for j using tn [of j] by (simp add: refs_def pending_def pr')
  have "counters_ok pr' j m = counters_ok pr j m" if "j \<noteq> i" for j m
    using that b'(1) by (simp add: counters_ok_def refs tw i_def for_stack_def)
  moreover have "counters_ok pr' i ?n"
    using n(3) b' nl by (simp add: counters_ok_def refs tw for_stack_def leak1_def leaksz_def i_def)
  ultimately have "heap_ok pr' (set_node i ?n s h)"
    using heap_ok_set_node [of pr h i n s pr' ?n s] inv i n refs by (simp add: proc_inv_def pr')
  moreover have "by_stack (set_node i ?n s h) (stack_table pr')"
    using by_stack_set_node [OF n(1,2)] inv by (simp add: proc_inv_def pr')
  moreover have "tables_ok pr'"
  proof -
    obtain xs ys where sp: "blocks pr = xs @ b # ys" "\<forall>c. nodes (pos_replace c pos) = xs @ c # ys"
      using tbl.at_split [of pos] pos by auto
    then show ?thesis
      using inv tbl.ok_replace [of pos b'] tbl.sorted_replace [of b_addr b' pos] pos b' i
      by (auto simp: proc_inv_def tables_ok_def pr' b'_def)
  qed
  moreover have "totals_ok pr'"
    using inv b' nl by (auto simp: proc_inv_def totals_ok_def tw leak1_def leaksz_def) (simp_all add: pr')
  ultimately have "proc_inv pr' (set_node i ?n s h)" by (simp add: proc_inv_def)
  moreover have "map ident (blocks pr') = map ident (blocks pr)"
    using tbl.at_split [of pos] pos by (auto simp: pr' ident_def)
  ultimately show ?thesis using eq by (simp add: i_def)
qed

theorem scan_loop_inv:
  "proc_inv pr h \<Longrightarrow> scan_loop n buf pr h = Inr (new, pr', h') \<Longrightarrow>
   proc_inv pr' h' \<and> map ident (blocks pr') = map ident (blocks pr) \<and> n_allocations pr' = n_allocations pr \<and>
   bytes_used pr' = bytes_used pr \<and> leaks pr' = leaks pr + of_nat (length new)"
proof (induction n arbitrary: buf pr h new)
  case (Suc n)
  from Suc.prems(2) obtain a where a: "get_ulong pr buf = Some a" by (auto split: option.splits)
  show ?case
  proof (cases "process_rb_search (block_table pr) a")
    case None
    with Suc a show ?thesis by auto
  next
    case (Some pos)
    note ps = process_rb_search_Some [OF Some]
    show ?thesis
    proof (cases "leaked (pos_at pos)")
      case True
      with Suc a Some show ?thesis by (auto simp: leaked_def Let_def)
    next
      case False
      let ?b = "pos_at pos"
      define pr1 where "pr1 = pr\<lparr>block_table := pos_replace (?b\<lparr>b_flags := b_flags ?b OR BLOCK_LEAKED\<rparr>) pos,
          leaks := leaks pr + 1, leaked_bytes := leaked_bytes pr + b_size ?b\<rparr>"
      from mark_leaked_inv [OF Suc.prems(1) conjunct1 [OF ps] refl False pr1_def] obtain h1 where
        m: "upd_rbs (b_stack ?b) (\<lambda>n. n\<lparr>rs_leaks := rs_leaks n + 1, rs_bytes_leaked := rs_bytes_leaked n + b_size ?b\<rparr>) h
          = Inr h1" "proc_inv pr1 h1" "map ident (blocks pr1) = map ident (blocks pr)" by blast
      from Suc.prems(2) a Some False m(1) obtain new1 where
        "scan_loop n (drop (ptr_size pr) buf) pr1 h1 = Inr (new1, pr', h')" "new = a # new1"
        by (auto simp: leaked_def Let_def pr1_def)
      with Suc.IH [OF m(2)] m(3) show ?thesis by (auto simp: pr1_def)
    qed
  qed
qed simp

subsection \<open>The scan request\<close>

lemma is_rbt_shape:
  "map_rbt (\<lambda>_. ()) t = map_rbt (\<lambda>_. ()) t' \<Longrightarrow> is_rbt t = is_rbt t'"
proof -
  have r: "color_of (map_rbt f t) = color_of t" "bh (map_rbt f t) = bh t" "red_ok (map_rbt f t) = red_ok t"
    "balanced (map_rbt f t) = balanced t" for f :: "'x \<Rightarrow> unit" and t
    by (induction t) (auto split: color.splits)
  assume "map_rbt (\<lambda>_. ()) t = map_rbt (\<lambda>_. ()) t'"
  with r show ?thesis unfolding is_rbt_def by metis
qed


lemma foreach_result:
  assumes "process_block_foreach f t u = Inr (t', u')"
    and "\<And>b u b' u'. f b u = Inr (b', u') \<Longrightarrow> ident b' = ident b \<and> leaked b' = leaked b"
  shows "map_rbt (\<lambda>_. ()) t' = map_rbt (\<lambda>_. ()) t \<and> map ident (nodes t') = map ident (nodes t) \<and>
      map leaked (nodes t') = map leaked (nodes t)"
  using assms(1)
proof (induction t arbitrary: u t' u')
  case (Node l c b r)
  then obtain l' u1 b' u2 r' where r: "process_block_foreach f l u = Inr (l', u1)" "f b u1 = Inr (b', u2)"
      "process_block_foreach f r u2 = Inr (r', u')" "t' = Node l' c b' r'" by auto
  with Node.IH(1) [OF r(1)] Node.IH(2) [OF r(3)] assms(2) [OF r(2)] show ?case by simp
qed simp

lemma tot_ident:
  assumes "map ident (blocks pr') = map ident (blocks pr)" and "map leaked (blocks pr') = map leaked (blocks pr)"
  shows "tot (\<lambda>b. g (ident b) (leaked b)) pr' = tot (\<lambda>b. g (ident b) (leaked b)) pr"
proof -
  have "map (\<lambda>b. g (ident b) (leaked b)) bs = map2 g (map ident bs) (map leaked bs)" for bs
    by (induction bs) auto
  with assms show ?thesis by (simp only: tot_def)
qed

lemma set_ident: "map ident bs' = map ident bs \<Longrightarrow> b' \<in> set bs' \<Longrightarrow> \<exists>b \<in> set bs. ident b = ident b'"
proof -
  assume e: "map ident bs' = map ident bs" and "b' \<in> set bs'"
  from this(2) have "ident b' \<in> set (map ident bs')" by simp
  then have "ident b' \<in> set (map ident bs)" by (simp only: e)
  then show ?thesis by force
qed

lemma flags_only_inv:
  assumes inv: "proc_inv pr h" and sh: "map_rbt (\<lambda>_. ()) t = map_rbt (\<lambda>_. ()) (block_table pr)"
    and id: "map ident (nodes t) = map ident (blocks pr)" and lk: "map leaked (nodes t) = map leaked (blocks pr)"
  shows "proc_inv (pr\<lparr>block_table := t\<rparr>) h"
proof -
  let ?pr = "pr\<lparr>block_table := t\<rparr>"
  note te = tot_ident [of ?pr pr, simplified, OF id lk]
  have tn: "tot (for_stack i (\<lambda>_. 1 :: nat)) ?pr = tot (for_stack i (\<lambda>_. 1)) pr" for i
    using te [of "\<lambda>(a, s, j) l. if j = i then 1 :: nat else 0"] by (simp add: for_stack_def [abs_def] ident_def del: One_nat_def)
  have tw: "tot (for_stack i (\<lambda>_. 1 :: ulong)) ?pr = tot (for_stack i (\<lambda>_. 1)) pr"
    "tot (for_stack i b_size) ?pr = tot (for_stack i b_size) pr"
    "tot (for_stack i leak1) ?pr = tot (for_stack i leak1) pr"
    "tot (for_stack i leaksz) ?pr = tot (for_stack i leaksz) pr" for i
    using te [of "\<lambda>(a, s, j) l. if j = i then 1 :: ulong else 0"] te [of "\<lambda>(a, s, j) l. if j = i then s else 0"]
      te [of "\<lambda>(a, s, j) l. if j = i then if l then 1 :: ulong else 0 else 0"]
      te [of "\<lambda>(a, s, j) l. if j = i then if l then s else 0 else 0"]
    by (simp_all add: for_stack_def [abs_def] leak1_def [abs_def] leaksz_def [abs_def] ident_def)
  have tt: "tot (\<lambda>_. 1 :: ulong) ?pr = tot (\<lambda>_. 1) pr" "tot b_size ?pr = tot b_size pr"
    "tot leak1 ?pr = tot leak1 pr" "tot leaksz ?pr = tot leaksz pr"
    using te [of "\<lambda>(a, s, j) l. 1 :: ulong"] te [of "\<lambda>(a, s, j) l. s"] te [of "\<lambda>(a, s, j) l. if l then 1 :: ulong else 0"]
      te [of "\<lambda>(a, s, j) l. if l then s else 0"]
    by (simp_all add: leak1_def [abs_def] leaksz_def [abs_def] ident_def)
  have refs: "refs ?pr i = refs pr i" for i using tn [of i] by (simp add: refs_def pending_def)
  have "counters_ok ?pr i n = counters_ok pr i n" for i n by (simp add: counters_ok_def refs tw)
  then have "heap_ok ?pr h" using inv by (simp add: proc_inv_def heap_ok_def node_ok_def refs)
  moreover have "map b_addr (nodes t) = map b_addr (blocks pr)"
    using arg_cong [OF id, of "map fst"] by (simp add: ident_def comp_def)
  then have "tables_ok ?pr"
    using inv is_rbt_shape [OF sh] set_ident [OF id] by (fastforce simp: proc_inv_def tables_ok_def ident_def)
  moreover have "totals_ok ?pr" using inv by (simp add: proc_inv_def totals_ok_def tt)
  ultimately show ?thesis using inv by (simp add: proc_inv_def)
qed

lemma leaked_scanned [simp]: "leaked (b\<lparr>b_flags := f OR BLOCK_SCANNED\<rparr>) = leaked (b\<lparr>b_flags := f\<rparr>)"
proof -
  have "bit (BLOCK_LEAKED) n \<longleftrightarrow> n = 0" "\<not> bit BLOCK_SCANNED 0" for n
    by (simp_all add: BLOCK_LEAKED_def BLOCK_SCANNED_def bit_1_iff)
  then have "(f OR BLOCK_SCANNED) AND BLOCK_LEAKED = f AND BLOCK_LEAKED"
    by (intro bit_word_eqI) (auto simp: bit_and_iff bit_or_iff)
  then show ?thesis by (simp add: leaked_def)
qed

theorem process_leaks_scan_inv:
  assumes inv: "proc_inv pr h" and res: "process_leaks_scan pr h mode = Inr (n, pr', h')"
  shows "proc_inv pr' h' \<and> map ident (blocks pr') = map ident (blocks pr)"
proof (cases "n_allocations pr = 0 \<or> oom h (brk h)")
  case True
  have "heap_ok pr (h\<lparr>brk := Suc (brk h)\<rparr>)" using inv by (simp add: proc_inv_def)
  with True res inv show ?thesis
    by (auto simp: process_leaks_scan_def malloc_def proc_inv_def split: if_splits prod.splits)
next
  case False
  obtain fmask fmode where m: "(case mode of SCAN_ALL \<Rightarrow> (0, 0) | SCAN_NEW \<Rightarrow> (BLOCK_SCANNED, 0)
      | SCAN_LEAK \<Rightarrow> (0, BLOCK_LEAKED)) = (fmask, fmode)" by fastforce
  define h1 where "h1 = h\<lparr>brk := Suc (brk h)\<rparr>"
  from res False m obtain t hp e1 e2 where
    f: "process_block_foreach (set_block pr h1 (fmask OR BLOCK_IGNORE) fmode) (block_table pr)
          \<lparr>bh_len = 0, bh_mask = -1, bh_data = []\<rparr> = Inr (t, hp)" and r: "pr' = pr\<lparr>block_table := t\<rparr>" "h' = emit e2 (emit e1 h1)"
    by (auto simp: process_leaks_scan_def malloc_def Let_def h1_def)
  have "ident b' = ident b \<and> leaked b' = leaked b"
    if "set_block pr h1 (fmask OR BLOCK_IGNORE) fmode b u = Inr (b', u')" for b u b' u'
    using that by (auto simp: set_block_def ident_def split: if_splits)
  from foreach_result [OF f this] have s: "map_rbt (\<lambda>_. ()) t = map_rbt (\<lambda>_. ()) (block_table pr)"
    "map ident (nodes t) = map ident (blocks pr)" "map leaked (nodes t) = map leaked (blocks pr)" by auto
  have "proc_inv pr h1" using inv by (simp add: proc_inv_def h1_def)
  from flags_only_inv [OF this s] r s show ?thesis by simp
qed


subsection \<open>Resetting a process\<close>

text \<open>Every stack node of \<open>S\<close> has exactly \<open>c\<close> holders.\<close>

definition held :: "nat set \<Rightarrow> heap \<Rightarrow> (nat \<Rightarrow> nat) \<Rightarrow> bool" where
  "held S h c \<longleftrightarrow>
     (\<forall>i. rbs h i \<noteq> None \<longrightarrow> i < brk h) \<and> (\<forall>i. stks h i \<noteq> None \<longrightarrow> i < brk h) \<and>
     inj_on (\<lambda>i. map_option rs_stack (rbs h i)) S \<and>
     (\<forall>i \<in> S. \<exists>n s. rbs h i = Some n \<and> stks h (rs_stack n) = Some s \<and> rs_refcnt n = of_nat (c i) \<and>
        c i \<le> unat (s_refcnt s) \<and> c i < 2 ^ 64)"

text \<open>The per-stack sums that releasing a reference does not touch.\<close>

definition stats :: "heap \<Rightarrow> nat \<Rightarrow> (u64 \<times> ulong \<times> u64) option" where
  "stats h i = map_option (\<lambda>n. (rs_bytes_used n, rs_leaks n, rs_bytes_leaked n)) (rbs h i)"

lemma held_inv: "proc_inv pr h \<Longrightarrow> room (Suc k) pr h \<Longrightarrow> held (stack_ids pr) h (refs pr)"
  using refs_bound [of k pr h]
  by (fastforce simp: proc_inv_def heap_ok_def node_ok_def counters_ok_def held_def Suc_lessD)

lemma held_set_node:
  assumes "held S h c" "i \<in> S" "rbs h i = Some n" "stks h (rs_stack n) = Some s"
    and "rs_stack n' = rs_stack n" "rs_refcnt n' = of_nat v" "v \<le> unat (s_refcnt s')" "v < 2 ^ 64"
  shows "held S (set_node i n' s' h) (c(i := v))"
proof -
  have f: "(\<lambda>j. map_option rs_stack (rbs (set_node i n' s' h) j)) = (\<lambda>j. map_option rs_stack (rbs h j))"
    using assms(3,5) by (auto simp: set_node_def)
  have o: "\<exists>m t. rbs (set_node i n' s' h) j = Some m \<and> stks (set_node i n' s' h) (rs_stack m) = Some t \<and>
      rs_refcnt m = of_nat ((c(i := v)) j) \<and> (c(i := v)) j \<le> unat (s_refcnt t) \<and> (c(i := v)) j < 2 ^ 64" if "j \<in> S" for j
  proof (cases "j = i")
    case True
    with assms show ?thesis by (simp add: set_node_def)
  next
    case False
    from assms(1) that obtain m t where m: "rbs h j = Some m" "stks h (rs_stack m) = Some t" "rs_refcnt m = of_nat (c j)"
        "c j \<le> unat (s_refcnt t)" "c j < 2 ^ 64" by (auto simp: held_def)
    moreover have "rs_stack m \<noteq> rs_stack n"
      using assms(1-3) that False m(1) unfolding held_def by (metis inj_onD option.map(2))
    ultimately show ?thesis using False assms(5) by (simp add: set_node_def)
  qed
  show ?thesis
    unfolding held_def f using assms o by (auto simp: held_def set_node_def)
qed

lemma held_put:
  assumes "held S h c" "i \<in> S" "c i = Suc (Suc v)"
  shows "\<exists>h'. stack_put i h = Inr h' \<and> held S h' (c(i := Suc v)) \<and> brk h' = brk h \<and> stats h' = stats h"
proof -
  obtain n s where n: "rbs h i = Some n" "stks h (rs_stack n) = Some s" "rs_refcnt n = of_nat (c i)"
      "c i \<le> unat (s_refcnt s)" "c i < 2 ^ 64" using assms(1,2) by (auto simp: held_def)
  have u: "unat (rs_refcnt n) = Suc (Suc v)" using n(3,5) assms(3) by (simp add: unat_of_nat del: of_nat_Suc)
  then have ne: "rs_refcnt n \<noteq> 1" "s_refcnt s \<noteq> 1" "s_refcnt s \<noteq> 0" using n(4) assms(3) by auto
  have s1: "unat (s_refcnt s - 1) = unat (s_refcnt s) - 1" by (rule unat_minus_one [OF ne(3)])
  let ?n = "n\<lparr>rs_refcnt := rs_refcnt n - 1\<rparr>" and ?s = "s\<lparr>s_refcnt := s_refcnt s - 1\<rparr>"
  have "stack_put i h = Inr (set_node i ?n ?s h)"
    using n ne by (simp add: stack_put_def get_rbs_def get_stk_def set_node_def)
  moreover have "held S (set_node i ?n ?s h) (c(i := Suc v))"
    by (rule held_set_node [OF assms(1,2) n(1,2)]) (use n assms(3) s1 in auto)
  ultimately show ?thesis using n(1) by (auto simp: set_node_def stats_def)
qed

lemma held_upd:
  assumes "held S h c" "i \<in> S" and "\<And>n. rs_stack (f n) = rs_stack n \<and> rs_refcnt (f n) = rs_refcnt n"
    and "\<And>n. rs_bytes_used (f n) = rs_bytes_used n \<and> rs_leaks (f n) = rs_leaks n \<and> rs_bytes_leaked (f n) = rs_bytes_leaked n"
  shows "\<exists>h'. upd_rbs i f h = Inr h' \<and> held S h' c \<and> brk h' = brk h \<and> stats h' = stats h"
proof -
  obtain n s where n: "rbs h i = Some n" "stks h (rs_stack n) = Some s" "rs_refcnt n = of_nat (c i)"
      "c i \<le> unat (s_refcnt s)" "c i < 2 ^ 64" using assms(1,2) by (auto simp: held_def)
  have "upd_rbs i f h = Inr (set_node i (f n) s h)"
    using n assms(3) by (simp add: upd_rbs_def get_rbs_def set_node_def fun_upd_idem)
  moreover have "held S (set_node i (f n) s h) (c(i := c i))"
    by (rule held_set_node [OF assms(1,2) n(1,2)]) (use n assms(3) in auto)
  ultimately show ?thesis using n(1) assms(4) by (auto simp: set_node_def stats_def)
qed

lemma reset_blocks_held:
  assumes "held S h (\<lambda>i. Suc (length (filter (\<lambda>b. b_stack b = i) bs) + k i))" "\<forall>b \<in> set bs. b_stack b \<in> S"
  shows "\<exists>h'. reset_blocks bs pr h = Inr (pr\<lparr>n_allocations := n_allocations pr - of_nat (length bs)\<rparr>, h') \<and>
      held S h' (\<lambda>i. Suc (k i)) \<and> brk h' = brk h \<and> stats h' = stats h"
  using assms
proof (induction bs arbitrary: pr h)
  case (Cons b bs)
  let ?c = "\<lambda>i. Suc (length (filter (\<lambda>b. b_stack b = i) bs) + k i)" and ?i = "b_stack b"
  let ?c1 = "\<lambda>i. Suc (length (filter (\<lambda>b. b_stack b = i) (b # bs)) + k i)"
  have i: "?i \<in> S" using Cons.prems(2) by simp
  obtain h1 where h1: "upd_rbs ?i (\<lambda>n. n\<lparr>rs_n_allocations := rs_n_allocations n - 1\<rparr>) h = Inr h1" "held S h1 ?c1" "brk h1 = brk h" "stats h1 = stats h"
    using held_upd [OF Cons.prems(1) i, of "\<lambda>n. n\<lparr>rs_n_allocations := rs_n_allocations n - 1\<rparr>"] by auto
  have c: "?c1 ?i = Suc (Suc (length (filter (\<lambda>b. b_stack b = ?i) bs) + k ?i))" by simp
  obtain h2 where h2: "stack_put ?i h1 = Inr h2" "held S h2 (?c1(?i := Suc (length (filter (\<lambda>b. b_stack b = ?i) bs) + k ?i)))"
      "brk h2 = brk h1" "stats h2 = stats h1"
    using held_put [OF h1(2) i c] by blast
  have "?c1(?i := Suc (length (filter (\<lambda>b. b_stack b = ?i) bs) + k ?i)) = ?c" by auto
  with h2(2) have "held S h2 ?c" by simp
  from Cons.IH [OF this, of "pr\<lparr>n_allocations := n_allocations pr - 1\<rparr>"] Cons.prems(2) h1 h2 show ?case
    by (auto simp: algebra_simps)
qed simp

lemma reset_reallocs_held:
  assumes "held S h (\<lambda>i. Suc (length (filter (\<lambda>re. re_stack re = Some i) res)))"
    and "\<forall>re \<in> set res. \<forall>i. re_stack re = Some i \<longrightarrow> i \<in> S"
  shows "\<exists>h'. reset_reallocs res h = Inr h' \<and> held S h' (\<lambda>i. 1) \<and> brk h' = brk h \<and> stats h' = stats h"
  using assms
proof (induction res arbitrary: h)
  case (Cons re res)
  show ?case
  proof (cases "re_stack re")
    case None
    with Cons show ?thesis by (simp add: realloc_del_def)
  next
    case (Some i)
    let ?c1 = "\<lambda>i. Suc (length (filter (\<lambda>re. re_stack re = Some i) (re # res)))"
    have i: "i \<in> S" and c: "?c1 i = Suc (Suc (length (filter (\<lambda>re. re_stack re = Some i) res)))"
      using Cons.prems(2) Some by auto
    obtain h2 where h2: "stack_put i h = Inr h2" "held S h2 (?c1(i := Suc (length (filter (\<lambda>re. re_stack re = Some i) res))))"
        "brk h2 = brk h" "stats h2 = stats h"
      using held_put [OF Cons.prems(1) i c] by blast
    have "?c1(i := Suc (length (filter (\<lambda>re. re_stack re = Some i) res)))
        = (\<lambda>i. Suc (length (filter (\<lambda>re. re_stack re = Some i) res)))" using Some by auto
    with h2 have "held S h2 (\<lambda>i. Suc (length (filter (\<lambda>re. re_stack re = Some i) res)))" by simp
    from Cons.IH [OF this] Cons.prems(2) Some h2 show ?thesis by (auto simp: realloc_del_def)
  qed
qed simp

lemma held_node:
  assumes "held S h c" and "i \<in> S"
  shows "\<exists>n s. rbs h i = Some n \<and> stks h (rs_stack n) = Some s \<and> rs_refcnt n = of_nat (c i) \<and>
      c i \<le> unat (s_refcnt s)"
  using assms unfolding held_def by blast

lemma reset_stacks_held:
  assumes "held (set is) h (\<lambda>i. 1)" and "distinct is"
  shows "\<exists>h'. reset_stacks is pr h = Inr (pr\<lparr>stack_trees := stack_trees pr - of_nat (length is)\<rparr>, h') \<and>
      brk h' = brk h \<and> (\<forall>i. rbs h' i \<noteq> None \<longrightarrow> i < brk h) \<and> (\<forall>i. stks h' i \<noteq> None \<longrightarrow> i < brk h) \<and>
      (\<forall>i. rbs h' i = (if i \<in> set is then None else rbs h i))"
  using assms
proof (induction "is" arbitrary: pr h)
  case Nil
  then show ?case by (simp add: held_def)
next
  case (Cons i "is")
  obtain n s where n: "rbs h i = Some n" "stks h (rs_stack n) = Some s" "rs_refcnt n = 1"
    using Cons.prems(1) by (auto simp: held_def)
  define h1 where "h1 = h\<lparr>rbs := (rbs h)(i := None), stks := (stks h)(rs_stack n := (if s_refcnt s - 1 = 0 then None
      else Some (s\<lparr>s_refcnt := s_refcnt s - 1\<rparr>)))\<rparr>"
  have put: "stack_put i h = Inr h1" using n by (simp add: stack_put_def get_rbs_def get_stk_def h1_def)
  have other: "\<exists>m t. rbs h j = Some m \<and> stks h (rs_stack m) = Some t \<and> rs_refcnt m = 1 \<and> 1 \<le> unat (s_refcnt t) \<and>
      rs_stack m \<noteq> rs_stack n \<and> j \<noteq> i" if j: "j \<in> set is" for j
  proof -
    have "j \<noteq> i" using Cons.prems(2) j by auto
    moreover obtain m t where "rbs h j = Some m" "stks h (rs_stack m) = Some t" "rs_refcnt m = 1" "1 \<le> unat (s_refcnt t)"
      using held_node [OF Cons.prems(1), of j] j by auto
    moreover have inj: "inj_on (\<lambda>i. map_option rs_stack (rbs h i)) (set (i # is))"
      using Cons.prems(1) unfolding held_def by blast
    have "map_option rs_stack (rbs h j) \<noteq> map_option rs_stack (rbs h i)"
      by (rule inj_on_contraD [OF inj \<open>j \<noteq> i\<close>]) (use j in simp_all)
    ultimately show ?thesis using n(1) by auto
  qed
  have "inj_on (\<lambda>j. map_option rs_stack (rbs h1 j)) (set is)"
  proof (rule inj_on_cong [THEN iffD1])
    show "inj_on (\<lambda>j. map_option rs_stack (rbs h j)) (set is)" using Cons.prems(1) by (simp add: held_def)
  qed (use other in \<open>auto simp: h1_def\<close>)
  moreover have "\<forall>j \<in> set is. \<exists>m t. rbs h1 j = Some m \<and> stks h1 (rs_stack m) = Some t \<and> rs_refcnt m = of_nat 1 \<and>
      1 \<le> unat (s_refcnt t) \<and> (1 :: nat) < 2 ^ 64"
  proof
    fix j assume "j \<in> set is"
    from other [OF this] obtain m t where "rbs h j = Some m" "stks h (rs_stack m) = Some t" "rs_refcnt m = 1"
        "1 \<le> unat (s_refcnt t)" "rs_stack m \<noteq> rs_stack n" "j \<noteq> i" by blast
    then show "\<exists>m t. rbs h1 j = Some m \<and> stks h1 (rs_stack m) = Some t \<and> rs_refcnt m = of_nat 1 \<and>
      1 \<le> unat (s_refcnt t) \<and> (1 :: nat) < 2 ^ 64" by (intro exI [of _ m] exI [of _ t]) (simp add: h1_def)
  qed
  moreover have "(\<forall>i. rbs h1 i \<noteq> None \<longrightarrow> i < brk h1) \<and> (\<forall>i. stks h1 i \<noteq> None \<longrightarrow> i < brk h1)"
    using Cons.prems(1) n(2) unfolding held_def h1_def by auto
  ultimately have "held (set is) h1 (\<lambda>i. 1)" unfolding held_def by blast
  from Cons.IH [OF this, of "pr\<lparr>stack_trees := stack_trees pr - 1\<rparr>"] Cons.prems(2) n(1,3) put show ?case
    by (auto simp: get_rbs_def h1_def algebra_simps)
qed


lemma mset_rbt_postorder: "mset (rbt_postorder t) = mset (nodes t)"
  by (induction t) auto

lemma postorder_filter: "length (filter P (rbt_postorder t)) = length (filter P (nodes t))"
  using mset_rbt_postorder [of t] by (metis mset_filter size_mset)

lemma postorder_set: "set (rbt_postorder t) = set (nodes t)" "length (rbt_postorder t) = length (nodes t)"
  using mset_rbt_postorder [of t] by (metis set_mset_mset, metis size_mset)

lemma postorder_distinct: "distinct (nodes t) \<Longrightarrow> distinct (rbt_postorder t)"
  by (metis card_distinct distinct_card postorder_set)

lemma tot_count: "tot (for_stack i (\<lambda>_. 1 :: nat)) pr = length (filter (\<lambda>b. b_stack b = i) (blocks pr))"
proof -
  have "sum_list (map (for_stack i (\<lambda>_. 1 :: nat)) bs) = length (filter (\<lambda>b. b_stack b = i) bs)" for bs
    by (induction bs) (auto simp: for_stack_def)
  then show ?thesis by (simp add: tot_def)
qed

lemma tot_length: "tot (\<lambda>_. 1) pr = (of_nat (length (blocks pr)) :: ulong)"
proof -
  have "sum_list (map (\<lambda>_. 1) bs) = (of_nat (length bs) :: ulong)" for bs :: "rb_block list"
    by (induction bs) auto
  then show ?thesis by (simp add: tot_def)
qed

definition cleared :: "process \<Rightarrow> process" where
  "cleared pr = pr\<lparr>n_allocations := 0, block_table := Leaf, realloc_list := [], total_allocations := 0,
     bytes_used := 0, leaks := 0, leaked_bytes := 0, tsc := 0\<rparr>"

lemma reset_allocations_held:
  assumes inv: "proc_inv pr h" and room: "room (Suc k) pr h"
  shows "\<exists>h'. process_reset_allocations pr h = Inr (cleared pr, h') \<and> held (stack_ids pr) h' (\<lambda>i. 1) \<and>
      brk h' = brk h \<and> stats h' = stats h"
proof -
  let ?bs = "rbt_postorder (block_table pr)"
  have t: "tables_ok pr" "totals_ok pr" using inv by (simp_all add: proc_inv_def)
  have "held (stack_ids pr) h (\<lambda>i. Suc (length (filter (\<lambda>b. b_stack b = i) ?bs) + pending pr i))"
    using held_inv [OF inv room] by (simp add: refs_def [abs_def] tot_count postorder_filter del: One_nat_def)
  moreover have "\<forall>b \<in> set ?bs. b_stack b \<in> stack_ids pr" using t by (simp add: postorder_set tables_ok_def)
  ultimately obtain h1 where h1: "reset_blocks ?bs pr h = Inr (pr\<lparr>n_allocations := n_allocations pr - of_nat (length ?bs)\<rparr>, h1)"
      "held (stack_ids pr) h1 (\<lambda>i. Suc (pending pr i))" "brk h1 = brk h" "stats h1 = stats h"
    using reset_blocks_held [of "stack_ids pr" h ?bs "pending pr" pr] by blast
  have z: "n_allocations pr - of_nat (length ?bs) = 0"
    using t(2) by (simp add: totals_ok_def tot_length postorder_set)
  from reset_reallocs_held [of "stack_ids pr" h1 "realloc_list pr"] h1(2) t(1) obtain h2 where
    "reset_reallocs (realloc_list pr) h1 = Inr h2" "held (stack_ids pr) h2 (\<lambda>i. 1)" "brk h2 = brk h1" "stats h2 = stats h1"
    by (auto simp: pending_def [abs_def] tables_ok_def)
  with h1 z show ?thesis
    by (auto simp: process_reset_allocations_def Let_def cleared_def)
qed

lemma by_stack_distinct: "by_stack h t \<Longrightarrow> distinct (nodes t)"
  by (simp add: by_stack_def strict_sorted_iff distinct_map)

theorem process_reset_inv:
  assumes inv: "proc_inv pr h" and room: "room 1 pr h"
    and pr': "pr' = (cleared pr)\<lparr>stack_trees := 0, stack_table := Leaf, map_list := [], filename := None\<rparr>"
  shows "\<exists>h'. process_reset pr h = Inr (pr', h') \<and> proc_inv pr' h' \<and> (\<forall>i \<in> stack_ids pr. rbs h' i = None)"
proof -
  obtain h1 where h1: "process_reset_allocations pr h = Inr (cleared pr, h1)" "held (stack_ids pr) h1 (\<lambda>i. 1)" "brk h1 = brk h"
    using reset_allocations_held [OF inv, of 0] room by auto
  let ?is = "rbt_postorder (stack_table pr)"
  have st: "set ?is = stack_ids pr" "stack_trees pr = of_nat (length ?is)" "stack_table (cleared pr) = stack_table pr"
      "stack_trees (cleared pr) = stack_trees pr"
    using inv by (simp_all add: postorder_set proc_inv_def tables_ok_def cleared_def)
  have "distinct ?is" using inv by_stack_distinct postorder_distinct by (auto simp: proc_inv_def)
  with reset_stacks_held [of ?is h1 "cleared pr"] h1(2) st obtain h2 where
    h2: "reset_stacks ?is (cleared pr) h1 = Inr ((cleared pr)\<lparr>stack_trees := 0\<rparr>, h2)" "brk h2 = brk h1"
      "\<forall>i. rbs h2 i \<noteq> None \<longrightarrow> i < brk h1" "\<forall>i. stks h2 i \<noteq> None \<longrightarrow> i < brk h1"
      "\<forall>i. rbs h2 i = (if i \<in> set ?is then None else rbs h1 i)" by auto
  have "process_reset pr h = Inr (pr', h2)" using h1(1) h2(1) st by (simp add: process_reset_def pr')
  moreover have "proc_inv pr' h2"
    using h2(2-4) by (simp add: proc_inv_def tables_ok_def totals_ok_def heap_ok_def by_stack_def tot_def pr'
        cleared_def is_rbt_def)
  ultimately show ?thesis using h2(5) st(1) by auto
qed

end
