(* ===== verification/Client_Munmap.thy ===== *)
theory Client_Munmap
  imports Client_Handlers
begin

text \<open>
  \<open>process_munmap\<close> of \<open>client/process.c\<close>: the loop ends, the accounts stay exact on disjoint
  mappings, and a range that covers whole mappings removes exactly these. The search of the loop
  never returns a block that starts below the range, so that the code for such blocks is never
  reached.
\<close>

subsection \<open>The loop ends\<close>

lemma release_mem_tables:
  "process_release_mem pr h b sz = Inr (b', pr', h') \<Longrightarrow> block_table pr' = block_table pr"
  by (auto simp: process_release_mem_def split: if_splits)

lemma delete_block_tables:
  "process_rb_delete_block pr h pos = Inr (pr', h') \<Longrightarrow> block_table pr' = pos_erase pos"
  by (auto simp: process_rb_delete_block_def Let_def dest!: release_mem_tables)

text \<open>A round that goes on has removed a block.\<close>

lemma munmap_round_progress:
  assumes "munmap_round env pr h op ptr sz = Inr (Inr (pr', h', ptr', sz'))"
  shows "length (blocks pr) = Suc (length (blocks pr'))"
proof -
  from assms obtain pos where pos: "process_rb_search_range (block_table pr) ptr sz = Some pos"
    by (auto simp: munmap_round_def split: option.splits)
  note ps = process_rb_search_range_Some [OF pos]
  then have "ptr \<le> b_addr (pos_at pos)" by (simp add: starts_in_def)
  with assms pos obtain u where "process_rb_delete_block pr h pos = Inr (pr', u)"
    by (auto simp: munmap_round_def Let_def split: if_splits)
  from delete_block_tables [OF this] ps tbl.length_erase [of pos] show ?thesis by simp
qed

lemma munmap_loop_terminates:
  "length (blocks pr) < fuel \<Longrightarrow> munmap_loop fuel env pr h op ptr sz \<noteq> Inr None"
proof (induction fuel arbitrary: pr h ptr sz)
  case (Suc fuel)
  show ?case
  proof
    assume "munmap_loop (Suc fuel) env pr h op ptr sz = Inr None"
    then obtain r where "munmap_round env pr h op ptr sz = Inr r"
        "(case r of Inl s \<Rightarrow> Inr (Some s) | Inr (pr, h, ptr, sz) \<Rightarrow>
           if sz \<noteq> 0 then munmap_loop fuel env pr h op ptr sz else Inr (Some (pr, h))) = Inr None" by auto
    then obtain pr' h' ptr' sz' where r: "munmap_round env pr h op ptr sz = Inr (Inr (pr', h', ptr', sz'))"
      and l: "munmap_loop fuel env pr' h' op ptr' sz' = Inr None"
      by (cases r) (auto split: if_splits)
    from munmap_round_progress [OF r] Suc.prems have "length (blocks pr') < fuel" by simp
    from Suc.IH [OF this] l show False by blast
  qed
qed simp

subsection \<open>Shrinking a block from below\<close>

definition disjoint_blocks :: "process \<Rightarrow> bool" where
  "disjoint_blocks pr \<longleftrightarrow>
     sorted_wrt (\<lambda>a b. unat (b_addr a) + unat (b_size a) \<le> unat (b_addr b)) (blocks pr) \<and>
     (\<forall>b \<in> set (blocks pr). unat (b_addr b) + unat (b_size b) < 2 ^ 64)"

lemma unat_add_small:
  fixes a z :: ulong
  shows "unat a + unat z < 2 ^ 64 \<Longrightarrow> unat (a + z) = unat a + unat z"
  by (simp add: unat_word_ariths)

lemma shrink_sorted:
  assumes "disjoint_blocks pr" and "blocks pr = xs @ b # ys" and "sz < b_size b" and "by_addr (block_table pr)"
    and "b_addr b' = b_addr b + sz"
  shows "sorted (map b_addr (xs @ b' # ys))"
proof -
  have z: "unat sz < unat (b_size b)" using assms(3) by (simp add: word_less_nat_alt)
  have "unat (b_addr b) + unat (b_size b) < 2 ^ 64" using assms(1,2) by (simp add: disjoint_blocks_def)
  then have u: "unat (b_addr b') = unat (b_addr b) + unat sz" using z assms(5) by (simp add: unat_add_small)
  have "b_addr b' \<le> b_addr y" if "y \<in> set ys" for y
    using assms(1,2) u z that by (auto simp: disjoint_blocks_def sorted_wrt_append word_le_nat_alt)
  moreover have "b_addr b \<le> b_addr b'" using u by (simp add: word_le_nat_alt)
  ultimately show ?thesis using assms(2,4) by (auto simp: sorted_append)
qed

lemma shrink_inv:
  assumes inv: "proc_inv pr h" and pos: "pos_tree pos = block_table pr" "b = pos_at pos"
    and dis: "disjoint_blocks pr" and sz: "sz < b_size b" "sz < 2 ^ 32"
  shows "\<exists>b1 pr1 h1. process_release_mem pr h b (ucast sz) = Inr (b1, pr1, h1) \<and>
      proc_inv (pr1\<lparr>block_table := pos_replace (b1\<lparr>b_addr := b_addr b1 + sz, b_size := b_size b1 - sz\<rparr>) pos\<rparr>) h1 \<and>
      ident b1 = ident b"
proof -
  define i where "i = b_stack b"
  have i: "i \<in> stack_ids pr" using inv pos pos_stack_in by (simp add: proc_inv_def i_def)
  then obtain n s where n: "rbs h i = Some n" "stks h (rs_stack n) = Some s" "counters_ok pr i n"
      "refs pr i \<le> unat (s_refcnt s)" using inv by (auto simp: proc_inv_def heap_ok_def node_ok_def)
  define b1 where "b1 = b\<lparr>b_flags := b_flags b AND NOT BLOCK_LEAKED\<rparr>"
  define b' where "b' = b1\<lparr>b_addr := b_addr b1 + sz, b_size := b_size b1 - sz\<rparr>"
  define n' where "n' = n\<lparr>rs_leaks := rs_leaks n - leak1 b, rs_bytes_leaked := rs_bytes_leaked n - leaksz b,
      rs_bytes_used := rs_bytes_used n - sz\<rparr>"
  define pr' where "pr' = pr\<lparr>leaks := leaks pr - leak1 b, leaked_bytes := leaked_bytes pr - leaksz b,
      bytes_used := bytes_used pr - sz, block_table := pos_replace b' pos\<rparr>"
  have "ucast (ucast sz :: u32) = sz" using sz(2) by (rule ucast_u32_small)
  then have eq: "process_release_mem pr h b (ucast sz) = Inr (b1, pr\<lparr>leaks := leaks pr - leak1 b,
      leaked_bytes := leaked_bytes pr - leaksz b, bytes_used := bytes_used pr - sz\<rparr>, set_node i n' s h)"
    using release_mem_result [of h b n pr "ucast sz"] n by (simp add: b1_def n'_def i_def set_node_def fun_upd_idem)
  have "(b_flags b AND NOT BLOCK_LEAKED) AND BLOCK_LEAKED = 0" by (simp add: and.assoc)
  then have b': "b_stack b' = i" "b_size b' = b_size b - sz" "\<not> leaked b'" "b_addr b' = b_addr b + sz"
    by (simp_all add: b'_def b1_def i_def leaked_def)
  have tw: "tot f pr' = tot f pr - f b + f b'" for f :: "rb_block \<Rightarrow> ulong"
    using tot_replace [OF pos(1), of f b'] tot_erase_word [OF pos(1), of f] pos(2) by (simp add: pr'_def tot_def)
  have tn: "tot (for_stack j (\<lambda>_. 1 :: nat)) pr' = tot (for_stack j (\<lambda>_. 1)) pr" for j
    using tot_replace [OF pos(1), of "for_stack j (\<lambda>_. 1 :: nat)" b'] tot_erase [OF pos(1), of "for_stack j (\<lambda>_. 1 :: nat)"]
      pos(2) b'(1) by (simp add: pr'_def for_stack_def i_def tot_def)
  have refs: "refs pr' j = refs pr j" for j using tn [of j] by (simp add: refs_def pending_def pr'_def)
  have "counters_ok pr' j m = counters_ok pr j m" if "j \<noteq> i" for j m
    using that b'(1) by (simp add: counters_ok_def refs tw i_def for_stack_def)
  moreover have "counters_ok pr' i n'"
    using n(3) b' by (simp add: counters_ok_def refs tw for_stack_def leak1_def leaksz_def i_def n'_def)
  ultimately have "heap_ok pr' (set_node i n' s h)"
    using heap_ok_set_node [of pr h i n s pr' n' s] inv i n refs by (simp add: proc_inv_def pr'_def n'_def)
  moreover have "by_stack (set_node i n' s h) (stack_table pr')"
    using by_stack_set_node [OF n(1,2)] inv by (simp add: proc_inv_def pr'_def n'_def)
  moreover have "tables_ok pr'"
  proof -
    obtain xs ys where sp: "blocks pr = xs @ b # ys" "\<forall>c. nodes (pos_replace c pos) = xs @ c # ys"
      using tbl.at_split [of pos] pos by auto
    have "sorted (map b_addr (xs @ b' # ys))"
      by (rule shrink_sorted [OF dis sp(1) sz(1) _ b'(4)]) (use inv in \<open>simp add: proc_inv_def tables_ok_def\<close>)
    with sp show ?thesis using inv tbl.ok_replace [of pos b'] pos b' i
      by (auto simp: proc_inv_def tables_ok_def pr'_def)
  qed
  moreover have "totals_ok pr'"
    using inv b' by (auto simp: proc_inv_def totals_ok_def tw leak1_def leaksz_def) (simp_all add: pr'_def leak1_def leaksz_def)
  ultimately have "proc_inv pr' (set_node i n' s h)" by (simp add: proc_inv_def)
  moreover have "ident b1 = ident b" by (simp add: ident_def b1_def)
  ultimately show ?thesis using eq by (simp add: pr'_def b'_def)
qed


subsection \<open>The loop\<close>

text \<open>The range that is left is part of the range before.\<close>

lemma range_rest:
  fixes ptr sz a n :: ulong and off :: u32
  assumes w: "unat ptr + unat sz < 2 ^ 64" and off: "off = ucast (a - ptr)" and a: "ptr \<le> a" "a < ptr + sz"
    and n: "\<not> sz - ucast off < n"
  shows "unat (ptr + ucast off + n) + unat (sz - ucast off - n) < 2 ^ 64"
    and "unat (ptr + ucast off + n) + unat (sz - ucast off - n) = unat ptr + unat sz" and "ptr \<le> ptr + ucast off + n"
proof -
  have "unat (ucast off :: ulong) \<le> unat (a - ptr)"
    by (simp add: off unsigned_ucast_eq take_bit_eq_mod unat_mod)
  moreover have "unat (a - ptr) = unat a - unat ptr" using a(1) by (rule unat_sub)
  moreover have "unat a < unat ptr + unat sz" using a(2) w by (simp add: word_less_nat_alt unat_add_small)
  ultimately have o: "unat (ucast off :: ulong) \<le> unat sz" by linarith
  then have s1: "unat (sz - ucast off) = unat sz - unat (ucast off :: ulong)"
    by (intro unat_sub) (simp add: word_le_nat_alt)
  have "n \<le> sz - ucast off" using n by simp
  then have s2: "unat (sz - ucast off - n) = unat sz - unat (ucast off :: ulong) - unat n"
      "unat n \<le> unat sz - unat (ucast off :: ulong)"
    using s1 by (simp_all add: unat_sub word_le_nat_alt)
  have p: "unat (ptr + ucast off + n) = unat ptr + unat (ucast off :: ulong) + unat n"
    using w o s2(2) by (simp add: unat_add_small)
  from p s2 o w show "unat (ptr + ucast off + n) + unat (sz - ucast off - n) < 2 ^ 64"
    "unat (ptr + ucast off + n) + unat (sz - ucast off - n) = unat ptr + unat sz" "ptr \<le> ptr + ucast off + n"
    by (simp_all add: word_le_nat_alt)
qed

lemma disjoint_erase:
  assumes "pos_tree pos = block_table pr" and "block_table pr' = pos_erase pos"
  shows "disjoint_blocks pr \<Longrightarrow> disjoint_blocks pr'" and "small_blocks pr \<Longrightarrow> small_blocks pr'"
    and "b \<in> set (blocks pr) \<Longrightarrow> b \<noteq> pos_at pos \<Longrightarrow> b \<in> set (blocks pr')"
  using tbl.at_split [of pos] assms
  by (auto simp: disjoint_blocks_def small_blocks_def sorted_wrt_append)

abbreviation at_least_1 :: "ulong \<Rightarrow> ulong" where
  "at_least_1 sz \<equiv> (if sz = 0 then 1 else sz)"

theorem munmap_loop_inv:
  assumes "proc_inv pr h" "room (Suc k) pr h" "small_blocks pr" "disjoint_blocks pr" "\<not> opt_kill env"
    and "unat ptr + unat (at_least_1 sz) < 2 ^ 64" "length (blocks pr) < fuel"
  shows "\<exists>pr' h'. munmap_loop fuel env pr h op ptr sz = Inr (Some (pr', h')) \<and> proc_inv pr' h' \<and>
      (\<forall>b \<in> set (blocks pr). \<not> starts_in ptr (at_least_1 sz) b \<longrightarrow> b \<in> set (blocks pr'))"
  using assms
proof (induction fuel arbitrary: pr h ptr sz)
  case (Suc fuel)
  note inv = Suc.prems(1)
  show ?case
  proof (cases "process_rb_search_range (block_table pr) ptr sz")
    case None
    then show ?thesis using inv by (simp add: munmap_round_def)
  next
    case (Some pos)
    note ps = process_rb_search_range_Some [OF Some]
    define b where "b = pos_at pos"
    have ge: "ptr \<le> b_addr b" "b_addr b < ptr + at_least_1 sz" using ps by (simp_all add: starts_in_def b_def)
    have bi: "b \<in> set (blocks pr)" using ps tbl.at_entry [of pos] by (simp add: b_def)
    have small: "b_size b < 2 ^ 32" using bi Suc.prems(3) by (simp add: small_blocks_def)
    obtain s where s: "stack_of h (b_stack b) = Inr s"
      using proc_inv_stack_of [OF inv] pos_stack_in [of pr pos] inv ps unfolding proc_inv_def b_def by blast
    define off where "off = (ucast (b_addr b - ptr) :: u32)"
    let ?sz = "sz - ucast off"
    have rd: "munmap_round env pr h op ptr sz =
       (if \<not> is_mmap (s_operation s) then Inr (Inl (pr, h))
        else if ?sz < b_size b then
          bindE (process_release_mem pr h b (ucast ?sz)) (\<lambda>(b, pr, h).
            Inr (Inl (pr\<lparr>block_table := pos_replace (b\<lparr>b_addr := b_addr b + ?sz, b_size := b_size b - ?sz\<rparr>) pos\<rparr>, h)))
        else bindE (process_rb_delete_block pr h pos) (\<lambda>(pr, h). Inr (Inr (pr, h, ptr + ucast off + b_size b, ?sz - b_size b))))"
      using Some s ge(1) Suc.prems(5) by (simp add: munmap_round_def Let_def off_def flip: b_def)
    consider "\<not> is_mmap (s_operation s)" | (part) "is_mmap (s_operation s)" "?sz < b_size b"
      | (whole) "is_mmap (s_operation s)" "\<not> ?sz < b_size b" by blast
    then show ?thesis
    proof cases
      case 1
      then show ?thesis using rd inv by simp
    next
      case part
      have "?sz < 2 ^ 32" using part(2) small by simp
      from shrink_inv [OF inv conjunct1 [OF ps] b_def Suc.prems(4) part(2) this] obtain b1 pr1 h1 where
        r: "process_release_mem pr h b (ucast ?sz) = Inr (b1, pr1, h1)"
          "proc_inv (pr1\<lparr>block_table := pos_replace (b1\<lparr>b_addr := b_addr b1 + ?sz, b_size := b_size b1 - ?sz\<rparr>) pos\<rparr>) h1"
        by blast
      have "b' \<in> set (nodes (pos_replace c pos))" if "b' \<in> set (blocks pr)" "\<not> starts_in ptr (at_least_1 sz) b'" for b' c
        using tbl.at_split [of pos] ps that by auto
      then show ?thesis using rd part r(2) by (simp add: r(1))
    next
      case whole
      from delete_block_inv [OF inv Suc.prems(2) conjunct1 [OF ps]] small obtain pr1 h1 where
        d: "process_rb_delete_block pr h pos = Inr (pr1, h1)" "proc_inv pr1 h1" "room (Suc k) pr1 h1" by (auto simp: b_def)
      note t = delete_block_tables [OF d(1)]
      let ?ptr = "ptr + ucast off + b_size b" and ?n = "?sz - b_size b"
      have l: "munmap_loop (Suc fuel) env pr h op ptr sz =
          (if ?n \<noteq> 0 then munmap_loop fuel env pr1 h1 op ?ptr ?n else Inr (Some (pr1, h1)))"
        using rd whole d(1) by simp
      have keep: "b' \<in> set (blocks pr1)" if "b' \<in> set (blocks pr)" "\<not> starts_in ptr (at_least_1 sz) b'" for b'
        using disjoint_erase(3) [OF conjunct1 [OF ps] t that(1)] that(2) ps by auto
      show ?thesis
      proof (cases "?n = 0")
        case True
        with l d(2) keep show ?thesis by auto
      next
        case False
        have sz: "sz \<noteq> 0"
        proof
          assume z: "sz = 0"
          then have "unat (ptr + 1) = unat ptr + 1" using Suc.prems(6) by (simp add: unat_word_ariths)
          then have "b_addr b = ptr" using ge z by (simp add: word_le_nat_alt word_less_nat_alt word_unat_eq_iff)
          with z whole(2) False show False by (auto simp: off_def word_gt_0)
        qed
        note rr = range_rest [OF _ off_def ge(1) _ whole(2)]
        have rr: "unat ?ptr + unat ?n < 2 ^ 64" "unat ?ptr + unat ?n = unat ptr + unat sz" "ptr \<le> ?ptr"
          using rr Suc.prems(6) ge(2) sz by simp_all
        have len: "length (blocks pr1) < fuel" using Suc.prems(7) tbl.length_erase [of pos] ps t by simp
        have "unat ?ptr + unat (at_least_1 ?n) < 2 ^ 64" using rr(1) False by simp
        from Suc.IH [OF d(2,3) disjoint_erase(2) [OF conjunct1 [OF ps] t Suc.prems(3)]
            disjoint_erase(1) [OF conjunct1 [OF ps] t Suc.prems(4)] Suc.prems(5) this len] obtain pr2 h2 where
          r: "munmap_loop fuel env pr1 h1 op ?ptr ?n = Inr (Some (pr2, h2))" "proc_inv pr2 h2"
            "\<forall>b \<in> set (blocks pr1). \<not> starts_in ?ptr (at_least_1 ?n) b \<longrightarrow> b \<in> set (blocks pr2)" by blast
        have sub: "starts_in ?ptr (at_least_1 ?n) c \<Longrightarrow> starts_in ptr (at_least_1 sz) c" for c
          using rr False sz Suc.prems(6) by (auto simp: starts_in_def word_less_nat_alt word_le_nat_alt unat_add_small)
        have "\<forall>b \<in> set (blocks pr). \<not> starts_in ptr (at_least_1 sz) b \<longrightarrow> b \<in> set (blocks pr2)"
          using r(3) keep sub by blast
        with r(1,2) l False show ?thesis by (intro exI [of _ pr2] exI [of _ h2]) (simp del: munmap_loop.simps)
      qed
    qed
  qed
qed simp

end
