(* ===== verification/Client_Steps.thy ===== *)
theory Client_Steps
  imports Client_Munmap
begin

text \<open>
  The handlers of \<open>client/process.c\<close> as steps of one traced process. First the cases in which
  \<open>process_alloc\<close> and \<open>process_free\<close> return, which is not always: a call stack that is not covered by
  the mappings, or one that is known for another kind of operation, stops the client. Then the step
  relation over the handlers, and the accounts as an invariant of every run.
\<close>

subsection \<open>Symbols are found\<close>

text \<open>Every mapping has been looked at before, and the first \<open>n\<close> addresses are mapped.\<close>

definition maps_settled :: "process \<Rightarrow> bool" where
  "maps_settled pr \<longleftrightarrow> (\<forall>m \<in> set (map_list pr). m_binfile m \<noteq> None \<or> m_ignore m)"

fun addrs_mapped :: "process \<Rightarrow> nat \<Rightarrow> bytes \<Rightarrow> bool" where
  "addrs_mapped pr 0 bs = True"
| "addrs_mapped pr (Suc n) bs =
     ((case get_ulong pr bs of None \<Rightarrow> False | Some a \<Rightarrow> locate_map (map_list pr) a \<noteq> None) \<and>
      addrs_mapped pr n (drop (ptr_size pr) bs))"

lemma locate_map_Some: "locate_map ms a = Some i \<Longrightarrow> i < length ms"
  by (induction ms a arbitrary: i rule: locate_map.induct) (auto split: if_splits)

lemma resolv_address_returns:
  assumes "maps_settled pr" and "locate_map (map_list pr) a \<noteq> None"
  shows "\<exists>sy k. resolv_address env pr h a = Inr (sy, pr, h\<lparr>brk := k\<rparr>)"
proof -
  obtain i where i: "locate_map (map_list pr) a = Some i" using assms(2) by auto
  let ?m = "map_list pr ! i"
  have "?m \<in> set (map_list pr)" using locate_map_Some [OF i] by simp
  then have s: "m_binfile ?m \<noteq> None \<or> m_ignore ?m" using assms(1) by (simp add: maps_settled_def)
  then have o1: "open_map env pr h a = Inr (Some ?m, pr, h)"
    using i by (cases "m_binfile ?m") (simp_all add: open_map_def Let_def)
  show ?thesis
  proof (cases "case m_binfile ?m of None \<Rightarrow> None | Some bf \<Rightarrow> env_bin_file_lookup env bf a (m_bias ?m)")
    case None
    then show ?thesis using o1 i
      by (cases "oom h (brk h)") (simp_all add: resolv_address_def malloc_def, blast+)
  next
    case (Some sy)
    then have "resolv_address env pr h a = Inr (Some sy, pr, h\<lparr>brk := brk h\<rparr>)" using o1 by (simp add: resolv_address_def)
    then show ?thesis by blast
  qed
qed

lemma resolv_all_returns:
  "maps_settled pr \<Longrightarrow> addrs_mapped pr n bs \<Longrightarrow> \<exists>syms k. resolv_all env pr h n bs = Inr (syms, pr, h\<lparr>brk := k\<rparr>)"
proof (induction n arbitrary: h bs)
  case 0
  have "resolv_all env pr h 0 bs = Inr ([], pr, h\<lparr>brk := brk h\<rparr>)" by simp
  then show ?case by blast
next
  case (Suc n)
  from Suc.prems(2) obtain a where a: "get_ulong pr bs = Some a" "locate_map (map_list pr) a \<noteq> None"
      "addrs_mapped pr n (drop (ptr_size pr) bs)" by (auto split: option.splits)
  from resolv_address_returns [OF Suc.prems(1) a(2)] obtain sy k where
    r: "resolv_address env pr h a = Inr (sy, pr, h\<lparr>brk := k\<rparr>)" by blast
  from Suc.IH [OF Suc.prems(1) a(3), of "h\<lparr>brk := k\<rparr>"] obtain syms k' where
    "resolv_all env pr (h\<lparr>brk := k\<rparr>) n (drop (ptr_size pr) bs) = Inr (syms, pr, h\<lparr>brk := k'\<rparr>)" by auto
  with a r show ?case by (intro exI [of _ "sy # syms"] exI [of _ k']) simp
qed

text \<open>
  \<open>stack_add\<close> returns: the call stack is in the message, its addresses are mapped, and when it is
  already known it belongs to the same kind of operation.
\<close>

definition stack_ready :: "process \<Rightarrow> heap \<Rightarrow> bytes \<Rightarrow> u32 \<Rightarrow> mt_operation \<Rightarrow> bool" where
  "stack_ready pr h data sz op \<longleftrightarrow>
     unat sz \<le> length data \<and> maps_settled pr \<and>
     addrs_mapped pr (unat (sz div of_nat (ptr_size pr))) (take (unat sz) data) \<and>
     list_all (\<lambda>i. stack_key h i = take (unat sz) data \<longrightarrow> (case stack_of h i of Inl _ \<Rightarrow> False | Inr s \<Rightarrow> s_operation s = op))
       (nodes (stack_table pr))"

lemma stack_add_returns:
  assumes inv: "proc_inv pr h" and oom: "no_oom h" and ready: "stack_ready pr h data sz op"
  shows "\<exists>r. stack_add env pr h data sz op = Inr r"
proof -
  let ?addrs = "take (unat sz) data"
  have rd: "read_bytes (unat sz) data = Some ?addrs" using ready by (simp add: stack_ready_def read_bytes_def)
  have bs: "by_stack h (stack_table pr)" using inv by (simp add: proc_inv_def)
  from stack_place_correct [OF bs, of ?addrs "[]"] proc_inv_stack_of [OF inv]
  consider (old) i where "stack_place h ?addrs (stack_table pr) [] = Inr (Inl i)" "i \<in> stack_ids pr" "stack_key h i = ?addrs"
    | (new) k where "stack_place h ?addrs (stack_table pr) [] = Inr (Inr k)" by fastforce
  then show ?thesis
  proof cases
    case old
    with ready have "case stack_of h i of Inl _ \<Rightarrow> False | Inr s \<Rightarrow> s_operation s = op"
      by (auto simp: stack_ready_def list_all_iff)
    with old rd show ?thesis by (auto simp: stack_add_def split: sum.splits)
  next
    case new
    have m: "maps_settled pr" "addrs_mapped pr (unat (sz div of_nat (ptr_size pr))) ?addrs"
      using ready by (simp_all add: stack_ready_def)
    show ?thesis
      using new rd oom resolv_all_returns [OF m]
      by (simp add: stack_add_def malloc_def no_oom_def stack_get_def get_rbs_def get_stk_def stack_resolv_def) metis
  qed
qed


subsection \<open>Allocations and releases return\<close>

lemma evict_none:
  assumes "by_addr (block_table pr)" and "\<forall>b \<in> set (blocks pr). \<not> starts_in ptr (at_least_1 sz) b"
  shows "evict_blocks env pr h ptr sz op = Inr (pr, h)"
proof (cases "process_rb_search_range (block_table pr) ptr sz")
  case None
  then show ?thesis by (simp add: evict_blocks.simps)
next
  case (Some pos)
  from process_rb_search_range_Some [OF Some] tbl.at_entry [of pos] assms(2) show ?thesis by auto
qed

lemma process_alloc_returns:
  assumes inv: "proc_inv pr h" "room (Suc k) pr h" and env: "\<not> opt_kill env" "no_oom h"
    and pl: "alloc_payload pr msg payload = Inr (ptr, sz, data, ssz)"
    and fresh: "\<forall>b \<in> set (blocks pr). \<not> starts_in ptr (at_least_1 sz) b"
    and ready: "stack_ready pr h data (ucast ssz) (operation msg)"
  shows "\<exists>r. process_alloc env pr h msg payload = Inr r"
proof (cases "tracing pr")
  case True
  have e: "evict_blocks env pr h ptr sz (operation msg) = Inr (pr, h)"
    by (rule evict_none) (use inv(1) fresh in \<open>auto simp: proc_inv_def tables_ok_def\<close>)
  from stack_add_returns [OF inv(1) env(2) ready] obtain stk pr2 h2 where
    a0: "stack_add env pr h data (ucast ssz) (operation msg) = Inr (stk, pr2, h2)" by force
  from stack_add_inv [OF inv(1) env(2) a0, of "Suc k"] obtain i where a: "stk = Some i" "i \<in> stack_ids pr2"
      "proc_inv pr2 h2" "oom h2 = oom h" "room (Suc k) pr2 h2" using inv(2) by blast
  have oom2: "no_oom h2" using a(4) env(2) by (simp add: no_oom_def)
  from insert_block_inv [OF a(3,5,2) env(1) oom2 _ refl, of 0 ptr sz "operation msg"] obtain pr3 h3 where
    b: "process_rb_insert_block env pr2 h2 ptr sz (Some i) 0 (operation msg) = Inr (True, pr3, h3)"
      "proc_inv (pr3\<lparr>bytes_used := bytes_used pr3 + sz\<rparr>) h3" "stack_table pr3 = stack_table pr2" by auto
  from upd_rbs_inv [OF b(2), of i "\<lambda>n. n\<lparr>rs_tsc := tsc pr3\<rparr>"] a(2) b(3) obtain h4 where
    "upd_rbs i (\<lambda>n. n\<lparr>rs_tsc := tsc pr3\<rparr>) h3 = Inr h4" by (auto simp: keeps_counters_def)
  with True pl e a0 a(1) b(1) show ?thesis by (simp add: process_alloc_def)
qed (simp add: process_alloc_def)

text \<open>A release that fits its block, or that comes without a call stack.\<close>

lemma process_free_returns:
  assumes inv: "proc_inv pr h" "room 2 pr h" "small_blocks pr" and env: "\<not> opt_kill env" "no_oom h"
    and pl: "alloc_payload pr msg payload = Inr (ptr, pid, data, ssz)"
    and sane: "\<forall>b \<in> set (blocks pr). b_addr b = ptr \<longrightarrow> ssz = 0 \<or> is_sane h b (operation msg) = Inr True"
    and found: "\<exists>b \<in> set (blocks pr). b_addr b = ptr"
  shows "\<exists>r. process_free env pr h msg payload = Inr r"
proof (cases "tracing pr \<and> ptr \<noteq> 0")
  case True
  have "by_addr (block_table pr)" using inv(1) by (simp add: proc_inv_def tables_ok_def)
  with found obtain pos where pos: "process_rb_search (block_table pr) ptr = Some pos"
    using process_rb_search_None by (cases "process_rb_search (block_table pr) ptr") auto
  note ps = process_rb_search_Some [OF pos]
  define b where "b = pos_at pos"
  have bi: "b \<in> set (blocks pr)" using ps tbl.at_entry [of pos] by (simp add: b_def)
  have i: "b_stack b \<in> stack_ids pr" using pos_stack_in [of pr pos] inv(1) ps unfolding proc_inv_def b_def by blast
  obtain s where s: "stack_of h (b_stack b) = Inr s" using proc_inv_stack_of [OF inv(1) i] by blast
  have small: "b_size (pos_at pos) < 2 ^ 32" using inv(3) bi by (simp add: small_blocks_def b_def)
  have c: "ssz = 0 \<or> is_sane_op (s_operation s) (operation msg)"
    using sane bi ps s by (auto simp: is_sane_def b_def)
  show ?thesis
  proof (cases "operation msg = MT_REALLOC_ENTER")
    case False
    from delete_block_inv [OF inv(1) _ conjunct1 [OF ps] small, of 1] inv(2) obtain r where
      "process_rb_delete_block pr h pos = Inr r" by (auto simp: numeral_2_eq_2)
    with process_free_eq [OF _ pl _ pos b_def s env(1)] True c False show ?thesis by auto
  next
    case re: True
    from stack_get_inv [OF inv(1) _ i _ refl, of 1 "\<lparr>re_pid = ucast pid, re_addr = b_addr b, re_size = b_size b,
        re_flags = b_flags b, re_stack = Some (b_stack b)\<rparr>"] inv(2) obtain pr1 h1 where
      g: "realloc_add pr h pid (b_addr b) (b_size b) (b_flags b) (Some (b_stack b)) = Inr (pr1, h1)"
        "proc_inv pr1 h1" "room 1 pr1 h1" "block_table pr1 = block_table pr"
      by (auto simp: realloc_add_def Let_def numeral_2_eq_2)
    from delete_block_inv [OF g(2) _ _ small, of 0] g(3,4) ps obtain r where
      "process_rb_delete_block pr1 h1 pos = Inr r" by auto
    with process_free_eq [OF _ pl _ pos b_def s env(1)] True c re g(1) show ?thesis by auto
  qed
qed (use pl in \<open>auto simp: process_free_def\<close>)


subsection \<open>Runs of one process\<close>

text \<open>
  The circumstances of a step: memory is not exhausted, no counter is about to overflow, no block
  has 4 GiB or more, and the client neither aborts on a collision nor prints a report at the end.
\<close>

definition normal :: "client_env \<Rightarrow> process \<times> heap \<Rightarrow> bool" where
  "normal env s \<longleftrightarrow> \<not> opt_kill env \<and> opt_interactive env \<and> no_oom (snd s) \<and> room 2 (fst s) (snd s) \<and>
     small_blocks (fst s)"

text \<open>A reallocation that failed while its block is known.\<close>

definition failed_realloc :: "process \<Rightarrow> mt_msg \<Rightarrow> bytes \<Rightarrow> bool" where
  "failed_realloc pr msg payload \<longleftrightarrow>
     (case alloc_payload pr msg payload of Inl _ \<Rightarrow> False
      | Inr (ptr, pid, _, _) \<Rightarrow>
          (case find_realloc (realloc_list pr) (ucast pid) of None \<Rightarrow> False
           | Some (re, _) \<Rightarrow> ptr = 0 \<and> re_addr re \<noteq> 0))"

text \<open>A range of addresses that does not wrap around, over disjoint blocks.\<close>

definition plain_range :: "process \<Rightarrow> mt_msg \<Rightarrow> bytes \<Rightarrow> bool" where
  "plain_range pr msg payload \<longleftrightarrow>
     (case alloc_payload pr msg payload of Inl _ \<Rightarrow> False
      | Inr (ptr, sz, _, _) \<Rightarrow> disjoint_blocks pr \<and> unat ptr + unat (at_least_1 sz) < 2 ^ 64)"

inductive client_step :: "client_env \<Rightarrow> process \<times> heap \<Rightarrow> process \<times> heap \<Rightarrow> bool" for env where
  alloc: "process_alloc env pr h msg payload = Inr s \<Longrightarrow> client_step env (pr, h) s"
| free: "process_free env pr h msg payload = Inr s \<Longrightarrow> client_step env (pr, h) s"
| realloc_done: "process_realloc_done env pr h msg payload = Inr s \<Longrightarrow> \<not> failed_realloc pr msg payload \<Longrightarrow>
    client_step env (pr, h) s"
| munmap: "process_munmap env pr h msg payload = Inr (Some s) \<Longrightarrow> plain_range pr msg payload \<Longrightarrow>
    client_step env (pr, h) s"
| add_map: "process_add_map pr payload len = Inr pr' \<Longrightarrow> client_step env (pr, h) (pr', h)"
| del_map: "process_del_map pr payload = Inr pr' \<Longrightarrow> client_step env (pr, h) (pr', h)"
| scan: "process_scan env pr h payload len = Inr (r, s) \<Longrightarrow> client_step env (pr, h) s"
| leaks_scan: "process_leaks_scan pr h mode = Inr (n, s) \<Longrightarrow> client_step env (pr, h) s"
| about_exit: "process_about_exit env pr h = Inr s \<Longrightarrow> client_step env (pr, h) s"
| exited: "process_exit env pr h = Inr (r, s) \<Longrightarrow> client_step env (pr, h) s"
| detach: "process_detach env pr h = Inr (r, s) \<Longrightarrow> client_step env (pr, h) s"
| reset: "process_reset pr h = Inr s \<Longrightarrow> client_step env (pr, h) s"
| reinit: "process_reinit pr h swap is64 att = Inr s \<Longrightarrow> client_step env (pr, h) s"

definition heap_fresh :: "heap \<Rightarrow> bool" where
  "heap_fresh h \<longleftrightarrow> (\<forall>i. rbs h i \<noteq> None \<longrightarrow> i < brk h) \<and> (\<forall>i. stks h i \<noteq> None \<longrightarrow> i < brk h)"

lemma proc_inv_cong:
  assumes "proc_inv pr h" and "block_table pr' = block_table pr" "stack_table pr' = stack_table pr"
    "realloc_list pr' = realloc_list pr" "stack_trees pr' = stack_trees pr" "n_allocations pr' = n_allocations pr"
    "bytes_used pr' = bytes_used pr" "leaks pr' = leaks pr" "leaked_bytes pr' = leaked_bytes pr"
  shows "proc_inv pr' h"
  using assms by (simp add: proc_inv_def tables_ok_def totals_ok_def heap_ok_def node_ok_def counters_ok_def
      refs_def pending_def tot_def)

lemma process_new_inv: "heap_fresh h \<Longrightarrow> proc_inv (process_new pid swap trc) h"
  by (simp add: heap_fresh_def proc_inv_def tables_ok_def totals_ok_def heap_ok_def by_stack_def tot_def
      process_new_def process_init_def is_rbt_def)

lemma process_add_map_inv: "process_add_map pr payload len = Inr pr' \<Longrightarrow> proc_inv pr h \<Longrightarrow> proc_inv pr' h"
  by (auto simp: process_add_map_def process_add_map_entry_def Let_def split: option.splits elim!: proc_inv_cong)

lemma process_del_map_inv: "process_del_map pr payload = Inr pr' \<Longrightarrow> proc_inv pr h \<Longrightarrow> proc_inv pr' h"
  by (auto simp: process_del_map_def elim!: proc_inv_cong)

lemma process_alloc_step:
  assumes "proc_inv pr h" "normal env (pr, h)" "process_alloc env pr h msg payload = Inr (pr', h')"
  shows "proc_inv pr' h'"
proof (cases "tracing pr")
  case True
  with assms(3) obtain ptr sz data ssz where "alloc_payload pr msg payload = Inr (ptr, sz, data, ssz)"
    by (auto simp: process_alloc_def)
  with process_alloc_inv [OF assms(1) _ _ _ _ True _ assms(3), of 1] assms(2) show ?thesis
    by (simp add: normal_def numeral_2_eq_2)
qed (use assms in \<open>simp add: process_alloc_def\<close>)

lemma process_free_step:
  assumes "proc_inv pr h" "normal env (pr, h)" "process_free env pr h msg payload = Inr (pr', h')"
  shows "proc_inv pr' h'"
proof (cases "tracing pr")
  case True
  with assms(3) obtain ptr pid data ssz where pl: "alloc_payload pr msg payload = Inr (ptr, pid, data, ssz)"
    by (auto simp: process_free_def)
  show ?thesis
  proof (cases "ptr = 0")
    case False
    show ?thesis
    proof (cases "\<exists>b \<in> set (blocks pr). b_addr b = ptr")
      case found: True
      from process_free_found [OF assms(1) _ _ _ _ True pl False assms(3) found] assms(2) show ?thesis
        by (simp add: normal_def)
    next
      case unknown: False
      from process_free_unknown [OF assms(1) _ _ True pl False assms(3)] unknown assms(2) show ?thesis
        by (auto simp: normal_def)
    qed
  qed (use assms(1,3) True pl in \<open>simp add: process_free_def\<close>)
qed (use assms in \<open>simp add: process_free_def\<close>)

lemma process_realloc_done_step:
  assumes "proc_inv pr h" "normal env (pr, h)" "process_realloc_done env pr h msg payload = Inr (pr', h')"
    and "\<not> failed_realloc pr msg payload"
  shows "proc_inv pr' h'"
proof (cases "tracing pr")
  case True
  with assms(3) obtain ptr pid data ssz where pl: "alloc_payload pr msg payload = Inr (ptr, pid, data, ssz)"
    by (auto simp: process_realloc_done_def)
  have room: "room 1 pr h" using assms(2) room_mono [of 1 pr h] by (simp add: normal_def numeral_2_eq_2)
  show ?thesis
  proof (cases "find_realloc (realloc_list pr) (ucast pid)")
    case None
    with True pl assms(1-3) show ?thesis by (simp add: process_realloc_done_def normal_def)
  next
    case (Some r)
    obtain re rest where r: "r = (re, rest)" by (cases r)
    have "ptr \<noteq> 0 \<or> re_addr re = 0" using assms(4) pl Some r by (auto simp: failed_realloc_def)
    from process_realloc_done_inv [OF assms(1) room True pl _ this, of rest env] Some r assms(3) show ?thesis by auto
  qed
qed (use assms in \<open>simp add: process_realloc_done_def\<close>)

lemma process_munmap_step:
  assumes "proc_inv pr h" "normal env (pr, h)" "process_munmap env pr h msg payload = Inr (Some (pr', h'))"
    and "plain_range pr msg payload"
  shows "proc_inv pr' h'"
proof (cases "tracing pr")
  case True
  with assms(3) obtain ptr sz data ssz where pl: "alloc_payload pr msg payload = Inr (ptr, sz, data, ssz)"
    by (auto simp: process_munmap_def)
  have p: "disjoint_blocks pr" "unat ptr + unat (at_least_1 sz) < 2 ^ 64"
    using assms(4) pl by (simp_all add: plain_range_def)
  from munmap_loop_inv [OF assms(1) _ _ p(1) _ p(2) lessI, of 1 env "operation msg"] assms(2,3) True pl show ?thesis
    by (auto simp: process_munmap_def normal_def numeral_2_eq_2 simp del: munmap_loop.simps)
qed (use assms in \<open>simp add: process_munmap_def\<close>)

lemma process_leaks_scan_step: "process_leaks_scan pr h mode = Inr (n, s) \<Longrightarrow> proc_inv pr h \<Longrightarrow> proc_inv (fst s) (snd s)"
  using process_leaks_scan_inv [of pr h mode n "fst s" "snd s"] by simp

lemma process_scan_step:
  "process_scan env pr h payload len = Inr (r, s) \<Longrightarrow> opt_interactive env \<Longrightarrow> proc_inv pr h \<Longrightarrow> proc_inv (fst s) (snd s)"
  using scan_loop_inv [of pr h "unat len div ptr_size pr" payload]
  by (auto simp: process_scan_def Let_def split: if_splits)

lemma process_reset_step:
  "process_reset pr h = Inr s \<Longrightarrow> room 2 pr h \<Longrightarrow> proc_inv pr h \<Longrightarrow> proc_inv (fst s) (snd s)"
  using process_reset_inv [of pr h, OF _ _ refl] room_mono [of 1 pr h] by (auto simp: numeral_2_eq_2)

lemma process_set_status_inv [simp]: "proc_inv (process_set_status pr st) h = proc_inv pr h"
  by (simp add: process_set_status_def)

lemma process_status_steps:
  assumes "proc_inv pr h" and "opt_interactive env"
  shows "process_about_exit env pr h = Inr s \<Longrightarrow> proc_inv (fst s) (snd s)"
    and "process_exit env pr h = Inr (r, s) \<Longrightarrow> proc_inv (fst s) (snd s)"
    and "process_detach env pr h = Inr (r, s) \<Longrightarrow> proc_inv (fst s) (snd s)"
  using assms
  by (auto simp: process_about_exit_def process_exit_def process_detach_def Let_def split: if_splits
      dest!: process_leaks_scan_step)

lemma process_reinit_step:
  "process_reinit pr h swap is64 att = Inr s \<Longrightarrow> room 2 pr h \<Longrightarrow> proc_inv pr h \<Longrightarrow> proc_inv (fst s) (snd s)"
  by (auto simp: process_reinit_def process_init_def dest!: process_reset_step elim!: proc_inv_cong)

lemma client_step_inv: "client_step env s s' \<Longrightarrow> normal env s \<Longrightarrow> proc_inv (fst s) (snd s) \<Longrightarrow> proc_inv (fst s') (snd s')"
proof (induction rule: client_step.induct)
  case (alloc pr h msg payload s)
  then show ?case using process_alloc_step [of pr h env msg payload "fst s" "snd s"] by simp
next
  case (free pr h msg payload s)
  then show ?case using process_free_step [of pr h env msg payload "fst s" "snd s"] by simp
next
  case (realloc_done pr h msg payload s)
  then show ?case using process_realloc_done_step [of pr h env msg payload "fst s" "snd s"] by simp
next
  case (munmap pr h msg payload s)
  then show ?case using process_munmap_step [of pr h env msg payload "fst s" "snd s"] by simp
qed (auto simp: normal_def intro: process_add_map_inv process_del_map_inv process_scan_step process_leaks_scan_step
    process_status_steps process_reset_step process_reinit_step)

inductive client_run :: "client_env \<Rightarrow> process \<times> heap \<Rightarrow> bool" for env where
  start: "heap_fresh h \<Longrightarrow> client_run env (process_new pid swap trc, h)"
| step: "client_run env s \<Longrightarrow> normal env s \<Longrightarrow> client_step env s s' \<Longrightarrow> client_run env s'"

end
