(* ===== verification/Client_Properties.thy ===== *)
theory Client_Properties
  imports Client_Steps
begin

text \<open>
  What the handlers of \<open>client/process.c\<close> guarantee, stated over the handlers themselves, and a small
  traced process on which they are evaluated.
\<close>

subsection \<open>A traced process\<close>

definition ex_env :: client_env where
  "ex_env = \<lparr>env_access = (\<lambda>_. False), env_asprintf = (\<lambda>_. True), env_bin_file_open = (\<lambda>_ _. None),
     env_bin_file_lookup = (\<lambda>_ _ _. None), regex_ignore_list = [], opt_b = [], opt_kill = False,
     opt_interactive = True, opt_auto_scan = False, opt_sort_by = 0, opt_verbose = 0, opt_lflag = False,
     opt_output_stderr = False, env_fdiv = (\<lambda>a b. int (unat a div unat b)), env_pager_quit = (\<lambda>_. False)\<rparr>"

definition ex_heap0 :: heap where
  "ex_heap0 = \<lparr>rbs = (\<lambda>_. None), stks = (\<lambda>_. None), brk = 0, oom = (\<lambda>_. False), events = []\<rparr>"

definition ex_proc0 :: process where
  "ex_proc0 = process_init False True False (process_new 7 False True)"

text \<open>A message with two 64-bit values and no call stack.\<close>

definition ex_payload :: "ulong \<Rightarrow> ulong \<Rightarrow> bytes" where
  "ex_payload a n = put_uint64 a @ put_uint64 n"

definition ex_msg :: "mt_operation \<Rightarrow> mt_msg" where
  "ex_msg op = \<lparr>operation = op, msg_pid = 7, payload_len = 16\<rparr>"

text \<open>The process and the heap when the blocks of \<open>t\<close> were allocated by \<open>op\<close> with an empty call stack.\<close>

definition ex_proc :: "rb_block rbt \<Rightarrow> process" where
  "ex_proc t = ex_proc0\<lparr>block_table := t, stack_table := Node Leaf Black 0 Leaf, stack_trees := 1,
     n_allocations := of_nat (length (nodes t)), total_allocations := of_nat (length (nodes t)),
     bytes_used := sum_list (map b_size (nodes t))\<rparr>"

definition ex_heap :: "mt_operation \<Rightarrow> rb_block rbt \<Rightarrow> heap" where
  "ex_heap op t =
     \<lparr>rbs = [0 \<mapsto> \<lparr>rs_stack = 1, rs_refcnt = 1 + of_nat (length (nodes t)), rs_leaks = 0,
        rs_n_allocations = of_nat (length (nodes t)), rs_total_allocations = of_nat (length (nodes t)),
        rs_bytes_used = sum_list (map b_size (nodes t)), rs_bytes_leaked = 0, rs_tsc = 0,
        rs_n_mismatched = 0, rs_n_badfree = 0\<rparr>],
      stks = [1 \<mapsto> \<lparr>s_refcnt = 1 + of_nat (length (nodes t)), s_addrs = [], s_size = 0, s_entries = 0,
        s_syms = Some [], s_operation = op, s_ignore = False\<rparr>],
      brk = 3, oom = (\<lambda>_. False), events = []\<rparr>"

definition ex_block :: "ulong \<Rightarrow> ulong \<Rightarrow> rb_block" where
  "ex_block a n = \<lparr>b_flags = 0, b_addr = a, b_size = n, b_stack = 0\<rparr>"

definition ex_tree1 :: "rb_block rbt" where
  "ex_tree1 = Node Leaf Black (ex_block 4096 64) Leaf"

definition ex_tree2 :: "rb_block rbt" where
  "ex_tree2 = Node (Node Leaf Red (ex_block 4096 4096) Leaf) Black (ex_block 8192 4096) Leaf"

lemmas ex_defs = ex_env_def ex_heap0_def ex_proc0_def ex_msg_def ex_proc_def ex_heap_def ex_block_def
  ex_tree1_def ex_tree2_def process_init_def process_new_def

lemma ex_normal: "normal ex_env (ex_proc0, ex_heap0)" "heap_fresh ex_heap0"
  "normal ex_env (ex_proc ex_tree1, ex_heap op ex_tree1)" "normal ex_env (ex_proc ex_tree2, ex_heap op ex_tree2)"
  by (simp_all add: normal_def ex_defs no_oom_def room_def small_blocks_def heap_fresh_def)

lemma ex_inv: "proc_inv (ex_proc ex_tree1) (ex_heap op ex_tree1)" "proc_inv (ex_proc ex_tree2) (ex_heap op ex_tree2)"
  by (simp_all add: proc_inv_def tables_ok_def totals_ok_def heap_ok_def node_ok_def counters_ok_def refs_def
      pending_def tot_def for_stack_def leak1_def leaksz_def leaked_def by_stack_def is_rbt_def ex_defs)

lemma ex_inv0: "proc_inv ex_proc0 ex_heap0"
  unfolding ex_proc0_def
  by (rule proc_inv_cong [OF process_new_inv [OF ex_normal(2), of 7 False True]]) (simp_all add: process_init_def)

lemma returns_pair: "\<not> isl r \<Longrightarrow> (\<And>a b. r = Inr (a, b) \<Longrightarrow> thesis) \<Longrightarrow> thesis"
  by (cases r) auto

lemma ex_length: "length (put_uint64 v) = 8"
  by (simp add: put_uint64_def)

lemma ex_alloc_payload:
  "alloc_payload (ex_proc t) (ex_msg op) (ex_payload a n) = Inr (a, n, [], 0)"
  "alloc_payload ex_proc0 (ex_msg op) (ex_payload a n) = Inr (a, n, [], 0)"
  using get_put_uint64(1) [of n "[]"]
  by (simp_all add: alloc_payload_def ex_defs ex_payload_def get_put_uint64 ex_length)


subsection \<open>The accounts\<close>










text \<open>C27. A release of an address that is not known changes no block; the wrong release is counted on
  its call stack and a pending reallocation without a block is remembered.\<close>

theorem process_free_bad:
  assumes "proc_inv pr h" "normal env (pr, h)" "tracing pr"
    and "alloc_payload pr msg payload = Inr (ptr, pid, data, ssz)" "ptr \<noteq> 0"
    and "process_free env pr h msg payload = Inr (pr', h')"
    and "list_all (\<lambda>b. b_addr b \<noteq> ptr) (blocks pr)"
  shows "proc_inv pr' h' \<and> blocks pr' = blocks pr \<and>
      realloc_list pr' = realloc_list pr @ (if operation msg = MT_REALLOC_ENTER
        then [\<lparr>re_pid = ucast pid, re_addr = 0, re_size = 0, re_flags = 0, re_stack = None\<rparr>] else [])"
  using process_free_unknown [OF assms(1) _ _ assms(3-6)] assms(2,7) by (simp add: normal_def list_all_iff)

lemma ex_free_bad: "\<not> isl (process_free ex_env (ex_proc ex_tree1) (ex_heap MT_MALLOC ex_tree1) (ex_msg MT_REALLOC_ENTER)
    (ex_payload 8192 7))"
  by code_simp

theorem process_free_bad_witness:
  "\<exists>pr' h'. process_free ex_env (ex_proc ex_tree1) (ex_heap MT_MALLOC ex_tree1) (ex_msg MT_REALLOC_ENTER)
      (ex_payload 8192 7) = Inr (pr', h') \<and> proc_inv pr' h' \<and> length (realloc_list pr') = 1"
proof -
  obtain pr' h' where r: "process_free ex_env (ex_proc ex_tree1) (ex_heap MT_MALLOC ex_tree1) (ex_msg MT_REALLOC_ENTER)
      (ex_payload 8192 7) = Inr (pr', h')" by (rule returns_pair [OF ex_free_bad])
  have "tracing (ex_proc ex_tree1)" by (simp add: ex_defs)
  from process_free_bad [OF ex_inv(1) ex_normal(3) this ex_alloc_payload(1) _ r] r show ?thesis
    by (simp add: ex_tree1_def ex_proc_def ex_block_def ex_msg_def) (simp add: ex_defs)
qed


definition failed_realloc_run :: "(process \<times> heap) res" where
  "failed_realloc_run =
     bindE (process_free ex_env (ex_proc ex_tree1) (ex_heap MT_MALLOC ex_tree1) (ex_msg MT_REALLOC_ENTER) (ex_payload 4096 9))
       (\<lambda>(pr, h). process_realloc_done ex_env pr h (ex_msg MT_REALLOC_DONE) (ex_payload 0 9))"

text \<open>C28. A reallocation that succeeded, or whose old block was not known: \<open>process_realloc_done\<close>
  returns, removes the first pending entry of the thread and gives back the reference it held.\<close>

theorem process_realloc_done_exact:
  assumes "proc_inv pr h" "normal env (pr, h)" "tracing pr"
    and "alloc_payload pr msg payload = Inr (ptr, pid, data, ssz)"
    and "find_realloc (realloc_list pr) (ucast pid) = Some (re, rest)" "ptr \<noteq> 0 \<or> re_addr re = 0"
  shows "\<exists>h'. process_realloc_done env pr h msg payload = Inr (pr\<lparr>realloc_list := rest\<rparr>, h') \<and>
      proc_inv (pr\<lparr>realloc_list := rest\<rparr>) h' \<and> (\<exists>xs ys. realloc_list pr = xs @ re # ys \<and> rest = xs @ ys)"
  using process_realloc_done_inv [OF assms(1) _ assms(3-6), of env] assms(2) room_mono [of 1 pr h]
    find_realloc_Some [OF assms(5)]
  by (auto simp: normal_def numeral_2_eq_2)

definition ex_pending :: process where
  "ex_pending = (ex_proc ex_tree1)\<lparr>realloc_list := [\<lparr>re_pid = 9, re_addr = 0, re_size = 0, re_flags = 0, re_stack = None\<rparr>]\<rparr>"

lemma ex_pending_inv: "proc_inv ex_pending (ex_heap MT_MALLOC ex_tree1)" "normal ex_env (ex_pending, ex_heap MT_MALLOC ex_tree1)"
  using realloc_add_none_inv [OF ex_inv(1), of 9 0 0 0 MT_MALLOC]
  by (simp_all add: ex_pending_def normal_def ex_defs no_oom_def room_def small_blocks_def)

theorem process_realloc_done_exact_witness:
  "\<exists>h'. process_realloc_done ex_env ex_pending (ex_heap MT_MALLOC ex_tree1) (ex_msg MT_REALLOC_DONE) (ex_payload 4096 9) =
     Inr (ex_pending\<lparr>realloc_list := []\<rparr>, h') \<and> proc_inv (ex_pending\<lparr>realloc_list := []\<rparr>) h'"
proof -
  have "alloc_payload ex_pending (ex_msg MT_REALLOC_DONE) (ex_payload 4096 9) = Inr (4096, 9, [], 0)"
    using ex_alloc_payload(1) [of ex_tree1 MT_REALLOC_DONE 4096 9] by (simp add: ex_pending_def alloc_payload_def)
  moreover have "tracing ex_pending" by (simp add: ex_pending_def ex_defs)
  ultimately show ?thesis
    using process_realloc_done_exact [OF ex_pending_inv, of "ex_msg MT_REALLOC_DONE" "ex_payload 4096 9" 4096 9 "[]" 0
        "\<lparr>re_pid = 9, re_addr = 0, re_size = 0, re_flags = 0, re_stack = None\<rparr>" "[]"]
    by (auto simp: ex_pending_def)
qed

text \<open>When \<open>realloc\<close> fails, \<open>process_realloc_done\<close> puts the old block back into the table but does
  not give its bytes back to \<open>bytes_used\<close>: after the failed reallocation of the only block, of 64
  bytes, the process has one allocation and no byte in use.\<close>

theorem failed_realloc_loses_bytes:
  "case failed_realloc_run of Inl _ \<Rightarrow> False
   | Inr (pr, h) \<Rightarrow> map b_size (blocks pr) = [64] \<and> n_allocations pr = 1 \<and> bytes_used pr = 0"
  by code_simp

subsection \<open>Unmapping\<close>

text \<open>C25. The loop of \<open>process_munmap\<close> ends: as many rounds as there are blocks, plus one, are enough
  for every message and every state.\<close>

theorem process_munmap_terminates:
  "process_munmap env pr h msg payload \<noteq> Inr None"
  using munmap_loop_terminates [of pr "Suc (length (blocks pr))" env h "operation msg"]
  by (cases "alloc_payload pr msg payload") (auto simp: process_munmap_def simp del: munmap_loop.simps)




text \<open>A range in which no block starts is ignored, even when it is the middle or the end of a
  mapping: the code of \<open>process_munmap\<close> that shortens or splits a mapping that starts below the range
  is never reached, because the search only returns blocks that start inside it.\<close>

theorem munmap_inside_block_ignored:
  assumes "proc_inv pr h" "alloc_payload pr msg payload = Inr (ptr, sz, data, ssz)"
    and "list_all (\<lambda>b. \<not> starts_in ptr (if sz = 0 then 1 else sz) b) (blocks pr)"
  shows "process_munmap env pr h msg payload = Inr (Some (pr, h))"
proof (cases "process_rb_search_range (block_table pr) ptr sz")
  case None
  then show ?thesis using assms(2) by (simp add: process_munmap_def munmap_round_def)
next
  case (Some pos)
  from process_rb_search_range_Some [OF this] tbl.at_entry [of pos] assms(3) show ?thesis by (auto simp: list_all_iff)
qed

theorem munmap_inside_block_ignored_witness:
  "process_munmap ex_env (ex_proc ex_tree2) (ex_heap MT_MMAP ex_tree2) (ex_msg MT_MUNMAP) (ex_payload 5120 1024)
     = Inr (Some (ex_proc ex_tree2, ex_heap MT_MMAP ex_tree2))"
  by (rule munmap_inside_block_ignored [OF ex_inv(2) ex_alloc_payload(1)]) (simp add: ex_defs starts_in_def)

text \<open>Unmapping two adjacent mappings with one call can leave the lower one in the table: the
  search returns the upper one, which is nearer to the root, and the range is then moved above it.\<close>

theorem munmap_misses_lower_block:
  "case process_munmap ex_env (ex_proc ex_tree2) (ex_heap MT_MMAP ex_tree2) (ex_msg MT_MUNMAP) (ex_payload 4096 8192) of
     Inr (Some (pr, h)) \<Rightarrow> map b_addr (blocks pr) = [4096] \<and> bytes_used pr = 4096
   | _ \<Rightarrow> False"
  by code_simp


subsection \<open>Leak scans\<close>








subsection \<open>Reset\<close>

text \<open>C23. \<open>process_reset\<close> returns on every well-formed process, gives back every reference so that each
  stack node of the process is freed, and leaves an empty process.\<close>

theorem process_reset_exact:
  assumes "proc_inv pr h" "normal env (pr, h)"
  shows "\<exists>pr' h'. process_reset pr h = Inr (pr', h') \<and> proc_inv pr' h' \<and> (\<forall>i. i \<in> stack_ids pr \<longrightarrow> rbs h' i = None) \<and>
     blocks pr' = [] \<and> stack_ids pr' = {} \<and> realloc_list pr' = [] \<and> map_list pr' = [] \<and>
     n_allocations pr' = 0 \<and> bytes_used pr' = 0 \<and> stack_trees pr' = 0"
  using process_reset_inv [OF assms(1) _ refl] assms(2) room_mono [of 1 pr h]
  by (auto simp: normal_def numeral_2_eq_2 cleared_def)

theorem process_reset_exact_witness:
  "\<exists>pr' h'. process_reset (ex_proc ex_tree2) (ex_heap MT_MMAP ex_tree2) = Inr (pr', h') \<and> rbs h' 0 = None \<and> blocks pr' = []"
proof -
  have "0 \<in> stack_ids (ex_proc ex_tree2)" by (simp add: ex_defs)
  with process_reset_exact [OF ex_inv(2) ex_normal(4), of MT_MMAP] show ?thesis by blast
qed

text \<open>\<open>process_reset_allocations\<close> alone, as the commands of the client use it, drops all blocks but
  leaves the per-stack statistics of bytes in use and of leaks as they were.\<close>

theorem reset_allocations_stale:
  assumes "proc_inv pr h" "normal env (pr, h)"
  shows "\<exists>pr' h'. process_reset_allocations pr h = Inr (pr', h') \<and> blocks pr' = [] \<and> bytes_used pr' = 0 \<and>
     (\<forall>i. map_option (\<lambda>n. (rs_bytes_used n, rs_leaks n, rs_bytes_leaked n)) (rbs h' i) =
          map_option (\<lambda>n. (rs_bytes_used n, rs_leaks n, rs_bytes_leaked n)) (rbs h i))"
  using reset_allocations_held [OF assms(1), of 1] assms(2)
  by (auto simp: normal_def numeral_2_eq_2 cleared_def stats_def fun_eq_iff)

theorem reset_allocations_stale_witness:
  "\<exists>pr' h'. process_reset_allocations (ex_proc ex_tree2) (ex_heap MT_MMAP ex_tree2) = Inr (pr', h') \<and> blocks pr' = [] \<and>
     map_option rs_bytes_used (rbs h' 0) = Some 8192"
proof -
  from reset_allocations_stale [OF ex_inv(2) ex_normal(4), of MT_MMAP] obtain pr' h' where
    r: "process_reset_allocations (ex_proc ex_tree2) (ex_heap MT_MMAP ex_tree2) = Inr (pr', h')" "blocks pr' = []"
      "map_option (\<lambda>n. (rs_bytes_used n, rs_leaks n, rs_bytes_leaked n)) (rbs h' 0) =
       map_option (\<lambda>n. (rs_bytes_used n, rs_leaks n, rs_bytes_leaked n)) (rbs (ex_heap MT_MMAP ex_tree2) 0)" by blast
  from r(3) have "map_option rs_bytes_used (rbs h' 0) = Some 8192" by (auto simp: ex_defs)
  with r show ?thesis by blast
qed

text \<open>An address of a call stack that no mapping covers stops the client: \<open>resolv_address\<close> makes a
  symbol for it from the file name of the mapping, which is a null pointer.\<close>

theorem resolv_address_unmapped:
  assumes "locate_map (map_list pr) addr = None" "no_oom h"
  shows "resolv_address env pr h addr = Inl NullDeref"
  using assms by (simp add: resolv_address_def open_map_def malloc_def no_oom_def)

theorem resolv_address_unmapped_witness:
  "resolv_address ex_env ex_proc0 ex_heap0 4096 = Inl NullDeref"
  by (rule resolv_address_unmapped) (simp_all add: ex_defs no_oom_def)


subsection \<open>The wire format\<close>

text \<open>Whatever the word size and the byte order of the traced process, a value that \<open>put_ulong\<close> writes
  is what \<open>get_ulong\<close> reads back, cut to 32 bits for a 32-bit process; the conversions \<open>val16\<close>,
  \<open>val32\<close> and \<open>val64\<close> of the headers are their own inverses.\<close>

theorem ulong_roundtrip:
  "get_ulong (process_init swap is64 att pr) (put_ulong (process_init swap is64 att pr) v @ rest) =
     Some (if is64 then v else take_bit 32 v) \<and>
   pval32 (process_init swap is64 att pr) (pval32 (process_init swap is64 att pr) w) = w \<and>
   pval64 (process_init swap is64 att pr) (pval64 (process_init swap is64 att pr) v) = v"
  by (simp add: process_init_def get_put_uint64 get_put_uint32 val32_def val32_swap_def val64_def val64_swap_def)

text \<open>\<open>memncmp\<close>, by which the table of call stacks is ordered, is the lexicographic order of byte
  strings: its sign decides it, and it is zero on equal strings only.\<close>

theorem memncmp_lexicographic:
  "(memncmp p q < 0 \<longleftrightarrow> p < q) \<and> (0 < memncmp p q \<longleftrightarrow> q < p) \<and> (memncmp p q = 0 \<longleftrightarrow> p = q)"
  by simp

end
