(* ===== verification/Linked_List.thy ===== *)
theory Linked_List
  imports Prelude
begin

text \<open>
  The intrusive doubly linked list of \<open>list.h\<close>. A store maps the address of every
  \<open>struct list_head\<close> to its two link fields; the operations are the sequences of pointer
  assignments of the source, in the order of the source. \<open>is_clist h head xs\<close> says that the
  cyclic list anchored at \<open>head\<close> holds exactly the entries \<open>xs\<close>, in this order, with
  consistent forward and backward links. The lemmas show that the operations are insertion,
  deletion and concatenation on \<open>xs\<close>.
\<close>

subsection \<open>The store\<close>

record 'p list_head =
  lh_next :: 'p
  lh_prev :: 'p

type_synonym 'p lstore = "'p \<Rightarrow> 'p list_head"

definition set_next :: "'p \<Rightarrow> 'p \<Rightarrow> 'p lstore \<Rightarrow> 'p lstore" where
  "set_next p v h = h(p := (h p)\<lparr>lh_next := v\<rparr>)"

definition set_prev :: "'p \<Rightarrow> 'p \<Rightarrow> 'p lstore \<Rightarrow> 'p lstore" where
  "set_prev p v h = h(p := (h p)\<lparr>lh_prev := v\<rparr>)"

lemma lh_set [store_simps, simp]:
  "lh_next (set_next p v h q) = (if q = p then v else lh_next (h q))"
  "lh_prev (set_next p v h q) = lh_prev (h q)"
  "lh_prev (set_prev p v h q) = (if q = p then v else lh_prev (h q))"
  "lh_next (set_prev p v h q) = lh_next (h q)"
  by (simp_all add: set_next_def set_prev_def)

subsection \<open>The operations\<close>

definition INIT_LIST_HEAD :: "'p \<Rightarrow> 'p lstore \<Rightarrow> 'p lstore" where
  "INIT_LIST_HEAD l h = set_prev l l (set_next l l h)"

text \<open>\<open>__list_add\<close>: insert between two known neighbours.\<close>

definition list_add_link :: "'p \<Rightarrow> 'p \<Rightarrow> 'p \<Rightarrow> 'p lstore \<Rightarrow> 'p lstore" where
  "list_add_link elem prv nxt h =
     (let h = set_prev nxt elem h;
          h = set_next elem nxt h;
          h = set_prev elem prv h
      in set_next prv elem h)"

definition list_add :: "'p \<Rightarrow> 'p \<Rightarrow> 'p lstore \<Rightarrow> 'p lstore" where
  "list_add elem head h = list_add_link elem head (lh_next (h head)) h"

definition list_add_tail :: "'p \<Rightarrow> 'p \<Rightarrow> 'p lstore \<Rightarrow> 'p lstore" where
  "list_add_tail elem head h = list_add_link elem (lh_prev (h head)) head h"

text \<open>\<open>__list_del\<close> and \<open>__list_del_entry\<close>: bridge over the entry.\<close>

definition list_del_link :: "'p \<Rightarrow> 'p \<Rightarrow> 'p lstore \<Rightarrow> 'p lstore" where
  "list_del_link prv nxt h = set_next prv nxt (set_prev nxt prv h)"

definition list_del_entry :: "'p \<Rightarrow> 'p lstore \<Rightarrow> 'p lstore" where
  "list_del_entry entry h = list_del_link (lh_prev (h entry)) (lh_next (h entry)) h"

definition list_del :: "'p \<Rightarrow> 'p lstore \<Rightarrow> 'p lstore" where
  "list_del entry h =
     (let h = list_del_link (lh_prev (h entry)) (lh_next (h entry)) h;
          h = set_next entry entry h
      in set_prev entry entry h)"

definition list_move :: "'p \<Rightarrow> 'p \<Rightarrow> 'p lstore \<Rightarrow> 'p lstore" where
  "list_move entry head h = list_add entry head (list_del_entry entry h)"

definition list_move_tail :: "'p \<Rightarrow> 'p \<Rightarrow> 'p lstore \<Rightarrow> 'p lstore" where
  "list_move_tail entry head h = list_add_tail entry head (list_del_entry entry h)"

definition list_is_last :: "'p \<Rightarrow> 'p \<Rightarrow> 'p lstore \<Rightarrow> bool" where
  "list_is_last entry head h \<longleftrightarrow> lh_next (h entry) = head"

definition list_empty :: "'p \<Rightarrow> 'p lstore \<Rightarrow> bool" where
  "list_empty head h \<longleftrightarrow> lh_next (h head) = head"

definition list_is_singular :: "'p \<Rightarrow> 'p lstore \<Rightarrow> bool" where
  "list_is_singular head h \<longleftrightarrow> \<not> list_empty head h \<and> lh_next (h head) = lh_prev (h head)"

text \<open>\<open>__list_splice\<close> and \<open>list_splice_init\<close>.\<close>

definition list_splice_link :: "'p \<Rightarrow> 'p \<Rightarrow> 'p \<Rightarrow> 'p lstore \<Rightarrow> 'p lstore" where
  "list_splice_link l prv nxt h =
     (let first = lh_next (h l);
          last = lh_prev (h l);
          h = set_prev first prv h;
          h = set_next prv first h;
          h = set_next last nxt h
      in set_prev nxt last h)"

definition list_splice_init :: "'p \<Rightarrow> 'p \<Rightarrow> 'p lstore \<Rightarrow> 'p lstore" where
  "list_splice_init l head h =
     (if \<not> list_empty l h
      then INIT_LIST_HEAD l (list_splice_link l head (lh_next (h head)) h)
      else h)"

text \<open>
  \<open>list_for_each\<close>: the entries the cursor takes from \<open>pos\<close> until it is back at the head.
  Nothing in the loop bounds the number of rounds, so the model counts them down; \<open>None\<close> is a
  loop still running.
\<close>

fun list_for_each :: "nat \<Rightarrow> 'p lstore \<Rightarrow> 'p \<Rightarrow> 'p \<Rightarrow> 'p list option" where
  "list_for_each 0 h head pos = None"
| "list_for_each (Suc fuel) h head pos =
     (if pos = head then Some []
      else map_option ((#) pos) (list_for_each fuel h head (lh_next (h pos))))"

text \<open>
  \<open>list_for_each_safe\<close>: the successor is read before the body runs. The body is a function of
  the entry and the store.
\<close>

fun list_for_each_safe ::
  "nat \<Rightarrow> ('p \<Rightarrow> 'p lstore \<Rightarrow> 'p lstore) \<Rightarrow> 'p \<Rightarrow> 'p \<Rightarrow> 'p \<Rightarrow> 'p lstore \<Rightarrow> 'p lstore option" where
  "list_for_each_safe 0 body head pos n h = None"
| "list_for_each_safe (Suc fuel) body head pos n h =
     (if pos = head then Some h
      else (let h' = body pos h in list_for_each_safe fuel body head n (lh_next (h' n)) h'))"

subsection \<open>The abstraction\<close>

fun dll :: "'p lstore \<Rightarrow> 'p \<Rightarrow> 'p list \<Rightarrow> 'p \<Rightarrow> bool" where
  "dll h p [] q \<longleftrightarrow> lh_next (h p) = q \<and> lh_prev (h q) = p"
| "dll h p (x # xs) q \<longleftrightarrow> lh_next (h p) = x \<and> lh_prev (h x) = p \<and> dll h x xs q"

definition is_clist :: "'p lstore \<Rightarrow> 'p \<Rightarrow> 'p list \<Rightarrow> bool" where
  "is_clist h head xs \<longleftrightarrow> distinct (head # xs) \<and> dll h head xs head"

lemma dll_append [simp]: "dll h p (xs @ y # ys) q \<longleftrightarrow> dll h p xs y \<and> dll h y ys q"
  by (induction xs arbitrary: p) auto

lemma dll_set_next [store_simps]:
  "a \<noteq> p \<Longrightarrow> a \<notin> set xs \<Longrightarrow> dll (set_next a v h) p xs q = dll h p xs q"
  by (induction xs arbitrary: p) auto

lemma dll_set_prev [store_simps]:
  "a \<noteq> q \<Longrightarrow> a \<notin> set xs \<Longrightarrow> dll (set_prev a v h) p xs q = dll h p xs q"
  by (induction xs arbitrary: p) auto

lemma dll_set_next_start:
  "p \<notin> set xs \<Longrightarrow> dll h p xs q \<Longrightarrow>
   dll (set_next p v h) p xs q \<longleftrightarrow> v = (case xs of [] \<Rightarrow> q | x # _ \<Rightarrow> x)"
  by (cases xs) (auto simp: dll_set_next)

lemma dll_first: "dll h p xs q \<Longrightarrow> lh_next (h p) = (case xs of [] \<Rightarrow> q | x # _ \<Rightarrow> x)"
  by (cases xs) auto

lemma dll_last: "dll h p xs q \<Longrightarrow> lh_prev (h q) = (if xs = [] then p else last xs)"
  by (cases xs rule: rev_cases) auto

lemma is_clist_rotate:
  "is_clist h head (xs @ e # ys) \<Longrightarrow> is_clist h e (ys @ head # xs)"
  by (auto simp: is_clist_def)

subsection \<open>The operations on the abstraction\<close>

lemmas list_op_defs =
  list_add_def list_add_tail_def list_add_link_def list_del_def list_del_entry_def
  list_del_link_def INIT_LIST_HEAD_def Let_def

lemma is_clist_init: "is_clist (INIT_LIST_HEAD l h) l []"
  by (simp add: is_clist_def list_op_defs)

text \<open>
  Insertion between two neighbours, wherever they are on the cycle: with the cycle cut at the
  left neighbour the right neighbour comes first.
\<close>

lemma is_clist_add_front:
  assumes "is_clist h head xs" and "e \<noteq> head" and "e \<notin> set xs"
  shows "is_clist (list_add_link e head (lh_next (h head)) h) head (e # xs)"
  using assms
  by (cases xs) (auto simp: is_clist_def list_op_defs dll_set_next dll_set_prev)

lemma is_clist_list_add [refine_simps]:
  assumes "is_clist h head xs" and "e \<noteq> head" and "e \<notin> set xs"
  shows "is_clist (list_add e head h) head (e # xs)"
  using is_clist_add_front [OF assms] by (simp add: list_add_def)

lemma is_clist_list_add_tail [refine_simps]:
  assumes "is_clist h head xs" and "e \<noteq> head" and "e \<notin> set xs"
  shows "is_clist (list_add_tail e head h) head (xs @ [e])"
  using assms
  by (cases xs rule: rev_cases)
     (auto simp: is_clist_def list_op_defs dll_set_next dll_set_prev)

lemma is_clist_list_del_entry [refine_simps]:
  assumes "is_clist h head (xs @ e # ys)"
  shows "is_clist (list_del_entry e h) head (xs @ ys)"
  using assms
  by (cases xs rule: rev_cases; cases ys)
     (auto simp: is_clist_def list_op_defs dll_set_next dll_set_prev)

lemma is_clist_list_del [refine_simps]:
  assumes "is_clist h head (xs @ e # ys)"
  shows "is_clist (list_del e h) head (xs @ ys)" and "is_clist (list_del e h) e []"
proof -
  have "e \<noteq> head" "e \<notin> set (xs @ ys)" using assms by (auto simp: is_clist_def)
  moreover have "is_clist (list_del_entry e h) head (xs @ ys)"
    by (rule is_clist_list_del_entry [OF assms])
  ultimately show "is_clist (list_del e h) head (xs @ ys)"
    by (simp add: is_clist_def list_del_def list_del_entry_def Let_def dll_set_next dll_set_prev)
  show "is_clist (list_del e h) e []"
    by (simp add: is_clist_def list_del_def Let_def)
qed

text \<open>A list other than the one an operation works on is not changed.\<close>

lemma dll_frame:
  "dll h p xs q \<Longrightarrow> \<forall>a \<in> set (p # q # xs). h' a = h a \<Longrightarrow> dll h' p xs q"
  by (induction xs arbitrary: p) auto

lemma is_clist_frame:
  assumes "is_clist h l zs" and "\<And>p. p \<in> set (l # zs) \<Longrightarrow> h' p = h p"
  shows "is_clist h' l zs"
  using assms dll_frame [of h l zs l h'] by (simp add: is_clist_def)

lemma set_other:
  "q \<noteq> p \<Longrightarrow> set_next p v h q = h q" "q \<noteq> p \<Longrightarrow> set_prev p v h q = h q"
  by (simp_all add: set_next_def set_prev_def)

lemma is_clist_neighbours:
  assumes "is_clist h head (xs @ e # ys)"
  shows "lh_next (h e) = (case ys of [] \<Rightarrow> head | y # _ \<Rightarrow> y)"
    and "lh_prev (h e) = (if xs = [] then head else last xs)"
  using assms by (auto simp: is_clist_def dll_first dest: dll_last)

lemma list_del_entry_other:
  assumes "is_clist h head (xs @ e # ys)" and "p \<notin> set (head # xs @ ys)"
  shows "list_del_entry e h p = h p"
proof -
  note n = is_clist_neighbours [OF assms(1)]
  from assms(2) n have "p \<noteq> lh_prev (h e)" "p \<noteq> lh_next (h e)"
    by (auto split: list.splits)
  then show ?thesis by (simp add: list_del_entry_def list_del_link_def set_other)
qed

text \<open>Moving an entry: between two lists, and within one.\<close>

lemma is_clist_list_move [refine_simps]:
  assumes "is_clist h src (xs @ e # ys)" and "is_clist h dst zs"
    and "set (src # xs @ e # ys) \<inter> set (dst # zs) = {}"
  shows "is_clist (list_move e dst h) dst (e # zs)"
    and "is_clist (list_move_tail e dst h) dst (zs @ [e])"
proof -
  have "is_clist (list_del_entry e h) dst zs"
    by (rule is_clist_frame [OF assms(2)], rule list_del_entry_other [OF assms(1)])
       (use assms(3) in auto)
  moreover have "e \<noteq> dst" "e \<notin> set zs" using assms(3) by auto
  ultimately show "is_clist (list_move e dst h) dst (e # zs)"
    and "is_clist (list_move_tail e dst h) dst (zs @ [e])"
    by (simp_all add: list_move_def list_move_tail_def is_clist_list_add is_clist_list_add_tail)
qed

lemma is_clist_list_move_same [refine_simps]:
  assumes "is_clist h head (xs @ e # ys)"
  shows "is_clist (list_move e head h) head (e # xs @ ys)"
    and "is_clist (list_move_tail e head h) head (xs @ ys @ [e])"
proof -
  have "is_clist (list_del_entry e h) head (xs @ ys)"
    by (rule is_clist_list_del_entry [OF assms])
  moreover have "e \<noteq> head" "e \<notin> set (xs @ ys)" using assms by (auto simp: is_clist_def)
  ultimately show "is_clist (list_move e head h) head (e # xs @ ys)"
    and "is_clist (list_move_tail e head h) head (xs @ ys @ [e])"
    using is_clist_list_add_tail [of "list_del_entry e h" head "xs @ ys" e]
    by (auto simp: list_move_def list_move_tail_def intro: is_clist_list_add)
qed

text \<open>The tests.\<close>

lemma list_empty_iff [refine_simps]: "is_clist h head xs \<Longrightarrow> list_empty head h \<longleftrightarrow> xs = []"
  by (cases xs) (auto simp: is_clist_def list_empty_def)

lemma list_is_last_iff [refine_simps]:
  "is_clist h head xs \<Longrightarrow> e \<in> set xs \<Longrightarrow> list_is_last e head h \<longleftrightarrow> e = last xs"
proof -
  assume c: "is_clist h head xs" and e: "e \<in> set xs"
  from e obtain us vs where xs: "xs = us @ e # vs" by (meson split_list)
  with c have "lh_next (h e) = (case vs of [] \<Rightarrow> head | y # _ \<Rightarrow> y)"
    using is_clist_neighbours(1) [of h head us e vs] by simp
  with c xs show ?thesis
    by (cases vs) (auto simp: list_is_last_def is_clist_def)
qed

lemma list_is_singular_iff [refine_simps]:
  "is_clist h head xs \<Longrightarrow> list_is_singular head h \<longleftrightarrow> length xs = 1"
proof (cases xs rule: rev_cases)
  case (snoc us z)
  assume "is_clist h head xs"
  with snoc show ?thesis
    by (cases us) (auto simp: is_clist_def list_is_singular_def list_empty_def)
qed (auto simp: list_is_singular_def list_empty_iff)

text \<open>Concatenation: the entries of \<open>l\<close> go in front of those of \<open>head\<close>, and \<open>l\<close> is empty.\<close>

lemma is_clist_splice [refine_simps]:
  assumes l: "is_clist h l xs" and hd: "is_clist h head ys"
    and dis: "set (l # xs) \<inter> set (head # ys) = {}"
  shows "is_clist (list_splice_init l head h) head (xs @ ys)"
    and "is_clist (list_splice_init l head h) l []"
proof -
  have "is_clist (list_splice_init l head h) head (xs @ ys) \<and> is_clist (list_splice_init l head h) l []"
  proof (cases "xs = []")
    case True
    with l hd show ?thesis by (simp add: list_splice_init_def list_empty_iff)
  next
    case False
    then obtain zs z where zs: "xs = zs @ [z]" by (rule rev_cases_set)
    have ne: "\<not> list_empty l h" using False l by (simp add: list_empty_iff)
    from l hd dis zs ne show ?thesis
      by (cases zs; cases ys)
         (auto simp: is_clist_def list_splice_init_def list_splice_link_def list_op_defs
            dll_set_next dll_set_prev)
  qed
  then show "is_clist (list_splice_init l head h) head (xs @ ys)"
    and "is_clist (list_splice_init l head h) l []" by auto
qed

subsection \<open>Iteration\<close>

lemma list_for_each_from:
  assumes "is_clist h head (us @ xs)" and "length xs < fuel"
  shows "list_for_each fuel h head (case xs of [] \<Rightarrow> head | x # _ \<Rightarrow> x) = Some xs"
  using assms
proof (induction xs arbitrary: us fuel)
  case Nil
  then show ?case by (cases fuel) auto
next
  case (Cons x xs)
  then obtain fuel' where f: "fuel = Suc fuel'" by (cases fuel) auto
  have "lh_next (h x) = (case xs of [] \<Rightarrow> head | y # _ \<Rightarrow> y)"
    using is_clist_neighbours(1) [of h head us x xs] Cons.prems by simp
  moreover have "list_for_each fuel' h head (case xs of [] \<Rightarrow> head | y # _ \<Rightarrow> y) = Some xs"
    using Cons.IH [of "us @ [x]" fuel'] Cons.prems f by simp
  ultimately show ?case using f Cons.prems by (auto simp: is_clist_def)
qed

text \<open>One more round than the list has entries ends the loop, which visits them in order.\<close>

lemma list_for_each_visits:
  assumes "is_clist h head xs" and "length xs < fuel"
  shows "list_for_each fuel h head (lh_next (h head)) = Some xs"
  using list_for_each_from [of h head "[]" xs fuel] assms
  by (auto simp: is_clist_def dest: dll_first)

text \<open>
  A body that deletes its own entry: the loop reads the next entry first, so it still visits
  every entry and leaves the list empty.
\<close>

lemma list_for_each_safe_del:
  assumes "is_clist h head xs" and "length xs < fuel"
  shows "\<exists>h'. list_for_each_safe fuel list_del head (lh_next (h head))
      (lh_next (h (lh_next (h head)))) h = Some h' \<and> is_clist h' head []"
  using assms
proof (induction xs arbitrary: h fuel)
  case Nil
  then show ?case by (cases fuel) (auto simp: is_clist_def)
next
  case (Cons x xs)
  then obtain fuel' where f: "fuel = Suc fuel'" by (cases fuel) auto
  let ?h = "list_del x h"
  have c: "is_clist ?h head xs"
    using is_clist_list_del(1) [of h head "[]" x xs] Cons.prems by simp
  have nx: "lh_next (h head) = x" "x \<noteq> head" using Cons.prems(1) by (auto simp: is_clist_def)
  have "lh_next (h x) = (case xs of [] \<Rightarrow> head | y # _ \<Rightarrow> y)"
    using is_clist_neighbours(1) [of h head "[]" x xs] Cons.prems by simp
  moreover have "lh_next (?h head) = (case xs of [] \<Rightarrow> head | y # _ \<Rightarrow> y)"
    using c by (auto simp: is_clist_def dll_first)
  ultimately have "lh_next (h x) = lh_next (?h head)" by simp
  with Cons.IH [OF c, of fuel'] Cons.prems f nx show ?case by (simp add: Let_def)
qed

end
