(* ===== verification/RBTree_Heap.thy ===== *)
theory RBTree_Heap
  imports RBTree "HOL-Library.Monad_Syntax"
begin

text \<open>
  The pointer code of \<open>rbtree.c\<close> and \<open>rbtree.h\<close>. A node packs its parent pointer and its
  colour into one word (\<open>rb_parent_color\<close>, colour in bit 0) and holds its two children. An
  operation is a function on the store and the root pointer that gives \<open>None\<close> when it
  dereferences \<open>NULL\<close> or does not end. \<open>rep F s t\<close> says that the store \<open>s\<close> holds exactly the
  tree \<open>t\<close>, whose nodes are named by their addresses, and agrees with \<open>F\<close> everywhere else.
  The theorems: on such a store every operation returns, computes the function of the theory
  \<open>RBTree\<close> on \<open>t\<close>, and touches no cell outside the tree.
\<close>

unbundle bit_operations_syntax

subsection \<open>Nodes, the store and the accessor macros\<close>

record rb_node =
  rb_parent_color :: ulong
  rb_right :: ptr
  rb_left :: ptr

record rb_state =
  rb_mem :: "ptr \<Rightarrow> rb_node"
  rb_root :: ptr

definition rb_parent :: "rb_node \<Rightarrow> ptr" where
  "rb_parent r = rb_parent_color r AND NOT 3"

definition rb_color :: "rb_node \<Rightarrow> ulong" where
  "rb_color r = rb_parent_color r AND 1"

definition rb_is_red :: "rb_node \<Rightarrow> bool" where
  "rb_is_red r \<longleftrightarrow> rb_color r = 0"

definition rb_is_black :: "rb_node \<Rightarrow> bool" where
  "rb_is_black r \<longleftrightarrow> rb_color r \<noteq> 0"

text \<open>Reading and writing through a pointer; both fail on \<open>NULL\<close>.\<close>

definition deref :: "rb_state \<Rightarrow> ptr \<Rightarrow> rb_node option" where
  "deref s p = (if p = NULL then None else Some (rb_mem s p))"

definition assign :: "ptr \<Rightarrow> (rb_node \<Rightarrow> rb_node) \<Rightarrow> rb_state \<Rightarrow> rb_state option" where
  "assign p f s =
     (if p = NULL then None else Some (s\<lparr>rb_mem := (rb_mem s)(p := f (rb_mem s p))\<rparr>))"

definition rb_set_left :: "ptr \<Rightarrow> ptr \<Rightarrow> rb_state \<Rightarrow> rb_state option" where
  "rb_set_left p v = assign p (\<lambda>n. n\<lparr>rb_left := v\<rparr>)"

definition rb_set_right :: "ptr \<Rightarrow> ptr \<Rightarrow> rb_state \<Rightarrow> rb_state option" where
  "rb_set_right p v = assign p (\<lambda>n. n\<lparr>rb_right := v\<rparr>)"

definition with_parent :: "ptr \<Rightarrow> rb_node \<Rightarrow> rb_node" where
  "with_parent p n = n\<lparr>rb_parent_color := (rb_parent_color n AND 3) OR p\<rparr>"

definition with_color :: "ulong \<Rightarrow> rb_node \<Rightarrow> rb_node" where
  "with_color color n = n\<lparr>rb_parent_color := (rb_parent_color n AND NOT 1) OR color\<rparr>"

definition with_red :: "rb_node \<Rightarrow> rb_node" where
  "with_red n = n\<lparr>rb_parent_color := rb_parent_color n AND NOT 1\<rparr>"

definition with_black :: "rb_node \<Rightarrow> rb_node" where
  "with_black n = n\<lparr>rb_parent_color := rb_parent_color n OR 1\<rparr>"

definition rb_set_parent :: "ptr \<Rightarrow> ptr \<Rightarrow> rb_state \<Rightarrow> rb_state option" where
  "rb_set_parent rb p = assign rb (with_parent p)"

definition rb_set_color :: "ptr \<Rightarrow> ulong \<Rightarrow> rb_state \<Rightarrow> rb_state option" where
  "rb_set_color rb color = assign rb (with_color color)"

definition rb_set_red :: "ptr \<Rightarrow> rb_state \<Rightarrow> rb_state option" where
  "rb_set_red rb = assign rb with_red"

definition rb_set_black :: "ptr \<Rightarrow> rb_state \<Rightarrow> rb_state option" where
  "rb_set_black rb = assign rb with_black"

text \<open>
  \<open>rb_link\<close> is the address of the pointer the new node is stored through: the root pointer or
  a child field of the parent.
\<close>

datatype rb_link = RootLink | LeftLink ptr | RightLink ptr

fun rb_store_link :: "rb_link \<Rightarrow> ptr \<Rightarrow> rb_state \<Rightarrow> rb_state option" where
  "rb_store_link RootLink v s = Some (s\<lparr>rb_root := v\<rparr>)"
| "rb_store_link (LeftLink p) v s = rb_set_left p v s"
| "rb_store_link (RightLink p) v s = rb_set_right p v s"

definition rb_link_node :: "ptr \<Rightarrow> ptr \<Rightarrow> rb_link \<Rightarrow> rb_state \<Rightarrow> rb_state option" where
  "rb_link_node node parent link s = do {
     s \<leftarrow> assign node (\<lambda>n. n\<lparr>rb_parent_color := parent\<rparr>) s;
     s \<leftarrow> assign node (\<lambda>n. n\<lparr>rb_left := NULL, rb_right := NULL\<rparr>) s;
     rb_store_link link node s
   }"

subsection \<open>Rotations\<close>

text \<open>The child pointer of \<open>parent\<close> (or the root pointer) that held \<open>node\<close> is set to \<open>new\<close>.\<close>

definition rb_rotate_left :: "ptr \<Rightarrow> rb_state \<Rightarrow> rb_state option" where
  "rb_rotate_left node s = do {
     n \<leftarrow> deref s node;
     let right = rb_right n;
     let parent = rb_parent n;
     r \<leftarrow> deref s right;
     s \<leftarrow> rb_set_right node (rb_left r) s;
     s \<leftarrow> (if rb_left r \<noteq> NULL then rb_set_parent (rb_left r) node s else Some s);
     s \<leftarrow> rb_set_left right node s;
     s \<leftarrow> rb_set_parent right parent s;
     s \<leftarrow> (if parent \<noteq> NULL
          then do {
            p \<leftarrow> deref s parent;
            if node = rb_left p then rb_set_left parent right s else rb_set_right parent right s
          }
          else Some (s\<lparr>rb_root := right\<rparr>));
     rb_set_parent node right s
   }"

definition rb_rotate_right :: "ptr \<Rightarrow> rb_state \<Rightarrow> rb_state option" where
  "rb_rotate_right node s = do {
     n \<leftarrow> deref s node;
     let left = rb_left n;
     let parent = rb_parent n;
     l \<leftarrow> deref s left;
     s \<leftarrow> rb_set_left node (rb_right l) s;
     s \<leftarrow> (if rb_right l \<noteq> NULL then rb_set_parent (rb_right l) node s else Some s);
     s \<leftarrow> rb_set_right left node s;
     s \<leftarrow> rb_set_parent left parent s;
     s \<leftarrow> (if parent \<noteq> NULL
          then do {
            p \<leftarrow> deref s parent;
            if node = rb_right p then rb_set_right parent left s else rb_set_left parent left s
          }
          else Some (s\<lparr>rb_root := left\<rparr>));
     rb_set_parent node left s
   }"

subsection \<open>Insertion\<close>

text \<open>The tests \<open>p && rb_is_red(p)\<close> and \<open>!p || rb_is_black(p)\<close>.\<close>

definition red_node :: "rb_state \<Rightarrow> ptr \<Rightarrow> bool" where
  "red_node s p \<longleftrightarrow> p \<noteq> NULL \<and> rb_is_red (rb_mem s p)"

definition black_node :: "rb_state \<Rightarrow> ptr \<Rightarrow> bool" where
  "black_node s p \<longleftrightarrow> p = NULL \<or> rb_is_black (rb_mem s p)"

text \<open>The \<open>while\<close> loop of \<open>rb_insert_color\<close>.\<close>

partial_function (option) rb_insert_loop :: "ptr \<Rightarrow> rb_state \<Rightarrow> rb_state option" where
  "rb_insert_loop node s = do {
     n \<leftarrow> deref s node;
     let parent = rb_parent n;
     if red_node s parent then do {
       p \<leftarrow> deref s parent;
       let gparent = rb_parent p;
       g \<leftarrow> deref s gparent;
       if parent = rb_left g then do {
         let uncle = rb_right g;
         if red_node s uncle then do {
           s \<leftarrow> rb_set_black uncle s;
           s \<leftarrow> rb_set_black parent s;
           s \<leftarrow> rb_set_red gparent s;
           rb_insert_loop gparent s
         } else if rb_right p = node then do {
           s \<leftarrow> rb_rotate_left parent s;
           s \<leftarrow> rb_set_black node s;
           s \<leftarrow> rb_set_red gparent s;
           s \<leftarrow> rb_rotate_right gparent s;
           rb_insert_loop parent s
         } else do {
           s \<leftarrow> rb_set_black parent s;
           s \<leftarrow> rb_set_red gparent s;
           s \<leftarrow> rb_rotate_right gparent s;
           rb_insert_loop node s
         }
       } else do {
         let uncle = rb_left g;
         if red_node s uncle then do {
           s \<leftarrow> rb_set_black uncle s;
           s \<leftarrow> rb_set_black parent s;
           s \<leftarrow> rb_set_red gparent s;
           rb_insert_loop gparent s
         } else if rb_left p = node then do {
           s \<leftarrow> rb_rotate_right parent s;
           s \<leftarrow> rb_set_black node s;
           s \<leftarrow> rb_set_red gparent s;
           s \<leftarrow> rb_rotate_left gparent s;
           rb_insert_loop parent s
         } else do {
           s \<leftarrow> rb_set_black parent s;
           s \<leftarrow> rb_set_red gparent s;
           s \<leftarrow> rb_rotate_left gparent s;
           rb_insert_loop node s
         }
       }
     } else Some s
   }"

definition rb_insert_color :: "ptr \<Rightarrow> rb_state \<Rightarrow> rb_state option" where
  "rb_insert_color node s = do {
     s \<leftarrow> rb_insert_loop node s;
     rb_set_black (rb_root s) s
   }"

subsection \<open>Deletion\<close>

text \<open>
  The \<open>while\<close> loop of \<open>__rb_erase_color\<close>, which gives the final \<open>node\<close>; \<open>break\<close> after
  \<open>node = root->rb_node\<close> is the result with the root pointer.
\<close>

partial_function (option) rb_erase_loop :: "ptr \<Rightarrow> ptr \<Rightarrow> rb_state \<Rightarrow> (ptr \<times> rb_state) option" where
  "rb_erase_loop node parent s =
     (if black_node s node \<and> node \<noteq> rb_root s then do {
        p \<leftarrow> deref s parent;
        if rb_left p = node then do {
          o1 \<leftarrow> deref s (rb_right p);
          (other, s) \<leftarrow>
            (if rb_is_red o1 then do {
               s \<leftarrow> rb_set_black (rb_right p) s;
               s \<leftarrow> rb_set_red parent s;
               s \<leftarrow> rb_rotate_left parent s;
               p \<leftarrow> deref s parent;
               Some (rb_right p, s)
             } else Some (rb_right p, s));
          o2 \<leftarrow> deref s other;
          if black_node s (rb_left o2) \<and> black_node s (rb_right o2) then do {
            s \<leftarrow> rb_set_red other s;
            p \<leftarrow> deref s parent;
            rb_erase_loop parent (rb_parent p) s
          } else do {
            (other, s) \<leftarrow>
              (if black_node s (rb_right o2) then do {
                 s \<leftarrow> rb_set_black (rb_left o2) s;
                 s \<leftarrow> rb_set_red other s;
                 s \<leftarrow> rb_rotate_right other s;
                 p \<leftarrow> deref s parent;
                 Some (rb_right p, s)
               } else Some (other, s));
            p \<leftarrow> deref s parent;
            s \<leftarrow> rb_set_color other (rb_color p) s;
            s \<leftarrow> rb_set_black parent s;
            o3 \<leftarrow> deref s other;
            s \<leftarrow> rb_set_black (rb_right o3) s;
            s \<leftarrow> rb_rotate_left parent s;
            Some (rb_root s, s)
          }
        } else do {
          o1 \<leftarrow> deref s (rb_left p);
          (other, s) \<leftarrow>
            (if rb_is_red o1 then do {
               s \<leftarrow> rb_set_black (rb_left p) s;
               s \<leftarrow> rb_set_red parent s;
               s \<leftarrow> rb_rotate_right parent s;
               p \<leftarrow> deref s parent;
               Some (rb_left p, s)
             } else Some (rb_left p, s));
          o2 \<leftarrow> deref s other;
          if black_node s (rb_left o2) \<and> black_node s (rb_right o2) then do {
            s \<leftarrow> rb_set_red other s;
            p \<leftarrow> deref s parent;
            rb_erase_loop parent (rb_parent p) s
          } else do {
            (other, s) \<leftarrow>
              (if black_node s (rb_left o2) then do {
                 s \<leftarrow> rb_set_black (rb_right o2) s;
                 s \<leftarrow> rb_set_red other s;
                 s \<leftarrow> rb_rotate_left other s;
                 p \<leftarrow> deref s parent;
                 Some (rb_left p, s)
               } else Some (other, s));
            p \<leftarrow> deref s parent;
            s \<leftarrow> rb_set_color other (rb_color p) s;
            s \<leftarrow> rb_set_black parent s;
            o3 \<leftarrow> deref s other;
            s \<leftarrow> rb_set_black (rb_left o3) s;
            s \<leftarrow> rb_rotate_right parent s;
            Some (rb_root s, s)
          }
        }
      } else Some (node, s))"

definition rb_erase_color :: "ptr \<Rightarrow> ptr \<Rightarrow> rb_state \<Rightarrow> rb_state option" where
  "rb_erase_color node parent s = do {
     (node, s) \<leftarrow> rb_erase_loop node parent s;
     if node \<noteq> NULL then rb_set_black node s else Some s
   }"

text \<open>The inner loop that walks to the leftmost node.\<close>

partial_function (option) rb_leftmost :: "rb_state \<Rightarrow> ptr \<Rightarrow> ptr option" where
  "rb_leftmost s node = do {
     n \<leftarrow> deref s node;
     if rb_left n \<noteq> NULL then rb_leftmost s (rb_left n) else Some node
   }"

text \<open>Storing a pointer in the place where \<open>old\<close> hangs: a child field of its parent or the root.\<close>

definition rb_replace_child :: "ptr \<Rightarrow> ptr \<Rightarrow> ptr \<Rightarrow> rb_state \<Rightarrow> rb_state option" where
  "rb_replace_child parent old new s =
     (if parent \<noteq> NULL then do {
        p \<leftarrow> deref s parent;
        if rb_left p = old then rb_set_left parent new s else rb_set_right parent new s
      } else Some (s\<lparr>rb_root := new\<rparr>))"

definition rb_erase :: "ptr \<Rightarrow> rb_state \<Rightarrow> rb_state option" where
  "rb_erase node s = do {
     n \<leftarrow> deref s node;
     (color, child, parent, s) \<leftarrow>
       (if rb_left n = NULL \<or> rb_right n = NULL then do {
          let child = (if rb_left n = NULL then rb_right n else rb_left n);
          let parent = rb_parent n;
          let color = rb_color n;
          s \<leftarrow> (if child \<noteq> NULL then rb_set_parent child parent s else Some s);
          s \<leftarrow> rb_replace_child parent node child s;
          Some (color, child, parent, s)
        } else do {
          let old = node;
          node \<leftarrow> rb_leftmost s (rb_right n);
          s \<leftarrow> rb_replace_child (rb_parent n) old node s;
          m \<leftarrow> deref s node;
          let child = rb_right m;
          let parent = rb_parent m;
          let color = rb_color m;
          (parent, s) \<leftarrow>
            (if parent = old then Some (node, s)
             else do {
               s \<leftarrow> (if child \<noteq> NULL then rb_set_parent child parent s else Some s);
               s \<leftarrow> rb_set_left parent child s;
               o1 \<leftarrow> deref s old;
               s \<leftarrow> rb_set_right node (rb_right o1) s;
               s \<leftarrow> rb_set_parent (rb_right o1) node s;
               Some (parent, s)
             });
          o2 \<leftarrow> deref s old;
          s \<leftarrow> assign node (\<lambda>m. m\<lparr>rb_parent_color := rb_parent_color o2\<rparr>) s;
          s \<leftarrow> rb_set_left node (rb_left o2) s;
          s \<leftarrow> rb_set_parent (rb_left o2) node s;
          Some (color, child, parent, s)
        });
     if color = 1 then rb_erase_color child parent s else Some s
   }"

subsection \<open>The packed word\<close>

definition aligned :: "ptr \<Rightarrow> bool" where
  "aligned p \<longleftrightarrow> p AND 3 = 0"

fun color_bit :: "color \<Rightarrow> ulong" where
  "color_bit Black = 1"
| "color_bit Red = 0"

definition pack :: "ptr \<Rightarrow> color \<Rightarrow> ulong" where
  "pack p c = p OR color_bit c"

lemma three_mask: "(3 :: 64 word) = mask 2"
  by (simp add: mask_eq_exp_minus_1)

lemma bit_3: "bit (3 :: 64 word) n \<longleftrightarrow> n < 2"
  by (simp only: three_mask bit_mask_iff) auto

text \<open>The bit facts for any word that has the two low bits set, then for the literal 3.\<close>

lemma low_bits:
  fixes m p q :: "64 word"
  assumes m: "\<And>n. bit m n \<longleftrightarrow> n < 2" and p: "p AND m = 0"
  shows "(p OR color_bit c) AND NOT m = p"
    and "((p OR color_bit c) AND m) OR q = q OR color_bit c"
    and "\<not> bit p 0"
proof -
  have b: "\<not> bit p n" if "n < 2" for n
    using p m that by (metis bit_0_eq bit_and_iff bot_apply bot_bool_def)
  show "\<not> bit p 0" by (rule b) simp
  have c: "bit (color_bit c) n \<longleftrightarrow> c = Black \<and> n = 0" for n
    by (cases c) (auto simp: bit_1_iff)
  show "(p OR color_bit c) AND NOT m = p"
    by (rule bit_word_eqI) (auto simp: bit_and_iff bit_or_iff bit_not_iff m c b)
  show "((p OR color_bit c) AND m) OR q = q OR color_bit c"
    by (rule bit_word_eqI) (auto simp: bit_and_iff bit_or_iff m c b)
qed

lemma pack_parent:
  assumes "aligned p"
  shows "pack p c AND NOT 3 = p" and "(pack p c AND 3) OR q = pack q c"
  using low_bits(1,2) [of 3 p c] bit_3 assms by (simp_all only: aligned_def pack_def)

lemma color_bits:
  fixes o1 p :: "64 word"
  assumes o1: "\<And>n. bit o1 n \<longleftrightarrow> n = 0" and p: "\<not> bit p 0"
  shows "(p OR color_bit c) AND o1 = color_bit c"
    and "(p OR color_bit c) OR o1 = p OR color_bit Black"
    and "(p OR color_bit c) AND NOT o1 = p"
proof -
  have c: "bit (color_bit c) n \<longleftrightarrow> c = Black \<and> n = 0" for n c
    by (cases c) (auto simp: bit_1_iff)
  show "(p OR color_bit c) AND o1 = color_bit c"
    by (rule bit_word_eqI) (use p in \<open>auto simp: bit_and_iff bit_or_iff o1 c\<close>)
  show "(p OR color_bit c) OR o1 = p OR color_bit Black"
    by (rule bit_word_eqI) (use p in \<open>auto simp: bit_or_iff o1 c simp del: color_bit.simps\<close>)
  show "(p OR color_bit c) AND NOT o1 = p"
    by (rule bit_word_eqI) (use p in \<open>auto simp: bit_and_iff bit_or_iff bit_not_iff o1 c intro: gr0I\<close>)
qed

lemma pack_color:
  assumes "aligned p"
  shows "pack p c AND 1 = color_bit c" and "pack p c OR 1 = pack p Black"
    and "pack p c AND NOT 1 = pack p Red" and "(pack p c AND NOT 1) OR color_bit d = pack p d"
proof -
  have p: "\<not> bit p 0"
    by (rule low_bits(3) [of 3]) (simp_all only: bit_3 assms [unfolded aligned_def])
  have o1: "bit (1 :: 64 word) n \<longleftrightarrow> n = 0" for n by (simp add: bit_1_iff)
  have red: "pack p Red = p" by (simp add: pack_def)
  note cb = color_bits [of 1 p, OF o1 p, folded pack_def]
  show "pack p c AND 1 = color_bit c" "pack p c OR 1 = pack p Black"
    "pack p c AND NOT 1 = pack p Red" "(pack p c AND NOT 1) OR color_bit d = pack p d"
    using cb by (simp_all only: red) (simp_all only: pack_def)
qed

lemma aligned_0 [simp]: "aligned 0"
  by (simp add: aligned_def)

lemma color_bit_eq_0 [simp]: "color_bit c = 0 \<longleftrightarrow> c = Red"
  by (cases c) auto

subsection \<open>The tree in the store\<close>

fun root_ptr :: "ptr rbt \<Rightarrow> ptr" where
  "root_ptr Leaf = NULL"
| "root_ptr (Node l c x r) = x"

definition cell :: "ptr \<Rightarrow> color \<Rightarrow> ptr \<Rightarrow> ptr \<Rightarrow> rb_node" where
  "cell par c l r = \<lparr>rb_parent_color = pack par c, rb_right = r, rb_left = l\<rparr>"

lemma cell_simps [simp]:
  "rb_left (cell p c l r) = l"
  "rb_right (cell p c l r) = r"
  "(cell p c l r)\<lparr>rb_left := v\<rparr> = cell p c v r"
  "(cell p c l r)\<lparr>rb_right := v\<rparr> = cell p c l v"
  by (simp_all add: cell_def)

lemma cell_packed [simp]:
  assumes "aligned p"
  shows "rb_parent (cell p c l r) = p"
    and "rb_color (cell p c l r) = color_bit c"
    and "rb_is_red (cell p c l r) \<longleftrightarrow> c = Red"
    and "rb_is_black (cell p c l r) \<longleftrightarrow> c = Black"
    and "with_parent q (cell p c l r) = cell q c l r"
    and "with_red (cell p c l r) = cell p Red l r"
    and "with_black (cell p c l r) = cell p Black l r"
    and "with_color (color_bit d) (cell p c l r) = cell p d l r"
  using pack_parent [OF assms] pack_color [OF assms]
  by (simp_all only: rb_parent_def rb_color_def rb_is_red_def rb_is_black_def cell_def
      with_parent_def with_red_def with_black_def with_color_def rb_node.simps
      color_bit_eq_0 color_cases_neq)

fun tree_at :: "(ptr \<Rightarrow> rb_node) \<Rightarrow> ptr \<Rightarrow> ptr rbt \<Rightarrow> bool" where
  "tree_at h par Leaf \<longleftrightarrow> True"
| "tree_at h par (Node l c x r) \<longleftrightarrow>
     x \<noteq> NULL \<and> aligned x \<and> h x = cell par c (root_ptr l) (root_ptr r) \<and>
     tree_at h x l \<and> tree_at h x r"

lemma root_ptr_neq [simp]:
  "x \<noteq> NULL \<Longrightarrow> x \<notin> set (nodes t) \<Longrightarrow> root_ptr t \<noteq> x"
  "x \<noteq> NULL \<Longrightarrow> x \<notin> set (nodes t) \<Longrightarrow> x \<noteq> root_ptr t"
  by (cases t; auto)+

fun top_ptr :: "ptr ctx \<Rightarrow> ptr" where
  "top_ptr [] = NULL"
| "top_ptr (FL c a r # k) = a"
| "top_ptr (FR l c a # k) = a"

fun ctx_at :: "(ptr \<Rightarrow> rb_node) \<Rightarrow> ptr \<Rightarrow> ptr ctx \<Rightarrow> bool" where
  "ctx_at h p [] \<longleftrightarrow> True"
| "ctx_at h p (FL c a r # k) \<longleftrightarrow>
     a \<noteq> NULL \<and> aligned a \<and> h a = cell (top_ptr k) c p (root_ptr r) \<and> tree_at h a r \<and> ctx_at h a k"
| "ctx_at h p (FR l c a # k) \<longleftrightarrow>
     a \<noteq> NULL \<and> aligned a \<and> h a = cell (top_ptr k) c (root_ptr l) p \<and> tree_at h a l \<and> ctx_at h a k"

lemma tree_at_plug [simp]:
  "tree_at h NULL (plug k t) \<longleftrightarrow> tree_at h (top_ptr k) t \<and> ctx_at h (root_ptr t) k"
  by (induction k t rule: plug.induct) auto

fun ctx_root_ptr :: "ptr \<Rightarrow> ptr ctx \<Rightarrow> ptr" where
  "ctx_root_ptr p [] = p"
| "ctx_root_ptr p (FL c a r # k) = ctx_root_ptr a k"
| "ctx_root_ptr p (FR l c a # k) = ctx_root_ptr a k"

lemma root_ptr_plug [simp]: "root_ptr (plug k t) = ctx_root_ptr (root_ptr t) k"
  by (induction k t rule: plug.induct) auto

lemma tree_at_upd [simp]: "a \<notin> set (nodes t) \<Longrightarrow> tree_at (h(a := v)) par t = tree_at h par t"
  by (induction t arbitrary: par) auto

lemma ctx_at_upd [simp]:
  "a \<notin> set (before k) \<Longrightarrow> a \<notin> set (after k) \<Longrightarrow> ctx_at (h(a := v)) p k = ctx_at h p k"
  by (induction h p k rule: ctx_at.induct) auto

lemma ctx_at_aligned: "ctx_at h p k \<Longrightarrow> aligned (top_ptr k)"
  by (cases k rule: top_ptr.cases) auto

definition rep :: "(ptr \<Rightarrow> rb_node) \<Rightarrow> rb_state \<Rightarrow> ptr rbt \<Rightarrow> bool" where
  "rep F s t \<longleftrightarrow>
     rb_root s = root_ptr t \<and> tree_at (rb_mem s) NULL t \<and> distinct (nodes t) \<and>
     (\<forall>a. a \<notin> set (nodes t) \<longrightarrow> rb_mem s a = F a)"


text \<open>Reading at a position.\<close>

lemma rep_position:
  assumes "rep F s (plug k (Node l c x r))"
  shows "x \<noteq> NULL" and "rb_mem s x = cell (top_ptr k) c (root_ptr l) (root_ptr r)"
    and "aligned (top_ptr k)" and "aligned x"
  using assms ctx_at_aligned by (auto simp: rep_def)

lemma rep_deref:
  assumes "rep F s (plug k (Node l c x r))"
  shows "deref s x = Some (cell (top_ptr k) c (root_ptr l) (root_ptr r))"
  using rep_position [OF assms] by (simp add: deref_def)

lemmas set_defs =
  rb_set_left_def rb_set_right_def rb_set_parent_def rb_set_color_def rb_set_red_def
  rb_set_black_def assign_def deref_def

text \<open>Painting the node at a position.\<close>

lemma rep_paint:
  assumes "rep F s (plug k (Node l c x r))"
  shows "\<exists>s'. rb_set_black x s = Some s' \<and> rep F s' (plug k (Node l Black x r))"
    and "\<exists>s'. rb_set_red x s = Some s' \<and> rep F s' (plug k (Node l Red x r))"
    and "\<exists>s'. rb_set_color x (color_bit d) s = Some s' \<and> rep F s' (plug k (Node l d x r))"
  using assms rep_position [OF assms] by (auto simp: rep_def set_defs)

lemma rep_rotate_left:
  assumes "rep F s (plug k (Node a cx x (Node b cy y c)))"
  shows "\<exists>s'. rb_rotate_left x s = Some s' \<and>
      rep F s' (plug k (Node (Node a cx x b) cy y c))"
proof -
  have al: "aligned (top_ptr k)" by (rule rep_position(3) [OF assms])
  show ?thesis
  proof (cases k rule: top_ptr.cases)
    case 1
    with assms show ?thesis
      by (cases b) (auto simp: rep_def rb_rotate_left_def set_defs)
  next
    case 2
    with assms al show ?thesis
      by (cases b) (auto simp: rep_def rb_rotate_left_def set_defs)
  next
    case 3
    with assms al show ?thesis
      by (cases b) (auto simp: rep_def rb_rotate_left_def set_defs)
  qed
qed

lemma rep_rotate_right:
  assumes "rep F s (plug k (Node (Node a cy y b) cx x c))"
  shows "\<exists>s'. rb_rotate_right x s = Some s' \<and>
      rep F s' (plug k (Node a cy y (Node b cx x c)))"
proof -
  have al: "aligned (top_ptr k)" by (rule rep_position(3) [OF assms])
  show ?thesis
  proof (cases k rule: top_ptr.cases)
    case 1
    with assms show ?thesis
      by (cases b) (auto simp: rep_def rb_rotate_right_def set_defs)
  next
    case 2
    with assms al show ?thesis
      by (cases b) (auto simp: rep_def rb_rotate_right_def set_defs)
  next
    case 3
    with assms al show ?thesis
      by (cases b) (auto simp: rep_def rb_rotate_right_def set_defs)
  qed
qed


subsection \<open>Insertion computes \<open>ins_fix\<close>\<close>

lemma red_node_rep:
  assumes "rep F s (plug k t)"
  shows "red_node s (root_ptr t) \<longleftrightarrow> is_red t" and "black_node s (root_ptr t) \<longleftrightarrow> \<not> is_red t"
  using assms rep_position [of F s k]
  by (cases t; auto simp: red_node_def black_node_def)+

lemma insert_loop_stop:
  assumes "rep F s (plug k (Node l c x r))" and "k = [] \<or> frame_color (hd k) = Black"
  shows "rb_insert_loop x s = Some s"
proof -
  have "\<not> red_node s (top_ptr k)"
  proof (cases k rule: top_ptr.cases)
    case (2 fc a fr k')
    with assms red_node_rep(1) [of F s k' "Node (Node l c x r) fc a fr"] show ?thesis by auto
  next
    case (3 fl fc a k')
    with assms red_node_rep(1) [of F s k' "Node fl fc a (Node l c x r)"] show ?thesis by auto
  qed (simp add: red_node_def)
  then show ?thesis
    using rep_deref [OF assms(1)] rep_position(3) [OF assms(1)]
    by (subst rb_insert_loop.simps) simp
qed

text \<open>What the loop body reads when the parent \<open>p\<close> is a left or a right child.\<close>

lemma left_reads:
  assumes "rep F s (plug k (Node (Node pl pc p pr) gc g u))"
  shows "deref s p = Some (cell g pc (root_ptr pl) (root_ptr pr))"
    and "deref s g = Some (cell (top_ptr k) gc p (root_ptr u))"
    and "aligned p" "aligned g" "aligned (top_ptr k)"
    and "red_node s p \<longleftrightarrow> pc = Red" "red_node s (root_ptr u) \<longleftrightarrow> is_red u"
    and "black_node s p \<longleftrightarrow> pc = Black" "black_node s (root_ptr u) \<longleftrightarrow> \<not> is_red u"
    and "root_ptr u \<noteq> p" "p \<noteq> root_ptr u" "p \<noteq> NULL" "g \<noteq> NULL"
proof -
  have L: "rep F s (plug (FL gc g u # k) (Node pl pc p pr))"
    and R: "rep F s (plug (FR (Node pl pc p pr) gc g # k) u)" using assms by simp_all
  show "deref s p = Some (cell g pc (root_ptr pl) (root_ptr pr))" using rep_deref [OF L] by simp
  show "deref s g = Some (cell (top_ptr k) gc p (root_ptr u))" using rep_deref [OF assms] by simp
  show "aligned p" "p \<noteq> NULL" by (rule rep_position [OF L])+
  show "aligned g" "aligned (top_ptr k)" "g \<noteq> NULL" by (rule rep_position [OF assms])+
  show "red_node s p \<longleftrightarrow> pc = Red" "black_node s p \<longleftrightarrow> pc = Black"
    using red_node_rep [OF L] by simp_all
  show "red_node s (root_ptr u) \<longleftrightarrow> is_red u" "black_node s (root_ptr u) \<longleftrightarrow> \<not> is_red u"
    by (rule red_node_rep [OF R])+
  have "p \<noteq> NULL" "p \<notin> set (nodes u)" using rep_position(1) [OF L] assms by (auto simp: rep_def)
  then show "root_ptr u \<noteq> p" "p \<noteq> root_ptr u" by simp_all
qed

lemma right_reads:
  assumes "rep F s (plug k (Node u gc g (Node pl pc p pr)))"
  shows "deref s p = Some (cell g pc (root_ptr pl) (root_ptr pr))"
    and "deref s g = Some (cell (top_ptr k) gc (root_ptr u) p)"
    and "aligned p" "aligned g" "aligned (top_ptr k)"
    and "red_node s p \<longleftrightarrow> pc = Red" "red_node s (root_ptr u) \<longleftrightarrow> is_red u"
    and "black_node s p \<longleftrightarrow> pc = Black" "black_node s (root_ptr u) \<longleftrightarrow> \<not> is_red u"
    and "root_ptr u \<noteq> p" "p \<noteq> root_ptr u" "p \<noteq> NULL" "g \<noteq> NULL"
proof -
  have L: "rep F s (plug (FR u gc g # k) (Node pl pc p pr))"
    and R: "rep F s (plug (FL gc g (Node pl pc p pr) # k) u)" using assms by simp_all
  show "deref s p = Some (cell g pc (root_ptr pl) (root_ptr pr))" using rep_deref [OF L] by simp
  show "deref s g = Some (cell (top_ptr k) gc (root_ptr u) p)" using rep_deref [OF assms] by simp
  show "aligned p" "p \<noteq> NULL" by (rule rep_position [OF L])+
  show "aligned g" "aligned (top_ptr k)" "g \<noteq> NULL" by (rule rep_position [OF assms])+
  show "red_node s p \<longleftrightarrow> pc = Red" "black_node s p \<longleftrightarrow> pc = Black"
    using red_node_rep [OF L] by simp_all
  show "red_node s (root_ptr u) \<longleftrightarrow> is_red u" "black_node s (root_ptr u) \<longleftrightarrow> \<not> is_red u"
    by (rule red_node_rep [OF R])+
  have "p \<noteq> NULL" "p \<notin> set (nodes u)" using rep_position(1) [OF L] assms by (auto simp: rep_def)
  then show "root_ptr u \<noteq> p" "p \<noteq> root_ptr u" by simp_all
qed

lemma plug_frame:
  obtains pl pr where "plug [f] t = Node pl (frame_color f) (top_ptr [f]) pr"
    and "\<And>k. plug (f # k) t = plug k (Node pl (frame_color f) (top_ptr [f]) pr)"
  by (cases f) auto

lemma top_ptr_single: "top_ptr (f # k) = top_ptr [f]"
  by (cases f) auto

text \<open>The red uncle: recolour and move two levels up.\<close>

lemma insert_loop_uncle_left:
  assumes rep: "rep F s (plug (f # FL gc ga (Node ul Red ux ur) # k) t)"
    and t: "t = Node l Red x r" and f: "frame_color f = Red"
  shows "\<exists>s'. rb_insert_loop x s = rb_insert_loop ga s' \<and>
      rep F s' (plug k (Node (paint Black (plug [f] t)) Red ga (Node ul Black ux ur)))"
proof -
  let ?p = "top_ptr [f]"
  obtain pl pr where p: "plug [f] t = Node pl Red ?p pr"
      "\<And>k'. plug (f # k') t = plug k' (Node pl Red ?p pr)"
    using plug_frame [of f t] f by metis
  have rep': "rep F s (plug k (Node (Node pl Red ?p pr) gc ga (Node ul Red ux ur)))"
    using rep p by simp
  have dx: "deref s x = Some (cell ?p Red (root_ptr l) (root_ptr r))"
    using rep_deref [of F s "f # FL gc ga (Node ul Red ux ur) # k" l Red x r] rep t
    by (simp only: top_ptr_single [of f "_ # _"])
  obtain s1 where s1: "rb_set_black ux s = Some s1"
      "rep F s1 (plug k (Node (Node pl Red ?p pr) gc ga (Node ul Black ux ur)))"
    using rep_paint(1) [of F s "FR (Node pl Red ?p pr) gc ga # k" ul Red ux ur] rep' by auto
  obtain s2 where s2: "rb_set_black ?p s1 = Some s2"
      "rep F s2 (plug k (Node (Node pl Black ?p pr) gc ga (Node ul Black ux ur)))"
    using rep_paint(1) [of F s1 "FL gc ga (Node ul Black ux ur) # k" pl Red ?p pr] s1 by auto
  obtain s3 where s3: "rb_set_red ga s2 = Some s3"
      "rep F s3 (plug k (Node (Node pl Black ?p pr) Red ga (Node ul Black ux ur)))"
    using rep_paint(2) [OF s2(2)] by auto
  have "rb_insert_loop x s = rb_insert_loop ga s3"
    using dx left_reads [OF rep'] s1 s2 s3 by (subst rb_insert_loop.simps) simp
  with s3 p show ?thesis by auto
qed

lemma insert_loop_uncle_right:
  assumes rep: "rep F s (plug (f # FR (Node ul Red ux ur) gc ga # k) t)"
    and t: "t = Node l Red x r" and f: "frame_color f = Red"
  shows "\<exists>s'. rb_insert_loop x s = rb_insert_loop ga s' \<and>
      rep F s' (plug k (Node (Node ul Black ux ur) Red ga (paint Black (plug [f] t))))"
proof -
  let ?p = "top_ptr [f]"
  obtain pl pr where p: "plug [f] t = Node pl Red ?p pr"
      "\<And>k'. plug (f # k') t = plug k' (Node pl Red ?p pr)"
    using plug_frame [of f t] f by metis
  have rep': "rep F s (plug k (Node (Node ul Red ux ur) gc ga (Node pl Red ?p pr)))"
    using rep p by simp
  have dx: "deref s x = Some (cell ?p Red (root_ptr l) (root_ptr r))"
    using rep_deref [of F s "f # FR (Node ul Red ux ur) gc ga # k" l Red x r] rep t
    by (simp only: top_ptr_single [of f "_ # _"])
  obtain s1 where s1: "rb_set_black ux s = Some s1"
      "rep F s1 (plug k (Node (Node ul Black ux ur) gc ga (Node pl Red ?p pr)))"
    using rep_paint(1) [of F s "FL gc ga (Node pl Red ?p pr) # k" ul Red ux ur] rep' by auto
  obtain s2 where s2: "rb_set_black ?p s1 = Some s2"
      "rep F s2 (plug k (Node (Node ul Black ux ur) gc ga (Node pl Black ?p pr)))"
    using rep_paint(1) [of F s1 "FR (Node ul Black ux ur) gc ga # k" pl Red ?p pr] s1 by auto
  obtain s3 where s3: "rb_set_red ga s2 = Some s3"
      "rep F s3 (plug k (Node (Node ul Black ux ur) Red ga (Node pl Black ?p pr)))"
    using rep_paint(2) [OF s2(2)] by auto
  have "rb_insert_loop x s = rb_insert_loop ga s3"
    using dx right_reads [OF rep'] s1 s2 s3 by (subst rb_insert_loop.simps) simp
  with s3 p show ?thesis by auto
qed

text \<open>The black uncle: rotations end the loop.\<close>

lemma insert_loop_rotate_LL:
  assumes rep: "rep F s (plug k (Node (Node (Node l Red x r) Red p pr) gc ga u))"
    and u: "\<not> is_red u"
  shows "\<exists>s'. rb_insert_loop x s = Some s' \<and>
      rep F s' (plug k (Node (Node l Red x r) Black p (Node pr Red ga u)))"
proof -
  obtain s1 where s1: "rb_set_black p s = Some s1"
      "rep F s1 (plug k (Node (Node (Node l Red x r) Black p pr) gc ga u))"
    using rep_paint(1) [of F s "FL gc ga u # k" "Node l Red x r" Red p pr] rep by auto
  obtain s2 where s2: "rb_set_red ga s1 = Some s2"
      "rep F s2 (plug k (Node (Node (Node l Red x r) Black p pr) Red ga u))"
    using rep_paint(2) [OF s1(2)] by auto
  obtain s3 where s3: "rb_rotate_right ga s2 = Some s3"
      "rep F s3 (plug k (Node (Node l Red x r) Black p (Node pr Red ga u)))"
    using rep_rotate_right [OF s2(2)] by auto
  have "rb_insert_loop x s3 = Some s3"
    using insert_loop_stop [of F s3 "FL Black p (Node pr Red ga u) # k" l Red x r] s3 by simp
  then have "rb_insert_loop x s = Some s3"
    using left_reads [OF rep] left_reads [of F s "FL gc ga u # k" l Red x r Red p pr] rep u s1 s2 s3
    by (subst rb_insert_loop.simps) simp
  with s3 show ?thesis by auto
qed

lemma insert_loop_rotate_LR:
  assumes rep: "rep F s (plug k (Node (Node pl Red p (Node l Red x r)) gc ga u))"
    and u: "\<not> is_red u"
  shows "\<exists>s'. rb_insert_loop x s = Some s' \<and>
      rep F s' (plug k (Node (Node pl Red p l) Black x (Node r Red ga u)))"
proof -
  obtain s0 where s0: "rb_rotate_left p s = Some s0"
      "rep F s0 (plug k (Node (Node (Node pl Red p l) Red x r) gc ga u))"
    using rep_rotate_left [of F s "FL gc ga u # k" pl Red p l Red x r] rep by auto
  obtain s1 where s1: "rb_set_black x s0 = Some s1"
      "rep F s1 (plug k (Node (Node (Node pl Red p l) Black x r) gc ga u))"
    using rep_paint(1) [of F s0 "FL gc ga u # k" "Node pl Red p l" Red x r] s0 by auto
  obtain s2 where s2: "rb_set_red ga s1 = Some s2"
      "rep F s2 (plug k (Node (Node (Node pl Red p l) Black x r) Red ga u))"
    using rep_paint(2) [OF s1(2)] by auto
  obtain s3 where s3: "rb_rotate_right ga s2 = Some s3"
      "rep F s3 (plug k (Node (Node pl Red p l) Black x (Node r Red ga u)))"
    using rep_rotate_right [OF s2(2)] by auto
  have "rb_insert_loop p s3 = Some s3"
    using insert_loop_stop [of F s3 "FL Black x (Node r Red ga u) # k" pl Red p l] s3 by simp
  then have "rb_insert_loop x s = Some s3"
    using left_reads [OF rep] right_reads [of F s "FL gc ga u # k" pl Red p l Red x r] rep u s0 s1 s2 s3
    by (subst rb_insert_loop.simps) simp
  with s3 show ?thesis by auto
qed

lemma insert_loop_rotate_RR:
  assumes rep: "rep F s (plug k (Node u gc ga (Node pl Red p (Node l Red x r))))"
    and u: "\<not> is_red u"
  shows "\<exists>s'. rb_insert_loop x s = Some s' \<and>
      rep F s' (plug k (Node (Node u Red ga pl) Black p (Node l Red x r)))"
proof -
  obtain s1 where s1: "rb_set_black p s = Some s1"
      "rep F s1 (plug k (Node u gc ga (Node pl Black p (Node l Red x r))))"
    using rep_paint(1) [of F s "FR u gc ga # k" pl Red p "Node l Red x r"] rep by auto
  obtain s2 where s2: "rb_set_red ga s1 = Some s2"
      "rep F s2 (plug k (Node u Red ga (Node pl Black p (Node l Red x r))))"
    using rep_paint(2) [OF s1(2)] by auto
  obtain s3 where s3: "rb_rotate_left ga s2 = Some s3"
      "rep F s3 (plug k (Node (Node u Red ga pl) Black p (Node l Red x r)))"
    using rep_rotate_left [OF s2(2)] by auto
  have "rb_insert_loop x s3 = Some s3"
    using insert_loop_stop [of F s3 "FR (Node u Red ga pl) Black p # k" l Red x r] s3 by simp
  then have "rb_insert_loop x s = Some s3"
    using right_reads [OF rep] right_reads [of F s "FR u gc ga # k" pl Red p l Red x r] rep u s1 s2 s3
    by (subst rb_insert_loop.simps) simp
  with s3 show ?thesis by auto
qed

lemma insert_loop_rotate_RL:
  assumes rep: "rep F s (plug k (Node u gc ga (Node (Node l Red x r) Red p pr)))"
    and u: "\<not> is_red u"
  shows "\<exists>s'. rb_insert_loop x s = Some s' \<and>
      rep F s' (plug k (Node (Node u Red ga l) Black x (Node r Red p pr)))"
proof -
  obtain s0 where s0: "rb_rotate_right p s = Some s0"
      "rep F s0 (plug k (Node u gc ga (Node l Red x (Node r Red p pr))))"
    using rep_rotate_right [of F s "FR u gc ga # k" l Red x r Red p pr] rep by auto
  obtain s1 where s1: "rb_set_black x s0 = Some s1"
      "rep F s1 (plug k (Node u gc ga (Node l Black x (Node r Red p pr))))"
    using rep_paint(1) [of F s0 "FR u gc ga # k" l Red x "Node r Red p pr"] s0 by auto
  obtain s2 where s2: "rb_set_red ga s1 = Some s2"
      "rep F s2 (plug k (Node u Red ga (Node l Black x (Node r Red p pr))))"
    using rep_paint(2) [OF s1(2)] by auto
  obtain s3 where s3: "rb_rotate_left ga s2 = Some s3"
      "rep F s3 (plug k (Node (Node u Red ga l) Black x (Node r Red p pr)))"
    using rep_rotate_left [OF s2(2)] by auto
  have "rb_insert_loop p s3 = Some s3"
    using insert_loop_stop [of F s3 "FR (Node u Red ga l) Black x # k" r Red p pr] s3 by simp
  then have "rb_insert_loop x s = Some s3"
    using right_reads [OF rep] left_reads [of F s "FR u gc ga # k" l Red x r Red p pr] rep u s0 s1 s2 s3
    by (subst rb_insert_loop.simps) simp
  with s3 show ?thesis by auto
qed

lemma rep_insert_loop:
  "rep F s (plug k t) \<Longrightarrow> t = Node l Red x r \<Longrightarrow> k \<noteq> [] \<longrightarrow> ctx_root Red k = Black \<Longrightarrow>
   \<exists>s' t'. rb_insert_loop x s = Some s' \<and> rep F s' t' \<and> t' \<noteq> Leaf \<and> paint Black t' = ins_fix t k"
proof (induction t k arbitrary: l x r s rule: ins_fix.induct)
  case (1 t)
  then show ?case using insert_loop_stop [of F s "[]" l Red x r] by auto
next
  case (2 t f)
  then show ?case using insert_loop_stop [of F s "[f]" l Red x r] by auto
next
  case (3 t f g k)
  have rt: "k \<noteq> [] \<longrightarrow> ctx_root Red k = Black" using "3.prems"(3) by (cases k) auto
  show ?case
  proof (cases "frame_color f = Black")
    case True
    with "3.prems" insert_loop_stop [of F s "f # g # k" l Red x r] show ?thesis by auto
  next
    case False
    then have fr: "frame_color f = Red" by simp
    show ?thesis
    proof (cases g)
      case (FL gc ga u)
      show ?thesis
      proof (cases "is_red u")
        case True
        then obtain ul ux ur where u: "u = Node ul Red ux ur" by (cases u) auto
        have "rep F s (plug (f # FL gc ga (Node ul Red ux ur) # k) t)"
          using "3.prems"(1) FL u by simp
        from insert_loop_uncle_left [OF this "3.prems"(2) fr] u
        obtain s' where s': "rb_insert_loop x s = rb_insert_loop ga s'"
            "rep F s' (plug k (Node (paint Black (plug [f] t)) Red ga (paint Black u)))" by auto
        from "3.IH"(1) [OF False FL True s'(2) refl rt] s'(1) show ?thesis
          using FL True fr by simp
      next
        case nu: False
        with "3.prems" FL fr insert_loop_rotate_LL insert_loop_rotate_LR show ?thesis
          by (cases f) fastforce+
      qed
    next
      case (FR u gc ga)
      show ?thesis
      proof (cases "is_red u")
        case True
        then obtain ul ux ur where u: "u = Node ul Red ux ur" by (cases u) auto
        have "rep F s (plug (f # FR (Node ul Red ux ur) gc ga # k) t)"
          using "3.prems"(1) FR u by simp
        from insert_loop_uncle_right [OF this "3.prems"(2) fr] u
        obtain s' where s': "rb_insert_loop x s = rb_insert_loop ga s'"
            "rep F s' (plug k (Node (paint Black u) Red ga (paint Black (plug [f] t))))" by auto
        from "3.IH"(2) [OF False FR True s'(2) refl rt] s'(1) show ?thesis
          using FR True fr by simp
      next
        case nu: False
        with "3.prems" FR fr insert_loop_rotate_RR insert_loop_rotate_RL show ?thesis
          by (cases f) fastforce+
      qed
    qed
  qed
qed

lemma rep_paint_root:
  assumes "rep F s t" and "t \<noteq> Leaf"
  shows "\<exists>s'. rb_set_black (rb_root s) s = Some s' \<and> rep F s' (paint Black t)"
proof -
  from assms obtain l c x r where t: "t = Node l c x r" by (cases t) auto
  with assms have "rb_root s = x" by (simp add: rep_def)
  with assms t rep_paint(1) [of F s "[]" l c x r] show ?thesis by simp
qed

theorem rep_insert_color:
  assumes "rep F s (plug k (Node l Red x r))" and "k \<noteq> [] \<longrightarrow> ctx_root Red k = Black"
  shows "\<exists>s'. rb_insert_color x s = Some s' \<and> rep F s' (ins_fix (Node l Red x r) k)"
proof -
  from rep_insert_loop [OF assms(1) refl assms(2)] obtain s1 t' where
    s1: "rb_insert_loop x s = Some s1" "rep F s1 t'" "t' \<noteq> Leaf" "paint Black t' = ins_fix (Node l Red x r) k"
    by blast
  from rep_paint_root [OF s1(2,3)] obtain s2 where
    "rb_set_black (rb_root s1) s1 = Some s2" "rep F s2 (paint Black t')" by blast
  with s1 show ?thesis by (auto simp: rb_insert_color_def)
qed

text \<open>Linking a fresh node at an empty position.\<close>

fun link_of :: "ptr ctx \<Rightarrow> rb_link" where
  "link_of [] = RootLink"
| "link_of (FL c a r # k) = LeftLink a"
| "link_of (FR l c a # k) = RightLink a"

lemma pack_Red: "pack p Red = p"
  by (simp add: pack_def)

lemma rep_link_node:
  assumes rep: "rep F s (plug k Leaf)"
    and x: "x \<noteq> NULL" "aligned x" "x \<notin> set (before k)" "x \<notin> set (after k)"
  shows "\<exists>s'. rb_link_node x (top_ptr k) (link_of k) s = Some s' \<and>
      rep F s' (plug k (Node Leaf Red x Leaf))"
proof -
  have c: "n\<lparr>rb_parent_color := top_ptr k, rb_left := NULL, rb_right := NULL\<rparr> = cell (top_ptr k) Red NULL NULL" for n
    by (simp add: cell_def pack_Red)
  show ?thesis
  proof (cases k rule: top_ptr.cases)
    case 1
    with rep x c show ?thesis
      by (auto simp: rep_def rb_link_node_def assign_def)
  next
    case 2
    with rep x c show ?thesis
      by (auto simp: rep_def rb_link_node_def set_defs)
  next
    case 3
    with rep x c show ?thesis
      by (auto simp: rep_def rb_link_node_def set_defs)
  qed
qed

subsection \<open>Deletion computes \<open>rb_erase_at\<close>\<close>

text \<open>The end of the loop body: the recolouring and the rotation at the parent.\<close>

lemma erase_final_left:
  assumes rep: "rep F s (plug k (Node t pc p (Node ol oc q (Node a c y b))))"
  shows "\<exists>s1 s2 s3 s'. rb_set_color q (color_bit pc) s = Some s1 \<and> rb_set_black p s1 = Some s2 \<and>
      deref s2 q = Some (cell p pc (root_ptr ol) y) \<and> rb_set_black y s2 = Some s3 \<and>
      rb_rotate_left p s3 = Some s' \<and>
      rep F s' (plug k (Node (Node t Black p ol) pc q (Node a Black y b)))"
proof -
  obtain s1 where s1: "rb_set_color q (color_bit pc) s = Some s1"
      "rep F s1 (plug k (Node t pc p (Node ol pc q (Node a c y b))))"
    using rep_paint(3) [of F s "FR t pc p # k" ol oc q "Node a c y b"] rep by auto
  obtain s2 where s2: "rb_set_black p s1 = Some s2"
      "rep F s2 (plug k (Node t Black p (Node ol pc q (Node a c y b))))"
    using rep_paint(1) [OF s1(2)] by auto
  have d: "deref s2 q = Some (cell p pc (root_ptr ol) y)"
    using rep_deref [of F s2 "FR t Black p # k" ol pc q "Node a c y b"] s2 by simp
  obtain s3 where s3: "rb_set_black y s2 = Some s3"
      "rep F s3 (plug k (Node t Black p (Node ol pc q (Node a Black y b))))"
    using rep_paint(1) [of F s2 "FR ol pc q # FR t Black p # k" a c y b] s2 by auto
  from rep_rotate_left [OF s3(2)] s1 s2 s3 d show ?thesis by fastforce
qed

lemma erase_final_right:
  assumes rep: "rep F s (plug k (Node (Node (Node a c y b) oc q r) pc p t))"
  shows "\<exists>s1 s2 s3 s'. rb_set_color q (color_bit pc) s = Some s1 \<and> rb_set_black p s1 = Some s2 \<and>
      deref s2 q = Some (cell p pc y (root_ptr r)) \<and> rb_set_black y s2 = Some s3 \<and>
      rb_rotate_right p s3 = Some s' \<and>
      rep F s' (plug k (Node (Node a Black y b) pc q (Node r Black p t)))"
proof -
  obtain s1 where s1: "rb_set_color q (color_bit pc) s = Some s1"
      "rep F s1 (plug k (Node (Node (Node a c y b) pc q r) pc p t))"
    using rep_paint(3) [of F s "FL pc p t # k" "Node a c y b" oc q r] rep by auto
  obtain s2 where s2: "rb_set_black p s1 = Some s2"
      "rep F s2 (plug k (Node (Node (Node a c y b) pc q r) Black p t))"
    using rep_paint(1) [OF s1(2)] by auto
  have d: "deref s2 q = Some (cell p pc y (root_ptr r))"
    using rep_deref [of F s2 "FL Black p t # k" "Node a c y b" pc q r] s2 by simp
  obtain s3 where s3: "rb_set_black y s2 = Some s3"
      "rep F s3 (plug k (Node (Node (Node a Black y b) pc q r) Black p t))"
    using rep_paint(1) [of F s2 "FL pc q r # FL Black p t # k" a c y b] s2 by auto
  from rep_rotate_right [OF s3(2)] s1 s2 s3 d show ?thesis by fastforce
qed


lemma ctx_root_ptr_in: "k \<noteq> [] \<Longrightarrow> ctx_root_ptr p k \<in> set (before k) \<union> set (after k)"
  by (induction p k rule: ctx_root_ptr.induct) (fastforce split: list.splits)+

lemma tree_at_nonnull: "tree_at h p t \<Longrightarrow> NULL \<notin> set (nodes t)"
  by (induction t arbitrary: p) auto

lemma rep_nonnull: "rep F s t \<Longrightarrow> NULL \<notin> set (nodes t)"
  by (auto simp: rep_def dest: tree_at_nonnull)

lemma root_ptr_in: "root_ptr t = NULL \<or> root_ptr t \<in> set (nodes t)"
  by (cases t) auto

lemma rep_not_root:
  assumes "rep F s (plug k t)" and "k \<noteq> []"
  shows "root_ptr t \<noteq> rb_root s"
  using assms ctx_root_ptr_in [OF assms(2), of "root_ptr t"] root_ptr_in [of t]
    rep_nonnull [OF assms(1)]
  by (auto simp: rep_def)

text \<open>A red sibling is turned into a black one; the loop body then goes on as from its start.\<close>

lemma erase_loop_red_left:
  assumes rep: "rep F s (plug k (Node t pc p (Node (Node ll Black q lr) Red y r)))"
    and t: "\<not> is_red t"
  shows "\<exists>s'. rb_erase_loop (root_ptr t) p s = rb_erase_loop (root_ptr t) p s' \<and>
      rep F s' (plug k (Node (Node t Red p (Node ll Black q lr)) Black y r))"
proof -
  let ?l = "Node ll Black q lr"
  obtain s1 where s1: "rb_set_black y s = Some s1" "rep F s1 (plug k (Node t pc p (Node ?l Black y r)))"
    using rep_paint(1) [of F s "FR t pc p # k" ?l Red y r] rep by auto
  obtain s2 where s2: "rb_set_red p s1 = Some s2" "rep F s2 (plug k (Node t Red p (Node ?l Black y r)))"
    using rep_paint(2) [OF s1(2)] by auto
  obtain s3 where s3: "rb_rotate_left p s2 = Some s3" "rep F s3 (plug k (Node (Node t Red p ?l) Black y r))"
    using rep_rotate_left [OF s2(2)] by auto
  have t3: "rep F s3 (plug (FL Black y r # k) (Node t Red p ?l))" using s3 by simp
  have n: "root_ptr t \<noteq> rb_root s" "root_ptr t \<noteq> rb_root s3"
    using rep_not_root [of F s "FL pc p (Node ?l Red y r) # k" t]
      rep_not_root [of F s3 "FL Red p ?l # FL Black y r # k" t] rep s3 by simp_all
  have "rb_erase_loop (root_ptr t) p s = rb_erase_loop (root_ptr t) p s3"
    using n t right_reads [OF rep] right_reads [OF t3] s1(1) s2(1) s3(1)
    by (simp add: rb_erase_loop.simps [of "root_ptr t" p s] rb_erase_loop.simps [of "root_ptr t" p s3])
  with s3 show ?thesis by auto
qed

lemma erase_loop_red_right:
  assumes rep: "rep F s (plug k (Node (Node l Red y (Node ll Black q lr)) pc p t))"
    and t: "\<not> is_red t"
  shows "\<exists>s'. rb_erase_loop (root_ptr t) p s = rb_erase_loop (root_ptr t) p s' \<and>
      rep F s' (plug k (Node l Black y (Node (Node ll Black q lr) Red p t)))"
proof -
  let ?r = "Node ll Black q lr"
  obtain s1 where s1: "rb_set_black y s = Some s1" "rep F s1 (plug k (Node (Node l Black y ?r) pc p t))"
    using rep_paint(1) [of F s "FL pc p t # k" l Red y ?r] rep by auto
  obtain s2 where s2: "rb_set_red p s1 = Some s2" "rep F s2 (plug k (Node (Node l Black y ?r) Red p t))"
    using rep_paint(2) [OF s1(2)] by auto
  obtain s3 where s3: "rb_rotate_right p s2 = Some s3" "rep F s3 (plug k (Node l Black y (Node ?r Red p t)))"
    using rep_rotate_right [OF s2(2)] by auto
  have t3: "rep F s3 (plug (FR l Black y # k) (Node ?r Red p t))" using s3 by simp
  have n: "root_ptr t \<noteq> rb_root s" "root_ptr t \<noteq> rb_root s3"
    using rep_not_root [of F s "FR (Node l Red y ?r) pc p # k" t]
      rep_not_root [of F s3 "FR ?r Red p # FR l Black y # k" t] rep s3 by simp_all
  have "rb_erase_loop (root_ptr t) p s = rb_erase_loop (root_ptr t) p s3"
    using n t left_reads [OF rep] left_reads [OF t3] s1(1) s2(1) s3(1)
    by (simp add: rb_erase_loop.simps [of "root_ptr t" p s] rb_erase_loop.simps [of "root_ptr t" p s3])
  with s3 show ?thesis by auto
qed

lemma erase_color_root:
  "rb_erase_loop node parent s = Some (rb_root s', s') \<Longrightarrow> rep F s' t \<Longrightarrow> t \<noteq> Leaf \<Longrightarrow>
   \<exists>s''. rb_erase_color node parent s = Some s'' \<and> rep F s'' (paint Black t)"
proof -
  assume a: "rb_erase_loop node parent s = Some (rb_root s', s')" "rep F s' t" "t \<noteq> Leaf"
  then have "rb_root s' \<noteq> NULL" using rep_nonnull [OF a(2)] by (cases t) (auto simp: rep_def)
  with a rep_paint_root [OF a(2,3)] show ?thesis by (auto simp: rb_erase_color_def)
qed

definition erase_goal :: "(ptr \<Rightarrow> rb_node) \<Rightarrow> ptr \<Rightarrow> ptr \<Rightarrow> rb_state \<Rightarrow> ptr rbt + ptr rbt \<times> ptr ctx \<Rightarrow> bool" where
  "erase_goal F node parent s x \<longleftrightarrow>
     (case x of
        Inl t' \<Rightarrow> \<exists>s'. rb_erase_color node parent s = Some s' \<and> rep F s' t'
      | Inr (t', k') \<Rightarrow>
          \<exists>s'. rb_erase_color node parent s = rb_erase_color (root_ptr t') (top_ptr k') s' \<and>
            rep F s' (plug k' t'))"

lemma erase_goal_cong:
  assumes "rb_erase_loop n p s = rb_erase_loop n p s'"
  shows "erase_goal F n p s x = erase_goal F n p s' x"
proof -
  have "rb_erase_color n p s = rb_erase_color n p s'" by (simp add: rb_erase_color_def assms)
  then show ?thesis by (cases x) (auto simp: erase_goal_def)
qed

text \<open>A black sibling, the node being a left child.\<close>

lemma erase_black_left:
  assumes rep: "rep F s (plug k (Node t pc p (Node ol Black q r)))" and t: "\<not> is_red t"
  shows "erase_goal F (root_ptr t) p s (del_left t pc p (Node ol Black q r) k)"
proof -
  let ?s = "Node ol Black q r"
  have n: "root_ptr t \<noteq> rb_root s" using rep_not_root [of F s "FL pc p ?s # k" t] rep by simp
  note reads = right_reads [OF rep] rep_deref [of F s "FR t pc p # k" ol Black q r]
    red_node_rep [of F s "FL Black q r # FR t pc p # k" ol]
    red_node_rep [of F s "FR ol Black q # FR t pc p # k" r]
  show ?thesis
  proof (cases "is_red r")
    case True
    then obtain a y b where r: "r = Node a Red y b" by (cases r) auto
    from erase_final_left [of F s k t pc p ol Black q a Red y b] rep r obtain s1 s2 s3 s' where
      f: "rb_set_color q (color_bit pc) s = Some s1" "rb_set_black p s1 = Some s2"
        "deref s2 q = Some (cell p pc (root_ptr ol) y)" "rb_set_black y s2 = Some s3"
        "rb_rotate_left p s3 = Some s'" "rep F s' (plug k (Node (Node t Black p ol) pc q (Node a Black y b)))"
      by blast
    have "rb_erase_loop (root_ptr t) p s = Some (rb_root s', s')"
      using n t reads rep r f by (subst rb_erase_loop.simps) simp
    from erase_color_root [OF this f(6)] r show ?thesis
      by (auto simp: erase_goal_def del_left.simps)
  next
    case nr: False
    show ?thesis
    proof (cases "is_red ol")
      case True
      then obtain a y b where ol: "ol = Node a Red y b" by (cases ol) auto
      obtain s1 where s1: "rb_set_black y s = Some s1"
          "rep F s1 (plug k (Node t pc p (Node (Node a Black y b) Black q r)))"
        using rep_paint(1) [of F s "FL Black q r # FR t pc p # k" a Red y b] rep ol by auto
      obtain s2 where s2: "rb_set_red q s1 = Some s2"
          "rep F s2 (plug k (Node t pc p (Node (Node a Black y b) Red q r)))"
        using rep_paint(2) [of F s1 "FR t pc p # k" "Node a Black y b" Black q r] s1 by auto
      obtain s3 where s3: "rb_rotate_right q s2 = Some s3"
          "rep F s3 (plug k (Node t pc p (Node a Black y (Node b Red q r))))"
        using rep_rotate_right [of F s2 "FR t pc p # k" a Black y b Red q r] s2 by auto
      from erase_final_left [OF s3(2)] obtain s4 s5 s6 s' where
        f: "rb_set_color y (color_bit pc) s3 = Some s4" "rb_set_black p s4 = Some s5"
          "deref s5 y = Some (cell p pc (root_ptr a) q)" "rb_set_black q s5 = Some s6"
          "rb_rotate_left p s6 = Some s'" "rep F s' (plug k (Node (Node t Black p a) pc y (Node b Black q r)))"
        by blast
      have "rb_erase_loop (root_ptr t) p s = Some (rb_root s', s')"
        using n t reads rep ol nr s1(1) s2(1) s3(1) right_reads [OF s3(2)] f
        by (subst rb_erase_loop.simps) simp
      from erase_color_root [OF this f(6)] ol nr show ?thesis
        by (auto simp: erase_goal_def del_left.simps)
    next
      case nl: False
      obtain s1 where s1: "rb_set_red q s = Some s1" "rep F s1 (plug k (Node t pc p (Node ol Red q r)))"
        using rep_paint(2) [of F s "FR t pc p # k" ol Black q r] rep by auto
      have "rb_erase_loop (root_ptr t) p s = rb_erase_loop p (top_ptr k) s1"
        using n t reads rep nl nr s1(1) right_reads [OF s1(2)] by (subst rb_erase_loop.simps) simp
      with s1 nl nr show ?thesis
        by (auto simp: erase_goal_def del_left.simps rb_erase_color_def)
    qed
  qed
qed

text \<open>The mirror image: the node is a right child.\<close>

lemma erase_black_right:
  assumes rep: "rep F s (plug k (Node (Node l Black q r) pc p t))" and t: "\<not> is_red t"
  shows "erase_goal F (root_ptr t) p s (del_right (Node l Black q r) pc p t k)"
proof -
  let ?s = "Node l Black q r"
  have n: "root_ptr t \<noteq> rb_root s" using rep_not_root [of F s "FR ?s pc p # k" t] rep by simp
  note reads = left_reads [OF rep] rep_deref [of F s "FL pc p t # k" l Black q r]
    red_node_rep [of F s "FL Black q r # FL pc p t # k" l]
    red_node_rep [of F s "FR l Black q # FL pc p t # k" r]
  show ?thesis
  proof (cases "is_red l")
    case True
    then obtain a y b where l: "l = Node a Red y b" by (cases l) auto
    from erase_final_right [of F s k a Red y b Black q r pc p t] rep l obtain s1 s2 s3 s' where
      f: "rb_set_color q (color_bit pc) s = Some s1" "rb_set_black p s1 = Some s2"
        "deref s2 q = Some (cell p pc y (root_ptr r))" "rb_set_black y s2 = Some s3"
        "rb_rotate_right p s3 = Some s'" "rep F s' (plug k (Node (Node a Black y b) pc q (Node r Black p t)))"
      by blast
    have "rb_erase_loop (root_ptr t) p s = Some (rb_root s', s')"
      using n t reads rep l f by (subst rb_erase_loop.simps) simp
    from erase_color_root [OF this f(6)] l show ?thesis
      by (auto simp: erase_goal_def del_right.simps)
  next
    case nl: False
    show ?thesis
    proof (cases "is_red r")
      case True
      then obtain a y b where r: "r = Node a Red y b" by (cases r) auto
      obtain s1 where s1: "rb_set_black y s = Some s1"
          "rep F s1 (plug k (Node (Node l Black q (Node a Black y b)) pc p t))"
        using rep_paint(1) [of F s "FR l Black q # FL pc p t # k" a Red y b] rep r by auto
      obtain s2 where s2: "rb_set_red q s1 = Some s2"
          "rep F s2 (plug k (Node (Node l Red q (Node a Black y b)) pc p t))"
        using rep_paint(2) [of F s1 "FL pc p t # k" l Black q "Node a Black y b"] s1 by auto
      obtain s3 where s3: "rb_rotate_left q s2 = Some s3"
          "rep F s3 (plug k (Node (Node (Node l Red q a) Black y b) pc p t))"
        using rep_rotate_left [of F s2 "FL pc p t # k" l Red q a Black y b] s2 by auto
      from erase_final_right [OF s3(2)] obtain s4 s5 s6 s' where
        f: "rb_set_color y (color_bit pc) s3 = Some s4" "rb_set_black p s4 = Some s5"
          "deref s5 y = Some (cell p pc q (root_ptr b))" "rb_set_black q s5 = Some s6"
          "rb_rotate_right p s6 = Some s'" "rep F s' (plug k (Node (Node l Black q a) pc y (Node b Black p t)))"
        by blast
      have "rb_erase_loop (root_ptr t) p s = Some (rb_root s', s')"
        using n t reads rep r nl s1(1) s2(1) s3(1) left_reads [OF s3(2)] f
        by (subst rb_erase_loop.simps) simp
      from erase_color_root [OF this f(6)] r nl show ?thesis
        by (auto simp: erase_goal_def del_right.simps)
    next
      case nr: False
      obtain s1 where s1: "rb_set_red q s = Some s1" "rep F s1 (plug k (Node (Node l Red q r) pc p t))"
        using rep_paint(2) [of F s "FL pc p t # k" l Black q r] rep by auto
      have "rb_erase_loop (root_ptr t) p s = rb_erase_loop p (top_ptr k) s1"
        using n t reads rep nl nr s1(1) left_reads [OF s1(2)] by (subst rb_erase_loop.simps) simp
      with s1 nl nr show ?thesis
        by (auto simp: erase_goal_def del_right.simps rb_erase_color_def)
    qed
  qed
qed

text \<open>The invariant makes the siblings that the loop dereferences exist.\<close>

lemma bh_Suc_Node: "bh t = Suc n \<Longrightarrow> \<exists>l c x r. t = Node l c x r"
  by (cases t) auto

lemma erase_step:
  assumes rep: "rep F s (plug (f # k) t)" and pre: "del_pre t (f # k)" and t: "\<not> is_red t"
  shows "erase_goal F (root_ptr t) (top_ptr (f # k)) s (del_step t f k)"
proof (cases f)
  case (FL pc p sib)
  with pre obtain l c y r where sib: "sib = Node l c y r" using bh_Suc_Node by (fastforce simp: del_pre_def)
  show ?thesis
  proof (cases c)
    case Black
    with FL sib rep t erase_black_left [of F s k t pc p l y r] show ?thesis by (simp add: del_step_def)
  next
    case Red
    with pre FL sib obtain ll q lr where l: "l = Node ll Black q lr"
      using bh_Suc_Node [of l "bh t"] by (fastforce simp: del_pre_def)
    from erase_loop_red_left [of F s k t pc p ll q lr y r] rep FL sib Red l t obtain s' where
      s': "rb_erase_loop (root_ptr t) p s = rb_erase_loop (root_ptr t) p s'"
        "rep F s' (plug (FL Black y r # k) (Node t Red p l))" by auto
    from erase_black_left [of F s' "FL Black y r # k" t Red p ll q lr] s'(2) l t
    have "erase_goal F (root_ptr t) p s' (del_left t Red p l (FL Black y r # k))" by simp
    with erase_goal_cong [OF s'(1)] FL sib Red show ?thesis by (simp add: del_step_def)
  qed
next
  case (FR sib pc p)
  with pre obtain l c y r where sib: "sib = Node l c y r" using bh_Suc_Node by (fastforce simp: del_pre_def)
  show ?thesis
  proof (cases c)
    case Black
    with FR sib rep t erase_black_right [of F s k l y r pc p t] show ?thesis by (simp add: del_step_def)
  next
    case Red
    with pre FR sib obtain ll q lr where r: "r = Node ll Black q lr"
      using bh_Suc_Node [of r "bh t"] by (fastforce simp: del_pre_def)
    from erase_loop_red_right [of F s k l y ll q lr pc p t] rep FR sib Red r t obtain s' where
      s': "rb_erase_loop (root_ptr t) p s = rb_erase_loop (root_ptr t) p s'"
        "rep F s' (plug (FR l Black y # k) (Node r Red p t))" by auto
    from erase_black_right [of F s' "FR l Black y # k" ll q lr Red p t] s'(2) r t
    have "erase_goal F (root_ptr t) p s' (del_right r Red p t (FR l Black y # k))" by simp
    with erase_goal_cong [OF s'(1)] FR sib Red show ?thesis by (simp add: del_step_def)
  qed
qed

lemma rep_erase_color:
  "rep F s (plug k t) \<Longrightarrow> del_pre t k \<Longrightarrow>
   \<exists>s'. rb_erase_color (root_ptr t) (top_ptr k) s = Some s' \<and> rep F s' (del_fix t k)"
proof (induction t k arbitrary: s rule: del_fix.induct)
  case (1 t)
  then have "root_ptr t = rb_root s" by (simp add: rep_def)
  then have lp: "rb_erase_loop (root_ptr t) NULL s = Some (rb_root s, s)"
    by (subst rb_erase_loop.simps) simp
  show ?case
  proof (cases t)
    case Leaf
    with 1 lp show ?thesis by (simp add: rb_erase_color_def rep_def)
  next
    case Node
    with erase_color_root [OF lp, of F t] 1 show ?thesis by simp
  qed
next
  case (2 t f k)
  show ?case
  proof (cases "is_red t")
    case True
    then obtain l x r where t: "t = Node l Red x r" by (cases t) auto
    have "\<not> black_node s (root_ptr t)" using red_node_rep(2) [OF "2.prems"(1)] True by simp
    then have "rb_erase_loop (root_ptr t) (top_ptr (f # k)) s = Some (root_ptr t, s)"
      by (subst rb_erase_loop.simps) simp
    moreover have "x \<noteq> NULL" using rep_position(1) [of F s "f # k" l Red x r] "2.prems" t by simp
    ultimately show ?thesis
      using rep_paint(1) [of F s "f # k" l Red x r] "2.prems" t by (auto simp: rb_erase_color_def)
  next
    case False
    note step = erase_step [OF "2.prems" False]
    have post: "del_post (del_step t f k)" using del_step_inv "2.prems"(2) False by auto
    show ?thesis
    proof (cases "del_step t f k")
      case (Inl t')
      with step False show ?thesis by (simp add: erase_goal_def)
    next
      case (Inr p)
      obtain t' k' where p: "p = (t', k')" by (cases p)
      from step Inr p obtain s' where
        s': "rb_erase_color (root_ptr t) (top_ptr (f # k)) s = rb_erase_color (root_ptr t') (top_ptr k') s'"
          "rep F s' (plug k' t')" by (auto simp: erase_goal_def)
      have "del_pre t' k'" using post Inr p by (simp add: del_post_def)
      from "2.IH" [OF False Inr p [symmetric] s'(2) this] s'(1) Inr p False show ?thesis by simp
    qed
  qed
qed

text \<open>The pointer surgery of \<open>rb_erase\<close> before the recolouring.\<close>

lemma rep_leftmost:
  "rep F s (plug k (Node l c x r)) \<Longrightarrow> min_pos l c x r k = (k', mc, m, mr) \<Longrightarrow>
   rb_leftmost s x = Some m"
proof (induction l c x r k rule: min_pos.induct)
  case (1 c a r k)
  then show ?case using rep_deref [OF 1(1)] by (subst rb_leftmost.simps) simp
next
  case (2 l' c' a' r' c a r k)
  have "a' \<noteq> NULL" using rep_position(1) [of F s "FL c a r # k" l' c' a' r'] 2 by simp
  with 2 rep_deref [OF "2.prems"(1)] show ?case by (subst rb_leftmost.simps) simp
qed

text \<open>
  The subtree at a position replaced by another one that hangs outside the tree: the child
  pointer that led to the old one is overwritten.
\<close>

lemma replace_child:
  assumes "ctx_at (rb_mem s) x k" and "x \<noteq> NULL" and "x \<notin> set (before k) \<union> set (after k)"
    and "distinct (before k @ after k)" and "rb_root s = ctx_root_ptr x k"
  shows "\<exists>s'. rb_replace_child (top_ptr k) x y s = Some s' \<and> ctx_at (rb_mem s') y k \<and>
      rb_root s' = ctx_root_ptr y k \<and> (\<forall>a. a \<notin> set (before k) \<union> set (after k) \<longrightarrow> rb_mem s' a = rb_mem s a)
      \<and> (\<forall>t p. set (nodes t) \<inter> (set (before k) \<union> set (after k)) = {} \<longrightarrow>
            tree_at (rb_mem s') p t = tree_at (rb_mem s) p t)"
proof (cases k rule: top_ptr.cases)
  case 1
  with assms show ?thesis by (simp add: rb_replace_child_def)
next
  case 2
  with assms show ?thesis by (auto simp: rb_replace_child_def set_defs)
next
  case 3
  with assms show ?thesis by (auto simp: rb_replace_child_def set_defs)
qed

lemma rep_unlink:
  assumes "rep F s (plug k (Node l c x r))" and "l = Leaf \<or> r = Leaf"
    and "t = (if l = Leaf then r else l)"
  shows "\<exists>s1 s2. (if root_ptr t \<noteq> NULL then rb_set_parent (root_ptr t) (top_ptr k) s else Some s) = Some s1 \<and>
      rb_replace_child (top_ptr k) x (root_ptr t) s1 = Some s2 \<and>
      rep (F(x := rb_mem s x)) s2 (plug k t)"
proof -
  have al: "aligned (top_ptr k)" by (rule rep_position(3) [OF assms(1)])
  show ?thesis
  proof (cases k rule: top_ptr.cases)
    case 1
    with assms al show ?thesis
      by (cases t) (auto simp: rep_def rb_replace_child_def set_defs split: if_splits)
  next
    case 2
    with assms al show ?thesis
      by (cases t) (auto simp: rep_def rb_replace_child_def set_defs split: if_splits)
  next
    case 3
    with assms al show ?thesis
      by (cases t) (auto simp: rep_def rb_replace_child_def set_defs split: if_splits)
  qed
qed


text \<open>An update of another cell commutes with storing the child pointer.\<close>

lemma replace_commute:
  assumes "rb_replace_child p old new s = Some s1" and "assign q f s = Some s'" and "p \<noteq> q"
  shows "\<exists>s1'. assign q f s1 = Some s1' \<and> rb_replace_child p old new s' = Some s1'"
  using assms by (auto simp: rb_replace_child_def set_defs fun_upd_twist split: if_splits)

lemma replace_total: "\<exists>s1. rb_replace_child p old new s = Some s1"
  by (simp add: rb_replace_child_def set_defs)

lemma replace_deref:
  "rb_replace_child p old new s = Some s1 \<Longrightarrow> p \<noteq> q \<Longrightarrow> deref s1 q = deref s q"
  by (auto simp: rb_replace_child_def set_defs split: if_splits)

text \<open>A cell outside the tree takes the place of a node that has two children.\<close>

definition rb_take_place :: "ptr \<Rightarrow> ptr \<Rightarrow> rb_state \<Rightarrow> rb_state option" where
  "rb_take_place old node s = do {
     o1 \<leftarrow> deref s old;
     s \<leftarrow> rb_set_right node (rb_right o1) s;
     s \<leftarrow> rb_set_parent (rb_right o1) node s;
     o2 \<leftarrow> deref s old;
     s \<leftarrow> assign node (\<lambda>m. m\<lparr>rb_parent_color := rb_parent_color o2\<rparr>) s;
     s \<leftarrow> rb_set_left node (rb_left o2) s;
     rb_set_parent (rb_left o2) node s
   }"

lemma cell_pc [simp]: "rb_parent_color (cell p c l r) = pack p c"
  by (simp add: cell_def)

lemma cell_eta: "n\<lparr>rb_right := r, rb_parent_color := pack p c, rb_left := l\<rparr> = cell p c l r"
  by (simp add: cell_def)

lemma take_place_store:
  assumes "h = rb_mem u" and "h x = cell p c y z" and "h y = cell x cy ly ry" and "h z = cell x cz lz rz"
    and "distinct [x, y, z, m]" and "NULL \<notin> {x, y, z, m}" and "aligned x"
  shows "rb_take_place x m u =
      Some (u\<lparr>rb_mem := h(m := cell p c y z, z := cell m cz lz rz, y := cell m cy ly ry)\<rparr>)"
  using assms by (auto simp: rb_take_place_def set_defs cell_eta fun_upd_twist)

lemma rep_take_place:
  assumes rep: "rep F u (plug k (Node l c x r))" and l: "l = Node l1 l2 l3 l4" and r: "r = Node r1 r2 r3 r4"
    and m: "m \<noteq> NULL" "aligned m" "m \<notin> set (nodes (plug k (Node l c x r)))"
  shows "\<exists>u1 s'. rb_replace_child (top_ptr k) x m u = Some u1 \<and> rb_take_place x m u1 = Some s' \<and>
      rep (F(x := rb_mem u x)) s' (plug k (Node l c m r))"
proof -
  have "ctx_at (rb_mem u) x k" "x \<noteq> NULL" "x \<notin> set (before k) \<union> set (after k)"
    "distinct (before k @ after k)" "rb_root u = ctx_root_ptr x k"
    using rep by (auto simp: rep_def)
  from replace_child [OF this, of m] obtain u1 where
    u1: "rb_replace_child (top_ptr k) x m u = Some u1" "ctx_at (rb_mem u1) m k" "rb_root u1 = ctx_root_ptr m k"
    and fr: "\<And>a. a \<notin> set (before k) \<union> set (after k) \<Longrightarrow> rb_mem u1 a = rb_mem u a"
    and tr: "\<And>t p. set (nodes t) \<inter> (set (before k) \<union> set (after k)) = {} \<Longrightarrow>
            tree_at (rb_mem u1) p t = tree_at (rb_mem u) p t" by blast
  have d: "distinct (nodes (plug k (Node l c x r)))" using rep by (simp add: rep_def)
  have t: "tree_at (rb_mem u1) (top_ptr k) (Node l c x r)"
    using rep d by (subst tr) (auto simp: rep_def)
  then have s: "rb_take_place x m u1 = Some (u1\<lparr>rb_mem := (rb_mem u1)(m := cell (top_ptr k) c l3 r3,
      r3 := cell m r2 (root_ptr r1) (root_ptr r4), l3 := cell m l2 (root_ptr l1) (root_ptr l4))\<rparr>)"
    using m d l r by (intro take_place_store) auto
  moreover have "rep (F(x := rb_mem u x)) (the (rb_take_place x m u1)) (plug k (Node l c m r))"
  proof -
    have "rb_mem u1 a = F a" if "a \<notin> set (nodes (plug k (Node l c x r)))" for a
      using that rep fr [of a] by (auto simp: rep_def)
    moreover have "rb_mem u1 x = rb_mem u x" using d by (intro fr) auto
    ultimately show ?thesis using s t u1 m d l r by (auto simp: rep_def)
  qed
  ultimately show ?thesis using u1 by auto
qed


lemma top_ptr_in: "k \<noteq> [] \<Longrightarrow> top_ptr k \<in> set (before k) \<union> set (after k)"
  by (cases k rule: top_ptr.cases) auto

lemma top_ptr_append: "k \<noteq> [] \<Longrightarrow> top_ptr (k @ k') = top_ptr k"
  by (cases k rule: top_ptr.cases) auto

text \<open>The surgery for a node with two children: the successor is the right child.\<close>

lemma rep_swap_child:
  assumes rep: "rep F s (plug k (Node l c x (Node Leaf mc m mr)))" and l: "l = Node l1 l2 l3 l4"
  shows "\<exists>s1 s2 s3 s'. rb_replace_child (top_ptr k) x m s = Some s1 \<and>
      deref s1 m = Some (cell x mc NULL (root_ptr mr)) \<and>
      deref s1 x = Some (cell (top_ptr k) c l3 m) \<and>
      assign m (\<lambda>n. n\<lparr>rb_parent_color := pack (top_ptr k) c\<rparr>) s1 = Some s2 \<and>
      rb_set_left m l3 s2 = Some s3 \<and> rb_set_parent l3 m s3 = Some s' \<and>
      rep (F(x := rb_mem s x)) s' (plug k (Node l c m mr))"
proof -
  have "ctx_at (rb_mem s) x k" "x \<noteq> NULL" "x \<notin> set (before k) \<union> set (after k)"
    "distinct (before k @ after k)" "rb_root s = ctx_root_ptr x k"
    using rep by (auto simp: rep_def)
  from replace_child [OF this, of m] obtain u1 where
    u1: "rb_replace_child (top_ptr k) x m s = Some u1" "ctx_at (rb_mem u1) m k" "rb_root u1 = ctx_root_ptr m k"
    and fr: "\<And>a. a \<notin> set (before k) \<union> set (after k) \<Longrightarrow> rb_mem u1 a = rb_mem s a"
    and tr: "\<And>t p. set (nodes t) \<inter> (set (before k) \<union> set (after k)) = {} \<Longrightarrow>
            tree_at (rb_mem u1) p t = tree_at (rb_mem s) p t" by blast
  have d: "distinct (nodes (plug k (Node l c x (Node Leaf mc m mr))))" using rep by (simp add: rep_def)
  have t: "tree_at (rb_mem u1) (top_ptr k) (Node l c x (Node Leaf mc m mr))"
    using rep d by (subst tr) (auto simp: rep_def)
  have o: "rb_mem u1 a = F a" if "a \<notin> set (nodes (plug k (Node l c x (Node Leaf mc m mr))))" for a
    using that rep fr [of a] by (auto simp: rep_def)
  have x: "rb_mem u1 x = rb_mem s x" using d by (intro fr) auto
  have c: "(cell x mc NULL (root_ptr mr))\<lparr>rb_parent_color := pack (top_ptr k) c, rb_left := l3\<rparr>
      = cell (top_ptr k) c l3 (root_ptr mr)" by (simp add: cell_def)
  show ?thesis
    using u1 t d l o x c by (auto simp: rep_def set_defs)
qed

text \<open>The successor is deeper: it is unlinked from its place and then takes the node's place.\<close>

lemma rep_swap_deep:
  assumes rep: "rep F s (plug k (Node l c x r))" and l: "l = Node l1 l2 l3 l4"
    and r: "r = plug k' (Node Leaf mc m mr)" and k': "k' = FL qc q qr # k''"
  shows "\<exists>s1 s2 s3 s'. rb_replace_child (top_ptr k) x m s = Some s1 \<and>
      deref s1 m = Some (cell q mc NULL (root_ptr mr)) \<and>
      (if root_ptr mr \<noteq> NULL then rb_set_parent (root_ptr mr) q s1 else Some s1) = Some s2 \<and>
      rb_set_left q (root_ptr mr) s2 = Some s3 \<and> rb_take_place x m s3 = Some s' \<and>
      rep (F(x := rb_mem s x)) s' (plug k (Node l c m (plug k' mr)))"
proof -
  let ?K = "k' @ FR l c x # k"
  have rK: "rep F s (plug ?K (Node Leaf mc m mr))" using rep r by simp
  from rep_unlink [OF rK, of mr] top_ptr_append [of k' "FR l c x # k"] k' obtain u1 u2 where
    u: "(if root_ptr mr \<noteq> NULL then rb_set_parent (root_ptr mr) q s else Some s) = Some u1"
      "rb_replace_child q m (root_ptr mr) u1 = Some u2" "rep (F(m := rb_mem s m)) u2 (plug ?K mr)" by (auto cong: if_cong)
  have d: "distinct (nodes (plug ?K (Node Leaf mc m mr)))" using rK by (simp add: rep_def)
  have ne: "top_ptr k \<noteq> q" "top_ptr k \<noteq> m" "root_ptr mr \<noteq> NULL \<Longrightarrow> top_ptr k \<noteq> root_ptr mr" "q \<noteq> m" "x \<noteq> m"
      "x \<noteq> q" "root_ptr mr \<noteq> x" "root_ptr mr \<noteq> q"
    using d top_ptr_in [of k] root_ptr_in [of mr] rep_nonnull [OF rK] k' by (cases "k = []"; auto)+
  have m: "m \<noteq> NULL" "aligned m" "m \<notin> set (nodes (plug ?K mr))" and ms: "deref s m = Some (cell q mc NULL (root_ptr mr))"
    using rep_position [OF rK] rep_deref [OF rK] d k' by auto
  have r': "\<exists>r1 r2 r3 r4. plug k' mr = Node r1 r2 r3 r4"
    using k' by (cases "plug k' mr") (auto dest: arg_cong [where f = nodes])
  have u2: "rep (F(m := rb_mem s m)) u2 (plug k (Node l c x (plug k' mr)))" using u(3) by simp
  obtain v1 s' where v: "rb_replace_child (top_ptr k) x m u2 = Some v1" "rb_take_place x m v1 = Some s'"
      "rep ((F(m := rb_mem s m))(x := rb_mem u2 x)) s' (plug k (Node l c m (plug k' mr)))"
    using rep_take_place [OF u2 l] r' m by fastforce
  have qs: "q \<noteq> NULL" "rb_left (rb_mem s q) = m"
    using rep_position [of F s "k'' @ FR l c x # k" "Node Leaf mc m mr" qc q qr] rK k' by simp_all
  then have left: "rb_left (rb_mem u1 q) = m"
    using u(1) ne(8) by (auto simp: set_defs split: if_splits)
  then have sl: "rb_set_left q (root_ptr mr) u1 = Some u2"
    using u(2) qs(1) by (auto simp: rb_replace_child_def deref_def)
  have x: "rb_mem u2 x = rb_mem s x"
    using u(1) sl ne by (auto simp: set_defs split: if_splits)
  have rp: "rep (F(x := rb_mem s x)) s' (plug k (Node l c m (plug k' mr)))"
    using v(3) x by (auto simp: rep_def)
  obtain s1 where s1: "rb_replace_child (top_ptr k) x m s = Some s1"
    using replace_total by blast
  obtain s2 where s2: "(if root_ptr mr \<noteq> NULL then rb_set_parent (root_ptr mr) q s1 else Some s1) = Some s2"
      "rb_replace_child (top_ptr k) x m u1 = Some s2"
    using replace_commute [OF s1] u(1) ne(3) s1 by (fastforce simp: rb_set_parent_def split: if_splits)
  have "rb_set_left q (root_ptr mr) s2 = Some v1"
    using replace_commute [OF s2(2), of q] sl ne(1) v(1) by (fastforce simp: rb_set_left_def)
  with s1 s2 v rp ms replace_deref [OF s1 ne(2)] show ?thesis by auto
qed


lemma min_pos_append:
  "min_pos l c a r k = (k', mc, m, mr) \<Longrightarrow> min_pos l c a r (k @ k0) = (k' @ k0, mc, m, mr)"
  by (induction l c a r k rule: min_pos.induct) auto

lemma min_pos_top:
  "min_pos l c a r k = (k', mc, m, mr) \<Longrightarrow>
   (l = Leaf \<and> k' = k \<and> mc = c \<and> m = a \<and> mr = r) \<or> (\<exists>qc q qr k''. l \<noteq> Leaf \<and> k' = FL qc q qr # k'')"
proof (induction l c a r k rule: min_pos.induct)
  case (2 l' c' a' r' c a r k)
  then show ?case by (cases l') auto
qed simp

lemma rep_splice:
  assumes "rep F s (plug k t)" and "cc = color_bit c" and "c = Black \<longrightarrow> del_pre t k"
    and "child = root_ptr t" and "parent = top_ptr k"
  shows "\<exists>s'. (if cc = 1 then rb_erase_color child parent s else Some s) = Some s' \<and>
      rep F s' (rb_splice c t k)"
  using assms rep_erase_color [of F s k t] by (cases c) (auto simp: rb_splice_def)

lemma del_pre_position:
  assumes "is_rbt (plug k (Node l Black x r))" and "t = l \<or> t = r"
  shows "del_pre t k"
  using rbt_position [OF assms(1)] assms(2) by (auto simp: del_pre_def)

lemma rb_erase_single:
  assumes rep: "rep F s (plug k (Node l c x r))" and rbt: "is_rbt (plug k (Node l c x r))"
    and t: "l = Leaf \<or> r = Leaf"
  shows "\<exists>s'. rb_erase x s = Some s' \<and> rep (F(x := rb_mem s x)) s' (rb_erase_at l c r k)"
proof -
  define t where "t = (if l = Leaf then r else l)"
  from rep_unlink [OF rep t t_def] obtain s1 s2 where
    s: "(if root_ptr t \<noteq> NULL then rb_set_parent (root_ptr t) (top_ptr k) s else Some s) = Some s1"
      "rb_replace_child (top_ptr k) x (root_ptr t) s1 = Some s2" "rep (F(x := rb_mem s x)) s2 (plug k t)" by blast
  have ch: "(if root_ptr l = NULL then root_ptr r else root_ptr l) = root_ptr t"
    and nl: "root_ptr l = NULL \<or> root_ptr r = NULL"
    using t rep t_def by (cases l; cases r; auto simp: rep_def)+
  have "c = Black \<longrightarrow> del_pre t k" using del_pre_position [of k l x r t] rbt t_def by auto
  from rep_splice [OF s(3) refl this refl refl]
  obtain s' where s': "(if color_bit c = 1 then rb_erase_color (root_ptr t) (top_ptr k) s2 else Some s2) = Some s'"
      "rep (F(x := rb_mem s x)) s' (rb_splice c t k)" by blast
  have "rb_erase x s = Some s'"
    using rep_deref [OF rep] rep_position(3) [OF rep] s(1,2) s'(1) ch nl
    by (simp add: rb_erase_def Let_def cong: if_cong)
  moreover have "rb_erase_at l c r k = rb_splice c t k"
    using t by (cases l; cases r) (auto simp: rb_erase_at_def t_def)
  ultimately show ?thesis using s'(2) by simp
qed

text \<open>The surgery for a node with two children, up to the recolouring.\<close>

lemma rb_erase_swap:
  assumes rep: "rep F s (plug k (Node l c x r))"
    and l: "l = Node l1 l2 l3 l4" and r: "r = Node rl rc ra rr"
    and m: "min_pos rl rc ra rr [] = (k', mc, m, mr)"
  shows "\<exists>s2. rb_erase x s = (if color_bit mc = 1
              then rb_erase_color (root_ptr mr) (top_ptr (k' @ FR l c m # k)) s2 else Some s2)
      \<and> rep (F(x := rb_mem s x)) s2 (plug (k' @ FR l c m # k) mr)"
proof -
  from min_pos_plug [OF m] r have pl: "r = plug k' (Node Leaf mc m mr)" by simp
  have "min_pos rl rc ra rr (FR l c x # k) = (k' @ FR l c x # k, mc, m, mr)"
    using min_pos_append m by fastforce
  then have lm: "rb_leftmost s ra = Some m"
    using rep_leftmost [of F s "FR l c x # k" rl rc ra rr] rep r by auto
  have n: "l3 \<noteq> NULL" "ra \<noteq> NULL" using rep l r by (auto simp: rep_def)
  note rd = rep_deref [OF rep, unfolded l r] rep_position [OF rep]
  show ?thesis
  proof (cases "rl = Leaf")
    case True
    with min_pos_top [OF m] have e: "k' = []" "mc = rc" "m = ra" "mr = rr" by auto
    from rep_swap_child [of F s k l c x mc m mr l1 l2 l3 l4] rep l r e True obtain s1 s2 s3 s' where
      s: "rb_replace_child (top_ptr k) x m s = Some s1" "deref s1 m = Some (cell x mc NULL (root_ptr mr))"
        "deref s1 x = Some (cell (top_ptr k) c l3 m)"
        "assign m (\<lambda>n. n\<lparr>rb_parent_color := pack (top_ptr k) c\<rparr>) s1 = Some s2"
        "rb_set_left m l3 s2 = Some s3" "rb_set_parent l3 m s3 = Some s'"
        "rep (F(x := rb_mem s x)) s' (plug k (Node l c m mr))" by auto
    have "rb_erase x s = (if color_bit mc = 1 then rb_erase_color (root_ptr mr) m s' else Some s')"
      using rd n lm s(1-6) by (simp add: rb_erase_def Let_def)
    with s(7) e show ?thesis by auto
  next
    case False
    with min_pos_top [OF m] obtain qc q qr k'' where e: "k' = FL qc q qr # k''" by auto
    from rep_swap_deep [OF rep l pl e] obtain s1 s2 s3 s' where
      s: "rb_replace_child (top_ptr k) x m s = Some s1"
        "deref s1 m = Some (cell q mc NULL (root_ptr mr))"
        "(if root_ptr mr \<noteq> NULL then rb_set_parent (root_ptr mr) q s1 else Some s1) = Some s2"
        "rb_set_left q (root_ptr mr) s2 = Some s3" "rb_take_place x m s3 = Some s'"
        "rep (F(x := rb_mem s x)) s' (plug k (Node l c m (plug k' mr)))" by blast
    from s(5) obtain o1 o2 v1 v2 v3 v4 where take: "deref s3 x = Some o1" "rb_set_right m (rb_right o1) s3 = Some v1"
        "rb_set_parent (rb_right o1) m v1 = Some v2" "deref v2 x = Some o2"
        "assign m (\<lambda>m. m\<lparr>rb_parent_color := rb_parent_color o2\<rparr>) v2 = Some v3"
        "rb_set_left m (rb_left o2) v3 = Some v4" "rb_set_parent (rb_left o2) m v4 = Some s'"
      by (auto simp: rb_take_place_def bind_eq_Some_conv)
    have q: "aligned q" "q \<noteq> x"
      using rep_position [of F s "k'' @ FR l c x # k" "Node Leaf mc m mr" qc q qr] rep pl e by (auto simp: rep_def)
    have "rb_erase x s = (if color_bit mc = 1 then rb_erase_color (root_ptr mr) q s' else Some s')"
      using rd n lm s(1-4) q take by (simp add: rb_erase_def Let_def cong: if_cong)
    with s(6) e show ?thesis by auto
  qed
qed

theorem rep_rb_erase:
  assumes rep: "rep F s (plug k (Node l c x r))" and rbt: "is_rbt (plug k (Node l c x r))"
  shows "\<exists>s'. rb_erase x s = Some s' \<and> rep (F(x := rb_mem s x)) s' (rb_erase_at l c r k)"
proof (cases "l = Leaf \<or> r = Leaf")
  case True
  then show ?thesis by (rule rb_erase_single [OF assms])
next
  case False
  then obtain l1 l2 l3 l4 rl rc ra rr where l: "l = Node l1 l2 l3 l4" and r: "r = Node rl rc ra rr"
    by (cases l; cases r) auto
  obtain k' mc m mr where m: "min_pos rl rc ra rr [] = (k', mc, m, mr)" by (metis prod_cases4)
  have "is_rbt (plug (k' @ FR l c m # k) (Node Leaf mc m mr))"
    using rbt min_pos_plug [OF m] r by (auto simp: is_rbt_def)
  then have dp: "mc = Black \<longrightarrow> del_pre mr (k' @ FR l c m # k)"
    using del_pre_position [of "k' @ FR l c m # k" Leaf m mr mr] by auto
  from rb_erase_swap [OF rep l r m] obtain s2 where
    s2: "rb_erase x s = (if color_bit mc = 1
            then rb_erase_color (root_ptr mr) (top_ptr (k' @ FR l c m # k)) s2 else Some s2)"
      "rep (F(x := rb_mem s x)) s2 (plug (k' @ FR l c m # k) mr)" by blast
  from rep_splice [OF s2(2) refl dp refl refl] s2(1) m l r show ?thesis
    by (simp add: rb_erase_at_def)
qed

end
