(* ===== verification/RBTree_Iter.thy ===== *)
theory RBTree_Iter
  imports RBTree_Heap
begin

text \<open>
  The traversals of \<open>rbtree.c\<close>: first/last/next/previous in order, first/next in post-order, and
  \<open>rb_iterate\<close> with its callback. On a store that holds a tree they enumerate its node list.
\<close>

subsection \<open>The code\<close>

partial_function (option) rb_rightmost :: "rb_state \<Rightarrow> ptr \<Rightarrow> ptr option" where
  "rb_rightmost s node = do {
     n \<leftarrow> deref s node;
     if rb_right n \<noteq> NULL then rb_rightmost s (rb_right n) else Some node
   }"

definition rb_first :: "rb_state \<Rightarrow> ptr option" where
  "rb_first s = (if rb_root s = NULL then Some NULL else rb_leftmost s (rb_root s))"

definition rb_last :: "rb_state \<Rightarrow> ptr option" where
  "rb_last s = (if rb_root s = NULL then Some NULL else rb_rightmost s (rb_root s))"

text \<open>The loops that go up while the node is the right (left) child of its parent.\<close>

partial_function (option) rb_up_right :: "rb_state \<Rightarrow> ptr \<Rightarrow> ptr option" where
  "rb_up_right s node = do {
     n \<leftarrow> deref s node;
     if rb_parent n = NULL then Some NULL
     else do {
       p \<leftarrow> deref s (rb_parent n);
       if node = rb_right p then rb_up_right s (rb_parent n) else Some (rb_parent n)
     }
   }"

partial_function (option) rb_up_left :: "rb_state \<Rightarrow> ptr \<Rightarrow> ptr option" where
  "rb_up_left s node = do {
     n \<leftarrow> deref s node;
     if rb_parent n = NULL then Some NULL
     else do {
       p \<leftarrow> deref s (rb_parent n);
       if node = rb_left p then rb_up_left s (rb_parent n) else Some (rb_parent n)
     }
   }"

definition rb_next :: "rb_state \<Rightarrow> ptr \<Rightarrow> ptr option" where
  "rb_next s node = do {
     n \<leftarrow> deref s node;
     if rb_parent n = node then Some NULL
     else if rb_right n \<noteq> NULL then rb_leftmost s (rb_right n)
     else rb_up_right s node
   }"

definition rb_prev :: "rb_state \<Rightarrow> ptr \<Rightarrow> ptr option" where
  "rb_prev s node = do {
     n \<leftarrow> deref s node;
     if rb_parent n = node then Some NULL
     else if rb_left n \<noteq> NULL then rb_rightmost s (rb_left n)
     else rb_up_left s node
   }"

partial_function (option) rb_left_deepest_node :: "rb_state \<Rightarrow> ptr \<Rightarrow> ptr option" where
  "rb_left_deepest_node s node = do {
     n \<leftarrow> deref s node;
     if rb_left n \<noteq> NULL then rb_left_deepest_node s (rb_left n)
     else if rb_right n \<noteq> NULL then rb_left_deepest_node s (rb_right n)
     else Some node
   }"

definition rb_next_postorder :: "rb_state \<Rightarrow> ptr \<Rightarrow> ptr option" where
  "rb_next_postorder s node =
     (if node = NULL then Some NULL
      else do {
        n \<leftarrow> deref s node;
        let parent = rb_parent n;
        if parent = NULL then Some parent
        else do {
          p \<leftarrow> deref s parent;
          if node = rb_left p \<and> rb_right p \<noteq> NULL then rb_left_deepest_node s (rb_right p)
          else Some parent
        }
      })"

definition rb_first_postorder :: "rb_state \<Rightarrow> ptr option" where
  "rb_first_postorder s =
     (if rb_root s = NULL then Some NULL else rb_left_deepest_node s (rb_root s))"

text \<open>
  \<open>rb_iterate\<close>: the callback gets the node, the user data and the store, which it may change. The
  inner \<open>do\<close> loop gives the node it ends at with the last return value; its \<open>break\<close> leaves
  \<open>node\<close> as it is and does not leave the outer loop.
\<close>

type_synonym 'u rb_func = "ptr \<Rightarrow> 'u \<Rightarrow> rb_state \<Rightarrow> int \<times> 'u \<times> rb_state"

partial_function (option) rb_iterate_up ::
  "'u rb_func \<Rightarrow> ptr \<Rightarrow> 'u \<Rightarrow> rb_state \<Rightarrow> (ptr \<times> int \<times> 'u \<times> rb_state) option" where
  "rb_iterate_up func node user s = do {
     n \<leftarrow> deref s node;
     let parent = rb_parent n;
     let (ret, user, s) = func node user s;
     if ret \<noteq> 0 then Some (node, ret, user, s)
     else if parent = NULL then Some (NULL, ret, user, s)
     else do {
       p \<leftarrow> deref s parent;
       if node = rb_right p then rb_iterate_up func parent user s
       else Some (parent, ret, user, s)
     }
   }"

partial_function (option) rb_iterate_loop ::
  "'u rb_func \<Rightarrow> ptr \<Rightarrow> int \<Rightarrow> 'u \<Rightarrow> rb_state \<Rightarrow> (int \<times> 'u \<times> rb_state) option" where
  "rb_iterate_loop func node ret user s =
     (if node = NULL then Some (ret, user, s)
      else do {
        n \<leftarrow> deref s node;
        if rb_parent n = node then Some (ret, user, s)
        else if rb_right n \<noteq> NULL then do {
          node \<leftarrow> rb_leftmost s (rb_right n);
          rb_iterate_loop func node ret user s
        } else do {
          (node, ret, user, s) \<leftarrow> rb_iterate_up func node user s;
          rb_iterate_loop func node ret user s
        }
      })"

definition rb_iterate :: "'u rb_func \<Rightarrow> 'u \<Rightarrow> rb_state \<Rightarrow> (int \<times> 'u \<times> rb_state) option" where
  "rb_iterate func user s = do {
     node \<leftarrow> rb_first s;
     rb_iterate_loop func node 0 user s
   }"

subsection \<open>In-order traversal\<close>

definition hd_ptr :: "ptr list \<Rightarrow> ptr" where
  "hd_ptr xs = (case xs of [] \<Rightarrow> NULL | x # _ \<Rightarrow> x)"

lemma hd_ptr_simps [simp]: "hd_ptr [] = NULL" "hd_ptr (x # xs) = x"
  by (simp_all add: hd_ptr_def)

lemma hd_ptr_append: "xs \<noteq> [] \<Longrightarrow> hd_ptr (xs @ ys) = hd_ptr xs"
  by (cases xs) auto

lemma nodes_eq_Nil [simp]: "nodes t = [] \<longleftrightarrow> t = Leaf"
  by (cases t) auto

lemma tree_at_leftmost:
  "tree_at (rb_mem s) par (Node l c x r) \<Longrightarrow> rb_leftmost s x = Some (hd_ptr (nodes (Node l c x r)))"
proof (induction l arbitrary: c x r par)
  case Leaf
  then show ?case by (subst rb_leftmost.simps) (simp add: deref_def)
next
  case (Node l' c' x' r')
  then have "x' \<noteq> NULL" "rb_leftmost s x' = Some (hd_ptr (nodes (Node l' c' x' r')))" by auto
  with Node.prems hd_ptr_append [of "nodes (Node l' c' x' r')"] show ?case
    by (subst rb_leftmost.simps) (simp add: deref_def)
qed

lemma rep_leftmost_hd:
  assumes "rep F s (plug k (Node l c x r))"
  shows "rb_leftmost s x = Some (hd_ptr (nodes (Node l c x r)))"
  using assms by (intro tree_at_leftmost [of s "top_ptr k"]) (simp add: rep_def)

lemma rep_rightmost_hd:
  assumes "rep F s (plug k (Node l c x r))"
  shows "rb_rightmost s x = Some (hd_ptr (rev (nodes (Node l c x r))))"
  using assms
proof (induction r arbitrary: l c x k)
  case Leaf
  then show ?case using rep_deref [OF Leaf] by (subst rb_rightmost.simps) simp
next
  case (Node l' c' x' r')
  have "x' \<noteq> NULL" using rep_position(1) [of F s "FR l c x # k" l' c' x' r'] Node.prems by simp
  moreover have "rb_rightmost s x' = Some (hd_ptr (rev (nodes (Node l' c' x' r'))))"
    by (rule Node.IH(2) [of "FR l c x # k"]) (use Node.prems in simp)
  ultimately show ?case
    using rep_deref [OF Node.prems] hd_ptr_append [of "rev (nodes (Node l' c' x' r'))"]
    by (subst rb_rightmost.simps) simp
qed

text \<open>Going up from a position reaches the first node after it, or before it.\<close>

lemma rep_up_right:
  "rep F s (plug k (Node l c x r)) \<Longrightarrow> rb_up_right s x = Some (hd_ptr (after k))"
proof (induction k arbitrary: l c x r)
  case Nil
  then show ?case using rep_deref [OF Nil] by (subst rb_up_right.simps) simp
next
  case (Cons f k)
  note rd = rep_deref [OF Cons.prems] rep_position [OF Cons.prems]
  show ?case
  proof (cases f)
    case (FL fc a fr)
    with Cons.prems have p: "rep F s (plug k (Node (Node l c x r) fc a fr))" by simp
    moreover have "x \<noteq> root_ptr fr" using p rd(2) by (auto simp: rep_def)
    ultimately show ?thesis
      using rd FL rep_deref [OF p] rep_position [OF p] by (subst rb_up_right.simps) simp
  next
    case (FR fl fc a)
    with Cons.prems have p: "rep F s (plug k (Node fl fc a (Node l c x r)))" by simp
    from Cons.IH [OF p] show ?thesis
      using rd FR rep_deref [OF p] rep_position [OF p] by (subst rb_up_right.simps) simp
  qed
qed

lemma rep_up_left:
  "rep F s (plug k (Node l c x r)) \<Longrightarrow> rb_up_left s x = Some (hd_ptr (rev (before k)))"
proof (induction k arbitrary: l c x r)
  case Nil
  then show ?case using rep_deref [OF Nil] by (subst rb_up_left.simps) simp
next
  case (Cons f k)
  note rd = rep_deref [OF Cons.prems] rep_position [OF Cons.prems]
  show ?case
  proof (cases f)
    case (FR fl fc a)
    with Cons.prems have p: "rep F s (plug k (Node fl fc a (Node l c x r)))" by simp
    moreover have "x \<noteq> root_ptr fl" using p rd(2) by (auto simp: rep_def)
    ultimately show ?thesis
      using rd FR rep_deref [OF p] rep_position [OF p] by (subst rb_up_left.simps) simp
  next
    case (FL fc a fr)
    with Cons.prems have p: "rep F s (plug k (Node (Node l c x r) fc a fr))" by simp
    from Cons.IH [OF p] show ?thesis
      using rd FL rep_deref [OF p] rep_position [OF p] by (subst rb_up_left.simps) simp
  qed
qed

lemma rep_parent_neq:
  assumes "rep F s (plug k (Node l c x r))"
  shows "top_ptr k \<noteq> x"
  using assms top_ptr_in [of k] by (cases "k = []") (auto simp: rep_def)

lemma rep_next_position:
  assumes "rep F s (plug k (Node l c x r))"
  shows "rb_next s x = Some (hd_ptr (nodes r @ after k))"
proof (cases r)
  case Leaf
  with rep_up_right [OF assms] rep_deref [OF assms] rep_position [OF assms] rep_parent_neq [OF assms]
  show ?thesis by (simp add: rb_next_def)
next
  case (Node rl rc y rr)
  then have p: "rep F s (plug (FR l c x # k) (Node rl rc y rr))" using assms by simp
  from Node rep_leftmost_hd [OF p] rep_deref [OF assms] rep_position [OF assms] rep_parent_neq [OF assms]
    rep_position(1) [OF p] hd_ptr_append [of "nodes r"]
  show ?thesis by (simp add: rb_next_def)
qed

lemma rep_prev_position:
  assumes "rep F s (plug k (Node l c x r))"
  shows "rb_prev s x = Some (hd_ptr (rev (before k @ nodes l)))"
proof (cases l)
  case Leaf
  with rep_up_left [OF assms] rep_deref [OF assms] rep_position [OF assms] rep_parent_neq [OF assms]
  show ?thesis by (simp add: rb_prev_def)
next
  case (Node ll lc y lr)
  then have p: "rep F s (plug (FL c x r # k) (Node ll lc y lr))" using assms by simp
  from Node rep_rightmost_hd [OF p] rep_deref [OF assms] rep_position [OF assms] rep_parent_neq [OF assms]
    rep_position(1) [OF p] hd_ptr_append [of "rev (nodes l)"]
  show ?thesis by (simp add: rb_prev_def)
qed

lemma position_of: "x \<in> set (nodes t) \<Longrightarrow> \<exists>k l c r. t = plug k (Node l c x r)"
proof (induction t)
  case (Node l c a r)
  consider "x = a" | "x \<in> set (nodes l)" | "x \<in> set (nodes r)" using Node.prems by auto
  then show ?case
  proof cases
    case 1
    then show ?thesis by (intro exI [of _ "[]"] exI) simp
  next
    case 2
    with Node.IH(1) obtain k l1 c1 r1 where "l = plug k (Node l1 c1 x r1)" by blast
    then show ?thesis by (intro exI [of _ "k @ [FL c a r]"] exI) simp
  next
    case 3
    with Node.IH(2) obtain k l1 c1 r1 where "r = plug k (Node l1 c1 x r1)" by blast
    then show ?thesis by (intro exI [of _ "k @ [FR l c a]"] exI) simp
  qed
qed simp


lemma rep_next:
  assumes "rep F s t" and "nodes t = xs @ x # ys"
  shows "rb_next s x = Some (hd_ptr ys)" and "rb_prev s x = Some (hd_ptr (rev xs))"
proof -
  from assms(2) position_of [of x t] obtain k l c r where t: "t = plug k (Node l c x r)" by auto
  have "distinct ((before k @ nodes l) @ x # nodes r @ after k)" using assms(1) t by (simp add: rep_def)
  moreover have "(before k @ nodes l) @ x # nodes r @ after k = xs @ x # ys" using assms(2) t by simp
  ultimately have e: "xs = before k @ nodes l \<and> ys = nodes r @ after k" by (rule distinct_split_unique)
  from e rep_next_position [of F s k l c x r] assms(1) t show "rb_next s x = Some (hd_ptr ys)" by simp
  from e rep_prev_position [of F s k l c x r] assms(1) t show "rb_prev s x = Some (hd_ptr (rev xs))" by simp
qed

lemma rep_first:
  assumes "rep F s t"
  shows "rb_first s = Some (hd_ptr (nodes t))" and "rb_last s = Some (hd_ptr (rev (nodes t)))"
  using assms rep_leftmost_hd [of F s "[]"] rep_rightmost_hd [of F s "[]"] rep_nonnull [OF assms]
  by (cases t; auto simp: rb_first_def rb_last_def rep_def)+

text \<open>The loops \<open>for (data = rb_first(root); data; data = rb_next(data))\<close> and their mirror image.\<close>

partial_function (option) rb_collect :: "(rb_state \<Rightarrow> ptr \<Rightarrow> ptr option) \<Rightarrow> rb_state \<Rightarrow> ptr \<Rightarrow> ptr list option" where
  "rb_collect step s node =
     (if node = NULL then Some []
      else do {
        next \<leftarrow> step s node;
        xs \<leftarrow> rb_collect step s next;
        Some (node # xs)
      })"

lemma collect_list:
  assumes "NULL \<notin> set (xs @ ys)" and "\<And>us x vs. xs @ ys = us @ x # vs \<Longrightarrow> step s x = Some (hd_ptr vs)"
  shows "rb_collect step s (hd_ptr ys) = Some ys"
  using assms
proof (induction ys arbitrary: xs)
  case Nil
  then show ?case by (subst rb_collect.simps) simp
next
  case (Cons y ys)
  have "rb_collect step s (hd_ptr ys) = Some ys"
    by (rule Cons.IH [of "xs @ [y]"]) (use Cons.prems in auto)
  moreover have "step s y = Some (hd_ptr ys)" using Cons.prems(2) by blast
  ultimately show ?case using Cons.prems(1) by (subst rb_collect.simps) simp
qed

theorem rb_inorder:
  assumes "rep F s t"
  shows "(do { x \<leftarrow> rb_first s; rb_collect rb_next s x }) = Some (nodes t)"
    and "(do { x \<leftarrow> rb_last s; rb_collect rb_prev s x }) = Some (rev (nodes t))"
proof -
  show "(do { x \<leftarrow> rb_first s; rb_collect rb_next s x }) = Some (nodes t)"
    using rep_first(1) [OF assms] collect_list [of "[]" "nodes t" rb_next s] rep_next(1) [OF assms]
      rep_nonnull [OF assms] by simp
  have "rb_prev s x = Some (hd_ptr vs)" if "rev (nodes t) = us @ x # vs" for us x vs
  proof -
    from that have "nodes t = rev vs @ x # rev us" by (simp add: rev_swap)
    from rep_next(2) [OF assms this] show ?thesis by simp
  qed
  then show "(do { x \<leftarrow> rb_last s; rb_collect rb_prev s x }) = Some (rev (nodes t))"
    using rep_first(2) [OF assms] collect_list [of "[]" "rev (nodes t)" rb_prev s]
      rep_nonnull [OF assms] by simp
qed

subsection \<open>Post-order traversal\<close>

fun postorder :: "'a rbt \<Rightarrow> 'a list" where
  "postorder Leaf = []"
| "postorder (Node l c a r) = postorder l @ postorder r @ [a]"

lemma set_postorder [simp]: "set (postorder t) = set (nodes t)"
  by (induction t) auto

lemma postorder_eq_Nil [simp]: "postorder t = [] \<longleftrightarrow> t = Leaf"
  by (cases t) auto

lemma length_postorder [simp]: "length (postorder t) = length (nodes t)"
  by (induction t) auto

lemma distinct_postorder [simp]: "distinct (postorder t) \<longleftrightarrow> distinct (nodes t)"
  by (metis card_distinct distinct_card length_postorder set_postorder)

text \<open>What post-order visits before and after the subtree at a position.\<close>

fun post_before :: "'a ctx \<Rightarrow> 'a list" where
  "post_before [] = []"
| "post_before (FL c a r # k) = post_before k"
| "post_before (FR l c a # k) = post_before k @ postorder l"

fun post_after :: "'a ctx \<Rightarrow> 'a list" where
  "post_after [] = []"
| "post_after (FL c a r # k) = postorder r @ a # post_after k"
| "post_after (FR l c a # k) = a # post_after k"

lemma postorder_plug [simp]: "postorder (plug k t) = post_before k @ postorder t @ post_after k"
  by (induction k t rule: plug.induct) auto

lemma tree_at_left_deepest:
  "tree_at (rb_mem s) par t \<Longrightarrow> t \<noteq> Leaf \<Longrightarrow> rb_left_deepest_node s (root_ptr t) = Some (hd_ptr (postorder t))"
proof (induction t arbitrary: par)
  case (Node l c x r)
  have n: "root_ptr l = NULL \<longleftrightarrow> l = Leaf" "root_ptr r = NULL \<longleftrightarrow> r = Leaf"
    using Node.prems(1) by (cases l; cases r; auto)+
  show ?case
    using Node.prems Node.IH(1) [of x] Node.IH(2) [of x] n
      hd_ptr_append [of "postorder l"] hd_ptr_append [of "postorder r"]
    by (subst rb_left_deepest_node.simps) (auto simp: deref_def)
qed simp

lemma rep_next_postorder_position:
  assumes rep: "rep F s (plug k (Node l c x r))"
  shows "rb_next_postorder s x = Some (hd_ptr (post_after k))"
proof (cases k rule: top_ptr.cases)
  case 1
  with rep_deref [OF rep] rep_position [OF rep] show ?thesis by (simp add: rb_next_postorder_def)
next
  case (2 fc a fr k')
  with rep have p: "rep F s (plug k' (Node (Node l c x r) fc a fr))" by simp
  then have t: "tree_at (rb_mem s) a fr" by (simp add: rep_def)
  have n: "root_ptr fr = NULL \<longleftrightarrow> fr = Leaf" using t by (cases fr) auto
  from 2 t n tree_at_left_deepest [OF t] rep_deref [OF rep] rep_position [OF rep] rep_deref [OF p] rep_position(1,4) [OF p]
    hd_ptr_append [of "postorder fr"]
  show ?thesis by (cases "fr = Leaf") (simp_all add: rb_next_postorder_def)
next
  case (3 fl fc a k')
  with rep have p: "rep F s (plug k' (Node fl fc a (Node l c x r)))" by simp
  moreover have "x \<noteq> root_ptr fl" using p rep_position(1) [OF rep] by (auto simp: rep_def)
  ultimately show ?thesis
    using 3 rep_deref [OF rep] rep_position [OF rep] rep_deref [OF p] rep_position(1,4) [OF p]
    by (simp add: rb_next_postorder_def)
qed

theorem rb_postorder:
  assumes "rep F s t"
  shows "(do { x \<leftarrow> rb_first_postorder s; rb_collect rb_next_postorder s x }) = Some (postorder t)"
proof -
  have "rb_first_postorder s = Some (hd_ptr (postorder t))"
    using assms tree_at_left_deepest [of s NULL t] rep_nonnull [OF assms]
    by (cases t) (auto simp: rb_first_postorder_def rep_def)
  moreover have "rb_next_postorder s x = Some (hd_ptr vs)" if "postorder t = us @ x # vs" for us x vs
  proof -
    from that have "x \<in> set (nodes t)" by (simp flip: set_postorder)
    from position_of [OF this] obtain k l c r where t: "t = plug k (Node l c x r)" by blast
    have "distinct (postorder t)" using assms by (simp add: rep_def)
    moreover have p: "postorder t = (post_before k @ postorder l @ postorder r) @ x # post_after k" using t by simp
    ultimately have "us = post_before k @ postorder l @ postorder r \<and> vs = post_after k"
      using that by (metis distinct_split_unique)
    with rep_next_postorder_position [of F s k l c x r] assms t show ?thesis by simp
  qed
  ultimately show ?thesis
    using collect_list [of "[]" "postorder t" rb_next_postorder s] rep_nonnull [OF assms] by simp
qed


subsection \<open>The callback iteration\<close>

text \<open>
  A callback that returns 0 and changes no node but its argument, which it may free: the
  iteration is a fold over the post-order sequence.
\<close>

definition well_behaved :: "'u rb_func \<Rightarrow> (ptr \<Rightarrow> 'u \<Rightarrow> 'u) \<Rightarrow> bool" where
  "well_behaved func g \<longleftrightarrow>
     (\<forall>x u s. \<exists>s'. func x u s = (0, g x u, s') \<and> (\<forall>a. a \<noteq> x \<longrightarrow> rb_mem s' a = rb_mem s a))"

definition iterate_visit :: "'u rb_func \<Rightarrow> ptr \<Rightarrow> 'u \<Rightarrow> rb_state \<Rightarrow> (int \<times> 'u \<times> rb_state) option" where
  "iterate_visit func x u s = do {
     (node, ret, u, s) \<leftarrow> rb_iterate_up func x u s;
     rb_iterate_loop func node ret u s
   }"

lemma loop_no_right:
  assumes "rb_mem s x = cell par c l NULL" "x \<noteq> NULL" "aligned par" "par \<noteq> x"
  shows "rb_iterate_loop func x ret u s = iterate_visit func x u s"
  using assms by (subst rb_iterate_loop.simps) (simp add: deref_def iterate_visit_def)

lemma loop_right:
  assumes "rb_mem s x = cell par c l y" "x \<noteq> NULL" "aligned par" "par \<noteq> x"
    and "y \<noteq> NULL" and "rb_leftmost s y = Some z"
  shows "rb_iterate_loop func x ret u s = rb_iterate_loop func z ret u s"
  using assms by (subst rb_iterate_loop.simps) (simp add: deref_def)

lemma visit_step:
  assumes "func y u s = (0, u', s')" and "rb_mem s y = cell x c ly ry" "y \<noteq> NULL" "x \<noteq> NULL" "aligned x"
    and "rb_mem s' x = cell par cx lx rx"
  shows "iterate_visit func y u s =
      (if y = rx then iterate_visit func x u' s' else rb_iterate_loop func x 0 u' s')"
  using assms unfolding iterate_visit_def
  by (subst rb_iterate_up.simps) (simp add: deref_def)

lemma tree_at_cong:
  "(\<And>a. a \<in> set (nodes t) \<Longrightarrow> h' a = h a) \<Longrightarrow> tree_at h' par t = tree_at h par t"
  by (induction t arbitrary: par) auto

lemma iterate_right:
  assumes wb: "well_behaved func g"
    and IH: "\<And>par ret u s. tree_at (rb_mem s) par t \<Longrightarrow> aligned par \<Longrightarrow>
        par \<notin> set (nodes t) \<Longrightarrow> distinct (nodes t) \<Longrightarrow>
        \<exists>s'. rb_iterate_loop func (hd_ptr (nodes t)) ret u s =
            iterate_visit func y (fold g (postorder rl @ postorder rr) u) s' \<and>
          (\<forall>a. a \<notin> set (nodes rl) \<union> set (nodes rr) \<longrightarrow> rb_mem s' a = rb_mem s a)"
    and t: "t = Node rl rc y rr"
    and x: "rb_mem s x = cell par c lx y" "x \<noteq> NULL" "aligned x" "aligned par" "par \<noteq> x"
    and r: "tree_at (rb_mem s) x t" "x \<notin> set (nodes t)"
      "distinct (nodes t)"
  shows "\<exists>s'. rb_iterate_loop func x ret u s =
      iterate_visit func x (fold g (postorder t) u) s' \<and>
      (\<forall>a. a \<notin> set (nodes t) \<longrightarrow> rb_mem s' a = rb_mem s a)"
proof -
  have "rb_iterate_loop func x ret u s = rb_iterate_loop func (hd_ptr (nodes t)) ret u s"
    using loop_right [OF x(1,2,4,5) _ tree_at_leftmost [OF r(1) [unfolded t]]] r(1) t by simp
  moreover obtain s1 where s1: "rb_iterate_loop func (hd_ptr (nodes t)) ret u s =
      iterate_visit func y (fold g (postorder rl @ postorder rr) u) s1"
    and f1: "\<And>a. a \<notin> set (nodes rl) \<union> set (nodes rr) \<Longrightarrow> rb_mem s1 a = rb_mem s a"
    using IH [OF r(1) x(3) r(2,3)] by blast
  moreover obtain s2 where s2: "func y (fold g (postorder rl @ postorder rr) u) s1 =
      (0, g y (fold g (postorder rl @ postorder rr) u), s2)" and f2: "\<And>a. a \<noteq> y \<Longrightarrow> rb_mem s2 a = rb_mem s1 a"
    using wb unfolding well_behaved_def by blast
  moreover have "rb_mem s2 x = cell par c lx y" using f1 [of x] f2 [of x] r(2) x(1) t by auto
  moreover have "rb_mem s1 y = cell x rc (root_ptr rl) (root_ptr rr)" "y \<noteq> NULL" using f1 [of y] r t by auto
  ultimately show ?thesis
    using visit_step [of func y _ s1 _ s2 x rc "root_ptr rl" "root_ptr rr" par c lx y] x t f1 f2 by (intro exI [of _ s2]) auto
qed

lemma iterate_subtree:
  assumes wb: "well_behaved func g"
  shows "t = Node l c x r \<Longrightarrow> tree_at (rb_mem s) par t \<Longrightarrow> aligned par \<Longrightarrow> par \<notin> set (nodes t) \<Longrightarrow> distinct (nodes t) \<Longrightarrow>
    \<exists>s'. rb_iterate_loop func (hd_ptr (nodes t)) ret u s =
        iterate_visit func x (fold g (postorder l @ postorder r) u) s' \<and>
      (\<forall>a. a \<notin> set (nodes l) \<union> set (nodes r) \<longrightarrow> rb_mem s' a = rb_mem s a)"
proof (induction t arbitrary: l c x r par ret u s)
  case (Node l1 c1 x1 r1)
  then have e: "l1 = l" "c1 = c" "x1 = x" "r1 = r" by auto
  note pr = Node.prems(2-) [unfolded e] and IH = Node.IH [unfolded e]
  have right: "\<exists>s'. rb_iterate_loop func x ret u s = iterate_visit func x (fold g (postorder r) u) s' \<and>
        (\<forall>a. a \<notin> set (nodes r) \<longrightarrow> rb_mem s' a = rb_mem s a)"
    if h: "rb_mem s x = cell par c (root_ptr l) (root_ptr r)" "tree_at (rb_mem s) x r" for ret u s
  proof (cases r)
    case Leaf
    with h pr loop_no_right [of s x par c "root_ptr l" func ret u] show ?thesis by auto
  next
    case (Node rl rc y rr)
    then have "root_ptr r = y" by simp
    with iterate_right [OF wb IH(2) [OF Node] Node, where s = s and x = x and par = par and c = c and lx = "root_ptr l" and ret = ret and u = u] h pr show ?thesis by auto
  qed
  show ?case
  proof (cases l)
    case Leaf
    with right [of s ret u] pr e show ?thesis by auto
  next
    case (Node ll lc y lr)
    have "y \<noteq> root_ptr r" using pr Node by (cases r) auto
    obtain s1 where s1: "rb_iterate_loop func (hd_ptr (nodes l)) ret u s =
        iterate_visit func y (fold g (postorder ll @ postorder lr) u) s1"
      and f1: "\<And>a. a \<notin> set (nodes ll) \<union> set (nodes lr) \<Longrightarrow> rb_mem s1 a = rb_mem s a"
      using IH(1) [OF Node, of s x ret u] pr by auto
    obtain s2 where s2: "func y (fold g (postorder ll @ postorder lr) u) s1 =
        (0, g y (fold g (postorder ll @ postorder lr) u), s2)" and f2: "\<And>a. a \<noteq> y \<Longrightarrow> rb_mem s2 a = rb_mem s1 a"
      using wb unfolding well_behaved_def by blast
    have f12: "rb_mem s2 a = rb_mem s a" if "a \<notin> set (nodes l)" for a
      using that f1 [of a] f2 [of a] Node by auto
    have "rb_mem s1 y = cell x lc (root_ptr ll) (root_ptr lr)" "y \<noteq> NULL" using f1 [of y] pr Node by auto
    moreover have "rb_mem s2 x = cell par c (root_ptr l) (root_ptr r)" "tree_at (rb_mem s2) x r"
      using f12 [of x] pr tree_at_cong [of r "rb_mem s2" "rb_mem s"] f12 by auto
    moreover obtain s3 where "rb_iterate_loop func x 0 (fold g (postorder l) u) s2 =
        iterate_visit func x (fold g (postorder r) (fold g (postorder l) u)) s3"
        and "\<forall>a. a \<notin> set (nodes r) \<longrightarrow> rb_mem s3 a = rb_mem s2 a"
      using right [of s2 0 "fold g (postorder l) u"] calculation by blast
    ultimately show ?thesis
      using visit_step [of func y _ s1 _ s2 x lc "root_ptr ll" "root_ptr lr" par c "root_ptr l" "root_ptr r"]
        s1 s2 f12 Node pr \<open>y \<noteq> root_ptr r\<close> e hd_ptr_append [of "nodes l"]
      by (intro exI [of _ s3]) auto
  qed
qed simp

theorem rb_iterate_fold:
  assumes "well_behaved func g" and "rep F s t"
  shows "\<exists>s'. rb_iterate func u s = Some (0, fold g (postorder t) u, s') \<and>
      (\<forall>a. a \<notin> set (nodes t) \<longrightarrow> rb_mem s' a = rb_mem s a)"
proof (cases t)
  case Leaf
  with assms show ?thesis
    by (simp add: rb_iterate_def rep_first(1) [OF assms(2)] rb_iterate_loop.simps)
next
  case (Node l c x r)
  from iterate_subtree [OF assms(1) Node, of s NULL 0 u] assms(2) rep_nonnull [OF assms(2)] obtain s1 where
    s1: "rb_iterate_loop func (hd_ptr (nodes t)) 0 u s = iterate_visit func x (fold g (postorder l @ postorder r) u) s1"
    and f1: "\<And>a. a \<notin> set (nodes l) \<union> set (nodes r) \<Longrightarrow> rb_mem s1 a = rb_mem s a" by (auto simp: rep_def)
  obtain s2 where s2: "func x (fold g (postorder l @ postorder r) u) s1 =
      (0, g x (fold g (postorder l @ postorder r) u), s2)" "\<forall>a. a \<noteq> x \<longrightarrow> rb_mem s2 a = rb_mem s1 a"
    using assms(1) unfolding well_behaved_def by blast
  have "deref s1 x = Some (cell NULL c (root_ptr l) (root_ptr r))"
    using f1 [of x] assms(2) Node by (auto simp: rep_def deref_def)
  then have "iterate_visit func x (fold g (postorder l @ postorder r) u) s1 = Some (0, fold g (postorder t) u, s2)"
    using s2 Node unfolding iterate_visit_def
    by (subst rb_iterate_up.simps) (simp add: rb_iterate_loop.simps)
  with s1 f1 s2 Node show ?thesis
    by (auto simp: rb_iterate_def rep_first(1) [OF assms(2)])
qed


text \<open>
  A callback that reports an error (a non-zero value) does not stop the iteration: the \<open>break\<close>
  only leaves the inner loop, the outer one comes back to the same node, and if the callback
  keeps failing there the call never returns.
\<close>

lemma iterate_loop_stuck:
  assumes "\<And>u. \<exists>u'. func x u s = (1, u', s)" and "rb_mem s x = cell par c l NULL" "x \<noteq> NULL"
    and "aligned par" "par \<noteq> x"
  shows "rb_iterate_loop func x ret u s = None"
proof -
  have "f = func \<longrightarrow> node = x \<longrightarrow> st = s \<longrightarrow> False" if "rb_iterate_loop f node rt us st = Some res"
    for f node rt us st res
    using that
  proof (rule rb_iterate_loop.raw_induct [rotated])
    fix loop :: "'a rb_func \<Rightarrow> ptr \<Rightarrow> int \<Rightarrow> 'a \<Rightarrow> rb_state \<Rightarrow> (int \<times> 'a \<times> rb_state) option"
    fix f node ret us st res
    assume IH: "\<And>f node ret us st y. loop f node ret us st = Some y \<Longrightarrow> f = func \<longrightarrow> node = x \<longrightarrow> st = s \<longrightarrow> False"
      and eq: "(if node = NULL then Some (ret, us, st)
        else do {
          n \<leftarrow> deref st node;
          if rb_parent n = node then Some (ret, us, st)
          else if rb_right n \<noteq> NULL then do {
            node \<leftarrow> rb_leftmost st (rb_right n);
            loop f node ret us st
          } else do {
            (node, ret, us, st) \<leftarrow> rb_iterate_up f node us st;
            loop f node ret us st
          }
        }) = Some res"
    obtain u' where u': "func x us s = (1, u', s)" using assms(1) by blast
    have "rb_iterate_up func x us s = Some (x, 1, u', s)"
      using u' assms(2-4) by (subst rb_iterate_up.simps) (simp add: deref_def)
    with eq IH [of func x 1 u' s res] assms(2-) show "f = func \<longrightarrow> node = x \<longrightarrow> st = s \<longrightarrow> False"
      by (auto simp: deref_def)
  qed
  from this [of func x ret u s] show ?thesis by (cases "rb_iterate_loop func x ret u s") blast+
qed

theorem rb_iterate_error_diverges:
  assumes "rep F s (Node Leaf c x Leaf)" and "\<And>u. \<exists>u'. func x u s = (1, u', s)"
  shows "rb_iterate func u s = None"
proof -
  have x: "rb_mem s x = cell NULL c NULL NULL" "x \<noteq> NULL" using assms(1) by (auto simp: rep_def)
  have "rb_iterate_loop func x 0 u s = None"
    by (rule iterate_loop_stuck [where par = NULL and c = c and l = NULL]) (use assms(2) x in auto)
  then show ?thesis by (simp add: rb_iterate_def rep_first(1) [OF assms(1)])
qed

end
