(* ===== verification/Container_Properties.thy ===== *)
theory Container_Properties
  imports Linked_List RBTree_Iter Block_Table
begin

text \<open>
  What the operations of \<open>list.h\<close> and \<open>rbtree.c\<close> guarantee to their callers: sequences of entries for
  the lists, in-order sequences of nodes of a balanced tree for the trees.
\<close>

subsection \<open>Red-black trees in memory\<close>


text \<open>C20. \<open>rb_link_node\<close> followed by \<open>rb_insert_color\<close>, with a new node at any free link of a red-black
  tree, ends, never follows a null pointer, touches no memory outside the tree and the node, and leaves
  a red-black tree (parent pointers and colour bits included) whose in-order sequence has the new node
  at the place of the link.\<close>

theorem rb_insert_correct:
  assumes "rep F s (plug k Leaf)" "is_rbt (plug k Leaf)"
    and "x \<noteq> NULL" "aligned x" "x \<notin> set (before k @ after k)"
  shows "\<exists>s' t. Option.bind (rb_link_node x (top_ptr k) (link_of k) s) (rb_insert_color x) = Some s' \<and>
      rep F s' t \<and> is_rbt t \<and> nodes t = before k @ x # after k"
proof -
  from rep_link_node [OF assms(1,3,4)] assms(5) obtain s1 where
    s1: "rb_link_node x (top_ptr k) (link_of k) s = Some s1" "rep F s1 (plug k (Node Leaf Red x Leaf))" by auto
  have "k \<noteq> [] \<longrightarrow> ctx_root Red k = Black" using ins_pre_link [OF assms(2)] by (simp add: ins_pre_def)
  from rep_insert_color [OF s1(2) this] obtain s2 where
    "rb_insert_color x s1 = Some s2" "rep F s2 (ins_fix (Node Leaf Red x Leaf) k)" by blast
  with s1(1) rb_insert_rbt [OF assms(2), of x] show ?thesis
    by (intro exI [of _ s2] exI [of _ "ins_fix (Node Leaf Red x Leaf) k"]) simp
qed

definition ex_rb0 :: rb_state where
  "ex_rb0 = \<lparr>rb_mem = (\<lambda>_. cell NULL Red NULL NULL), rb_root = NULL\<rparr>"

definition ex_rb1 :: rb_state where
  "ex_rb1 = \<lparr>rb_mem = (\<lambda>_. cell NULL Red NULL NULL)(64 := cell NULL Black NULL NULL), rb_root = 64\<rparr>"

lemma ex_rb1_rep: "rep (rb_mem ex_rb0) ex_rb1 (Node Leaf Black 64 Leaf)" "is_rbt (Node Leaf Black 64 Leaf)"
  by (simp_all add: rep_def ex_rb1_def ex_rb0_def aligned_def is_rbt_def)

theorem rb_insert_correct_witness:
  "\<exists>s' t. Option.bind (rb_link_node 32 64 (LeftLink 64) ex_rb1) (rb_insert_color 32) = Some s' \<and>
     is_rbt t \<and> rep (rb_mem ex_rb0) s' t \<and> nodes t = [32, 64]"
  using rb_insert_correct [of "rb_mem ex_rb0" ex_rb1 "[FL Black 64 Leaf]" 32] ex_rb1_rep
  by (auto simp: aligned_def)

text \<open>C19. \<open>rb_erase\<close> on any node of a red-black tree ends, touches no memory outside the tree, leaves the
  erased node's memory as it was and the remaining nodes as a red-black tree with the same order.\<close>

theorem rb_erase_correct:
  assumes "rep F s t" "is_rbt t" "nodes t = xs @ x # ys"
  shows "\<exists>s' t'. rb_erase x s = Some s' \<and> rep (F(x := rb_mem s x)) s' t' \<and> is_rbt t' \<and> nodes t' = xs @ ys"
proof -
  from assms(3) position_of [of x t] obtain k l c r where t: "t = plug k (Node l c x r)" by auto
  have "distinct ((before k @ nodes l) @ x # nodes r @ after k)" using assms(1) t by (simp add: rep_def)
  moreover have "(before k @ nodes l) @ x # nodes r @ after k = xs @ x # ys" using assms(3) t by simp
  ultimately have e: "xs = before k @ nodes l \<and> ys = nodes r @ after k" by (rule distinct_split_unique)
  from rep_rb_erase assms(1,2) t obtain s' where
    "rb_erase x s = Some s'" "rep (F(x := rb_mem s x)) s' (rb_erase_at l c r k)" by blast
  moreover have "is_rbt (rb_erase_at l c r k)" using assms(2) t by (simp add: rb_erase_rbt)
  ultimately show ?thesis using e by (intro exI [of _ s'] exI [of _ "rb_erase_at l c r k"]) simp
qed

theorem rb_erase_correct_witness:
  "\<exists>s' t'. rb_erase 64 ex_rb1 = Some s' \<and> nodes t' = [] \<and> rep ((rb_mem ex_rb0)(64 := rb_mem ex_rb1 64)) s' t'"
  using rb_erase_correct [OF ex_rb1_rep, of "[]" 64 "[]"] by auto



text \<open>C31. Walking a tree from \<open>rb_first\<close> with \<open>rb_next\<close> ends and visits exactly its nodes in order, and from
  \<open>rb_last\<close> with \<open>rb_prev\<close> in the reverse order.\<close>

theorem rb_walk_inorder:
  assumes "rep F s t"
  shows "Option.bind (rb_first s) (rb_collect rb_next s) = Some (nodes t) \<and>
    Option.bind (rb_last s) (rb_collect rb_prev s) = Some (rev (nodes t))"
  using rb_inorder [OF assms] by simp

theorem rb_walk_inorder_witness:
  "Option.bind (rb_first ex_rb1) (rb_collect rb_next ex_rb1) = Some [64]"
  using rb_walk_inorder [OF ex_rb1_rep(1)] by simp

text \<open>\<open>rb_first_postorder\<close> and \<open>rb_next_postorder\<close> visit every node exactly once, children before their
  parent, so that a caller may free each node it is given.\<close>

theorem rb_walk_postorder:
  assumes "rep F s t"
  shows "Option.bind (rb_first_postorder s) (rb_collect rb_next_postorder s) = Some (postorder t)"
  using rb_postorder [OF assms] by simp

theorem rb_walk_postorder_witness:
  "Option.bind (rb_first_postorder ex_rb1) (rb_collect rb_next_postorder ex_rb1) = Some [64]"
  using rb_walk_postorder [OF ex_rb1_rep(1)] by simp

text \<open>C32. \<open>rb_iterate\<close> with a callback that returns 0 and changes at most the memory of its own node
  (which it may free) ends, calls the callback once per node in post-order and returns 0.\<close>

theorem rb_iterate_correct:
  assumes "well_behaved func g" "rep F s t"
  shows "\<exists>s'. rb_iterate func u s = Some (0, fold g (postorder t) u, s')"
  using rb_iterate_fold [OF assms] by blast

theorem rb_iterate_correct_witness:
  "\<exists>s'. rb_iterate (\<lambda>x u s. (0, x # u, s)) [] ex_rb1 = Some (0, [64], s')"
  using rb_iterate_correct [OF _ ex_rb1_rep(1), of "\<lambda>x u s. (0, x # u, s)" "(#)" "[]"]
  by (simp add: well_behaved_def)

text \<open>A callback that reports an error does not stop \<open>rb_iterate\<close>: the \<open>break\<close> leaves only the inner
  loop, and with a callback that fails on the only node of a tree the iteration never returns.\<close>

theorem rb_iterate_error_never_returns:
  assumes "rep F s (Node Leaf c x Leaf)" "\<And>u. \<exists>u'. func x u s = (1, u', s)"
  shows "rb_iterate func u s = None"
  using assms by (rule rb_iterate_error_diverges)

theorem rb_iterate_error_never_returns_witness:
  "rb_iterate (\<lambda>x u s. (1, u, s)) () ex_rb1 = None"
  by (rule rb_iterate_error_never_returns [OF ex_rb1_rep(1)]) simp

subsection \<open>Linked lists\<close>

text \<open>C36. \<open>list_add\<close> and \<open>list_add_tail\<close> put a new entry at the front and at the back of the cyclic list,
  with consistent links in both directions.\<close>

theorem list_add_correct:
  assumes "is_clist h head xs" "e \<noteq> head" "e \<notin> set xs"
  shows "is_clist (list_add e head h) head (e # xs) \<and> is_clist (list_add_tail e head h) head (xs @ [e])"
  using assms by (simp add: is_clist_list_add is_clist_list_add_tail)

theorem list_add_correct_witness:
  "is_clist (list_add_tail 2 1 (INIT_LIST_HEAD (1 :: nat) (\<lambda>_. \<lparr>lh_next = 0, lh_prev = 0\<rparr>))) 1 [2]"
  using list_add_correct [OF is_clist_init, of "2 :: nat" 1 "\<lambda>_. \<lparr>lh_next = 0, lh_prev = 0\<rparr>"] by simp


definition ex_list :: "nat lstore" where
  "ex_list = list_add 2 1 (list_add 3 1 (INIT_LIST_HEAD 1 (\<lambda>_. \<lparr>lh_next = 0, lh_prev = 0\<rparr>)))"

lemma ex_list_rep: "is_clist ex_list 1 [2, 3]"
  unfolding ex_list_def by (intro is_clist_list_add is_clist_init) simp_all


text \<open>C37. \<open>list_splice_init\<close> prepends one list to another and empties it.\<close>

theorem list_splice_init_correct:
  assumes "is_clist h l xs" "is_clist h head ys" "set (l # xs) \<inter> set (head # ys) = {}"
  shows "is_clist (list_splice_init l head h) head (xs @ ys) \<and> is_clist (list_splice_init l head h) l []"
  using is_clist_splice [OF assms] by simp

lemma ex_list_two: "is_clist (INIT_LIST_HEAD 4 ex_list) 1 [2, 3]" "is_clist (INIT_LIST_HEAD 4 ex_list) 4 []"
  by (rule is_clist_frame [OF ex_list_rep], auto simp: INIT_LIST_HEAD_def set_other) (rule is_clist_init [unfolded INIT_LIST_HEAD_def])

theorem list_splice_init_correct_witness:
  "is_clist (list_splice_init 1 4 (INIT_LIST_HEAD 4 ex_list)) 4 [2, 3]"
  using list_splice_init_correct [OF ex_list_two] by simp

text \<open>C38. \<open>list_for_each\<close> ends after one round per entry and visits the entries in order;
  \<open>list_for_each_safe\<close> with a body that deletes its own entry ends as well and leaves the list empty.\<close>

theorem list_for_each_correct:
  assumes "is_clist h head xs"
  shows "list_for_each (Suc (length xs)) h head (lh_next (h head)) = Some xs \<and>
    (\<exists>h'. list_for_each_safe (Suc (length xs)) list_del head (lh_next (h head))
        (lh_next (h (lh_next (h head)))) h = Some h' \<and> is_clist h' head [])"
  using list_for_each_visits [OF assms lessI] list_for_each_safe_del [OF assms lessI] by blast

theorem list_for_each_correct_witness:
  "list_for_each 3 ex_list 1 (lh_next (ex_list 1)) = Some [2, 3]"
  using list_for_each_correct [OF ex_list_rep] by (simp add: numeral_3_eq_3)

end
