(* ===== verification/Common.thy ===== *)
theory Common
  imports Client_Types
begin

text \<open>
  The helpers of \<open>common.c\<close>: a string copy that always terminates the target, and the binary
  search of the server in a sorted array of 32-bit or 64-bit values, with the values read from the
  raw bytes of a message.
\<close>

subsection \<open>Strings\<close>

text \<open>
  \<open>strncpy\<close> copies at most \<open>n\<close> bytes of a zero-terminated string and fills the rest of the \<open>n\<close> bytes
  with zeros. The target is the list of its bytes; the source has no zero in it.
\<close>

definition strncpy :: "bytes \<Rightarrow> bytes \<Rightarrow> nat \<Rightarrow> bytes" where
  "strncpy dst src n = take n (src @ replicate n 0) @ drop n dst"

definition safe_strncpy :: "bytes \<Rightarrow> bytes \<Rightarrow> nat \<Rightarrow> bytes" where
  "safe_strncpy dst src sz =
     (if sz = 0 then dst
      else strncpy (dst[sz - 1 := 0]) src (sz - 1))"

subsection \<open>Binary search\<close>

definition get_val32 :: "bytes \<Rightarrow> ulong \<Rightarrow> ulong option" where
  "get_val32 data index = get_uint32 (drop (unat (index * 4)) data)"

definition get_val64 :: "bytes \<Rightarrow> ulong \<Rightarrow> ulong option" where
  "get_val64 data index = get_uint64 (drop (unat (index * 8)) data)"

text \<open>
  The \<open>do\<close> loop of \<open>find_block\<close>. \<open>None\<close> stands for a read outside the array and for a loop that does
  not end, which only a sum of the two bounds that overflows could cause.
\<close>

partial_function (option) find_loop ::
  "(ulong \<Rightarrow> ulong option) \<Rightarrow> ulong \<Rightarrow> ulong \<Rightarrow> ulong \<Rightarrow> ulong \<Rightarrow> ulong option" where
  "find_loop get_val n addr first lst =
     Option.bind (get_val (drop_bit 1 (first + lst))) (\<lambda>val.
       let middle = drop_bit 1 (first + lst) in
       if addr < val then (if first < middle then find_loop get_val n addr first middle else Some n)
       else if addr > val then (if middle + 1 < lst then find_loop get_val n addr (middle + 1) lst else Some n)
       else Some middle)"

definition find_block :: "(ulong \<Rightarrow> ulong option) \<Rightarrow> ulong \<Rightarrow> ulong \<Rightarrow> ulong option" where
  "find_block get_val n addr =
     Option.bind (get_val 0) (\<lambda>v.
       if addr < v then Some n
       else Option.bind (get_val (n - 1)) (\<lambda>v.
         if addr > v then Some n else find_loop get_val n addr 0 n))"

subsection \<open>The copy\<close>

lemma safe_strncpy_terminated:
  assumes "0 < sz" "sz \<le> length dst"
  shows "length (safe_strncpy dst src sz) = length dst \<and> safe_strncpy dst src sz ! (sz - 1) = 0 \<and>
    take (sz - 1) (safe_strncpy dst src sz) = take (sz - 1) (src @ replicate sz 0)"
  using assms by (cases sz) (auto simp: safe_strncpy_def strncpy_def nth_append min_def take_Cons' replicate_append_same [symmetric])

subsection \<open>The search\<close>

text \<open>An array with the values \<open>vs\<close>.\<close>

definition holds_array :: "(ulong \<Rightarrow> ulong option) \<Rightarrow> ulong list \<Rightarrow> bool" where
  "holds_array get_val vs \<longleftrightarrow> (\<forall>i. unat i < length vs \<longrightarrow> get_val i = Some (vs ! unat i))"

lemma unat_middle:
  fixes f l :: ulong
  assumes "unat f + unat l < 2 ^ 64"
  shows "unat (drop_bit 1 (f + l)) = (unat f + unat l) div 2"
proof -
  have "unat (f + l) = unat f + unat l" using assms by (simp add: unat_word_ariths)
  then show ?thesis by (simp add: drop_bit_eq_div unat_div_distrib)
qed

theorem find_loop_correct:
  assumes "holds_array get_val vs" "sorted vs" "length vs \<le> 2 ^ 63"
    and "unat first < unat lst" "unat lst \<le> length vs" "n = of_nat (length vs)"
    and "\<And>i. i < unat first \<Longrightarrow> vs ! i < addr" "\<And>i. unat lst \<le> i \<Longrightarrow> i < length vs \<Longrightarrow> addr < vs ! i"
  shows "\<exists>r. find_loop get_val n addr first lst = Some r \<and>
     (if addr \<in> set vs then unat r < length vs \<and> vs ! unat r = addr else r = n)"
  using assms(4,5,7,8)
proof (induction "unat lst - unat first" arbitrary: first lst rule: less_induct)
  case less
  define m where "m = drop_bit 1 (first + lst)"
  have um: "unat m = (unat first + unat lst) div 2"
    unfolding m_def by (rule unat_middle) (use less.prems(1,2) assms(3) in simp)
  then have b: "unat first \<le> unat m" "unat m < unat lst" "unat m < length vs" using less.prems(1,2) by linarith+
  then have g: "get_val m = Some (vs ! unat m)" using assms(1) by (simp add: holds_array_def)
  have m1: "unat (m + 1) = unat m + 1" using b(3) assms(3) by (simp add: unat_word_ariths)
  have mono: "vs ! i \<le> vs ! j" if "i \<le> j" "j < length vs" for i j using assms(2) that by (rule sorted_nth_mono)
  have eq: "find_loop get_val n addr first lst =
      (if addr < vs ! unat m then (if first < m then find_loop get_val n addr first m else Some n)
       else if addr > vs ! unat m then (if m + 1 < lst then find_loop get_val n addr (m + 1) lst else Some n)
       else Some m)"
    by (subst find_loop.simps) (simp only: Let_def m_def [symmetric] g Option.bind.simps)
  consider "addr < vs ! unat m" | "addr > vs ! unat m" | "addr = vs ! unat m" by fastforce
  then show ?case
  proof cases
    case 1
    have hi: "addr < vs ! i" if "unat m \<le> i" "i < length vs" for i using 1 mono [OF that] by simp
    show ?thesis
    proof (cases "first < m")
      case True
      then have "unat first < unat m" by (simp add: word_less_nat_alt)
      from less.hyps [OF _ this _ less.prems(3) hi] b eq 1 True show ?thesis by auto
    next
      case False
      then have "unat m = unat first" using b(1) by (simp add: word_less_nat_alt)
      then have "vs ! i \<noteq> addr" if "i < length vs" for i
        using hi [of i] less.prems(3) [of i] that by (cases "i < unat m") auto
      then have "addr \<notin> set vs" by (auto simp: in_set_conv_nth)
      then show ?thesis using eq 1 False by simp
    qed
  next
    case 2
    have lo: "vs ! i < addr" if "i < unat (m + 1)" for i using 2 mono [of i "unat m"] that m1 b(3) by simp
    show ?thesis
    proof (cases "m + 1 < lst")
      case True
      then have "unat (m + 1) < unat lst" by (simp add: word_less_nat_alt)
      from less.hyps [OF _ this less.prems(2) lo less.prems(4)] b m1 eq 2 True show ?thesis by auto
    next
      case False
      then have "unat lst \<le> unat (m + 1)" by (simp add: word_less_nat_alt)
      then have "vs ! i \<noteq> addr" if "i < length vs" for i
        using lo [of i] less.prems(4) [of i] that by (cases "i < unat (m + 1)") auto
      then have "addr \<notin> set vs" by (auto simp: in_set_conv_nth)
      then show ?thesis using eq 2 False by (auto simp: order_less_imp_not_less)
    qed
  next
    case 3
    then show ?thesis using eq b(3) by auto
  qed
qed

theorem find_block_result:
  assumes "holds_array get_val vs" "sorted vs" "vs \<noteq> []" "length vs \<le> 2 ^ 63" "n = of_nat (length vs)"
  shows "\<exists>r. find_block get_val n addr = Some r \<and>
     (if addr \<in> set vs then unat r < length vs \<and> vs ! unat r = addr else r = n)"
proof -
  have un: "unat n = length vs" using assms(4,5) by (simp add: unat_of_nat)
  have g0: "get_val 0 = Some (vs ! 0)" using assms(1,3) by (simp add: holds_array_def)
  have u1: "unat (n - 1) = length vs - 1" using un assms(3) by (metis unat_minus_one unat_0 length_0_conv)
  then have g1: "get_val (n - 1) = Some (vs ! (length vs - 1))" using assms(1,3) by (simp add: holds_array_def)
  have mono: "vs ! i \<le> vs ! j" if "i \<le> j" "j < length vs" for i j using assms(2) that by (rule sorted_nth_mono)
  consider "addr < vs ! 0" | "addr > vs ! (length vs - 1)" | "\<not> addr < vs ! 0" "\<not> addr > vs ! (length vs - 1)" by blast
  then show ?thesis
  proof cases
    case 1
    then have "addr \<notin> set vs" using mono [of 0] by (metis in_set_conv_nth leD zero_le)
    then show ?thesis using g0 1 by (simp add: find_block_def)
  next
    case 2
    have "v \<le> vs ! (length vs - 1)" if "v \<in> set vs" for v
      using that mono [of _ "length vs - 1"] assms(3) by (fastforce simp: in_set_conv_nth)
    with 2 have "addr \<notin> set vs" by fastforce
    then show ?thesis using g0 g1 2 by (simp add: find_block_def)
  next
    case 3
    from find_loop_correct [OF assms(1,2,4) _ _ assms(5), of 0 n addr] un assms(3) 3 g0 g1 show ?thesis
      by (simp add: find_block_def)
  qed
qed

end
