(* ===== verification/Mem_Scan.thy ===== *)
theory Mem_Scan
  imports Common
begin

text \<open>
  The leak scan of the tracer (\<open>mem_scan\<close> of \<open>sysdeps/linux-gnu/os.c\<close>): the request holds the sorted
  addresses of the known blocks; every aligned word of every writable page that is one of them is
  taken out of the array, and what is left has no reference. The model works on the bytes of the
  message, as the code does. The pages and their errors are the environment;
  a mapping list that is not closed by an empty entry ends as one that is.
\<close>

subsection \<open>The scan\<close>

definition PAGE_SIZE :: ulong where "PAGE_SIZE = 4096"

record scan_env =
  writeable_mappings :: "(ulong \<times> ulong) list"
  mem_page :: "ulong \<Rightarrow> bytes option"
  copy_page :: "ulong \<Rightarrow> bytes option"

text \<open>
  The mappings come from the lines of \<open>/proc/pid/maps\<close> (\<open>get_writeable_mappings\<close>). A line is what
  \<open>fscanf\<close> reads of it: the range, the first two permissions and the file, empty when there is none;
  the list ends at the first line that does not match the format. The second value is the size of the
  array the source grows; \<open>None\<close> would be an entry stored outside it.
\<close>

datatype file_stat = NoFile | CharDevice nat nat | OtherFile

record map_line =
  ml_start :: ulong
  ml_end :: ulong
  ml_permr :: char
  ml_permw :: char
  ml_file :: string

fun scannable :: "file_stat \<Rightarrow> bool" where
  "scannable NoFile = False"
| "scannable (CharDevice major minor) = ((major, minor) = (1, 5))"
| "scannable OtherFile = True"

definition map_line_used :: "(string \<Rightarrow> file_stat) \<Rightarrow> map_line \<Rightarrow> bool" where
  "map_line_used stat ln \<longleftrightarrow>
     (ml_file ln = [] \<or> hd (ml_file ln) = CHR ''['' \<or> scannable (stat (ml_file ln))) \<and>
     ml_permw ln = CHR ''w'' \<and> ml_permr ln = CHR ''r''"

fun collect_maps ::
  "(string \<Rightarrow> file_stat) \<Rightarrow> map_line list \<Rightarrow> (ulong \<times> ulong) list \<Rightarrow> nat \<Rightarrow> ((ulong \<times> ulong) list \<times> nat) option" where
  "collect_maps stat [] maps maps_size =
     (if length maps < maps_size then Some (maps @ [(0, 0)], maps_size) else None)"
| "collect_maps stat (ln # lns) maps maps_size =
     (if \<not> map_line_used stat ln then collect_maps stat lns maps maps_size
      else
        let maps_size = (if length maps \<ge> maps_size - 1 then maps_size + 16 else maps_size) in
        if length maps < maps_size then collect_maps stat lns (maps @ [(ml_start ln, ml_end ln)]) maps_size
        else None)"

definition get_writeable_mappings ::
  "(string \<Rightarrow> file_stat) \<Rightarrow> map_line list option \<Rightarrow> ((ulong \<times> ulong) list \<times> nat) option" where
  "get_writeable_mappings stat proc_maps =
     collect_maps stat (case proc_maps of None \<Rightarrow> [] | Some lns \<Rightarrow> lns) [] 16"

definition get_val_of :: "nat \<Rightarrow> bytes \<Rightarrow> ulong \<Rightarrow> ulong option" where
  "get_val_of psz = (if psz = 4 then get_val32 else get_val64)"

text \<open>The \<open>memmove\<close> that closes the gap at \<open>found\<close> in an array of which \<open>n\<close> entries will be left.\<close>

definition close_gap :: "nat \<Rightarrow> bytes \<Rightarrow> ulong \<Rightarrow> ulong \<Rightarrow> bytes" where
  "close_gap psz blks n found =
     (let dst = unat found * psz; src = unat (found + 1) * psz; len = unat (n - found) * psz in
      take dst blks @ take len (drop src blks) @ drop (dst + len) blks)"

text \<open>
  One word of a page: the array and the number of its entries. \<open>None\<close> is a read outside the array.
\<close>

definition scan_word :: "nat \<Rightarrow> ulong \<Rightarrow> ulong \<Rightarrow> bytes \<times> ulong \<Rightarrow> (bytes \<times> ulong) option" where
  "scan_word psz msk addr = (\<lambda>(blks, n).
     if addr AND msk \<noteq> 0 then Some (blks, n)
     else Option.bind (find_block (get_val_of psz blks) n addr) (\<lambda>found.
       if found \<noteq> n then
         let n = n - 1 in
         if n = 0 then Some (blks, n)
         else if found \<noteq> n then Some (close_gap psz blks n found, n)
         else Some (blks, n)
       else Some (blks, n)))"

text \<open>The loop over the words of a page, which ends early when no block is left.\<close>

fun scan_words :: "nat \<Rightarrow> ulong \<Rightarrow> bytes \<Rightarrow> nat list \<Rightarrow> bytes \<times> ulong \<Rightarrow> (bytes \<times> ulong) option" where
  "scan_words psz msk page [] st = Some st"
| "scan_words psz msk page (i # is) st =
     Option.bind (get_val_of psz page (of_nat i)) (\<lambda>addr.
     Option.bind (scan_word psz msk addr st) (\<lambda>st.
       if snd st = 0 then Some st else scan_words psz msk page is st))"

definition scan_page :: "nat \<Rightarrow> ulong \<Rightarrow> bytes \<Rightarrow> bytes \<times> ulong \<Rightarrow> (bytes \<times> ulong) option" where
  "scan_page psz msk page st = scan_words psz msk page [0..<unat PAGE_SIZE div psz] st"

text \<open>The pages of one mapping; once a page cannot be read from the file it is copied by \<open>ptrace\<close>.\<close>

partial_function (option) scan_map ::
  "scan_env \<Rightarrow> nat \<Rightarrow> ulong \<Rightarrow> ulong \<Rightarrow> ulong \<Rightarrow> bool \<Rightarrow> bytes \<times> ulong \<Rightarrow> (bytes \<times> ulong) option" where
  "scan_map env psz msk start end_addr do_peek st =
     (if start < end_addr then
        let do_peek = do_peek \<or> mem_page env start = None;
            page = (if do_peek then copy_page env start else mem_page env start)
        in
        if page = None then Some st
        else Option.bind (scan_page psz msk (the page) st) (\<lambda>st.
          if snd st = 0 then Some st
          else scan_map env psz msk (start + PAGE_SIZE) end_addr do_peek st)
      else Some st)"

fun scan_maps :: "scan_env \<Rightarrow> nat \<Rightarrow> ulong \<Rightarrow> (ulong \<times> ulong) list \<Rightarrow> bytes \<times> ulong \<Rightarrow> (bytes \<times> ulong) option" where
  "scan_maps env psz msk [] st = Some st"
| "scan_maps env psz msk ((start, end_addr) # ms) st =
     (if start = 0 \<or> end_addr = 0 then Some st
      else Option.bind (scan_map env psz msk start end_addr False st) (\<lambda>st.
        if snd st = 0 then Some st else scan_maps env psz msk ms st))"

text \<open>
  The whole scan of a request: the payload is \<open>struct mt_scan_payload\<close>, the result the bytes that are
  sent back, or \<open>Some None\<close> when there is nothing to scan.
\<close>

definition mem_scan :: "scan_env \<Rightarrow> u32 \<Rightarrow> bytes \<Rightarrow> bytes option option" where
  "mem_scan env len payload =
     Option.bind (read_bytes 16 payload) (\<lambda>hdr.
       let psz = unat (ucast (le_word (take 4 hdr)) :: u32);
           msk = le_word (drop 8 hdr);
           blks = drop 16 payload
       in
       if psz = 0 then None
       else
         let n = (ucast len - 16) div (of_nat psz :: ulong) in
         if n = 0 then Some None
         else Option.bind (scan_maps env psz msk (writeable_mappings env) (blks, n)) (\<lambda>(blks, n).
           Some (Some (take (unat (n * of_nat psz)) blks))))"

subsection \<open>The mappings\<close>

lemma collect_maps_result:
  "length maps < sz \<Longrightarrow> 0 < sz \<Longrightarrow>
   \<exists>sz'. collect_maps stat lns maps sz =
     Some (maps @ map (\<lambda>ln. (ml_start ln, ml_end ln)) (filter (map_line_used stat) lns) @ [(0, 0)], sz')"
proof (induction lns arbitrary: maps sz)
  case (Cons ln lns)
  define sz1 where "sz1 = (if length maps \<ge> sz - 1 then sz + 16 else sz)"
  have "length maps < sz1" "length (maps @ [(ml_start ln, ml_end ln)]) < sz1" "0 < sz1"
    using Cons.prems by (auto simp: sz1_def)
  then show ?case using Cons.IH [of maps sz] Cons.IH [of "maps @ [(ml_start ln, ml_end ln)]" sz1] Cons.prems
    by (auto simp: Let_def sz1_def split: if_splits)
qed simp

text \<open>The array of mappings is never written outside its bounds and holds the readable and writable
  mappings, in order, closed by an empty one.\<close>

theorem get_writeable_mappings_result:
  "\<exists>sz. get_writeable_mappings stat pm =
     Some (map (\<lambda>ln. (ml_start ln, ml_end ln)) (filter (map_line_used stat) (case pm of None \<Rightarrow> [] | Some lns \<Rightarrow> lns)) @ [(0, 0)], sz)"
  unfolding get_writeable_mappings_def using collect_maps_result [of "[]" 16 stat] by simp

subsection \<open>The words of the process\<close>

definition page_words :: "nat \<Rightarrow> bytes \<Rightarrow> ulong list" where
  "page_words psz page = map (\<lambda>i. the (get_val_of psz page (of_nat i))) [0..<unat PAGE_SIZE div psz]"

definition page_at :: "scan_env \<Rightarrow> ulong \<Rightarrow> bytes option" where
  "page_at env a = (if mem_page env a = None then copy_page env a else mem_page env a)"

text \<open>Both ways to read a page give the same bytes, and every page of the mapping can be read.\<close>

definition consistent :: "scan_env \<Rightarrow> bool" where
  "consistent env \<longleftrightarrow> (\<forall>a p. mem_page env a = Some p \<longrightarrow> copy_page env a = Some p)"

definition readable :: "scan_env \<Rightarrow> ulong \<times> ulong \<Rightarrow> bool" where
  "readable env = (\<lambda>(s, e). s \<noteq> 0 \<and> e \<noteq> 0 \<and> unat e + 4096 \<le> 2 ^ 64 \<and>
     (\<forall>k. unat s + k * 4096 < unat e \<longrightarrow> (\<exists>p. page_at env (s + of_nat k * PAGE_SIZE) = Some p \<and> length p = 4096)))"

definition map_words :: "scan_env \<Rightarrow> nat \<Rightarrow> ulong \<times> ulong \<Rightarrow> ulong set" where
  "map_words env psz = (\<lambda>(s, e). {w. \<exists>k p. unat s + k * 4096 < unat e \<and>
     page_at env (s + of_nat k * PAGE_SIZE) = Some p \<and> w \<in> set (page_words psz p)})"

lemma unat_next_page: "unat s < unat e \<Longrightarrow> unat e + 4096 \<le> 2 ^ 64 \<Longrightarrow> unat (s + PAGE_SIZE) = unat s + 4096"
  by (simp add: PAGE_SIZE_def unat_word_ariths)

lemma readable_next:
  assumes "readable env (s, e)" "unat s < unat e"
  shows "readable env (s + PAGE_SIZE, e)"
proof -
  have "unat e + 4096 \<le> 2 ^ 64" using assms(1) unfolding readable_def by blast
  with assms(2) have n: "unat (s + PAGE_SIZE) = unat s + 4096" by (rule unat_next_page)
  then have "s + PAGE_SIZE \<noteq> 0" by (metis unat_0 add_is_0 zero_neq_numeral)
  moreover have "\<exists>p. page_at env (s + PAGE_SIZE + of_nat k * PAGE_SIZE) = Some p \<and> length p = 4096"
    if "unat (s + PAGE_SIZE) + k * 4096 < unat e" for k
    using assms(1) that n by (auto simp: readable_def algebra_simps dest!: spec [of _ "Suc k"])
  ultimately show ?thesis using assms(1) by (simp add: readable_def)
qed

lemma map_words_next:
  assumes "unat s < unat e" "unat e + 4096 \<le> 2 ^ 64" "page_at env s = Some p"
  shows "map_words env psz (s, e) = set (page_words psz p) \<union> map_words env psz (s + PAGE_SIZE, e)" (is "?L = ?R")
proof (intro set_eqI iffI)
  note n = unat_next_page [OF assms(1,2)]
  fix w
  assume "w \<in> ?L"
  then obtain k q where k: "unat s + k * 4096 < unat e" "page_at env (s + of_nat k * PAGE_SIZE) = Some q"
      "w \<in> set (page_words psz q)" by (auto simp: map_words_def)
  show "w \<in> ?R"
  proof (cases k)
    case 0
    with k assms(3) show ?thesis by simp
  next
    case (Suc j)
    with k n show ?thesis by (auto simp: map_words_def algebra_simps intro!: exI [of _ j])
  qed
next
  note n = unat_next_page [OF assms(1,2)]
  fix w
  assume "w \<in> ?R"
  then consider "w \<in> set (page_words psz p)" | "w \<in> map_words env psz (s + PAGE_SIZE, e)" by blast
  then show "w \<in> ?L"
  proof cases
    case 1
    with assms show ?thesis by (auto simp: map_words_def intro!: exI [of _ 0])
  next
    case 2
    then obtain k q where "unat (s + PAGE_SIZE) + k * 4096 < unat e" "page_at env (s + PAGE_SIZE + of_nat k * PAGE_SIZE) = Some q"
        "w \<in> set (page_words psz q)" by (auto simp: map_words_def)
    with n show ?thesis by (auto simp: map_words_def algebra_simps intro!: exI [of _ "Suc k"])
  qed
qed

lemma map_words_done: "\<not> unat s < unat e \<Longrightarrow> map_words env psz (s, e) = {}"
  by (auto simp: map_words_def)

subsection \<open>Arrays of values in a buffer\<close>

lemma small_unat: "k < 2 ^ 60 \<Longrightarrow> unat (of_nat k :: ulong) = k"
  by (simp add: unat_of_nat)

lemma index_times:
  fixes k m :: nat
  assumes "k < 2 ^ 60" and "m \<le> 8"
  shows "unat ((of_nat k :: ulong) * of_nat m) = k * m"
proof -
  have "k * m \<le> k * 8" using assms(2) by simp
  also have "\<dots> < 2 ^ 63" using assms(1) by simp
  finally have "k * m < 2 ^ 63" .
  then show ?thesis by (simp add: unat_of_nat flip: of_nat_mult)
qed

locale value_array =
  fixes psz :: nat and enc :: "ulong \<Rightarrow> bytes" and get :: "bytes \<Rightarrow> ulong \<Rightarrow> ulong option" and ok :: "ulong \<Rightarrow> bool"
  assumes pos: "0 < psz"
    and get_is: "get_val_of psz = get"
    and length_enc: "length (enc v) = psz"
    and get_enc: "ok v \<Longrightarrow> i = of_nat k \<Longrightarrow> k < 2 ^ 60 \<Longrightarrow> length p = k * psz \<Longrightarrow> get (p @ enc v @ q) i = Some v"
    and get_page: "length page = 4096 \<Longrightarrow> k < 4096 div psz \<Longrightarrow> get page (of_nat k) \<noteq> None"
begin

definition array :: "ulong list \<Rightarrow> bytes" where
  "array vs = concat (map enc vs)"

lemma array_simps [simp]: "array [] = []" "array (v # vs) = enc v @ array vs" "array (us @ vs) = array us @ array vs"
  by (simp_all add: array_def)

lemma length_array [simp]: "length (array vs) = length vs * psz"
  by (induction vs) (auto simp: length_enc)

lemma holds_array:
  assumes "\<forall>v \<in> set vs. ok v" "length vs < 2 ^ 60"
  shows "holds_array (get (array vs @ q)) vs"
  unfolding holds_array_def
proof (intro allI impI)
  fix i :: ulong
  assume i: "unat i < length vs"
  then have vs: "vs = take (unat i) vs @ vs ! unat i # drop (Suc (unat i)) vs" by (rule id_take_nth_drop)
  have "get (array (take (unat i) vs) @ enc (vs ! unat i) @ array (drop (Suc (unat i)) vs) @ q) i = Some (vs ! unat i)"
    by (rule get_enc [where k = "unat i"]) (use assms i in auto)
  then show "get (array vs @ q) i = Some (vs ! unat i)"
    by (subst vs) (simp del: append_take_drop_id add: Cons_nth_drop_Suc)
qed

lemma close_gap_array:
  assumes "k < length vs" "n = of_nat (length vs - 1)" "found = of_nat k" "length vs < 2 ^ 60"
  shows "\<exists>q'. close_gap psz (array vs @ q) n found = array (take k vs @ drop (Suc k) vs) @ q'"
proof -
  have u: "unat found = k" "unat (found + 1) = Suc k" "unat (n - found) = length vs - 1 - k"
  proof -
    show uf: "unat found = k" unfolding assms(3) by (rule small_unat) (use assms(1,4) in linarith)
    show "unat (found + 1) = Suc k" using uf assms by (simp add: unat_word_ariths)
    have "n - found = of_nat (length vs - 1 - k)" using assms(1-3) by (simp add: of_nat_diff)
    moreover have "unat (of_nat (length vs - 1 - k) :: ulong) = length vs - 1 - k" by (rule small_unat) (use assms(4) in linarith)
    ultimately show "unat (n - found) = length vs - 1 - k" by (simp only:)
  qed
  have a: "array vs @ q = array (take k vs) @ enc (vs ! k) @ array (drop (Suc k) vs) @ q"
    by (subst id_take_nth_drop [OF assms(1)]) simp
  have l: "length (array (take k vs)) = k * psz" using assms(1) by simp
  have "take (k * psz) (array vs @ q) = array (take k vs)" by (metis a append_eq_conv_conj l)
  moreover have "length (array (take k vs) @ enc (vs ! k)) = Suc k * psz" using l by (simp add: length_enc del: length_array)
  then have "drop (Suc k * psz) (array vs @ q) = array (drop (Suc k) vs) @ q"
    by (metis a append.assoc append_eq_conv_conj)
  moreover have "take ((length vs - 1 - k) * psz) (array (drop (Suc k) vs) @ q) = array (drop (Suc k) vs)"
    by (simp add: diff_mult_distrib)
  ultimately show ?thesis
    unfolding close_gap_def u Let_def array_simps by (simp only: append.assoc same_append_eq) blast
qed

lemma remove_nth:
  assumes "distinct vs" "k < length vs"
  shows "take k vs @ drop (Suc k) vs = filter (\<lambda>v. v \<noteq> vs ! k) vs"
proof -
  have "distinct (take k vs @ vs ! k # drop (Suc k) vs)" using assms by (simp flip: id_take_nth_drop)
  then have "filter (\<lambda>v. v \<noteq> vs ! k) (take k vs) = take k vs" "filter (\<lambda>v. v \<noteq> vs ! k) (drop (Suc k) vs) = drop (Suc k) vs"
    by (auto simp only: filter_id_conv distinct_append distinct.simps list.set)
  then have "filter (\<lambda>v. v \<noteq> vs ! k) (take k vs @ vs ! k # drop (Suc k) vs) = take k vs @ drop (Suc k) vs" by simp
  then show ?thesis using assms(2) by (simp flip: id_take_nth_drop)
qed

text \<open>The state of the scan: the values that are left.\<close>

definition left_with :: "ulong list \<Rightarrow> bytes \<times> ulong \<Rightarrow> bool" where
  "left_with vs st \<longleftrightarrow> (\<exists>q. st = (array vs @ q, of_nat (length vs))) \<and> sorted_wrt (<) vs \<and> (\<forall>v \<in> set vs. ok v) \<and>
     length vs < 2 ^ 60"

lemma left_with_filter: "left_with vs st \<Longrightarrow> sorted_wrt (<) (filter P vs) \<and> (\<forall>v \<in> set (filter P vs). ok v) \<and> length (filter P vs) < 2 ^ 60"
  using length_filter_le [of P vs] unfolding left_with_def by (auto simp: sorted_wrt_filter simp del: length_filter_le)

lemma scan_word_left:
  assumes l: "left_with vs st" and ne: "vs \<noteq> []"
  shows "\<exists>st'. scan_word psz msk addr st = Some st' \<and> left_with (filter (\<lambda>v. \<not> (v = addr \<and> addr AND msk = 0)) vs) st'"
proof (cases "addr AND msk = 0")
  case False
  then show ?thesis using l by (cases st) (auto simp: scan_word_def)
next
  case True
  obtain q where st: "st = (array vs @ q, of_nat (length vs))" and s: "sorted_wrt (<) vs" "\<forall>v \<in> set vs. ok v" "length vs < 2 ^ 60"
    using l by (auto simp: left_with_def)
  let ?n = "of_nat (length vs) :: ulong"
  have un: "unat ?n = length vs" using s(3) by (simp add: unat_of_nat)
  have d: "distinct vs" "sorted vs" using s(1) by (simp_all add: strict_sorted_iff)
  from find_block_result [OF holds_array [OF s(2,3)] d(2) ne, of ?n q addr] s(3) obtain r where
    r: "find_block (get (array vs @ q)) ?n addr = Some r"
      "if addr \<in> set vs then unat r < length vs \<and> vs ! unat r = addr else r = ?n" by auto
  note f = left_with_filter [OF l, of "\<lambda>v. v \<noteq> addr"]
  show ?thesis
  proof (cases "addr \<in> set vs")
    case False
    then have "filter (\<lambda>v. v \<noteq> addr) vs = vs" by (auto simp: filter_id_conv)
    with False r True l show ?thesis by (simp add: st scan_word_def get_is)
  next
    case in_vs: True
    define k where "k = unat r"
    have k: "k < length vs" "vs ! k = addr" "r = of_nat k" using r(2) in_vs by (simp_all add: k_def)
    have ne_n: "r \<noteq> ?n" using k(1) un by (auto simp: k_def)
    have n1: "?n - 1 = of_nat (length vs - 1)" using ne by (cases vs) simp_all
    have u1: "unat (?n - 1) = length vs - 1" "0 < length vs - 1 \<or> length vs = 1"
      using small_unat [of "length vs - 1"] s(3) n1 ne by (cases vs; simp)+
    have fl: "filter (\<lambda>v. v \<noteq> addr) vs = take k vs @ drop (Suc k) vs" using remove_nth [OF d(1) k(1)] k(2) by simp
    then have lf: "length (filter (\<lambda>v. v \<noteq> addr) vs) = length vs - 1" using k(1) by simp
    consider (empty) "length vs = 1" | (last) "length vs \<noteq> 1" "k = length vs - 1" | (gap) "length vs \<noteq> 1" "k \<noteq> length vs - 1" by blast
    then show ?thesis
    proof cases
      case empty
      then have "k = 0" "vs = [addr]" using k by (cases vs; auto)+
      with r(1) True ne_n show ?thesis by (auto simp: st scan_word_def get_is left_with_def Let_def)
    next
      case last
      have z: "?n - 1 \<noteq> 0" "r = ?n - 1" using last n1 k(3) u1 ne by (auto simp: word_unat_eq_iff)
      have "array vs @ q = array (take k vs) @ enc (vs ! k) @ q" using last(2) k(1)
        by (subst id_take_nth_drop [OF k(1)]) simp
      with r(1) True ne_n z n1 f fl lf last show ?thesis
        by (auto simp: st scan_word_def get_is left_with_def Let_def)
    next
      case gap
      have z: "?n - 1 \<noteq> 0" "r \<noteq> ?n - 1" using gap u1 ne by (auto simp: word_unat_eq_iff k_def)
      from close_gap_array [OF k(1) n1 k(3) s(3), of q] obtain q' where
        "close_gap psz (array vs @ q) (?n - 1) r = array (take k vs @ drop (Suc k) vs) @ q'" by blast
      with r(1) True ne_n z n1 f fl lf show ?thesis
        by (auto simp: st scan_word_def get_is left_with_def Let_def)
    qed
  qed
qed

lemma scan_words_left:
  assumes "left_with vs st" "vs \<noteq> []" "\<And>i. i \<in> set is \<Longrightarrow> get page (of_nat i) = Some (w i)"
  shows "\<exists>st'. scan_words psz msk page is st = Some st' \<and>
     left_with (filter (\<lambda>v. \<not> (v \<in> w ` set is \<and> v AND msk = 0)) vs) st'"
  using assms
proof (induction "is" arbitrary: vs st)
  case (Cons i "is")
  from scan_word_left [OF Cons.prems(1,2), of msk "w i"] obtain st1 where
    st1: "scan_word psz msk (w i) st = Some st1" "left_with (filter (\<lambda>v. \<not> (v = w i \<and> w i AND msk = 0)) vs) st1" by blast
  let ?vs = "filter (\<lambda>v. \<not> (v = w i \<and> w i AND msk = 0)) vs"
  have g: "get page (of_nat i) = Some (w i)" using Cons.prems(3) by simp
  have ff: "filter (\<lambda>v. \<not> (v \<in> w ` set is \<and> v AND msk = 0)) ?vs =
      filter (\<lambda>v. \<not> (v \<in> w ` set (i # is) \<and> v AND msk = 0)) vs" by (auto intro: filter_cong)
  have sn: "snd st1 = 0 \<longleftrightarrow> ?vs = []" using st1(2) by (auto simp: left_with_def word_unat_eq_iff unat_of_nat)
  show ?case
  proof (cases "?vs = []")
    case True
    then have "filter (\<lambda>v. \<not> (v \<in> w ` set (i # is) \<and> v AND msk = 0)) vs = ?vs" using ff by simp
    with True st1 g sn show ?thesis by (simp add: get_is)
  next
    case False
    from Cons.IH [OF st1(2) False] Cons.prems(3) obtain st2 where
      "scan_words psz msk page is st1 = Some st2"
      "left_with (filter (\<lambda>v. \<not> (v \<in> w ` set is \<and> v AND msk = 0)) ?vs) st2" by auto
    with False st1(1) g sn ff show ?thesis by (simp add: get_is)
  qed
qed simp

abbreviation unreferenced :: "ulong \<Rightarrow> ulong set \<Rightarrow> ulong list \<Rightarrow> ulong list" where
  "unreferenced msk W vs \<equiv> filter (\<lambda>v. \<not> (v \<in> W \<and> v AND msk = 0)) vs"

lemma left_with_zero: "left_with vs st \<Longrightarrow> snd st = 0 \<longleftrightarrow> vs = []"
  by (auto simp: left_with_def word_unat_eq_iff unat_of_nat)

lemma scan_page_left:
  assumes "left_with vs st" "vs \<noteq> []" "length page = 4096"
  shows "\<exists>st'. scan_page psz msk page st = Some st' \<and> left_with (unreferenced msk (set (page_words psz page)) vs) st'"
proof -
  have "unat PAGE_SIZE = 4096" by (simp add: PAGE_SIZE_def)
  moreover have "get page (of_nat i) = Some (the (get page (of_nat i)))" if "i \<in> set [0..<4096 div psz]" for i
    using get_page [OF assms(3), of i] that by simp
  ultimately show ?thesis
    using scan_words_left [OF assms(1,2), of "[0..<4096 div psz]" page "\<lambda>i. the (get page (of_nat i))" msk]
    by (simp add: scan_page_def page_words_def get_is)
qed

lemma scan_map_left:
  assumes "consistent env" "readable env (s, e)" "left_with vs st" "vs \<noteq> []"
  shows "\<exists>st'. scan_map env psz msk s e peek st = Some st' \<and> left_with (unreferenced msk (map_words env psz (s, e)) vs) st'"
  using assms(2-4)
proof (induction "unat e - unat s" arbitrary: s vs st peek rule: less_induct)
  case less
  show ?case
  proof (cases "unat s < unat e")
    case False
    then have "\<not> s < e" by (simp add: word_less_nat_alt)
    then show ?thesis using less.prems(2) map_words_done [OF False] by (subst scan_map.simps) simp
  next
    case True
    have e: "unat e + 4096 \<le> 2 ^ 64" using less.prems(1) by (simp add: readable_def)
    obtain p where p: "page_at env s = Some p" "length p = 4096"
      using less.prems(1) True by (auto simp: readable_def dest!: spec [of _ 0])
    define pk where "pk = (peek \<or> mem_page env s = None)"
    have pg: "(if pk then copy_page env s else mem_page env s) = Some p"
      using p(1) assms(1) by (cases "mem_page env s") (auto simp: pk_def page_at_def consistent_def)
    from scan_page_left [OF less.prems(2,3) p(2), of msk] obtain st1 where
      st1: "scan_page psz msk p st = Some st1" "left_with (unreferenced msk (set (page_words psz p)) vs) st1" by blast
    let ?vs = "unreferenced msk (set (page_words psz p)) vs"
    have eq: "scan_map env psz msk s e peek st =
        (if snd st1 = 0 then Some st1 else scan_map env psz msk (s + PAGE_SIZE) e pk st1)"
      using True pg st1(1) by (subst scan_map.simps) (simp add: word_less_nat_alt Let_def flip: pk_def)
    have ff: "unreferenced msk (map_words env psz (s + PAGE_SIZE, e)) ?vs = unreferenced msk (map_words env psz (s, e)) vs"
      unfolding map_words_next [OF True e p(1)] by (auto intro: filter_cong)
    show ?thesis
    proof (cases "?vs = []")
      case empty: True
      then have "unreferenced msk (map_words env psz (s, e)) vs = ?vs" using ff by simp
      with empty st1 left_with_zero [OF st1(2)] eq show ?thesis by simp
    next
      case False
      have "unat e - unat (s + PAGE_SIZE) < unat e - unat s" using unat_next_page [OF True e] True by simp
      from less.hyps [OF this readable_next [OF less.prems(1) True] st1(2) False, of pk] eq left_with_zero [OF st1(2)] False ff
      show ?thesis by simp
    qed
  qed
qed

lemma scan_maps_left:
  assumes "consistent env" "\<forall>m \<in> set ms. readable env m" "left_with vs st" "vs \<noteq> []"
  shows "\<exists>st'. scan_maps env psz msk ms st = Some st' \<and> left_with (unreferenced msk (\<Union>m \<in> set ms. map_words env psz m) vs) st'"
  using assms(2-4)
proof (induction ms arbitrary: vs st)
  case (Cons m ms)
  obtain s e where m: "m = (s, e)" by (cases m)
  have r: "readable env (s, e)" using Cons.prems(1) m by simp
  then have nz: "s \<noteq> 0" "e \<noteq> 0" by (simp_all add: readable_def)
  from scan_map_left [OF assms(1) r Cons.prems(2,3), of msk False] obtain st1 where
    st1: "scan_map env psz msk s e False st = Some st1" "left_with (unreferenced msk (map_words env psz m) vs) st1"
    by (auto simp: m)
  let ?vs = "unreferenced msk (map_words env psz m) vs"
  have ff: "unreferenced msk (\<Union>m \<in> set ms. map_words env psz m) ?vs = unreferenced msk (\<Union>m \<in> set (m # ms). map_words env psz m) vs"
    by (auto intro: filter_cong)
  show ?case
  proof (cases "?vs = []")
    case True
    then have "unreferenced msk (\<Union>m \<in> set (m # ms). map_words env psz m) vs = ?vs" using ff by simp
    with True st1 left_with_zero [OF st1(2)] nz m show ?thesis by simp
  next
    case False
    from Cons.IH [OF _ st1(2) False] Cons.prems(1) ff st1(1) left_with_zero [OF st1(2)] False nz m show ?thesis by auto
  qed
qed simp

text \<open>The scan of a whole request.\<close>

lemma mem_scan_left:
  assumes "consistent env" "\<forall>m \<in> set (writeable_mappings env). readable env m"
    and "sorted_wrt (<) vs" "\<forall>v \<in> set vs. ok v" "vs \<noteq> []" "length vs < 2 ^ 28" "psz \<le> 8"
    and "length hdr = 16" "take 4 hdr = le_bytes 4 (of_nat psz)" "drop 8 hdr = le_bytes 8 msk"
    and "len = of_nat (16 + length vs * psz)"
  shows "mem_scan env len (hdr @ array vs) =
    Some (Some (array (unreferenced msk (\<Union>m \<in> set (writeable_mappings env). map_words env psz m) vs)))"
proof -
  have lp: "length vs * psz \<le> length vs * 8" using assms(7) by (rule mult_le_mono2)
  have "16 + length vs * 8 < 2 ^ 32" using assms(6) by simp
  with lp have lb: "16 + length vs * psz < 2 ^ 32" by linarith
  have p: "unat (ucast (le_word (take 4 hdr)) :: u32) = psz"
    using assms(7) by (simp add: assms(9) le_word_bytes unsigned_ucast_eq take_bit_eq_mod unat_mod unat_of_nat)
  have m: "le_word (drop 8 hdr) = msk" by (simp add: assms(10))
  have "ucast len = (of_nat (16 + length vs * psz) :: ulong)"
    using lb by (simp add: assms(11) word_unat_eq_iff unsigned_ucast_eq unat_of_nat take_bit_eq_mod unat_mod del: of_nat_add)
  then have "ucast len - 16 = (of_nat (length vs * psz) :: ulong)" by simp
  then have n: "(ucast len - 16) div (of_nat psz :: ulong) = of_nat (length vs)"
    using pos assms(6,7) lb by (simp add: word_unat_eq_iff unat_div_distrib unat_of_nat del: of_nat_mult)
  have l60: "length vs < 2 ^ 60" using assms(6) by simp
  have "left_with vs (array vs, of_nat (length vs))" using assms(3,4) l60 by (simp add: left_with_def)
  from scan_maps_left [OF assms(1,2) this assms(5), of msk] obtain q where
    sc: "scan_maps env psz msk (writeable_mappings env) (array vs, of_nat (length vs)) =
      Some (array (unreferenced msk (\<Union>m \<in> set (writeable_mappings env). map_words env psz m) vs) @ q,
        of_nat (length (unreferenced msk (\<Union>m \<in> set (writeable_mappings env). map_words env psz m) vs)))"
    by (auto simp: left_with_def)
  let ?us = "unreferenced msk (\<Union>m \<in> set (writeable_mappings env). map_words env psz m) vs"
  have "length ?us \<le> length vs" by (rule length_filter_le)
  then have "length ?us < 2 ^ 60" using l60 by linarith
  then have u: "unat (of_nat (length ?us) * of_nat psz :: ulong) = length ?us * psz" using assms(7) by (rule index_times)
  have nz: "of_nat (length vs) \<noteq> (0 :: ulong)" using small_unat [OF l60] assms(5) by (metis length_0_conv unat_0)
  have "read_bytes 16 (hdr @ array vs) = Some hdr" using assms(8) by simp
  with p m n nz sc u pos assms(8) show ?thesis by (simp add: mem_scan_def Let_def)
qed

end

interpretation val64s: value_array 8 put_uint64 get_val64 "\<lambda>v. True"
proof
  show "get_val_of 8 = get_val64" by (simp add: get_val_of_def)
  show "length (put_uint64 v) = 8" for v by (simp add: put_uint64_def)
  fix v i :: ulong and k :: nat and p q :: bytes
  assume "i = of_nat k" "k < 2 ^ 60" "length p = k * 8"
  then show "get_val64 (p @ put_uint64 v @ q) i = Some v"
    using index_times [of k 8] by (simp add: get_val64_def get_put_uint64)
next
  fix page :: bytes and k :: nat
  assume "length page = 4096" "k < 4096 div 8"
  then show "get_val64 page (of_nat k) \<noteq> None"
    using index_times [of k 8] by (simp add: get_val64_def get_uint64_def read_bytes_def)
qed simp

interpretation val32s: value_array 4 put_uint32 get_val32 "\<lambda>v. take_bit 32 v = v"
proof
  show "get_val_of 4 = get_val32" by (simp add: get_val_of_def)
  show "length (put_uint32 v) = 4" for v by (simp add: put_uint32_def)
  fix v i :: ulong and k :: nat and p q :: bytes
  assume "take_bit 32 v = v" "i = of_nat k" "k < 2 ^ 60" "length p = k * 4"
  then show "get_val32 (p @ put_uint32 v @ q) i = Some v"
    using index_times [of k 4] by (simp add: get_val32_def get_put_uint32)
next
  fix page :: bytes and k :: nat
  assume "length page = 4096" "k < 4096 div 4"
  then show "get_val32 page (of_nat k) \<noteq> None"
    using index_times [of k 4] by (simp add: get_val32_def get_uint32_def read_bytes_def)
qed simp

end
