(* ===== verification/Leak_Scan.thy ===== *)
theory Leak_Scan
  imports Client_Handlers Mem_Scan
begin

text \<open>
  The leak scan of the client and of the tracer together: the request that \<open>process_leaks_scan\<close>
  sends is one that \<open>mem_scan\<close> reads back, its mask hides none of the addresses, and the answer is
  the list of the blocks no word of the process refers to.
\<close>

subsection \<open>The mask of the request\<close>

lemma drop_bit_mask: "drop_bit 1 (mask (Suc j) :: ulong) = mask j" if "j < 64"
  using that by (intro bit_word_eqI) (auto simp: bit_drop_bit_eq bit_mask_iff)

lemma and_mask_mono:
  fixes a :: ulong
  assumes "a AND mask j = 0" "i \<le> j"
  shows "a AND mask i = 0"
proof -
  have "mask i = (mask j AND mask i :: ulong)" using assms(2) by (intro bit_word_eqI) (auto simp: bit_mask_iff bit_and_iff)
  then have "a AND mask i = (a AND mask j) AND mask i" by (metis and.assoc)
  then show ?thesis using assms(1) by simp
qed

lemma shift_mask_mask:
  "j \<le> 64 \<Longrightarrow> \<exists>i \<le> j. shift_mask a (mask j) = mask i \<and> a AND mask i = 0"
proof (induction j)
  case 0
  then show ?case by (simp add: shift_mask.simps)
next
  case (Suc j)
  show ?case
  proof (cases "a AND mask (Suc j) = 0")
    case True
    then have "shift_mask a (mask (Suc j)) = mask (Suc j)" by (subst shift_mask.simps) simp
    with True show ?thesis by blast
  next
    case False
    then have "shift_mask a (mask (Suc j)) = shift_mask a (mask j)"
      using Suc.prems drop_bit_mask [of j] by (subst shift_mask.simps) simp
    with Suc.IH Suc.prems show ?thesis by (metis Suc_leD le_SucI)
  qed
qed

subsection \<open>The blocks of the request\<close>

definition selected :: "heap \<Rightarrow> ulong \<Rightarrow> ulong \<Rightarrow> rb_block \<Rightarrow> bool" where
  "selected h fmask fmode b \<longleftrightarrow>
     (case stack_of h (b_stack b) of Inl _ \<Rightarrow> False
      | Inr s \<Rightarrow> \<not> s_ignore s \<and> b_flags b AND fmask = 0 \<and> b_flags b AND fmode = fmode)"

abbreviation sent :: "heap \<Rightarrow> ulong \<Rightarrow> ulong \<Rightarrow> rb_block list \<Rightarrow> ulong list" where
  "sent h fmask fmode bs \<equiv> map b_addr (filter (selected h fmask fmode) bs)"

lemma foreach_sent:
  assumes "process_block_foreach (set_block pr h fmask fmode) t u = Inr (t', u')" "bh_mask u = mask j" "j \<le> 64"
  shows "bh_data u' = bh_data u @ concat (map (put_ulong pr) (sent h fmask fmode (nodes t))) \<and>
    bh_len u' = bh_len u + of_nat (length (sent h fmask fmode (nodes t))) \<and>
    (\<exists>i \<le> j. bh_mask u' = mask i \<and> (\<forall>a \<in> set (sent h fmask fmode (nodes t)). a AND mask i = 0))"
  using assms
proof (induction t arbitrary: u t' u' j)
  case (Node l c b r)
  from Node.prems(1) obtain l' u1 b' u2 r' where r: "process_block_foreach (set_block pr h fmask fmode) l u = Inr (l', u1)"
      "set_block pr h fmask fmode b u1 = Inr (b', u2)"
      "process_block_foreach (set_block pr h fmask fmode) r u2 = Inr (r', u')" by auto
  from Node.IH(1) [OF r(1) Node.prems(2,3)] obtain i where
    i: "i \<le> j" "bh_mask u1 = mask i" "\<forall>a \<in> set (sent h fmask fmode (nodes l)). a AND mask i = 0" by blast
  have "\<exists>k \<le> i. bh_mask u2 = mask k \<and> (selected h fmask fmode b \<longrightarrow> b_addr b AND mask k = 0) \<and>
      bh_data u2 = bh_data u1 @ (if selected h fmask fmode b then put_ulong pr (b_addr b) else []) \<and>
      bh_len u2 = bh_len u1 + (if selected h fmask fmode b then 1 else 0)"
  proof (cases "selected h fmask fmode b")
    case True
    from shift_mask_mask [of i "b_addr b"] i(1) Node.prems(3) obtain k where
      k: "k \<le> i" "shift_mask (b_addr b) (mask i) = mask k" "b_addr b AND mask k = 0" by auto
    from r(2) True i(2) k(2) have "u2 = u1\<lparr>bh_mask := mask k, bh_data := bh_data u1 @ put_ulong pr (b_addr b), bh_len := bh_len u1 + 1\<rparr>"
      by (auto simp: set_block_def selected_def split: sum.splits)
    with k True show ?thesis by auto
  next
    case False
    with r(2) i(2) have "u2 = u1" by (auto simp: set_block_def selected_def split: if_splits)
    with i(2) False show ?thesis by auto
  qed
  then obtain k where k: "k \<le> i" "bh_mask u2 = mask k" "selected h fmask fmode b \<longrightarrow> b_addr b AND mask k = 0"
      "bh_data u2 = bh_data u1 @ (if selected h fmask fmode b then put_ulong pr (b_addr b) else [])"
      "bh_len u2 = bh_len u1 + (if selected h fmask fmode b then 1 else 0)" by blast
  have k64: "k \<le> 64" using i(1) k(1) Node.prems(3) by linarith
  from Node.IH(2) [OF r(3) k(2) k64] obtain m where
    m: "m \<le> k" "bh_mask u' = mask m" "\<forall>a \<in> set (sent h fmask fmode (nodes r)). a AND mask m = 0" by blast
  have "a AND mask m = 0" if "a \<in> set (sent h fmask fmode (nodes (Node l c b r)))" for a
    using that i(3) k(1,3) m(1,3) and_mask_mono [of a k m] and_mask_mono [of a i m]
    by (auto split: if_splits)
  moreover have "m \<le> j" using i(1) k(1) m(1) by linarith
  ultimately show ?case
    using Node.IH(1) [OF r(1) Node.prems(2,3)] Node.IH(2) [OF r(3) k(2) k64] k(4,5) m(2) by (auto simp: algebra_simps)
qed auto

subsection \<open>Request and answer\<close>

definition scan_masks :: "scan_mode \<Rightarrow> ulong \<times> ulong" where
  "scan_masks mode = (case mode of SCAN_ALL \<Rightarrow> (BLOCK_IGNORE, 0) | SCAN_NEW \<Rightarrow> (BLOCK_SCANNED OR BLOCK_IGNORE, 0)
     | SCAN_LEAK \<Rightarrow> (BLOCK_IGNORE, BLOCK_LEAKED))"

definition scan_list :: "process \<Rightarrow> heap \<Rightarrow> scan_mode \<Rightarrow> ulong list" where
  "scan_list pr h mode = sent h (fst (scan_masks mode)) (snd (scan_masks mode)) (blocks pr)"

lemma scan_list_bound: "length (blocks pr) < n \<Longrightarrow> length (scan_list pr h mode) < n"
  unfolding scan_list_def length_map by (rule le_less_trans [OF length_filter_le])

lemma stack_of_brk [simp]: "stack_of (h\<lparr>brk := n\<rparr>) = stack_of h"
  by (simp add: stack_of_def get_rbs_def get_stk_def fun_eq_iff)

lemma selected_brk [simp]: "selected (h\<lparr>brk := n\<rparr>) = selected h"
  by (simp add: selected_def fun_eq_iff)

text \<open>The message of a request is a header and the addresses, and no address has a bit of its mask.\<close>

lemma process_leaks_scan_message:
  assumes "proc_inv pr h" "process_leaks_scan pr h mode = Inr (n, pr', h')" "n \<noteq> 0" "length (blocks pr) < 2 ^ 28"
    and "\<And>v. length (put_ulong pr v) = ptr_size pr" "ptr_size pr \<le> 8"
  shows "\<exists>msk. (\<forall>a \<in> set (scan_list pr h mode). a AND msk = 0) \<and> scan_list pr h mode \<noteq> [] \<and>
    last (events h') = Message MT_SCAN (le_bytes 4 (ucast (pval32 pr (of_nat (ptr_size pr)))) @ le_bytes 4 0 @
      le_bytes 8 (pval64 pr msk) @ concat (map (put_ulong pr) (scan_list pr h mode)))"
proof -
  define h1 where "h1 = h\<lparr>brk := Suc (brk h)\<rparr>"
  obtain fmask fmode where m: "scan_masks mode = (fmask, fmode)" by fastforce
  from assms(2,3) m obtain t hp where
    f: "process_block_foreach (set_block pr h1 fmask fmode) (block_table pr) \<lparr>bh_len = 0, bh_mask = -1, bh_data = []\<rparr> = Inr (t, hp)"
    and n: "n = ucast (bh_len hp)"
    and e: "last (events h') = Message MT_SCAN (take (unat (ucast (16 + ucast (bh_len hp) * of_nat (ptr_size pr) :: ulong) :: u32))
       (le_bytes 4 (ucast (pval32 pr (of_nat (ptr_size pr)))) @ le_bytes 4 0 @ le_bytes 8 (pval64 pr (bh_mask hp)) @ bh_data hp))"
    by (auto simp: process_leaks_scan_def malloc_def Let_def h1_def scan_masks_def emit_def split: if_splits scan_mode.splits prod.splits)
  have sl: "sent h1 fmask fmode (blocks pr) = scan_list pr h mode" by (simp add: scan_list_def m h1_def)
  have "bh_mask \<lparr>bh_len = 0, bh_mask = -1, bh_data = []\<rparr> = mask 64"
    by (simp, intro bit_word_eqI) (simp add: bit_mask_iff)
  from foreach_sent [OF f this] have r: "bh_data hp = concat (map (put_ulong pr) (scan_list pr h mode))"
    "bh_len hp = of_nat (length (scan_list pr h mode))"
    "\<forall>a \<in> set (scan_list pr h mode). a AND bh_mask hp = 0" by (auto simp: sl)
  have l: "length (scan_list pr h mode) < 2 ^ 28"
    using assms(4) by (rule scan_list_bound)
  have nn: "ucast (bh_len hp) = (of_nat (length (scan_list pr h mode)) :: ulong)"
    using l by (simp add: r(2) word_unat_eq_iff unsigned_ucast_eq unat_of_nat take_bit_eq_mod unat_mod)
  have ld: "length (bh_data hp) = length (scan_list pr h mode) * ptr_size pr"
    by (simp add: r(1) length_concat comp_def assms(5) sum_list_triv)
  have "length (scan_list pr h mode) * ptr_size pr \<le> length (scan_list pr h mode) * 8" using assms(6) by (rule mult_le_mono2)
  moreover have "16 + length (scan_list pr h mode) * 8 < 2 ^ 32" using l by simp
  ultimately have lt: "16 + length (scan_list pr h mode) * ptr_size pr < 2 ^ 32" by linarith
  have "(16 + ucast (bh_len hp) * of_nat (ptr_size pr) :: ulong) = of_nat (16 + length (scan_list pr h mode) * ptr_size pr)"
    by (simp add: nn)
  then have "unat (ucast (16 + ucast (bh_len hp) * of_nat (ptr_size pr) :: ulong) :: u32) = 16 + length (scan_list pr h mode) * ptr_size pr"
    using lt by (simp add: unsigned_ucast_eq unat_of_nat take_bit_eq_mod unat_mod del: of_nat_add of_nat_mult)
  with e ld r nn n assms(3) show ?thesis by (intro exI [of _ "bh_mask hp"]) auto
qed

text \<open>
  A process of the word size and the byte order of the tracer: what \<open>mem_scan\<close> sends back is the list
  of the addresses of the request that no aligned word of a writable page holds.
\<close>

theorem leak_scan_answer:
  assumes "proc_inv pr h" "process_leaks_scan pr h mode = Inr (n, pr', h')" "n \<noteq> 0" "length (blocks pr) < 2 ^ 28"
    and "distinct (map b_addr (blocks pr))"
    and "put_ulong pr = put_uint64" "pval32 pr = val32" "pval64 pr = val64" "ptr_size pr = 8"
    and "consistent env" "\<forall>m \<in> set (writeable_mappings env). readable env m"
  shows "\<exists>payload. last (events h') = Message MT_SCAN payload \<and>
    mem_scan env (of_nat (length payload)) payload =
      Some (Some (concat (map put_uint64
        (filter (\<lambda>a. \<forall>m \<in> set (writeable_mappings env). a \<notin> map_words env 8 m) (scan_list pr h mode)))))"
proof -
  have l8: "length (put_ulong pr v) = ptr_size pr" for v by (simp add: assms(6,9) put_uint64_def)
  from process_leaks_scan_message [OF assms(1-4) l8] obtain msk where
    m: "\<forall>a \<in> set (scan_list pr h mode). a AND msk = 0" "scan_list pr h mode \<noteq> []" and
    e: "last (events h') = Message MT_SCAN ((le_bytes 4 (of_nat 8) @ le_bytes 4 0 @ le_bytes 8 msk) @ val64s.array (scan_list pr h mode))"
    by (auto simp: assms(6-9) val32_def val64_def val64s.array_def)
  have s: "sorted_wrt (<) (map b_addr (blocks pr))" using assms(1,5) by (simp add: proc_inv_def tables_ok_def strict_sorted_iff)
  have "sorted_wrt (<) (scan_list pr h mode)" using s by (simp add: scan_list_def sorted_wrt_map sorted_wrt_filter)
  moreover have "length (scan_list pr h mode) < 2 ^ 28"
    using assms(4) by (rule scan_list_bound)
  ultimately have "mem_scan env (of_nat (length ((le_bytes 4 (of_nat 8) @ le_bytes 4 0 @ le_bytes 8 msk) @ val64s.array (scan_list pr h mode))))
      ((le_bytes 4 (of_nat 8) @ le_bytes 4 0 @ le_bytes 8 msk) @ val64s.array (scan_list pr h mode)) =
      Some (Some (val64s.array (filter (\<lambda>v. \<not> (v \<in> (\<Union>m \<in> set (writeable_mappings env). map_words env 8 m) \<and> v AND msk = 0)) (scan_list pr h mode))))"
    by (intro val64s.mem_scan_left) (use assms m in auto)
  moreover have "filter (\<lambda>v. \<not> (v \<in> (\<Union>m \<in> set (writeable_mappings env). map_words env 8 m) \<and> v AND msk = 0)) (scan_list pr h mode) =
      filter (\<lambda>a. \<forall>m \<in> set (writeable_mappings env). a \<notin> map_words env 8 m) (scan_list pr h mode)"
    using m(1) by (intro filter_cong) auto
  ultimately show ?thesis using e by (auto simp: val64s.array_def)
qed

end
