(* ===== verification/Dict.thy ===== *)
theory Dict
  imports Client_Types
begin

text \<open>
  The hash table of \<open>dict.c\<close>, which holds the breakpoints of a process by their address, with the hash
  and the comparison \<open>breakpoint.c\<close> gives it. A bucket is the list of its entries from the head on: an
  entry is added at the head. The contract of a table is a locale; its lemmas, among them the
  simulation of any sequence of calls by a map, hold for every table that keeps it.
\<close>

subsection \<open>The table\<close>

record 'v dict =
  d_size :: u32
  key2hash :: "ulong \<Rightarrow> u32"
  key_cmp :: "ulong \<Rightarrow> ulong \<Rightarrow> int"
  buckets :: "(ulong \<times> 'v) list list"

definition dict_init :: "u32 \<Rightarrow> (ulong \<Rightarrow> u32) \<Rightarrow> (ulong \<Rightarrow> ulong \<Rightarrow> int) \<Rightarrow> 'v dict" where
  "dict_init sz hash cmp = \<lparr>d_size = sz, key2hash = hash, key_cmp = cmp, buckets = replicate (unat sz) []\<rparr>"

text \<open>The entries that \<open>dict_clear\<close> frees, in order.\<close>

definition dict_clear :: "'v dict \<Rightarrow> (ulong \<times> 'v) list" where
  "dict_clear d = concat (buckets d)"

text \<open>The position of the entry in its bucket.\<close>

fun find_entry_pos :: "(ulong \<Rightarrow> ulong \<Rightarrow> int) \<Rightarrow> ulong \<Rightarrow> (ulong \<times> 'v) list \<Rightarrow> nat option" where
  "find_entry_pos cmp key [] = None"
| "find_entry_pos cmp key (e # es) =
     (if cmp key (fst e) = 0 then Some 0 else map_option Suc (find_entry_pos cmp key es))"

definition dict_find_entry_pos :: "'v dict \<Rightarrow> ulong \<Rightarrow> nat \<Rightarrow> nat option" where
  "dict_find_entry_pos d key hash = find_entry_pos (key_cmp d) key (buckets d ! hash)"

text \<open>
  The operations; \<open>None\<close> is the division by a size of zero. \<open>malloc\<close> is taken to give memory: the
  source does not look at its result.
\<close>

definition dict_hash :: "'v dict \<Rightarrow> ulong \<Rightarrow> nat option" where
  "dict_hash d key = (if d_size d = 0 then None else Some (unat (key2hash d key mod d_size d)))"

definition dict_add :: "'v dict \<Rightarrow> ulong \<Rightarrow> 'v \<Rightarrow> (int \<times> 'v dict) option" where
  "dict_add d key v =
     (case dict_hash d key of None \<Rightarrow> None | Some hash \<Rightarrow>
        if dict_find_entry_pos d key hash \<noteq> None then Some (-1, d)
        else Some (0, d\<lparr>buckets := (buckets d)[hash := (key, v) # buckets d ! hash]\<rparr>))"

definition dict_remove_entry :: "'v dict \<Rightarrow> ulong \<Rightarrow> ('v option \<times> 'v dict) option" where
  "dict_remove_entry d key =
     (case dict_hash d key of None \<Rightarrow> None | Some hash \<Rightarrow>
        (case dict_find_entry_pos d key hash of
           None \<Rightarrow> Some (None, d)
         | Some i \<Rightarrow>
             let b = buckets d ! hash in
             Some (Some (snd (b ! i)), d\<lparr>buckets := (buckets d)[hash := take i b @ drop (Suc i) b]\<rparr>)))"

definition dict_find_entry :: "'v dict \<Rightarrow> ulong \<Rightarrow> 'v option option" where
  "dict_find_entry d key =
     (case dict_hash d key of None \<Rightarrow> None | Some hash \<Rightarrow>
        Some (map_option (\<lambda>i. snd (buckets d ! hash ! i)) (dict_find_entry_pos d key hash)))"

text \<open>The callback of \<open>dict_apply_to_all\<close> works on the data \<open>'s\<close>; the first result but zero ends the loop.\<close>

fun apply_bucket :: "(ulong \<Rightarrow> 'v \<Rightarrow> 's \<Rightarrow> int \<times> 's) \<Rightarrow> (ulong \<times> 'v) list \<Rightarrow> 's \<Rightarrow> int \<times> 's" where
  "apply_bucket f [] s = (0, s)"
| "apply_bucket f ((k, v) # es) s =
     (case f k v s of (r, s) \<Rightarrow> if r \<noteq> 0 then (-1, s) else apply_bucket f es s)"

fun apply_buckets :: "(ulong \<Rightarrow> 'v \<Rightarrow> 's \<Rightarrow> int \<times> 's) \<Rightarrow> (ulong \<times> 'v) list list \<Rightarrow> 's \<Rightarrow> int \<times> 's" where
  "apply_buckets f [] s = (0, s)"
| "apply_buckets f (b # bs) s =
     (case apply_bucket f b s of (r, s) \<Rightarrow> if r \<noteq> 0 then (r, s) else apply_buckets f bs s)"

definition dict_apply_to_all :: "'v dict \<Rightarrow> (ulong \<Rightarrow> 'v \<Rightarrow> 's \<Rightarrow> int \<times> 's) \<Rightarrow> 's \<Rightarrow> int \<times> 's" where
  "dict_apply_to_all d f s = apply_buckets f (buckets d) s"

subsection \<open>The hash of an address\<close>

definition hash_step :: "u32 \<Rightarrow> u16 \<Rightarrow> u32" where
  "hash_step h v = h + (drop_bit 2 h XOR push_bit 3 (ucast v))"

definition target_address_hash :: "ulong \<Rightarrow> u32" where
  "target_address_hash key =
     foldl hash_step 4713 (map (\<lambda>i. ucast (drop_bit (16 * i) key)) [0..<4])"

definition target_address_cmp :: "ulong \<Rightarrow> ulong \<Rightarrow> int" where
  "target_address_cmp addr1 addr2 = (if addr1 < addr2 then 1 else if addr1 > addr2 then -1 else 0)"

subsection \<open>The contract of a table of pointers\<close>

text \<open>
  \<open>add\<close> gives the new table, or nothing when the key is taken; \<open>remove\<close> the value taken out.
\<close>

datatype 'v table_op = Add ulong 'v | Remove ulong | Find ulong

datatype 'v table_result = Added int | Removed "'v option" | Found "'v option"

definition table_exec ::
  "('d \<Rightarrow> ulong \<Rightarrow> 'v \<Rightarrow> (int \<times> 'd) option) \<Rightarrow> ('d \<Rightarrow> ulong \<Rightarrow> ('v option \<times> 'd) option) \<Rightarrow>
   ('d \<Rightarrow> ulong \<Rightarrow> 'v option option) \<Rightarrow> 'v table_op \<Rightarrow> 'd \<Rightarrow> ('v table_result \<times> 'd) option" where
  "table_exec add remove look oper d = (case oper of
      Add k v \<Rightarrow> map_option (\<lambda>(r, d). (Added r, d)) (add d k v)
    | Remove k \<Rightarrow> map_option (\<lambda>(r, d). (Removed r, d)) (remove d k)
    | Find k \<Rightarrow> map_option (\<lambda>r. (Found r, d)) (look d k))"

fun table_run ::
  "('d \<Rightarrow> ulong \<Rightarrow> 'v \<Rightarrow> (int \<times> 'd) option) \<Rightarrow> ('d \<Rightarrow> ulong \<Rightarrow> ('v option \<times> 'd) option) \<Rightarrow>
   ('d \<Rightarrow> ulong \<Rightarrow> 'v option option) \<Rightarrow> 'v table_op list \<Rightarrow> 'd \<Rightarrow> ('v table_result list \<times> 'd) option" where
  "table_run add remove look [] d = Some ([], d)"
| "table_run add remove look (p # ps) d = (case table_exec add remove look p d of None \<Rightarrow> None
     | Some (r, d) \<Rightarrow> map_option (\<lambda>(rs, d). (r # rs, d)) (table_run add remove look ps d))"

text \<open>The same operations on a map, which is what the table stands for.\<close>

definition map_exec :: "'v table_op \<Rightarrow> (ulong \<rightharpoonup> 'v) \<Rightarrow> 'v table_result \<times> (ulong \<rightharpoonup> 'v)" where
  "map_exec oper m = (case oper of
      Add k v \<Rightarrow> if m k = None then (Added 0, m(k \<mapsto> v)) else (Added (-1), m)
    | Remove k \<Rightarrow> (Removed (m k), m(k := None))
    | Find k \<Rightarrow> (Found (m k), m))"

fun map_run :: "'v table_op list \<Rightarrow> (ulong \<rightharpoonup> 'v) \<Rightarrow> 'v table_result list \<times> (ulong \<rightharpoonup> 'v)" where
  "map_run [] m = ([], m)"
| "map_run (p # ps) m = (case map_exec p m of (r, m) \<Rightarrow> (case map_run ps m of (rs, m) \<Rightarrow> (r # rs, m)))"

locale pointer_table =
  fixes inv :: "'d \<Rightarrow> bool" and alpha :: "'d \<Rightarrow> ulong \<rightharpoonup> 'v"
    and add :: "'d \<Rightarrow> ulong \<Rightarrow> 'v \<Rightarrow> (int \<times> 'd) option"
    and remove :: "'d \<Rightarrow> ulong \<Rightarrow> ('v option \<times> 'd) option"
    and find :: "'d \<Rightarrow> ulong \<Rightarrow> 'v option option"
  assumes find_alpha: "inv d \<Longrightarrow> find d k = Some (alpha d k)"
    and add_taken: "inv d \<Longrightarrow> alpha d k = Some w \<Longrightarrow> add d k v = Some (-1, d)"
    and add_new: "inv d \<Longrightarrow> alpha d k = None \<Longrightarrow> \<exists>d'. add d k v = Some (0, d') \<and> inv d' \<and> alpha d' = (alpha d)(k \<mapsto> v)"
    and remove_alpha: "inv d \<Longrightarrow> \<exists>d'. remove d k = Some (alpha d k, d') \<and> inv d' \<and> alpha d' = (alpha d)(k := None)"
begin

abbreviation exec :: "'v table_op \<Rightarrow> 'd \<Rightarrow> ('v table_result \<times> 'd) option" where
  "exec \<equiv> table_exec add remove find"

abbreviation run :: "'v table_op list \<Rightarrow> 'd \<Rightarrow> ('v table_result list \<times> 'd) option" where
  "run \<equiv> table_run add remove find"

lemma exec_sim:
  assumes "inv d"
  shows "\<exists>d'. exec p d = Some (fst (map_exec p (alpha d)), d') \<and> inv d' \<and> alpha d' = snd (map_exec p (alpha d))"
proof (cases p)
  case (Add k v)
  then show ?thesis using add_taken [OF assms, of k _ v] add_new [OF assms, of k v] assms
    by (cases "alpha d k") (auto simp: table_exec_def map_exec_def)
next
  case (Remove k)
  then show ?thesis using remove_alpha [OF assms, of k] by (auto simp: table_exec_def map_exec_def)
next
  case (Find k)
  then show ?thesis using find_alpha [OF assms, of k] assms by (auto simp: table_exec_def map_exec_def)
qed

lemma run_sim:
  "inv d \<Longrightarrow> \<exists>d'. run ps d = Some (fst (map_run ps (alpha d)), d') \<and> inv d' \<and> alpha d' = snd (map_run ps (alpha d))"
proof (induction ps arbitrary: d)
  case (Cons p ps)
  from exec_sim [OF Cons.prems, of p] obtain d1 where
    d1: "exec p d = Some (fst (map_exec p (alpha d)), d1)" "inv d1" "alpha d1 = snd (map_exec p (alpha d))" by blast
  from Cons.IH [OF d1(2)] obtain d2 where
    d2: "run ps d1 = Some (fst (map_run ps (alpha d1)), d2)" "inv d2" "alpha d2 = snd (map_run ps (alpha d1))" by blast
  with d1 show ?case by (auto split: prod.splits)
qed simp

lemma add_remove:
  assumes "inv d" "alpha d k = None"
  shows "\<exists>d1 d2. add d k v = Some (0, d1) \<and> find d1 k = Some (Some v) \<and> remove d1 k = Some (Some v, d2) \<and> alpha d2 = alpha d"
proof -
  from add_new [OF assms, of v] obtain d1 where d1: "add d k v = Some (0, d1)" "inv d1" "alpha d1 = (alpha d)(k \<mapsto> v)" by blast
  with remove_alpha [OF d1(2), of k] find_alpha [OF d1(2), of k] assms(2) show ?thesis by (auto simp: fun_upd_idem)
qed

end

subsection \<open>The hash table keeps the contract\<close>

definition dict_inv :: "'v dict \<Rightarrow> bool" where
  "dict_inv d \<longleftrightarrow> d_size d \<noteq> 0 \<and> length (buckets d) = unat (d_size d) \<and>
     (\<forall>k k'. key_cmp d k k' = 0 \<longleftrightarrow> k = k') \<and>
     (\<forall>i < length (buckets d). distinct (map fst (buckets d ! i)) \<and>
        (\<forall>e \<in> set (buckets d ! i). dict_hash d (fst e) = Some i))"

definition dict_map :: "'v dict \<Rightarrow> ulong \<rightharpoonup> 'v" where
  "dict_map d k = (case dict_hash d k of None \<Rightarrow> None | Some i \<Rightarrow> map_of (buckets d ! i) k)"

lemma find_entry_pos_map_of:
  assumes "\<And>k k'. cmp k k' = 0 \<longleftrightarrow> k = k'"
  shows "map_option (\<lambda>i. snd (es ! i)) (find_entry_pos cmp key es) = map_of es key"
  by (induction es) (auto simp: assms option.map_comp comp_def)

lemma find_entry_pos_Some:
  assumes "\<And>k k'. cmp k k' = 0 \<longleftrightarrow> k = k'" "find_entry_pos cmp key es = Some i" "distinct (map fst es)"
  shows "i < length es \<and> fst (es ! i) = key \<and> map_of (take i es @ drop (Suc i) es) = (map_of es)(key := None)"
  using assms(2,3)
proof (induction es arbitrary: i)
  case (Cons e es)
  show ?case
  proof (cases "key = fst e")
    case True
    then have "map_of es key = None" using Cons.prems(2) by (auto simp: map_of_eq_None_iff)
    with True Cons.prems(1) show ?thesis by (auto simp: assms(1) fun_eq_iff)
  next
    case False
    with Cons.prems(1) obtain j where j: "i = Suc j" "find_entry_pos cmp key es = Some j" by (auto simp: assms(1) split: if_splits)
    with Cons.IH [OF j(2)] Cons.prems(2) False show ?thesis by (auto simp: fun_eq_iff)
  qed
qed simp

lemma dict_hash_bound: "dict_inv d \<Longrightarrow> \<exists>i. dict_hash d k = Some i \<and> i < length (buckets d)"
  by (auto simp: dict_inv_def dict_hash_def unat_mod unat_gt_0)

lemma dict_find_alpha: "dict_inv d \<Longrightarrow> dict_find_entry d k = Some (dict_map d k)"
  using find_entry_pos_map_of [of "key_cmp d"]
  by (auto simp: dict_inv_def dict_find_entry_def dict_map_def dict_find_entry_pos_def split: option.splits simp: dict_hash_def)

lemma dict_pos_None:
  "dict_inv d \<Longrightarrow> dict_hash d k = Some i \<Longrightarrow> dict_find_entry_pos d k i = None \<longleftrightarrow> dict_map d k = None"
  using find_entry_pos_map_of [of "key_cmp d" "buckets d ! i" k]
  by (auto simp: dict_inv_def dict_map_def dict_find_entry_pos_def)

lemma dict_map_update:
  assumes "i < length (buckets d)" "dict_hash d k = Some i" "d' = d\<lparr>buckets := (buckets d)[i := b]\<rparr>"
    and "map_of b = (map_of (buckets d ! i))(k := v)"
  shows "dict_map d' = (dict_map d)(k := v)"
proof
  fix k'
  have "dict_hash d' = dict_hash d" by (simp add: assms(3) dict_hash_def fun_eq_iff)
  then show "dict_map d' k' = ((dict_map d)(k := v)) k'"
    using assms by (auto simp: dict_map_def nth_list_update split: option.splits)
qed

lemma dict_inv_update:
  assumes "dict_inv d" "i < length (buckets d)" "d' = d\<lparr>buckets := (buckets d)[i := b]\<rparr>"
    and "distinct (map fst b)" "\<forall>e \<in> set b. dict_hash d (fst e) = Some i"
  shows "dict_inv d'"
proof -
  have "dict_hash d' = dict_hash d" by (simp add: assms(3) dict_hash_def fun_eq_iff)
  then show ?thesis using assms by (auto simp: dict_inv_def nth_list_update)
qed

lemma dict_add_new:
  assumes "dict_inv d" "dict_map d k = None"
  shows "\<exists>d'. dict_add d k v = Some (0, d') \<and> dict_inv d' \<and> dict_map d' = (dict_map d)(k \<mapsto> v)"
proof -
  from dict_hash_bound [OF assms(1)] obtain i where i: "dict_hash d k = Some i" "i < length (buckets d)" by blast
  have none: "dict_find_entry_pos d k i = None" using dict_pos_None [OF assms(1) i(1)] assms(2) by simp
  have fresh: "k \<notin> fst ` set (buckets d ! i)" using assms(2) i(1) by (simp add: dict_map_def map_of_eq_None_iff)
  define d' where "d' = d\<lparr>buckets := (buckets d)[i := (k, v) # buckets d ! i]\<rparr>"
  have "dict_inv d'"
    by (rule dict_inv_update [OF assms(1) i(2) d'_def]) (use assms(1) i fresh in \<open>auto simp: dict_inv_def\<close>)
  moreover have "dict_map d' = (dict_map d)(k \<mapsto> v)" by (rule dict_map_update [OF i(2,1) d'_def]) simp
  ultimately show ?thesis using i(1) none by (simp add: dict_add_def d'_def)
qed

lemma dict_remove_alpha:
  assumes "dict_inv d"
  shows "\<exists>d'. dict_remove_entry d k = Some (dict_map d k, d') \<and> dict_inv d' \<and> dict_map d' = (dict_map d)(k := None)"
proof -
  from dict_hash_bound [OF assms] obtain i where i: "dict_hash d k = Some i" "i < length (buckets d)" by blast
  have cmp: "\<And>k k'. key_cmp d k k' = 0 \<longleftrightarrow> k = k'" and dis: "distinct (map fst (buckets d ! i))"
    and hash: "\<forall>e \<in> set (buckets d ! i). dict_hash d (fst e) = Some i" using assms i(2) by (auto simp: dict_inv_def)
  show ?thesis
  proof (cases "dict_find_entry_pos d k i")
    case None
    with dict_pos_None [OF assms i(1)] assms i(1) show ?thesis by (auto simp: dict_remove_entry_def fun_upd_idem)
  next
    case (Some j)
    define b where "b = take j (buckets d ! i) @ drop (Suc j) (buckets d ! i)"
    define d' where "d' = d\<lparr>buckets := (buckets d)[i := b]\<rparr>"
    have j: "j < length (buckets d ! i)" "map_of b = (map_of (buckets d ! i))(k := None)"
      using find_entry_pos_Some [OF cmp _ dis, of k j] Some by (auto simp: dict_find_entry_pos_def b_def)
    have e: "buckets d ! i = take j (buckets d ! i) @ buckets d ! i ! j # drop (Suc j) (buckets d ! i)"
      using j(1) by (rule id_take_nth_drop)
    have "distinct (map fst (take j (buckets d ! i) @ buckets d ! i ! j # drop (Suc j) (buckets d ! i)))"
      using dis e by metis
    then have "distinct (map fst b)" by (simp add: b_def)
    moreover have "\<forall>e \<in> set b. dict_hash d (fst e) = Some i"
      using hash by (auto simp: b_def dest: in_set_takeD in_set_dropD)
    ultimately have "dict_inv d'" by (rule dict_inv_update [OF assms i(2) d'_def])
    moreover have "dict_map d' = (dict_map d)(k := None)" by (rule dict_map_update [OF i(2,1) d'_def j(2)])
    moreover have "Some (snd (buckets d ! i ! j)) = dict_map d k"
      using find_entry_pos_map_of [OF cmp, of "buckets d ! i" k] Some i(1) by (simp add: dict_map_def dict_find_entry_pos_def)
    ultimately show ?thesis using Some i(1) by (simp add: dict_remove_entry_def d'_def b_def Let_def)
  qed
qed

interpretation dict: pointer_table dict_inv dict_map dict_add dict_remove_entry dict_find_entry
proof
  show "dict_inv d \<Longrightarrow> dict_map d k = Some w \<Longrightarrow> dict_add d k v = Some (-1, d)" for d :: "'v dict" and k v w
    using dict_hash_bound [of d k] dict_pos_None [of d k] by (fastforce simp: dict_add_def)
qed (simp_all add: dict_find_alpha dict_add_new dict_remove_alpha)

subsection \<open>A new table, and all entries\<close>

lemma target_address_cmp_eq: "target_address_cmp k k' = 0 \<longleftrightarrow> k = k'"
  by (auto simp: target_address_cmp_def)

lemma dict_init_inv:
  "sz \<noteq> 0 \<Longrightarrow> (\<And>k k'. cmp k k' = 0 \<longleftrightarrow> k = k') \<Longrightarrow>
   dict_inv (dict_init sz hash cmp) \<and> dict_map (dict_init sz hash cmp) = Map.empty"
  by (simp add: dict_inv_def dict_init_def dict_map_def dict_hash_def fun_eq_iff unat_mod unat_gt_0)

text \<open>A callback that always returns zero is called once for every entry.\<close>

lemma apply_bucket_all:
  "(\<And>k v s. fst (f k v s) = 0) \<Longrightarrow> apply_bucket f es s = (0, foldl (\<lambda>s (k, v). snd (f k v s)) s es)"
  by (induction es arbitrary: s) (auto split: prod.splits, metis fst_conv)

lemma apply_buckets_all:
  "(\<And>k v s. fst (f k v s) = 0) \<Longrightarrow> apply_buckets f bs s = (0, foldl (\<lambda>s (k, v). snd (f k v s)) s (concat bs))"
  by (induction bs arbitrary: s) (simp_all add: apply_bucket_all)

lemma distinct_buckets:
  "(\<And>i. i < length bs \<Longrightarrow> distinct (map fst (bs ! i)) \<and> (\<forall>e \<in> set (bs ! i). g (fst e) = Some (n + i))) \<Longrightarrow>
   distinct (map fst (concat bs)) \<and> (\<forall>e \<in> set (concat bs). \<exists>i \<ge> n. g (fst e) = Some i)"
proof (induction bs arbitrary: n)
  case (Cons b bs)
  have b: "distinct (map fst b)" "\<And>e. e \<in> set b \<Longrightarrow> g (fst e) = Some n" using Cons.prems [of 0] by simp_all
  have "distinct (map fst (bs ! i)) \<and> (\<forall>e \<in> set (bs ! i). g (fst e) = Some (Suc n + i))" if "i < length bs" for i
    using Cons.prems [of "Suc i"] that by simp
  from Cons.IH [OF this] have r: "distinct (map fst (concat bs))" "\<And>e. e \<in> set (concat bs) \<Longrightarrow> \<exists>i \<ge> Suc n. g (fst e) = Some i"
    by blast+
  have "fst e \<noteq> fst e'" if "e \<in> set b" "e' \<in> set (concat bs)" for e e'
    using b(2) [OF that(1)] r(2) [OF that(2)] by force
  then have "fst ` set b \<inter> fst ` set (concat bs) = {}" by blast
  with b(1) r(1) have "distinct (map fst (concat (b # bs)))" by simp
  moreover have "\<exists>i \<ge> n. g (fst e) = Some i" if "e \<in> set b \<or> e \<in> set (concat bs)" for e
    using that b(2) r(2) by (metis Suc_leD order_refl)
  ultimately show ?case by simp
qed simp

lemma dict_entries:
  assumes "dict_inv d"
  shows "set (dict_clear d) = {(k, v). dict_map d k = Some v}" and "distinct (map fst (dict_clear d))"
proof -
  have b: "distinct (map fst (buckets d ! i))" "\<forall>e \<in> set (buckets d ! i). dict_hash d (fst e) = Some i"
    if "i < length (buckets d)" for i using assms that by (auto simp: dict_inv_def)
  show "distinct (map fst (dict_clear d))"
    unfolding dict_clear_def by (rule conjunct1 [OF distinct_buckets [where n = 0 and g = "dict_hash d"]]) (use b in simp)
  have "(k, v) \<in> set (dict_clear d) \<longleftrightarrow> dict_map d k = Some v" for k v
  proof -
    obtain i where i: "dict_hash d k = Some i" "i < length (buckets d)" using dict_hash_bound [OF assms] by blast
    have "(k, v) \<in> set (dict_clear d) \<longleftrightarrow> (k, v) \<in> set (buckets d ! i)"
    proof
      assume "(k, v) \<in> set (dict_clear d)"
      then obtain c where "c \<in> set (buckets d)" "(k, v) \<in> set c" unfolding dict_clear_def by auto
      then obtain j where j: "j < length (buckets d)" "(k, v) \<in> set (buckets d ! j)" by (metis in_set_conv_nth)
      with b(2) [OF j(1)] i(1) have "i = j" by auto
      with j(2) show "(k, v) \<in> set (buckets d ! i)" by simp
    next
      assume "(k, v) \<in> set (buckets d ! i)"
      with nth_mem [OF i(2)] show "(k, v) \<in> set (dict_clear d)" unfolding dict_clear_def by auto
    qed
    also have "\<dots> \<longleftrightarrow> dict_map d k = Some v" using i b(1) by (simp add: dict_map_def)
    finally show ?thesis .
  qed
  then show "set (dict_clear d) = {(k, v). dict_map d k = Some v}" by auto
qed

end
