(* ===== verification/Server_Types.thy ===== *)
theory Server_Types
  imports Client_Types
begin

text \<open>
  What the parts of the tracer share: the results of operations that can fail or end the program,
  and the sequencing of operations on a state.
\<close>

subsection \<open>Errors\<close>

text \<open>
  A negative result of the source is one of the \<open>DWARF_E\<close> codes. What ends the tracer instead is a
  fault: a read outside the mapped image, an index outside an array, an operation C leaves undefined, \<open>abort\<close>, a failed
  assertion, or a loop that never ends.
\<close>

datatype dwarf_error =
  DWARF_ENOMEM | DWARF_EBADREG | DWARF_EBADFRAME | DWARF_EINVAL | DWARF_EBADVERSION | DWARF_ENOINFO

datatype fault = Segfault | OutOfBounds | UndefinedShift | DivisionFault | Aborted | AssertionFailed | NoReturn

datatype derr = Dw dwarf_error | Fault fault

type_synonym 'a dres = "derr + 'a"

text \<open>Operations on a state \<open>'s\<close>, which is kept also when they fail.\<close>

type_synonym ('s, 'a) dop = "'s \<Rightarrow> 'a dres \<times> 's"

definition bindS :: "('s, 'a) dop \<Rightarrow> ('a \<Rightarrow> ('s, 'b) dop) \<Rightarrow> ('s, 'b) dop" where
  "bindS m f s = (case m s of (Inl e, s) \<Rightarrow> (Inl e, s) | (Inr x, s) \<Rightarrow> f x s)"

definition liftS :: "'a dres \<Rightarrow> ('s, 'a) dop" where
  "liftS r s = (r, s)"

definition retS :: "'a \<Rightarrow> ('s, 'a) dop" where
  "retS x s = (Inr x, s)"

definition modS :: "('s \<Rightarrow> 's) \<Rightarrow> ('s, unit) dop" where
  "modS f s = (Inr (), f s)"

definition getS :: "('s \<Rightarrow> 'a) \<Rightarrow> ('s, 'a) dop" where
  "getS f s = (Inr (f s), s)"

definition failS :: "derr \<Rightarrow> ('s, 'a) dop" where
  "failS e s = (Inl e, s)"

named_theorems dop_simps \<open>running an operation on a state\<close>

lemma bindS_simps [dop_simps]:
  "bindS (liftS r) f s = (case r of Inl e \<Rightarrow> (Inl e, s) | Inr x \<Rightarrow> f x s)"
  "bindS (retS x) f s = f x s" "bindS (modS g) h s = h () (g s)" "bindS (getS g) f s = f (g s) s"
  "bindS (failS e) f s = (Inl e, s)"
  by (simp_all add: bindS_def liftS_def retS_def modS_def getS_def failS_def split: sum.splits)

lemmas dop_defs [dop_simps] = liftS_def retS_def modS_def getS_def failS_def

lemma bindS_Inr: "bindS m f s = (Inr y, s') \<longleftrightarrow> (\<exists>x s1. m s = (Inr x, s1) \<and> f x s1 = (Inr y, s'))"
  by (auto simp: bindS_def split: prod.splits sum.splits)

end
