(* ===== verification/Libraries.thy ===== *)
theory Libraries
  imports Server_Types Block_Table
begin

text \<open>
  The libraries of a traced process (\<open>library.c\<close>, \<open>library.h\<close>): the references to mapped images, which
  processes share and count, and for every process the list of its libraries and the red-black tree
  that finds the library of an address. Of a \<open>struct libref\<close> only the count changes once the
  reference is in use, so the counts are a store of their own, where the absence of a count is a
  freed reference; the other fields are a record.
\<close>

subsection \<open>Data\<close>

record library_symbol =
  ls_addr :: ulong
  ls_func :: string

record libref =
  lr_id :: nat
  lr_dyn :: ulong
  lr_bias :: ulong
  lr_entry :: ulong
  lr_filename :: "string option"
  txt_vaddr :: ulong
  txt_size :: ulong
  txt_offset :: ulong
  mmap_addr :: ulong
  mmap_offset :: ulong
  mmap_size :: ulong
  pltgot :: ulong
  eh_hdr_offset :: ulong
  eh_hdr_vaddr :: ulong
  fde_tab :: ulong
  fde_count :: ulong
  lr_type :: u32
  sym_list :: "library_symbol list"

record library =
  lib_id :: nat
  lib_ref :: libref

record leader_libs =
  libraries_list :: "library list"
  libraries_tree :: "library rbt"

text \<open>The counts of the references, the next free identity, and the calls of \<open>munmap\<close>.\<close>

record ref_store =
  refcnt :: "nat \<Rightarrow> u32 option"
  next_id :: nat
  munmaps :: "(ulong \<times> ulong) list"

subsection \<open>References\<close>

definition libref_new :: "u32 \<Rightarrow> ref_store \<Rightarrow> libref \<times> ref_store" where
  "libref_new ty st =
     (\<lparr>lr_id = next_id st, lr_dyn = 0, lr_bias = 0, lr_entry = 0, lr_filename = None, txt_vaddr = 0, txt_size = 0,
       txt_offset = 0, mmap_addr = 0, mmap_offset = 0, mmap_size = 0, pltgot = 0, eh_hdr_offset = 0,
       eh_hdr_vaddr = 0, fde_tab = 0, fde_count = 0, lr_type = ty, sym_list = []\<rparr>,
      st\<lparr>refcnt := (refcnt st)(next_id st \<mapsto> 0), next_id := Suc (next_id st)\<rparr>)"

text \<open>The source unmaps \<open>txt_size\<close> bytes, not the \<open>mmap_size\<close> it mapped.\<close>

definition libref_delete :: "libref \<Rightarrow> ref_store \<Rightarrow> ref_store" where
  "libref_delete lr st =
     (let st = (if mmap_addr lr \<noteq> 0 then st\<lparr>munmaps := munmaps st @ [(mmap_addr lr, txt_size lr)]\<rparr> else st)
      in st\<lparr>refcnt := (refcnt st)(lr_id lr := None)\<rparr>)"

definition libref_put :: "libref \<Rightarrow> ref_store \<Rightarrow> ref_store dres" where
  "libref_put lr st =
     (case refcnt st (lr_id lr) of
        None \<Rightarrow> Inl (Fault Segfault)
      | Some n \<Rightarrow>
          if n = 0 then Inl (Fault AssertionFailed)
          else
            let st = st\<lparr>refcnt := (refcnt st)(lr_id lr \<mapsto> n - 1)\<rparr>
            in Inr (if n - 1 = 0 then libref_delete lr st else st))"

definition libref_get :: "libref \<Rightarrow> ref_store \<Rightarrow> ref_store dres" where
  "libref_get lr st =
     (case refcnt st (lr_id lr) of
        None \<Rightarrow> Inl (Fault Segfault)
      | Some n \<Rightarrow> Inr (st\<lparr>refcnt := (refcnt st)(lr_id lr \<mapsto> n + 1)\<rparr>))"

definition libref_set_filename :: "libref \<Rightarrow> string option \<Rightarrow> libref" where
  "libref_set_filename lr new_name = lr\<lparr>lr_filename := new_name\<rparr>"

definition library_symbol_new :: "libref \<Rightarrow> ulong \<Rightarrow> string \<Rightarrow> libref" where
  "library_symbol_new lr addr func = lr\<lparr>sym_list := sym_list lr @ [\<lparr>ls_addr = addr, ls_func = func\<rparr>]\<rparr>"

fun find_symbol_loop :: "ulong \<Rightarrow> library_symbol list \<Rightarrow> library_symbol option" where
  "find_symbol_loop addr [] = None"
| "find_symbol_loop addr (s # ss) = (if ls_addr s = addr then Some s else find_symbol_loop addr ss)"

definition library_find_symbol :: "libref \<Rightarrow> ulong \<Rightarrow> library_symbol option" where
  "library_find_symbol lr addr = find_symbol_loop addr (sym_list lr)"

fun library_find_by_dyn :: "library list \<Rightarrow> ulong \<Rightarrow> library option" where
  "library_find_by_dyn [] dyn = None"
| "library_find_by_dyn (lib # libs) dyn =
     (if lr_dyn (lib_ref lib) = dyn then Some lib else library_find_by_dyn libs dyn)"

subsection \<open>The tree\<close>

text \<open>The tree is ordered by the text address, the greatest first.\<close>

abbreviation lib_vaddr :: "library \<Rightarrow> ulong" where
  "lib_vaddr lib \<equiv> txt_vaddr (lib_ref lib)"

definition in_text :: "ulong \<Rightarrow> libref \<Rightarrow> bool" where
  "in_text addr lr \<longleftrightarrow> addr \<ge> txt_vaddr lr \<and> addr < txt_vaddr lr + txt_size lr"

fun addr2libref_loop :: "ulong \<Rightarrow> library rbt \<Rightarrow> libref option" where
  "addr2libref_loop addr Leaf = None"
| "addr2libref_loop addr (Node l c lib r) =
     (if in_text addr (lib_ref lib) then Some (lib_ref lib)
      else if lib_vaddr lib < addr then addr2libref_loop addr l
      else addr2libref_loop addr r)"

definition addr2libref :: "leader_libs \<Rightarrow> ulong \<Rightarrow> libref option" where
  "addr2libref ll addr = addr2libref_loop addr (libraries_tree ll)"

fun insert_lib_place :: "ulong \<Rightarrow> library rbt \<Rightarrow> library ctx \<Rightarrow> library ctx" where
  "insert_lib_place v Leaf k = k"
| "insert_lib_place v (Node l c lib r) k =
     (if lib_vaddr lib < v then insert_lib_place v l (FL c lib r # k)
      else insert_lib_place v r (FR l c lib # k))"

definition insert_lib :: "library \<Rightarrow> library rbt \<Rightarrow> library rbt" where
  "insert_lib lib t = tree_link lib (insert_lib_place (lib_vaddr lib) t [])"

text \<open>The node of a library, which the source reaches by its pointer.\<close>

fun lib_pos :: "nat \<Rightarrow> library rbt \<Rightarrow> library ctx \<Rightarrow> library position option" where
  "lib_pos i Leaf k = None"
| "lib_pos i (Node l c lib r) k =
     (if lib_id lib = i then Some (l, c, lib, r, k)
      else case lib_pos i l (FL c lib r # k) of Some p \<Rightarrow> Some p | None \<Rightarrow> lib_pos i r (FR l c lib # k))"

definition erase_lib :: "nat \<Rightarrow> library rbt \<Rightarrow> library rbt" where
  "erase_lib i t = (case lib_pos i t [] of None \<Rightarrow> t | Some p \<Rightarrow> pos_erase p)"

subsection \<open>The libraries of a process\<close>

definition library_setup :: leader_libs where
  "library_setup = \<lparr>libraries_list = [], libraries_tree = Leaf\<rparr>"

text \<open>\<open>_library_add\<close>; \<open>malloc\<close> is taken to give memory, whose address is the identity of the library.\<close>

definition library_add_ref :: "leader_libs \<Rightarrow> libref \<Rightarrow> ref_store \<Rightarrow> (leader_libs \<times> ref_store) dres" where
  "library_add_ref ll lr st =
     bindE (libref_get lr st) (\<lambda>st.
       let lib = \<lparr>lib_id = next_id st, lib_ref = lr\<rparr>; st = st\<lparr>next_id := Suc (next_id st)\<rparr>
       in Inr (ll\<lparr>libraries_list := libraries_list ll @ [lib], libraries_tree := insert_lib lib (libraries_tree ll)\<rparr>, st))"

fun clone_loop :: "library list \<Rightarrow> leader_libs \<Rightarrow> ref_store \<Rightarrow> (leader_libs \<times> ref_store) dres" where
  "clone_loop [] ll st = Inr (ll, st)"
| "clone_loop (lib # libs) ll st = bindE (library_add_ref ll (lib_ref lib) st) (\<lambda>(ll, st). clone_loop libs ll st)"

definition library_clone_all :: "leader_libs \<Rightarrow> leader_libs \<Rightarrow> ref_store \<Rightarrow> (leader_libs \<times> ref_store) dres" where
  "library_clone_all clone leader st = clone_loop (libraries_list leader) clone st"

definition library_execname :: "leader_libs \<Rightarrow> string option" where
  "library_execname ll = (case libraries_list ll of [] \<Rightarrow> None | lib # _ \<Rightarrow> lr_filename (lib_ref lib))"

text \<open>\<open>library_delete\<close> behind the removal of its breakpoints: list, tree and reference.\<close>

definition library_unlink :: "library \<Rightarrow> leader_libs \<Rightarrow> ref_store \<Rightarrow> (leader_libs \<times> ref_store) dres" where
  "library_unlink lib ll st =
     bindE (libref_put (lib_ref lib) st) (\<lambda>st.
       Inr (ll\<lparr>libraries_list := filter (\<lambda>l. lib_id l \<noteq> lib_id lib) (libraries_list ll),
              libraries_tree := erase_lib (lib_id lib) (libraries_tree ll)\<rparr>, st))"

subsection \<open>Search and insertion\<close>

abbreviation by_vaddr :: "library rbt \<Rightarrow> bool" where
  "by_vaddr t \<equiv> sorted_wrt (\<lambda>a b. lib_vaddr a \<ge> lib_vaddr b) (nodes t)"

text \<open>The text segments do not wrap around and do not overlap.\<close>

definition texts_ok :: "library list \<Rightarrow> bool" where
  "texts_ok libs \<longleftrightarrow>
     (\<forall>l \<in> set libs. unat (lib_vaddr l) + unat (txt_size (lib_ref l)) < 2 ^ 64) \<and>
     (\<forall>a \<in> set libs. \<forall>b \<in> set libs. lib_vaddr a < lib_vaddr b \<longrightarrow>
        unat (lib_vaddr a) + unat (txt_size (lib_ref a)) \<le> unat (lib_vaddr b)) \<and>
     (\<forall>a \<in> set libs. \<forall>b \<in> set libs. lib_vaddr a = lib_vaddr b \<longrightarrow> lib_ref a = lib_ref b)"

lemma in_text_nat:
  "unat (txt_vaddr lr) + unat (txt_size lr) < 2 ^ 64 \<Longrightarrow>
   in_text addr lr \<longleftrightarrow> unat (txt_vaddr lr) \<le> unat addr \<and> unat addr < unat (txt_vaddr lr) + unat (txt_size lr)"
  by (auto simp: in_text_def word_le_nat_alt word_less_nat_alt unat_word_ariths)

lemma addr2libref_loop_Some:
  "addr2libref_loop addr t = Some lr \<Longrightarrow> in_text addr lr \<and> (\<exists>lib \<in> set (nodes t). lib_ref lib = lr)"
  by (induction t) (auto split: if_splits)

lemma addr2libref_loop_None:
  assumes "addr2libref_loop addr t = None" "by_vaddr t" "texts_ok (nodes t)" "lib \<in> set (nodes t)"
  shows "\<not> in_text addr (lib_ref lib)"
  using assms
proof (induction t)
  case (Node l c x r)
  have tl: "texts_ok (nodes l)" "texts_ok (nodes r)" "by_vaddr l" "by_vaddr r"
    using Node.prems(2,3) by (auto simp: texts_ok_def sorted_wrt_append)
  have bnd: "unat (lib_vaddr y) + unat (txt_size (lib_ref y)) < 2 ^ 64" if "y \<in> set (nodes (Node l c x r))" for y
    using Node.prems(3) that unfolding texts_ok_def by blast
  have nx: "\<not> in_text addr (lib_ref x)" using Node.prems(1) by (auto split: if_splits)
  show ?case
  proof (cases "lib_vaddr x < addr")
    case True
    have "\<not> in_text addr (lib_ref y)" if "y \<in> set (nodes r)" for y
    proof
      assume a: "in_text addr (lib_ref y)"
      have le: "lib_vaddr y \<le> lib_vaddr x" using Node.prems(2) that by (auto simp: sorted_wrt_append)
      have "lib_vaddr y \<noteq> lib_vaddr x" using a nx Node.prems(3) that unfolding texts_ok_def by fastforce
      then have "lib_vaddr y < lib_vaddr x" using le by simp
      then have "unat (lib_vaddr y) + unat (txt_size (lib_ref y)) \<le> unat (lib_vaddr x)"
        using Node.prems(3) that unfolding texts_ok_def by simp
      then show False using a bnd [of y] that True by (simp add: in_text_nat word_less_nat_alt)
    qed
    then show ?thesis using Node.IH(1) Node.prems(1,4) tl True nx by auto
  next
    case False
    have "\<not> in_text addr (lib_ref y)" if "y \<in> set (nodes l)" for y
    proof
      assume a: "in_text addr (lib_ref y)"
      have "lib_vaddr x \<le> lib_vaddr y" using Node.prems(2) that by (auto simp: sorted_wrt_append)
      then have "lib_vaddr y = lib_vaddr x" using a False by (auto simp: in_text_def)
      then have "lib_ref y = lib_ref x" using Node.prems(3) that unfolding texts_ok_def by simp
      then show False using a nx by simp
    qed
    then show ?thesis using Node.IH(2) Node.prems(1,4) tl False nx by auto
  qed
qed simp

lemma insert_lib_place_split:
  "by_vaddr t \<Longrightarrow> \<exists>xs ys. plug (insert_lib_place v t k) Leaf = plug k t \<and>
     before (insert_lib_place v t k) = before k @ xs \<and> after (insert_lib_place v t k) = ys @ after k \<and> nodes t = xs @ ys \<and>
     (\<forall>x \<in> set xs. lib_vaddr x \<ge> v) \<and> (\<forall>y \<in> set ys. v > lib_vaddr y)"
proof (induction v t k rule: insert_lib_place.induct)
  case (2 v l c x r k)
  show ?case
  proof (cases "lib_vaddr x < v")
    case True
    with 2 obtain xs ys where "plug (insert_lib_place v l (FL c x r # k)) Leaf = plug k (Node l c x r)"
        "before (insert_lib_place v l (FL c x r # k)) = before k @ xs"
        "after (insert_lib_place v l (FL c x r # k)) = ys @ x # nodes r @ after k" "nodes l = xs @ ys"
        "\<forall>x \<in> set xs. lib_vaddr x \<ge> v" "\<forall>y \<in> set ys. v > lib_vaddr y"
      by (auto simp: sorted_wrt_append)
    with True "2.prems" show ?thesis
      by (intro exI [of _ xs] exI [of _ "ys @ x # nodes r"]) (auto simp: sorted_wrt_append)
  next
    case False
    with 2 obtain xs ys where "plug (insert_lib_place v r (FR l c x # k)) Leaf = plug k (Node l c x r)"
        "before (insert_lib_place v r (FR l c x # k)) = before k @ nodes l @ x # xs"
        "after (insert_lib_place v r (FR l c x # k)) = ys @ after k" "nodes r = xs @ ys"
        "\<forall>x \<in> set xs. lib_vaddr x \<ge> v" "\<forall>y \<in> set ys. v > lib_vaddr y"
      by (auto simp: sorted_wrt_append)
    with False "2.prems" show ?thesis
      by (intro exI [of _ "nodes l @ x # xs"] exI [of _ ys]) (auto simp: sorted_wrt_append)
  qed
qed auto

lemma insert_lib_result:
  assumes "is_rbt t" "by_vaddr t"
  shows "is_rbt (insert_lib lib t)" "by_vaddr (insert_lib lib t)"
    "mset (nodes (insert_lib lib t)) = add_mset lib (mset (nodes t))"
proof -
  obtain xs ys where s: "plug (insert_lib_place (lib_vaddr lib) t []) Leaf = t"
      "before (insert_lib_place (lib_vaddr lib) t []) = xs" "after (insert_lib_place (lib_vaddr lib) t []) = ys"
      "nodes t = xs @ ys" "\<forall>x \<in> set xs. lib_vaddr x \<ge> lib_vaddr lib" "\<forall>y \<in> set ys. lib_vaddr lib > lib_vaddr y"
    using insert_lib_place_split [OF assms(2), of "lib_vaddr lib" "[]"] by auto
  show "is_rbt (insert_lib lib t)" using assms(1) s(1) by (simp add: insert_lib_def tree_link_def rb_insert_rbt)
  show "by_vaddr (insert_lib lib t)" using assms(2) s by (auto simp: insert_lib_def tree_link_def sorted_wrt_append less_imp_le)
  show "mset (nodes (insert_lib lib t)) = add_mset lib (mset (nodes t))" using s by (simp add: insert_lib_def tree_link_def)
qed

lemma lib_pos_Some: "lib_pos i t k = Some p \<Longrightarrow> pos_tree p = plug k t \<and> lib_id (pos_at p) = i"
  by (induction i t k rule: lib_pos.induct) (auto split: if_splits option.splits)

lemma lib_pos_None: "lib_pos i t k = None \<longleftrightarrow> (\<forall>lib \<in> set (nodes t). lib_id lib \<noteq> i)"
  by (induction i t k rule: lib_pos.induct) (auto split: if_splits option.splits)

lemma filter_out_key:
  assumes "distinct (map f (xs @ b # ys))" "f b = i"
  shows "filter (\<lambda>l. f l \<noteq> i) (xs @ b # ys) = xs @ ys"
proof -
  have "i \<notin> f ` set xs" "i \<notin> f ` set ys" using assms by auto
  then have "filter (\<lambda>l. f l \<noteq> i) xs = xs" "filter (\<lambda>l. f l \<noteq> i) ys = ys" by (auto intro!: filter_True)
  then show ?thesis using assms(2) by simp
qed

lemma erase_lib_result:
  assumes "is_rbt t" "by_vaddr t" "distinct (map lib_id (nodes t))"
  shows "is_rbt (erase_lib i t)" "by_vaddr (erase_lib i t)" "nodes (erase_lib i t) = filter (\<lambda>l. lib_id l \<noteq> i) (nodes t)"
proof -
  show n: "nodes (erase_lib i t) = filter (\<lambda>l. lib_id l \<noteq> i) (nodes t)"
  proof (cases "lib_pos i t []")
    case None
    then show ?thesis using lib_pos_None [of i t "[]"] by (simp add: erase_lib_def filter_id_conv)
  next
    case (Some p)
    obtain l c b r k where p: "p = (l, c, b, r, k)" by (cases p)
    have t: "nodes t = (before k @ nodes l) @ b # (nodes r @ after k)" "lib_id b = i" using lib_pos_Some [OF Some] by (auto simp: p)
    have "filter (\<lambda>l. lib_id l \<noteq> i) (nodes t) = (before k @ nodes l) @ (nodes r @ after k)"
      unfolding t(1) by (rule filter_out_key) (use assms(3) t in simp_all)
    then show ?thesis by (simp add: erase_lib_def Some p)
  qed
  show "is_rbt (erase_lib i t)"
  proof (cases "lib_pos i t []")
    case (Some p)
    then have "pos_tree p = t" using lib_pos_Some [OF Some] by simp
    with assms(1) tbl.ok_erase [of p] Some show ?thesis by (simp add: erase_lib_def)
  qed (use assms(1) in \<open>simp add: erase_lib_def\<close>)
  show "by_vaddr (erase_lib i t)" unfolding n using assms(2) by (rule sorted_wrt_filter)
qed

subsection \<open>Counting the references\<close>

definition lib_inv :: "leader_libs \<Rightarrow> bool" where
  "lib_inv ll \<longleftrightarrow> is_rbt (libraries_tree ll) \<and> by_vaddr (libraries_tree ll) \<and>
     mset (nodes (libraries_tree ll)) = mset (libraries_list ll)"

definition refs_to :: "nat \<Rightarrow> library list \<Rightarrow> nat" where
  "refs_to i libs = length (filter (\<lambda>l. lr_id (lib_ref l) = i) libs)"

text \<open>Every reference a library of some process holds is counted; \<open>libs\<close> are the libraries of all processes.\<close>

definition refs_ok :: "ref_store \<Rightarrow> library list \<Rightarrow> bool" where
  "refs_ok st libs \<longleftrightarrow>
     (\<forall>lib \<in> set libs. refcnt st (lr_id (lib_ref lib)) = Some (of_nat (refs_to (lr_id (lib_ref lib)) libs)) \<and> lib_id lib < next_id st) \<and>
     distinct (map lib_id libs) \<and> length libs < 2 ^ 32"

lemma lib_inv_setup [simp]: "lib_inv library_setup"
  by (simp add: lib_inv_def library_setup_def is_rbt_def)

lemma refs_to_simps [simp]:
  "refs_to i [] = 0" "refs_to i (l # ls) = (if lr_id (lib_ref l) = i then 1 else 0) + refs_to i ls"
  "refs_to i (ls @ ms) = refs_to i ls + refs_to i ms"
  by (simp_all add: refs_to_def)

lemma refs_to_le: "refs_to i libs \<le> length libs"
  by (simp add: refs_to_def)

lemma refs_to_pos: "lib \<in> set libs \<Longrightarrow> 0 < refs_to (lr_id (lib_ref lib)) libs"
  by (auto simp: refs_to_def filter_empty_conv)

lemma library_add_ref_ok:
  assumes "lib_inv ll" "refs_ok st (libraries_list ll @ others)" "length (libraries_list ll @ others) + 1 < 2 ^ 32"
    and "refcnt st (lr_id lr) = Some (of_nat (refs_to (lr_id lr) (libraries_list ll @ others)))"
  shows "\<exists>ll' st'. library_add_ref ll lr st = Inr (ll', st') \<and> lib_inv ll' \<and> refs_ok st' (libraries_list ll' @ others) \<and>
    libraries_list ll' = libraries_list ll @ [\<lparr>lib_id = next_id st, lib_ref = lr\<rparr>]"
proof -
  define lib where "lib = \<lparr>lib_id = next_id st, lib_ref = lr\<rparr>"
  define ll' where "ll' = ll\<lparr>libraries_list := libraries_list ll @ [lib], libraries_tree := insert_lib lib (libraries_tree ll)\<rparr>"
  define st' where "st' = st\<lparr>refcnt := (refcnt st)(lr_id lr \<mapsto> of_nat (refs_to (lr_id lr) (libraries_list ll @ others)) + 1),
    next_id := Suc (next_id st)\<rparr>"
  have "library_add_ref ll lr st = Inr (ll', st')"
    by (simp add: library_add_ref_def libref_get_def assms(4) ll'_def st'_def lib_def Let_def)
  moreover have "lib_inv ll'" using assms(1) insert_lib_result by (auto simp: lib_inv_def ll'_def)
  moreover have "refs_ok st' (libraries_list ll' @ others)"
    using assms(2,3) by (auto simp: refs_ok_def ll'_def st'_def lib_def less_Suc_eq)
  ultimately show ?thesis by (auto simp: ll'_def lib_def)
qed

text \<open>A library that goes gives its reference back; the last one frees the reference.\<close>

lemma library_unlink_ok:
  assumes "lib_inv ll" "refs_ok st (libraries_list ll @ others)" "lib \<in> set (libraries_list ll)"
  shows "\<exists>ll' st'. library_unlink lib ll st = Inr (ll', st') \<and> lib_inv ll' \<and> refs_ok st' (libraries_list ll' @ others) \<and>
    libraries_list ll' = filter (\<lambda>l. lib_id l \<noteq> lib_id lib) (libraries_list ll) \<and>
    (refcnt st' (lr_id (lib_ref lib)) = None \<longleftrightarrow> refs_to (lr_id (lib_ref lib)) (libraries_list ll' @ others) = 0)"
proof -
  let ?i = "lr_id (lib_ref lib)"
  from assms(3) obtain xs ys where l: "libraries_list ll = xs @ lib # ys" by (auto simp: in_set_conv_decomp)
  have dis: "distinct (map lib_id (xs @ lib # ys))" using assms(2) by (simp add: refs_ok_def l Int_Un_distrib)
  have f: "filter (\<lambda>k. lib_id k \<noteq> lib_id lib) (libraries_list ll) = xs @ ys"
    unfolding l using dis by (rule filter_out_key) simp
  define n where "n = refs_to ?i (xs @ ys @ others)"
  have n: "refcnt st ?i = Some (of_nat (Suc n))" "Suc n < 2 ^ 32"
  proof -
    show "refcnt st ?i = Some (of_nat (Suc n))" using assms(2) by (simp add: refs_ok_def l n_def algebra_simps)
    show "Suc n < 2 ^ 32" using assms(2) refs_to_le [of ?i "xs @ ys @ others"] by (simp add: refs_ok_def l n_def)
  qed
  have nz: "of_nat (Suc n) \<noteq> (0 :: u32)" using n(2) by (simp add: word_unat_eq_iff unat_of_nat del: of_nat_Suc)
  have z: "(of_nat n = (0 :: u32)) \<longleftrightarrow> n = 0" using n(2) by (simp add: word_unat_eq_iff unat_of_nat)
  obtain st' where st': "libref_put (lib_ref lib) st = Inr st'" "next_id st' = next_id st"
      "refcnt st' = (refcnt st)(?i := if n = 0 then None else Some (of_nat n))"
    using n(1) nz z by (auto simp: libref_put_def libref_delete_def Let_def)
  define ll' where "ll' = ll\<lparr>libraries_list := xs @ ys, libraries_tree := erase_lib (lib_id lib) (libraries_tree ll)\<rparr>"
  have u: "library_unlink lib ll st = Inr (ll', st')" by (simp add: library_unlink_def st'(1) f ll'_def)
  have ms: "mset (nodes (libraries_tree ll)) = mset (libraries_list ll)" using assms(1) by (simp add: lib_inv_def)
  then have "distinct (map lib_id (nodes (libraries_tree ll)))" using dis l by (metis mset_eq_imp_distinct_iff mset_map)
  note er = erase_lib_result [OF _ _ this]
  have "mset (filter (\<lambda>k. lib_id k \<noteq> lib_id lib) (nodes (libraries_tree ll))) = mset (xs @ ys)"
    using ms f by (metis mset_filter)
  then have "lib_inv ll'" using assms(1) er by (simp add: lib_inv_def ll'_def)
  moreover have "refs_ok st' (libraries_list ll' @ others)"
  proof -
    have "refcnt st' (lr_id (lib_ref k)) = Some (of_nat (refs_to (lr_id (lib_ref k)) (xs @ ys @ others)))" if "k \<in> set (xs @ ys @ others)" for k
    proof (cases "lr_id (lib_ref k) = ?i")
      case True
      then show ?thesis using refs_to_pos [OF that] st'(3) by (simp add: n_def)
    next
      case False
      then show ?thesis using assms(2) that st'(3) by (auto simp: refs_ok_def l)
    qed
    then show ?thesis using assms(2) st'(2) dis by (auto simp: refs_ok_def l ll'_def)
  qed
  moreover have "refcnt st' ?i = None \<longleftrightarrow> refs_to ?i (libraries_list ll' @ others) = 0"
    using st'(3) by (simp add: n_def ll'_def)
  ultimately show ?thesis using u f by (auto simp: ll'_def)
qed

text \<open>A fork shares every library of the leader.\<close>

lemma clone_loop_ok:
  assumes "lib_inv ll" "refs_ok st (libraries_list ll @ others)" "length (libraries_list ll @ others) + length libs < 2 ^ 32"
    and "set libs \<subseteq> set others"
  shows "\<exists>ll' st'. clone_loop libs ll st = Inr (ll', st') \<and> lib_inv ll' \<and> refs_ok st' (libraries_list ll' @ others) \<and>
    map lib_ref (libraries_list ll') = map lib_ref (libraries_list ll) @ map lib_ref libs"
  using assms
proof (induction libs arbitrary: ll st)
  case (Cons lib libs)
  have "lib \<in> set (libraries_list ll @ others)" using Cons.prems(4) by simp
  then have "refcnt st (lr_id (lib_ref lib)) = Some (of_nat (refs_to (lr_id (lib_ref lib)) (libraries_list ll @ others)))"
    using Cons.prems(2) unfolding refs_ok_def by blast
  from library_add_ref_ok [OF Cons.prems(1,2) _ this] Cons.prems(3) obtain l1 s1 where
    l1: "library_add_ref ll (lib_ref lib) st = Inr (l1, s1)" "lib_inv l1" "refs_ok s1 (libraries_list l1 @ others)"
      "libraries_list l1 = libraries_list ll @ [\<lparr>lib_id = next_id st, lib_ref = lib_ref lib\<rparr>]" by auto
  from Cons.IH [OF l1(2,3)] Cons.prems(3,4) l1(4) obtain l2 s2 where
    "clone_loop libs l1 s1 = Inr (l2, s2)" "lib_inv l2" "refs_ok s2 (libraries_list l2 @ others)"
      "map lib_ref (libraries_list l2) = map lib_ref (libraries_list l1) @ map lib_ref libs" by auto
  with l1 show ?case by auto
qed simp

end
