(* ===== verification/Library_Steps.thy ===== *)
theory Library_Steps
  imports Libraries
begin

text \<open>
  The libraries of several processes that share references: what the operations of \<open>library.c\<close> do to
  the processes one after the other, and the invariant of the counts in every state they reach.
\<close>

subsection \<open>Steps\<close>

text \<open>
  The process that acts is the first of the list. A new library is a new reference, whose fields
  are set before it is used; the counts are of 32 bits, so a process has fewer libraries than that.
\<close>

definition all_libs :: "leader_libs list \<Rightarrow> library list" where
  "all_libs lls = concat (map libraries_list lls)"

definition no_refs :: ref_store where
  "no_refs = \<lparr>refcnt = Map.empty, next_id = 0, munmaps = []\<rparr>"

inductive lib_run :: "leader_libs list \<Rightarrow> ref_store \<Rightarrow> bool" where
  start: "lib_run [] no_refs"
| leader: "lib_run lls st \<Longrightarrow> lib_run (library_setup # lls) st"
| other: "lib_run lls st \<Longrightarrow> mset lls' = mset lls \<Longrightarrow> lib_run lls' st"
| add: "lib_run (ll # lls) st \<Longrightarrow> libref_new ty st = (lr, st1) \<Longrightarrow> lr_id lr' = lr_id lr \<Longrightarrow>
    length (all_libs (ll # lls)) + 1 < 2 ^ 32 \<Longrightarrow> library_add_ref ll lr' st1 = Inr (ll', st') \<Longrightarrow> lib_run (ll' # lls) st'"
| unlink: "lib_run (ll # lls) st \<Longrightarrow> lib \<in> set (libraries_list ll) \<Longrightarrow> library_unlink lib ll st = Inr (ll', st') \<Longrightarrow>
    lib_run (ll' # lls) st'"
| clone: "lib_run (ll # ld # lls) st \<Longrightarrow> length (all_libs (ll # ld # lls)) + length (libraries_list ld) < 2 ^ 32 \<Longrightarrow>
    library_clone_all ll ld st = Inr (ll', st') \<Longrightarrow> lib_run (ll' # ld # lls) st'"
| gone: "lib_run (ll # lls) st \<Longrightarrow> libraries_list ll = [] \<Longrightarrow> lib_run lls st"

subsection \<open>The invariant\<close>

definition libs_ok :: "leader_libs list \<Rightarrow> ref_store \<Rightarrow> bool" where
  "libs_ok lls st \<longleftrightarrow> (\<forall>ll \<in> set lls. lib_inv ll) \<and> refs_ok st (all_libs lls) \<and>
     (\<forall>lib \<in> set (all_libs lls). lr_id (lib_ref lib) < next_id st)"

lemma all_libs_Cons [simp]: "all_libs (ll # lls) = libraries_list ll @ all_libs lls" "all_libs [] = []"
  by (simp_all add: all_libs_def)

lemma mset_all_libs: "mset (all_libs lls) = sum_mset (image_mset (\<lambda>ll. mset (libraries_list ll)) (mset lls))"
  by (induction lls) simp_all

lemma refs_to_mset: "mset libs = mset libs' \<Longrightarrow> refs_to i libs = refs_to i libs'"
  unfolding refs_to_def by (metis mset_filter size_mset)

lemma refs_ok_mset:
  assumes "refs_ok st libs" "mset libs = mset libs'"
  shows "refs_ok st libs'"
proof -
  have "distinct (map lib_id libs')" using assms by (metis mset_eq_imp_distinct_iff mset_map refs_ok_def)
  then show ?thesis using assms refs_to_mset [OF assms(2)] mset_eq_setD [OF assms(2)] mset_eq_length [OF assms(2)]
    by (simp add: refs_ok_def)
qed

lemma libs_ok_mset:
  assumes "libs_ok lls st" "mset lls' = mset lls"
  shows "libs_ok lls' st"
proof -
  have "mset (all_libs lls) = mset (all_libs lls')" using assms(2) by (simp add: mset_all_libs)
  with assms refs_ok_mset [of st "all_libs lls"] mset_eq_setD [OF assms(2)] mset_eq_setD [OF this] show ?thesis
    by (simp add: libs_ok_def)
qed

lemma libref_new_fields:
  "libref_new ty st = (lr, st1) \<Longrightarrow> lr_id lr = next_id st \<and> next_id st1 = Suc (next_id st) \<and> refcnt st1 = (refcnt st)(next_id st \<mapsto> 0)"
  by (auto simp: libref_new_def)

lemma refs_to_none: "\<forall>lib \<in> set libs. lr_id (lib_ref lib) \<noteq> i \<Longrightarrow> refs_to i libs = 0"
  by (auto simp: refs_to_def filter_empty_conv)

lemma add_next: "library_add_ref ll lr st = Inr (ll', st') \<Longrightarrow> next_id st' = Suc (next_id st)"
  by (auto simp: library_add_ref_def libref_get_def Let_def split: option.splits)

lemma libs_ok_add:
  assumes "libs_ok (ll # lls) st" "libref_new ty st = (lr, st1)" "lr_id lr' = lr_id lr" "length (all_libs (ll # lls)) + 1 < 2 ^ 32"
  shows "\<exists>ll' st'. library_add_ref ll lr' st1 = Inr (ll', st') \<and> libs_ok (ll' # lls) st'"
proof -
  note new = libref_new_fields [OF assms(2)]
  have lt: "\<forall>lib \<in> set (libraries_list ll @ all_libs lls). lr_id (lib_ref lib) < next_id st" using assms(1) by (simp add: libs_ok_def)
  have r0: "refs_ok st (libraries_list ll @ all_libs lls)" using assms(1) by (simp add: libs_ok_def)
  have r1: "refs_ok st1 (libraries_list ll @ all_libs lls)" unfolding refs_ok_def
  proof (intro conjI ballI)
    fix lib
    assume l: "lib \<in> set (libraries_list ll @ all_libs lls)"
    then have "lr_id (lib_ref lib) < next_id st" "lib_id lib < next_id st" using lt r0 unfolding refs_ok_def by blast+
    then show "lib_id lib < next_id st1" using new by linarith
    show "refcnt st1 (lr_id (lib_ref lib)) = Some (of_nat (refs_to (lr_id (lib_ref lib)) (libraries_list ll @ all_libs lls)))"
      using r0 new l \<open>lr_id (lib_ref lib) < next_id st\<close> unfolding refs_ok_def by auto
  qed (use r0 in \<open>simp_all add: refs_ok_def\<close>)
  have z: "refs_to (next_id st) (libraries_list ll @ all_libs lls) = 0" using lt by (intro refs_to_none) (metis less_irrefl)
  have c: "refcnt st1 (lr_id lr') = Some (of_nat (refs_to (lr_id lr') (libraries_list ll @ all_libs lls)))"
    using new assms(3) z by simp
  from library_add_ref_ok [OF _ r1 _ c] assms(1,4) obtain ll' st' where
    a: "library_add_ref ll lr' st1 = Inr (ll', st')" "lib_inv ll'" "refs_ok st' (libraries_list ll' @ all_libs lls)"
      "libraries_list ll' = libraries_list ll @ [\<lparr>lib_id = next_id st1, lib_ref = lr'\<rparr>]"
    by (auto simp: libs_ok_def)
  have "lr_id (lib_ref lib) < next_id st'" if "lib \<in> set (libraries_list ll' @ all_libs lls)" for lib
    using that lt new assms(3) a(4) add_next [OF a(1)] by (auto simp: less_Suc_eq)
  with a assms(1) have "libs_ok (ll' # lls) st'" by (simp add: libs_ok_def)
  with a(1) show ?thesis by blast
qed

lemma unlink_next: "library_unlink lib ll st = Inr (ll', st') \<Longrightarrow> next_id st' = next_id st"
  by (auto simp: library_unlink_def libref_put_def libref_delete_def Let_def split: option.splits if_splits)

lemma libs_ok_unlink:
  assumes "libs_ok (ll # lls) st" "lib \<in> set (libraries_list ll)"
  shows "\<exists>ll' st'. library_unlink lib ll st = Inr (ll', st') \<and> libs_ok (ll' # lls) st' \<and>
    libraries_list ll' = filter (\<lambda>l. lib_id l \<noteq> lib_id lib) (libraries_list ll) \<and>
    (refcnt st' (lr_id (lib_ref lib)) = None \<longleftrightarrow> refs_to (lr_id (lib_ref lib)) (all_libs (ll' # lls)) = 0)"
proof -
  have "lib_inv ll" "refs_ok st (libraries_list ll @ all_libs lls)" using assms(1) by (simp_all add: libs_ok_def)
  from library_unlink_ok [OF this assms(2)] obtain ll' st' where
    u: "library_unlink lib ll st = Inr (ll', st')" "lib_inv ll'" "refs_ok st' (libraries_list ll' @ all_libs lls)"
      "libraries_list ll' = filter (\<lambda>l. lib_id l \<noteq> lib_id lib) (libraries_list ll)"
      "refcnt st' (lr_id (lib_ref lib)) = None \<longleftrightarrow> refs_to (lr_id (lib_ref lib)) (libraries_list ll' @ all_libs lls) = 0"
    by (elim exE conjE)
  then have "libs_ok (ll' # lls) st'" using assms(1) unlink_next [OF u(1)] by (auto simp: libs_ok_def)
  with u show ?thesis by auto
qed

lemma clone_next: "clone_loop libs ll st = Inr (ll', st') \<Longrightarrow> next_id st \<le> next_id st'"
proof (induction libs arbitrary: ll st)
  case (Cons lib libs)
  then obtain l1 s1 where a: "library_add_ref ll (lib_ref lib) st = Inr (l1, s1)" "clone_loop libs l1 s1 = Inr (ll', st')"
    by (cases "library_add_ref ll (lib_ref lib) st") auto
  from Cons.IH [OF a(2)] add_next [OF a(1)] show ?case by simp
qed simp

lemma libs_ok_clone:
  assumes "libs_ok (ll # ld # lls) st" "length (all_libs (ll # ld # lls)) + length (libraries_list ld) < 2 ^ 32"
  shows "\<exists>ll' st'. library_clone_all ll ld st = Inr (ll', st') \<and> libs_ok (ll' # ld # lls) st' \<and>
    map lib_ref (libraries_list ll') = map lib_ref (libraries_list ll) @ map lib_ref (libraries_list ld)"
proof -
  let ?o = "libraries_list ld @ all_libs lls"
  from clone_loop_ok [of ll st ?o "libraries_list ld"] assms obtain ll' st' where
    c: "clone_loop (libraries_list ld) ll st = Inr (ll', st')" "lib_inv ll'" "refs_ok st' (libraries_list ll' @ ?o)"
      "map lib_ref (libraries_list ll') = map lib_ref (libraries_list ll) @ map lib_ref (libraries_list ld)"
    by (auto simp: libs_ok_def)
  have "lr_id (lib_ref lib) < next_id st'" if "lib \<in> set (libraries_list ll' @ ?o)" for lib
  proof -
    have e: "lib_ref ` set (libraries_list ll') = lib_ref ` (set (libraries_list ll) \<union> set (libraries_list ld))"
      using c(4) by (metis image_Un list.set_map set_append)
    then have "\<exists>l \<in> set (libraries_list ll @ ?o). lib_ref l = lib_ref lib"
    proof (cases "lib \<in> set (libraries_list ll')")
      case True
      then have "lib_ref lib \<in> lib_ref ` (set (libraries_list ll) \<union> set (libraries_list ld))" using e by blast
      then show ?thesis by auto
    qed (use that in auto)
    then obtain l where "l \<in> set (libraries_list ll @ ?o)" "lib_ref l = lib_ref lib" by blast
    moreover have "\<forall>l \<in> set (libraries_list ll @ ?o). lr_id (lib_ref l) < next_id st" using assms(1) by (simp add: libs_ok_def)
    ultimately show ?thesis using clone_next [OF c(1)] by (metis order_less_le_trans)
  qed
  with c assms(1) have "libs_ok (ll' # ld # lls) st'" by (simp add: libs_ok_def)
  with c show ?thesis by (auto simp: library_clone_all_def)
qed

theorem lib_run_ok: "lib_run lls st \<Longrightarrow> libs_ok lls st"
proof (induction rule: lib_run.induct)
  case start
  then show ?case by (simp add: libs_ok_def refs_ok_def)
next
  case (leader lls st)
  then show ?case by (simp add: libs_ok_def) (simp add: library_setup_def)
next
  case (other lls st lls')
  then show ?case by (blast intro: libs_ok_mset)
next
  case (add ll lls st ty lr st1 lr' ll' st')
  from libs_ok_add [OF add.IH add.hyps(2-4)] add.hyps(5) show ?case by auto
next
  case (unlink ll lls st lib ll' st')
  from libs_ok_unlink [OF unlink.IH unlink.hyps(2)] unlink.hyps(3) show ?case by auto
next
  case (clone ll ld lls st ll' st')
  from libs_ok_clone [OF clone.IH clone.hyps(2)] clone.hyps(3) show ?case by auto
next
  case (gone ll lls st)
  then show ?case by (simp add: libs_ok_def)
qed

subsection \<open>The library of an address\<close>

text \<open>In a reachable state the search in the tree agrees with a search of the list.\<close>

lemma addr2libref_exact:
  assumes "lib_inv ll" "texts_ok (libraries_list ll)"
  shows "addr2libref ll a = Some lr \<longleftrightarrow> (\<exists>lib \<in> set (libraries_list ll). lib_ref lib = lr \<and> in_text a lr)"
proof -
  let ?t = "libraries_tree ll"
  have s: "set (nodes ?t) = set (libraries_list ll)" using assms(1) by (metis lib_inv_def mset_eq_setD)
  have t: "by_vaddr ?t" "texts_ok (nodes ?t)" using assms s by (simp_all add: lib_inv_def texts_ok_def)
  have uniq: "lib_ref x = lib_ref y"
    if "x \<in> set (libraries_list ll)" "y \<in> set (libraries_list ll)" "in_text a (lib_ref x)" "in_text a (lib_ref y)" for x y
  proof (cases "lib_vaddr x = lib_vaddr y")
    case True
    then show ?thesis using assms(2) that unfolding texts_ok_def by blast
  next
    case False
    then have "lib_vaddr x < lib_vaddr y \<or> lib_vaddr y < lib_vaddr x" by (simp add: neq_iff)
    then have "unat (lib_vaddr x) + unat (txt_size (lib_ref x)) \<le> unat (lib_vaddr y) \<or>
      unat (lib_vaddr y) + unat (txt_size (lib_ref y)) \<le> unat (lib_vaddr x)" using assms(2) that(1,2) unfolding texts_ok_def by blast
    moreover have "unat (lib_vaddr z) + unat (txt_size (lib_ref z)) < 2 ^ 64" if "z \<in> set (libraries_list ll)" for z
      using assms(2) that unfolding texts_ok_def by blast
    ultimately show ?thesis using that by (auto simp: in_text_nat)
  qed
  show ?thesis
  proof
    assume "addr2libref ll a = Some lr"
    then show "\<exists>lib \<in> set (libraries_list ll). lib_ref lib = lr \<and> in_text a lr"
      using addr2libref_loop_Some s by (fastforce simp: addr2libref_def)
  next
    assume "\<exists>lib \<in> set (libraries_list ll). lib_ref lib = lr \<and> in_text a lr"
    then obtain lib where l: "lib \<in> set (libraries_list ll)" "lib_ref lib = lr" "in_text a lr" by blast
    show "addr2libref ll a = Some lr"
    proof (cases "addr2libref_loop a ?t")
      case None
      with addr2libref_loop_None [OF None t, of lib] l s show ?thesis by auto
    next
      case (Some lr')
      from addr2libref_loop_Some [OF this] obtain x where "x \<in> set (libraries_list ll)" "lib_ref x = lr'" "in_text a lr'" using s by auto
      with uniq [of x lib] l Some show ?thesis by (simp add: addr2libref_def)
    qed
  qed
qed

end
