(* ===== verification/Proc_Copy.thy ===== *)
theory Proc_Copy
  imports Server_Types
begin

text \<open>
  Reading and writing the memory of the traced process (\<open>copy_from_proc\<close> and its kin in
  \<open>sysdeps/linux-gnu/trace.c\<close>). \<open>ptrace\<close> moves one word of eight bytes at an unaligned address, and
  fails when one of the bytes is not mapped. The results are the bytes moved, or \<open>None\<close> for -1.
\<close>

subsection \<open>Memory\<close>

type_synonym mem = "ulong \<Rightarrow> u8 option"

definition read_mem :: "mem \<Rightarrow> ulong \<Rightarrow> nat \<Rightarrow> bytes option" where
  "read_mem m addr n = those (map (\<lambda>i. m (addr + of_nat i)) [0..<n])"

fun write_mem :: "mem \<Rightarrow> ulong \<Rightarrow> bytes \<Rightarrow> mem" where
  "write_mem m addr [] = m"
| "write_mem m addr (b # bs) = write_mem (m(addr := Some b)) (addr + 1) bs"

datatype errno = EIO | ESRCH | EFAULT | ENOSYS | EPERM

text \<open>
  The traced process: its memory, whether it is stopped so that \<open>ptrace\<close> works, and what
  \<open>process_vm_readv\<close> answers.
\<close>

record traced =
  t_mem :: mem
  t_stopped :: bool
  t_readv :: "ulong \<Rightarrow> nat \<Rightarrow> errno + bytes"

definition peek :: "traced \<Rightarrow> ulong \<Rightarrow> errno + ulong" where
  "peek tr addr =
     (if \<not> t_stopped tr then Inl ESRCH
      else case read_mem (t_mem tr) addr 8 of None \<Rightarrow> Inl EIO | Some bs \<Rightarrow> Inr (le_word bs))"

definition poke :: "traced \<Rightarrow> ulong \<Rightarrow> ulong \<Rightarrow> errno + traced" where
  "poke tr addr a =
     (if \<not> t_stopped tr then Inl ESRCH
      else case read_mem (t_mem tr) addr 8 of
        None \<Rightarrow> Inl EIO
      | Some _ \<Rightarrow> Inr (tr\<lparr>t_mem := write_mem (t_mem tr) addr (le_bytes 8 a)\<rparr>))"

subsection \<open>Copying\<close>

function copy_from_loop :: "traced \<Rightarrow> ulong \<Rightarrow> nat \<Rightarrow> bytes \<Rightarrow> bytes option" where
  "copy_from_loop tr addr len dst =
     (if len = 0 then Some dst
      else case peek tr addr of
        Inl e \<Rightarrow> if dst \<noteq> [] \<and> e = EIO then Some dst else None
      | Inr a \<Rightarrow>
          let n = min 8 len
          in copy_from_loop tr (addr + of_nat n) (len - n) (dst @ take n (le_bytes 8 a)))"
  by pat_completeness auto
termination by (relation "measure (\<lambda>(tr, addr, len, dst). len)") auto

declare copy_from_loop.simps [simp del]

text \<open>The flag \<open>nosys\<close> is the static variable that remembers that the system call does not exist.\<close>

definition copy_from_proc :: "bool \<Rightarrow> traced \<Rightarrow> ulong \<Rightarrow> nat \<Rightarrow> bool \<times> bytes option" where
  "copy_from_proc nosys tr addr len =
     (if len > 8 \<and> \<not> nosys then
        (case t_readv tr addr len of
           Inr bs \<Rightarrow> (nosys, Some bs)
         | Inl e \<Rightarrow>
             if e \<noteq> EFAULT then
               (if e \<noteq> ENOSYS then (nosys, None) else (True, copy_from_loop tr addr len []))
             else (nosys, copy_from_loop tr addr len []))
      else (nosys, copy_from_loop tr addr len []))"

text \<open>A last part shorter than a word is filled up with what is there.\<close>

function copy_to_loop :: "traced \<Rightarrow> ulong \<Rightarrow> bytes \<Rightarrow> nat \<Rightarrow> nat option \<times> traced" where
  "copy_to_loop tr addr src num_bytes =
     (if src = [] then (Some num_bytes, tr)
      else
        let fail = (\<lambda>e. if num_bytes \<noteq> 0 \<and> e = EIO then Some num_bytes else None);
            n = min 8 (length src)
        in
        case (if length src < 8 then peek tr addr else Inr 0) of
          Inl e \<Rightarrow> (fail e, tr)
        | Inr a \<Rightarrow>
            (case poke tr addr (le_word (take n src @ drop n (le_bytes 8 a))) of
               Inl e \<Rightarrow> (fail e, tr)
             | Inr tr \<Rightarrow> copy_to_loop tr (addr + of_nat n) (drop n src) (num_bytes + n)))"
  by pat_completeness auto
termination by (relation "measure (\<lambda>(tr, addr, src, num_bytes). length src)") auto

declare copy_to_loop.simps [simp del]

definition copy_to_proc :: "traced \<Rightarrow> ulong \<Rightarrow> bytes \<Rightarrow> nat option \<times> traced" where
  "copy_to_proc tr addr src = copy_to_loop tr addr src 0"

text \<open>The bytes that were there, and the process with the new ones.\<close>

function copy_from_to_loop :: "traced \<Rightarrow> ulong \<Rightarrow> bytes \<Rightarrow> bytes \<Rightarrow> bytes option \<times> bytes \<times> traced" where
  "copy_from_to_loop tr addr src dst =
     (if src = [] then (Some dst, dst, tr)
      else case peek tr addr of
        Inl e \<Rightarrow> (if dst \<noteq> [] \<and> e = EIO then Some dst else None, dst, tr)
      | Inr a \<Rightarrow>
          let n = min 8 (length src); dst' = dst @ take n (le_bytes 8 a) in
          (case poke tr addr (le_word (take n src @ drop n (le_bytes 8 a))) of
             Inl e \<Rightarrow> (if dst \<noteq> [] \<and> e = EIO then Some dst else None, dst', tr)
           | Inr tr \<Rightarrow> copy_from_to_loop tr (addr + of_nat n) (drop n src) dst'))"
  by pat_completeness auto
termination by (relation "measure (\<lambda>(tr, addr, src, dst). length src)") auto

declare copy_from_to_loop.simps [simp del]

definition copy_from_to_proc :: "traced \<Rightarrow> ulong \<Rightarrow> bytes \<Rightarrow> bytes option \<times> bytes \<times> traced" where
  "copy_from_to_proc tr addr src = copy_from_to_loop tr addr src []"

text \<open>A string up to its end; a terminating zero is written behind what was copied.\<close>

function copy_str_loop :: "traced \<Rightarrow> ulong \<Rightarrow> nat \<Rightarrow> bytes \<Rightarrow> bytes option" where
  "copy_str_loop tr addr len dst =
     (if len = 0 then Some dst
      else case peek tr addr of
        Inl e \<Rightarrow> if dst \<noteq> [] \<and> e = EIO then Some dst else None
      | Inr a \<Rightarrow>
          let n = min 8 len; cs = takeWhile (\<lambda>b. b \<noteq> 0) (take n (le_bytes 8 a)); i = length cs
          in if i < n then Some (dst @ cs) else copy_str_loop tr (addr + of_nat i) (len - i) (dst @ cs))"
  by pat_completeness auto
termination by (relation "measure (\<lambda>(tr, addr, len, dst). len)") auto

declare copy_str_loop.simps [simp del]

definition copy_str_from_proc :: "traced \<Rightarrow> ulong \<Rightarrow> nat \<Rightarrow> bytes option" where
  "copy_str_from_proc tr addr len =
     (if len = 0 then None else map_option (\<lambda>dst. dst @ [0]) (copy_str_loop tr addr (len - 1) []))"

subsection \<open>Bytes in memory\<close>

lemma those_map_Some: "(\<And>x. x \<in> set xs \<Longrightarrow> f x = Some (g x)) \<Longrightarrow> those (map f xs) = Some (map g xs)"
  by (induction xs) auto

lemma length_read_mem: "read_mem m addr n = Some bs \<Longrightarrow> length bs = n"
proof -
  have "those xs = Some ys \<Longrightarrow> length ys = length xs" for xs :: "u8 option list" and ys
    by (induction xs arbitrary: ys) (auto split: option.splits)
  then show "read_mem m addr n = Some bs \<Longrightarrow> length bs = n" by (fastforce simp: read_mem_def)
qed

lemma read_mem_nth:
  assumes "read_mem m addr n = Some bs" "i < n"
  shows "m (addr + of_nat i) = Some (bs ! i)"
proof -
  have "those xs = Some ys \<Longrightarrow> i < length xs \<Longrightarrow> xs ! i = Some (ys ! i)" for xs :: "u8 option list" and ys i
    by (induction xs arbitrary: ys i) (auto split: option.splits simp: nth_Cons')
  from this [of "map (\<lambda>i. m (addr + of_nat i)) [0..<n]" bs i] assms show ?thesis by (simp add: read_mem_def)
qed

lemma read_mem_eqI:
  assumes "length bs = n" "\<And>i. i < n \<Longrightarrow> m (addr + of_nat i) = Some (bs ! i)"
  shows "read_mem m addr n = Some bs"
proof -
  have "those (map (\<lambda>i. m (addr + of_nat i)) [0..<n]) = Some (map ((!) bs) [0..<n])"
    by (rule those_map_Some) (use assms in auto)
  moreover have "map ((!) bs) [0..<n] = bs" using assms(1) map_nth [of bs] by simp
  ultimately show ?thesis by (simp add: read_mem_def)
qed

lemma offset_eq: "i < 2 ^ 64 \<Longrightarrow> j < 2 ^ 64 \<Longrightarrow> (addr :: ulong) + of_nat i = addr + of_nat j \<longleftrightarrow> i = j"
proof -
  assume "i < 2 ^ 64" "j < 2 ^ 64"
  then have "(of_nat i :: ulong) = of_nat j \<longleftrightarrow> i = j" by (simp add: word_unat_eq_iff unat_of_nat)
  then show ?thesis by simp
qed

lemma write_mem_other: "\<forall>i < length bs. a \<noteq> addr + of_nat i \<Longrightarrow> write_mem m addr bs a = m a"
proof (induction bs arbitrary: m addr)
  case (Cons b bs)
  have "a \<noteq> addr" using Cons.prems [rule_format, of 0] by simp
  moreover have "\<forall>i < length bs. a \<noteq> addr + 1 + of_nat i"
  proof (intro allI impI)
    fix i
    assume "i < length bs"
    then show "a \<noteq> addr + 1 + of_nat i" using Cons.prems [rule_format, of "Suc i"] by (simp add: algebra_simps)
  qed
  then have "write_mem (m(addr := Some b)) (addr + 1) bs a = (m(addr := Some b)) a" by (rule Cons.IH)
  ultimately show ?case by simp
qed simp

lemma write_mem_nth:
  "length bs < 2 ^ 64 \<Longrightarrow> i < length bs \<Longrightarrow> write_mem m addr bs (addr + of_nat i) = Some (bs ! i)"
proof (induction bs arbitrary: m addr i)
  case (Cons b bs)
  show ?case
  proof (cases i)
    case 0
    have "addr \<noteq> addr + 1 + of_nat j" if "j < length bs" for j
      using offset_eq [of 0 "Suc j" addr] that Cons.prems(1) by (auto simp: algebra_simps)
    then have "write_mem (m(addr := Some b)) (addr + 1) bs addr = (m(addr := Some b)) addr" by (intro write_mem_other) simp
    then show ?thesis using 0 by simp
  next
    case (Suc j)
    have "write_mem (m(addr := Some b)) (addr + 1) bs (addr + 1 + of_nat j) = Some (bs ! j)"
      by (rule Cons.IH) (use Suc Cons.prems in simp_all)
    then show ?thesis using Suc by (simp add: add.assoc)
  qed
qed simp

lemma peek_some: "t_stopped tr \<Longrightarrow> read_mem (t_mem tr) addr 8 = Some bs \<Longrightarrow> peek tr addr = Inr (le_word bs)"
  by (simp add: peek_def)

lemma write_mem_append: "write_mem m addr (xs @ ys) = write_mem (write_mem m addr xs) (addr + of_nat (length xs)) ys"
  by (induction xs arbitrary: m addr) (simp_all add: add.assoc)

lemma write_mem_same: "read_mem m addr n = Some bs \<Longrightarrow> n < 2 ^ 64 \<Longrightarrow> write_mem m addr bs = m"
proof
  fix a
  assume r: "read_mem m addr n = Some bs" and n: "n < 2 ^ 64"
  show "write_mem m addr bs a = m a"
  proof (cases "\<exists>i < length bs. a = addr + of_nat i")
    case True
    then obtain i where i: "i < length bs" "a = addr + of_nat i" by blast
    have "length bs < 2 ^ 64" using length_read_mem [OF r] n by simp
    from write_mem_nth [OF this i(1)] read_mem_nth [OF r] i length_read_mem [OF r] show ?thesis by simp
  next
    case False
    then show ?thesis by (intro write_mem_other) blast
  qed
qed

lemma write_mem_mem:
  assumes "length bs < 2 ^ 64"
  shows "write_mem m addr bs (addr + of_nat i) = (if i mod 2 ^ 64 < length bs then Some (bs ! (i mod 2 ^ 64)) else m (addr + of_nat i))"
proof -
  let ?j = "i mod 2 ^ 64"
  have e: "(of_nat i :: ulong) = of_nat ?j" by (simp add: word_unat_eq_iff unat_of_nat)
  show ?thesis
  proof (cases "?j < length bs")
    case True
    then show ?thesis using write_mem_nth [OF assms True] unfolding e by simp
  next
    case False
    have "?j < 2 ^ 64" by simp
    have "addr + of_nat ?j \<noteq> addr + of_nat k" if "k < length bs" for k
      using offset_eq [of ?j k addr] that False assms by simp
    then show ?thesis using False unfolding e by (simp add: write_mem_other)
  qed
qed

text \<open>Writing twice at the same place leaves the second; writing back what was there leaves no trace.\<close>

lemma write_mem_twice:
  assumes "length xs = length ys" "length ys < 2 ^ 64"
  shows "write_mem (write_mem m addr xs) addr ys = write_mem m addr ys"
proof
  fix a
  show "write_mem (write_mem m addr xs) addr ys a = write_mem m addr ys a"
  proof (cases "\<exists>i < length ys. a = addr + of_nat i")
    case True
    then show ?thesis using write_mem_nth [OF assms(2)] by auto
  next
    case False
    then show ?thesis using assms(1) by (simp add: write_mem_other)
  qed
qed

lemma read_mem_behind:
  assumes "length bs + n \<le> 2 ^ 64" "length bs < 2 ^ 64"
  shows "read_mem (write_mem m addr bs) (addr + of_nat (length bs)) n = read_mem m (addr + of_nat (length bs)) n"
proof -
  have "write_mem m addr bs (addr + of_nat (length bs) + of_nat i) = m (addr + of_nat (length bs) + of_nat i)" if "i < n" for i
    using write_mem_mem [OF assms(2), of m addr "length bs + i"] that assms(1) by (simp add: add.assoc)
  then show ?thesis unfolding read_mem_def by (intro arg_cong [of _ _ those]) (rule map_cong, simp_all)
qed

lemma read_mem_split:
  assumes "read_mem m addr (k + n) = Some bs"
  shows "read_mem m addr k = Some (take k bs)" "read_mem m (addr + of_nat k) n = Some (drop k bs)"
proof -
  have l: "length bs = k + n" using length_read_mem [OF assms] .
  show "read_mem m addr k = Some (take k bs)" using l read_mem_nth [OF assms] by (intro read_mem_eqI) simp_all
  show "read_mem m (addr + of_nat k) n = Some (drop k bs)"
  proof (rule read_mem_eqI)
    fix i
    assume "i < n"
    then show "m (addr + of_nat k + of_nat i) = Some (drop k bs ! i)" using read_mem_nth [OF assms, of "k + i"] l by (simp add: add.assoc)
  qed (use l in simp)
qed

text \<open>The bytes of a word of memory.\<close>

lemma peek_Inr:
  assumes "t_stopped tr" "read_mem (t_mem tr) addr 8 = Some bs"
  shows "\<exists>a. peek tr addr = Inr a \<and> le_bytes 8 a = bs"
  using assms le_bytes_word [of bs] length_read_mem [OF assms(2)] by (auto simp: peek_def)

subsection \<open>Copies of mapped memory\<close>

text \<open>The number of bytes moved, a multiple of the word.\<close>

definition words :: "nat \<Rightarrow> nat" where
  "words len = 8 * ((len + 7) div 8)"

lemma words_step: "0 < len \<Longrightarrow> words len = 8 + words (len - min 8 len)"
proof -
  assume "0 < len"
  show ?thesis
  proof (cases "len \<le> 8")
    case True
    then have "(len + 7) div 8 = 1" using \<open>0 < len\<close> by simp
    with True show ?thesis by (simp add: words_def)
  next
    case False
    then have "len + 7 = (len - 8 + 7) + 8" by simp
    then have "(len + 7) div 8 = (len - 8 + 7) div 8 + 1" by (metis div_add_self2 zero_neq_numeral)
    with False show ?thesis by (simp add: words_def)
  qed
qed

lemma copy_from_loop_mapped:
  assumes "t_stopped tr" "read_mem (t_mem tr) addr (words len) = Some bs"
  shows "copy_from_loop tr addr len dst = Some (dst @ take len bs)"
  using assms(2)
proof (induction len arbitrary: addr bs dst rule: less_induct)
  case (less len)
  show ?case
  proof (cases "len = 0")
    case True
    then show ?thesis by (subst copy_from_loop.simps) simp
  next
    case False
    let ?n = "min 8 len"
    have r: "read_mem (t_mem tr) addr 8 = Some (take 8 bs)" "read_mem (t_mem tr) (addr + of_nat 8) (words (len - ?n)) = Some (drop 8 bs)"
      using read_mem_split [of "t_mem tr" addr 8 "words (len - ?n)" bs] less.prems words_step [of len] False by simp_all
    from peek_Inr [OF assms(1) r(1)] obtain a where a: "peek tr addr = Inr a" "le_bytes 8 a = take 8 bs" by blast
    have e: "copy_from_loop tr addr len dst = copy_from_loop tr (addr + of_nat ?n) (len - ?n) (dst @ take ?n (take 8 bs))"
      using False a by (subst copy_from_loop.simps) (simp add: Let_def)
    show ?thesis
    proof (cases "len \<le> 8")
      case True
      then show ?thesis using e by (subst (asm) (2) copy_from_loop.simps) simp
    next
      case gt: False
      then have m: "?n = 8" by simp
      have "copy_from_loop tr (addr + of_nat 8) (len - 8) (dst @ take 8 bs) = Some ((dst @ take 8 bs) @ take (len - 8) (drop 8 bs))"
        by (rule less.IH) (use gt r(2) m in simp_all)
      moreover have "take 8 bs @ take (len - 8) (drop 8 bs) = take len bs" using gt by (metis add_diff_inverse_nat linorder_not_le not_less_iff_gr_or_eq take_add)
      ultimately show ?thesis using e m by simp
    qed
  qed
qed

lemma poke_chunk:
  assumes "t_stopped tr" "read_mem (t_mem tr) addr 8 = Some w" "n = min 8 (length src)" "n < 8 \<Longrightarrow> le_bytes 8 a = w"
  shows "poke tr addr (le_word (take n src @ drop n (le_bytes 8 a))) = Inr (tr\<lparr>t_mem := write_mem (t_mem tr) addr (take n src)\<rparr>)"
proof -
  let ?c = "take n src @ drop n (le_bytes 8 a)"
  have ln: "length (take n src) = n" "length ?c = 8" using assms(3) by auto
  have lw: "length w = 8" using length_read_mem [OF assms(2)] .
  have "write_mem (t_mem tr) addr ?c = write_mem (t_mem tr) addr (take n src)"
  proof (cases "n < 8")
    case True
    have "8 = n + (8 - n)" using True by simp
    with read_mem_split(2) [of "t_mem tr" addr n "8 - n" w] assms(2)
    have "read_mem (t_mem tr) (addr + of_nat n) (8 - n) = Some (drop n w)" by simp
    then have "read_mem (write_mem (t_mem tr) addr (take n src)) (addr + of_nat n) (8 - n) = Some (drop n w)"
      using read_mem_behind [of "take n src" "8 - n" "t_mem tr" addr] ln(1) True by simp
    from write_mem_same [OF this] show ?thesis using assms(4) [OF True] ln(1) by (simp add: write_mem_append)
  qed (use assms(3) in simp)
  moreover have "le_bytes 8 (le_word ?c) = ?c" using le_bytes_word [of ?c] ln(2) by simp
  ultimately show ?thesis using assms(1,2) by (simp add: poke_def)
qed

lemma rest_mapped:
  assumes "read_mem m addr (words len) = Some bs" "8 < len" "words len < 2 ^ 64" "length src = 8"
  shows "read_mem (write_mem m addr src) (addr + of_nat 8) (words (len - 8)) = Some (drop 8 bs)"
proof -
  have w: "words len = 8 + words (len - 8)" using words_step [of len] assms(2) by simp
  with assms(1) have r: "read_mem m addr (8 + words (len - 8)) = Some bs" by simp
  have "read_mem (write_mem m addr src) (addr + of_nat (length src)) (words (len - 8)) = read_mem m (addr + of_nat (length src)) (words (len - 8))"
    by (rule read_mem_behind) (use assms(3,4) w in simp_all)
  with read_mem_split(2) [OF r] assms(4) show ?thesis by simp
qed

text \<open>The bytes are read before they are overwritten, and no other byte changes.\<close>

lemma copy_from_to_loop_mapped:
  assumes "t_stopped tr" "read_mem (t_mem tr) addr (words (length src)) = Some bs" "words (length src) < 2 ^ 64"
  shows "copy_from_to_loop tr addr src dst =
    (Some (dst @ take (length src) bs), dst @ take (length src) bs, tr\<lparr>t_mem := write_mem (t_mem tr) addr src\<rparr>)"
  using assms
proof (induction "length src" arbitrary: tr addr src bs dst rule: less_induct)
  case less
  show ?case
  proof (cases "src = []")
    case True
    then show ?thesis by (subst copy_from_to_loop.simps) simp
  next
    case False
    define n where "n = min 8 (length src)"
    have "read_mem (t_mem tr) addr (8 + words (length src - n)) = Some bs"
      using less.prems(2) words_step [of "length src"] False by (simp add: n_def)
    from read_mem_split(1) [OF this] have r: "read_mem (t_mem tr) addr 8 = Some (take 8 bs)" .
    from peek_Inr [OF less.prems(1) r] obtain a where a: "peek tr addr = Inr a" "le_bytes 8 a = take 8 bs" by blast
    let ?tr = "tr\<lparr>t_mem := write_mem (t_mem tr) addr (take n src)\<rparr>"
    have e: "copy_from_to_loop tr addr src dst = copy_from_to_loop ?tr (addr + of_nat n) (drop n src) (dst @ take n (take 8 bs))"
      using False a poke_chunk [OF less.prems(1) r n_def, of a]
      by (subst copy_from_to_loop.simps) (simp add: Let_def flip: n_def)
    show ?thesis
    proof (cases "length src \<le> 8")
      case True
      then show ?thesis using e by (subst (asm) (2) copy_from_to_loop.simps) (simp add: n_def)
    next
      case gt: False
      then have n8: "n = 8" by (simp add: n_def)
      have w: "words (length src - 8) < 2 ^ 64" using less.prems(3) words_step [of "length src"] gt False by simp
      have "copy_from_to_loop ?tr (addr + of_nat n) (drop n src) (dst @ take n (take 8 bs)) =
        (Some ((dst @ take n (take 8 bs)) @ take (length (drop n src)) (drop 8 bs)), (dst @ take n (take 8 bs)) @ take (length (drop n src)) (drop 8 bs),
         ?tr\<lparr>t_mem := write_mem (t_mem ?tr) (addr + of_nat n) (drop n src)\<rparr>)"
        by (rule less.hyps) (use gt n8 w less.prems rest_mapped [OF less.prems(2) _ less.prems(3), of "take n src"] in simp_all)
      moreover have "take 8 bs @ take (length src - 8) (drop 8 bs) = take (length src) bs" using gt take_add [of 8 "length src - 8" bs] by simp
      moreover have "write_mem (write_mem (t_mem tr) addr (take 8 src)) (addr + 8) (drop 8 src) = write_mem (t_mem tr) addr src"
        using write_mem_append [of "t_mem tr" addr "take 8 src" "drop 8 src"] gt by simp
      ultimately show ?thesis using e n8 by simp
    qed
  qed
qed

lemma copy_to_loop_mapped:
  assumes "t_stopped tr" "read_mem (t_mem tr) addr (words (length src)) = Some bs" "words (length src) < 2 ^ 64"
  shows "copy_to_loop tr addr src k = (Some (k + length src), tr\<lparr>t_mem := write_mem (t_mem tr) addr src\<rparr>)"
  using assms
proof (induction "length src" arbitrary: tr addr src bs k rule: less_induct)
  case less
  show ?case
  proof (cases "src = []")
    case True
    then show ?thesis by (subst copy_to_loop.simps) simp
  next
    case False
    define n where "n = min 8 (length src)"
    have "read_mem (t_mem tr) addr (8 + words (length src - n)) = Some bs"
      using less.prems(2) words_step [of "length src"] False by (simp add: n_def)
    from read_mem_split(1) [OF this] have r: "read_mem (t_mem tr) addr 8 = Some (take 8 bs)" .
    from peek_Inr [OF less.prems(1) r] obtain a where a: "peek tr addr = Inr a" "le_bytes 8 a = take 8 bs" by blast
    let ?tr = "tr\<lparr>t_mem := write_mem (t_mem tr) addr (take n src)\<rparr>"
    have e: "copy_to_loop tr addr src k = copy_to_loop ?tr (addr + of_nat n) (drop n src) (k + n)"
    proof (cases "length src < 8")
      case True
      then show ?thesis using False a poke_chunk [OF less.prems(1) r n_def, of a]
        by (subst copy_to_loop.simps) (simp add: Let_def flip: n_def)
    next
      case False
      have "n = 8" using False by (simp add: n_def)
      with poke_chunk [OF less.prems(1) r n_def, of 0] \<open>src \<noteq> []\<close> False show ?thesis
        by (subst copy_to_loop.simps) (simp add: Let_def flip: n_def)
    qed
    show ?thesis
    proof (cases "length src \<le> 8")
      case True
      then show ?thesis using e by (subst (asm) (2) copy_to_loop.simps) (simp add: n_def)
    next
      case gt: False
      then have n8: "n = 8" by (simp add: n_def)
      have w: "words (length src - 8) < 2 ^ 64" using less.prems(3) words_step [of "length src"] gt False by simp
      have "copy_to_loop ?tr (addr + of_nat n) (drop n src) (k + n) =
        (Some (k + n + length (drop n src)), ?tr\<lparr>t_mem := write_mem (t_mem ?tr) (addr + of_nat n) (drop n src)\<rparr>)"
        by (rule less.hyps) (use gt n8 w less.prems rest_mapped [OF less.prems(2) _ less.prems(3), of "take n src"] in simp_all)
      moreover have "write_mem (write_mem (t_mem tr) addr (take 8 src)) (addr + 8) (drop 8 src) = write_mem (t_mem tr) addr src"
        using write_mem_append [of "t_mem tr" addr "take 8 src" "drop 8 src"] gt by simp
      ultimately show ?thesis using e n8 gt by simp
    qed
  qed
qed

text \<open>What \<open>copy_from_to_proc\<close> took out, \<open>copy_to_proc\<close> puts back: the memory is as it was.\<close>

theorem copy_from_to_back:
  assumes "t_stopped tr" "read_mem (t_mem tr) addr (words (length src)) = Some bs" "words (length src) < 2 ^ 64"
  shows "\<exists>old tr'. copy_from_to_proc tr addr src = (Some old, old, tr') \<and> read_mem (t_mem tr) addr (length src) = Some old \<and>
    t_mem tr' = write_mem (t_mem tr) addr src \<and> copy_to_proc tr' addr old = (Some (length src), tr)"
proof -
  have le: "length src \<le> words (length src)" by (simp add: words_def)
  then obtain k where k: "words (length src) = length src + k" by (metis le_add_diff_inverse)
  let ?old = "take (length src) bs" and ?tr = "tr\<lparr>t_mem := write_mem (t_mem tr) addr src\<rparr>"
  have o: "read_mem (t_mem tr) addr (length src) = Some ?old" using read_mem_split(1) assms(2) unfolding k by blast
  have lo: "length ?old = length src" using length_read_mem [OF o] .
  have r2: "\<exists>bs'. read_mem (t_mem ?tr) addr (words (length ?old)) = Some bs'"
  proof -
    let ?bs = "map (\<lambda>i. the (write_mem (t_mem tr) addr src (addr + of_nat i))) [0..<words (length src)]"
    have "write_mem (t_mem tr) addr src (addr + of_nat i) = Some (?bs ! i)" if "i < words (length src)" for i
      using write_mem_mem [of src "t_mem tr" addr i] read_mem_nth [OF assms(2) that] that le assms(3) by auto
    then have "read_mem (t_mem ?tr) addr (words (length src)) = Some ?bs" by (intro read_mem_eqI) simp_all
    then show ?thesis using lo by metis
  qed
  then obtain bs' where bs': "read_mem (t_mem ?tr) addr (words (length ?old)) = Some bs'" by blast
  have "write_mem (write_mem (t_mem tr) addr src) addr ?old = t_mem tr"
    using write_mem_twice [of src ?old "t_mem tr" addr] write_mem_same [OF o] lo le assms(3) by simp
  then have "copy_to_proc ?tr addr ?old = (Some (length src), tr)"
    using copy_to_loop_mapped [OF _ bs', of 0] assms(1,3) lo by (simp add: copy_to_proc_def)
  then show ?thesis using copy_from_to_loop_mapped [OF assms, of "[]"] o by (auto simp: copy_from_to_proc_def)
qed

end
