(* ===== verification/Dwarf_Read.thy ===== *)
theory Dwarf_Read
  imports Proc_Copy
begin

text \<open>
  The readers of \<open>dwarf.c\<close>: integers, LEB128 numbers and encoded pointers of the unwind tables. The
  tables are in the mapped image of a library (\<open>as\<close> is \<open>NULL\<close>), the frames in the traced process (\<open>as\<close>
  is given). A reader takes an address and returns the value and the address behind it; the source
  passes a pointer to the address, which it leaves alone when it fails. The second half relates the
  LEB128 loop to the numbers the bytes encode.
\<close>

subsection \<open>Memory\<close>

text \<open>The mapped images in the tracer, and the traced process.\<close>

record dwarf_mem =
  local_mem :: mem
  traced_proc :: traced

datatype space = Local | Proc

text \<open>\<open>want\<close> is whether a buffer for the value is given; without one the value is zero.\<close>

definition dwarf_access_mem :: "dwarf_mem \<Rightarrow> space \<Rightarrow> bool \<Rightarrow> ulong \<Rightarrow> nat \<Rightarrow> bytes dres" where
  "dwarf_access_mem dm sp want addr n =
     (if addr = 0 then Inl (Dw DWARF_EINVAL)
      else if \<not> want then Inr []
      else case sp of
        Local \<Rightarrow> (case read_mem (local_mem dm) addr n of None \<Rightarrow> Inl (Fault Segfault) | Some bs \<Rightarrow> Inr bs)
      | Proc \<Rightarrow> (case snd (copy_from_proc False (traced_proc dm) addr n) of
          None \<Rightarrow> Inl (Dw DWARF_EINVAL)
        | Some bs \<Rightarrow> if length bs = n then Inr bs else Inl (Dw DWARF_EINVAL)))"

type_synonym reader = "dwarf_mem \<Rightarrow> space \<Rightarrow> bool \<Rightarrow> ulong \<Rightarrow> (ulong \<times> ulong) dres"

definition dwarf_read8 :: reader where
  "dwarf_read8 dm sp want addr = bindE (dwarf_access_mem dm sp want addr 1) (\<lambda>bs. Inr (le_word bs, addr + 1))"

definition dwarf_read16 :: reader where
  "dwarf_read16 dm sp want addr = bindE (dwarf_access_mem dm sp want addr 2) (\<lambda>bs. Inr (le_word bs, addr + 2))"

definition dwarf_read32 :: reader where
  "dwarf_read32 dm sp want addr = bindE (dwarf_access_mem dm sp want addr 4) (\<lambda>bs. Inr (le_word bs, addr + 4))"

definition dwarf_read64 :: reader where
  "dwarf_read64 dm sp want addr = bindE (dwarf_access_mem dm sp want addr 8) (\<lambda>bs. Inr (le_word bs, addr + 8))"

text \<open>\<open>dwarf_readw\<close> reads also without a buffer.\<close>

definition dwarf_readw :: "dwarf_mem \<Rightarrow> space \<Rightarrow> bool \<Rightarrow> ulong \<Rightarrow> (ulong \<times> ulong) dres" where
  "dwarf_readw dm sp is64 addr = (if is64 then dwarf_read64 dm sp True addr else dwarf_read32 dm sp True addr)"

subsection \<open>LEB128\<close>

text \<open>
  The loop both readers have: the value, the shift behind the last byte, the last byte and the
  address. A shift by the width of the value or more has no meaning in C.
\<close>

function leb128_loop :: "dwarf_mem \<Rightarrow> space \<Rightarrow> ulong \<Rightarrow> ulong \<Rightarrow> nat \<Rightarrow> (ulong \<times> nat \<times> ulong \<times> ulong) dres" where
  "leb128_loop dm sp addr val shift =
     bindE (dwarf_read8 dm sp True addr) (\<lambda>(byte, addr).
       if shift \<ge> 64 then Inl (Fault UndefinedShift)
       else
         let val = val OR push_bit shift (byte AND 0x7f) in
         if byte AND 0x80 \<noteq> 0 then leb128_loop dm sp addr val (shift + 7)
         else Inr (val, shift + 7, byte, addr))"
  by pat_completeness auto
termination by (relation "measure (\<lambda>(dm, sp, addr, val, shift). 64 - shift)") auto

declare leb128_loop.simps [simp del]

definition dwarf_read_uleb128 :: "dwarf_mem \<Rightarrow> space \<Rightarrow> ulong \<Rightarrow> (ulong \<times> ulong) dres" where
  "dwarf_read_uleb128 dm sp addr =
     bindE (leb128_loop dm sp addr 0 0) (\<lambda>(val, shift, byte, addr). Inr (val, addr))"

definition dwarf_read_sleb128 :: "dwarf_mem \<Rightarrow> space \<Rightarrow> ulong \<Rightarrow> (ulong \<times> ulong) dres" where
  "dwarf_read_sleb128 dm sp addr =
     bindE (leb128_loop dm sp addr 0 0) (\<lambda>(val, shift, byte, addr).
       Inr (if shift < 64 \<and> byte AND 0x40 \<noteq> 0 then val OR push_bit shift (-1) else val, addr))"

subsection \<open>Encoded pointers\<close>

definition DW_EH_PE_omit :: u8 where "DW_EH_PE_omit = 0xff"
definition DW_EH_PE_udata4 :: u8 where "DW_EH_PE_udata4 = 0x03"
definition DW_EH_PE_udata8 :: u8 where "DW_EH_PE_udata8 = 0x04"

definition s16 :: "ulong \<Rightarrow> ulong" where "s16 v = scast (ucast v :: u16)"
definition s32 :: "ulong \<Rightarrow> ulong" where "s32 v = scast (ucast v :: u32)"

text \<open>The format of the value.\<close>

definition read_format :: "dwarf_mem \<Rightarrow> bool \<Rightarrow> space \<Rightarrow> bool \<Rightarrow> u8 \<Rightarrow> ulong \<Rightarrow> (ulong \<times> ulong) dres" where
  "read_format dm is64 sp want encoding addr =
     (let fmt = encoding AND 0x0f in
      if fmt = 0x00 then bindE (dwarf_readw dm sp is64 addr) (\<lambda>(v, addr). Inr (if want then v else 0, addr))
      else if fmt = 0x01 then dwarf_read_uleb128 dm sp addr
      else if fmt = 0x02 then dwarf_read16 dm sp want addr
      else if fmt = 0x03 then dwarf_read32 dm sp want addr
      else if fmt = 0x04 then dwarf_read64 dm sp want addr
      else if fmt = 0x09 then dwarf_read_sleb128 dm sp addr
      else if fmt = 0x0a then bindE (dwarf_read16 dm sp want addr) (\<lambda>(v, addr). Inr (s16 v, addr))
      else if fmt = 0x0b then bindE (dwarf_read32 dm sp want addr) (\<lambda>(v, addr). Inr (s32 v, addr))
      else if fmt = 0x0c then dwarf_read64 dm sp want addr
      else Inl (Dw DWARF_EINVAL))"

text \<open>What the value is relative to.\<close>

definition apply_base :: "ulong \<Rightarrow> ulong \<Rightarrow> ulong \<Rightarrow> u8 \<Rightarrow> ulong \<Rightarrow> ulong dres" where
  "apply_base initial_addr gp start_ip encoding val =
     (let appl = encoding AND 0x70 in
      if appl = 0x00 then Inr val
      else if appl = 0x10 then Inr (val + initial_addr)
      else if appl = 0x30 then Inr (val + gp)
      else if appl = 0x40 then Inr (val + start_ip)
      else Inl (Dw DWARF_EINVAL))"

text \<open>
  The result and the address behind it, which one caller uses also after a failure: a LEB128 number in
  the image ends with an error only at the address zero, the other readers leave the address alone.
\<close>

definition fail_addr :: "u8 \<Rightarrow> ulong \<Rightarrow> ulong" where
  "fail_addr encoding addr = (if encoding AND 0x0f = 0x01 \<or> encoding AND 0x0f = 0x09 then 0 else addr)"

definition dwarf_read_encoded_pointer ::
  "dwarf_mem \<Rightarrow> bool \<Rightarrow> ulong \<Rightarrow> bool \<Rightarrow> bool \<Rightarrow> u8 \<Rightarrow> ulong \<Rightarrow> ulong \<Rightarrow> ulong dres \<times> ulong" where
  "dwarf_read_encoded_pointer dm is64 gp loc want encoding start_ip addr =
     (let initial_addr = addr; sp = (if loc then Local else Proc) in
      if encoding = DW_EH_PE_omit then (Inr 0, addr)
      else if encoding = 0x50 then
        let sz = (if is64 then 8 else 4);
            addr = (initial_addr + sz - 1) AND (- sz)
        in (case dwarf_readw dm sp is64 addr of
              Inl e \<Rightarrow> (Inl e, addr)
            | Inr (v, addr) \<Rightarrow> (Inr (if want then v else 0), addr))
      else
        (case read_format dm is64 sp want encoding addr of
           Inl e \<Rightarrow> (Inl e, fail_addr encoding addr)
         | Inr (val, addr) \<Rightarrow>
             if val = 0 then (Inr 0, addr)
             else
               (bindE (apply_base initial_addr gp start_ip encoding val) (\<lambda>val.
                  let val = (if \<not> is64 then ucast (ucast val :: u32) else val) in
                  if encoding AND 0x80 \<noteq> 0 then
                    (if want then bindE (dwarf_readw dm Proc is64 val) (\<lambda>(v, _). Inr v) else Inr 0)
                  else Inr val), addr)))"

definition dwarf_read_encoded_pointer_local ::
  "dwarf_mem \<Rightarrow> bool \<Rightarrow> ulong \<Rightarrow> bool \<Rightarrow> u8 \<Rightarrow> ulong \<Rightarrow> ulong \<Rightarrow> (ulong \<times> ulong) dres" where
  "dwarf_read_encoded_pointer_local dm is64 gp want encoding start_ip addr =
     (case dwarf_read_encoded_pointer dm is64 gp True want encoding start_ip addr of
        (r, addr) \<Rightarrow> bindE r (\<lambda>v. Inr (v, addr)))"

subsection \<open>Bytes in memory\<close>

definition holds_bytes :: "mem \<Rightarrow> ulong \<Rightarrow> bytes \<Rightarrow> bool" where
  "holds_bytes m addr bs \<longleftrightarrow> (\<forall>i < length bs. m (addr + of_nat i) = Some (bs ! i) \<and> addr + of_nat i \<noteq> 0)"

lemma holds_bytes_Nil [simp]: "holds_bytes m addr []"
  by (simp add: holds_bytes_def)

lemma holds_bytes_Cons:
  "holds_bytes m addr (b # bs) \<longleftrightarrow> m addr = Some b \<and> addr \<noteq> 0 \<and> holds_bytes m (addr + 1) bs"
  by (auto simp: holds_bytes_def All_less_Suc2 algebra_simps)

lemma holds_bytes_append:
  "holds_bytes m addr (bs @ cs) \<longleftrightarrow> holds_bytes m addr bs \<and> holds_bytes m (addr + of_nat (length bs)) cs"
  by (induction bs arbitrary: addr) (auto simp: holds_bytes_Cons algebra_simps)

lemma read_mem_holds: "holds_bytes m addr bs \<Longrightarrow> read_mem m addr (length bs) = Some bs"
  by (rule read_mem_eqI) (simp_all add: holds_bytes_def)

lemma access_holds:
  assumes "holds_bytes (local_mem dm) addr bs" "bs \<noteq> []" "n = length bs"
  shows "dwarf_access_mem dm Local True addr n = Inr bs"
proof -
  have "addr \<noteq> 0" using assms(1,2) by (cases bs) (auto simp: holds_bytes_Cons)
  with read_mem_holds [OF assms(1)] show ?thesis by (simp add: dwarf_access_mem_def assms(3))
qed

lemma read8_holds: "holds_bytes (local_mem dm) addr (b # bs) \<Longrightarrow> dwarf_read8 dm Local True addr = Inr (ucast b, addr + 1)"
  using access_holds [of dm addr "[b]" 1] by (simp add: dwarf_read8_def holds_bytes_Cons)

subsection \<open>The numbers LEB128 encodes\<close>

fun uleb_value :: "bytes \<Rightarrow> nat" where
  "uleb_value [] = 0"
| "uleb_value (b # bs) = unat (take_bit 7 b) + 128 * uleb_value bs"

definition sleb_value :: "bytes \<Rightarrow> int" where
  "sleb_value bs = int (uleb_value bs) - (if bit (last bs) 6 then 2 ^ (7 * length bs) else 0)"

text \<open>All bytes but the last have their top bit set.\<close>

definition leb128 :: "bytes \<Rightarrow> bool" where
  "leb128 bs \<longleftrightarrow> bs \<noteq> [] \<and> (\<forall>b \<in> set (butlast bs). bit b 7) \<and> \<not> bit (last bs) 7"

lemma leb128_Cons: "leb128 (b # bs) \<longleftrightarrow> (if bs = [] then \<not> bit b 7 else bit b 7 \<and> leb128 bs)"
  by (auto simp: leb128_def)

lemma and_127: "(ucast b :: ulong) AND 0x7f = of_nat (unat (take_bit 7 b))" for b :: u8
proof -
  have "(0x7f :: ulong) = mask 7" by (simp add: mask_eq_exp_minus_1)
  then have "(ucast b :: ulong) AND 0x7f = take_bit 7 (ucast b)" by (simp only: take_bit_eq_mask)
  also have "\<dots> = ucast (take_bit 7 b)" by (intro bit_word_eqI) (auto simp: bit_take_bit_iff bit_ucast_iff)
  also have "\<dots> = of_nat (unat (take_bit 7 b))" by simp
  finally show ?thesis .
qed

lemma and_bit: "(ucast b :: ulong) AND (2 ^ n) \<noteq> 0 \<longleftrightarrow> bit b n" if "n < 8" for b :: u8
  using that by (auto simp: and_exp_eq_0_iff_not_bit bit_ucast_iff)

lemma uleb_step:
  fixes b :: u8
  shows "push_bit k (of_nat (unat (take_bit 7 b)) :: ulong) OR push_bit (k + 7) (of_nat n) =
    push_bit k (of_nat (unat (take_bit 7 b) + 128 * n))"
proof -
  have lo: "\<not> bit (of_nat (unat (take_bit 7 b)) :: ulong) i" if "i \<ge> 7" for i
    using that by (simp add: bit_ucast_iff bit_take_bit_iff)
  have "push_bit 7 (of_nat n :: ulong) = of_nat (128 * n)" by (simp add: push_bit_eq_mult)
  moreover have "(of_nat (unat (take_bit 7 b)) :: ulong) + push_bit 7 (of_nat n) = of_nat (unat (take_bit 7 b)) OR push_bit 7 (of_nat n)"
    by (rule disjunctive_add) (use lo in \<open>auto simp: bit_push_bit_iff\<close>)
  ultimately have "(of_nat (unat (take_bit 7 b) + 128 * n) :: ulong) = of_nat (unat (take_bit 7 b)) OR push_bit 7 (of_nat n)"
    by simp
  then show ?thesis by (simp add: push_bit_or push_bit_push_bit)
qed

lemma leb128_loop_value:
  assumes "holds_bytes (local_mem dm) addr bs" "leb128 bs" "k + 7 * length bs \<le> 70"
  shows "leb128_loop dm Local addr val k =
    Inr (val OR push_bit k (of_nat (uleb_value bs)), k + 7 * length bs, ucast (last bs), addr + of_nat (length bs))"
  using assms
proof (induction bs arbitrary: addr val k)
  case Nil
  then show ?case by (simp add: leb128_def)
next
  case (Cons b bs)
  have k: "k < 64" using Cons.prems(3) by simp
  have b7: "(ucast b :: ulong) AND 128 \<noteq> 0 \<longleftrightarrow> bit b 7" using and_bit [of 7 b] by simp
  note rd = read8_holds [OF Cons.prems(1)]
  show ?case
  proof (cases "bs = []")
    case True
    with Cons.prems(2) k b7 rd show ?thesis
      by (subst leb128_loop.simps) (simp add: leb128_Cons and_127 Let_def del: push_bit_and)
  next
    case False
    with Cons.prems(2) have l: "bit b 7" "leb128 bs" by (auto simp: leb128_Cons)
    have h: "holds_bytes (local_mem dm) (addr + 1) bs" using Cons.prems(1) by (simp add: holds_bytes_Cons)
    have "k + 7 + 7 * length bs \<le> 70" using Cons.prems(3) by simp
    from Cons.IH [OF h l(2) this] rd k l(1) b7 False uleb_step [of k b "uleb_value bs"] show ?thesis
      by (subst leb128_loop.simps) (simp add: and_127 Let_def algebra_simps or.assoc del: push_bit_and)
  qed
qed

theorem dwarf_read_uleb128_value:
  assumes "holds_bytes (local_mem dm) addr bs" "leb128 bs" "length bs \<le> 10"
  shows "dwarf_read_uleb128 dm Local addr = Inr (of_nat (uleb_value bs), addr + of_nat (length bs))"
  using leb128_loop_value [OF assms(1,2), of 0 0] assms(3) by (simp add: dwarf_read_uleb128_def)

theorem dwarf_read_sleb128_value:
  assumes "holds_bytes (local_mem dm) addr bs" "leb128 bs" "length bs \<le> 10"
  shows "dwarf_read_sleb128 dm Local addr = Inr (of_int (sleb_value bs), addr + of_nat (length bs))"
proof -
  let ?n = "7 * length bs" and ?v = "of_nat (uleb_value bs) :: ulong"
  have b6: "(ucast (last bs) :: ulong) AND 0x40 \<noteq> 0 \<longleftrightarrow> bit (last bs) 6" using and_bit [of 6 "last bs"] by simp
  have bound: "uleb_value cs < 2 ^ (7 * length cs)" for cs
  proof (induction cs)
    case (Cons c cs)
    have "unat (take_bit 7 c) < 128" by (simp add: take_bit_eq_mod unat_mod)
    with Cons show ?case by (simp add: power_add)
  qed simp
  have "?v OR push_bit ?n (-1) = of_int (sleb_value bs)" if "?n < 64" "bit (last bs) 6"
  proof -
    have "take_bit ?n (uleb_value bs) = uleb_value bs" using bound [of bs] by (simp add: take_bit_eq_mod)
    then have "take_bit ?n ?v = ?v" by (simp add: take_bit_of_nat)
    then have "i < ?n" if "bit ?v i" for i using that by (metis bit_take_bit_iff)
    then have "?v + push_bit ?n (-1) = ?v OR push_bit ?n (-1)" 
      by (intro disjunctive_add) (auto simp: bit_not_iff bit_mask_iff)
    then show ?thesis using that(2) by (simp add: sleb_value_def push_bit_eq_mult)
  qed
  moreover have "(of_int (sleb_value bs) :: ulong) = ?v" if "64 \<le> ?n"
  proof -
    have "(2 :: ulong) ^ ?n = 0" using that by (intro exp_eq_zero_iff [THEN iffD2]) simp
    then show ?thesis by (simp add: sleb_value_def)
  qed
  ultimately show ?thesis
    using leb128_loop_value [OF assms(1,2), of 0 0] assms(3) b6 by (auto simp: dwarf_read_sleb128_def sleb_value_def not_less)
qed

text \<open>More than ten bytes shift a value out of its type.\<close>

lemma leb128_loop_overlong:
  assumes "holds_bytes (local_mem dm) addr bs" "\<forall>b \<in> set bs. bit b 7" "64 \<le> k + 7 * (length bs - 1)" "bs \<noteq> []"
  shows "leb128_loop dm Local addr val k = Inl (Fault UndefinedShift)"
  using assms
proof (induction bs arbitrary: addr val k)
  case (Cons b bs)
  have b7: "(ucast b :: ulong) AND 128 \<noteq> 0" using and_bit [of 7 b] Cons.prems(2) by simp
  note rd = read8_holds [OF Cons.prems(1)]
  show ?case
  proof (cases "k \<ge> 64")
    case True
    with rd show ?thesis by (subst leb128_loop.simps) simp
  next
    case False
    with Cons.prems(3) have ne: "bs \<noteq> []" by auto
    then have "64 \<le> k + 7 + 7 * (length bs - 1)" using Cons.prems(3) by (cases bs) auto
    moreover have "holds_bytes (local_mem dm) (addr + 1) bs" using Cons.prems(1) by (simp add: holds_bytes_Cons)
    ultimately have "leb128_loop dm Local (addr + 1) v (k + 7) = Inl (Fault UndefinedShift)" for v
      using Cons.IH Cons.prems(2) ne by simp
    with rd False b7 show ?thesis by (subst leb128_loop.simps) (simp add: Let_def)
  qed
qed simp

subsection \<open>Encoding\<close>

fun uleb_encode :: "nat \<Rightarrow> bytes" where
  "uleb_encode n = (if n < 128 then [of_nat n] else of_nat (n mod 128 + 128) # uleb_encode (n div 128))"

declare uleb_encode.simps [simp del]

lemma uleb_encode_byte:
  fixes n :: nat
  assumes "n < 128"
  shows "take_bit 7 (of_nat n :: u8) = of_nat n" "\<not> bit (of_nat n :: u8) 7" "unat (of_nat n :: u8) = n"
    "take_bit 7 (of_nat (n + 128) :: u8) = of_nat n" "bit (of_nat (n + 128) :: u8) 7"
proof -
  show u: "unat (of_nat n :: u8) = n" using assms by (simp add: unat_of_nat)
  have u2: "unat (of_nat (n + 128) :: u8) = n + 128" using assms by (simp add: unat_of_nat del: of_nat_add)
  show t: "take_bit 7 (of_nat n :: u8) = of_nat n" using assms u by (simp add: word_unat_eq_iff take_bit_eq_mod unat_mod)
  show "take_bit 7 (of_nat (n + 128) :: u8) = of_nat n"
    using assms u u2 by (simp add: word_unat_eq_iff take_bit_eq_mod unat_mod del: of_nat_add)
  show "\<not> bit (of_nat n :: u8) 7" using t by (metis bit_take_bit_iff less_irrefl)
  have "(n + 128) div 2 ^ 7 mod 2 = 1" using assms by simp
  then have "bit (n + 128) 7" by (simp add: bit_iff_odd odd_iff_mod_2_eq_one)
  then have "bit (unat (of_nat (n + 128) :: u8)) 7" using u2 by simp
  then show "bit (of_nat (n + 128) :: u8) 7" by (simp add: bit_unsigned_iff del: of_nat_add)
qed

lemma uleb_encode_value: "leb128 (uleb_encode n) \<and> uleb_value (uleb_encode n) = n"
proof (induction n rule: uleb_encode.induct)
  case (1 n)
  show ?case
  proof (cases "n < 128")
    case True
    with uleb_encode_byte [OF True] show ?thesis by (subst (1 2) uleb_encode.simps) (simp add: leb128_Cons)
  next
    case False
    have b: "n mod 128 < 128" by simp
    have "uleb_encode (n div 128) \<noteq> []" using 1 [OF False] by (auto simp: leb128_def)
    with 1 [OF False] False uleb_encode_byte [OF b] show ?thesis
      by (subst (1 2) uleb_encode.simps) (simp add: leb128_Cons del: of_nat_add)
  qed
qed

lemma uleb_encode_length: "n < 128 ^ k \<Longrightarrow> 0 < k \<Longrightarrow> length (uleb_encode n) \<le> k"
proof (induction k arbitrary: n)
  case (Suc k)
  show ?case
  proof (cases "n < 128")
    case True
    then show ?thesis by (subst uleb_encode.simps) simp
  next
    case False
    have "n div 128 < 128 ^ k" using Suc.prems(1) by (simp add: less_mult_imp_div_less mult.commute)
    moreover have "0 < k" using False Suc.prems(1) by (cases k) auto
    ultimately have "length (uleb_encode (n div 128)) \<le> k" by (rule Suc.IH)
    with False show ?thesis by (subst uleb_encode.simps) simp
  qed
qed simp

end
