(* ===== verification/Dwarf_Cie.thy ===== *)
theory Dwarf_Cie
  imports Dwarf_Read Libraries
begin

text \<open>
  The unwind tables of a library (\<open>dwarf.c\<close>): the binary search table of \<open>.eh_frame_hdr\<close>, the frame
  description entry of an instruction address and the common information entry it refers to. What is
  read goes to the \<open>dci\<close> of the cursor, which is the state of the operations: it keeps what was
  stored before a failure.
\<close>

subsection \<open>Data\<close>

record dwarf_cie_info =
  dci_start_ip :: ulong
  dci_ip_range :: ulong
  cie_instr_start :: ulong
  cie_instr_end :: ulong
  fde_instr_start :: ulong
  fde_instr_end :: ulong
  code_align :: ulong
  data_align :: ulong
  dci_ret_addr_column :: ulong
  dci_abi :: u16
  dci_tag :: u16
  fde_encoding :: u8
  lsda_encoding :: u8
  sized_augmentation :: bool
  have_abi_marker :: bool
  signal_frame :: bool

definition zero_dci :: dwarf_cie_info where
  "zero_dci = \<lparr>dci_start_ip = 0, dci_ip_range = 0, cie_instr_start = 0, cie_instr_end = 0, fde_instr_start = 0,
     fde_instr_end = 0, code_align = 0, data_align = 0, dci_ret_addr_column = 0, dci_abi = 0, dci_tag = 0,
     fde_encoding = 0, lsda_encoding = 0, sized_augmentation = False, have_abi_marker = False, signal_frame = False\<rparr>"

definition dwarf_to_regnum :: "ulong \<Rightarrow> ulong" where
  "dwarf_to_regnum reg = ucast (ucast reg :: u32)"

subsection \<open>The common information entry\<close>

lemma read8_next: "dwarf_read8 dm sp want addr = Inr (v, addr') \<Longrightarrow> addr \<noteq> 0 \<and> addr' = addr + 1"
  by (auto simp: dwarf_read8_def dwarf_access_mem_def split: if_splits)

text \<open>The first four characters of the augmentation string.\<close>

function read_augstr :: "dwarf_mem \<Rightarrow> ulong \<Rightarrow> u8 list \<Rightarrow> (u8 list \<times> ulong) dres" where
  "read_augstr dm addr augstr =
     bindE (dwarf_read8 dm Local True addr) (\<lambda>(ch, addr).
       if ch = 0 then Inr (augstr, addr)
       else read_augstr dm addr (if length augstr < 4 then augstr @ [ucast ch] else augstr))"
  by pat_completeness auto
termination
proof (relation "measure (\<lambda>(dm, addr, augstr). if addr = 0 then 0 else 2 ^ 64 - unat addr)")
  fix dm addr augstr x ch a
  assume "dwarf_read8 dm Local True addr = Inr x" "(ch, a) = x"
  then have a: "addr \<noteq> 0" "a = addr + 1" using read8_next [of dm Local True addr ch a] by auto
  have "unat addr < 2 ^ 64" using unsigned_less [of addr, where 'a = nat] by simp
  moreover have "a \<noteq> 0 \<Longrightarrow> unat a = Suc (unat addr)" unfolding a(2) by (metis add.commute unatSuc)
  ultimately show "((dm, a, if length augstr < 4 then augstr @ [ucast ch] else augstr), dm, addr, augstr)
      \<in> measure (\<lambda>(dm, addr, augstr). if addr = 0 then 0 else 2 ^ 64 - unat addr)"
    using a(1) by auto
qed simp

declare read_augstr.simps [simp del]

text \<open>
  The data of the augmentation. The branch of \<open>P\<close> has no \<open>break\<close> behind the pointer it skips, so it goes
  on into the branch of \<open>S\<close>; only when the pointer cannot be read it does not.
\<close>

definition mark_signal_frame :: "dwarf_cie_info \<Rightarrow> dwarf_cie_info" where
  "mark_signal_frame d = d\<lparr>signal_frame := True, have_abi_marker := True\<rparr>"

fun parse_aug :: "dwarf_mem \<Rightarrow> bool \<Rightarrow> ulong \<Rightarrow> u8 list \<Rightarrow> u8 \<Rightarrow> ulong \<Rightarrow> (dwarf_cie_info, u8 \<times> ulong) dop" where
  "parse_aug dm is64 gp [] enc addr = retS (enc, addr)"
| "parse_aug dm is64 gp (c # cs) enc addr =
     (if c = 0x4c then
        bindS (liftS (dwarf_read8 dm Local True addr)) (\<lambda>(ch, addr).
        bindS (modS (\<lambda>d. d\<lparr>lsda_encoding := ucast ch\<rparr>)) (\<lambda>_. parse_aug dm is64 gp cs enc addr))
      else if c = 0x52 then
        bindS (liftS (dwarf_read8 dm Local True addr)) (\<lambda>(ch, addr). parse_aug dm is64 gp cs (ucast ch) addr)
      else if c = 0x50 then
        bindS (liftS (dwarf_read8 dm Local True addr)) (\<lambda>(ch, addr).
          case dwarf_read_encoded_pointer dm is64 gp True False (ucast ch) 0 addr of
            (Inl (Fault f), _) \<Rightarrow> failS (Fault f)
          | (Inl (Dw _), addr) \<Rightarrow> parse_aug dm is64 gp cs enc addr
          | (Inr _, addr) \<Rightarrow> bindS (modS mark_signal_frame) (\<lambda>_. parse_aug dm is64 gp cs enc addr))
      else if c = 0x53 then
        bindS (modS mark_signal_frame) (\<lambda>_. parse_aug dm is64 gp cs enc addr)
      else
        bindS (getS sized_augmentation) (\<lambda>sized.
          if sized then retS (enc, addr) else failS (Dw DWARF_EINVAL)))"

definition cie_header :: "dwarf_mem \<Rightarrow> ulong \<Rightarrow> (ulong \<times> ulong) dres" where
  "cie_header dm addr =
     bindE (dwarf_read32 dm Local True addr) (\<lambda>(u32val, addr).
       if u32val \<noteq> 0xffffffff then
         let cie_end_addr = addr + u32val in
         bindE (dwarf_read32 dm Local True addr) (\<lambda>(cie_id, addr).
           if cie_id \<noteq> 0 then Inl (Dw DWARF_EINVAL) else Inr (cie_end_addr, addr))
       else
         bindE (dwarf_read64 dm Local True addr) (\<lambda>(u64val, addr).
           let cie_end_addr = addr + u64val in
           bindE (dwarf_read64 dm Local True addr) (\<lambda>(cie_id, addr).
             if cie_id \<noteq> 0 then Inl (Dw DWARF_EINVAL) else Inr (cie_end_addr, addr))))"

definition parse_cie :: "dwarf_mem \<Rightarrow> bool \<Rightarrow> ulong \<Rightarrow> ulong \<Rightarrow> (dwarf_cie_info, unit) dop" where
  "parse_cie dm is64 gp addr =
     bindS (modS (\<lambda>d. d\<lparr>lsda_encoding := DW_EH_PE_omit\<rparr>)) (\<lambda>_.
     bindS (liftS (cie_header dm addr)) (\<lambda>(cie_end_addr, addr).
     bindS (modS (\<lambda>d. d\<lparr>cie_instr_end := cie_end_addr\<rparr>)) (\<lambda>_.
     bindS (liftS (dwarf_read8 dm Local True addr)) (\<lambda>(version, addr).
     if version \<noteq> 3 \<and> version \<noteq> 1 then failS (Dw DWARF_EBADVERSION)
     else
     bindS (liftS (read_augstr dm addr [])) (\<lambda>(augstr, addr).
     bindS (liftS (dwarf_read_uleb128 dm Local addr)) (\<lambda>(code, addr).
     bindS (modS (\<lambda>d. d\<lparr>code_align := code\<rparr>)) (\<lambda>_.
     bindS (liftS (dwarf_read_sleb128 dm Local addr)) (\<lambda>(data, addr).
     bindS (modS (\<lambda>d. d\<lparr>data_align := data\<rparr>)) (\<lambda>_.
     bindS (liftS (if version = 1 then dwarf_read8 dm Local True addr else dwarf_read_uleb128 dm Local addr)) (\<lambda>(col, addr).
     bindS (modS (\<lambda>d. d\<lparr>dci_ret_addr_column := dwarf_to_regnum col\<rparr>)) (\<lambda>_.
     bindS (if augstr \<noteq> [] \<and> hd augstr = 0x7a then
              bindS (modS (\<lambda>d. d\<lparr>sized_augmentation := True\<rparr>)) (\<lambda>_.
              bindS (liftS (dwarf_read_uleb128 dm Local addr)) (\<lambda>(aug_size, addr). retS (tl augstr, addr)))
            else retS (augstr, addr)) (\<lambda>(aug, addr).
     bindS (parse_aug dm is64 gp aug (if is64 then DW_EH_PE_udata8 else DW_EH_PE_udata4) addr) (\<lambda>(enc, addr).
     modS (\<lambda>d. d\<lparr>fde_encoding := enc, cie_instr_start := addr\<rparr>))))))))))))))"

subsection \<open>The frame description entry\<close>

text \<open>The end of the entry, the place of the offset to its CIE, the offset and the address behind it.\<close>

definition fde_header :: "dwarf_mem \<Rightarrow> ulong \<Rightarrow> (ulong \<times> ulong \<times> ulong \<times> ulong) dres" where
  "fde_header dm addr =
     bindE (dwarf_read32 dm Local True addr) (\<lambda>(u32val, addr).
       if u32val \<noteq> 0xffffffff then
         if u32val = 0 then Inl (Dw DWARF_ENOINFO)
         else
           let fde_end_addr = addr + u32val; cie_offset_addr = addr in
           bindE (dwarf_read32 dm Local True addr) (\<lambda>(cie_offset32, addr).
             Inr (fde_end_addr, cie_offset_addr, s32 cie_offset32, addr))
       else
         bindE (dwarf_read64 dm Local True addr) (\<lambda>(u64val, addr).
           let fde_end_addr = addr + u64val; cie_offset_addr = addr in
           bindE (dwarf_read64 dm Local True addr) (\<lambda>(cie_offset64, addr).
             Inr (fde_end_addr, cie_offset_addr, cie_offset64, addr))))"

definition dwarf_extract_cfi_from_fde :: "dwarf_mem \<Rightarrow> bool \<Rightarrow> ulong \<Rightarrow> ulong \<Rightarrow> (dwarf_cie_info, unit) dop" where
  "dwarf_extract_cfi_from_fde dm is64 gp addr =
     bindS (liftS (fde_header dm addr)) (\<lambda>(fde_end_addr, cie_offset_addr, cie_offset, addr).
     bindS (modS (\<lambda>d. zero_dci)) (\<lambda>_.
     if cie_offset = 0 then retS ()
     else
     bindS (parse_cie dm is64 gp (cie_offset_addr - cie_offset)) (\<lambda>_.
     bindS (getS id) (\<lambda>d.
     bindS (liftS (dwarf_read_encoded_pointer_local dm is64 gp True (fde_encoding d) 0 addr)) (\<lambda>(start, addr).
     bindS (modS (\<lambda>d. d\<lparr>dci_start_ip := start\<rparr>)) (\<lambda>_.
     bindS (liftS (dwarf_read_encoded_pointer_local dm is64 gp True (fde_encoding d AND 0x0f) 0 addr)) (\<lambda>(range, addr).
     bindS (modS (\<lambda>d. d\<lparr>dci_ip_range := range\<rparr>)) (\<lambda>_.
     bindS (if sized_augmentation d
            then bindS (liftS (dwarf_read_uleb128 dm Local addr)) (\<lambda>(aug_size, addr). retS (addr + aug_size, addr))
            else retS (addr, addr)) (\<lambda>(instr_start, addr).
     bindS (modS (\<lambda>d. d\<lparr>fde_instr_start := instr_start, fde_instr_end := fde_end_addr\<rparr>)) (\<lambda>_.
     bindS (liftS (dwarf_read_encoded_pointer_local dm is64 gp False (lsda_encoding d) start addr)) (\<lambda>(_, addr).
     if have_abi_marker d then
       bindS (liftS (dwarf_read16 dm Local True addr)) (\<lambda>(abi, addr).
       bindS (modS (\<lambda>d. d\<lparr>dci_abi := ucast abi\<rparr>)) (\<lambda>_.
       bindS (liftS (dwarf_read16 dm Local True addr)) (\<lambda>(tag, addr).
       modS (\<lambda>d. d\<lparr>dci_tag := ucast tag\<rparr>))))
     else retS ())))))))))))"

subsection \<open>The search table\<close>

text \<open>An entry of the table: two signed 32-bit offsets.\<close>

definition table_entry :: "dwarf_mem \<Rightarrow> ulong \<Rightarrow> ulong \<Rightarrow> (ulong \<times> ulong) dres" where
  "table_entry dm tab i =
     (case (read_mem (local_mem dm) (tab + 8 * i) 4, read_mem (local_mem dm) (tab + 8 * i + 4) 4) of
        (Some s, Some f) \<Rightarrow> Inr (s32 (le_word s), s32 (le_word f))
      | _ \<Rightarrow> Inl (Fault Segfault))"

text \<open>The loop of \<open>lookup\<close>; a sum of bounds that wraps around could make it run for ever.\<close>

partial_function (option) lookup_loop ::
  "(ulong \<Rightarrow> (ulong \<times> ulong) dres) \<Rightarrow> ulong \<Rightarrow> ulong \<Rightarrow> ulong \<Rightarrow> (ulong \<times> ulong) option \<Rightarrow> (ulong \<times> ulong) option dres option" where
  "lookup_loop tab rel_ip lo hi f =
     (let mid = (lo + hi) div 2 in
      case tab mid of
        Inl e \<Rightarrow> Some (Inl e)
      | Inr e \<Rightarrow>
          if rel_ip <s fst e then (if lo < mid then lookup_loop tab rel_ip lo mid f else Some (Inr f))
          else (if mid + 1 < hi then lookup_loop tab rel_ip (mid + 1) hi (Some e) else Some (Inr (Some e))))"

definition lookup :: "(ulong \<Rightarrow> (ulong \<times> ulong) dres) \<Rightarrow> ulong \<Rightarrow> ulong \<Rightarrow> (ulong \<times> ulong) option dres" where
  "lookup tab n rel_ip =
     (if n = 0 then Inr None
      else case lookup_loop tab rel_ip 0 n None of None \<Rightarrow> Inl (Fault NoReturn) | Some r \<Rightarrow> r)"

definition dwarf_search_unwind_table :: "dwarf_mem \<Rightarrow> bool \<Rightarrow> libref \<Rightarrow> ulong \<Rightarrow> (dwarf_cie_info, unit) dop" where
  "dwarf_search_unwind_table dm is64 lr ip =
     bindS (liftS (lookup (table_entry dm (fde_tab lr)) (fde_count lr) (s32 (ip - eh_hdr_vaddr lr)))) (\<lambda>e.
     case e of
       None \<Rightarrow> failS (Dw DWARF_ENOINFO)
     | Some (_, fde_offset) \<Rightarrow>
         bindS (dwarf_extract_cfi_from_fde dm is64 (pltgot lr) (mmap_addr lr + fde_offset + eh_hdr_offset lr)) (\<lambda>_.
         bindS (modS (\<lambda>d.
           let start = dci_start_ip d - mmap_addr lr + txt_vaddr lr
           in d\<lparr>dci_start_ip := (if is64 then start else start AND 0xffffffff)\<rparr>)) (\<lambda>_.
         bindS (getS id) (\<lambda>d.
           if ip < dci_start_ip d \<or> ip \<ge> dci_start_ip d + dci_ip_range d then failS (Dw DWARF_ENOINFO)
           else retS ()))))"

text \<open>The table of a library, found when it is mapped; the source ends the tracer when it is not as it expects.\<close>

definition dwarf_get_unwind_table :: "dwarf_mem \<Rightarrow> bool \<Rightarrow> libref \<Rightarrow> libref dres" where
  "dwarf_get_unwind_table dm is64 lr =
     (let hdr = mmap_addr lr + eh_hdr_offset lr in
      case read_mem (local_mem dm) hdr 4 of
        None \<Rightarrow> Inl (Fault Segfault)
      | Some h \<Rightarrow>
          if h ! 0 \<noteq> 1 then Inl (Fault Aborted)
          else
            (case dwarf_read_encoded_pointer_local dm is64 (pltgot lr) True (h ! 1) 0 (hdr + 4) of
               Inl (Fault f) \<Rightarrow> Inl (Fault f)
             | Inl (Dw _) \<Rightarrow> Inl (Fault Aborted)
             | Inr (_, addr) \<Rightarrow>
                 (case dwarf_read_encoded_pointer_local dm is64 (pltgot lr) True (h ! 2) 0 addr of
                    Inl (Fault f) \<Rightarrow> Inl (Fault f)
                  | Inl (Dw _) \<Rightarrow> Inl (Fault Aborted)
                  | Inr (n, addr) \<Rightarrow>
                      if h ! 3 \<noteq> 0x3b then Inl (Fault Aborted)
                      else Inr (lr\<lparr>fde_tab := addr, fde_count := n\<rparr>))))"

subsection \<open>The search finds the last entry that starts at or before the address\<close>

lemma lookup_loop_correct:
  assumes "\<And>i. unat i < length es \<Longrightarrow> tab i = Inr (es ! unat i)" "sorted_wrt (\<lambda>a b. fst a \<le>s fst b) es" "length es \<le> 2 ^ 63"
    and "unat lo < unat hi" "unat hi \<le> length es"
    and "\<And>i. i < unat lo \<Longrightarrow> fst (es ! i) \<le>s rel" "\<And>i. unat hi \<le> i \<Longrightarrow> i < length es \<Longrightarrow> rel <s fst (es ! i)"
    and "f = (if unat lo = 0 then None else Some (es ! (unat lo - 1)))"
  shows "\<exists>m \<le> length es. lookup_loop tab rel lo hi f = Some (Inr (if m = 0 then None else Some (es ! (m - 1)))) \<and>
    (\<forall>i < m. fst (es ! i) \<le>s rel) \<and> (\<forall>i. m \<le> i \<longrightarrow> i < length es \<longrightarrow> rel <s fst (es ! i))"
  using assms(4-8)
proof (induction "unat hi - unat lo" arbitrary: lo hi f rule: less_induct)
  case less
  define mid where "mid = (lo + hi) div 2"
  have "unat lo + unat hi < 2 ^ 64" using less.prems(1,2) assms(3) by simp
  then have um: "unat mid = (unat lo + unat hi) div 2" by (simp add: mid_def unat_div_distrib unat_word_ariths)
  then have b: "unat lo \<le> unat mid" "unat mid < unat hi" "unat mid < length es" using less.prems(1,2) by linarith+
  have m1: "unat (mid + 1) = unat mid + 1" using b(3) assms(3) by (simp add: unat_word_ariths)
  define e where "e = es ! unat mid"
  have g: "tab mid = Inr e" using assms(1) [OF b(3)] by (simp add: e_def)
  have mono: "fst (es ! i) \<le>s fst (es ! j)" if "i \<le> j" "j < length es" for i j
    using assms(2) that by (cases "i = j") (auto simp: sorted_wrt_iff_nth_less)
  have eq: "lookup_loop tab rel lo hi f =
      (if rel <s fst e then (if lo < mid then lookup_loop tab rel lo mid f else Some (Inr f))
       else (if mid + 1 < hi then lookup_loop tab rel (mid + 1) hi (Some e) else Some (Inr (Some e))))"
    by (subst lookup_loop.simps) (simp add: Let_def g flip: mid_def)
  show ?case
  proof (cases "rel <s fst e")
    case True
    have hi: "rel <s fst (es ! i)" if "unat mid \<le> i" "i < length es" for i
      using mono [OF that] True by (simp add: e_def word_sless_alt word_sle_eq)
    show ?thesis
    proof (cases "lo < mid")
      case lm: True
      then have "unat lo < unat mid" by (simp add: word_less_nat_alt)
      from less.hyps [OF _ this _ less.prems(3) hi less.prems(5)] b eq True lm show ?thesis by auto
    next
      case False
      then have "unat mid = unat lo" using b(1) by (simp add: word_less_nat_alt)
      with True False eq hi less.prems(3,5) b show ?thesis by (intro exI [of _ "unat lo"]) auto
    qed
  next
    case False
    have lo: "fst (es ! i) \<le>s rel" if "i < unat (mid + 1)" for i
      using mono [of i "unat mid"] False that m1 b(3) by (simp add: e_def word_sless_alt word_sle_eq)
    have f1: "Some e = (if unat (mid + 1) = 0 then None else Some (es ! (unat (mid + 1) - 1)))" using m1 by (simp add: e_def)
    show ?thesis
    proof (cases "mid + 1 < hi")
      case mh: True
      then have "unat (mid + 1) < unat hi" by (simp add: word_less_nat_alt)
      from less.hyps [OF _ this less.prems(2) lo less.prems(4) f1] b m1 eq False mh show ?thesis by auto
    next
      case mh: False
      then have "unat hi = unat (mid + 1)" using b(2) m1 by (simp add: word_less_nat_alt)
      with False mh eq lo less.prems(2,4) m1 show ?thesis by (intro exI [of _ "unat (mid + 1)"]) (auto simp: e_def)
    qed
  qed
qed

theorem lookup_result:
  assumes "\<And>i. unat i < length es \<Longrightarrow> tab i = Inr (es ! unat i)" "sorted_wrt (\<lambda>a b. fst a \<le>s fst b) es" "length es \<le> 2 ^ 63"
  shows "lookup tab (of_nat (length es)) rel =
    Inr (let ps = filter (\<lambda>e. fst e \<le>s rel) es in if ps = [] then None else Some (last ps))"
proof (cases "es = []")
  case True
  then show ?thesis by (simp add: lookup_def)
next
  case False
  have u: "unat (of_nat (length es) :: ulong) = length es" using assms(3) by (simp add: unat_of_nat)
  then have nz: "of_nat (length es) \<noteq> (0 :: ulong)" using False by (metis length_0_conv unat_0)
  from lookup_loop_correct [OF assms, of 0 "of_nat (length es)" rel None] u False obtain m where
    m: "m \<le> length es" "lookup_loop tab rel 0 (of_nat (length es)) None = Some (Inr (if m = 0 then None else Some (es ! (m - 1))))"
      "\<forall>i < m. fst (es ! i) \<le>s rel" "\<forall>i. m \<le> i \<longrightarrow> i < length es \<longrightarrow> rel <s fst (es ! i)" by auto
  have "filter (\<lambda>e. fst e \<le>s rel) (take m es) = take m es"
  proof (rule filter_True, rule ballI)
    fix e
    assume "e \<in> set (take m es)"
    then obtain i where "i < m" "e = es ! i" using m(1) by (auto simp: in_set_conv_nth)
    with m(3) show "fst e \<le>s rel" by simp
  qed
  moreover have "filter (\<lambda>e. fst e \<le>s rel) (drop m es) = []"
  proof (rule filter_False, rule ballI)
    fix e
    assume "e \<in> set (drop m es)"
    then obtain i where "i < length es - m" "e = es ! (m + i)" using m(1) by (auto simp: in_set_conv_nth)
    with m(4) have "rel <s fst e" by simp
    then show "\<not> fst e \<le>s rel" by (simp add: word_sless_alt word_sle_eq)
  qed
  ultimately have "filter (\<lambda>e. fst e \<le>s rel) es = take m es"
    by (metis append_Nil2 append_take_drop_id filter_append)
  moreover have "last (take m es) = es ! (m - 1)" if "m \<noteq> 0" using that m(1) False by (subst last_conv_nth) auto
  ultimately show ?thesis using m(1,2) nz False by (auto simp: lookup_def Let_def)
qed

end
