(* ===== verification/X86_Regs.thy ===== *)
theory X86_Regs
  imports Server_Types
begin

text \<open>
  The registers of a traced thread (\<open>sysdeps/linux-gnu/x86/regs.c\<close>, built for x86-64). The saved
  registers are a function from the names of the registers to their values. What \<open>ptrace\<close> and
  \<open>copy_from_proc\<close> answer is an argument: \<open>None\<close> is their failure.
\<close>

datatype x86_reg =
    R15 | R14 | R13 | R12 | RBP | RBX | R11 | R10 | R9 | R8 | RAX | RCX | RDX | RSI | RDI | ORIG_RAX
  | RIP | CS | EFLAGS | RSP | SS | FS_BASE | GS_BASE | DS | ES | FS | GS

type_synonym iregs = "x86_reg \<Rightarrow> ulong"

record reg_context =
  task_is_64bit :: bool
  cx_iregs :: iregs
  saved_iregs :: iregs

definition fix_machine :: "reg_context \<Rightarrow> ulong \<Rightarrow> ulong" where
  "fix_machine cx val = (if \<not> task_is_64bit cx then val AND 0xffffffff else val)"

definition get_stack_pointer :: "reg_context \<Rightarrow> ulong" where
  "get_stack_pointer cx = fix_machine cx (cx_iregs cx RSP)"

definition get_instruction_pointer :: "reg_context \<Rightarrow> ulong" where
  "get_instruction_pointer cx = fix_machine cx (cx_iregs cx RIP)"

text \<open>The new registers and the value written to the thread, if one is.\<close>

definition set_instruction_pointer :: "reg_context \<Rightarrow> ulong \<Rightarrow> reg_context \<times> ulong option" where
  "set_instruction_pointer cx addr =
     (let val = fix_machine cx addr in
      if cx_iregs cx RIP = val then (cx, None)
      else (cx\<lparr>cx_iregs := (cx_iregs cx)(RIP := val)\<rparr>, Some val))"

definition get_return_addr :: "reg_context \<Rightarrow> (ulong \<Rightarrow> ulong option) \<Rightarrow> ulong" where
  "get_return_addr cx peek =
     (case peek (get_stack_pointer cx) of None \<Rightarrow> 0 | Some a \<Rightarrow> fix_machine cx a)"

definition fetch_context :: "reg_context \<Rightarrow> iregs option \<Rightarrow> int \<times> reg_context" where
  "fetch_context cx getregs =
     (case getregs of
        None \<Rightarrow> (-1, cx\<lparr>cx_iregs := (\<lambda>_. 0)\<rparr>)
      | Some r \<Rightarrow> (0, cx\<lparr>cx_iregs := r\<rparr>))"

definition save_param_context :: "reg_context \<Rightarrow> reg_context" where
  "save_param_context cx = cx\<lparr>saved_iregs := cx_iregs cx\<rparr>"

text \<open>
  The parameters of the call at which the context was saved. \<open>copy\<close> gives the bytes at an address;
  when it fails the variable keeps the value \<open>junk\<close> the stack had.
\<close>

definition copied :: "ulong \<Rightarrow> bytes option \<Rightarrow> ulong" where
  "copied junk r = (case r of None \<Rightarrow> junk | Some bs \<Rightarrow> le_word bs)"

definition fetch_param_64 :: "reg_context \<Rightarrow> (ulong \<Rightarrow> nat \<Rightarrow> bytes option) \<Rightarrow> ulong \<Rightarrow> u32 \<Rightarrow> ulong" where
  "fetch_param_64 cx copy junk param =
     (if param = 0 then saved_iregs cx RDI
      else if param = 1 then saved_iregs cx RSI
      else if param = 2 then saved_iregs cx RDX
      else if param = 3 then saved_iregs cx RCX
      else if param = 4 then saved_iregs cx R8
      else if param = 5 then saved_iregs cx R9
      else copied junk (copy (saved_iregs cx RSP + ucast (param - 5) * 8) 8))"

definition fetch_param :: "reg_context \<Rightarrow> (ulong \<Rightarrow> nat \<Rightarrow> bytes option) \<Rightarrow> ulong \<Rightarrow> u32 \<Rightarrow> ulong" where
  "fetch_param cx copy junk param =
     (if task_is_64bit cx then fetch_param_64 cx copy junk param
      else
        let sp = fix_machine cx (saved_iregs cx RSP)
        in ucast (ucast (copied junk (copy (sp + ucast (param + 1) * 4) 4)) :: u32))"

definition fetch_retval :: "reg_context \<Rightarrow> ulong" where
  "fetch_retval cx = cx_iregs cx RAX"

text \<open>The branch of \<open>R13\<close> reads the field \<open>r15\<close>.\<close>

definition fetch_reg :: "reg_context \<Rightarrow> x86_reg \<Rightarrow> ulong" where
  "fetch_reg cx reg = fix_machine cx (if reg = R13 then cx_iregs cx R15 else cx_iregs cx reg)"

end
