(* ===== verification/Dwarf_Cfi.thy ===== *)
theory Dwarf_Cfi
  imports Dwarf_Cie X86_Regs
begin

text \<open>
  The call frame instructions of \<open>dwarf.c\<close>: the program of a CIE and of an FDE builds the table that says
  where the registers of the caller are saved. The array of the registers has two more columns for
  the canonical frame address. A write outside the array is a fault, and so is a copy outside the
  stack of remembered states.
\<close>

subsection \<open>The register table\<close>

datatype dwarf_where =
    DWARF_WHERE_UNDEF | DWARF_WHERE_SAME | DWARF_WHERE_CFAREL | DWARF_WHERE_REG
  | DWARF_WHERE_EXPR | DWARF_WHERE_VAL_EXPR

record dwarf_reg =
  dr_where :: dwarf_where
  dr_val :: ulong

type_synonym reg_state = "dwarf_reg list"

definition set_reg :: "reg_state \<Rightarrow> nat \<Rightarrow> dwarf_where \<Rightarrow> ulong \<Rightarrow> reg_state dres" where
  "set_reg rs regnum w val =
     (if regnum < length rs then Inr (rs[regnum := \<lparr>dr_where = w, dr_val = val\<rparr>]) else Inl (Fault OutOfBounds))"

definition read_regnum :: "dwarf_mem \<Rightarrow> nat \<Rightarrow> ulong \<Rightarrow> (ulong \<times> ulong) dres" where
  "read_regnum dm num_regs addr =
     bindE (dwarf_read_uleb128 dm Local addr) (\<lambda>(val, addr).
       let val = dwarf_to_regnum val in
       if unat val \<ge> num_regs then Inl (Dw DWARF_EBADREG) else Inr (val, addr))"

subsection \<open>The instructions\<close>

record cfi =
  curr_ip :: ulong
  cfi_addr :: ulong
  cfi_rs :: reg_state
  reg_stack :: "reg_state list"

text \<open>The parts of the program that stay the same: the image, the word size, the table entry and the registers.\<close>

record cfi_env =
  ce_mem :: dwarf_mem
  ce_is64 :: bool
  ce_gp :: ulong
  ce_dci :: dwarf_cie_info
  ce_num_regs :: nat
  ce_initial :: reg_state

definition put_reg :: "cfi \<Rightarrow> nat \<Rightarrow> dwarf_where \<Rightarrow> ulong \<Rightarrow> ulong \<Rightarrow> cfi dres" where
  "put_reg st regnum w val addr =
     bindE (set_reg (cfi_rs st) regnum w val) (\<lambda>rs. Inr (st\<lparr>cfi_rs := rs, cfi_addr := addr\<rparr>))"

text \<open>\<open>DW_CFA_advance_loc\<close> and its longer forms.\<close>

definition cfi_advance :: "cfi_env \<Rightarrow> u8 \<Rightarrow> cfi \<Rightarrow> cfi dres" where
  "cfi_advance ce opc st =
     bindE ((if opc = 0x02 then dwarf_read8 else if opc = 0x03 then dwarf_read16 else dwarf_read32)
              (ce_mem ce) Local True (cfi_addr st)) (\<lambda>(v, addr).
       Inr (st\<lparr>curr_ip := curr_ip st + v * code_align (ce_dci ce), cfi_addr := addr\<rparr>))"

text \<open>The rules for one register: its number, then its operand.\<close>

definition restore_reg :: "cfi_env \<Rightarrow> cfi \<Rightarrow> ulong \<Rightarrow> ulong \<Rightarrow> cfi dres" where
  "restore_reg ce st regnum addr =
     (if unat regnum \<ge> ce_num_regs ce then Inl (Dw DWARF_EINVAL)
      else if unat regnum < length (ce_initial ce)
      then (let r = ce_initial ce ! unat regnum in put_reg st (unat regnum) (dr_where r) (dr_val r) addr)
      else Inl (Fault OutOfBounds))"

definition cfi_offset :: "cfi_env \<Rightarrow> ulong \<Rightarrow> cfi \<Rightarrow> cfi dres" where
  "cfi_offset ce operand st =
     (let regnum = dwarf_to_regnum operand in
      if unat regnum \<ge> ce_num_regs ce then Inl (Dw DWARF_EBADREG)
      else bindE (dwarf_read_uleb128 (ce_mem ce) Local (cfi_addr st)) (\<lambda>(val, addr).
        put_reg st (unat regnum) DWARF_WHERE_CFAREL (val * data_align (ce_dci ce)) addr))"

definition cfi_reg_val ::
  "cfi_env \<Rightarrow> (dwarf_mem \<Rightarrow> space \<Rightarrow> ulong \<Rightarrow> (ulong \<times> ulong) dres) \<Rightarrow> (ulong \<Rightarrow> ulong) \<Rightarrow> cfi \<Rightarrow> cfi dres" where
  "cfi_reg_val ce rd f st =
     bindE (read_regnum (ce_mem ce) (ce_num_regs ce) (cfi_addr st)) (\<lambda>(regnum, addr).
     bindE (rd (ce_mem ce) Local addr) (\<lambda>(val, addr).
       put_reg st (unat regnum) DWARF_WHERE_CFAREL (f val) addr))"

definition cfi_reg_where :: "cfi_env \<Rightarrow> dwarf_where \<Rightarrow> cfi \<Rightarrow> cfi dres" where
  "cfi_reg_where ce w st =
     bindE (read_regnum (ce_mem ce) (ce_num_regs ce) (cfi_addr st)) (\<lambda>(regnum, addr).
       put_reg st (unat regnum) w 0 addr)"

definition cfi_register :: "cfi_env \<Rightarrow> cfi \<Rightarrow> cfi dres" where
  "cfi_register ce st =
     bindE (read_regnum (ce_mem ce) (ce_num_regs ce) (cfi_addr st)) (\<lambda>(regnum, addr).
     bindE (dwarf_read_uleb128 (ce_mem ce) Local addr) (\<lambda>(val, addr).
       let n = dwarf_to_regnum val in
       if unat n \<ge> ce_num_regs ce then Inl (Dw DWARF_EBADREG)
       else put_reg st (unat regnum) DWARF_WHERE_REG n addr))"

text \<open>An expression stays in the image; its block is skipped.\<close>

definition skip_block :: "cfi_env \<Rightarrow> cfi \<Rightarrow> cfi dres" where
  "skip_block ce st =
     bindE (dwarf_read_uleb128 (ce_mem ce) Local (cfi_addr st)) (\<lambda>(n, addr). Inr (st\<lparr>cfi_addr := addr + n\<rparr>))"

definition cfi_expression :: "cfi_env \<Rightarrow> dwarf_where \<Rightarrow> cfi \<Rightarrow> cfi dres" where
  "cfi_expression ce w st =
     bindE (read_regnum (ce_mem ce) (ce_num_regs ce) (cfi_addr st)) (\<lambda>(regnum, addr).
     bindE (put_reg st (unat regnum) w addr addr) (skip_block ce))"

text \<open>The canonical frame address.\<close>

definition cfi_def_cfa ::
  "cfi_env \<Rightarrow> (dwarf_mem \<Rightarrow> space \<Rightarrow> ulong \<Rightarrow> (ulong \<times> ulong) dres) \<Rightarrow> (ulong \<Rightarrow> ulong) \<Rightarrow> cfi \<Rightarrow> cfi dres" where
  "cfi_def_cfa ce rd f st =
     bindE (read_regnum (ce_mem ce) (ce_num_regs ce) (cfi_addr st)) (\<lambda>(regnum, addr).
     bindE (rd (ce_mem ce) Local addr) (\<lambda>(val, addr).
     bindE (put_reg st (ce_num_regs ce) DWARF_WHERE_REG regnum addr) (\<lambda>st.
       put_reg st (ce_num_regs ce + 1) DWARF_WHERE_UNDEF (f val) addr)))"

definition cfi_def_cfa_register :: "cfi_env \<Rightarrow> cfi \<Rightarrow> cfi dres" where
  "cfi_def_cfa_register ce st =
     bindE (read_regnum (ce_mem ce) (ce_num_regs ce) (cfi_addr st)) (\<lambda>(regnum, addr).
       put_reg st (ce_num_regs ce) DWARF_WHERE_REG regnum addr)"

definition cfi_def_cfa_offset ::
  "cfi_env \<Rightarrow> (dwarf_mem \<Rightarrow> space \<Rightarrow> ulong \<Rightarrow> (ulong \<times> ulong) dres) \<Rightarrow> (ulong \<Rightarrow> ulong) \<Rightarrow> cfi \<Rightarrow> cfi dres" where
  "cfi_def_cfa_offset ce rd f st =
     bindE (rd (ce_mem ce) Local (cfi_addr st)) (\<lambda>(val, addr).
       put_reg st (ce_num_regs ce + 1) DWARF_WHERE_UNDEF (f val) addr)"

definition cfi_def_cfa_expression :: "cfi_env \<Rightarrow> cfi \<Rightarrow> cfi dres" where
  "cfi_def_cfa_expression ce st =
     bindE (put_reg st (ce_num_regs ce) DWARF_WHERE_EXPR (cfi_addr st) (cfi_addr st)) (skip_block ce)"

text \<open>The stack of remembered states has room for 16.\<close>

definition cfi_remember :: "cfi \<Rightarrow> cfi dres" where
  "cfi_remember st =
     (if length (reg_stack st) \<ge> 16 then Inl (Dw DWARF_EINVAL)
      else Inr (st\<lparr>reg_stack := cfi_rs st # reg_stack st\<rparr>))"

definition cfi_restore_state :: "cfi \<Rightarrow> cfi dres" where
  "cfi_restore_state st =
     (case reg_stack st of [] \<Rightarrow> Inl (Dw DWARF_EINVAL)
      | rs # stack \<Rightarrow> Inr (st\<lparr>cfi_rs := rs, reg_stack := stack\<rparr>))"

text \<open>
  One instruction. An opcode the \<open>switch\<close> has no branch for, such as \<open>DW_CFA_val_offset\<close>, is skipped
  without its operands.
\<close>

definition cfi_exec :: "cfi_env \<Rightarrow> u8 \<Rightarrow> ulong \<Rightarrow> cfi \<Rightarrow> cfi dres" where
  "cfi_exec ce opc operand st =
     (let dci = ce_dci ce; uleb = dwarf_read_uleb128; sleb = dwarf_read_sleb128; factored = (\<lambda>val. val * data_align dci) in
      if opc = 0x40 then Inr (st\<lparr>curr_ip := curr_ip st + operand * code_align dci\<rparr>)
      else if opc = 0x02 \<or> opc = 0x03 \<or> opc = 0x04 then cfi_advance ce opc st
      else if opc = 0x1d then Inl (Dw DWARF_EINVAL)
      else if opc = 0x80 then cfi_offset ce operand st
      else if opc = 0x05 then cfi_reg_val ce uleb factored st
      else if opc = 0x11 then cfi_reg_val ce sleb factored st
      else if opc = 0xc0 then restore_reg ce st (dwarf_to_regnum operand) (cfi_addr st)
      else if opc = 0x06 then
        bindE (dwarf_read_uleb128 (ce_mem ce) Local (cfi_addr st)) (\<lambda>(regnum, addr). restore_reg ce st regnum addr)
      else if opc = 0x00 then Inr st
      else if opc = 0x01 then
        bindE (dwarf_read_encoded_pointer_local (ce_mem ce) (ce_is64 ce) (ce_gp ce) True (fde_encoding dci)
                 (dci_start_ip dci) (cfi_addr st)) (\<lambda>(ip, addr). Inr (st\<lparr>curr_ip := ip, cfi_addr := addr\<rparr>))
      else if opc = 0x07 then cfi_reg_where ce DWARF_WHERE_UNDEF st
      else if opc = 0x08 then cfi_reg_where ce DWARF_WHERE_SAME st
      else if opc = 0x09 then cfi_register ce st
      else if opc = 0x0a then cfi_remember st
      else if opc = 0x0b then cfi_restore_state st
      else if opc = 0x0c then cfi_def_cfa ce uleb id st
      else if opc = 0x12 then cfi_def_cfa ce sleb factored st
      else if opc = 0x0d then cfi_def_cfa_register ce st
      else if opc = 0x0e then cfi_def_cfa_offset ce uleb id st
      else if opc = 0x13 then cfi_def_cfa_offset ce sleb factored st
      else if opc = 0x0f then cfi_def_cfa_expression ce st
      else if opc = 0x10 then cfi_expression ce DWARF_WHERE_EXPR st
      else if opc = 0x16 then cfi_expression ce DWARF_WHERE_VAL_EXPR st
      else if opc = 0x2e then
        bindE (dwarf_read_uleb128 (ce_mem ce) Local (cfi_addr st)) (\<lambda>(_, addr). Inr (st\<lparr>cfi_addr := addr\<rparr>))
      else if opc = 0x2f then cfi_reg_val ce uleb (\<lambda>val. - (val * data_align dci)) st
      else if opc = 0x2d \<or> opc = 0x1c \<or> opc = 0x3c then Inl (Dw DWARF_EINVAL)
      else Inr st)"

definition cfi_step :: "cfi_env \<Rightarrow> cfi \<Rightarrow> cfi dres" where
  "cfi_step ce st =
     bindE (dwarf_read8 (ce_mem ce) Local True (cfi_addr st)) (\<lambda>(byte, addr).
       let b = (ucast byte :: u8); st = st\<lparr>cfi_addr := addr\<rparr> in
       if b AND 0xc0 \<noteq> 0 then cfi_exec ce (b AND NOT 0x3f) (ucast (b AND 0x3f)) st
       else cfi_exec ce b 0 st)"

partial_function (option) run_cfi_loop :: "cfi_env \<Rightarrow> ulong \<Rightarrow> ulong \<Rightarrow> cfi \<Rightarrow> cfi dres option" where
  "run_cfi_loop ce ip end_addr st =
     (if curr_ip st \<le> ip \<and> cfi_addr st < end_addr then
        (case cfi_step ce st of
           Inl e \<Rightarrow> Some (Inl e)
         | Inr st \<Rightarrow> run_cfi_loop ce ip end_addr st)
      else Some (Inr st))"

definition run_cfi_program :: "cfi_env \<Rightarrow> reg_state \<Rightarrow> ulong \<Rightarrow> ulong \<Rightarrow> ulong \<Rightarrow> reg_state dres" where
  "run_cfi_program ce rs_current ip addr end_addr =
     (case run_cfi_loop ce ip end_addr
             \<lparr>curr_ip = dci_start_ip (ce_dci ce), cfi_addr = addr, cfi_rs = rs_current, reg_stack = []\<rparr> of
        None \<Rightarrow> Inl (Fault NoReturn)
      | Some r \<Rightarrow> bindE r (\<lambda>st. Inr (cfi_rs st)))"

text \<open>
  The two programs of \<open>parse_fde\<close>, the one of the CIE and the one of the FDE. The initial table of the
  CIE program is all zero, which is \<open>DWARF_WHERE_UNDEF\<close>.
\<close>

definition same_regs :: "nat \<Rightarrow> reg_state" where
  "same_regs n = replicate (n + 2) \<lparr>dr_where = DWARF_WHERE_SAME, dr_val = 0\<rparr>"

definition undef_regs :: "nat \<Rightarrow> reg_state" where
  "undef_regs n = replicate (n + 2) \<lparr>dr_where = DWARF_WHERE_UNDEF, dr_val = 0\<rparr>"

definition parse_fde_regs :: "dwarf_mem \<Rightarrow> bool \<Rightarrow> ulong \<Rightarrow> dwarf_cie_info \<Rightarrow> nat \<Rightarrow> ulong \<Rightarrow> reg_state dres" where
  "parse_fde_regs dm is64 gp dci num_regs ip =
     (let ce = \<lparr>ce_mem = dm, ce_is64 = is64, ce_gp = gp, ce_dci = dci, ce_num_regs = num_regs,
                ce_initial = undef_regs num_regs\<rparr>
      in
      bindE (run_cfi_program ce (same_regs num_regs) (-1) (cie_instr_start dci) (cie_instr_end dci)) (\<lambda>rs.
        run_cfi_program (ce\<lparr>ce_initial := rs\<rparr>) rs ip (fde_instr_start dci) (fde_instr_end dci)))"

subsection \<open>No instruction leaves the arrays\<close>

text \<open>A result that satisfies \<open>P\<close>, or an error, but neither an access outside an array nor an endless loop.\<close>

definition postE :: "('a \<Rightarrow> bool) \<Rightarrow> 'a dres \<Rightarrow> bool" where
  "postE P r \<longleftrightarrow> (case r of Inl e \<Rightarrow> e \<noteq> Fault OutOfBounds \<and> e \<noteq> Fault NoReturn | Inr x \<Rightarrow> P x)"

lemma postE_simps [simp]: "postE P (Inl e) \<longleftrightarrow> e \<noteq> Fault OutOfBounds \<and> e \<noteq> Fault NoReturn" "postE P (Inr x) \<longleftrightarrow> P x"
  by (simp_all add: postE_def)

lemma postE_bind [intro]: "postE Q m \<Longrightarrow> (\<And>x. Q x \<Longrightarrow> postE P (f x)) \<Longrightarrow> postE P (bindE m f)"
  by (cases m) auto

lemma postE_mono: "postE Q r \<Longrightarrow> (\<And>x. Q x \<Longrightarrow> P x) \<Longrightarrow> postE P r"
  by (cases r) auto

lemma access_post: "postE (\<lambda>_. True) (dwarf_access_mem dm sp want addr n)"
  by (auto simp: dwarf_access_mem_def split: space.splits option.splits)

lemma read_post [simp]:
  "postE (\<lambda>_. True) (dwarf_read8 dm sp want addr)" "postE (\<lambda>_. True) (dwarf_read16 dm sp want addr)"
  "postE (\<lambda>_. True) (dwarf_read32 dm sp want addr)" "postE (\<lambda>_. True) (dwarf_read64 dm sp want addr)"
  unfolding dwarf_read8_def dwarf_read16_def dwarf_read32_def dwarf_read64_def
  by (auto intro: postE_bind [OF access_post])

lemma readw_post [simp]: "postE (\<lambda>_. True) (dwarf_readw dm sp is64 addr)"
  by (simp add: dwarf_readw_def)

lemma leb128_post: "postE (\<lambda>_. True) (leb128_loop dm sp addr val shift)"
proof (induction dm sp addr val shift rule: leb128_loop.induct)
  case (1 dm sp addr val shift)
  show ?case
  proof (cases "dwarf_read8 dm sp True addr")
    case (Inl e)
    then show ?thesis using read_post(1) [of dm sp True addr] by (subst leb128_loop.simps) simp
  next
    case (Inr x)
    then show ?thesis using 1 by (subst leb128_loop.simps) (auto simp: Let_def split: prod.splits)
  qed
qed

lemma uleb_post [simp]: "postE (\<lambda>_. True) (dwarf_read_uleb128 dm sp addr)"
  unfolding dwarf_read_uleb128_def by (auto intro: postE_bind [OF leb128_post])

lemma sleb_post [simp]: "postE (\<lambda>_. True) (dwarf_read_sleb128 dm sp addr)"
  unfolding dwarf_read_sleb128_def by (auto intro: postE_bind [OF leb128_post])

lemma format_post: "postE (\<lambda>_. True) (read_format dm is64 sp want enc addr)"
  unfolding read_format_def Let_def by (auto intro!: postE_bind [where Q = "\<lambda>_. True"])

lemma pointer_post [simp]: "postE (\<lambda>_. True) (dwarf_read_encoded_pointer_local dm is64 gp want enc start addr)"
proof -
  have b: "postE (\<lambda>_. True) (apply_base ia gp start enc val)" for ia val by (simp add: apply_base_def Let_def)
  have i: "postE (\<lambda>_. True) (bindE (dwarf_readw dm Proc is64 v) (\<lambda>(w, _). Inr w))" for v
    by (rule postE_bind [OF readw_post]) auto
  have w: "postE (\<lambda>_. True) (fst (case dwarf_readw dm Local i6 a of Inl e \<Rightarrow> (Inl e, b) | Inr (v, a) \<Rightarrow> (Inr (if want then v else 0), a)))" for i6 a b
    using readw_post [of dm Local i6 a] by (cases "dwarf_readw dm Local i6 a") auto
  have "postE (\<lambda>_. True) (fst (dwarf_read_encoded_pointer dm is64 gp True want enc start addr))"
  proof (cases "read_format dm is64 Local want enc addr")
    case (Inl e)
    then show ?thesis using format_post [of dm is64 Local want enc addr] w
      by (simp add: dwarf_read_encoded_pointer_def Let_def)
  next
    case (Inr x)
    then show ?thesis using w i
      by (cases x) (auto simp: dwarf_read_encoded_pointer_def Let_def intro!: postE_bind [OF b])
  qed
  then show ?thesis
    unfolding dwarf_read_encoded_pointer_local_def by (auto split: prod.splits intro!: postE_bind [where Q = "\<lambda>_. True"])
qed

lemma regnum_post: "postE (\<lambda>(v, _). unat v < n) (read_regnum dm n addr)"
  unfolding read_regnum_def by (auto simp: Let_def intro!: postE_bind [OF uleb_post])

text \<open>
  The shape of a table: all its columns are there, a register saved in another names one, and the
  frame address is as before, a register or an expression.
\<close>

definition reg_ok :: "nat \<Rightarrow> dwarf_reg \<Rightarrow> bool" where
  "reg_ok n r \<longleftrightarrow> (dr_where r = DWARF_WHERE_REG \<longrightarrow> unat (dr_val r) < n)"

definition init_ok :: "nat \<Rightarrow> reg_state \<Rightarrow> bool" where
  "init_ok n rs \<longleftrightarrow> length rs = n + 2 \<and> (\<forall>r \<in> set rs. reg_ok n r)"

definition rs_ok :: "nat \<Rightarrow> reg_state \<Rightarrow> bool" where
  "rs_ok n rs \<longleftrightarrow> init_ok n rs \<and> dr_where (rs ! n) \<in> {DWARF_WHERE_SAME, DWARF_WHERE_REG, DWARF_WHERE_EXPR}"

definition cfi_ok :: "nat \<Rightarrow> cfi \<Rightarrow> bool" where
  "cfi_ok n st \<longleftrightarrow> rs_ok n (cfi_rs st) \<and> length (reg_stack st) \<le> 16 \<and> (\<forall>rs \<in> set (reg_stack st). rs_ok n rs)"

lemma cfi_ok_moves [simp]:
  "cfi_ok n (st\<lparr>curr_ip := i\<rparr>) = cfi_ok n st" "cfi_ok n (st\<lparr>cfi_addr := a\<rparr>) = cfi_ok n st"
  by (simp_all add: cfi_ok_def)

lemma put_reg_post:
  assumes "cfi_ok n st" "i < n + 2" "w = DWARF_WHERE_REG \<Longrightarrow> unat v < n"
    and "i = n \<Longrightarrow> w \<in> {DWARF_WHERE_SAME, DWARF_WHERE_REG, DWARF_WHERE_EXPR}"
  shows "postE (cfi_ok n) (put_reg st i w v a)"
  using assms
  by (auto simp: put_reg_def set_reg_def cfi_ok_def rs_ok_def init_ok_def reg_ok_def nth_list_update dest!: set_update_subset_insert [THEN subsetD])

lemma restore_reg_post:
  assumes "cfi_ok (ce_num_regs ce) st" "init_ok (ce_num_regs ce) (ce_initial ce)"
  shows "postE (cfi_ok (ce_num_regs ce)) (restore_reg ce st v a)"
proof -
  have "reg_ok (ce_num_regs ce) (ce_initial ce ! unat v)" if "unat v < ce_num_regs ce"
    using assms(2) that by (auto simp: init_ok_def)
  then show ?thesis using assms
    by (auto simp: restore_reg_def Let_def init_ok_def reg_ok_def intro!: put_reg_post)
qed

lemma skip_block_post: "cfi_ok n st \<Longrightarrow> postE (cfi_ok n) (skip_block ce st)"
  unfolding skip_block_def by (auto intro!: postE_bind [OF uleb_post])

lemmas post_binds = postE_bind [OF regnum_post] postE_bind [OF uleb_post] postE_bind [OF sleb_post] put_reg_post

lemma cfi_reg_posts:
  assumes "cfi_ok (ce_num_regs ce) st" "\<And>m s a. postE (\<lambda>_. True) (rd m s a)"
  shows "postE (cfi_ok (ce_num_regs ce)) (cfi_reg_val ce rd f st)" "postE (cfi_ok (ce_num_regs ce)) (cfi_def_cfa ce rd f st)"
    "postE (cfi_ok (ce_num_regs ce)) (cfi_def_cfa_offset ce rd f st)"
  unfolding cfi_reg_val_def cfi_def_cfa_def cfi_def_cfa_offset_def using assms(1)
  by (auto intro!: post_binds postE_bind [OF assms(2)] postE_bind [where Q = "cfi_ok (ce_num_regs ce)"])

lemma cfi_reg_only_posts:
  assumes "cfi_ok (ce_num_regs ce) st"
  shows "postE (cfi_ok (ce_num_regs ce)) (cfi_offset ce operand st)" "postE (cfi_ok (ce_num_regs ce)) (cfi_register ce st)"
    "w \<noteq> DWARF_WHERE_REG \<Longrightarrow> postE (cfi_ok (ce_num_regs ce)) (cfi_reg_where ce w st)"
    "postE (cfi_ok (ce_num_regs ce)) (cfi_def_cfa_register ce st)"
  unfolding cfi_offset_def cfi_register_def cfi_reg_where_def cfi_def_cfa_register_def Let_def
  using assms by (auto intro!: post_binds)

lemma cfi_block_posts:
  assumes "cfi_ok (ce_num_regs ce) st"
  shows "w \<noteq> DWARF_WHERE_REG \<Longrightarrow> postE (cfi_ok (ce_num_regs ce)) (cfi_expression ce w st)"
    "postE (cfi_ok (ce_num_regs ce)) (cfi_def_cfa_expression ce st)"
  unfolding cfi_expression_def cfi_def_cfa_expression_def
  using assms by (auto intro!: postE_bind [OF regnum_post] postE_bind [OF put_reg_post] skip_block_post)

lemma cfi_stack_posts:
  assumes "cfi_ok n st"
  shows "postE (cfi_ok n) (cfi_remember st)" "postE (cfi_ok n) (cfi_restore_state st)"
  using assms by (auto simp: cfi_remember_def cfi_restore_state_def cfi_ok_def split: list.splits)

lemma cfi_advance_post: "cfi_ok n st \<Longrightarrow> postE (cfi_ok n) (cfi_advance ce opc st)"
  unfolding cfi_advance_def by (auto intro!: postE_bind [where Q = "\<lambda>_. True"])

lemmas cfi_posts = cfi_reg_posts [OF _ uleb_post] cfi_reg_posts [OF _ sleb_post] cfi_reg_only_posts cfi_block_posts
  cfi_stack_posts cfi_advance_post restore_reg_post

lemma cfi_exec_post:
  assumes "cfi_ok (ce_num_regs ce) st" "init_ok (ce_num_regs ce) (ce_initial ce)"
  shows "postE (cfi_ok (ce_num_regs ce)) (cfi_exec ce opc operand st)"
proof -
  have m: "postE (cfi_ok (ce_num_regs ce)) (bindE (dwarf_read_uleb128 dm Local a) (\<lambda>(regnum, a). restore_reg ce st regnum a))"
    "postE (cfi_ok (ce_num_regs ce)) (bindE (dwarf_read_uleb128 dm Local a) (\<lambda>(_, a). Inr (st\<lparr>cfi_addr := a\<rparr>)))"
    "postE (cfi_ok (ce_num_regs ce)) (bindE (dwarf_read_encoded_pointer_local dm i6 gp True enc s a) (\<lambda>(ip, a). Inr (st\<lparr>curr_ip := ip, cfi_addr := a\<rparr>)))"
    for dm a i6 gp enc s
    using assms by (auto intro!: postE_bind [OF uleb_post] postE_bind [OF pointer_post] restore_reg_post)
  show ?thesis unfolding cfi_exec_def Let_def using assms(1) by (simp add: cfi_posts [OF assms(1)] restore_reg_post [OF assms] m)
qed

lemma cfi_step_post:
  assumes "cfi_ok (ce_num_regs ce) st" "init_ok (ce_num_regs ce) (ce_initial ce)"
  shows "postE (cfi_ok (ce_num_regs ce)) (cfi_step ce st)"
  unfolding cfi_step_def using assms
  by (auto simp: Let_def intro!: postE_bind [OF read_post(1)] cfi_exec_post)

lemma run_cfi_loop_post:
  assumes "run_cfi_loop ce ip end_addr st = Some r" "init_ok (ce_num_regs ce) (ce_initial ce)" "cfi_ok (ce_num_regs ce) st"
  shows "postE (cfi_ok (ce_num_regs ce)) r"
proof -
  let ?P = "\<lambda>ce ip end_addr st r. init_ok (ce_num_regs ce) (ce_initial ce) \<longrightarrow> cfi_ok (ce_num_regs ce) st \<longrightarrow>
    postE (cfi_ok (ce_num_regs ce)) r"
  have "?P ce ip end_addr st r"
  proof (rule run_cfi_loop.raw_induct [where P = ?P, OF _ assms(1)])
    fix loop and ce :: cfi_env and ip end_addr st r
    assume IH: "\<And>ce ip end_addr st r. loop ce ip end_addr st = Some r \<Longrightarrow> ?P ce ip end_addr st r"
      and r: "(if curr_ip st \<le> ip \<and> cfi_addr st < end_addr
        then case cfi_step ce st of Inl e \<Rightarrow> Some (Inl e) | Inr st \<Rightarrow> loop ce ip end_addr st else Some (Inr st)) = Some r"
    show "?P ce ip end_addr st r"
    proof (intro impI)
      assume ok: "init_ok (ce_num_regs ce) (ce_initial ce)" "cfi_ok (ce_num_regs ce) st"
      note p = cfi_step_post [OF ok(2,1)]
      show "postE (cfi_ok (ce_num_regs ce)) r"
      proof (cases "cfi_step ce st")
        case (Inl e)
        from p r ok(2) show ?thesis unfolding Inl by (auto split: if_splits)
      next
        case (Inr st')
        with p r ok IH [of ce ip end_addr st' r] show ?thesis by (auto split: if_splits)
      qed
    qed
  qed
  with assms(2,3) show ?thesis by blast
qed

text \<open>Unless it never ends, a program gives a table of the right shape or an error.\<close>

lemma run_cfi_program_post:
  assumes "init_ok (ce_num_regs ce) (ce_initial ce)" "rs_ok (ce_num_regs ce) rs"
  shows "run_cfi_program ce rs ip addr end_addr = Inl (Fault NoReturn) \<or>
    postE (rs_ok (ce_num_regs ce)) (run_cfi_program ce rs ip addr end_addr)"
proof -
  let ?st = "\<lparr>curr_ip = dci_start_ip (ce_dci ce), cfi_addr = addr, cfi_rs = rs, reg_stack = []\<rparr>"
  have "cfi_ok (ce_num_regs ce) ?st" using assms(2) by (simp add: cfi_ok_def)
  from run_cfi_loop_post [OF _ assms(1) this] show ?thesis
    by (auto simp: run_cfi_program_def cfi_ok_def split: option.splits intro!: postE_bind)
qed

lemma same_regs_ok: "rs_ok n (same_regs n)" and undef_regs_ok: "init_ok n (undef_regs n)"
  by (auto simp: rs_ok_def init_ok_def reg_ok_def same_regs_def undef_regs_def nth_append simp del: replicate_Suc)

lemma parse_fde_regs_post:
  "parse_fde_regs dm is64 gp dci n ip = Inl (Fault NoReturn) \<or> postE (rs_ok n) (parse_fde_regs dm is64 gp dci n ip)"
proof -
  define ce where "ce = \<lparr>ce_mem = dm, ce_is64 = is64, ce_gp = gp, ce_dci = dci, ce_num_regs = n, ce_initial = undef_regs n\<rparr>"
  let ?r = "run_cfi_program ce (same_regs n) (-1) (cie_instr_start dci) (cie_instr_end dci)"
  let ?f = "\<lambda>rs. run_cfi_program (ce\<lparr>ce_initial := rs\<rparr>) rs ip (fde_instr_start dci) (fde_instr_end dci)"
  have r: "?r = Inl (Fault NoReturn) \<or> postE (rs_ok n) ?r"
    using run_cfi_program_post [of ce "same_regs n"] same_regs_ok undef_regs_ok by (simp add: ce_def)
  have f: "?f rs = Inl (Fault NoReturn) \<or> postE (rs_ok n) (?f rs)" if "rs_ok n rs" for rs
    using run_cfi_program_post [of "ce\<lparr>ce_initial := rs\<rparr>" rs] that by (simp add: ce_def rs_ok_def)
  have "parse_fde_regs dm is64 gp dci n ip = bindE ?r ?f" unfolding parse_fde_regs_def Let_def ce_def [symmetric] ..
  with r f show ?thesis by (cases ?r) auto
qed

subsection \<open>The program ends\<close>

text \<open>
  The image is in the lower half of the address space, as in every process, and no block in it is
  longer than that. Then every instruction moves the address up. A block length that wraps around
  would move it back.
\<close>

definition image_ok :: "dwarf_mem \<Rightarrow> bool" where
  "image_ok dm \<longleftrightarrow> (\<forall>a. local_mem dm a \<noteq> None \<longrightarrow> unat a < 2 ^ 63) \<and>
     (\<forall>a v a'. dwarf_read_uleb128 dm Local a = Inr (v, a') \<longrightarrow> unat v < 2 ^ 62)"

definition moves_up :: "ulong \<Rightarrow> ulong \<Rightarrow> bool" where
  "moves_up a a' \<longleftrightarrow> unat a < unat a' \<and> unat a' \<le> 2 ^ 63 + 16"

lemma those_Some_mem: "those xs = Some ys \<Longrightarrow> x \<in> set xs \<Longrightarrow> x \<noteq> None"
  by (induction xs arbitrary: ys) (auto split: option.splits)

lemma read_mem_up:
  assumes "image_ok dm" "read_mem (local_mem dm) a n = Some bs" "0 < n" "n \<le> 8"
  shows "moves_up a (a + of_nat n)"
proof -
  have "local_mem dm (a + of_nat 0) \<in> set (map (\<lambda>i. local_mem dm (a + of_nat i)) [0..<n])" using assms(3) by (auto intro!: image_eqI [of _ _ 0])
  with assms(2) have "local_mem dm a \<noteq> None" unfolding read_mem_def using those_Some_mem by fastforce
  then have "unat a < 2 ^ 63" using assms(1) by (simp add: image_ok_def)
  moreover have "unat (of_nat n :: ulong) = n" using assms(4) by (simp add: unat_of_nat)
  ultimately show ?thesis using assms(3,4) by (simp add: moves_up_def unat_word_ariths)
qed

lemma access_up:
  "image_ok dm \<Longrightarrow> dwarf_access_mem dm Local True a n = Inr bs \<Longrightarrow> 0 < n \<Longrightarrow> n \<le> 8 \<Longrightarrow> moves_up a (a + of_nat n)"
  using read_mem_up by (auto simp: dwarf_access_mem_def split: if_splits option.splits)

lemma reads_up:
  assumes "image_ok dm"
  shows "dwarf_read8 dm Local True a = Inr (v, a') \<Longrightarrow> moves_up a a'" "dwarf_read16 dm Local True a = Inr (v, a') \<Longrightarrow> moves_up a a'"
    "dwarf_read32 dm Local True a = Inr (v, a') \<Longrightarrow> moves_up a a'" "dwarf_read64 dm Local True a = Inr (v, a') \<Longrightarrow> moves_up a a'"
  using access_up [OF assms, of a 1] access_up [OF assms, of a 2] access_up [OF assms, of a 4] access_up [OF assms, of a 8]
  by (auto simp: dwarf_read8_def dwarf_read16_def dwarf_read32_def dwarf_read64_def)

lemma readw_up: "image_ok dm \<Longrightarrow> dwarf_readw dm Local is64 a = Inr (v, a') \<Longrightarrow> moves_up a a'"
  using reads_up by (auto simp: dwarf_readw_def split: if_splits)

lemma moves_up_trans: "moves_up a b \<Longrightarrow> moves_up b c \<Longrightarrow> moves_up a c"
  by (simp add: moves_up_def)

lemma leb128_up:
  "image_ok dm \<Longrightarrow> leb128_loop dm Local a val k = Inr (v, k', b, a') \<Longrightarrow> moves_up a a'"
proof (induction "64 - k" arbitrary: a val k rule: less_induct)
  case less
  from less.prems(2) obtain c a1 where r: "dwarf_read8 dm Local True a = Inr (c, a1)" "k < 64"
      "(if c AND 0x80 \<noteq> 0 then leb128_loop dm Local a1 (val OR push_bit k (c AND 0x7f)) (k + 7)
        else Inr (val OR push_bit k (c AND 0x7f), k + 7, c, a1)) = Inr (v, k', b, a')"
    by (subst (asm) leb128_loop.simps) (auto simp: Let_def split: if_splits)
  note up = reads_up(1) [OF less.prems(1) r(1)]
  show ?case
  proof (cases "c AND 0x80 = 0")
    case True
    then show ?thesis using up r(3) by simp
  next
    case False
    then have "leb128_loop dm Local a1 (val OR push_bit k (c AND 0x7f)) (k + 7) = Inr (v, k', b, a')" using r(3) by simp
    from less.hyps [OF _ less.prems(1) this] r(2) up show ?thesis using moves_up_trans by simp
  qed
qed

lemma lebs_up:
  assumes "image_ok dm"
  shows "dwarf_read_uleb128 dm Local a = Inr (v, a') \<Longrightarrow> moves_up a a'" "dwarf_read_sleb128 dm Local a = Inr (v, a') \<Longrightarrow> moves_up a a'"
  using leb128_up [OF assms] by (fastforce simp: dwarf_read_uleb128_def dwarf_read_sleb128_def)+

lemma format_up:
  assumes "image_ok dm" "read_format dm is64 Local True enc a = Inr (v, a')"
  shows "moves_up a a'"
  using assms(2) reads_up [OF assms(1)] readw_up [OF assms(1)] lebs_up [OF assms(1)]
  by (auto simp: read_format_def Let_def split: if_splits)

lemma and_not_le:
  fixes x m :: ulong
  shows "unat x \<le> unat (x AND NOT m) + unat m"
proof -
  have "(x AND m) + (x AND NOT m) = (x AND m) OR (x AND NOT m)"
    by (rule disjunctive_add) (auto simp: bit_and_iff bit_not_iff)
  also have "\<dots> = x" by (intro bit_word_eqI) (auto simp: bit_and_iff bit_not_iff bit_or_iff)
  finally have "x AND NOT m = x - (x AND m)" by (simp add: algebra_simps)
  moreover have "unat (x - (x AND m)) = unat x - unat (x AND m)" by (rule unat_sub) (rule word_and_le2)
  moreover have "unat (x AND m) \<le> unat m" using word_and_le1 [of x m] by (simp add: word_le_nat_alt)
  ultimately show ?thesis by simp
qed

lemma align_up:
  fixes a :: ulong
  assumes "unat a \<le> 2 ^ 63 + 16" "sz = 8 \<or> sz = 4"
  shows "unat a \<le> unat ((a + sz - 1) AND - sz)"
proof -
  have n: "- sz = NOT (sz - 1)" by (simp add: minus_eq_not_minus_1)
  have "unat (a + sz - 1) = unat a + unat (sz - 1)" using assms by (auto simp: unat_word_ariths)
  with and_not_le [of "a + sz - 1" "sz - 1"] show ?thesis unfolding n by linarith
qed

lemma pointer_up:
  assumes "image_ok dm" "dwarf_read_encoded_pointer_local dm is64 gp True enc start a = Inr (v, a')" "unat a \<le> 2 ^ 63 + 16"
  shows "unat a \<le> unat a' \<and> unat a' \<le> 2 ^ 63 + 16"
proof (cases "enc = DW_EH_PE_omit \<or> enc = 0x50")
  case True
  have w: "unat a \<le> unat b \<and> unat b \<le> 2 ^ 63 + 16"
    if "dwarf_readw dm Local is64 ((a + sz - 1) AND - sz) = Inr (u, b)" "sz = 8 \<or> sz = 4" for sz u b
    using readw_up [OF assms(1) that(1)] align_up [OF assms(3) that(2)] by (simp add: moves_up_def)
  show ?thesis
  proof (cases "enc = DW_EH_PE_omit")
    case True
    with assms(2,3) show ?thesis by (auto simp: dwarf_read_encoded_pointer_local_def dwarf_read_encoded_pointer_def)
  next
    case False
    with True assms(2) obtain u where "dwarf_readw dm Local is64 ((a + (if is64 then 8 else 4) - 1) AND - (if is64 then 8 else 4)) = Inr (u, a')"
      by (auto simp: dwarf_read_encoded_pointer_local_def dwarf_read_encoded_pointer_def Let_def split: sum.splits if_splits)
    from w [OF this] show ?thesis by simp
  qed
next
  case False
  with assms(2) obtain u where "read_format dm is64 Local True enc a = Inr (u, a')"
    by (auto simp: dwarf_read_encoded_pointer_local_def dwarf_read_encoded_pointer_def Let_def split: sum.splits if_splits)
  from format_up [OF assms(1) this] show ?thesis by (simp add: moves_up_def)
qed

lemma regnum_up: "image_ok dm \<Longrightarrow> read_regnum dm n a = Inr (v, a') \<Longrightarrow> moves_up a a'"
  using lebs_up(1) by (auto simp: read_regnum_def Let_def split: if_splits)

text \<open>The address does not move back.\<close>

definition at_or_above :: "ulong \<Rightarrow> cfi \<Rightarrow> bool" where
  "at_or_above a st \<longleftrightarrow> unat a \<le> unat (cfi_addr st)"

lemma put_reg_addr [simp]: "put_reg st i w v a = Inr st' \<Longrightarrow> cfi_addr st' = a"
  by (auto simp: put_reg_def set_reg_def split: if_splits)

lemma skip_block_up:
  assumes "image_ok (ce_mem ce)" "skip_block ce st = Inr st'"
  shows "at_or_above (cfi_addr st) st'"
proof -
  from assms(2) obtain n a where r: "dwarf_read_uleb128 (ce_mem ce) Local (cfi_addr st) = Inr (n, a)" "st' = st\<lparr>cfi_addr := a + n\<rparr>"
    by (auto simp: skip_block_def)
  have "unat n < 2 ^ 62" using assms(1) r(1) unfolding image_ok_def by blast
  with lebs_up(1) [OF assms(1) r(1)] show ?thesis using r(2) by (simp add: moves_up_def at_or_above_def unat_word_ariths)
qed

lemma up_le: "moves_up a b \<Longrightarrow> unat a \<le> unat b"
  by (simp add: moves_up_def)

lemma cfi_regs_up:
  assumes "image_ok (ce_mem ce)" "\<forall>a v a'. rd (ce_mem ce) Local a = Inr (v, a') \<longrightarrow> moves_up a a'"
  shows "cfi_reg_val ce rd f st = Inr st' \<Longrightarrow> at_or_above (cfi_addr st) st'"
    "cfi_def_cfa ce rd f st = Inr st' \<Longrightarrow> at_or_above (cfi_addr st) st'"
    "cfi_def_cfa_offset ce rd f st = Inr st' \<Longrightarrow> at_or_above (cfi_addr st) st'"
  unfolding cfi_reg_val_def cfi_def_cfa_def cfi_def_cfa_offset_def at_or_above_def
  using regnum_up [OF assms(1)] assms(2) by (fastforce dest!: put_reg_addr dest: up_le intro: order_trans)+

lemma cfi_others_up:
  assumes "image_ok (ce_mem ce)"
  shows "cfi_offset ce operand st = Inr st' \<Longrightarrow> at_or_above (cfi_addr st) st'"
    "cfi_register ce st = Inr st' \<Longrightarrow> at_or_above (cfi_addr st) st'"
    "cfi_reg_where ce w st = Inr st' \<Longrightarrow> at_or_above (cfi_addr st) st'"
    "cfi_def_cfa_register ce st = Inr st' \<Longrightarrow> at_or_above (cfi_addr st) st'"
    "cfi_advance ce opc st = Inr st' \<Longrightarrow> at_or_above (cfi_addr st) st'"
  unfolding cfi_offset_def cfi_register_def cfi_reg_where_def cfi_def_cfa_register_def cfi_advance_def at_or_above_def Let_def
  using regnum_up [OF assms] lebs_up(1) [OF assms] reads_up [OF assms]
  by (fastforce dest!: put_reg_addr dest: up_le intro: order_trans split: if_splits)+

lemma cfi_blocks_up:
  assumes "image_ok (ce_mem ce)"
  shows "cfi_expression ce w st = Inr st' \<Longrightarrow> at_or_above (cfi_addr st) st'"
    "cfi_def_cfa_expression ce st = Inr st' \<Longrightarrow> at_or_above (cfi_addr st) st'"
  unfolding cfi_expression_def cfi_def_cfa_expression_def
  using regnum_up [OF assms] skip_block_up [OF assms]
  by (fastforce simp: at_or_above_def dest!: put_reg_addr dest: up_le intro: order_trans)+

lemma restore_up: "restore_reg ce st n a = Inr st' \<Longrightarrow> unat (cfi_addr st) \<le> unat a \<Longrightarrow> at_or_above (cfi_addr st) st'"
  by (auto simp: restore_reg_def at_or_above_def Let_def dest!: put_reg_addr split: if_splits)

lemma cfi_plain_up:
  assumes "image_ok (ce_mem ce)" "unat (cfi_addr st) \<le> 2 ^ 63 + 16"
  shows "bindE (dwarf_read_uleb128 (ce_mem ce) Local (cfi_addr st)) (\<lambda>(n, a). restore_reg ce st n a) = Inr st' \<Longrightarrow> at_or_above (cfi_addr st) st'"
    "bindE (dwarf_read_uleb128 (ce_mem ce) Local (cfi_addr st)) (\<lambda>(_, a). Inr (st\<lparr>cfi_addr := a\<rparr>)) = Inr st' \<Longrightarrow> at_or_above (cfi_addr st) st'"
    "bindE (dwarf_read_encoded_pointer_local (ce_mem ce) is64 gp True enc start (cfi_addr st)) (\<lambda>(ip, a). Inr (st\<lparr>curr_ip := ip, cfi_addr := a\<rparr>)) = Inr st' \<Longrightarrow>
      at_or_above (cfi_addr st) st'"
    "restore_reg ce st n (cfi_addr st) = Inr st' \<Longrightarrow> at_or_above (cfi_addr st) st'"
    "cfi_remember st = Inr st' \<Longrightarrow> at_or_above (cfi_addr st) st'" "cfi_restore_state st = Inr st' \<Longrightarrow> at_or_above (cfi_addr st) st'"
  using lebs_up(1) [OF assms(1)] pointer_up [OF assms(1) _ assms(2)] restore_up
  by (fastforce simp: at_or_above_def cfi_remember_def cfi_restore_state_def dest: up_le split: if_splits list.splits)+

definition upE :: "ulong \<Rightarrow> cfi dres \<Rightarrow> bool" where
  "upE a r \<longleftrightarrow> (\<forall>st'. r = Inr st' \<longrightarrow> at_or_above a st')"

lemma cfi_exec_up:
  assumes "image_ok (ce_mem ce)" "unat (cfi_addr st) \<le> 2 ^ 63 + 16"
  shows "upE (cfi_addr st) (cfi_exec ce opc operand st)"
proof -
  let ?up = "upE (cfi_addr st)"
  have v: "?up (cfi_reg_val ce dwarf_read_uleb128 f st)" "?up (cfi_def_cfa ce dwarf_read_uleb128 f st)"
      "?up (cfi_def_cfa_offset ce dwarf_read_uleb128 f st)" "?up (cfi_reg_val ce dwarf_read_sleb128 f st)"
      "?up (cfi_def_cfa ce dwarf_read_sleb128 f st)" "?up (cfi_def_cfa_offset ce dwarf_read_sleb128 f st)" for f
    unfolding upE_def by (blast intro: cfi_regs_up [OF assms(1)] lebs_up [OF assms(1)])+
  have o: "?up (cfi_offset ce operand st)" "?up (cfi_register ce st)" "?up (cfi_reg_where ce w st)"
      "?up (cfi_def_cfa_register ce st)" "?up (cfi_advance ce opc st)" "?up (cfi_expression ce w st)"
      "?up (cfi_def_cfa_expression ce st)" for w
    using cfi_others_up [OF assms(1)] cfi_blocks_up [OF assms(1)] unfolding upE_def by blast+
  have p: "?up (bindE (dwarf_read_uleb128 (ce_mem ce) Local (cfi_addr st)) (\<lambda>(n, a). restore_reg ce st n a))"
      "?up (bindE (dwarf_read_uleb128 (ce_mem ce) Local (cfi_addr st)) (\<lambda>(_, a). Inr (st\<lparr>cfi_addr := a\<rparr>)))"
      "?up (bindE (dwarf_read_encoded_pointer_local (ce_mem ce) is64 gp True enc start (cfi_addr st)) (\<lambda>(ip, a). Inr (st\<lparr>curr_ip := ip, cfi_addr := a\<rparr>)))"
      "?up (restore_reg ce st n (cfi_addr st))" "?up (cfi_remember st)" "?up (cfi_restore_state st)" for is64 gp enc start n
    using cfi_plain_up [OF assms] unfolding upE_def by blast+
  have e: "?up (Inl e)" "?up (Inr st)" "?up (Inr (st\<lparr>curr_ip := i\<rparr>))" for e i by (simp_all add: upE_def at_or_above_def)
  show ?thesis unfolding cfi_exec_def Let_def by (simp add: v o p e)
qed

theorem cfi_step_up:
  assumes "image_ok (ce_mem ce)" "cfi_step ce st = Inr st'"
  shows "unat (cfi_addr st) < unat (cfi_addr st')"
proof -
  from assms(2) obtain b a opc operand where r: "dwarf_read8 (ce_mem ce) Local True (cfi_addr st) = Inr (b, a)"
      "cfi_exec ce opc operand (st\<lparr>cfi_addr := a\<rparr>) = Inr st'"
    by (auto simp: cfi_step_def Let_def split: if_splits)
  have up: "moves_up (cfi_addr st) a" by (rule reads_up(1) [OF assms(1) r(1)])
  with cfi_exec_up [OF assms(1), of "st\<lparr>cfi_addr := a\<rparr>" opc operand] r(2) have "at_or_above a st'"
    by (simp add: upE_def moves_up_def)
  with up show ?thesis by (simp add: moves_up_def at_or_above_def)
qed

lemma run_cfi_loop_returns:
  "image_ok (ce_mem ce) \<Longrightarrow> \<exists>r. run_cfi_loop ce ip end_addr st = Some r"
proof (induction "2 ^ 64 - unat (cfi_addr st)" arbitrary: st rule: less_induct)
  case less
  show ?case
  proof (cases "cfi_step ce st")
    case (Inl e)
    then show ?thesis by (subst run_cfi_loop.simps) simp
  next
    case (Inr st')
    have "unat (cfi_addr st) < 2 ^ 64" using unsigned_less [of "cfi_addr st", where 'a = nat] by simp
    moreover have "unat (cfi_addr st) < unat (cfi_addr st')" by (rule cfi_step_up [OF less.prems Inr])
    ultimately have "2 ^ 64 - unat (cfi_addr st') < 2 ^ 64 - unat (cfi_addr st)" by linarith
    from less.hyps [OF this less.prems] Inr show ?thesis by (subst run_cfi_loop.simps) simp
  qed
qed

lemma run_cfi_program_returns:
  assumes "image_ok (ce_mem ce)" "init_ok (ce_num_regs ce) (ce_initial ce)" "rs_ok (ce_num_regs ce) rs"
  shows "postE (rs_ok (ce_num_regs ce)) (run_cfi_program ce rs ip addr end_addr)"
proof -
  let ?st = "\<lparr>curr_ip = dci_start_ip (ce_dci ce), cfi_addr = addr, cfi_rs = rs, reg_stack = []\<rparr>"
  obtain r where r: "run_cfi_loop ce ip end_addr ?st = Some r" using run_cfi_loop_returns [OF assms(1)] by blast
  have "cfi_ok (ce_num_regs ce) ?st" using assms(3) by (simp add: cfi_ok_def)
  from run_cfi_loop_post [OF r assms(2) this] r show ?thesis
    by (auto simp: run_cfi_program_def cfi_ok_def intro!: postE_bind)
qed

theorem parse_fde_regs_returns:
  assumes "image_ok dm"
  shows "postE (rs_ok n) (parse_fde_regs dm is64 gp dci n ip)"
  unfolding parse_fde_regs_def Let_def
proof (rule postE_bind)
  let ?ce = "\<lparr>ce_mem = dm, ce_is64 = is64, ce_gp = gp, ce_dci = dci, ce_num_regs = n, ce_initial = undef_regs n\<rparr>"
  show "postE (rs_ok n) (run_cfi_program ?ce (same_regs n) (-1) (cie_instr_start dci) (cie_instr_end dci))"
    using run_cfi_program_returns [of ?ce "same_regs n"] assms same_regs_ok undef_regs_ok by simp
  show "postE (rs_ok n) (run_cfi_program (?ce\<lparr>ce_initial := rs\<rparr>) rs ip (fde_instr_start dci) (fde_instr_end dci))" if "rs_ok n rs" for rs
    using run_cfi_program_returns [of "?ce\<lparr>ce_initial := rs\<rparr>" rs] assms that by (simp add: rs_ok_def)
qed

end
