(* ===== verification/Dwarf_Expr.thy ===== *)
theory Dwarf_Expr
  imports Dwarf_Cfi "HOL-Library.Signed_Division"
begin

text \<open>
  The cursor of \<open>dwarf.h\<close>, the access to the registers of a frame and the location expressions of
  \<open>dwarf.c\<close> with the register numbers of x86 (\<open>dwarf-x86.c\<close>). The expression stack is a list from its
  bottom up, as the array is. Reading an entry of the array above the top of the stack is a fault.
\<close>

subsection \<open>The cursor\<close>

datatype loc_type = DWARF_LOC_TYPE_MEM | DWARF_LOC_TYPE_REG | DWARF_LOC_TYPE_VAL

record dwarf_loc =
  dl_val :: ulong
  dl_type :: loc_type

definition DWARF_LOC :: "ulong \<Rightarrow> loc_type \<Rightarrow> dwarf_loc" where
  "DWARF_LOC r t = \<lparr>dl_val = r, dl_type = t\<rparr>"

definition DWARF_NULL_LOC :: dwarf_loc where "DWARF_NULL_LOC = DWARF_LOC 0 DWARF_LOC_TYPE_MEM"

definition DWARF_IS_NULL_LOC :: "dwarf_loc \<Rightarrow> bool" where
  "DWARF_IS_NULL_LOC l \<longleftrightarrow> dl_val l = 0 \<and> dl_type l = DWARF_LOC_TYPE_MEM"

record dwarf_cursor =
  c_cfa :: ulong
  c_ip :: ulong
  c_ret_addr_column :: ulong
  c_use_prev_instr :: bool
  c_valid :: bool
  c_libref :: "libref option"
  c_dci :: dwarf_cie_info
  c_loc :: "dwarf_loc list"

record dwarf_addr_space =
  as_is_64bit :: bool
  as_cursor :: dwarf_cursor
  as_ip_reg :: nat
  as_ret_reg :: nat
  as_num_regs :: nat

text \<open>The world of the unwinder: memory, the registers of the stopped thread and the libraries of its process.\<close>

record dwarf_env =
  de_mem :: dwarf_mem
  de_regs :: reg_context
  de_libs :: leader_libs

definition DWARF_ADDR_SIZE :: "dwarf_addr_space \<Rightarrow> nat" where
  "DWARF_ADDR_SIZE as = (if as_is_64bit as then 8 else 4)"

definition dwarf_get_ip :: "dwarf_addr_space \<Rightarrow> ulong" where
  "dwarf_get_ip as = (if \<not> c_valid (as_cursor as) then 0 else c_ip (as_cursor as))"

definition dwarf_location_type :: "dwarf_addr_space \<Rightarrow> int" where
  "dwarf_location_type as = (case c_libref (as_cursor as) of None \<Rightarrow> -1 | Some lr \<Rightarrow> uint (lr_type lr))"

subsection \<open>Registers\<close>

definition dwarf_to_regnum_map32 :: "x86_reg list" where
  "dwarf_to_regnum_map32 = [RAX, RCX, RDX, RBX, RSP, RBP, RSI, RDI, RIP]"

definition dwarf_to_regnum_map64 :: "x86_reg list" where
  "dwarf_to_regnum_map64 = [RAX, RDX, RCX, RBX, RSI, RDI, RBP, RSP, R8, R9, R10, R11, R12, R13, R14, R15, RIP]"

definition dwarf_arch_map_reg :: "dwarf_addr_space \<Rightarrow> nat \<Rightarrow> x86_reg dres" where
  "dwarf_arch_map_reg as reg =
     (let m = (if as_is_64bit as then dwarf_to_regnum_map64 else dwarf_to_regnum_map32) in
      if reg \<ge> length m then Inl (Dw DWARF_EBADREG) else Inr (m ! reg))"

definition dwarf_access_reg :: "dwarf_env \<Rightarrow> dwarf_addr_space \<Rightarrow> nat \<Rightarrow> ulong dres" where
  "dwarf_access_reg env as reg = bindE (dwarf_arch_map_reg as reg) (\<lambda>m. Inr (fetch_reg (de_regs env) m))"

definition dwarf_get :: "dwarf_env \<Rightarrow> dwarf_addr_space \<Rightarrow> dwarf_loc \<Rightarrow> ulong dres" where
  "dwarf_get env as loc =
     (let addr = dl_val loc in
      if dl_type loc = DWARF_LOC_TYPE_REG then dwarf_access_reg env as (unat (ucast addr :: u32))
      else
        let addr = (if \<not> as_is_64bit as then addr AND 0xffffffff else addr) in
        if dl_type loc = DWARF_LOC_TYPE_MEM
        then bindE (dwarf_readw (de_mem env) Proc (as_is_64bit as) addr) (\<lambda>(v, _). Inr v)
        else Inr addr)"

definition dwarf_get_reg :: "dwarf_env \<Rightarrow> dwarf_addr_space \<Rightarrow> nat \<Rightarrow> ulong dres" where
  "dwarf_get_reg env as reg =
     (if reg \<ge> as_num_regs as then Inl (Dw DWARF_EBADREG)
      else if as_ip_reg as = reg then Inr (c_ip (as_cursor as))
      else if as_ret_reg as = reg then Inr (c_cfa (as_cursor as))
      else if reg < length (c_loc (as_cursor as)) then dwarf_get env as (c_loc (as_cursor as) ! reg)
      else Inl (Fault OutOfBounds))"

subsection \<open>Operands\<close>

definition sword :: "dwarf_addr_space \<Rightarrow> ulong \<Rightarrow> int" where
  "sword as val = (if as_is_64bit as then sint val else sint (ucast val :: u32))"

datatype operand = VAL8 | VAL16 | VAL32 | VAL64 | ULEB128 | SLEB128 | OFFSET | ADDR

text \<open>The operands of an opcode; \<open>DW_OP_constu\<close> and \<open>DW_OP_consts\<close> have no entry in the table.\<close>

definition dwarf_operands :: "u8 \<Rightarrow> operand list" where
  "dwarf_operands opc =
     (if opc = 0x03 then [ADDR]
      else if opc = 0x08 \<or> opc = 0x09 then [VAL8]
      else if opc = 0x0a \<or> opc = 0x0b then [VAL16]
      else if opc = 0x0c \<or> opc = 0x0d then [VAL32]
      else if opc = 0x0e \<or> opc = 0x0f then [VAL64]
      else if opc = 0x15 then [VAL8]
      else if opc = 0x23 then [ULEB128]
      else if opc = 0x2f \<or> opc = 0x28 then [VAL16]
      else if 0x70 \<le> opc \<and> opc \<le> 0x8f then [SLEB128]
      else if opc = 0x90 then [ULEB128]
      else if opc = 0x91 then [SLEB128]
      else if opc = 0x92 then [ULEB128, SLEB128]
      else if opc = 0x93 then [ULEB128]
      else if opc = 0x94 \<or> opc = 0x95 then [VAL8]
      else if opc = 0x98 then [VAL16]
      else if opc = 0x99 then [VAL32]
      else if opc = 0x9a then [OFFSET]
      else [])"

definition read_operand :: "dwarf_env \<Rightarrow> dwarf_addr_space \<Rightarrow> operand \<Rightarrow> ulong \<Rightarrow> (ulong \<times> ulong) dres" where
  "read_operand env as ty addr =
     (let ty = (if ty = ADDR then (if as_is_64bit as then VAL64 else VAL32) else ty); dm = de_mem env in
      case ty of
        VAL8 \<Rightarrow> dwarf_read8 dm Local True addr
      | VAL16 \<Rightarrow> dwarf_read16 dm Local True addr
      | VAL32 \<Rightarrow> dwarf_read32 dm Local True addr
      | VAL64 \<Rightarrow> dwarf_read64 dm Local True addr
      | ULEB128 \<Rightarrow> dwarf_read_uleb128 dm Local addr
      | SLEB128 \<Rightarrow> dwarf_read_sleb128 dm Local addr
      | _ \<Rightarrow> Inl (Dw DWARF_EINVAL))"

subsection \<open>The stack\<close>

text \<open>The operands stay from one opcode to the next.\<close>

record expr =
  ex_addr :: ulong
  ex_stack :: "ulong list"
  operand1 :: ulong
  operand2 :: ulong

definition MAX_EXPR_STACK_SIZE :: nat where "MAX_EXPR_STACK_SIZE = 64"

definition pop :: "expr \<Rightarrow> (ulong \<times> expr) dres" where
  "pop st =
     (let tos = (of_nat (length (ex_stack st)) :: u32) in
      if unat (tos - 1) \<ge> MAX_EXPR_STACK_SIZE then Inl (Dw DWARF_EINVAL)
      else if unat (tos - 1) < length (ex_stack st)
      then Inr (ex_stack st ! unat (tos - 1), st\<lparr>ex_stack := butlast (ex_stack st)\<rparr>)
      else Inl (Fault OutOfBounds))"

definition push :: "ulong \<Rightarrow> expr \<Rightarrow> expr dres" where
  "push x st =
     (if length (ex_stack st) \<ge> MAX_EXPR_STACK_SIZE then Inl (Dw DWARF_EINVAL)
      else Inr (st\<lparr>ex_stack := ex_stack st @ [x]\<rparr>))"

definition pick :: "ulong \<Rightarrow> expr \<Rightarrow> ulong dres" where
  "pick n st =
     (let index = (ucast (of_nat (length (ex_stack st)) - 1 - n) :: u32) in
      if unat index \<ge> MAX_EXPR_STACK_SIZE then Inl (Dw DWARF_EINVAL)
      else if unat index < length (ex_stack st) then Inr (ex_stack st ! unat index)
      else Inl (Fault OutOfBounds))"

text \<open>Operators on the top of the stack and on the two uppermost entries, \<open>f tmp2 tmp1\<close> with \<open>tmp1\<close> on top.\<close>

definition unop :: "(ulong \<Rightarrow> ulong dres) \<Rightarrow> expr \<Rightarrow> expr dres" where
  "unop f st = bindE (pop st) (\<lambda>(tmp1, st). bindE (f tmp1) (\<lambda>v. push v st))"

definition binop :: "(ulong \<Rightarrow> ulong \<Rightarrow> ulong dres) \<Rightarrow> expr \<Rightarrow> expr dres" where
  "binop f st =
     bindE (pop st) (\<lambda>(tmp1, st). bindE (pop st) (\<lambda>(tmp2, st). bindE (f tmp2 tmp1) (\<lambda>v. push v st)))"

definition of_cond :: "bool \<Rightarrow> ulong" where
  "of_cond b = (if b then 1 else 0)"

subsection \<open>The operators\<close>

definition op_div :: "dwarf_addr_space \<Rightarrow> ulong \<Rightarrow> ulong \<Rightarrow> ulong dres" where
  "op_div as tmp2 tmp1 =
     (if tmp1 = 0 then Inr tmp1
      else if sword as tmp1 = 0 \<or> (sword as tmp2 = - (2 ^ 63) \<and> sword as tmp1 = -1) then Inl (Fault DivisionFault)
      else Inr (of_int (sword as tmp2 sdiv sword as tmp1)))"

definition op_shift :: "(nat \<Rightarrow> ulong) \<Rightarrow> ulong \<Rightarrow> ulong dres" where
  "op_shift f n = (if unat n \<ge> 64 then Inl (Fault UndefinedShift) else Inr (f (unat n)))"

definition op_abs :: "dwarf_addr_space \<Rightarrow> ulong \<Rightarrow> ulong" where
  "op_abs as v = (if bit v (8 * DWARF_ADDR_SIZE as - 1) then - v else v)"

text \<open>
  \<open>DW_OP_deref_size\<close>: the macro of the test for the byte order of three bytes is not one the compiler
  defines, so the branch for the other order is built; the mask for five to seven bytes keeps the
  bytes above.
\<close>

definition deref_size :: "dwarf_env \<Rightarrow> ulong \<Rightarrow> ulong \<Rightarrow> ulong dres" where
  "deref_size env n a =
     (let dm = de_mem env in
      if n = 1 then bindE (dwarf_read8 dm Proc True a) (\<lambda>(v, _). Inr v)
      else if n = 2 then bindE (dwarf_read16 dm Proc True a) (\<lambda>(v, _). Inr v)
      else if n = 3 \<or> n = 4 then
        bindE (dwarf_read32 dm Proc True a) (\<lambda>(v, _). Inr (if n = 3 then drop_bit 8 v else v))
      else if n = 5 \<or> n = 6 \<or> n = 7 \<or> n = 8 then
        bindE (dwarf_read64 dm Proc True a) (\<lambda>(v, _). Inr (if n \<noteq> 8 then v AND push_bit (8 * unat n) (-1) else v))
      else Inl (Dw DWARF_EINVAL))"

definition expr_binary :: "dwarf_addr_space \<Rightarrow> u8 \<Rightarrow> (ulong \<Rightarrow> ulong \<Rightarrow> ulong dres) option" where
  "expr_binary as opc =
     (let cmp = (\<lambda>f. Some (\<lambda>t2 t1. Inr (of_cond (f (sword as t2) (sword as t1))))) in
      if opc = 0x1a then Some (\<lambda>t2 t1. Inr (t1 AND t2))
      else if opc = 0x1b then Some (op_div as)
      else if opc = 0x1c then Some (\<lambda>t2 t1. Inr (t2 - t1))
      else if opc = 0x1d then Some (\<lambda>t2 t1. Inr (if t1 \<noteq> 0 then t2 mod t1 else t1))
      else if opc = 0x1e then Some (\<lambda>t2 t1. Inr (if t1 \<noteq> 0 then t2 * t1 else t1))
      else if opc = 0x21 then Some (\<lambda>t2 t1. Inr (t1 OR t2))
      else if opc = 0x22 then Some (\<lambda>t2 t1. Inr (t1 + t2))
      else if opc = 0x24 then Some (\<lambda>t2 t1. op_shift (\<lambda>n. push_bit n t2) t1)
      else if opc = 0x25 then Some (\<lambda>t2 t1. op_shift (\<lambda>n. drop_bit n t2) t1)
      else if opc = 0x26 then Some (\<lambda>t2 t1. op_shift (\<lambda>n. of_int (drop_bit n (sword as t2))) t1)
      else if opc = 0x27 then Some (\<lambda>t2 t1. Inr (t1 XOR t2))
      else if opc = 0x2c then cmp (\<le>)
      else if opc = 0x2a then cmp (\<ge>)
      else if opc = 0x29 then cmp (=)
      else if opc = 0x2d then cmp (<)
      else if opc = 0x2b then cmp (>)
      else if opc = 0x2e then cmp (\<noteq>)
      else None)"

definition expr_unary :: "dwarf_env \<Rightarrow> dwarf_addr_space \<Rightarrow> u8 \<Rightarrow> expr \<Rightarrow> (ulong \<Rightarrow> ulong dres) option" where
  "expr_unary env as opc st =
     (if opc = 0x06 then Some (\<lambda>t1. bindE (dwarf_readw (de_mem env) Proc (as_is_64bit as) t1) (\<lambda>(v, _). Inr v))
      else if opc = 0x94 then Some (deref_size env (operand1 st))
      else if opc = 0x19 then Some (\<lambda>t1. Inr (op_abs as t1))
      else if opc = 0x1f then Some (\<lambda>t1. Inr (- t1))
      else if opc = 0x20 then Some (\<lambda>t1. Inr (NOT t1))
      else if opc = 0x23 then Some (\<lambda>t1. Inr (t1 + operand1 st))
      else None)"

text \<open>The constants, which only push a value; \<open>DW_OP_const1s\<close> and its kin extend the sign in the operand itself.\<close>

definition sign_extend :: "nat \<Rightarrow> expr \<Rightarrow> expr" where
  "sign_extend n st =
     (if bit (operand1 st) (n - 1) then st\<lparr>operand1 := operand1 st OR push_bit n (-1)\<rparr> else st)"

definition expr_const :: "u8 \<Rightarrow> expr \<Rightarrow> expr option" where
  "expr_const opc st =
     (if opc = 0x03 \<or> opc = 0x08 \<or> opc = 0x0a \<or> opc = 0x0c \<or> opc = 0x0e \<or> opc = 0x10 \<or> opc = 0x0f \<or> opc = 0x11 then Some st
      else if opc = 0x09 then Some (sign_extend 8 st)
      else if opc = 0x0b then Some (sign_extend 16 st)
      else if opc = 0x0d then Some (sign_extend 32 st)
      else None)"

definition expr_stack_op :: "u8 \<Rightarrow> expr \<Rightarrow> expr dres option" where
  "expr_stack_op opc st =
     (if opc = 0x12 then Some (bindE (pick 0 st) (\<lambda>v. push v st))
      else if opc = 0x13 then Some (bindE (pop st) (\<lambda>(_, st). Inr st))
      else if opc = 0x15 then Some (bindE (pick (operand1 st) st) (\<lambda>v. push v st))
      else if opc = 0x14 then Some (bindE (pick 1 st) (\<lambda>v. push v st))
      else if opc = 0x16 then
        Some (bindE (pop st) (\<lambda>(tmp1, st). bindE (pop st) (\<lambda>(tmp2, st). bindE (push tmp1 st) (push tmp2))))
      else if opc = 0x17 then
        Some (bindE (pop st) (\<lambda>(tmp1, st). bindE (pop st) (\<lambda>(tmp2, st). bindE (pop st) (\<lambda>(tmp3, st).
                bindE (push tmp1 st) (\<lambda>st. bindE (push tmp3 st) (push tmp2))))))
      else None)"

text \<open>The \<open>switch\<close>: the state for the next opcode, or the location a register opcode returns.\<close>

definition expr_exec :: "dwarf_env \<Rightarrow> dwarf_addr_space \<Rightarrow> u8 \<Rightarrow> expr \<Rightarrow> (expr + dwarf_loc) dres" where
  "expr_exec env as opc st =
     (let go = (\<lambda>r. bindE r (\<lambda>st. Inr (Inl st))) in
      if 0x30 \<le> opc \<and> opc \<le> 0x4f then go (push (ucast (opc - 0x30)) st)
      else if 0x70 \<le> opc \<and> opc \<le> 0x8f then
        go (bindE (dwarf_get_reg env as (unat (dwarf_to_regnum (ucast (opc - 0x70))))) (\<lambda>tmp1. push (tmp1 + operand1 st) st))
      else if opc = 0x92 then
        go (bindE (dwarf_get_reg env as (unat (dwarf_to_regnum (operand1 st)))) (\<lambda>tmp1. push (tmp1 + operand2 st) st))
      else if 0x50 \<le> opc \<and> opc \<le> 0x6f then Inr (Inr (DWARF_LOC (ucast (opc - 0x50)) DWARF_LOC_TYPE_REG))
      else if opc = 0x90 then Inr (Inr (DWARF_LOC (operand1 st) DWARF_LOC_TYPE_REG))
      else case expr_const opc st of
        Some st \<Rightarrow> go (push (operand1 st) st)
      | None \<Rightarrow>
        (case expr_unary env as opc st of
           Some f \<Rightarrow> go (unop f st)
         | None \<Rightarrow>
           (case expr_binary as opc of
              Some f \<Rightarrow> go (binop f st)
            | None \<Rightarrow>
              (case expr_stack_op opc st of
                 Some r \<Rightarrow> go r
               | None \<Rightarrow>
                   if opc = 0x2f then Inr (Inl (st\<lparr>ex_addr := ex_addr st + s16 (operand1 st)\<rparr>))
                   else if opc = 0x28 then
                     go (bindE (pop st) (\<lambda>(tmp1, st).
                       Inr (if tmp1 \<noteq> 0 then st\<lparr>ex_addr := ex_addr st + s16 (operand1 st)\<rparr> else st)))
                   else if opc = 0x96 then Inr (Inl st)
                   else Inl (Dw DWARF_EINVAL)))))"

definition read_operands :: "dwarf_env \<Rightarrow> dwarf_addr_space \<Rightarrow> operand list \<Rightarrow> expr \<Rightarrow> expr dres" where
  "read_operands env as tys st =
     (case tys of
        [] \<Rightarrow> Inr st
      | t1 # ts \<Rightarrow>
          bindE (read_operand env as t1 (ex_addr st)) (\<lambda>(v1, addr).
            let st = st\<lparr>operand1 := v1, ex_addr := addr\<rparr> in
            case ts of
              [] \<Rightarrow> Inr st
            | t2 # _ \<Rightarrow> bindE (read_operand env as t2 addr) (\<lambda>(v2, addr). Inr (st\<lparr>operand2 := v2, ex_addr := addr\<rparr>))))"

definition expr_step :: "dwarf_env \<Rightarrow> dwarf_addr_space \<Rightarrow> expr \<Rightarrow> (expr + dwarf_loc) dres" where
  "expr_step env as st =
     bindE (dwarf_read8 (de_mem env) Local True (ex_addr st)) (\<lambda>(opc, addr).
     bindE (read_operands env as (dwarf_operands (ucast opc)) (st\<lparr>ex_addr := addr\<rparr>)) (expr_exec env as (ucast opc)))"

partial_function (option) eval_loop :: "dwarf_env \<Rightarrow> dwarf_addr_space \<Rightarrow> ulong \<Rightarrow> expr \<Rightarrow> (expr + dwarf_loc) dres option" where
  "eval_loop env as end_addr st =
     (if ex_addr st < end_addr then
        (case expr_step env as st of
           Inr (Inl st) \<Rightarrow> eval_loop env as end_addr st
         | r \<Rightarrow> Some r)
      else Some (Inr (Inl st)))"

definition dwarf_eval_expr :: "dwarf_env \<Rightarrow> dwarf_addr_space \<Rightarrow> ulong \<Rightarrow> dwarf_loc dres" where
  "dwarf_eval_expr env as addr =
     bindE (dwarf_read_uleb128 (de_mem env) Local addr) (\<lambda>(len, addr).
     bindE (push (c_cfa (as_cursor as)) \<lparr>ex_addr = addr, ex_stack = [], operand1 = 0, operand2 = 0\<rparr>) (\<lambda>st.
       case eval_loop env as (addr + len) st of
         None \<Rightarrow> Inl (Fault NoReturn)
       | Some r \<Rightarrow>
           bindE r (\<lambda>out. case out of
             Inr loc \<Rightarrow> Inr loc
           | Inl st \<Rightarrow> bindE (pop st) (\<lambda>(val, _). Inr (DWARF_LOC val DWARF_LOC_TYPE_MEM)))))"

subsection \<open>No expression leaves its stack\<close>

definition locs_ok :: "dwarf_addr_space \<Rightarrow> bool" where
  "locs_ok as \<longleftrightarrow> length (c_loc (as_cursor as)) = as_num_regs as"

definition stack_ok :: "expr \<Rightarrow> bool" where
  "stack_ok st \<longleftrightarrow> length (ex_stack st) \<le> MAX_EXPR_STACK_SIZE"

lemma stack_ok_fields [simp]:
  "stack_ok (st\<lparr>ex_addr := a\<rparr>) = stack_ok st" "stack_ok (st\<lparr>operand1 := v\<rparr>) = stack_ok st" "stack_ok (st\<lparr>operand2 := v\<rparr>) = stack_ok st"
  by (simp_all add: stack_ok_def)

lemma top_index:
  assumes "n \<le> MAX_EXPR_STACK_SIZE"
  shows "unat (of_nat n - 1 :: u32) = (if n = 0 then 2 ^ 32 - 1 else n - 1)"
proof (cases n)
  case (Suc m)
  then have "(of_nat n - 1 :: u32) = of_nat m" by simp
  then show ?thesis using assms Suc by (simp add: unat_of_nat MAX_EXPR_STACK_SIZE_def)
qed (simp add: unsigned_minus_1_eq_mask mask_eq_exp_minus_1)

lemma pop_eq:
  assumes "stack_ok st"
  shows "pop st = (if ex_stack st = [] then Inl (Dw DWARF_EINVAL) else Inr (last (ex_stack st), st\<lparr>ex_stack := butlast (ex_stack st)\<rparr>))"
  using top_index [of "length (ex_stack st)"] assms
  by (auto simp: pop_def Let_def stack_ok_def MAX_EXPR_STACK_SIZE_def last_conv_nth)

lemma pop_post: "stack_ok st \<Longrightarrow> postE (\<lambda>(_, st'). stack_ok st') (pop st)"
  by (auto simp: pop_eq) (auto simp: stack_ok_def)

lemma push_post: "postE stack_ok (push v st)"
  by (auto simp: push_def stack_ok_def)

lemma pick_index:
  fixes n :: ulong
  assumes "l \<le> 64" "unat n < 256"
  shows "unat (ucast (of_nat l - 1 - n) :: u32) = (if unat n < l then l - 1 - unat n else 2 ^ 32 - (unat n + 1 - l))"
proof -
  define v where "v = 2 ^ 64 + l - 1 - unat n"
  have "v + Suc (unat n) = 2 ^ 64 + l" using assms by (simp add: v_def)
  then have "of_nat (v + Suc (unat n)) = (of_nat (2 ^ 64 + l) :: ulong)" by (simp only:)
  also have "\<dots> = of_nat l" by (simp add: word_unat_eq_iff unat_of_nat del: of_nat_add)
  finally have "of_nat l - 1 - n = (of_nat v :: ulong)" by (simp add: algebra_simps)
  then have "unat (ucast (of_nat l - 1 - n) :: u32) = v mod 2 ^ 64 mod 2 ^ 32"
    by (simp add: unsigned_ucast_eq unat_of_nat take_bit_eq_mod unat_mod)
  also have "\<dots> = v mod 2 ^ 32" by (simp add: mod_mod_cancel)
  also have "\<dots> = (if unat n < l then l - 1 - unat n else 2 ^ 32 - (unat n + 1 - l))"
  proof (cases "unat n < l")
    case True
    then have "v = (l - 1 - unat n) + 2 ^ 32 * 2 ^ 32" by (simp add: v_def)
    then have "v mod 2 ^ 32 = (l - 1 - unat n) mod 2 ^ 32" by (metis mod_mult_self2)
    then show ?thesis using True assms(1) by simp
  next
    case False
    then have "v = (2 ^ 32 - (unat n + 1 - l)) + 2 ^ 32 * (2 ^ 32 - 1)" using assms by (simp add: v_def)
    then have "v mod 2 ^ 32 = (2 ^ 32 - (unat n + 1 - l)) mod 2 ^ 32" by (metis mod_mult_self2)
    then show ?thesis using False by simp
  qed
  finally show ?thesis .
qed

lemma pick_eq:
  assumes "stack_ok st" "unat n < 256"
  shows "pick n st = (if unat n < length (ex_stack st) then Inr (ex_stack st ! (length (ex_stack st) - 1 - unat n)) else Inl (Dw DWARF_EINVAL))"
proof -
  have "length (ex_stack st) \<le> 64" using assms(1) by (simp add: stack_ok_def MAX_EXPR_STACK_SIZE_def)
  with pick_index [OF this assms(2)] assms(2) show ?thesis
    by (cases "unat n < length (ex_stack st)") (auto simp: pick_def Let_def MAX_EXPR_STACK_SIZE_def)
qed

lemma get_post: "postE (\<lambda>_. True) (dwarf_get env as loc)"
proof -
  have "postE (\<lambda>_. True) (dwarf_arch_map_reg as r)" for r by (simp add: dwarf_arch_map_reg_def Let_def)
  then have "postE (\<lambda>_. True) (dwarf_access_reg env as r)" for r
    unfolding dwarf_access_reg_def by (rule postE_bind) simp
  then show ?thesis by (auto simp: dwarf_get_def Let_def intro!: postE_bind [OF readw_post])
qed

lemma get_reg_post: "locs_ok as \<Longrightarrow> postE (\<lambda>_. True) (dwarf_get_reg env as reg)"
  using get_post by (simp add: dwarf_get_reg_def locs_ok_def)

lemma read_operand_post: "postE (\<lambda>_. True) (read_operand env as ty addr)"
  by (auto simp: read_operand_def Let_def split: operand.splits)

lemma unop_post: "stack_ok st \<Longrightarrow> (\<And>v. postE (\<lambda>_. True) (f v)) \<Longrightarrow> postE stack_ok (unop f st)"
  unfolding unop_def by (rule postE_bind [OF pop_post]) (auto intro!: push_post postE_bind [where Q = "\<lambda>_. True"])

lemma binop_post: "stack_ok st \<Longrightarrow> (\<And>v w. postE (\<lambda>_. True) (f v w)) \<Longrightarrow> postE stack_ok (binop f st)"
  unfolding binop_def
  by (rule postE_bind [OF pop_post], assumption, clarify, rule postE_bind [OF pop_post])
     (auto intro!: push_post postE_bind [where Q = "\<lambda>_. True"])

lemma expr_unary_post: "expr_unary env as opc st = Some f \<Longrightarrow> postE (\<lambda>_. True) (f v)"
  unfolding expr_unary_def deref_size_def Let_def
  by (auto split: if_splits intro!: postE_bind [OF readw_post] postE_bind [where Q = "\<lambda>_. True"])

lemma expr_binary_post: "expr_binary as opc = Some f \<Longrightarrow> postE (\<lambda>_. True) (f v w)"
  unfolding expr_binary_def Let_def op_div_def op_shift_def by (auto split: if_splits)

lemma expr_stack_op_post:
  assumes "expr_stack_op opc st = Some r" "stack_ok st" "opc = 0x15 \<Longrightarrow> unat (operand1 st) < 256"
  shows "postE stack_ok r"
proof -
  have p: "postE stack_ok (bindE (pick n st) (\<lambda>v. push v st))" if "unat n < 256" for n
    using that assms(2) push_post by (simp add: pick_eq)
  have d: "postE stack_ok (bindE (pop st) (\<lambda>(_, st). Inr st))"
    using assms(2) by (auto intro!: postE_bind [OF pop_post])
  have s: "postE stack_ok (bindE (pop st) (\<lambda>(tmp1, st). bindE (pop st) (\<lambda>(tmp2, st). bindE (push tmp1 st) (push tmp2))))"
    using assms(2) by (auto intro!: postE_bind [OF pop_post] postE_bind [OF push_post] push_post)
  have r: "postE stack_ok (bindE (pop st) (\<lambda>(tmp1, st). bindE (pop st) (\<lambda>(tmp2, st). bindE (pop st) (\<lambda>(tmp3, st).
                bindE (push tmp1 st) (\<lambda>st. bindE (push tmp3 st) (push tmp2))))))"
    using assms(2) by (auto intro!: postE_bind [OF pop_post] postE_bind [OF push_post] push_post)
  show ?thesis using assms(1,3) p [of 0] p [of 1] p [of "operand1 st"] d s r
    by (auto simp: expr_stack_op_def split: if_splits)
qed

text \<open>What an opcode gives: a stack within its bounds, or a location.\<close>

definition out_ok :: "expr + dwarf_loc \<Rightarrow> bool" where
  "out_ok out \<longleftrightarrow> (case out of Inl st \<Rightarrow> stack_ok st | Inr _ \<Rightarrow> True)"

lemma out_ok_simps [simp]: "out_ok (Inl st) = stack_ok st" "out_ok (Inr loc)"
  by (simp_all add: out_ok_def)

lemma go_post: "postE stack_ok r \<Longrightarrow> postE out_ok (bindE r (\<lambda>st. Inr (Inl st)))"
  by (auto intro: postE_bind)

lemma expr_exec_post:
  assumes "locs_ok as" "stack_ok st" "opc = 0x15 \<Longrightarrow> unat (operand1 st) < 256"
  shows "postE out_ok (expr_exec env as opc st)"
proof -
  have g: "postE out_ok (bindE (bindE (dwarf_get_reg env as r) (\<lambda>t. push (t + v) st)) (\<lambda>st. Inr (Inl st)))" for r v
    by (intro go_post postE_bind [OF get_reg_post [OF assms(1)]] push_post)
  have b: "postE out_ok (bindE (bindE (pop st) (\<lambda>(tmp1, st). Inr (if tmp1 \<noteq> 0 then st\<lparr>ex_addr := ex_addr st + s16 (operand1 st)\<rparr> else st))) (\<lambda>st. Inr (Inl st)))"
    using assms(2) by (intro go_post postE_bind [OF pop_post]) auto
  have k: "postE out_ok (bindE (push v st') (\<lambda>st. Inr (Inl st)))" for v st' by (intro go_post push_post)
  have u: "postE out_ok (bindE (unop f st) (\<lambda>st. Inr (Inl st)))" if "expr_unary env as opc st = Some f" for f
    using assms(2) expr_unary_post [OF that] by (intro go_post unop_post)
  have i: "postE out_ok (bindE (binop f st) (\<lambda>st. Inr (Inl st)))" if "expr_binary as opc = Some f" for f
    using assms(2) expr_binary_post [OF that] by (intro go_post binop_post)
  have t: "postE out_ok (bindE r (\<lambda>st. Inr (Inl st)))" if "expr_stack_op opc st = Some r" for r
    using expr_stack_op_post [OF that assms(2,3)] by (rule go_post)
  have rest: "postE out_ok (if opc = 0x2f then Inr (Inl (st\<lparr>ex_addr := ex_addr st + s16 (operand1 st)\<rparr>))
      else if opc = 0x28 then bindE (bindE (pop st) (\<lambda>(tmp1, st). Inr (if tmp1 \<noteq> 0 then st\<lparr>ex_addr := ex_addr st + s16 (operand1 st)\<rparr> else st))) (\<lambda>st. Inr (Inl st))
      else if opc = 0x96 then Inr (Inl st) else Inl (Dw DWARF_EINVAL))"
    using assms(2) b by simp
  show ?thesis
  proof (cases "expr_const opc st")
    case None
    note c = None
    show ?thesis
    proof (cases "expr_unary env as opc st")
      case None
      note n = c None
      show ?thesis
      proof (cases "expr_binary as opc")
        case None
        then show ?thesis using t rest g k
          by (cases "expr_stack_op opc st") (simp_all only: expr_exec_def Let_def n option.case if_split postE_simps out_ok_simps, simp_all)
      qed (use i g k in \<open>simp add: expr_exec_def Let_def n\<close>)
    qed (use u g k in \<open>simp add: expr_exec_def Let_def c\<close>)
  qed (use g k in \<open>simp add: expr_exec_def Let_def\<close>)
qed

lemma read8_bound: "dwarf_read8 dm sp True a = Inr (v, a') \<Longrightarrow> unat v < 256"
proof -
  assume "dwarf_read8 dm sp True a = Inr (v, a')"
  then obtain bs where bs: "dwarf_access_mem dm sp True a 1 = Inr bs" "v = le_word bs" by (auto simp: dwarf_read8_def)
  then have "length bs = 1"
    by (auto simp: dwarf_access_mem_def split: if_splits space.splits option.splits dest: length_read_mem)
  then obtain b where "v = ucast (b :: u8)" using bs(2) by (cases bs) auto
  moreover have "unat (ucast b :: ulong) < 256" using unsigned_less [of b, where 'a = nat] by (simp add: unsigned_ucast_eq take_bit_nat_eq_self)
  ultimately show ?thesis by simp
qed

lemma read_operands_post:
  assumes "stack_ok st"
  shows "postE (\<lambda>st'. stack_ok st' \<and> (tys = [VAL8] \<longrightarrow> unat (operand1 st') < 256)) (read_operands env as tys st)"
proof (cases tys)
  case (Cons t ts)
  have b: "postE (\<lambda>(v, _). t = VAL8 \<longrightarrow> unat v < 256) (read_operand env as t (ex_addr st))"
  proof (cases "read_operand env as t (ex_addr st)")
    case (Inl e)
    then show ?thesis using read_operand_post [of env as t "ex_addr st"] by simp
  next
    case (Inr x)
    then show ?thesis using read8_bound by (cases x) (auto simp: read_operand_def Let_def)
  qed
  show ?thesis
  proof (cases ts)
    case Nil
    with Cons assms show ?thesis by (auto simp: read_operands_def Let_def intro!: postE_bind [OF b])
  next
    case (Cons t2 ts2)
    with \<open>tys = t # ts\<close> assms show ?thesis
      by (auto simp: read_operands_def Let_def intro!: postE_bind [OF b] postE_bind [OF read_operand_post])
  qed
qed (use assms in \<open>simp add: read_operands_def\<close>)

lemma expr_step_post:
  assumes "locs_ok as" "stack_ok st"
  shows "postE out_ok (expr_step env as st)"
  unfolding expr_step_def
proof (rule postE_bind [OF read_post(1)], clarify)
  fix opc addr
  have "stack_ok (st\<lparr>ex_addr := addr\<rparr>)" using assms(2) by simp
  then show "postE out_ok (bindE (read_operands env as (dwarf_operands (ucast opc)) (st\<lparr>ex_addr := addr\<rparr>)) (expr_exec env as (ucast opc)))"
    by (rule postE_bind [OF read_operands_post]) (auto intro!: expr_exec_post [OF assms(1)] simp: dwarf_operands_def)
qed

lemma eval_loop_post:
  assumes "eval_loop env as end_addr st = Some r" "locs_ok as" "stack_ok st"
  shows "postE out_ok r"
proof -
  let ?P = "\<lambda>env as end_addr st r. locs_ok as \<longrightarrow> stack_ok st \<longrightarrow> postE out_ok r"
  have "?P env as end_addr st r"
  proof (rule eval_loop.raw_induct [where P = ?P, OF _ assms(1)])
    fix loop and env :: dwarf_env and as :: dwarf_addr_space and end_addr st r
    assume IH: "\<And>env as end_addr st r. loop env as end_addr st = Some r \<Longrightarrow> ?P env as end_addr st r"
      and r: "(if ex_addr st < end_addr
        then case expr_step env as st of Inr (Inl st) \<Rightarrow> loop env as end_addr st | r \<Rightarrow> Some r else Some (Inr (Inl st))) = Some r"
    show "?P env as end_addr st r"
    proof (intro impI)
      assume ok: "locs_ok as" "stack_ok st"
      note p = expr_step_post [OF ok, of env]
      consider e where "expr_step env as st = Inl e" | st' where "expr_step env as st = Inr (Inl st')"
        | loc where "expr_step env as st = Inr (Inr loc)" by (metis sum.exhaust)
      then show "postE out_ok r"
      proof cases
        case 1
        from p r ok(2) show ?thesis unfolding 1 by (auto split: if_splits)
      next
        case 2
        with p r ok IH [of env as end_addr st' r] show ?thesis by (auto split: if_splits)
      next
        case 3
        from p r ok(2) show ?thesis unfolding 3 by (auto split: if_splits)
      qed
    qed
  qed
  with assms(2,3) show ?thesis by blast
qed

theorem dwarf_eval_expr_post:
  assumes "locs_ok as"
  shows "dwarf_eval_expr env as addr = Inl (Fault NoReturn) \<or> postE (\<lambda>_. True) (dwarf_eval_expr env as addr)"
proof -
  have loop: "(case eval_loop env as e st of None \<Rightarrow> Inl (Fault NoReturn)
      | Some r \<Rightarrow> bindE r (\<lambda>out. case out of Inr loc \<Rightarrow> Inr loc | Inl st \<Rightarrow> bindE (pop st) (\<lambda>(val, _). Inr (DWARF_LOC val DWARF_LOC_TYPE_MEM)))) = Inl (Fault NoReturn) \<or>
    postE (\<lambda>_. True) (case eval_loop env as e st of None \<Rightarrow> Inl (Fault NoReturn)
      | Some r \<Rightarrow> bindE r (\<lambda>out. case out of Inr loc \<Rightarrow> Inr loc | Inl st \<Rightarrow> bindE (pop st) (\<lambda>(val, _). Inr (DWARF_LOC val DWARF_LOC_TYPE_MEM))))"
    if "stack_ok st" for e st
  proof (cases "eval_loop env as e st")
    case (Some r)
    have "postE (\<lambda>_. True) (bindE r (\<lambda>out. case out of Inr loc \<Rightarrow> Inr loc | Inl st \<Rightarrow> bindE (pop st) (\<lambda>(val, _). Inr (DWARF_LOC val DWARF_LOC_TYPE_MEM))))"
      by (rule postE_bind [OF eval_loop_post [OF Some assms that]]) (auto split: sum.splits intro!: postE_bind [OF pop_post])
    with Some show ?thesis by simp
  qed simp
  show ?thesis
  proof (cases "dwarf_read_uleb128 (de_mem env) Local addr")
    case (Inl e)
    then show ?thesis using uleb_post [of "de_mem env" Local addr] by (simp add: dwarf_eval_expr_def)
  next
    case (Inr x)
    obtain len a where x: "x = (len, a)" by (cases x)
    let ?st = "\<lparr>ex_addr = a, ex_stack = [], operand1 = 0, operand2 = 0\<rparr>"
    have "push (c_cfa (as_cursor as)) ?st = Inr (?st\<lparr>ex_stack := [c_cfa (as_cursor as)]\<rparr>)"
      by (simp add: push_def MAX_EXPR_STACK_SIZE_def)
    with loop [of "?st\<lparr>ex_stack := [c_cfa (as_cursor as)]\<rparr>" "a + len"] Inr x show ?thesis
      by (simp add: dwarf_eval_expr_def stack_ok_def MAX_EXPR_STACK_SIZE_def)
  qed
qed

subsection \<open>A backward jump never ends\<close>

lemma loop_stuck:
  assumes "\<And>st. ex_addr st = a \<Longrightarrow> \<exists>st'. expr_step env as st = Inr (Inl st') \<and> ex_addr st' = a" "a < end_addr" "ex_addr st = a"
  shows "eval_loop env as end_addr st = None"
proof (rule ccontr)
  assume "eval_loop env as end_addr st \<noteq> None"
  then obtain r where r: "eval_loop env as end_addr st = Some r" by blast
  let ?P = "\<lambda>env' as' end' st r. env' = env \<longrightarrow> as' = as \<longrightarrow> end' = end_addr \<longrightarrow> ex_addr st \<noteq> a"
  have "?P env as end_addr st r"
  proof (rule eval_loop.raw_induct [where P = ?P, OF _ r])
    fix loop and env' :: dwarf_env and as' :: dwarf_addr_space and end' st r
    assume IH: "\<And>env' as' end' st r. loop env' as' end' st = Some r \<Longrightarrow> ?P env' as' end' st r"
      and r: "(if ex_addr st < end'
        then case expr_step env' as' st of Inr (Inl st) \<Rightarrow> loop env' as' end' st | r \<Rightarrow> Some r else Some (Inr (Inl st))) = Some r"
    show "?P env' as' end' st r"
    proof (intro impI notI)
      assume e: "env' = env" "as' = as" "end' = end_addr" "ex_addr st = a"
      from assms(1) [OF e(4)] obtain st' where "expr_step env as st = Inr (Inl st')" "ex_addr st' = a" by blast
      with IH [of env as end_addr st' r] r e assms(2) show False by simp
    qed
  qed
  with assms(3) show False by simp
qed

theorem dwarf_eval_expr_skip_back:
  assumes "holds_bytes (local_mem (de_mem env)) addr [3, 0x2f, 0xfd, 0xff]" "unat addr + 4 < 2 ^ 64"
  shows "dwarf_eval_expr env as addr = Inl (Fault NoReturn)"
proof -
  let ?m = "local_mem (de_mem env)"
  have h: "holds_bytes ?m addr [3]" "holds_bytes ?m (addr + 1) [0x2f]" "holds_bytes ?m (addr + 2) [0xfd, 0xff]"
    using assms(1) by (simp_all add: holds_bytes_Cons add.assoc)
  have "dwarf_read_uleb128 (de_mem env) Local addr = Inr (of_nat (uleb_value [3]), addr + of_nat (length [3 :: u8]))"
    by (rule dwarf_read_uleb128_value [OF h(1)]) (simp_all add: leb128_def)
  then have l: "dwarf_read_uleb128 (de_mem env) Local addr = Inr (3, addr + 1)" by simp
  have r8: "dwarf_read8 (de_mem env) Local True (addr + 1) = Inr (0x2f, addr + 2)"
    using read8_holds [OF h(2)] by (simp add: add.assoc)
  have r16: "dwarf_read16 (de_mem env) Local True (addr + 2) = Inr (0xfffd, addr + 4)"
    using access_holds [OF h(3), of 2] by (simp add: dwarf_read16_def add.assoc)
  have s: "expr_step env as st = Inr (Inl (st\<lparr>operand1 := 0xfffd\<rparr>))" if "ex_addr st = addr + 1" for st
    using that r8 r16
    by (simp add: expr_step_def read_operands_def dwarf_operands_def read_operand_def Let_def expr_exec_def expr_const_def
        expr_unary_def expr_binary_def expr_stack_op_def s16_def)
  have "unat (addr + 1) = unat addr + 1" "unat (addr + 1 + 3) = unat addr + 4" using assms(2) by (simp_all add: unat_word_ariths)
  then have lt: "addr + 1 < addr + 1 + 3" by (simp add: word_less_nat_alt)
  have "eval_loop env as (addr + 1 + 3) \<lparr>ex_addr = addr + 1, ex_stack = [c_cfa (as_cursor as)], operand1 = 0, operand2 = 0\<rparr> = None"
    by (rule loop_stuck [OF _ lt]) (use s in auto)
  then show ?thesis using l by (simp add: dwarf_eval_expr_def push_def MAX_EXPR_STACK_SIZE_def)
qed

subsection \<open>Arithmetic expressions\<close>

text \<open>
  A reference for the evaluation: arithmetic expressions, their values and their postfix code. The
  stack has room for the code of an expression of depth 63 above the frame address.
\<close>

datatype bop = BAnd | BOr | BXor | BPlus | BMinus | BMul

datatype aexp = Lit u8 | Const ulong | Neg aexp | Not aexp | Bin bop aexp aexp

fun bop_val :: "bop \<Rightarrow> ulong \<Rightarrow> ulong \<Rightarrow> ulong" where
  "bop_val BAnd v w = v AND w" | "bop_val BOr v w = v OR w" | "bop_val BXor v w = v XOR w"
| "bop_val BPlus v w = v + w" | "bop_val BMinus v w = v - w" | "bop_val BMul v w = v * w"

fun aval :: "aexp \<Rightarrow> ulong" where
  "aval (Lit n) = ucast n"
| "aval (Const v) = v"
| "aval (Neg e) = - aval e"
| "aval (Not e) = NOT (aval e)"
| "aval (Bin b e f) = bop_val b (aval e) (aval f)"

fun bop_code :: "bop \<Rightarrow> u8" where
  "bop_code BAnd = 0x1a" | "bop_code BOr = 0x21" | "bop_code BXor = 0x27"
| "bop_code BPlus = 0x22" | "bop_code BMinus = 0x1c" | "bop_code BMul = 0x1e"

fun acode :: "aexp \<Rightarrow> bytes" where
  "acode (Lit n) = [0x30 + n]"
| "acode (Const v) = 0x0e # le_bytes 8 v"
| "acode (Neg e) = acode e @ [0x1f]"
| "acode (Not e) = acode e @ [0x20]"
| "acode (Bin b e f) = acode e @ acode f @ [bop_code b]"

fun adepth :: "aexp \<Rightarrow> nat" where
  "adepth (Lit n) = 1" | "adepth (Const v) = 1" | "adepth (Neg e) = adepth e" | "adepth (Not e) = adepth e"
| "adepth (Bin b e f) = max (adepth e) (Suc (adepth f))"

fun small_lits :: "aexp \<Rightarrow> bool" where
  "small_lits (Lit n) = (n < 32)" | "small_lits (Const v) = True" | "small_lits (Neg e) = small_lits e"
| "small_lits (Not e) = small_lits e" | "small_lits (Bin b e f) = (small_lits e \<and> small_lits f)"

lemma eval_loop_step:
  "ex_addr st < end_addr \<Longrightarrow> expr_step env as st = Inr (Inl st') \<Longrightarrow> eval_loop env as end_addr st = eval_loop env as end_addr st'"
  by (subst eval_loop.simps) simp

lemma ucast_back [simp]: "(ucast (ucast b :: ulong) :: u8) = b" for b :: u8
  by (intro bit_word_eqI) (auto simp: bit_ucast_iff)

lemma step_plain:
  assumes "holds_bytes (local_mem (de_mem env)) (ex_addr st) [opc]" "dwarf_operands opc = []"
  shows "expr_step env as st = expr_exec env as opc (st\<lparr>ex_addr := ex_addr st + 1\<rparr>)"
proof -
  have "dwarf_read8 (de_mem env) Local True (ex_addr st) = Inr (ucast opc, ex_addr st + 1)"
    by (rule read8_holds [of _ _ _ "[]"]) (use assms(1) in simp)
  then show ?thesis using assms(2) by (simp add: expr_step_def read_operands_def)
qed

lemma bop_exec:
  assumes "length s < 63" "ex_stack st = s @ [v, w]"
  shows "dwarf_operands (bop_code b) = [] \<and>
    expr_exec env as (bop_code b) st = Inr (Inl (st\<lparr>ex_stack := s @ [bop_val b v w]\<rparr>))"
proof -
  have ok: "stack_ok st" "stack_ok (st\<lparr>ex_stack := s @ [v]\<rparr>)" using assms by (simp_all add: stack_ok_def MAX_EXPR_STACK_SIZE_def)
  have p: "pop st = Inr (w, st\<lparr>ex_stack := s @ [v]\<rparr>)" using ok(1) assms(2) by (simp add: pop_eq butlast_append)
  have q: "pop (st\<lparr>ex_stack := s @ [v]\<rparr>) = Inr (v, st\<lparr>ex_stack := s\<rparr>)" using ok(2) by (simp add: pop_eq)
  have b: "binop f st = bindE (f v w) (\<lambda>u. Inr (st\<lparr>ex_stack := s @ [u]\<rparr>))" for f
    using assms(1) by (cases "f v w") (simp_all add: binop_def p q push_def MAX_EXPR_STACK_SIZE_def)
  show ?thesis
    by (cases b) (auto simp: dwarf_operands_def expr_exec_def expr_const_def expr_unary_def expr_binary_def Let_def b
        and.commute or.commute xor.commute)
qed

lemma unop_exec:
  assumes "length s < 64" "ex_stack st = s @ [v]"
  shows "expr_exec env as 0x1f st = Inr (Inl (st\<lparr>ex_stack := s @ [- v]\<rparr>))"
    "expr_exec env as 0x20 st = Inr (Inl (st\<lparr>ex_stack := s @ [NOT v]\<rparr>))"
proof -
  have ok: "stack_ok st" using assms by (simp add: stack_ok_def MAX_EXPR_STACK_SIZE_def)
  have p: "pop st = Inr (v, st\<lparr>ex_stack := s\<rparr>)" using ok assms(2) by (simp add: pop_eq)
  have u: "unop f st = bindE (f v) (\<lambda>u. Inr (st\<lparr>ex_stack := s @ [u]\<rparr>))" for f
    using assms(1) by (cases "f v") (simp_all add: unop_def p push_def MAX_EXPR_STACK_SIZE_def)
  show "expr_exec env as 0x1f st = Inr (Inl (st\<lparr>ex_stack := s @ [- v]\<rparr>))"
    "expr_exec env as 0x20 st = Inr (Inl (st\<lparr>ex_stack := s @ [NOT v]\<rparr>))"
    by (simp_all add: expr_exec_def expr_const_def expr_unary_def Let_def u)
qed

lemma lit_exec:
  assumes "n < 32" "length (ex_stack st) < 64"
  shows "dwarf_operands (0x30 + n) = [] \<and> expr_exec env as (0x30 + n) st = Inr (Inl (st\<lparr>ex_stack := ex_stack st @ [ucast n]\<rparr>))"
proof -
  have u: "unat (0x30 + n) = 0x30 + unat n" using assms(1) by (simp add: unat_word_ariths word_less_nat_alt)
  have r: "0x30 \<le> 0x30 + n" "0x30 + n \<le> 0x4f" using u assms(1) by (simp_all add: word_le_nat_alt word_less_nat_alt)
  have "dwarf_operands (0x30 + n) = []"
    using u assms(1) by (auto simp: dwarf_operands_def word_unat_eq_iff word_le_nat_alt word_less_nat_alt)
  then show ?thesis using r assms(2) by (simp add: expr_exec_def Let_def push_def MAX_EXPR_STACK_SIZE_def)
qed

lemma const_step:
  assumes "holds_bytes (local_mem (de_mem env)) (ex_addr st) (0x0e # le_bytes 8 v)" "length (ex_stack st) < 64"
  shows "expr_step env as st = Inr (Inl (st\<lparr>ex_addr := ex_addr st + 9, ex_stack := ex_stack st @ [v], operand1 := v\<rparr>))"
proof -
  let ?dm = "de_mem env"
  have r: "dwarf_read8 ?dm Local True (ex_addr st) = Inr (0x0e, ex_addr st + 1)"
    using read8_holds [of ?dm "ex_addr st" "0x0e" "le_bytes 8 v"] assms(1) by simp
  have h: "holds_bytes (local_mem ?dm) (ex_addr st + 1) (le_bytes 8 v)" using assms(1) by (simp add: holds_bytes_Cons)
  have "le_bytes 8 v \<noteq> []" by (metis length_le_bytes length_0_conv zero_neq_numeral)
  from access_holds [OF h this, of 8] have "dwarf_read64 ?dm Local True (ex_addr st + 1) = Inr (v, ex_addr st + 9)"
    by (simp add: dwarf_read64_def le_word_bytes)
  then have "read_operands env as (dwarf_operands 0x0e) (st\<lparr>ex_addr := ex_addr st + 1\<rparr>) = Inr (st\<lparr>ex_addr := ex_addr st + 9, operand1 := v\<rparr>)"
    by (simp add: read_operands_def dwarf_operands_def read_operand_def Let_def)
  then show ?thesis using r assms(2)
    by (simp add: expr_step_def expr_exec_def expr_const_def Let_def push_def MAX_EXPR_STACK_SIZE_def)
qed

lemma unat_behind: "unat a + k < 2 ^ 64 \<Longrightarrow> unat (a + of_nat k :: ulong) = unat a + k"
  by (simp add: unat_word_ariths unat_of_nat)

lemma behind_code:
  fixes a end_addr :: ulong
  assumes "unat a + k + m \<le> unat end_addr"
  shows "unat (a + of_nat k) = unat a + k"
proof -
  have "unat end_addr < 2 ^ 64" using unsigned_less [of end_addr, where 'a = nat] by simp
  then show ?thesis using assms by (intro unat_behind) linarith
qed

lemma last_step:
  assumes "holds_bytes (local_mem (de_mem env)) a (cs @ [opc])" "unat a + length cs + 1 \<le> unat end_addr"
    and "ex_addr st = a + of_nat (length cs)" "dwarf_operands opc = []"
    and "expr_exec env as opc (st\<lparr>ex_addr := ex_addr st + 1\<rparr>) = Inr (Inl st')"
  shows "eval_loop env as end_addr st = eval_loop env as end_addr st'"
proof (rule eval_loop_step)
  show "ex_addr st < end_addr" using behind_code [OF assms(2)] assms(2,3) by (simp add: word_less_nat_alt)
  have "holds_bytes (local_mem (de_mem env)) (ex_addr st) [opc]" using assms(1,3) by (simp add: holds_bytes_append)
  from step_plain [OF this assms(4)] assms(5) show "expr_step env as st = Inr (Inl st')" by simp
qed

lemma adepth_pos: "0 < adepth e"
  by (induction e) auto

text \<open>The code of an expression pushes its value.\<close>

lemma acode_runs:
  assumes "holds_bytes (local_mem (de_mem env)) (ex_addr st) (acode e)" "small_lits e"
    and "unat (ex_addr st) + length (acode e) \<le> unat end_addr" "length (ex_stack st) + adepth e \<le> 64"
  shows "\<exists>st'. eval_loop env as end_addr st = eval_loop env as end_addr st' \<and>
    ex_addr st' = ex_addr st + of_nat (length (acode e)) \<and> ex_stack st' = ex_stack st @ [aval e]"
  using assms
proof (induction e arbitrary: st)
  case (Lit n)
  have lt: "ex_addr st < end_addr" using Lit.prems(3) by (simp add: word_less_nat_alt)
  from lit_exec [of n "st\<lparr>ex_addr := ex_addr st + 1\<rparr>" env as] Lit.prems(2,4) step_plain [of env st "0x30 + n" as] Lit.prems(1)
  have "expr_step env as st = Inr (Inl (st\<lparr>ex_addr := ex_addr st + 1, ex_stack := ex_stack st @ [ucast n]\<rparr>))" by simp
  from eval_loop_step [OF lt this] show ?case by (intro exI conjI) auto
next
  case (Const v)
  have lt: "ex_addr st < end_addr" using Const.prems(3) by (simp add: word_less_nat_alt)
  from eval_loop_step [OF lt const_step] Const.prems show ?case by (intro exI conjI) auto
next
  case (Neg e)
  from Neg.IH [of st] Neg.prems obtain s1 where s1: "eval_loop env as end_addr st = eval_loop env as end_addr s1"
      "ex_addr s1 = ex_addr st + of_nat (length (acode e))" "ex_stack s1 = ex_stack st @ [aval e]"
    by (auto simp: holds_bytes_append)
  have "length (ex_stack st) < 64" using Neg.prems(4) adepth_pos [of e] by simp
  from last_step [OF _ _ s1(2) _ unop_exec(1) [OF this, of "s1\<lparr>ex_addr := ex_addr s1 + 1\<rparr>" "aval e"]] Neg.prems s1
  show ?case by (intro exI conjI) (auto simp: dwarf_operands_def)
next
  case (Not e)
  from Not.IH [of st] Not.prems obtain s1 where s1: "eval_loop env as end_addr st = eval_loop env as end_addr s1"
      "ex_addr s1 = ex_addr st + of_nat (length (acode e))" "ex_stack s1 = ex_stack st @ [aval e]"
    by (auto simp: holds_bytes_append)
  have "length (ex_stack st) < 64" using Not.prems(4) adepth_pos [of e] by simp
  from last_step [OF _ _ s1(2) _ unop_exec(2) [OF this, of "s1\<lparr>ex_addr := ex_addr s1 + 1\<rparr>" "aval e"]] Not.prems s1
  show ?case by (intro exI conjI) (auto simp: dwarf_operands_def)
next
  case (Bin b e f)
  let ?a = "ex_addr st" and ?ce = "acode e" and ?cf = "acode f"
  have d: "length (ex_stack st) + adepth e \<le> 64" "Suc (length (ex_stack st)) + adepth f \<le> 64" using Bin.prems(4) by auto
  from Bin.IH(1) [of st] Bin.prems(1-3) d(1) obtain s1 where s1: "eval_loop env as end_addr st = eval_loop env as end_addr s1"
      "ex_addr s1 = ?a + of_nat (length ?ce)" "ex_stack s1 = ex_stack st @ [aval e]"
    by (auto simp: holds_bytes_append)
  have "unat ?a + length ?ce + (length ?cf + 1) \<le> unat end_addr" using Bin.prems(3) by simp
  from behind_code [OF this] s1(2) have u: "unat (ex_addr s1) = unat ?a + length ?ce" by simp
  from Bin.IH(2) [of s1] Bin.prems(1-3) d(2) s1 u obtain s2 where s2: "eval_loop env as end_addr s1 = eval_loop env as end_addr s2"
      "ex_addr s2 = ?a + of_nat (length (?ce @ ?cf))" "ex_stack s2 = ex_stack st @ [aval e, aval f]"
    by (auto simp: holds_bytes_append algebra_simps)
  have "length (ex_stack st) < 63" using Bin.prems(4) adepth_pos [of f] by simp
  from bop_exec [OF this, of "s2\<lparr>ex_addr := ex_addr s2 + 1\<rparr>" "aval e" "aval f" b env as] s2(3)
  have x: "dwarf_operands (bop_code b) = []"
    "expr_exec env as (bop_code b) (s2\<lparr>ex_addr := ex_addr s2 + 1\<rparr>) = Inr (Inl (s2\<lparr>ex_addr := ex_addr s2 + 1, ex_stack := ex_stack st @ [bop_val b (aval e) (aval f)]\<rparr>))" by auto
  have "eval_loop env as end_addr s2 = eval_loop env as end_addr (s2\<lparr>ex_addr := ex_addr s2 + 1, ex_stack := ex_stack st @ [bop_val b (aval e) (aval f)]\<rparr>)"
    by (rule last_step [OF _ _ s2(2) x]) (use Bin.prems in simp_all)
  with s1(1) s2(1,2) show ?case by (intro exI conjI) (auto simp: algebra_simps)
qed

text \<open>An expression with its length in front evaluates to the location its value names.\<close>

theorem dwarf_eval_expr_value:
  assumes "holds_bytes (local_mem (de_mem env)) addr (uleb_encode (length (acode e)) @ acode e)" "small_lits e" "adepth e < 64"
    and "unat addr + length (uleb_encode (length (acode e))) + length (acode e) < 2 ^ 64"
  shows "dwarf_eval_expr env as addr = Inr (DWARF_LOC (aval e) DWARF_LOC_TYPE_MEM)"
proof -
  let ?n = "length (acode e)"
  let ?u = "uleb_encode ?n"
  let ?a = "addr + of_nat (length ?u)" and ?cfa = "c_cfa (as_cursor as)"
  have "?n < 128 ^ 10" using assms(4) by simp
  then have l10: "length ?u \<le> 10" by (rule uleb_encode_length) simp
  have "dwarf_read_uleb128 (de_mem env) Local addr = Inr (of_nat (uleb_value ?u), ?a)"
    by (rule dwarf_read_uleb128_value) (use assms(1) l10 uleb_encode_value in \<open>auto simp: holds_bytes_append\<close>)
  then have rd: "dwarf_read_uleb128 (de_mem env) Local addr = Inr (of_nat ?n, ?a)" using uleb_encode_value [of ?n] by simp
  have ua: "unat ?a = unat addr + length ?u" by (rule unat_behind) (use assms(4) in linarith)
  have ue: "unat (?a + of_nat ?n) = unat ?a + ?n" by (rule unat_behind) (use ua assms(4) in linarith)
  let ?st = "\<lparr>ex_addr = ?a, ex_stack = [?cfa], operand1 = 0, operand2 = 0\<rparr>"
  have "holds_bytes (local_mem (de_mem env)) (ex_addr ?st) (acode e)" using assms(1) by (simp add: holds_bytes_append)
  from acode_runs [OF this assms(2), of "?a + of_nat ?n" as] ue assms(3) obtain st' where
    st': "eval_loop env as (?a + of_nat ?n) ?st = eval_loop env as (?a + of_nat ?n) st'"
      "ex_addr st' = ?a + of_nat ?n" "ex_stack st' = [?cfa, aval e]" by auto
  have fin: "eval_loop env as (?a + of_nat ?n) st' = Some (Inr (Inl st'))" using st'(2) by (subst eval_loop.simps) simp
  have "pop st' = Inr (aval e, st'\<lparr>ex_stack := [?cfa]\<rparr>)" using st'(3) by (simp add: pop_eq stack_ok_def MAX_EXPR_STACK_SIZE_def)
  with rd st'(1) fin show ?thesis by (simp add: dwarf_eval_expr_def push_def MAX_EXPR_STACK_SIZE_def)
qed

end
