(* ===== verification/Dwarf_Step.thy ===== *)
theory Dwarf_Step
  imports Dwarf_Expr
begin

text \<open>
  One step of the unwinder from a frame to its caller (\<open>dwarf_step\<close> of \<open>dwarf.c\<close>) with the frame
  pointer chain and the search for a call that x86 falls back to (\<open>dwarf-x86.c\<close>). The state is the
  address space with its cursor, which keeps what was changed before a failure.
\<close>

subsection \<open>Updates of the cursor\<close>

type_synonym 'a unwind = "(dwarf_addr_space, 'a) dop"

definition upd_cursor :: "(dwarf_cursor \<Rightarrow> dwarf_cursor) \<Rightarrow> dwarf_addr_space \<Rightarrow> dwarf_addr_space" where
  "upd_cursor f as = as\<lparr>as_cursor := f (as_cursor as)\<rparr>"

definition set_loc :: "nat \<Rightarrow> dwarf_loc \<Rightarrow> unit unwind" where
  "set_loc i loc as =
     (if i < length (c_loc (as_cursor as))
      then (Inr (), upd_cursor (\<lambda>c. c\<lparr>c_loc := (c_loc c)[i := loc]\<rparr>) as)
      else (Inl (Fault OutOfBounds), as))"

definition get_loc :: "nat \<Rightarrow> dwarf_loc unwind" where
  "get_loc i as =
     (if i < length (c_loc (as_cursor as)) then (Inr (c_loc (as_cursor as) ! i), as) else (Inl (Fault OutOfBounds), as))"

text \<open>An operation on the \<open>dci\<close> of the cursor.\<close>

definition on_dci :: "(dwarf_cie_info, 'a) dop \<Rightarrow> 'a unwind" where
  "on_dci m as = (case m (c_dci (as_cursor as)) of (r, d) \<Rightarrow> (r, upd_cursor (\<lambda>c. c\<lparr>c_dci := d\<rparr>) as))"

subsection \<open>The library of an address\<close>

definition dwarf_locate_map :: "dwarf_env \<Rightarrow> ulong \<Rightarrow> unit unwind" where
  "dwarf_locate_map env ip as =
     (let c = as_cursor as;
          ip = (if c_use_prev_instr c then ip - 1 else ip)
      in
      if (case c_libref c of None \<Rightarrow> False | Some lr \<Rightarrow> in_text ip lr) then (Inr (), as)
      else
        let lr = addr2libref (de_libs env) ip;
            as = upd_cursor (\<lambda>c. c\<lparr>c_libref := lr\<rparr>) as
        in (if lr = None then Inl (Dw DWARF_ENOINFO) else Inr (), as))"

subsection \<open>The register table of a frame\<close>

definition fetch_proc_info :: "dwarf_env \<Rightarrow> ulong \<Rightarrow> unit unwind" where
  "fetch_proc_info env ip as =
     (case c_libref (as_cursor as) of
        None \<Rightarrow> (Inl (Fault Segfault), as)
      | Some lr \<Rightarrow>
          bindS (on_dci (dwarf_search_unwind_table (de_mem env) (as_is_64bit as) lr ip)) (\<lambda>_.
            modS (upd_cursor (\<lambda>c. c\<lparr>c_use_prev_instr := \<not> signal_frame (c_dci c)\<rparr>))) as)"

definition parse_fde :: "dwarf_env \<Rightarrow> ulong \<Rightarrow> reg_state unwind" where
  "parse_fde env ip as =
     (let c = as_cursor as; dci = c_dci c in
      if unat (dci_ret_addr_column dci) \<ge> as_num_regs as then (Inl (Dw DWARF_EBADREG), as)
      else
        (parse_fde_regs (de_mem env) (as_is_64bit as) (case c_libref c of None \<Rightarrow> 0 | Some lr \<Rightarrow> pltgot lr)
           dci (as_num_regs as) ip,
         upd_cursor (\<lambda>c. c\<lparr>c_ret_addr_column := dci_ret_addr_column dci\<rparr>) as))"

text \<open>The canonical frame address.\<close>

definition frame_address :: "dwarf_env \<Rightarrow> reg_state \<Rightarrow> dwarf_addr_space \<Rightarrow> ulong dres" where
  "frame_address env rs as =
     (let n = as_num_regs as; r = rs ! n in
      if dr_where r = DWARF_WHERE_REG then
        bindE (if unat (dr_val r) = as_ret_reg as \<and> dr_where (rs ! as_ret_reg as) = DWARF_WHERE_SAME
               then Inr (c_cfa (as_cursor as))
               else dwarf_get_reg env as (unat (ucast (dr_val r) :: u32))) (\<lambda>cfa.
          Inr (cfa + dr_val (rs ! (n + 1))))
      else if dr_where r \<noteq> DWARF_WHERE_EXPR then Inl (Fault AssertionFailed)
      else
        bindE (dwarf_eval_expr env as (dr_val r)) (\<lambda>loc.
          if dl_type loc = DWARF_LOC_TYPE_REG then Inl (Dw DWARF_EBADFRAME) else Inr (dl_val loc)))"

text \<open>The location of one register of the caller; an expression sees the locations already replaced.\<close>

definition apply_reg :: "dwarf_env \<Rightarrow> reg_state \<Rightarrow> ulong \<Rightarrow> nat \<Rightarrow> unit unwind" where
  "apply_reg env rs cfa i as =
     (let r = rs ! i in
      case dr_where r of
        DWARF_WHERE_UNDEF \<Rightarrow> set_loc i DWARF_NULL_LOC as
      | DWARF_WHERE_SAME \<Rightarrow> (Inr (), as)
      | DWARF_WHERE_CFAREL \<Rightarrow> set_loc i (DWARF_LOC (cfa + dr_val r) DWARF_LOC_TYPE_MEM) as
      | DWARF_WHERE_REG \<Rightarrow> set_loc i (DWARF_LOC (dr_val r) DWARF_LOC_TYPE_REG) as
      | DWARF_WHERE_EXPR \<Rightarrow> bindS (liftS (dwarf_eval_expr env as (dr_val r))) (set_loc i) as
      | DWARF_WHERE_VAL_EXPR \<Rightarrow>
          bindS (liftS (dwarf_eval_expr env as (dr_val r))) (\<lambda>loc. set_loc i (DWARF_LOC (dl_val loc) DWARF_LOC_TYPE_VAL)) as)"

fun apply_regs :: "dwarf_env \<Rightarrow> reg_state \<Rightarrow> ulong \<Rightarrow> nat list \<Rightarrow> unit unwind" where
  "apply_regs env rs cfa [] = retS ()"
| "apply_regs env rs cfa (i # is) = bindS (apply_reg env rs cfa i) (\<lambda>_. apply_regs env rs cfa is)"

definition return_address :: "dwarf_env \<Rightarrow> unit unwind" where
  "return_address env as =
     bindS (get_loc (unat (c_ret_addr_column (as_cursor as)))) (\<lambda>loc.
       if DWARF_IS_NULL_LOC loc then modS (upd_cursor (\<lambda>c. c\<lparr>c_ip := 0\<rparr>))
       else bindS (liftS (dwarf_get env as loc)) (\<lambda>ip. modS (upd_cursor (\<lambda>c. c\<lparr>c_ip := ip\<rparr>)))) as"

definition apply_reg_state :: "dwarf_env \<Rightarrow> reg_state \<Rightarrow> unit unwind" where
  "apply_reg_state env rs as =
     (let prev_ip = c_ip (as_cursor as); prev_cfa = c_cfa (as_cursor as) in
      bindS (liftS (frame_address env rs as)) (\<lambda>cfa.
      bindS (apply_regs env rs cfa [0..<as_num_regs as]) (\<lambda>_.
      bindS (modS (upd_cursor (\<lambda>c. c\<lparr>c_cfa := cfa\<rparr>))) (\<lambda>_.
      bindS (return_address env) (\<lambda>_.
      bindS (getS as_cursor) (\<lambda>c.
        if c_ip c = prev_ip \<and> c_cfa c = prev_cfa then failS (Dw DWARF_EBADFRAME) else retS ()))))) as)"

subsection \<open>x86\<close>

definition dwarf_arch_init :: "dwarf_addr_space \<Rightarrow> dwarf_addr_space" where
  "dwarf_arch_init as =
     (if as_is_64bit as then as\<lparr>as_ip_reg := 16, as_ret_reg := 7, as_num_regs := 17\<rparr>
      else as\<lparr>as_ip_reg := 8, as_ret_reg := 4, as_num_regs := 9\<rparr>)"

definition bp_reg :: "dwarf_addr_space \<Rightarrow> nat" where
  "bp_reg as = (if as_is_64bit as then 6 else 5)"

definition arch_ip_reg :: "dwarf_addr_space \<Rightarrow> nat" where
  "arch_ip_reg as = (if as_is_64bit as then 16 else 8)"

definition dwarf_arch_init_unwind :: "dwarf_env \<Rightarrow> dwarf_addr_space \<Rightarrow> dwarf_addr_space" where
  "dwarf_arch_init_unwind env as =
     upd_cursor (\<lambda>c. c\<lparr>c_loc := map (\<lambda>i. DWARF_LOC (of_nat i) DWARF_LOC_TYPE_REG) [0..<as_num_regs as],
       c_ip := fetch_reg (de_regs env) RIP, c_cfa := fetch_reg (de_regs env) RSP, c_use_prev_instr := False\<rparr>) as"

text \<open>The frame pointer chain; a failed read of the return address leaves the address zero.\<close>

definition dwarf_arch_step :: "dwarf_env \<Rightarrow> unit unwind" where
  "dwarf_arch_step env as =
     (let c = as_cursor as; sz = of_nat (DWARF_ADDR_SIZE as) in
      if signal_frame (c_dci c) then (Inl (Dw DWARF_EBADFRAME), as)
      else
      bindS (get_loc (bp_reg as)) (\<lambda>rbp_loc.
        if DWARF_IS_NULL_LOC rbp_loc then modS (upd_cursor (\<lambda>c. c\<lparr>c_ip := 0\<rparr>))
        else
        bindS (modS (upd_cursor (\<lambda>c. c\<lparr>c_loc := map (\<lambda>_. DWARF_NULL_LOC) (c_loc c)\<rparr>))) (\<lambda>_.
        bindS (liftS (dwarf_get env as rbp_loc)) (\<lambda>rbp.
        if \<not> (rbp > c_cfa c \<and> rbp - c_cfa c \<le> 131072) then failS (Dw DWARF_EBADFRAME)
        else
        bindS (set_loc (bp_reg as) (DWARF_LOC rbp DWARF_LOC_TYPE_MEM)) (\<lambda>_.
        bindS (set_loc (arch_ip_reg as) (DWARF_LOC (rbp + sz) DWARF_LOC_TYPE_MEM)) (\<lambda>_.
        bindS (modS (upd_cursor (\<lambda>c. c\<lparr>c_cfa := rbp + sz * 2, c_use_prev_instr := False\<rparr>))) (\<lambda>_.
        if rbp + sz * 2 = c_cfa c then failS (Dw DWARF_EBADFRAME)
        else
        bindS (modS (upd_cursor (\<lambda>c. c\<lparr>c_ret_addr_column := of_nat (arch_ip_reg as)\<rparr>))) (\<lambda>_.
          if DWARF_IS_NULL_LOC (DWARF_LOC (rbp + sz) DWARF_LOC_TYPE_MEM) then modS (upd_cursor (\<lambda>c. c\<lparr>c_ip := 0\<rparr>))
          else case dwarf_get env as (DWARF_LOC (rbp + sz) DWARF_LOC_TYPE_MEM) of
            Inl e \<Rightarrow> bindS (modS (upd_cursor (\<lambda>c. c\<lparr>c_ip := 0\<rparr>))) (\<lambda>_. failS e)
          | Inr ip \<Rightarrow> modS (upd_cursor (\<lambda>c. c\<lparr>c_ip := ip\<rparr>))))))))) as)"

text \<open>The instructions that call: where they start before the return address, their masks and their bytes.\<close>

definition call_op :: "(nat \<times> u8 list \<times> u8 list) list" where
  "call_op =
     [(5, [0xff], [0xe8]), (3, [0xff, 0xff], [0xff, 0x14]), (2, [0xff, 0xfc], [0xff, 0x10]),
      (4, [0xff, 0xff], [0xff, 0x54]), (3, [0xff, 0xfc], [0xff, 0x50]), (7, [0xff, 0xff], [0xff, 0x94]),
      (6, [0xff, 0xfc], [0xff, 0x90]), (2, [0xff, 0xfc], [0xff, 0xd0])]"

text \<open>The bytes are compared one by one, so a byte behind the first difference is not read.\<close>

fun match_call :: "mem \<Rightarrow> ulong \<Rightarrow> (u8 \<times> u8) list \<Rightarrow> bool dres" where
  "match_call m addr [] = Inr True"
| "match_call m addr ((mk, oper) # ps) =
     (case m addr of
        None \<Rightarrow> Inl (Fault Segfault)
      | Some b \<Rightarrow> if b AND mk \<noteq> oper then Inr False else match_call m (addr + 1) ps)"

fun check_calls :: "mem \<Rightarrow> libref \<Rightarrow> ulong \<Rightarrow> (nat \<times> u8 list \<times> u8 list) list \<Rightarrow> bool dres" where
  "check_calls m lr ip [] = Inr False"
| "check_calls m lr ip ((off, mks, opers) # ps) =
     (if ip - txt_vaddr lr \<ge> of_nat off then
        bindE (match_call m (mmap_addr lr + ip - of_nat off - txt_vaddr lr) (zip mks opers)) (\<lambda>b.
          if b then Inr True else check_calls m lr ip ps)
      else check_calls m lr ip ps)"

definition dwarf_arch_check_call :: "dwarf_env \<Rightarrow> dwarf_addr_space \<Rightarrow> ulong \<Rightarrow> bool dres" where
  "dwarf_arch_check_call env as ip =
     (case c_libref (as_cursor as) of
        None \<Rightarrow> Inl (Fault Segfault)
      | Some lr \<Rightarrow> check_calls (local_mem (de_mem env)) lr ip call_op)"

subsection \<open>Steps\<close>

definition zero_cursor :: dwarf_cursor where
  "zero_cursor = \<lparr>c_cfa = 0, c_ip = 0, c_ret_addr_column = 0, c_use_prev_instr = False, c_valid = False,
     c_libref = None, c_dci = zero_dci, c_loc = []\<rparr>"

text \<open>The locations are allocated but not set.\<close>

definition dwarf_init :: "bool \<Rightarrow> dwarf_loc list \<Rightarrow> dwarf_addr_space" where
  "dwarf_init is64 junk =
     upd_cursor (\<lambda>c. c\<lparr>c_loc := junk\<rparr>)
       (dwarf_arch_init \<lparr>as_is_64bit = is64, as_cursor = zero_cursor, as_ip_reg = 0, as_ret_reg = 0, as_num_regs = 0\<rparr>)"

definition dwarf_init_unwind :: "dwarf_env \<Rightarrow> unit unwind" where
  "dwarf_init_unwind env as =
     (let as = upd_cursor (\<lambda>c. c\<lparr>c_cfa := 0, c_ip := 0, c_ret_addr_column := 0, c_use_prev_instr := False,
                c_valid := True, c_libref := None, c_dci := zero_dci\<rparr>) as;
          as = dwarf_arch_init_unwind env as
      in dwarf_locate_map env (c_ip (as_cursor as)) as)"

definition unwind_frame :: "dwarf_env \<Rightarrow> ulong \<Rightarrow> unit unwind" where
  "unwind_frame env ip =
     bindS (fetch_proc_info env ip) (\<lambda>_.
     bindS (parse_fde env ip) (\<lambda>rs.
     bindS (apply_reg_state env rs) (\<lambda>_.
     bindS (getS (\<lambda>as. c_ip (as_cursor as))) (dwarf_locate_map env))))"

text \<open>The fallback when a frame has no unwind information.\<close>

definition chain_step :: "dwarf_env \<Rightarrow> unit unwind" where
  "chain_step env as =
     (case dwarf_arch_step env as of
        (Inr _, as) \<Rightarrow>
          (case dwarf_locate_map env (c_ip (as_cursor as)) as of
             (Inl (Dw _), as) \<Rightarrow> (Inl (Dw DWARF_ENOINFO), as)
           | r \<Rightarrow> r)
      | r \<Rightarrow> r)"

text \<open>
  The search of the stack for a return address. The source asks for the same 512 bytes nine times. A
  failed copy is a huge number of bytes for it, so it reads behind its buffer.
\<close>

function guess_words :: "dwarf_env \<Rightarrow> ulong \<Rightarrow> bytes \<Rightarrow> nat \<Rightarrow> bool unwind" where
  "guess_words env cfa buf i as =
     (let sz = DWARF_ADDR_SIZE as in
      if i + sz \<le> length buf then
        let ip = le_word (take sz (drop i buf)) in
        (case dwarf_locate_map env ip as of
           (Inl (Fault f), as) \<Rightarrow> (Inl (Fault f), as)
         | (Inl (Dw _), as) \<Rightarrow> guess_words env cfa buf (i + sz) as
         | (Inr _, as) \<Rightarrow>
             (case dwarf_arch_check_call env as ip of
                Inl e \<Rightarrow> (Inl e, as)
              | Inr True \<Rightarrow>
                  (Inr True, upd_cursor (\<lambda>c. c\<lparr>c_cfa := cfa + of_nat i + of_nat sz, c_ip := ip, c_ret_addr_column := 0,
                     c_loc := map (\<lambda>_. DWARF_NULL_LOC) (c_loc c)\<rparr>) as)
              | Inr False \<Rightarrow> guess_words env cfa buf (i + sz) as))
      else (Inr False, as))"
  by pat_completeness auto
termination by (relation "measure (\<lambda>(env, cfa, buf, i, as). Suc (length buf) - i)") (auto simp: DWARF_ADDR_SIZE_def split: if_splits)

declare guess_words.simps [simp del]

fun guess_passes :: "nat \<Rightarrow> dwarf_env \<Rightarrow> ulong \<Rightarrow> bool unwind" where
  "guess_passes 0 env cfa as = (Inr False, as)"
| "guess_passes (Suc k) env cfa as =
     (case snd (copy_from_proc False (traced_proc (de_mem env)) cfa 512) of
        None \<Rightarrow> (Inl (Fault OutOfBounds), as)
      | Some buf \<Rightarrow>
          (case guess_words env cfa buf 0 as of
             (Inr False, as) \<Rightarrow> if length buf < 512 then (Inr False, as) else guess_passes k env cfa as
           | r \<Rightarrow> r))"

definition step_failed :: "dwarf_env \<Rightarrow> ulong \<Rightarrow> ulong \<Rightarrow> dwarf_error \<Rightarrow> unit unwind" where
  "step_failed env cfa ip e as =
     (let as = upd_cursor (\<lambda>c. c\<lparr>c_ip := ip\<rparr>) as in
      case (if e = DWARF_ENOINFO then chain_step env as else (Inl (Dw e), as)) of
        (Inr _, as) \<Rightarrow> (Inr (), as)
      | (Inl (Fault f), as) \<Rightarrow> (Inl (Fault f), as)
      | (Inl (Dw e), as) \<Rightarrow>
          (case guess_passes 9 env cfa as of
             (Inr True, as) \<Rightarrow> (Inr (), as)
           | (Inr False, as) \<Rightarrow> (Inl (Dw e), upd_cursor (\<lambda>c. c\<lparr>c_valid := False\<rparr>) as)
           | (Inl e, as) \<Rightarrow> (Inl e, as)))"

definition dwarf_step :: "dwarf_env \<Rightarrow> unit unwind" where
  "dwarf_step env as =
     (let c = as_cursor as; cfa = c_cfa c in
      if \<not> c_valid c then (Inl (Dw DWARF_EINVAL), as)
      else
        let ip = (if c_use_prev_instr c then c_ip c - 1 else c_ip c) in
        case unwind_frame env ip as of
          (Inr _, as) \<Rightarrow> (Inr (), as)
        | (Inl (Fault f), as) \<Rightarrow> (Inl (Fault f), as)
        | (Inl (Dw e), as) \<Rightarrow> step_failed env cfa ip e as)"

subsection \<open>The shape of the address space\<close>

definition nregs :: "bool \<Rightarrow> nat" where
  "nregs is64 = (if is64 then 17 else 9)"

definition as_ok :: "bool \<Rightarrow> dwarf_addr_space \<Rightarrow> bool" where
  "as_ok b as \<longleftrightarrow> as_is_64bit as = b \<and> as_num_regs as = nregs b \<and> length (c_loc (as_cursor as)) = nregs b \<and>
     unat (c_ret_addr_column (as_cursor as)) < nregs b \<and> as_ip_reg as = (if b then 16 else 8) \<and> as_ret_reg as = (if b then 7 else 4)"

text \<open>The state stays well formed, and no array is left.\<close>

definition postS :: "bool \<Rightarrow> ('a \<Rightarrow> bool) \<Rightarrow> 'a dres \<times> dwarf_addr_space \<Rightarrow> bool" where
  "postS b P r \<longleftrightarrow> as_ok b (snd r) \<and> (case fst r of Inl e \<Rightarrow> e \<noteq> Fault OutOfBounds | Inr x \<Rightarrow> P x)"

abbreviation safeS :: "bool \<Rightarrow> 'a dres \<times> dwarf_addr_space \<Rightarrow> bool" where
  "safeS b \<equiv> postS b (\<lambda>_. True)"

lemma postS_simps [simp]:
  "postS b P (Inl e, as) \<longleftrightarrow> as_ok b as \<and> e \<noteq> Fault OutOfBounds" "postS b P (Inr x, as) \<longleftrightarrow> as_ok b as \<and> P x"
  by (simp_all add: postS_def)

lemma postS_bind:
  assumes "postS b Q (m as)" "\<And>x as. as_ok b as \<Longrightarrow> Q x \<Longrightarrow> postS b P (f x as)"
  shows "postS b P (bindS m f as)"
  using assms by (cases "m as"; cases "fst (m as)") (auto simp: bindS_def)

lemma liftS_post: "as_ok b as \<Longrightarrow> r = Inl (Fault NoReturn) \<or> postE P r \<Longrightarrow> postS b P (liftS r as)"
  by (cases r) (auto simp: liftS_def)

lemma as_ok_fields [simp]:
  "as_ok b (upd_cursor (\<lambda>c. c\<lparr>c_ip := i\<rparr>) as) = as_ok b as" "as_ok b (upd_cursor (\<lambda>c. c\<lparr>c_cfa := i\<rparr>) as) = as_ok b as"
  "as_ok b (upd_cursor (\<lambda>c. c\<lparr>c_libref := l\<rparr>) as) = as_ok b as" "as_ok b (upd_cursor (\<lambda>c. c\<lparr>c_dci := d\<rparr>) as) = as_ok b as"
  "as_ok b (upd_cursor (\<lambda>c. c\<lparr>c_use_prev_instr := f c\<rparr>) as) = as_ok b as" "as_ok b (upd_cursor (\<lambda>c. c\<lparr>c_valid := v\<rparr>) as) = as_ok b as"
  "as_ok b (upd_cursor (\<lambda>c. c\<lparr>c_cfa := i, c_use_prev_instr := u\<rparr>) as) = as_ok b as"
  "as_ok b (upd_cursor (\<lambda>c. c\<lparr>c_loc := map (\<lambda>_. l') (c_loc c)\<rparr>) as) = as_ok b as"
  by (simp_all add: as_ok_def upd_cursor_def)

lemma as_ok_locs: "as_ok b as \<Longrightarrow> locs_ok as"
  by (simp add: as_ok_def locs_ok_def)

lemma modS_post: "as_ok b (f as) \<Longrightarrow> safeS b (modS f as)"
  by (simp add: modS_def)

lemma set_loc_post: "as_ok b as \<Longrightarrow> i < nregs b \<Longrightarrow> safeS b (set_loc i loc as)"
  by (simp add: set_loc_def as_ok_def upd_cursor_def)

lemma get_loc_post: "as_ok b as \<Longrightarrow> i < nregs b \<Longrightarrow> safeS b (get_loc i as)"
  by (simp add: get_loc_def as_ok_def)

lemma locate_post: "as_ok b as \<Longrightarrow> safeS b (dwarf_locate_map env ip as)"
  by (auto simp: dwarf_locate_map_def Let_def)

lemma eval_post: "as_ok b as \<Longrightarrow> safeS b (liftS (dwarf_eval_expr env as addr) as)"
  by (rule liftS_post) (use dwarf_eval_expr_post as_ok_locs in auto)

lemma apply_reg_post:
  assumes "as_ok b as" "i < nregs b"
  shows "safeS b (apply_reg env rs cfa i as)"
  using assms
  by (auto simp: apply_reg_def Let_def split: dwarf_where.split intro!: set_loc_post postS_bind [OF eval_post])

lemma apply_regs_post: "as_ok b as \<Longrightarrow> \<forall>i \<in> set is. i < nregs b \<Longrightarrow> safeS b (apply_regs env rs cfa is as)"
  by (induction "is" arbitrary: as) (auto simp: retS_def intro!: postS_bind [OF apply_reg_post])

lemma frame_address_post:
  assumes "as_ok b as" "rs_ok (nregs b) rs"
  shows "frame_address env rs as = Inl (Fault NoReturn) \<or> postE (\<lambda>_. True) (frame_address env rs as)"
proof -
  have g: "postE (\<lambda>_. True) (bindE (dwarf_get_reg env as n) (\<lambda>cfa. Inr (cfa + v)))" for n v
    by (rule postE_bind [OF get_reg_post]) (use assms as_ok_locs in auto)
  have e: "bindE (dwarf_eval_expr env as a) (\<lambda>loc. if dl_type loc = DWARF_LOC_TYPE_REG then Inl (Dw DWARF_EBADFRAME) else Inr (dl_val loc)) = Inl (Fault NoReturn) \<or>
    postE (\<lambda>_. True) (bindE (dwarf_eval_expr env as a) (\<lambda>loc. if dl_type loc = DWARF_LOC_TYPE_REG then Inl (Dw DWARF_EBADFRAME) else Inr (dl_val loc)))" for a
    using dwarf_eval_expr_post [OF as_ok_locs [OF assms(1)], of env a] by (cases "dwarf_eval_expr env as a") auto
  show ?thesis unfolding frame_address_def Let_def using g e by simp
qed

lemma return_address_post: "as_ok b as \<Longrightarrow> safeS b (return_address env as)"
  unfolding return_address_def
  by (rule postS_bind [OF get_loc_post])
     (auto simp: as_ok_def intro!: modS_post postS_bind [OF liftS_post] get_post, auto simp: as_ok_def upd_cursor_def)


subsection \<open>The search of the table stays in its arrays\<close>

definition boundedS :: "('s, 'a) dop \<Rightarrow> bool" where
  "boundedS m \<longleftrightarrow> (\<forall>s. fst (m s) \<noteq> Inl (Fault OutOfBounds))"

lemma boundedS_bind: "boundedS m \<Longrightarrow> (\<And>x. boundedS (f x)) \<Longrightarrow> boundedS (bindS m f)"
  unfolding boundedS_def bindS_def by (auto split: prod.splits sum.splits) (metis fst_conv)+

lemma boundedS_simps [simp]:
  "boundedS (retS x)" "boundedS (modS f)" "boundedS (getS g)" "boundedS (failS e) \<longleftrightarrow> e \<noteq> Fault OutOfBounds"
  by (simp_all add: boundedS_def dop_defs)

lemma boundedS_lift: "r = Inl (Fault NoReturn) \<or> postE (\<lambda>_. True) r \<Longrightarrow> boundedS (liftS r)"
  by (cases r) (auto simp: boundedS_def dop_defs)

lemma boundedS_reads [simp]:
  "boundedS (liftS (dwarf_read8 dm sp w a))" "boundedS (liftS (dwarf_read16 dm sp w a))"
  "boundedS (liftS (dwarf_read_uleb128 dm sp a))" "boundedS (liftS (dwarf_read_sleb128 dm sp a))"
  "boundedS (liftS (dwarf_read_encoded_pointer_local dm is64 gp want enc start a))"
  by (rule boundedS_lift, simp)+

lemma encoded_pointer_bounded:
  "fst (dwarf_read_encoded_pointer dm is64 gp True want enc start a) \<noteq> Inl (Fault OutOfBounds)"
  using pointer_post [of dm is64 gp want enc start a]
  by (auto simp: dwarf_read_encoded_pointer_local_def split: prod.splits sum.splits)

lemma parse_aug_bounded: "boundedS (parse_aug dm is64 gp cs enc addr)"
proof (induction dm is64 gp cs enc addr rule: parse_aug.induct)
  case (2 dm is64 gp c cs enc addr)
  show ?case
    using encoded_pointer_bounded [of dm is64 gp False _ 0] "2.IH"
    by (auto intro!: boundedS_bind split: prod.splits sum.splits derr.splits) (metis fst_conv)+
qed simp


lemma augstr_post: "postE (\<lambda>_. True) (read_augstr dm addr cs)"
proof (induction dm addr cs rule: read_augstr.induct)
  case (1 dm addr cs)
  show ?case
  proof (cases "dwarf_read8 dm Local True addr")
    case (Inl e)
    then show ?thesis using read_post(1) [of dm Local True addr] by (subst read_augstr.simps) simp
  next
    case (Inr x)
    then show ?thesis using 1 by (subst read_augstr.simps) (auto simp: Let_def split: prod.splits)
  qed
qed

lemma headers_post: "postE (\<lambda>_. True) (cie_header dm addr)" "postE (\<lambda>_. True) (fde_header dm addr)"
  unfolding cie_header_def fde_header_def Let_def
  by (auto intro!: postE_bind [where Q = "\<lambda>_. True"])

lemmas boundedS_lifts [simp] = boundedS_lift [OF disjI2, OF augstr_post] boundedS_lift [OF disjI2, OF headers_post(1)]
  boundedS_lift [OF disjI2, OF headers_post(2)]

lemma parse_cie_bounded: "boundedS (parse_cie dm is64 gp addr)"
  unfolding parse_cie_def by (auto intro!: boundedS_bind parse_aug_bounded split: prod.splits)

lemma extract_cfi_bounded: "boundedS (dwarf_extract_cfi_from_fde dm is64 gp addr)"
  unfolding dwarf_extract_cfi_from_fde_def by (auto intro!: boundedS_bind parse_cie_bounded split: prod.splits)

lemma lookup_loop_bounded:
  assumes "lookup_loop tab rel lo hi f = Some r" "\<And>i. tab i \<noteq> Inl (Fault OutOfBounds)"
  shows "r \<noteq> Inl (Fault OutOfBounds)"
proof -
  let ?P = "\<lambda>tab (rel :: ulong) (lo :: ulong) (hi :: ulong) (f :: (ulong \<times> ulong) option) r.
    (\<forall>i. tab i \<noteq> Inl (Fault OutOfBounds)) \<longrightarrow> r \<noteq> Inl (Fault OutOfBounds)"
  have "?P tab rel lo hi f r"
    by (rule lookup_loop.raw_induct [where P = ?P, OF _ assms(1)])
       (force simp: Let_def split: sum.splits if_splits)
  with assms(2) show ?thesis by blast
qed

lemma lookup_bounded: "lookup (table_entry dm tab) n rel \<noteq> Inl (Fault OutOfBounds)"
  using lookup_loop_bounded [of "table_entry dm tab" rel 0 n None]
  by (auto simp: lookup_def table_entry_def split: option.splits)

lemma search_bounded: "boundedS (dwarf_search_unwind_table dm is64 lr ip)"
proof -
  have "boundedS (liftS (lookup (table_entry dm tab) n rel))" for tab n rel
    using lookup_bounded by (simp add: boundedS_def dop_defs)
  then show ?thesis unfolding dwarf_search_unwind_table_def
    by (auto intro!: boundedS_bind extract_cfi_bounded split: option.splits prod.splits)
qed


subsection \<open>A step stays in its arrays\<close>

lemma on_dci_post: "as_ok b as \<Longrightarrow> boundedS m \<Longrightarrow> safeS b (on_dci m as)"
  by (auto simp: on_dci_def boundedS_def postS_def split: prod.splits sum.splits) (metis fst_conv)

lemma fetch_proc_info_post: "as_ok b as \<Longrightarrow> safeS b (fetch_proc_info env ip as)"
  by (auto simp: fetch_proc_info_def split: option.splits
      intro!: postS_bind [OF on_dci_post] search_bounded modS_post)

lemma parse_fde_post: "as_ok b as \<Longrightarrow> postS b (rs_ok (nregs b)) (parse_fde env ip as)"
  using parse_fde_regs_post [of "de_mem env" "as_is_64bit as" "case c_libref (as_cursor as) of None \<Rightarrow> 0 | Some lr \<Rightarrow> pltgot lr"
      "c_dci (as_cursor as)" "as_num_regs as" ip]
  by (auto simp: parse_fde_def Let_def as_ok_def upd_cursor_def postS_def split: sum.splits)

lemma lifts_post:
  "as_ok b as \<Longrightarrow> rs_ok (nregs b) rs \<Longrightarrow> safeS b (liftS (frame_address env rs as) as)"
  "as_ok b as \<Longrightarrow> safeS b (liftS (dwarf_get env as' loc) as)" "as_ok b as \<Longrightarrow> safeS b (getS g as)"
  by (rule liftS_post, assumption, rule frame_address_post, assumption, assumption)
     (rule liftS_post, assumption, rule disjI2, rule get_post, simp add: dop_defs)

lemma apply_reg_state_post:
  assumes "as_ok b as" "rs_ok (nregs b) rs"
  shows "safeS b (apply_reg_state env rs as)"
proof -
  have n: "\<forall>i \<in> set [0..<as_num_regs as]. i < nregs b" using assms(1) by (simp add: as_ok_def)
  show ?thesis unfolding apply_reg_state_def Let_def
    by (rule postS_bind, rule lifts_post(1) [OF assms], rule postS_bind, rule apply_regs_post [OF _ n], assumption,
        rule postS_bind, rule modS_post, simp, rule postS_bind, rule return_address_post, assumption)
       (rule postS_bind, rule lifts_post(3), assumption, simp add: dop_defs)
qed

lemma unwind_frame_post: "as_ok b as \<Longrightarrow> safeS b (unwind_frame env ip as)"
  unfolding unwind_frame_def
  by (rule postS_bind [OF fetch_proc_info_post], assumption, rule postS_bind [OF parse_fde_post], assumption,
      rule postS_bind [OF apply_reg_state_post], assumption, assumption, rule postS_bind [OF lifts_post(3)], assumption, rule locate_post)

lemma arch_regs: "as_ok b as \<Longrightarrow> bp_reg as < nregs b" "as_ok b as \<Longrightarrow> arch_ip_reg as < nregs b"
  by (auto simp: as_ok_def bp_reg_def arch_ip_reg_def nregs_def)

lemma arch_step_post:
  assumes "as_ok b as"
  shows "safeS b (dwarf_arch_step env as)"
proof -
  have c: "as_ok b (upd_cursor (\<lambda>c. c\<lparr>c_ret_addr_column := of_nat (arch_ip_reg as)\<rparr>) s)" if "as_ok b s" for s
    using that assms by (auto simp: as_ok_def upd_cursor_def arch_ip_reg_def nregs_def unat_of_nat)
  have g: "dwarf_get env as loc \<noteq> Inl (Fault OutOfBounds)" for loc using get_post [of env as loc] by auto
  show ?thesis unfolding dwarf_arch_step_def Let_def
    using assms g
    by (auto intro!: postS_bind [OF get_loc_post [OF _ arch_regs(1)]] postS_bind [OF modS_post] postS_bind [OF lifts_post(2)]
      postS_bind [OF set_loc_post] arch_regs modS_post c simp: dop_defs split: sum.splits)
qed

lemma chain_step_post:
  assumes "as_ok b as"
  shows "safeS b (chain_step env as)"
proof (cases "dwarf_arch_step env as")
  case (Pair r as1)
  then have ok: "as_ok b as1" "r \<noteq> Inl (Fault OutOfBounds)"
    using arch_step_post [OF assms, of env] by (auto simp: postS_def)
  obtain r2 as2 where l: "dwarf_locate_map env (c_ip (as_cursor as1)) as1 = (r2, as2)" by fastforce
  then have "as_ok b as2" "r2 \<noteq> Inl (Fault OutOfBounds)"
    using locate_post [OF ok(1), of env "c_ip (as_cursor as1)"] by (auto simp: postS_def)
  with ok show ?thesis by (simp add: chain_step_def Pair l split: sum.split derr.split) auto
qed

lemma match_call_bounded: "match_call m a ps \<noteq> Inl (Fault OutOfBounds)"
  by (induction ps arbitrary: a) (auto split: option.splits if_splits)

lemma check_calls_bounded: "check_calls m lr ip ps \<noteq> Inl (Fault OutOfBounds)"
proof (induction ps)
  case (Cons p ps)
  obtain off mks opers where p: "p = (off, mks, opers)" by (cases p)
  show ?case
    using Cons match_call_bounded [of m "mmap_addr lr + ip - of_nat off - txt_vaddr lr" "zip mks opers"]
    by (cases "match_call m (mmap_addr lr + ip - of_nat off - txt_vaddr lr) (zip mks opers)") (auto simp: p)
qed simp

lemma check_call_bounded: "dwarf_arch_check_call env as ip \<noteq> Inl (Fault OutOfBounds)"
  by (auto simp: dwarf_arch_check_call_def check_calls_bounded split: option.split)

lemma guess_words_post: "as_ok b as \<Longrightarrow> safeS b (guess_words env cfa buf i as)"
proof (induction "Suc (length buf) - i" arbitrary: i as rule: less_induct)
  case less
  let ?sz = "DWARF_ADDR_SIZE as" and ?ip = "le_word (take (DWARF_ADDR_SIZE as) (drop i buf)) :: ulong"
  obtain r as1 where l: "dwarf_locate_map env ?ip as = (r, as1)" by fastforce
  have ok: "as_ok b as1" "r \<noteq> Inl (Fault OutOfBounds)" using locate_post [OF less.prems, of env ?ip] l by (auto simp: postS_def)
  have f: "as_ok b (upd_cursor (\<lambda>c. c\<lparr>c_cfa := x, c_ip := y, c_ret_addr_column := 0, c_loc := map (\<lambda>_. n) (c_loc c)\<rparr>) as1)" for x y n
    using ok(1) by (simp add: as_ok_def upd_cursor_def nregs_def)
  show ?case
  proof (cases "i + ?sz \<le> length buf")
    case True
    then have "safeS b (guess_words env cfa buf (i + ?sz) as1)"
      using ok(1) by (intro less.hyps) (auto simp: DWARF_ADDR_SIZE_def split: if_splits)
    then show ?thesis using l ok True f check_call_bounded [of env as1 ?ip]
      by (subst guess_words.simps) (simp add: Let_def split: sum.split derr.split bool.split, auto)
  qed (use less.prems in \<open>subst guess_words.simps, simp\<close>)
qed

text \<open>What the copy of the stack needs: it is not refused outright, though it may be short.\<close>

definition stack_readable :: "dwarf_env \<Rightarrow> ulong \<Rightarrow> bool" where
  "stack_readable env cfa \<longleftrightarrow> snd (copy_from_proc False (traced_proc (de_mem env)) cfa 512) \<noteq> None"

lemma guess_passes_post:
  assumes "stack_readable env cfa"
  shows "as_ok b as \<Longrightarrow> safeS b (guess_passes k env cfa as)"
proof (induction k arbitrary: as)
  case (Suc k)
  obtain buf where buf: "snd (copy_from_proc False (traced_proc (de_mem env)) cfa 512) = Some buf"
    using assms by (auto simp: stack_readable_def)
  obtain r as1 where g: "guess_words env cfa buf 0 as = (r, as1)" by fastforce
  then have "as_ok b as1" "r \<noteq> Inl (Fault OutOfBounds)"
    using guess_words_post [OF Suc.prems, of env cfa buf 0] by (auto simp: postS_def)
  with Suc.IH buf g show ?case by (simp split: sum.split bool.split) auto
qed simp

lemma step_failed_post:
  assumes "stack_readable env cfa" "as_ok b as"
  shows "safeS b (step_failed env cfa ip e as)"
proof -
  let ?as = "upd_cursor (\<lambda>c. c\<lparr>c_ip := ip\<rparr>) as"
  obtain r as1 where c: "(if e = DWARF_ENOINFO then chain_step env ?as else (Inl (Dw e), ?as)) = (r, as1)" by fastforce
  then have ok: "as_ok b as1" "r \<noteq> Inl (Fault OutOfBounds)"
    using chain_step_post [of b ?as env] assms(2) by (auto simp: postS_def split: if_splits)
  obtain g as2 where g: "guess_passes 9 env cfa as1 = (g, as2)" by fastforce
  then have "as_ok b as2" "g \<noteq> Inl (Fault OutOfBounds)"
    using guess_passes_post [OF assms(1) ok(1), of 9] by (auto simp: postS_def)
  with ok c g show ?thesis by (simp add: step_failed_def Let_def split: sum.split derr.split bool.split) auto
qed

theorem dwarf_step_post:
  assumes "as_ok b as" "stack_readable env (c_cfa (as_cursor as))"
  shows "safeS b (dwarf_step env as)"
proof -
  let ?ip = "if c_use_prev_instr (as_cursor as) then c_ip (as_cursor as) - 1 else c_ip (as_cursor as)"
  obtain r as1 where u: "unwind_frame env ?ip as = (r, as1)" by fastforce
  then have "as_ok b as1" "r \<noteq> Inl (Fault OutOfBounds)"
    using unwind_frame_post [OF assms(1), of env ?ip] by (auto simp: postS_def)
  with step_failed_post [OF assms(2)] u assms(1) show ?thesis
    unfolding dwarf_step_def Let_def by (simp split: sum.split derr.split) auto
qed


subsection \<open>Where a step ends\<close>

text \<open>The library of the cursor holds the instruction the frame is at.\<close>

definition located :: "dwarf_addr_space \<Rightarrow> bool" where
  "located as \<longleftrightarrow> (let c = as_cursor as in
     case c_libref c of None \<Rightarrow> False | Some lr \<Rightarrow> in_text (if c_use_prev_instr c then c_ip c - 1 else c_ip c) lr)"

lemma locate_located:
  assumes "dwarf_locate_map env ip as = (Inr u, as')"
  shows "located (upd_cursor (\<lambda>c. c\<lparr>c_ip := ip\<rparr>) as')"
  using assms addr2libref_loop_Some
  by (auto simp: dwarf_locate_map_def located_def upd_cursor_def addr2libref_def Let_def split: if_splits option.splits)

lemma locate_keeps_ip:
  assumes "dwarf_locate_map env (c_ip (as_cursor as)) as = (Inr u, as')"
  shows "located as'"
proof -
  have "c_ip (as_cursor as') = c_ip (as_cursor as)"
    using assms by (auto simp: dwarf_locate_map_def upd_cursor_def Let_def split: if_splits option.splits)
  then have "upd_cursor (\<lambda>c. c\<lparr>c_ip := c_ip (as_cursor as)\<rparr>) as' = as'" by (simp add: upd_cursor_def)
  with locate_located [OF assms] show ?thesis by simp
qed

lemma unwind_frame_located: "unwind_frame env ip as = (Inr u, as') \<Longrightarrow> located as'"
  unfolding unwind_frame_def by (auto simp: bindS_Inr getS_def intro: locate_keeps_ip)

lemma chain_step_located: "chain_step env as = (Inr u, as') \<Longrightarrow> located as'"
  by (auto simp: chain_step_def intro: locate_keeps_ip split: prod.splits sum.splits derr.splits)

lemma guess_words_located: "guess_words env cfa buf i as = (Inr True, as') \<Longrightarrow> located as'"
proof (induction "Suc (length buf) - i" arbitrary: i as rule: less_induct)
  case less
  let ?sz = "DWARF_ADDR_SIZE as" and ?ip = "le_word (take (DWARF_ADDR_SIZE as) (drop i buf)) :: ulong"
  obtain r as1 where l: "dwarf_locate_map env ?ip as = (r, as1)" by fastforce
  have le: "i + ?sz \<le> length buf" using less.prems by (subst (asm) guess_words.simps) (auto simp: Let_def split: if_splits)
  have rec: "located as'" if "guess_words env cfa buf (i + ?sz) as1 = (Inr True, as')"
    by (rule less.hyps [OF _ that]) (use le in \<open>auto simp: DWARF_ADDR_SIZE_def split: if_splits\<close>)
  have "located (upd_cursor (\<lambda>c. c\<lparr>c_cfa := x, c_ip := ?ip, c_ret_addr_column := 0, c_loc := map (\<lambda>_. n) (c_loc c)\<rparr>) as1)"
    if "r = Inr ()" for x n
    using locate_located [of env ?ip as "()" as1] l that by (auto simp: located_def upd_cursor_def Let_def split: option.splits)
  then show ?case using less.prems l le rec
    by (subst (asm) guess_words.simps) (auto simp: Let_def split: sum.splits derr.splits bool.splits)
qed

lemma guess_passes_located: "guess_passes k env cfa as = (Inr True, as') \<Longrightarrow> located as'"
  by (induction k arbitrary: as)
     (auto intro: guess_words_located split: option.splits prod.splits sum.splits bool.splits if_splits)

lemma step_failed_located: "step_failed env cfa ip e as = (Inr u, as') \<Longrightarrow> located as'"
  by (auto simp: step_failed_def Let_def intro: guess_passes_located chain_step_located
      split: prod.splits sum.splits derr.splits bool.splits if_splits)

theorem dwarf_step_located: "dwarf_step env as = (Inr (), as') \<Longrightarrow> located as'"
  by (auto simp: dwarf_step_def Let_def intro: step_failed_located unwind_frame_located
      split: prod.splits sum.splits derr.splits if_splits)

text \<open>The search reports no error of its own.\<close>

lemma match_call_fault: "match_call m a ps \<noteq> Inl (Dw e)"
  by (induction ps arbitrary: a) (auto split: option.splits if_splits)

lemma check_calls_fault: "check_calls m lr ip ps \<noteq> Inl (Dw e)"
proof (induction ps)
  case (Cons p ps)
  obtain off mks opers where p: "p = (off, mks, opers)" by (cases p)
  show ?case
    using Cons match_call_fault [of m "mmap_addr lr + ip - of_nat off - txt_vaddr lr" "zip mks opers"]
    by (cases "match_call m (mmap_addr lr + ip - of_nat off - txt_vaddr lr) (zip mks opers)") (auto simp: p)
qed simp

lemma guess_words_fault: "fst (guess_words env cfa buf i as) \<noteq> Inl (Dw e)"
proof (induction "Suc (length buf) - i" arbitrary: i as rule: less_induct)
  case less
  let ?sz = "DWARF_ADDR_SIZE as" and ?ip = "le_word (take (DWARF_ADDR_SIZE as) (drop i buf)) :: ulong"
  obtain r as1 where l: "dwarf_locate_map env ?ip as = (r, as1)" by fastforce
  have rec: "fst (guess_words env cfa buf (i + ?sz) as1) \<noteq> Inl (Dw e)" if "i + ?sz \<le> length buf"
    by (rule less.hyps) (use that in \<open>auto simp: DWARF_ADDR_SIZE_def split: if_splits\<close>)
  have "dwarf_arch_check_call env as1 ?ip \<noteq> Inl (Dw e)"
    by (auto simp: dwarf_arch_check_call_def check_calls_fault split: option.split)
  then show ?case using l rec
    by (subst guess_words.simps) (simp add: Let_def split: sum.split derr.split bool.split, auto)
qed

lemma guess_passes_fault: "guess_passes k env cfa as \<noteq> (Inl (Dw e), as')"
proof (induction k arbitrary: as)
  case (Suc k)
  show ?case
  proof (cases "snd (copy_from_proc False (traced_proc (de_mem env)) cfa 512)")
    case (Some buf)
    obtain r as1 where g: "guess_words env cfa buf 0 as = (r, as1)" by fastforce
    then have "r \<noteq> Inl (Dw e)" using guess_words_fault [of env cfa buf 0 as e] by simp
    with Suc Some g show ?thesis by (auto split: sum.splits bool.splits)
  qed simp
qed simp

theorem dwarf_step_ends:
  assumes "dwarf_step env as = (Inl (Dw e), as')"
  shows "\<not> c_valid (as_cursor as')" "dwarf_get_ip as' = 0" "dwarf_step env' as' = (Inl (Dw DWARF_EINVAL), as')"
proof -
  show v: "\<not> c_valid (as_cursor as')" using assms guess_passes_fault
    by (auto simp: dwarf_step_def step_failed_def upd_cursor_def Let_def
        split: prod.splits sum.splits derr.splits bool.splits if_splits)
  then show "dwarf_get_ip as' = 0" "dwarf_step env' as' = (Inl (Dw DWARF_EINVAL), as')"
    by (simp_all add: dwarf_get_ip_def dwarf_step_def)
qed


subsection \<open>The caller a register table describes\<close>

text \<open>The rules that need no expression, each on its own.\<close>

definition plain_rule :: "dwarf_reg \<Rightarrow> bool" where
  "plain_rule r \<longleftrightarrow> dr_where r \<notin> {DWARF_WHERE_EXPR, DWARF_WHERE_VAL_EXPR}"

definition caller_loc :: "ulong \<Rightarrow> dwarf_reg \<Rightarrow> dwarf_loc \<Rightarrow> dwarf_loc" where
  "caller_loc cfa r old =
     (if dr_where r = DWARF_WHERE_UNDEF then DWARF_NULL_LOC
      else if dr_where r = DWARF_WHERE_CFAREL then DWARF_LOC (cfa + dr_val r) DWARF_LOC_TYPE_MEM
      else if dr_where r = DWARF_WHERE_REG then DWARF_LOC (dr_val r) DWARF_LOC_TYPE_REG
      else old)"

lemma upd_cursor_upd [simp]: "upd_cursor f (upd_cursor g as) = upd_cursor (\<lambda>c. f (g c)) as"
  by (simp add: upd_cursor_def)

lemma apply_reg_plain:
  assumes "plain_rule (rs ! i)" "i < length (c_loc (as_cursor as))"
  shows "apply_reg env rs cfa i as =
    (Inr (), upd_cursor (\<lambda>c. c\<lparr>c_loc := (c_loc c)[i := caller_loc cfa (rs ! i) (c_loc c ! i)]\<rparr>) as)"
  using assms by (cases "dr_where (rs ! i)") (auto simp: apply_reg_def plain_rule_def caller_loc_def set_loc_def upd_cursor_def)

lemma apply_regs_plain:
  assumes "\<forall>i < n. plain_rule (rs ! i)" "n \<le> length (c_loc (as_cursor as))" "k \<le> n"
  shows "apply_regs env rs cfa [k..<n] as =
    (Inr (), upd_cursor (\<lambda>c. c\<lparr>c_loc := take k (c_loc c) @ map (\<lambda>i. caller_loc cfa (rs ! i) (c_loc c ! i)) [k..<n] @ drop n (c_loc c)\<rparr>) as)"
  using assms(3,2)
proof (induction "n - k" arbitrary: k as)
  case 0
  then show ?case by (simp add: retS_def upd_cursor_def)
next
  case (Suc d)
  then have k: "k < n" by simp
  define as1 where "as1 = upd_cursor (\<lambda>c. c\<lparr>c_loc := (c_loc c)[k := caller_loc cfa (rs ! k) (c_loc c ! k)]\<rparr>) as"
  have r: "apply_reg env rs cfa k as = (Inr (), as1)"
    using apply_reg_plain [of rs k as env cfa] assms(1) k Suc.prems(2) by (simp add: as1_def)
  have "apply_regs env rs cfa [Suc k..<n] as1 =
    (Inr (), upd_cursor (\<lambda>c. c\<lparr>c_loc := take (Suc k) (c_loc c) @ map (\<lambda>i. caller_loc cfa (rs ! i) (c_loc c ! i)) [Suc k..<n] @ drop n (c_loc c)\<rparr>) as1)"
    using Suc k by (intro Suc.hyps) (auto simp: as1_def upd_cursor_def)
  moreover have "take (Suc k) (xs[k := y]) = take k xs @ [y]" if "k < length xs" for xs :: "dwarf_loc list" and y
    using that by (simp add: take_Suc_conv_app_nth)
  ultimately show ?case using k Suc.prems(2) r
    by (simp add: upt_conv_Cons bindS_def as1_def) (simp add: upd_cursor_def)
qed

lemma dwarf_get_cursor [simp]: "dwarf_get env (as\<lparr>as_cursor := c\<rparr>) loc = dwarf_get env as loc"
  by (simp add: dwarf_get_def dwarf_access_reg_def dwarf_arch_map_reg_def cong: if_cong)

theorem apply_reg_state_plain:
  assumes "as_ok b as" "\<forall>i < nregs b. plain_rule (rs ! i)" "frame_address env rs as = Inr cfa"
    and "locs = map (\<lambda>i. caller_loc cfa (rs ! i) (c_loc (as_cursor as) ! i)) [0..<nregs b]"
    and "loc = locs ! unat (c_ret_addr_column (as_cursor as))"
    and "if DWARF_IS_NULL_LOC loc then ip = 0 else dwarf_get env as loc = Inr ip"
    and "ip \<noteq> c_ip (as_cursor as) \<or> cfa \<noteq> c_cfa (as_cursor as)"
  shows "apply_reg_state env rs as = (Inr (), upd_cursor (\<lambda>c. c\<lparr>c_loc := locs, c_cfa := cfa, c_ip := ip\<rparr>) as)"
proof -
  have n: "as_num_regs as = nregs b" "length (c_loc (as_cursor as)) = nregs b" "length locs = nregs b"
    "unat (c_ret_addr_column (as_cursor as)) < nregs b" using assms(1,4) by (auto simp: as_ok_def)
  have "apply_regs env rs cfa [0..<as_num_regs as] as = (Inr (), upd_cursor (\<lambda>c. c\<lparr>c_loc := locs\<rparr>) as)"
    using apply_regs_plain [OF assms(2), of as 0 env cfa] n assms(4) by (simp add: upd_cursor_def)
  moreover have "return_address env (upd_cursor (\<lambda>c. c\<lparr>c_loc := locs, c_cfa := cfa\<rparr>) as) =
    (Inr (), upd_cursor (\<lambda>c. c\<lparr>c_loc := locs, c_cfa := cfa, c_ip := ip\<rparr>) as)"
    using assms(5,6) n by (auto simp: return_address_def get_loc_def bindS_def dop_defs upd_cursor_def split: if_splits)
  ultimately show ?thesis using assms(3,7)
    by (simp add: apply_reg_state_def Let_def bindS_def dop_defs) (auto simp: upd_cursor_def)
qed

end
