(* ===== verification/Server_Properties.thy ===== *)
theory Server_Properties
  imports Client_Properties Leak_Scan Dict Library_Steps Dwarf_Step
begin

text \<open>
  What the tracer guarantees: the leak scan together with the client, the table of breakpoints, the
  libraries, and the unwinder with the small images it is evaluated on.
\<close>

subsection \<open>The leak scan\<close>

text \<open>One writable page of zero bytes.\<close>

definition ex_scan :: scan_env where
  "ex_scan = \<lparr>writeable_mappings = [(65536, 69632)], mem_page = (\<lambda>_. Some (replicate 4096 0)),
     copy_page = (\<lambda>_. Some (replicate 4096 0))\<rparr>"

text \<open>C2. A leak scan, from the request of the client to the answer of the tracer: the addresses that
  come back are exactly those of the requested blocks that no aligned word of a writable page of the
  process holds, in order.\<close>

theorem leak_scan_unreferenced:
  assumes "proc_inv pr h" "process_leaks_scan pr h mode = Inr (n, pr', h')" "n \<noteq> 0" "length (blocks pr) < 2 ^ 28"
    and "distinct (map b_addr (blocks pr))"
    and "put_ulong pr = put_uint64" "pval32 pr = val32" "pval64 pr = val64" "ptr_size pr = 8"
    and "consistent env" "\<forall>m \<in> set (writeable_mappings env). readable env m"
  shows "\<exists>payload. last (events h') = Message MT_SCAN payload \<and>
    mem_scan env (of_nat (length payload)) payload =
      Some (Some (concat (map put_uint64
        (filter (\<lambda>a. \<forall>m \<in> set (writeable_mappings env). a \<notin> map_words env 8 m) (scan_list pr h mode)))))"
  by (rule leak_scan_answer [OF assms])

lemma ex_scan_list: "scan_list (ex_proc ex_tree1) (ex_heap MT_MALLOC ex_tree1) SCAN_ALL = [4096]"
  by code_simp

lemma ex_scan_ok: "consistent ex_scan" "\<forall>m \<in> set (writeable_mappings ex_scan). readable ex_scan m"
  by (simp_all add: consistent_def readable_def page_at_def ex_scan_def)

lemma ex_scan_words: "4096 \<notin> map_words ex_scan 8 (65536, 69632)"
proof -
  have z: "le_word (replicate n 0) = 0" for n by (induction n) simp_all
  have "the (get_val_of 8 (replicate 4096 0) (of_nat i)) = 0" if "i < 512" for i
  proof -
    have "unat (of_nat i * 8 :: ulong) = i * 8" using that by (simp add: unat_word_ariths unat_of_nat)
    moreover have "8 \<le> 4096 - i * 8" using that by simp
    ultimately show ?thesis by (simp add: get_val_of_def get_val64_def get_uint64_def read_bytes_def z)
  qed
  then show ?thesis by (auto simp: map_words_def page_at_def page_words_def ex_scan_def PAGE_SIZE_def)
qed

theorem leak_scan_unreferenced_witness:
  "\<exists>n pr' h' payload. process_leaks_scan (ex_proc ex_tree1) (ex_heap MT_MALLOC ex_tree1) SCAN_ALL = Inr (n, pr', h') \<and>
     last (events h') = Message MT_SCAN payload \<and>
     mem_scan ex_scan (of_nat (length payload)) payload =
       Some (Some (put_uint64 4096))"
proof -
  have "\<not> isl (process_leaks_scan (ex_proc ex_tree1) (ex_heap MT_MALLOC ex_tree1) SCAN_ALL) \<and>
    fst (projr (process_leaks_scan (ex_proc ex_tree1) (ex_heap MT_MALLOC ex_tree1) SCAN_ALL)) = 1" by code_simp
  then obtain n pr' h' where
    r: "process_leaks_scan (ex_proc ex_tree1) (ex_heap MT_MALLOC ex_tree1) SCAN_ALL = Inr (n, pr', h')" "n \<noteq> 0"
    by (cases "process_leaks_scan (ex_proc ex_tree1) (ex_heap MT_MALLOC ex_tree1) SCAN_ALL") auto
  have p: "put_ulong (ex_proc ex_tree1) = put_uint64" "pval32 (ex_proc ex_tree1) = val32" "pval64 (ex_proc ex_tree1) = val64"
    "ptr_size (ex_proc ex_tree1) = 8" "length (blocks (ex_proc ex_tree1)) < 2 ^ 28" "distinct (map b_addr (blocks (ex_proc ex_tree1)))"
    by (simp_all add: ex_defs)
  have "writeable_mappings ex_scan = [(65536, 69632)]" by (simp add: ex_scan_def)
  with leak_scan_unreferenced [OF ex_inv(1) r p(5,6,1-4) ex_scan_ok] r(1) ex_scan_words show ?thesis
    by (simp add: ex_scan_list)
qed

subsection \<open>The table of breakpoints\<close>

text \<open>C15. Whatever is added to, removed from and looked up in the table of the breakpoints of a process,
  one operation after the other, each answers as the same operation on a map would, and the table
  lists exactly the pairs of the map.\<close>

theorem breakpoint_table_is_map:
  fixes ops :: "'v table_op list"
  shows "\<exists>d. table_run dict_add dict_remove_entry dict_find_entry ops (dict_init 12401 target_address_hash target_address_cmp) =
       Some (fst (map_run ops Map.empty), d) \<and>
     set (dict_clear d) = {(k, v). snd (map_run ops Map.empty) k = Some v} \<and> distinct (map fst (dict_clear d))"
proof -
  let ?d = "dict_init 12401 target_address_hash target_address_cmp :: 'v dict"
  have i: "dict_inv ?d" "dict_map ?d = Map.empty"
    using dict_init_inv [of 12401 target_address_cmp target_address_hash] by (auto simp: target_address_cmp_eq)
  from dict.run_sim [OF i(1), of ops] obtain d where
    "table_run dict_add dict_remove_entry dict_find_entry ops ?d = Some (fst (map_run ops Map.empty), d)"
    "dict_inv d" "dict_map d = snd (map_run ops Map.empty)" unfolding i(2) by blast
  with dict_entries [of d] show ?thesis by auto
qed

subsection \<open>The libraries\<close>

text \<open>C13. In every state the processes reach by adding, removing and sharing libraries, each reference is
  counted exactly once per library of any process that holds it; a library can be removed, which frees
  its reference exactly when no other library holds it; and where the text segments do not overlap,
  the search of the tree finds the library of an address exactly when the list has one.\<close>

theorem libraries_counted:
  assumes "lib_run (ll # lls) st" "lib \<in> set (libraries_list ll)"
  shows "refcnt st (lr_id (lib_ref lib)) = Some (of_nat (refs_to (lr_id (lib_ref lib)) (all_libs (ll # lls)))) \<and>
    (\<exists>ll' st'. library_unlink lib ll st = Inr (ll', st') \<and> lib_run (ll' # lls) st' \<and>
       (refcnt st' (lr_id (lib_ref lib)) = None \<longleftrightarrow> refs_to (lr_id (lib_ref lib)) (all_libs (ll' # lls)) = 0)) \<and>
    (texts_ok (libraries_list ll) \<longrightarrow> (\<forall>a lr. addr2libref ll a = Some lr \<longleftrightarrow> (\<exists>l \<in> set (libraries_list ll). lib_ref l = lr \<and> in_text a lr)))"
proof -
  have ok: "libs_ok (ll # lls) st" using assms(1) by (rule lib_run_ok)
  have inv: "lib_inv ll" and "refs_ok st (all_libs (ll # lls))" using ok by (simp_all add: libs_ok_def)
  moreover have "lib \<in> set (all_libs (ll # lls))" using assms(2) by simp
  ultimately have c: "refcnt st (lr_id (lib_ref lib)) = Some (of_nat (refs_to (lr_id (lib_ref lib)) (all_libs (ll # lls))))"
    unfolding refs_ok_def by blast
  obtain ll' st' where "library_unlink lib ll st = Inr (ll', st')"
    "refcnt st' (lr_id (lib_ref lib)) = None \<longleftrightarrow> refs_to (lr_id (lib_ref lib)) (all_libs (ll' # lls)) = 0"
    using libs_ok_unlink [OF ok assms(2)] by (elim exE conjE)
  with lib_run.unlink [OF assms] have "\<exists>ll' st'. library_unlink lib ll st = Inr (ll', st') \<and> lib_run (ll' # lls) st' \<and>
    (refcnt st' (lr_id (lib_ref lib)) = None \<longleftrightarrow> refs_to (lr_id (lib_ref lib)) (all_libs (ll' # lls)) = 0)"
    by (intro exI [of _ ll'] exI [of _ st']) simp
  with c addr2libref_exact [OF inv] show ?thesis by simp
qed

definition ex_libs :: "nat \<Rightarrow> (leader_libs \<times> ref_store) dres" where
  "ex_libs n =
     (case libref_new 0 no_refs of (lr, st) \<Rightarrow> library_add_ref library_setup (lr\<lparr>txt_vaddr := 4096, txt_size := of_nat n\<rparr>) st)"

theorem libraries_counted_witness:
  "\<exists>ll st lib. ex_libs 100 = Inr (ll, st) \<and> libraries_list ll = [lib] \<and> refcnt st (lr_id (lib_ref lib)) = Some 1 \<and>
     addr2libref ll 4100 = Some (lib_ref lib)"
proof -
  obtain lr st1 where n: "libref_new 0 no_refs = (lr, st1)" by fastforce
  define lr' where "lr' = lr\<lparr>txt_vaddr := 4096, txt_size := 100\<rparr>"
  obtain ll st where a: "library_add_ref library_setup lr' st1 = Inr (ll, st)"
    and l: "libraries_list ll = [\<lparr>lib_id = next_id st1, lib_ref = lr'\<rparr>]"
    using n by (auto simp: library_add_ref_def libref_get_def libref_new_def no_refs_def library_setup_def lr'_def Let_def)
  let ?lib = "\<lparr>lib_id = next_id st1, lib_ref = lr'\<rparr>"
  have "lib_run [ll] st"
    by (rule lib_run.add [OF lib_run.leader [OF lib_run.start] n _ _ a]) (simp_all add: lr'_def library_setup_def)
  from libraries_counted [OF this, of ?lib] l have
    "refcnt st (lr_id lr') = Some 1" "addr2libref ll 4100 = Some lr'" 
    by (auto simp: texts_ok_def lr'_def in_text_def)
  with n a l show ?thesis by (simp add: ex_libs_def lr'_def)
qed


subsection \<open>The unwind tables\<close>

text \<open>An image of the given bytes at address 4096, and a process of zero bytes.\<close>

definition ex_image :: "bytes \<Rightarrow> mem" where
  "ex_image bs a = (if 4096 \<le> a \<and> unat a < 4096 + length bs then Some (bs ! (unat a - 4096)) else None)"

definition ex_traced :: traced where
  "ex_traced = \<lparr>t_mem = (\<lambda>_. Some 0), t_stopped = True, t_readv = (\<lambda>_ n. Inr (replicate n 0))\<rparr>"

definition ex_dm :: "bytes \<Rightarrow> dwarf_mem" where
  "ex_dm bs = \<lparr>local_mem = ex_image bs, traced_proc = ex_traced\<rparr>"

lemma ex_holds: "length bs < 4096 \<Longrightarrow> holds_bytes (local_mem (ex_dm bs)) 4096 bs"
  by (auto simp: holds_bytes_def ex_dm_def ex_image_def unat_word_ariths unat_of_nat word_le_nat_alt word_unat_eq_iff)

text \<open>C33. Reading back an encoded number gives the number, for every value of 64 bits, and ends right
  behind it.\<close>

theorem uleb128_roundtrip:
  assumes "holds_bytes (local_mem dm) addr (uleb_encode (unat v))"
  shows "dwarf_read_uleb128 dm Local addr = Inr (v, addr + of_nat (length (uleb_encode (unat v))))"
proof -
  have "unat v < 128 ^ 10" using unsigned_less [of v, where 'a = nat] by simp
  then have "length (uleb_encode (unat v)) \<le> 10" by (rule uleb_encode_length) simp
  with dwarf_read_uleb128_value [OF assms] uleb_encode_value [of "unat v"] show ?thesis by simp
qed

theorem uleb128_roundtrip_witness:
  "dwarf_read_uleb128 (ex_dm (uleb_encode 300)) Local 4096 = Inr (300, 4098)"
proof -
  have l: "length (uleb_encode 300) = 2" by (simp add: uleb_encode.simps)
  with uleb128_roundtrip [of "ex_dm (uleb_encode 300)" 4096 300] ex_holds [of "uleb_encode 300"] show ?thesis by simp
qed

text \<open>C14. The binary search of the table in the header of the unwind information finds the last entry
  that does not start behind the address, as a search of all entries would, for every sorted table.\<close>

theorem lookup_last_before:
  assumes "\<And>i. unat i < length es \<Longrightarrow> table_entry dm tab i = Inr (es ! unat i)"
    and "sorted_wrt (\<lambda>a b. fst a \<le>s fst b) es" "length es \<le> 2 ^ 63"
  shows "lookup (table_entry dm tab) (of_nat (length es)) rel_ip =
    Inr (let ps = filter (\<lambda>e. fst e \<le>s rel_ip) es in if ps = [] then None else Some (last ps))"
  by (rule lookup_result [OF assms])

definition ex_table :: bytes where
  "ex_table = le_bytes 4 0x10 @ le_bytes 4 0x100 @ le_bytes 4 0x20 @ le_bytes 4 0x200 @ le_bytes 4 0x30 @ le_bytes 4 0x300"

theorem lookup_last_before_witness:
  "lookup (table_entry (ex_dm ex_table) 4096) 3 0x2f = Inr (Some (0x20, 0x200))"
proof -
  let ?es = "[(0x10, 0x100), (0x20, 0x200), (0x30, 0x300)] :: (ulong \<times> ulong) list"
  let ?m = "local_mem (ex_dm ex_table)"
  have "holds_bytes ?m 4096 ex_table" by (rule ex_holds) (simp add: ex_table_def)
  then have h: "holds_bytes ?m 4096 (le_bytes 4 0x10)" "holds_bytes ?m 4100 (le_bytes 4 0x100)" "holds_bytes ?m 4104 (le_bytes 4 0x20)"
    "holds_bytes ?m 4108 (le_bytes 4 0x200)" "holds_bytes ?m 4112 (le_bytes 4 0x30)" "holds_bytes ?m 4116 (le_bytes 4 0x300)"
    by (simp_all add: ex_table_def holds_bytes_append)
  have "read_mem ?m a 4 = Some (le_bytes 4 v)" if "holds_bytes ?m a (le_bytes 4 v)" for a v
    using read_mem_holds [OF that] by simp
  note r = h [THEN this]
  have t: "table_entry (ex_dm ex_table) 4096 0 = Inr (?es ! 0)" "table_entry (ex_dm ex_table) 4096 1 = Inr (?es ! 1)"
    "table_entry (ex_dm ex_table) 4096 2 = Inr (?es ! 2)"
    using r by (simp_all add: table_entry_def le_word_bytes s32_def)
  have "table_entry (ex_dm ex_table) 4096 i = Inr (?es ! unat i)" if "unat i < length ?es" for i
  proof -
    have "unat i = 0 \<or> unat i = 1 \<or> unat i = 2" using that by auto
    then have "i = 0 \<or> i = 1 \<or> i = 2" by (auto simp: word_unat_eq_iff)
    with t show ?thesis by auto
  qed
  from lookup_last_before [where rel_ip = "0x2f", OF this] show ?thesis by (simp add: word_sle_eq)
qed







text \<open>C10. The evaluation of location expressions computes what it should: the code of every arithmetic
  expression, with its length in front, evaluates to the value of the expression.\<close>

theorem dwarf_eval_expr_compiled:
  assumes "holds_bytes (local_mem (de_mem env)) addr (uleb_encode (length (acode e)) @ acode e)" "small_lits e" "adepth e < 64"
    and "unat addr + length (uleb_encode (length (acode e))) + length (acode e) < 2 ^ 64"
  shows "dwarf_eval_expr env as addr = Inr (DWARF_LOC (aval e) DWARF_LOC_TYPE_MEM)"
  by (rule dwarf_eval_expr_value [OF assms])

definition ex_denv :: "bytes \<Rightarrow> dwarf_env" where
  "ex_denv bs = \<lparr>de_mem = ex_dm bs, de_regs = \<lparr>task_is_64bit = True, cx_iregs = (\<lambda>_. 0), saved_iregs = (\<lambda>_. 0)\<rparr>,
     de_libs = library_setup\<rparr>"

definition ex_expr :: aexp where
  "ex_expr = Bin BMul (Bin BPlus (Const 5) (Lit 3)) (Neg (Lit 2))"

theorem dwarf_eval_expr_compiled_witness:
  "dwarf_eval_expr (ex_denv (uleb_encode (length (acode ex_expr)) @ acode ex_expr)) (dwarf_init True []) 4096 =
     Inr (DWARF_LOC (-16) DWARF_LOC_TYPE_MEM)"
proof -
  let ?bs = "uleb_encode (length (acode ex_expr)) @ acode ex_expr"
  have a: "length (acode ex_expr) = 14" "aval ex_expr = -16" "small_lits ex_expr" "adepth ex_expr < 64" by (simp_all add: ex_expr_def)
  have u: "length (uleb_encode 14) = 1" by (simp add: uleb_encode.simps)
  have "holds_bytes (local_mem (de_mem (ex_denv ?bs))) 4096 ?bs"
    using ex_holds [of ?bs] a(1) u by (simp add: ex_denv_def)
  from dwarf_eval_expr_compiled [OF this a(3,4), of "dwarf_init True []"] a u show ?thesis by simp
qed

text \<open>C9. A step of the unwinder keeps the cursor well formed and stays in its arrays when the stack can
  be read; where it ends in a frame, the library of the cursor holds the instruction of the frame, and
  where it fails, the unwind is over: the address is zero and no further step changes anything.\<close>

theorem dwarf_step_keeps:
  assumes "as_ok b as" "stack_readable env (c_cfa (as_cursor as))" "dwarf_step env as = (r, as')"
  shows "as_ok b as' \<and> r \<noteq> Inl (Fault OutOfBounds) \<and> (r = Inr () \<longrightarrow> located as') \<and>
    (\<forall>e. r = Inl (Dw e) \<longrightarrow> dwarf_get_ip as' = 0 \<and> (\<forall>env'. dwarf_step env' as' = (Inl (Dw DWARF_EINVAL), as')))"
proof (intro conjI impI allI)
  show "as_ok b as'" "r \<noteq> Inl (Fault OutOfBounds)"
    using dwarf_step_post [OF assms(1,2)] assms(3) by (auto simp: postS_def)
  show "located as'" if "r = Inr ()" using assms(3) that dwarf_step_located by blast
  fix e env'
  assume "r = Inl (Dw e)"
  with assms(3) have d: "dwarf_step env as = (Inl (Dw e), as')" by simp
  show "dwarf_get_ip as' = 0" "dwarf_step env' as' = (Inl (Dw DWARF_EINVAL), as')" by (rule dwarf_step_ends [OF d])+
qed


text \<open>A frame in a library without an unwind table.\<close>

definition ex_as :: dwarf_addr_space where
  "ex_as = upd_cursor (\<lambda>c. c\<lparr>c_valid := True, c_ip := 4100, c_libref := Some (fst (libref_new 0 no_refs))\<rparr>)
     (dwarf_init True (replicate 17 DWARF_NULL_LOC))"

theorem dwarf_step_keeps_witness:
  "\<exists>r as'. dwarf_step (ex_denv []) ex_as = (r, as') \<and> as_ok True as' \<and> r \<noteq> Inl (Fault OutOfBounds)"
proof -
  obtain r as' where d: "dwarf_step (ex_denv []) ex_as = (r, as')" by fastforce
  have "as_ok True ex_as"
    by (simp add: as_ok_def ex_as_def dwarf_init_def dwarf_arch_init_def upd_cursor_def zero_cursor_def nregs_def)
  moreover have "stack_readable (ex_denv []) (c_cfa (as_cursor ex_as))"
    by (simp add: stack_readable_def copy_from_proc_def ex_denv_def ex_dm_def ex_traced_def)
  ultimately show ?thesis using dwarf_step_keeps d by blast
qed

end
