(* ===== verification/Wire.thy ===== *)
theory Wire
  imports Client_Types
begin

text \<open>
  Messages between tracer and client (\<open>memtrace.h\<close>, \<open>socket.c\<close>, the reader of \<open>client.c\<close>). A descriptor is
  the list of what the next calls of \<open>read\<close> will find: a chunk of bytes, or nothing for an error or the end
  of the file. Both programs run on a little-endian machine, as in the rest of the development; what a
  big-endian tracer puts on the wire is \<open>big_endian_msg\<close>.
\<close>

unbundle bit_operations_syntax

subsection \<open>Operation codes\<close>

definition operations :: "mt_operation list" where
  "operations =
     [MT_INFO, MT_DISCONNECT, MT_ADD_MAP, MT_DEL_MAP, MT_ATTACH, MT_ATTACH64, MT_FORK, MT_ABOUT_EXIT, MT_EXIT,
      MT_NOFOLLOW, MT_MALLOC, MT_REALLOC_ENTER, MT_REALLOC_DONE, MT_REALLOC, MT_FREE, MT_MMAP, MT_MMAP64,
      MT_MUNMAP, MT_MEMALIGN, MT_POSIX_MEMALIGN, MT_ALIGNED_ALLOC, MT_VALLOC, MT_PVALLOC, MT_SCAN, MT_STOP,
      MT_START, MT_DETACH, MT_NEW, MT_NEW_ARRAY, MT_DELETE, MT_DELETE_ARRAY, MT_DEPTH]"

fun op_index :: "mt_operation \<Rightarrow> mt_operation list \<Rightarrow> nat" where
  "op_index op [] = 0"
| "op_index op (x # xs) = (if x = op then 0 else Suc (op_index op xs))"

definition op_code :: "mt_operation \<Rightarrow> u16" where
  "op_code op = of_nat (op_index op operations)"

text \<open>A received number that no operation has is \<open>None\<close>.\<close>

definition op_of_code :: "u16 \<Rightarrow> mt_operation option" where
  "op_of_code c = (if unat c < length operations then Some (operations ! unat c) else None)"

lemma op_of_code_code [simp]: "op_of_code (op_code op) = Some op"
  by (cases op) (simp_all add: op_of_code_def op_code_def operations_def)

lemma op_code_le: "op_code op \<le> 0xff"
  by (cases op) (simp_all add: op_code_def operations_def)

subsection \<open>Reading and writing\<close>

fun read_fd :: "nat \<Rightarrow> bytes list \<Rightarrow> bytes option \<times> bytes list" where
  "read_fd n [] = (None, [])"
| "read_fd n (c # cs) =
     (if n = 0 \<or> c = [] then (None, cs)
      else if length c \<le> n then (Some c, cs)
      else (Some (take n c), drop n c # cs))"

lemma read_fd_length: "read_fd n cs = (Some b, cs') \<Longrightarrow> 0 < length b \<and> length b \<le> n"
  by (induction n cs rule: read_fd.induct) (auto split: if_splits)

function safe_read :: "nat \<Rightarrow> bytes list \<Rightarrow> bytes option \<times> bytes list" where
  "safe_read n cs =
     (case read_fd n cs of
        (None, cs) \<Rightarrow> (None, cs)
      | (Some b, cs) \<Rightarrow>
          if length b \<ge> n then (Some b, cs)
          else case safe_read (n - length b) cs of
            (None, cs) \<Rightarrow> (None, cs)
          | (Some b', cs) \<Rightarrow> (Some (b @ b'), cs))"
  by pat_completeness auto
termination
  by (relation "measure fst") (auto dest!: read_fd_length [OF sym])

declare safe_read.simps [simp del]

definition mt_header :: "u16 \<Rightarrow> u16 \<Rightarrow> u32 \<Rightarrow> bytes" where
  "mt_header op pid len = le_bytes 2 (ucast op) @ le_bytes 2 (ucast pid) @ le_bytes 4 (ucast len)"

text \<open>
  What \<open>sock_send_msg\<close> sends: operations of one byte go out as they are; for an operation swapped by the
  caller the other fields are swapped here, the process id, of 16 bits in the message, as a 32-bit number.
\<close>

definition sock_send_msg :: "u16 \<Rightarrow> u32 \<Rightarrow> bytes \<Rightarrow> bytes" where
  "sock_send_msg op pid payload =
     (let len = (of_nat (length payload) :: u32) in
      if op > 0xff then mt_header op (ucast (bswap_32 pid)) (bswap_32 len) @ payload
      else mt_header op (ucast pid) len @ payload)"

definition swap_msg :: "u16 \<times> u16 \<times> u32 \<Rightarrow> u16 \<times> u16 \<times> u32" where
  "swap_msg m = (case m of (op, pid, len) \<Rightarrow> (bswap_16 op, bswap_16 pid, bswap_32 len))"

definition header_of :: "bytes \<Rightarrow> u16 \<times> u16 \<times> u32" where
  "header_of b = (ucast (le_word (take 2 b)), ucast (le_word (take 2 (drop 2 b))), ucast (le_word (take 4 (drop 4 b))))"

text \<open>The message read and whether it was swapped; \<open>None\<close> when the connection is broken.\<close>

definition socket_read_msg :: "bytes list \<Rightarrow> ((u16 \<times> u16 \<times> u32) \<times> bytes \<times> bool) option \<times> bytes list" where
  "socket_read_msg cs =
     (case safe_read 8 cs of
        (None, cs) \<Rightarrow> (None, cs)
      | (Some b, cs) \<Rightarrow>
          let m = header_of b; swap = fst m > 0xff; m = (if swap then swap_msg m else m); len = snd (snd m) in
          if len = 0 then (Some (m, [], swap), cs)
          else case safe_read (unat len) cs of
            (None, cs) \<Rightarrow> (None, cs)
          | (Some payload, cs) \<Rightarrow> (Some (m, payload, swap), cs))"

text \<open>The same header from a tracer of the other byte order.\<close>

definition big_endian_msg :: "u16 \<Rightarrow> u16 \<Rightarrow> bytes \<Rightarrow> bytes" where
  "big_endian_msg op pid payload =
     rev (le_bytes 2 (ucast op)) @ rev (le_bytes 2 (ucast pid)) @ rev (le_bytes 4 (ucast (of_nat (length payload) :: u32))) @ payload"

subsection \<open>The bytes of a stream\<close>

text \<open>How the bytes are split into chunks does not matter as long as no read fails.\<close>

abbreviation flowing :: "bytes list \<Rightarrow> bool" where
  "flowing cs \<equiv> [] \<notin> set cs"

lemma read_fd_flowing:
  assumes "flowing cs" "0 < n" "concat cs \<noteq> []"
  shows "\<exists>b cs'. read_fd n cs = (Some b, cs') \<and> flowing cs' \<and> concat cs = b @ concat cs'"
  using assms by (cases cs) auto

lemma safe_read_flowing:
  assumes "flowing cs" "0 < n" "n \<le> length (concat cs)"
  shows "\<exists>cs'. safe_read n cs = (Some (take n (concat cs)), cs') \<and> flowing cs' \<and> concat cs' = drop n (concat cs)"
  using assms
proof (induction n arbitrary: cs rule: less_induct)
  case (less n)
  then have "concat cs \<noteq> []" by (metis length_greater_0_conv less_le_trans)
  with read_fd_flowing [OF less.prems(1,2)] obtain b cs1 where
    b: "read_fd n cs = (Some b, cs1)" "flowing cs1" "concat cs = b @ concat cs1" by blast
  from read_fd_length [OF b(1)] have l: "0 < length b" "length b \<le> n" by auto
  show ?case
  proof (cases "length b \<ge> n")
    case True
    with b l show ?thesis by (simp add: safe_read.simps [of n cs])
  next
    case False
    have "n - length b \<le> length (concat cs1)" using less.prems(3) b(3) by (simp only: length_append)
    with less.IH [of "n - length b" cs1] False l b(2) obtain cs2 where
      "safe_read (n - length b) cs1 = (Some (take (n - length b) (concat cs1)), cs2)" "flowing cs2"
      "concat cs2 = drop (n - length b) (concat cs1)" by auto
    with b(1,3) False show ?thesis by (simp add: safe_read.simps [of n cs])
  qed
qed

lemma safe_read_short:
  assumes "flowing cs" "length (concat cs) < n"
  shows "safe_read n cs = (None, [])"
  using assms
proof (induction n arbitrary: cs rule: less_induct)
  case (less n)
  show ?case
  proof (cases cs)
    case Nil
    then show ?thesis by (simp add: safe_read.simps)
  next
    case (Cons c cs1)
    with less have "safe_read (n - length c) cs1 = (None, [])" by (auto intro!: less.IH)
    with Cons less.prems show ?thesis by (auto simp: safe_read.simps [of n])
  qed
qed

text \<open>A successful read takes at least one byte off the descriptor.\<close>

definition pending_input :: "bytes list \<Rightarrow> nat" where
  "pending_input cs = sum_list (map (\<lambda>c. Suc (length c)) cs)"

lemma read_fd_shrinks: "read_fd n cs = (b, cs') \<Longrightarrow> pending_input cs' \<le> pending_input cs \<and> (b \<noteq> None \<longrightarrow> pending_input cs' < pending_input cs)"
  by (induction n cs rule: read_fd.induct) (auto simp: pending_input_def split: if_splits)

lemma safe_read_shrinks:
  "safe_read n cs = (b, cs') \<Longrightarrow> pending_input cs' \<le> pending_input cs \<and> (b \<noteq> None \<longrightarrow> pending_input cs' < pending_input cs)"
proof (induction n cs arbitrary: b cs' rule: safe_read.induct)
  case (1 n cs)
  obtain b1 cs1 where r: "read_fd n cs = (b1, cs1)" by fastforce
  note s = read_fd_shrinks [OF r]
  show ?case
  proof (cases "\<exists>x. b1 = Some x \<and> length x < n")
    case True
    then obtain x where x: "b1 = Some x" "length x < n" by blast
    obtain b2 cs2 where r2: "safe_read (n - length x) cs1 = (b2, cs2)" by fastforce
    have "cs' = cs2" using "1.prems" r x r2 by (auto simp: safe_read.simps [of n cs] split: option.splits)
    with "1.IH" [OF r [symmetric] x(1) _ r2] x s show ?thesis by force
  next
    case False
    with "1.prems" r s show ?thesis by (auto simp: safe_read.simps [of n cs] split: option.splits if_splits)
  qed
qed

lemma socket_read_shrinks:
  "socket_read_msg cs = (Some m, cs') \<Longrightarrow> pending_input cs' < pending_input cs"
  by (auto simp: socket_read_msg_def Let_def split: prod.splits option.splits if_splits dest!: safe_read_shrinks)

subsection \<open>Round trip\<close>

lemma header_of_header:
  "header_of (mt_header op pid len @ rest) = (op, pid, len)"
proof -
  have 2: "ucast (le_word (le_bytes 2 (ucast (v :: u16)))) = v" for v
    by (rule bit_word_eqI) (auto simp: le_word_bytes bit_ucast_iff bit_take_bit_iff)
  have 4: "ucast (le_word (le_bytes 4 (ucast (v :: u32)))) = v" for v by simp
  show ?thesis by (simp add: header_of_def mt_header_def 2 4)
qed

lemma length_mt_header [simp]: "length (mt_header op pid len) = 8"
  by (simp add: mt_header_def)

text \<open>Reading a message of either byte order, once its header is known.\<close>

lemma socket_read_from:
  assumes "flowing cs" "concat cs = hd8 @ payload @ rest" "length hd8 = 8"
    and "header_of hd8 = m" "swap = (fst m > 0xff)" "(if swap then swap_msg m else m) = (op, pid, len)"
    and "unat len = length payload"
  shows "\<exists>cs'. socket_read_msg cs = (Some ((op, pid, len), payload, swap), cs') \<and> flowing cs' \<and> concat cs' = rest"
proof -
  from safe_read_flowing [OF assms(1), of 8] assms(2,3) obtain cs1 where
    c1: "safe_read 8 cs = (Some hd8, cs1)" "flowing cs1" "concat cs1 = payload @ rest" by auto
  show ?thesis
  proof (cases "len = 0")
    case True
    then have "payload = []" using assms(7) by simp
    with c1 True assms show ?thesis by (auto simp: socket_read_msg_def Let_def)
  next
    case False
    then have p: "0 < length payload" using assms(7) by (simp add: unat_gt_0 flip: assms(7))
    from safe_read_flowing [OF c1(2) p] c1(3) obtain cs2 where
      "safe_read (length payload) cs1 = (Some payload, cs2)" "flowing cs2" "concat cs2 = rest" by auto
    with c1 False assms show ?thesis by (auto simp: socket_read_msg_def Let_def)
  qed
qed

lemma socket_read_sent:
  assumes "flowing cs" "concat cs = sock_send_msg (op_code op) pid payload @ rest" "length payload < 2 ^ 32"
  shows "\<exists>cs'. socket_read_msg cs = (Some ((op_code op, ucast pid, of_nat (length payload)), payload, False), cs') \<and>
    flowing cs' \<and> concat cs' = rest"
proof (rule socket_read_from [OF assms(1)])
  show "concat cs = mt_header (op_code op) (ucast pid) (of_nat (length payload)) @ payload @ rest"
    using assms(2) op_code_le [of op] by (auto simp: sock_send_msg_def Let_def)
  show "False = (0xff < fst (op_code op, (ucast pid :: u16), (of_nat (length payload) :: u32)))" using op_code_le [of op] by auto
  show "unat (of_nat (length payload) :: u32) = length payload" using assms(3) by (simp add: unat_of_nat take_bit_nat_eq_self)
qed (use header_of_header [of _ _ _ "[]"] in simp_all)

text \<open>A tracer of the other byte order is understood, except for the operation of number zero, \<open>MT_INFO\<close>.\<close>

lemma le_word_rev_2: "ucast (ucast (le_word (rev (le_bytes 2 v))) :: u16) = le_word (rev (le_bytes 2 v))"
  by (rule bit_word_eqI) (auto simp: bit_ucast_iff bit_le_word dest: bit_imp_le_length)

lemma bswap_16_bswap_16 [simp]: "bswap_16 (bswap_16 v) = v"
proof -
  have "le_bytes 2 (le_word (rev (le_bytes 2 (ucast v)))) = rev (le_bytes 2 (ucast v))"
    using le_bytes_word [of "rev (le_bytes 2 (ucast v))"] by simp
  moreover have "ucast (le_word (le_bytes 2 (ucast v))) = v"
    by (rule bit_word_eqI) (auto simp: le_word_bytes bit_ucast_iff bit_take_bit_iff)
  ultimately show ?thesis by (simp add: bswap_16_def le_word_rev_2)
qed

lemma bswap_op_code: "op \<noteq> MT_INFO \<Longrightarrow> bswap_16 (op_code op) > 0xff"
proof -
  assume "op \<noteq> MT_INFO"
  moreover have "list_all (\<lambda>op. op = MT_INFO \<or> bswap_16 (op_code op) > 0xff) operations" by code_simp
  moreover have "op \<in> set operations" by (cases op) (simp_all add: operations_def)
  ultimately show ?thesis by (auto simp: list_all_iff)
qed

lemma header_of_big_endian:
  "header_of (rev (le_bytes 2 (ucast op)) @ rev (le_bytes 2 (ucast pid)) @ rev (le_bytes 4 (ucast len)) @ rest) =
     (bswap_16 op, bswap_16 pid, bswap_32 len)"
  by (simp add: header_of_def bswap_16_def bswap_32_def)

lemma socket_read_big_endian:
  assumes "flowing cs" "concat cs = big_endian_msg (op_code op) pid payload @ rest" "length payload < 2 ^ 32" "op \<noteq> MT_INFO"
  shows "\<exists>cs'. socket_read_msg cs = (Some ((op_code op, pid, of_nat (length payload)), payload, True), cs') \<and>
    flowing cs' \<and> concat cs' = rest"
proof (rule socket_read_from [OF assms(1)])
  let ?hd = "rev (le_bytes 2 (ucast (op_code op))) @ rev (le_bytes 2 (ucast pid)) @ rev (le_bytes 4 (ucast (of_nat (length payload) :: u32)))"
  show "concat cs = ?hd @ payload @ rest" using assms(2) by (simp add: big_endian_msg_def)
  show "header_of ?hd = (bswap_16 (op_code op), bswap_16 pid, bswap_32 (of_nat (length payload)))"
    using header_of_big_endian [of _ _ _ "[]"] by simp
  show "True = (0xff < fst (bswap_16 (op_code op), bswap_16 pid, bswap_32 (of_nat (length payload))))" using bswap_op_code [OF assms(4)] by simp
  show "unat (of_nat (length payload) :: u32) = length payload" using assms(3) by (simp add: unat_of_nat take_bit_nat_eq_self)
qed (simp_all add: swap_msg_def)

text \<open>
  Its first message, \<open>MT_INFO\<close> with 136 bytes, is taken for one of more than two gigabytes in the byte order
  of the client, which then waits for the rest.
\<close>

lemma big_endian_info_unrecognised:
  assumes "flowing cs" "concat cs = big_endian_msg (op_code MT_INFO) 0 payload" "length payload = 136"
  shows "header_of (take 8 (concat cs)) = (op_code MT_INFO, 0, 2281701376)" and "socket_read_msg cs = (None, [])"
proof -
  have l: "8 \<le> length (concat cs)" "length (concat cs) = 144" using assms(2,3) by (simp_all add: big_endian_msg_def)
  have b: "bswap_16 (op_code MT_INFO) = op_code MT_INFO" "bswap_16 0 = 0" "bswap_32 136 = 2281701376" by code_simp+
  show h: "header_of (take 8 (concat cs)) = (op_code MT_INFO, 0, 2281701376)"
    using assms(2,3) header_of_big_endian [of "op_code MT_INFO" 0 136 "[]"] by (simp add: big_endian_msg_def b)
  from safe_read_flowing [OF assms(1) _ l(1)] obtain cs1 where c: "safe_read 8 cs = (Some (take 8 (concat cs)), cs1)"
      "flowing cs1" "concat cs1 = drop 8 (concat cs)" by auto
  then have "length (concat cs1) < 2281701376" using l by simp
  from safe_read_short [OF c(2) this] c(1) h show "socket_read_msg cs = (None, [])"
    by (simp add: socket_read_msg_def op_code_def operations_def)
qed

text \<open>
  In the other direction a command to such a tracer loses its process id: the 16-bit field takes the lower
  half of the swapped 32-bit number, which is zero for every id below 65536.
\<close>

lemma swapped_command_pid:
  assumes "pid < 65536"
  shows "ucast (bswap_32 pid) = (0 :: u16)"
proof (rule bit_word_eqI)
  fix i
  assume i: "i < LENGTH(16)"
  have "unat (take_bit 16 pid) = unat pid"
    using assms by (simp add: unsigned_take_bit_eq take_bit_nat_eq_self word_less_nat_alt)
  then have "take_bit 16 pid = pid" by (simp only: word_unat_eq_iff)
  then have "\<not> bit pid j" if "j \<ge> 16" for j using that by (metis bit_take_bit_iff leD)
  moreover have "16 \<le> 8 * (3 - i div 8) + i mod 8"
  proof -
    have "i div 8 < 2" using i by (simp add: less_mult_imp_div_less)
    then show ?thesis by linarith
  qed
  ultimately show "bit (ucast (bswap_32 pid) :: u16) i = bit (0 :: u16) i"
    by (auto simp: bswap_32_def bit_ucast_iff bit_le_word rev_nth nth_le_bytes)
qed

lemma swapped_command_anonymous:
  assumes "pid < 65536" "op \<noteq> MT_INFO"
  shows "take 2 (drop 2 (sock_send_msg (bswap_16 (op_code op)) pid payload)) = [0, 0]"
  using bswap_op_code [OF assms(2)] swapped_command_pid [OF assms(1)]
  by (simp add: sock_send_msg_def mt_header_def numeral_2_eq_2)

end
