(* ===== verification/Report.thy ===== *)
theory Report
  imports Dwarf_Step Wire
begin

text \<open>
  The messages of the tracer (\<open>report.c\<close>): an intercepted call becomes a message with its result, its
  size and the call stack the unwinder finds. The state is what the functions use of the task and of
  its leader, and the list of what they did: messages sent, and the breakpoint that a 32-bit report
  skips before it sends (\<open>skip_breakpoint\<close>).
\<close>

subsection \<open>State\<close>

record report_task =
  rt_pid :: u32
  rt_leader_pid :: u32
  rt_regs :: reg_context
  rt_in_realloc :: bool
  rt_bp_skipped :: bool
  rt_backtrace :: dwarf_addr_space

text \<open>What goes to the client are bytes; the header of a message keeps 16 bits of the process id.\<close>

datatype report_effect = Sent bytes | SkippedBreakpoint

record report_state =
  rp_task :: report_task
  rp_effects :: "report_effect list"

text \<open>A timer of \<open>timer.h\<close>, as far as it is reported.\<close>

record mt_timer =
  tm_max :: u32
  tm_count :: u32
  tm_culminate :: u64

text \<open>Memory and libraries of the process, the options, the eight timers, whether a client is connected, and what an uninitialised variable holds.\<close>

record report_env =
  rp_mem :: dwarf_mem
  rp_libs :: leader_libs
  rp_connected :: bool
  opt_bt_depth :: nat
  opt_sanity :: bool
  opt_nocpp :: bool
  rp_verbose :: u8
  rp_follow :: bool
  rp_follow_exec :: bool
  rp_timers :: "mt_timer list"
  rp_junk :: ulong

type_synonym report = "(report_state, unit) dop"

definition server_send_msg :: "mt_operation \<Rightarrow> u32 \<Rightarrow> bytes \<Rightarrow> report" where
  "server_send_msg op pid payload = modS (\<lambda>s. s\<lparr>rp_effects := rp_effects s @ [Sent (sock_send_msg (op_code op) pid payload)]\<rparr>)"

definition rp_param :: "report_env \<Rightarrow> report_state \<Rightarrow> u32 \<Rightarrow> ulong" where
  "rp_param env s n =
     fetch_param (rt_regs (rp_task s)) (\<lambda>a len. snd (copy_from_proc False (traced_proc (rp_mem env)) a len)) (rp_junk env) n"

definition rp_retval :: "report_state \<Rightarrow> ulong" where
  "rp_retval s = fetch_retval (rt_regs (rp_task s))"

abbreviation rp_64bit :: "report_state \<Rightarrow> bool" where
  "rp_64bit s \<equiv> task_is_64bit (rt_regs (rp_task s))"

subsection \<open>The call stack\<close>

definition LIBTYPE_LOADER :: int where "LIBTYPE_LOADER = 2"

text \<open>
  The loop of \<open>report_alloc64\<close> and \<open>report_alloc32\<close>; \<open>conv\<close> is the width of an entry. Frames of the dynamic
  loader are passed over, and an address that repeats the one before is not stored again.
\<close>

partial_function (option) collect_frames ::
  "dwarf_env \<Rightarrow> (ulong \<Rightarrow> ulong) \<Rightarrow> nat \<Rightarrow> ulong list \<Rightarrow> dwarf_addr_space \<Rightarrow> (ulong list dres \<times> dwarf_addr_space) option" where
  "collect_frames env conv depth data as =
     (if length data < depth then
        let ip = conv (dwarf_get_ip as);
            fresh = dwarf_location_type as \<noteq> LIBTYPE_LOADER \<and> last data \<noteq> ip
        in
        if fresh \<and> ip = 0 then Some (Inr data, as)
        else
          let data = (if fresh then data @ [ip] else data) in
          (case dwarf_step env as of
             (Inr _, as) \<Rightarrow> collect_frames env conv depth data as
           | (Inl (Dw _), as) \<Rightarrow> Some (Inr data, as)
           | (Inl (Fault f), as) \<Rightarrow> Some (Inl (Fault f), as))
      else Some (Inr data, as))"

definition report_frames ::
  "dwarf_env \<Rightarrow> (ulong \<Rightarrow> ulong) \<Rightarrow> nat \<Rightarrow> library_symbol \<Rightarrow> dwarf_addr_space \<Rightarrow> ulong list dres \<times> dwarf_addr_space" where
  "report_frames env conv depth libsym as =
     (if depth = 0 then (Inr [], as)
      else
        let data = [conv (ls_addr libsym)] in
        case dwarf_init_unwind env as of
          (Inr _, as) \<Rightarrow>
            (case collect_frames env conv depth data as of None \<Rightarrow> (Inl (Fault NoReturn), as) | Some r \<Rightarrow> r)
        | (Inl (Dw _), as) \<Rightarrow> (Inr data, as)
        | (Inl (Fault f), as) \<Rightarrow> (Inl (Fault f), as))"

definition rp_frames :: "report_env \<Rightarrow> (ulong \<Rightarrow> ulong) \<Rightarrow> nat \<Rightarrow> library_symbol \<Rightarrow> (report_state, ulong list) dop" where
  "rp_frames env conv depth libsym s =
     (case report_frames \<lparr>de_mem = rp_mem env, de_regs = rt_regs (rp_task s), de_libs = rp_libs env\<rparr> conv depth libsym
             (rt_backtrace (rp_task s)) of
        (r, as) \<Rightarrow> (r, s\<lparr>rp_task := (rp_task s)\<lparr>rt_backtrace := as\<rparr>\<rparr>))"

definition u32_of :: "ulong \<Rightarrow> ulong" where
  "u32_of v = v AND 0xffffffff"

definition report_alloc64 :: "report_env \<Rightarrow> mt_operation \<Rightarrow> ulong \<Rightarrow> ulong \<Rightarrow> nat \<Rightarrow> library_symbol \<Rightarrow> report" where
  "report_alloc64 env op ptr sz depth libsym =
     bindS (rp_frames env id depth libsym) (\<lambda>data.
     bindS (getS (\<lambda>s. rt_leader_pid (rp_task s))) (\<lambda>pid.
       server_send_msg op pid (le_bytes 8 ptr @ le_bytes 8 sz @ concat (map (le_bytes 8) data))))"

definition report_alloc32 :: "report_env \<Rightarrow> mt_operation \<Rightarrow> ulong \<Rightarrow> ulong \<Rightarrow> nat \<Rightarrow> library_symbol \<Rightarrow> report" where
  "report_alloc32 env op ptr sz depth libsym =
     bindS (rp_frames env u32_of depth libsym) (\<lambda>data.
     bindS (modS (\<lambda>s. s\<lparr>rp_task := (rp_task s)\<lparr>rt_bp_skipped := True\<rparr>,
                        rp_effects := rp_effects s @ [SkippedBreakpoint]\<rparr>)) (\<lambda>_.
     bindS (getS (\<lambda>s. rt_leader_pid (rp_task s))) (\<lambda>pid.
       server_send_msg op pid (le_bytes 4 (u32_of ptr) @ le_bytes 4 (u32_of sz) @ concat (map (le_bytes 4) data)))))"

definition report_alloc :: "report_env \<Rightarrow> mt_operation \<Rightarrow> ulong \<Rightarrow> ulong \<Rightarrow> nat \<Rightarrow> library_symbol \<Rightarrow> report" where
  "report_alloc env op ptr sz depth libsym s =
     (if ptr = 0 then (Inr (), s)
      else if rp_64bit s then report_alloc64 env op ptr sz depth libsym s
      else report_alloc32 env op ptr sz depth libsym s)"

subsection \<open>The intercepted calls\<close>

definition report_alloc_op :: "report_env \<Rightarrow> mt_operation \<Rightarrow> library_symbol \<Rightarrow> report" where
  "report_alloc_op env op libsym s = report_alloc env op (rp_retval s) (rp_param env s 0) (opt_bt_depth env) libsym s"

definition report_malloc :: "report_env \<Rightarrow> library_symbol \<Rightarrow> report" where
  "report_malloc env = report_alloc_op env MT_MALLOC"

definition report_reallocarray :: "report_env \<Rightarrow> library_symbol \<Rightarrow> report" where
  "report_reallocarray env libsym s =
     report_alloc env MT_MALLOC (rp_retval s) (rp_param env s 1 * rp_param env s 2) (opt_bt_depth env) libsym s"

definition report_new :: "report_env \<Rightarrow> library_symbol \<Rightarrow> report" where
  "report_new env = report_alloc_op env (if opt_sanity env then MT_NEW else MT_MALLOC)"

definition report_new_array :: "report_env \<Rightarrow> library_symbol \<Rightarrow> report" where
  "report_new_array env = report_alloc_op env (if opt_sanity env then MT_NEW_ARRAY else MT_MALLOC)"

definition report_free_op :: "report_env \<Rightarrow> mt_operation \<Rightarrow> library_symbol \<Rightarrow> report" where
  "report_free_op env op libsym s =
     report_alloc env op (rp_param env s 0) 0 (if opt_sanity env then opt_bt_depth env else 0) libsym s"

definition report_free :: "report_env \<Rightarrow> library_symbol \<Rightarrow> report" where
  "report_free env = report_free_op env MT_FREE"

definition report_delete :: "report_env \<Rightarrow> library_symbol \<Rightarrow> report" where
  "report_delete env = report_free_op env (if opt_sanity env then MT_DELETE else MT_FREE)"

definition report_delete_array :: "report_env \<Rightarrow> library_symbol \<Rightarrow> report" where
  "report_delete_array env = report_free_op env (if opt_sanity env then MT_DELETE_ARRAY else MT_FREE)"

text \<open>The return of \<open>realloc\<close>: the new block, then the end of the reallocation, which names the thread.\<close>

definition send_realloc_done :: "ulong \<Rightarrow> report" where
  "send_realloc_done ret s =
     (let tk = rp_task s in
      if rp_64bit s then
        server_send_msg MT_REALLOC_DONE (rt_leader_pid tk) (le_bytes 8 ret @ le_bytes 8 (ucast (rt_pid tk))) s
      else
        server_send_msg MT_REALLOC_DONE (rt_leader_pid tk) (le_bytes 4 (u32_of ret) @ le_bytes 4 (ucast (rt_pid tk))) s)"

definition report_realloc_out :: "report_env \<Rightarrow> library_symbol \<Rightarrow> report" where
  "report_realloc_out env libsym s =
     (let sz = rp_param env s 1; ret = rp_retval s;
          report = (if ret \<noteq> 0 then report_alloc env MT_REALLOC ret sz (opt_bt_depth env) libsym else retS ())
      in
      if \<not> rt_in_realloc (rp_task s) then report s
      else
        bindS (modS (\<lambda>s. s\<lparr>rp_task := (rp_task s)\<lparr>rt_in_realloc := False\<rparr>\<rparr>)) (\<lambda>_.
        bindS report (\<lambda>_. send_realloc_done ret)) s)"

definition report_realloc_in :: "report_env \<Rightarrow> library_symbol \<Rightarrow> report" where
  "report_realloc_in env libsym s =
     (let addr = rp_param env s 0 in
      if rt_in_realloc (rp_task s) then (Inl (Fault AssertionFailed), s)
      else if addr = 0 then (Inr (), s)
      else
        bindS (modS (\<lambda>s. s\<lparr>rp_task := (rp_task s)\<lparr>rt_in_realloc := True\<rparr>\<rparr>)) (\<lambda>_.
          report_alloc env MT_REALLOC_ENTER addr (ucast (rt_pid (rp_task s)))
            (if opt_sanity env then opt_bt_depth env else 0) libsym) s)"

definition report_calloc :: "report_env \<Rightarrow> library_symbol \<Rightarrow> report" where
  "report_calloc env libsym s =
     report_alloc env MT_MALLOC (rp_retval s) (rp_param env s 0 * rp_param env s 1) (opt_bt_depth env) libsym s"

definition MAP_FAILED :: ulong where "MAP_FAILED = -1"

definition report_mmap :: "report_env \<Rightarrow> library_symbol \<Rightarrow> report" where
  "report_mmap env libsym s =
     (if rp_retval s = MAP_FAILED then (Inr (), s)
      else report_alloc env MT_MMAP (rp_retval s) (rp_param env s 1) (opt_bt_depth env) libsym s)"

text \<open>A 32-bit process passes the size in two parameters, as the union of the source takes them.\<close>

definition report_mmap64 :: "report_env \<Rightarrow> library_symbol \<Rightarrow> report" where
  "report_mmap64 env libsym s =
     (if rp_retval s = MAP_FAILED then (Inr (), s)
      else
        let sz = (if rp_64bit s then rp_param env s 1
                  else u32_of (rp_param env s 1) OR push_bit 32 (u32_of (rp_param env s 2)))
        in report_alloc env MT_MMAP64 (rp_retval s) sz (opt_bt_depth env) libsym s)"

definition report_munmap :: "report_env \<Rightarrow> library_symbol \<Rightarrow> report" where
  "report_munmap env libsym s = report_alloc env MT_MUNMAP (rp_param env s 0) (rp_param env s 1) 0 libsym s"

text \<open>\<open>memalign\<close> and \<open>aligned_alloc\<close> take the size second, \<open>valloc\<close> and \<open>pvalloc\<close> first.\<close>

definition report_memalign :: "report_env \<Rightarrow> library_symbol \<Rightarrow> report" where
  "report_memalign env libsym s = report_alloc env MT_MEMALIGN (rp_retval s) (rp_param env s 1) (opt_bt_depth env) libsym s"

definition report_posix_memalign :: "report_env \<Rightarrow> library_symbol \<Rightarrow> report" where
  "report_posix_memalign env libsym s =
     (if rp_retval s \<noteq> 0 then (Inr (), s)
      else
        let sz = rp_param env s 2; ptr = rp_param env s 0;
            copy = (\<lambda>len. snd (copy_from_proc False (traced_proc (rp_mem env)) ptr len));
            new_ptr = (if rp_64bit s then copied (rp_junk env) (copy 8) else u32_of (copied (rp_junk env) (copy 4)))
        in report_alloc env MT_POSIX_MEMALIGN new_ptr sz (opt_bt_depth env) libsym s)"

definition report_aligned_alloc :: "report_env \<Rightarrow> library_symbol \<Rightarrow> report" where
  "report_aligned_alloc env libsym s =
     report_alloc env MT_ALIGNED_ALLOC (rp_retval s) (rp_param env s 1) (opt_bt_depth env) libsym s"

definition report_valloc :: "report_env \<Rightarrow> library_symbol \<Rightarrow> report" where
  "report_valloc env libsym s = report_alloc env MT_VALLOC (rp_retval s) (rp_param env s 0) (opt_bt_depth env) libsym s"

definition report_pvalloc :: "report_env \<Rightarrow> library_symbol \<Rightarrow> report" where
  "report_pvalloc env libsym s = report_alloc env MT_PVALLOC (rp_retval s) (rp_param env s 0) (opt_bt_depth env) libsym s"

definition report_mremap_in :: "report_env \<Rightarrow> library_symbol \<Rightarrow> report" where
  "report_mremap_in env libsym s = report_alloc env MT_MUNMAP (rp_param env s 0) (rp_param env s 1) 0 libsym s"

text \<open>The result of \<open>mremap\<close> is not compared with \<open>MAP_FAILED\<close>.\<close>

definition report_mremap_out :: "report_env \<Rightarrow> library_symbol \<Rightarrow> report" where
  "report_mremap_out env libsym s = report_alloc env MT_MMAP (rp_retval s) (rp_param env s 2) (opt_bt_depth env) libsym s"

subsection \<open>The table of functions\<close>

type_synonym reporter = "report_env \<Rightarrow> library_symbol \<Rightarrow> report"

record fn_entry =
  fn_demangled :: string
  fn_name :: string
  fn_level :: nat
  fn_report_in :: "reporter option"
  fn_report_out :: "reporter option"

definition fn :: "string \<Rightarrow> string \<Rightarrow> nat \<Rightarrow> reporter option \<Rightarrow> reporter option \<Rightarrow> fn_entry" where
  "fn demangled name level r_in r_out =
     \<lparr>fn_demangled = demangled, fn_name = name, fn_level = level, fn_report_in = r_in, fn_report_out = r_out\<rparr>"

definition flist :: "fn_entry list" where
  "flist =
     [fn ''malloc'' ''malloc'' 0 None (Some report_malloc),
      fn ''free'' ''free'' 0 (Some report_free) None,
      fn ''realloc'' ''realloc'' 0 (Some report_realloc_in) (Some report_realloc_out),
      fn ''calloc'' ''calloc'' 0 None (Some report_calloc),
      fn ''posix_memalign'' ''posix_memalign'' 0 None (Some report_posix_memalign),
      fn ''mmap'' ''mmap'' 0 None (Some report_mmap),
      fn ''mmap64'' ''mmap64'' 1 None (Some report_mmap64),
      fn ''munmap'' ''munmap'' 0 (Some report_munmap) None,
      fn ''memalign'' ''memalign'' 0 None (Some report_memalign),
      fn ''aligned_alloc'' ''aligned_alloc'' 1 None (Some report_aligned_alloc),
      fn ''valloc'' ''valloc'' 1 None (Some report_valloc),
      fn ''pvalloc'' ''pvalloc'' 1 None (Some report_pvalloc),
      fn ''mremap'' ''mremap'' 0 (Some report_mremap_in) (Some report_mremap_out),
      fn ''cfree'' ''cfree'' 1 (Some report_free) None,
      fn ''reallocarray'' ''reallocarray'' 0 None (Some report_reallocarray),
      fn ''new(unsigned int)'' ''_Znwj'' 1 None (Some report_new),
      fn ''new[](unsigned int)'' ''_Znaj'' 1 None (Some report_new_array),
      fn ''new(unsigned int, std::nothrow_t const&)'' ''_ZnwjRKSt9nothrow_t'' 1 None (Some report_new),
      fn ''new[](unsigned int, std::nothrow_t const&)'' ''_ZnajRKSt9nothrow_t'' 1 None (Some report_new_array),
      fn ''new(unsigned long)'' ''_Znwm'' 1 None (Some report_new),
      fn ''new[](unsigned long)'' ''_Znam'' 1 None (Some report_new_array),
      fn ''new(unsigned long, std::nothrow_t const&)'' ''_ZnwmRKSt9nothrow_t'' 1 None (Some report_new),
      fn ''new[](unsigned long, std::nothrow_t const&)'' ''_ZnamRKSt9nothrow_t'' 1 None (Some report_new_array),
      fn ''new(unsigned int, std::align_val_t, std::nothrow_t const&)'' ''_ZnwjSt11align_val_tRKSt9nothrow_t'' 1 None (Some report_new),
      fn ''new[](unsigned int, std::align_val_t, std::nothrow_t const&)'' ''_ZnajSt11align_val_tRKSt9nothrow_t'' 1 None (Some report_new_array),
      fn ''new(unsigned int, std::align_val_t)'' ''_ZnwjSt11align_val_t'' 1 None (Some report_new),
      fn ''new[](unsigned int, std::align_val_t)'' ''_ZnajSt11align_val_t'' 1 None (Some report_new_array),
      fn ''new(unsigned long, std::align_val_t, std::nothrow_t const&)'' ''_ZnwmSt11align_val_tRKSt9nothrow_t'' 1 None (Some report_new),
      fn ''new[](unsigned long, std::align_val_t, std::nothrow_t const&)'' ''_ZnamSt11align_val_tRKSt9nothrow_t'' 1 None (Some report_new_array),
      fn ''new(unsigned long, std::align_val_t)'' ''_ZnwmSt11align_val_t'' 1 None (Some report_new),
      fn ''new[](unsigned long, std::align_val_t)'' ''_ZnamSt11align_val_t'' 1 None (Some report_new_array),
      fn ''delete(void*)'' ''_ZdlPv'' 1 (Some report_delete) None,
      fn ''delete[](void*)'' ''_ZdaPv'' 1 (Some report_delete_array) None,
      fn ''delete(void*, std::nothrow_t const&)'' ''_ZdlPvRKSt9nothrow_t'' 1 (Some report_delete) None,
      fn ''delete[](void*, std::nothrow_t const&)'' ''_ZdaPvRKSt9nothrow_t'' 1 (Some report_delete_array) None,
      fn ''delete(void*, unsigned int)'' ''_ZdlPvj'' 1 (Some report_delete) None,
      fn ''delete[](void*, unsigned int)'' ''_ZdaPvj'' 1 (Some report_delete_array) None,
      fn ''delete(void*, unsigned long)'' ''_ZdlPvm'' 1 (Some report_delete) None,
      fn ''delete[](void*, unsigned long)'' ''_ZdaPvm'' 1 (Some report_delete_array) None,
      fn ''delete(void*, std::align_val_t)'' ''_ZdlPvSt11align_val_t'' 1 (Some report_delete) None,
      fn ''delete[](void*, std::align_val_t)'' ''_ZdaPvSt11align_val_t'' 1 (Some report_delete_array) None,
      fn ''delete(void*, std::align_val_t, std::nothrow_t const&)'' ''_ZdlPvSt11align_val_tRKSt9nothrow_t'' 1 (Some report_delete) None,
      fn ''delete[](void*, std::align_val_t, std::nothrow_t const&)'' ''_ZdaPvSt11align_val_tRKSt9nothrow_t'' 1 (Some report_delete_array) None,
      fn ''delete(void*, unsigned int, std::align_val_t)'' ''_ZdlPvjSt11align_val_t'' 1 (Some report_delete) None,
      fn ''delete[](void*, unsigned int, std::align_val_t)'' ''_ZdaPvjSt11align_val_t'' 1 (Some report_delete_array) None,
      fn ''delete(void*, unsigned long, std::align_val_t)'' ''_ZdlPvmSt11align_val_t'' 1 (Some report_delete) None,
      fn ''delete[](void*, unsigned long, std::align_val_t)'' ''_ZdaPvmSt11align_val_t'' 1 (Some report_delete_array) None]"

fun match_symbol :: "bool \<Rightarrow> string \<Rightarrow> fn_entry list \<Rightarrow> fn_entry option" where
  "match_symbol nocpp name [] = None"
| "match_symbol nocpp name (f # fs) =
     (if nocpp \<and> (case fn_name f of [] \<Rightarrow> False | c # _ \<Rightarrow> c = CHR ''_'') then match_symbol nocpp name fs
      else if name = fn_name f then Some f
      else match_symbol nocpp name fs)"

definition flist_matches_symbol :: "report_env \<Rightarrow> string \<Rightarrow> fn_entry option" where
  "flist_matches_symbol env name = match_symbol (opt_nocpp env) name flist"

subsection \<open>Messages about the process\<close>

definition map_payload :: "libref \<Rightarrow> bytes" where
  "map_payload lr =
     le_bytes 8 (txt_vaddr lr) @ le_bytes 8 (txt_offset lr) @ le_bytes 8 (txt_size lr) @ le_bytes 8 (lr_bias lr) @
     map (\<lambda>c. of_char c) (case lr_filename lr of None \<Rightarrow> [] | Some f \<Rightarrow> f) @ [0]"

text \<open>A library without a file name cannot be reported: \<open>strlen\<close> reads through the null pointer.\<close>

definition report_map :: "library \<Rightarrow> mt_operation \<Rightarrow> report" where
  "report_map lib op s =
     (if lr_filename (lib_ref lib) = None then (Inl (Fault Segfault), s)
      else server_send_msg op (rt_pid (rp_task s)) (map_payload (lib_ref lib)) s)"

text \<open>
  Without a client nothing is sent and the result is negative, here \<open>False\<close>; the socket of a client is
  taken to accept every message.
\<close>

type_synonym told = "(report_state, bool) dop"

definition when_connected :: "report_env \<Rightarrow> report \<Rightarrow> told" where
  "when_connected env m = (if \<not> rp_connected env then retS False else bindS m (\<lambda>_. retS True))"

definition report_add_map :: "report_env \<Rightarrow> library \<Rightarrow> told" where
  "report_add_map env lib = when_connected env (report_map lib MT_ADD_MAP)"

definition report_del_map :: "report_env \<Rightarrow> library \<Rightarrow> told" where
  "report_del_map env lib = when_connected env (report_map lib MT_DEL_MAP)"

text \<open>A message about the process the task leads.\<close>

definition report_pid :: "report_env \<Rightarrow> mt_operation \<Rightarrow> bytes \<Rightarrow> told" where
  "report_pid env op payload = when_connected env (\<lambda>s. server_send_msg op (rt_pid (rp_task s)) payload s)"

text \<open>The timers go out in the order of the message; the three unused bytes are not set.\<close>

definition store_timer_info :: "mt_timer \<Rightarrow> bytes" where
  "store_timer_info t = le_bytes 4 (ucast (tm_max t)) @ le_bytes 4 (ucast (tm_count t)) @ le_bytes 8 (tm_culminate t)"

definition info_mode :: "report_env \<Rightarrow> u8" where
  "info_mode env = (if rp_verbose env \<noteq> 0 then 4 else 0) OR (if rp_follow_exec env then 2 else 0) OR (if rp_follow env then 1 else 0)"

definition report_info :: "report_env \<Rightarrow> bool \<Rightarrow> told" where
  "report_info env do_trace =
     when_connected env (server_send_msg MT_INFO 0
       ([9, info_mode env, if do_trace then 1 else 0, of_nat (opt_bt_depth env), rp_verbose env] @ le_bytes 3 (rp_junk env) @
        concat (map store_timer_info (rp_timers env))))"

definition report_scan :: "report_env \<Rightarrow> u32 \<Rightarrow> bytes \<Rightarrow> told" where
  "report_scan env pid data = when_connected env (server_send_msg MT_SCAN pid data)"

definition report_attach :: "report_env \<Rightarrow> bool \<Rightarrow> told" where
  "report_attach env was_attached s =
     report_pid env (if rp_64bit s then MT_ATTACH64 else MT_ATTACH) [if was_attached then 1 else 0] s"

definition report_fork :: "report_env \<Rightarrow> u32 \<Rightarrow> told" where
  "report_fork env parent_leader = report_pid env MT_FORK (le_bytes 4 (ucast parent_leader))"

definition report_exit :: "report_env \<Rightarrow> told" where
  "report_exit env = report_pid env MT_EXIT []"

definition report_about_exit :: "report_env \<Rightarrow> told" where
  "report_about_exit env = report_pid env MT_ABOUT_EXIT []"

definition report_nofollow :: "report_env \<Rightarrow> told" where
  "report_nofollow env = report_pid env MT_NOFOLLOW []"

definition report_detach :: "report_env \<Rightarrow> told" where
  "report_detach env = report_pid env MT_DETACH []"

definition report_disconnect :: "report_env \<Rightarrow> told" where
  "report_disconnect env = when_connected env (server_send_msg MT_DISCONNECT 0 [])"

text \<open>A client that connects learns of every library of a process (\<open>report_process\<close>).\<close>

fun report_libs :: "report_env \<Rightarrow> library list \<Rightarrow> report" where
  "report_libs env [] = retS ()"
| "report_libs env (lib # libs) = bindS (report_add_map env lib) (\<lambda>_. report_libs env libs)"

definition report_process :: "report_env \<Rightarrow> report" where
  "report_process env = bindS (report_attach env True) (\<lambda>_. report_libs env (libraries_list (rp_libs env)))"


subsection \<open>The call stack of a message\<close>

text \<open>
  The first entry is the function itself; the callers follow, none of them zero, none like the one
  before, and no more than the depth asks for.
\<close>

definition frames_ok :: "(ulong \<Rightarrow> ulong) \<Rightarrow> nat \<Rightarrow> library_symbol \<Rightarrow> ulong list \<Rightarrow> bool" where
  "frames_ok conv depth libsym data \<longleftrightarrow>
     length data \<le> depth \<and> (data = [] \<longleftrightarrow> depth = 0) \<and> (data \<noteq> [] \<longrightarrow> hd data = conv (ls_addr libsym)) \<and>
     0 \<notin> set (tl data) \<and> distinct_adj data"

lemma frames_ok_append:
  assumes "frames_ok conv depth libsym data" "length data < depth" "last data \<noteq> ip" "ip \<noteq> 0"
  shows "frames_ok conv depth libsym (data @ [ip])"
proof -
  have "data \<noteq> []" "distinct_adj data" using assms by (auto simp: frames_ok_def)
  then have "distinct_adj (data @ [ip])" using assms(3) by (simp add: distinct_adj_append_iff)
  with assms \<open>data \<noteq> []\<close> show ?thesis by (simp add: frames_ok_def)
qed

lemma collect_frames_ok:
  assumes "collect_frames env conv depth data as = Some (Inr data', as')" "frames_ok conv depth libsym data"
  shows "frames_ok conv depth libsym data'"
proof -
  let ?P = "\<lambda>(env :: dwarf_env) (conv :: ulong \<Rightarrow> ulong) (depth :: nat) (data :: ulong list) (as :: dwarf_addr_space) (r :: ulong list dres \<times> dwarf_addr_space).
    \<forall>data'. frames_ok conv depth libsym data \<longrightarrow> fst r = Inr data' \<longrightarrow> frames_ok conv depth libsym data'"
  have "?P env conv depth data as (Inr data', as')"
  proof (rule collect_frames.raw_induct [where P = ?P, OF _ assms(1)])
    fix cf :: "dwarf_env \<Rightarrow> (ulong \<Rightarrow> ulong) \<Rightarrow> nat \<Rightarrow> ulong list \<Rightarrow> dwarf_addr_space \<Rightarrow> (ulong list dres \<times> dwarf_addr_space) option"
      and env :: dwarf_env and conv :: "ulong \<Rightarrow> ulong" and depth :: nat and data :: "ulong list" and as :: dwarf_addr_space
      and r :: "ulong list dres \<times> dwarf_addr_space"
    assume IH: "\<And>env conv depth data as r. cf env conv depth data as = Some r \<Longrightarrow> ?P env conv depth data as r"
      and r: "(if length data < depth then
        let ip = conv (dwarf_get_ip as);
            fresh = dwarf_location_type as \<noteq> LIBTYPE_LOADER \<and> last data \<noteq> ip
        in
        if fresh \<and> ip = 0 then Some (Inr data, as)
        else
          let data = (if fresh then data @ [ip] else data) in
          (case dwarf_step env as of
             (Inr _, as) \<Rightarrow> cf env conv depth data as
           | (Inl (Dw _), as) \<Rightarrow> Some (Inr data, as)
           | (Inl (Fault f), as) \<Rightarrow> Some (Inl (Fault f), as))
      else Some (Inr data, as)) = Some r"
    let ?ip = "conv (dwarf_get_ip as)"
    let ?fresh = "dwarf_location_type as \<noteq> LIBTYPE_LOADER \<and> last data \<noteq> ?ip"
    let ?data = "if ?fresh then data @ [?ip] else data"
    show "?P env conv depth data as r"
    proof (intro allI impI)
      fix data'
      assume ok: "frames_ok conv depth libsym data" and d: "fst r = Inr data'"
      show "frames_ok conv depth libsym data'"
      proof (cases "length data < depth \<and> \<not> (?fresh \<and> ?ip = 0)")
        case True
        then have ok': "frames_ok conv depth libsym ?data" using ok frames_ok_append [OF ok] by auto
        obtain q as1 where st: "dwarf_step env as = (q, as1)" by fastforce
        have "(case dwarf_step env as of
             (Inr _, as) \<Rightarrow> cf env conv depth ?data as
           | (Inl (Dw _), as) \<Rightarrow> Some (Inr ?data, as)
           | (Inl (Fault f), as) \<Rightarrow> Some (Inl (Fault f), as)) = Some r"
          using r True by (simp only: Let_def if_True if_False simp_thms)
        then show ?thesis using ok' d IH [of env conv depth ?data as1 r] unfolding st
          by (auto split: sum.splits derr.splits)
      next
        case False
        then show ?thesis using r ok d by (auto simp: Let_def split: if_splits)
      qed
    qed
  qed
  with assms(2) show ?thesis by simp
qed

lemma report_frames_ok:
  assumes "report_frames env conv depth libsym as = (Inr data, as')"
  shows "frames_ok conv depth libsym data"
proof (cases "depth = 0")
  case True
  with assms show ?thesis by (auto simp: report_frames_def frames_ok_def)
next
  case False
  then have "frames_ok conv depth libsym [conv (ls_addr libsym)]" by (simp add: frames_ok_def)
  with assms False collect_frames_ok show ?thesis
    by (auto simp: report_frames_def Let_def split: prod.splits sum.splits derr.splits option.splits)
qed

text \<open>What a report of a 64-bit process sends.\<close>

lemma report_alloc_sends:
  assumes "report_alloc env op ptr sz depth libsym s = (Inr (), s')" "rp_64bit s" "ptr \<noteq> 0"
  shows "\<exists>data. frames_ok id depth libsym data \<and>
    rp_effects s' = rp_effects s @ [Sent (sock_send_msg (op_code op) (rt_leader_pid (rp_task s)) (le_bytes 8 ptr @ le_bytes 8 sz @ concat (map (le_bytes 8) data)))]"
proof -
  have "report_alloc64 env op ptr sz depth libsym s = (Inr (), s')" using assms by (simp add: report_alloc_def)
  then obtain data s1 where d: "rp_frames env id depth libsym s = (Inr data, s1)" and
    s1: "s' = s1\<lparr>rp_effects := rp_effects s1 @ [Sent (sock_send_msg (op_code op) (rt_leader_pid (rp_task s1)) (le_bytes 8 ptr @ le_bytes 8 sz @ concat (map (le_bytes 8) data)))]\<rparr>"
    by (auto simp: report_alloc64_def bindS_Inr server_send_msg_def dop_defs)
  from d obtain as where "report_frames \<lparr>de_mem = rp_mem env, de_regs = rt_regs (rp_task s), de_libs = rp_libs env\<rparr> id depth libsym
      (rt_backtrace (rp_task s)) = (Inr data, as)" "s1 = s\<lparr>rp_task := (rp_task s)\<lparr>rt_backtrace := as\<rparr>\<rparr>"
    by (auto simp: rp_frames_def split: prod.splits)
  with report_frames_ok s1 show ?thesis by fastforce
qed

subsection \<open>The table names every function once\<close>

lemma flist_distinct: "distinct (map fn_name flist)"
  by code_simp

lemma match_symbol_exact:
  assumes "distinct (map fn_name fs)"
  shows "match_symbol nocpp name fs = Some f \<longleftrightarrow> f \<in> set fs \<and> fn_name f = name \<and> \<not> (nocpp \<and> take 1 name = ''_'')"
  using assms
proof (induction fs)
  case (Cons g gs)
  have "(case fn_name g of [] \<Rightarrow> False | c # _ \<Rightarrow> c = CHR ''_'') \<longleftrightarrow> take 1 (fn_name g) = ''_''"
    by (cases "fn_name g") auto
  moreover have "fn_name h \<noteq> fn_name g" if "h \<in> set gs" for h using Cons.prems that by (metis distinct.simps(2) image_eqI list.set_map list.simps(9))
  ultimately show ?case using Cons by auto
qed simp

end
