(* ===== verification/Client_Loop.thy ===== *)
theory Client_Loop
  imports Wire Client_Process
begin

text \<open>
  The client's main loop (\<open>client/client.c\<close>): the table of the traced processes, the handling of one message
  (\<open>client_func\<close>) and the loops that call it until the connection or the log file ends. The descriptor is
  the list of what \<open>read\<close> will find; \<open>cl_open\<close> is \<open>client_fd != -1\<close>. The processes share one heap of call stacks.
\<close>

subsection \<open>State\<close>

record memtrace_timer_info =
  ti_max :: u32
  ti_count :: u32
  ti_culminate :: u64

record memtrace_info =
  mi_version :: u8
  mi_mode :: u8
  mi_do_trace :: u8
  mi_stack_depth :: u8
  mi_verbose :: u8
  mi_timers :: "memtrace_timer_info list"

record client =
  cl_open :: bool
  cl_in :: "bytes list"
  cl_pids :: "process rbt"
  cl_first_pid :: u32
  cl_info :: memtrace_info
  cl_heap :: heap

subsection \<open>The table of processes\<close>

fun pid_search_loop :: "u32 \<Rightarrow> process rbt \<Rightarrow> process ctx \<Rightarrow> process position option" where
  "pid_search_loop pid Leaf k = None"
| "pid_search_loop pid (Node l c pr r) k =
     (if pid < p_pid pr then pid_search_loop pid l (FL c pr r # k)
      else if pid > p_pid pr then pid_search_loop pid r (FR l c pr # k)
      else Some (l, c, pr, r, k))"

definition pid_rb_search :: "process rbt \<Rightarrow> u32 \<Rightarrow> process position option" where
  "pid_rb_search root pid = pid_search_loop pid root []"

definition pid_rb_delete :: "process rbt \<Rightarrow> u32 \<Rightarrow> process option \<times> process rbt" where
  "pid_rb_delete root pid =
     (case pid_rb_search root pid of None \<Rightarrow> (None, root) | Some pos \<Rightarrow> (Some (pos_at pos), pos_erase pos))"

fun pid_insert_place :: "u32 \<Rightarrow> process rbt \<Rightarrow> process ctx \<Rightarrow> process ctx option" where
  "pid_insert_place pid Leaf k = Some k"
| "pid_insert_place pid (Node l c pr r) k =
     (if pid < p_pid pr then pid_insert_place pid l (FL c pr r # k)
      else if pid > p_pid pr then pid_insert_place pid r (FR l c pr # k)
      else None)"

definition process_rb_insert :: "process rbt \<Rightarrow> process \<Rightarrow> bool \<times> process rbt" where
  "process_rb_insert root pr =
     (case pid_insert_place (p_pid pr) root [] of None \<Rightarrow> (False, root) | Some k \<Rightarrow> (True, tree_link pr k))"

definition client_find_process :: "client \<Rightarrow> u32 \<Rightarrow> process option" where
  "client_find_process cl pid = map_option pos_at (pid_rb_search (cl_pids cl) pid)"

definition client_first_process :: "client \<Rightarrow> process option" where
  "client_first_process cl = (if cl_first_pid cl = 0 then None else client_find_process cl (cl_first_pid cl))"

definition client_add_process :: "client \<Rightarrow> process \<Rightarrow> client" where
  "client_add_process cl pr =
     cl\<lparr>cl_first_pid := (if cl_first_pid cl = 0 then p_pid pr else cl_first_pid cl),
        cl_pids := snd (process_rb_insert (cl_pids cl) pr)\<rparr>"

definition client_remove_process :: "client \<Rightarrow> process \<Rightarrow> client res" where
  "client_remove_process cl pr =
     (case pid_rb_delete (cl_pids cl) (p_pid pr) of
        (None, _) \<Rightarrow> Inr cl
      | (Some pr, t) \<Rightarrow> bindE (process_reset pr (cl_heap cl)) (\<lambda>(_, h). Inr (cl\<lparr>cl_pids := t, cl_heap := h\<rparr>)))"

text \<open>A handler changes the process in place, behind the pointer that the table holds.\<close>

definition client_put :: "client \<Rightarrow> process \<Rightarrow> heap \<Rightarrow> client" where
  "client_put cl pr h =
     cl\<lparr>cl_pids := (case pid_rb_search (cl_pids cl) (p_pid pr) of None \<Rightarrow> cl_pids cl | Some pos \<Rightarrow> pos_replace pr pos),
        cl_heap := h\<rparr>"

subsection \<open>Messages without a process\<close>

definition client_close :: "client \<Rightarrow> client" where
  "client_close cl = cl\<lparr>cl_open := False\<rparr>"

definition client_broken :: "client \<Rightarrow> client" where
  "client_broken cl = (if cl_open cl then client_close cl else cl)"

text \<open>A timer at byte \<open>off\<close> of the message; \<open>store_timer_info\<close> swaps its fields.\<close>

definition timer_at :: "bool \<Rightarrow> bytes \<Rightarrow> nat \<Rightarrow> memtrace_timer_info" where
  "timer_at swap b off =
     (let w32 = (\<lambda>o'. ucast (le_word (take 4 (drop o' b))) :: u32); w64 = le_word (take 8 (drop (off + 8) b)) in
      \<lparr>ti_max = (if swap then bswap_32 (w32 off) else w32 off),
       ti_count = (if swap then bswap_32 (w32 (off + 4)) else w32 (off + 4)),
       ti_culminate = (if swap then bswap_64 w64 else w64)\<rparr>)"

definition INFO_SIZE :: nat where "INFO_SIZE = 136"

definition read_info :: "bool \<Rightarrow> bytes \<Rightarrow> memtrace_info res" where
  "read_info swap payload =
     (case read_bytes INFO_SIZE payload of
        None \<Rightarrow> Inl ReadPastEnd
      | Some b \<Rightarrow> Inr \<lparr>mi_version = b ! 0, mi_mode = b ! 1, mi_do_trace = b ! 2, mi_stack_depth = b ! 3,
          mi_verbose = b ! 4, mi_timers = map (\<lambda>i. timer_at swap b (8 + 16 * i)) [0..<8]\<rparr>)"

definition client_control :: "u16 \<Rightarrow> bytes \<Rightarrow> bool \<Rightarrow> client \<Rightarrow> client res" where
  "client_control opc payload swap cl =
     (case op_of_code opc of
        Some MT_DISCONNECT \<Rightarrow> Inr (client_close cl)
      | Some MT_INFO \<Rightarrow> bindE (read_info swap payload) (\<lambda>i. Inr (cl\<lparr>cl_info := i\<rparr>))
      | _ \<Rightarrow> Inl (Fatal ''protocol violation''))"

subsection \<open>Messages about a process\<close>

definition pid_payload :: "process \<Rightarrow> bytes \<Rightarrow> u32 res" where
  "pid_payload pr payload =
     (case read_bytes 4 payload of None \<Rightarrow> Inl ReadPastEnd | Some b \<Rightarrow> Inr (pval32 pr (ucast (le_word b))))"

definition attached_payload :: "bytes \<Rightarrow> bool res" where
  "attached_payload payload = (case payload of [] \<Rightarrow> Inl ReadPastEnd | b # _ \<Rightarrow> Inr (b \<noteq> 0))"

text \<open>
  The results of the handlers, as whether the process is to be removed, the process and the heap; no value
  when the handler does not return.
\<close>

type_synonym handled = "(bool \<times> process \<times> heap) option res"

definition kept :: "(process \<times> heap) option res \<Rightarrow> handled" where
  "kept r = bindE r (\<lambda>o'. Inr (map_option (\<lambda>s. (False, s)) o'))"

definition returned :: "'a res \<Rightarrow> 'a option res" where
  "returned r = bindE r (\<lambda>x. Inr (Some x))"

text \<open>A process copied from itself is what the reset at the start of \<open>process_duplicate\<close> leaves of it.\<close>

definition process_fork :: "client_env \<Rightarrow> client \<Rightarrow> process \<Rightarrow> bytes \<Rightarrow> (process \<times> heap) option res" where
  "process_fork env cl pr payload =
     bindE (pid_payload pr payload) (\<lambda>pid.
       if pid = p_pid pr then bindE (process_reset pr (cl_heap cl)) (\<lambda>(pr, h). process_duplicate env pr h (Some pr))
       else process_duplicate env pr (cl_heap cl) (client_find_process cl pid))"

definition alloc_ops :: "mt_operation list" where
  "alloc_ops = [MT_MALLOC, MT_REALLOC, MT_MEMALIGN, MT_POSIX_MEMALIGN, MT_ALIGNED_ALLOC, MT_VALLOC, MT_PVALLOC, MT_MMAP,
     MT_MMAP64, MT_NEW, MT_NEW_ARRAY]"

definition free_ops :: "mt_operation list" where
  "free_ops = [MT_REALLOC_ENTER, MT_FREE, MT_DELETE, MT_DELETE_ARRAY]"

text \<open>The client is a 64-bit program (\<open>IS64BIT\<close>), as \<open>ulong\<close> is.\<close>

definition process_message :: "client_env \<Rightarrow> client \<Rightarrow> process \<Rightarrow> mt_msg \<Rightarrow> bytes \<Rightarrow> bool \<Rightarrow> handled" where
  "process_message env cl pr msg payload swap =
     (let h = cl_heap cl; op = operation msg; len = payload_len msg;
          maps = (\<lambda>r. bindE r (\<lambda>pr. Inr (Some (False, pr, h))))
      in
      if op \<in> set alloc_ops then kept (returned (process_alloc env pr h msg payload))
      else if op = MT_REALLOC_DONE then kept (returned (process_realloc_done env pr h msg payload))
      else if op \<in> set free_ops then kept (returned (process_free env pr h msg payload))
      else if op = MT_MUNMAP then kept (process_munmap env pr h msg payload)
      else if op = MT_FORK then kept (process_fork env cl pr payload)
      else if op = MT_ATTACH then kept (returned (bindE (attached_payload payload) (process_reinit pr h swap False)))
      else if op = MT_ATTACH64 then kept (returned (bindE (attached_payload payload) (process_reinit pr h swap True)))
      else if op = MT_ABOUT_EXIT then kept (returned (process_about_exit env pr h))
      else if op = MT_EXIT then returned (process_exit env pr h)
      else if op = MT_NOFOLLOW then Inr (Some (True, pr, h))
      else if op = MT_SCAN then returned (process_scan env pr h payload len)
      else if op = MT_ADD_MAP then maps (process_add_map pr payload len)
      else if op = MT_DEL_MAP then maps (process_del_map pr payload)
      else if op = MT_DETACH then returned (process_detach env pr h)
      else Inl (Fatal ''protocol violation''))"

text \<open>The process a message is for: an unknown one is new; a known one may ignore the message.\<close>

definition client_target :: "client \<Rightarrow> u32 \<Rightarrow> bool \<Rightarrow> process option \<times> client" where
  "client_target cl pid swap =
     (case client_find_process cl pid of
        None \<Rightarrow> let pr = process_new pid swap (mi_do_trace (cl_info cl) \<noteq> 0) in (Some pr, client_add_process cl pr)
      | Some pr \<Rightarrow>
          (if swap_endian pr \<noteq> swap then None
           else if status pr = MT_PROCESS_IGNORE then None
           else Some pr, cl))"

definition client_settle :: "client \<Rightarrow> bool \<times> process \<times> heap \<Rightarrow> client res" where
  "client_settle cl r =
     (case r of (gone, pr, h) \<Rightarrow>
        let cl = client_put cl pr h in if gone then client_remove_process cl pr else Inr cl)"

definition client_process_msg :: "client_env \<Rightarrow> u16 \<Rightarrow> u16 \<Rightarrow> u32 \<Rightarrow> bytes \<Rightarrow> bool \<Rightarrow> client \<Rightarrow> client option res" where
  "client_process_msg env opc pid len payload swap cl =
     (case client_target cl (ucast pid) swap of
        (None, cl) \<Rightarrow> Inr (Some cl)
      | (Some pr, cl) \<Rightarrow>
          (case op_of_code opc of
             None \<Rightarrow> Inl (Fatal ''protocol violation'')
           | Some op \<Rightarrow>
               bindE (process_message env cl pr \<lparr>operation = op, msg_pid = pid, payload_len = len\<rparr> payload swap) (\<lambda>r.
                 case r of None \<Rightarrow> Inr None | Some r \<Rightarrow> returned (client_settle cl r))))"

definition client_dispatch :: "client_env \<Rightarrow> (u16 \<times> u16 \<times> u32) \<times> bytes \<times> bool \<Rightarrow> client \<Rightarrow> client option res" where
  "client_dispatch env m cl =
     (case m of ((opc, pid, len), payload, swap) \<Rightarrow>
        if pid = 0 then returned (client_control opc payload swap cl)
        else client_process_msg env opc pid len payload swap cl)"

text \<open>The result is the operation, or \<open>None\<close> for -1.\<close>

definition client_func :: "client_env \<Rightarrow> client \<Rightarrow> (u16 option \<times> client) option res" where
  "client_func env cl =
     (case socket_read_msg (cl_in cl) of
        (None, cs) \<Rightarrow> Inr (Some (None, client_broken (cl\<lparr>cl_in := cs\<rparr>)))
      | (Some m, cs) \<Rightarrow>
          bindE (client_dispatch env m (cl\<lparr>cl_in := cs\<rparr>)) (\<lambda>r. Inr (map_option (\<lambda>cl. (Some (fst (fst m)), cl)) r)))"

subsection \<open>The loops\<close>

lemma client_put_fields [simp]: "cl_in (client_put cl pr h) = cl_in cl" "cl_open (client_put cl pr h) = cl_open cl"
  "cl_info (client_put cl pr h) = cl_info cl"
  by (simp_all add: client_put_def)

lemma client_settle_fields: "client_settle cl r = Inr cl' \<Longrightarrow> cl_in cl' = cl_in cl \<and> cl_open cl' = cl_open cl"
  by (auto simp: client_settle_def client_remove_process_def Let_def split: if_splits prod.splits option.splits)

lemma client_target_fields: "client_target cl pid swap = (r, cl') \<Longrightarrow> cl_in cl' = cl_in cl \<and> cl_open cl' = cl_open cl"
  by (auto simp: client_target_def client_add_process_def Let_def split: option.splits)

lemma client_dispatch_input:
  assumes "client_dispatch env m cl = Inr (Some cl')"
  shows "cl_in cl' = cl_in cl \<and> (cl_open cl' \<longrightarrow> cl_open cl)"
  using assms
  by (auto simp: client_dispatch_def client_process_msg_def client_control_def returned_def client_close_def
      split: prod.splits if_splits option.splits mt_operation.splits dest!: client_settle_fields client_target_fields)

lemma client_func_shrinks:
  assumes "client_func env cl = Inr (Some (r, cl'))" "cl_open cl"
  shows "\<not> cl_open cl' \<or> pending_input (cl_in cl') < pending_input (cl_in cl)"
proof (cases "fst (socket_read_msg (cl_in cl))")
  case None
  with assms show ?thesis by (auto simp: client_func_def client_broken_def client_close_def split: prod.splits)
next
  case (Some m)
  then obtain cs where m: "socket_read_msg (cl_in cl) = (Some m, cs)" by (metis prod.collapse)
  with assms have "client_dispatch env m (cl\<lparr>cl_in := cs\<rparr>) = Inr (Some cl')" by (auto simp: client_func_def)
  from client_dispatch_input [OF this] socket_read_shrinks [OF m] show ?thesis by simp
qed

text \<open>The loop of \<open>client_thread\<close> and of \<open>client_logfile\<close>: it ends because every call takes from the input or closes it.\<close>

function client_loop :: "client_env \<Rightarrow> client \<Rightarrow> client option res" where
  "client_loop env cl =
     (if \<not> cl_open cl then Inr (Some cl)
      else case client_func env cl of
        Inl e \<Rightarrow> Inl e
      | Inr None \<Rightarrow> Inr None
      | Inr (Some (_, cl)) \<Rightarrow> client_loop env cl)"
  by pat_completeness auto
termination
  by (relation "measure (\<lambda>(env, cl). if cl_open cl then Suc (pending_input (cl_in cl)) else 0)")
     (auto dest: client_func_shrinks)

declare client_loop.simps [simp del]

text \<open>
  \<open>client_wait_op\<close>: messages are handled until one of the operation came. \<open>waiting\<close> tells whether
  \<open>ioevent_wait_input\<close> reports input; the result is whether the connection was lost before.
\<close>

function client_wait_loop :: "client_env \<Rightarrow> (bytes list \<Rightarrow> bool) \<Rightarrow> mt_operation \<Rightarrow> client \<Rightarrow> (bool \<times> client) option res" where
  "client_wait_loop env waiting op cl =
     (if \<not> cl_open cl then Inr (Some (False, cl))
      else if \<not> waiting (cl_in cl) then Inr (Some (True, cl))
      else case client_func env cl of
        Inl e \<Rightarrow> Inl e
      | Inr None \<Rightarrow> Inr None
      | Inr (Some (r, cl)) \<Rightarrow> if r = Some (op_code op) then Inr (Some (True, cl)) else client_wait_loop env waiting op cl)"
  by pat_completeness auto
termination
  by (relation "measure (\<lambda>(env, waiting, op, cl). if cl_open cl then Suc (pending_input (cl_in cl)) else 0)")
     (auto dest: client_func_shrinks)

declare client_wait_loop.simps [simp del]

definition client_wait_op :: "client_env \<Rightarrow> (bytes list \<Rightarrow> bool) \<Rightarrow> bool \<Rightarrow> mt_operation \<Rightarrow> client \<Rightarrow> (bool \<times> client) option res" where
  "client_wait_op env waiting logfile op cl = (if logfile then Inr (Some (False, cl)) else client_wait_loop env waiting op cl)"

text \<open>\<open>client_set_depth\<close>: whether a request goes out, as -1, 0 or 1; \<open>sent\<close> is whether the socket takes it.\<close>

definition client_set_depth :: "bool \<Rightarrow> int \<Rightarrow> client \<Rightarrow> int \<times> client" where
  "client_set_depth sent depth cl =
     (if depth < 0 then (1, cl)
      else
        let depth = (if depth > 255 then 255 else depth) in
        if int (unat (mi_stack_depth (cl_info cl))) = depth then (1, cl)
        else if \<not> cl_open cl \<or> \<not> sent then (-1, client_broken cl)
        else (0, cl\<lparr>cl_heap := emit (Message MT_DEPTH [of_int depth]) (cl_heap cl)\<rparr>))"

definition MEMTRACE_SI_VERSION :: u8 where "MEMTRACE_SI_VERSION = 9"

text \<open>\<open>client_init\<close>, the configuration files apart.\<close>

definition client_init :: "bool \<Rightarrow> bytes list \<Rightarrow> memtrace_info \<Rightarrow> heap \<Rightarrow> client" where
  "client_init do_trace cs info h =
     \<lparr>cl_open = True, cl_in = cs, cl_pids = Leaf, cl_first_pid = 0,
      cl_info = info\<lparr>mi_version := MEMTRACE_SI_VERSION, mi_mode := 0, mi_do_trace := (if do_trace then 1 else 0), mi_stack_depth := 0\<rparr>,
      cl_heap = h\<rparr>"

definition client_logfile :: "client_env \<Rightarrow> bytes \<Rightarrow> memtrace_info \<Rightarrow> heap \<Rightarrow> client option res" where
  "client_logfile env file info h = client_loop env (client_init True (if file = [] then [] else [file]) info h)"

end
