(* ===== verification/Client_Table.thy ===== *)
theory Client_Table
  imports Client_Loop
begin

text \<open>
  What the main loop of the client guarantees. No handler changes the id of its process, so the table of
  processes stays a search tree ordered by id, in which every id occurs once; a log or a connection that
  carries whole messages is handled message by message, however the bytes are split, until it ends.
\<close>

subsection \<open>No handler changes the id\<close>

named_theorems keeps_pid

text \<open>In these proofs a successful sequence is taken apart step by step, so that the cases of a step can be split.\<close>

declare bindE_eq_Inr [simp del]

lemma bindE_E: "bindE m f = Inr y \<Longrightarrow> (\<And>x. m = Inr x \<Longrightarrow> f x = Inr y \<Longrightarrow> P) \<Longrightarrow> P"
  by (simp add: bindE_eq_Inr) blast

lemma open_map_pid [keeps_pid]: "open_map env pr h a = Inr (m, pr', h') \<Longrightarrow> p_pid pr' = p_pid pr"
  by (cases "locate_map (map_list pr) a")
     (auto simp: open_map_def Let_def split: if_split_asm simp del: try_paths.simps elim!: bindE_E)

lemma resolv_address_pid [keeps_pid]: "resolv_address env pr h a = Inr (sy, pr', h') \<Longrightarrow> p_pid pr' = p_pid pr"
  by (auto simp: resolv_address_def Let_def split: option.split_asm prod.split_asm dest!: keeps_pid elim!: bindE_E)

lemma resolv_all_pid [keeps_pid]: "resolv_all env pr h n bs = Inr (sy, pr', h') \<Longrightarrow> p_pid pr' = p_pid pr"
  by (induction env pr h n bs arbitrary: sy pr' h' rule: resolv_all.induct) (fastforce split: option.split_asm dest: keeps_pid elim!: bindE_E)+

lemma stack_resolv_pid [keeps_pid]: "stack_resolv env pr h s = Inr (s', pr', h') \<Longrightarrow> p_pid pr' = p_pid pr"
  by (auto simp: stack_resolv_def split: option.split_asm prod.split_asm dest!: keeps_pid elim!: bindE_E)

lemma stack_add_pid [keeps_pid]: "stack_add env pr h bs n op = Inr (i, pr', h') \<Longrightarrow> p_pid pr' = p_pid pr"
  by (auto simp: stack_add_def Let_def split: option.split_asm prod.split_asm sum.split_asm if_split_asm dest!: keeps_pid elim!: bindE_E)

lemma stack_clone_pid [keeps_pid]: "stack_clone pr h i = Inr (j, pr', h') \<Longrightarrow> p_pid pr' = p_pid pr"
  by (auto simp: stack_clone_def Let_def split: option.split_asm prod.split_asm sum.split_asm if_split_asm elim!: bindE_E)

lemma release_mem_pid [keeps_pid]: "process_release_mem pr h b sz = Inr (b', pr', h') \<Longrightarrow> p_pid pr' = p_pid pr"
  by (auto simp: process_release_mem_def split: if_split_asm elim!: bindE_E)

lemma delete_block_pid [keeps_pid]: "process_rb_delete_block pr h pos = Inr (pr', h') \<Longrightarrow> p_pid pr' = p_pid pr"
  by (auto simp: process_rb_delete_block_def Let_def dest!: keeps_pid elim!: bindE_E)

lemma insert_block_pid [keeps_pid]: "process_rb_insert_block env pr h a n i fl op = Inr (d, pr', h') \<Longrightarrow> p_pid pr' = p_pid pr"
  by (auto simp: process_rb_insert_block_def Let_def split: option.split_asm prod.split_asm elim!: bindE_E)

lemma evict_blocks_pid [keeps_pid]: "evict_blocks env pr h ptr sz op = Inr (pr', h') \<Longrightarrow> p_pid pr' = p_pid pr"
proof (induction env pr h ptr sz op arbitrary: pr' h' rule: evict_blocks.induct)
  case (1 env pr h ptr sz op)
  from "1.prems" "1.IH" show ?case
    by (subst (asm) evict_blocks.simps) (force split: option.split_asm if_split_asm dest: keeps_pid elim!: bindE_E)
qed

lemma process_alloc_pid [keeps_pid]: "process_alloc env pr h msg pl = Inr (pr', h') \<Longrightarrow> p_pid pr' = p_pid pr"
  by (auto simp: process_alloc_def split: option.split_asm if_split_asm dest!: keeps_pid elim!: bindE_E)

lemma realloc_add_pid [keeps_pid]: "realloc_add pr h pid a n fl i = Inr (pr', h') \<Longrightarrow> p_pid pr' = p_pid pr"
  by (auto simp: realloc_add_def Let_def elim!: bindE_E)

lemma count_stack_pid [keeps_pid]: "count_stack env pr h bs n op f = Inr (pr', h') \<Longrightarrow> p_pid pr' = p_pid pr"
  by (auto simp: count_stack_def split: option.split_asm dest!: keeps_pid elim!: bindE_E)

lemma process_free_pid [keeps_pid]: "process_free env pr h msg pl = Inr (pr', h') \<Longrightarrow> p_pid pr' = p_pid pr"
  by (auto simp: process_free_def Let_def split: option.split_asm if_split_asm dest!: keeps_pid elim!: bindE_E)

lemma realloc_done_pid [keeps_pid]: "process_realloc_done env pr h msg pl = Inr (pr', h') \<Longrightarrow> p_pid pr' = p_pid pr"
  by (auto simp: process_realloc_done_def Let_def split: option.split_asm if_split_asm prod.split_asm dest!: keeps_pid elim!: bindE_E)

lemma munmap_round_pid [keeps_pid]:
  "munmap_round env pr h op ptr sz = Inr r \<Longrightarrow> (case r of Inl (pr', _) \<Rightarrow> p_pid pr' = p_pid pr | Inr (pr', _) \<Rightarrow> p_pid pr' = p_pid pr)"
  by (auto simp: munmap_round_def Let_def split: option.split_asm if_split_asm dest!: keeps_pid elim!: bindE_E)

lemma munmap_loop_pid [keeps_pid]: "munmap_loop fuel env pr h op ptr sz = Inr (Some (pr', h')) \<Longrightarrow> p_pid pr' = p_pid pr"
proof (induction fuel arbitrary: pr h ptr sz)
  case (Suc fuel)
  from Suc.prems obtain r where r: "munmap_round env pr h op ptr sz = Inr r" by (auto elim!: bindE_E)
  show ?case
  proof (cases r)
    case (Inl s)
    with Suc.prems r munmap_round_pid [OF r] show ?thesis by auto
  next
    case (Inr q)
    with Suc r munmap_round_pid [OF r] show ?thesis by (auto split: prod.split_asm if_split_asm)
  qed
qed simp

lemma process_munmap_pid [keeps_pid]: "process_munmap env pr h msg pl = Inr (Some (pr', h')) \<Longrightarrow> p_pid pr' = p_pid pr"
  by (auto simp: process_munmap_def split: if_split_asm dest!: munmap_loop_pid simp del: munmap_loop.simps elim!: bindE_E)

lemma scan_loop_pid [keeps_pid]: "scan_loop n buf pr h = Inr (new, pr', h') \<Longrightarrow> p_pid pr' = p_pid pr"
  by (induction n buf pr h arbitrary: new pr' h' rule: scan_loop.induct) (fastforce simp: Let_def split: option.split_asm if_split_asm elim!: bindE_E)+

lemma process_scan_pid [keeps_pid]: "process_scan env pr h pl len = Inr (r, pr', h') \<Longrightarrow> p_pid pr' = p_pid pr"
  by (auto simp: process_scan_def Let_def split: if_split_asm dest!: keeps_pid elim!: bindE_E)

lemma leaks_scan_pid [keeps_pid]: "process_leaks_scan pr h mode = Inr (n, pr', h') \<Longrightarrow> p_pid pr' = p_pid pr"
  by (auto simp: process_leaks_scan_def Let_def split: if_split_asm option.split_asm prod.split_asm scan_mode.split_asm elim!: bindE_E)

lemma reset_blocks_pid [keeps_pid]: "reset_blocks bs pr h = Inr (pr', h') \<Longrightarrow> p_pid pr' = p_pid pr"
  by (induction bs pr h arbitrary: pr' h' rule: reset_blocks.induct) (fastforce elim!: bindE_E)+

lemma reset_stacks_pid [keeps_pid]: "reset_stacks is pr h = Inr (pr', h') \<Longrightarrow> p_pid pr' = p_pid pr"
  by (induction "is" pr h arbitrary: pr' h' rule: reset_stacks.induct) (fastforce split: if_split_asm elim!: bindE_E)+

lemma process_reset_pid [keeps_pid]: "process_reset pr h = Inr (pr', h') \<Longrightarrow> p_pid pr' = p_pid pr"
  by (auto simp: process_reset_def process_reset_allocations_def Let_def split: if_split_asm dest!: keeps_pid elim!: bindE_E)

lemma process_init_pid [simp]: "p_pid (process_init swap is64 att pr) = p_pid pr"
  by (simp add: process_init_def)

lemma process_reinit_pid [keeps_pid]: "process_reinit pr h swap is64 att = Inr (pr', h') \<Longrightarrow> p_pid pr' = p_pid pr"
  by (auto simp: process_reinit_def dest!: keeps_pid elim!: bindE_E)

lemma duplicate_block_pid [keeps_pid]: "process_rb_duplicate_block env b pr h = Inr (d, pr', h') \<Longrightarrow> p_pid pr' = p_pid pr"
  by (auto simp: process_rb_duplicate_block_def split: if_split_asm dest!: keeps_pid elim!: bindE_E)

lemma duplicate_blocks_pid [keeps_pid]: "duplicate_blocks env bs pr h = Inr (Some (pr', h')) \<Longrightarrow> p_pid pr' = p_pid pr"
  by (induction env bs pr h arbitrary: pr' h' rule: duplicate_blocks.induct) (fastforce split: if_split_asm dest: keeps_pid elim!: bindE_E)+

lemma add_map_entry_pid [simp]: "p_pid (process_add_map_entry pr a off n bias f bf) = p_pid pr"
  by (simp add: process_add_map_entry_def Let_def)

lemma add_map_copies_pid [simp]: "p_pid (foldl add_map_copy pr ms) = p_pid pr"
  by (induction ms arbitrary: pr) (auto simp: add_map_copy_def)

lemma process_duplicate_pid [keeps_pid]: "process_duplicate env pr h cp = Inr (Some (pr', h')) \<Longrightarrow> p_pid pr' = p_pid pr"
  by (auto simp: process_duplicate_def Let_def split: option.split_asm if_split_asm dest!: keeps_pid elim!: bindE_E)

lemma process_fork_pid [keeps_pid]: "process_fork env cl pr pl = Inr (Some (pr', h')) \<Longrightarrow> p_pid pr' = p_pid pr"
  by (auto simp: process_fork_def split: if_split_asm dest!: keeps_pid elim!: bindE_E)

lemma status_handlers_pid [keeps_pid]:
  "process_exit env pr h = Inr (r, pr', h') \<Longrightarrow> p_pid pr' = p_pid pr"
  "process_about_exit env pr h = Inr (pr', h') \<Longrightarrow> p_pid pr' = p_pid pr"
  "process_detach env pr h = Inr (r, pr', h') \<Longrightarrow> p_pid pr' = p_pid pr"
  by (auto simp: process_exit_def process_about_exit_def process_detach_def process_set_status_def Let_def split: if_split_asm dest!: keeps_pid elim!: bindE_E)

lemma map_handlers_pid [keeps_pid]:
  "process_add_map pr pl len = Inr pr' \<Longrightarrow> p_pid pr' = p_pid pr" "process_del_map pr pl = Inr pr' \<Longrightarrow> p_pid pr' = p_pid pr"
  by (auto simp: process_add_map_def process_del_map_def split: option.split_asm elim!: bindE_E)

lemma process_message_pid: "process_message env cl pr msg pl swap = Inr (Some (g, pr', h')) \<Longrightarrow> p_pid pr' = p_pid pr"
  by (auto simp: process_message_def kept_def returned_def Let_def split: if_split_asm dest!: keeps_pid elim!: bindE_E)

declare bindE_eq_Inr [simp]

subsection \<open>The table of processes\<close>

definition pids_ok :: "process rbt \<Rightarrow> bool" where
  "pids_ok t \<longleftrightarrow> is_rbt t \<and> sorted_wrt (<) (map p_pid (nodes t))"

lemma pid_search_Some: "pid_search_loop pid t k = Some pos \<Longrightarrow> pos_tree pos = plug k t \<and> p_pid (pos_at pos) = pid"
  by (induction pid t k rule: pid_search_loop.induct) (auto split: if_splits)

lemma pid_search_None:
  "pid_search_loop pid t k = None \<Longrightarrow> sorted_wrt (<) (map p_pid (nodes t)) \<Longrightarrow> pr \<in> set (nodes t) \<Longrightarrow> p_pid pr \<noteq> pid"
proof (induction pid t k rule: pid_search_loop.induct)
  case (2 pid l c x r k)
  then show ?case by (auto simp: sorted_wrt_append split: if_splits)
qed simp

lemma pid_insert_plug: "pid_insert_place pid t k = Some k' \<Longrightarrow> plug k' Leaf = plug k t"
  by (induction pid t k rule: pid_insert_place.induct) (auto split: if_splits)

lemma pid_insert_order:
  "pid_insert_place pid t k = Some k' \<Longrightarrow> sorted_wrt (<) (map p_pid (nodes t)) \<Longrightarrow>
   \<exists>xs ys. before k' = before k @ xs \<and> after k' = ys @ after k \<and> nodes t = xs @ ys \<and>
     (\<forall>x \<in> set xs. p_pid x < pid) \<and> (\<forall>y \<in> set ys. pid < p_pid y)"
proof (induction pid t k rule: pid_insert_place.induct)
  case (2 pid l c x r k)
  show ?case
  proof (cases pid "p_pid x" rule: linorder_cases)
    case less
    with 2 obtain xs ys where "before k' = before k @ xs" "after k' = ys @ x # nodes r @ after k" "nodes l = xs @ ys"
        "\<forall>x \<in> set xs. p_pid x < pid" "\<forall>y \<in> set ys. pid < p_pid y" by (auto simp: sorted_wrt_append)
    with less "2.prems"(2) show ?thesis
      by (intro exI [of _ xs] exI [of _ "ys @ x # nodes r"]) (auto simp: sorted_wrt_append)
  next
    case greater
    then have "\<not> pid < p_pid x" by simp
    with greater 2 obtain xs ys where "before k' = before k @ nodes l @ x # xs" "after k' = ys @ after k" "nodes r = xs @ ys"
        "\<forall>x \<in> set xs. p_pid x < pid" "\<forall>y \<in> set ys. pid < p_pid y" by (auto simp: sorted_wrt_append)
    with greater "2.prems"(2) show ?thesis
      by (intro exI [of _ "nodes l @ x # xs"] exI [of _ ys]) (auto simp: sorted_wrt_append)
  qed (use 2 in auto)
qed auto

lemma pid_insert_None: "pid_insert_place pid t k = None \<Longrightarrow> \<exists>pr \<in> set (nodes t). p_pid pr = pid"
  by (induction pid t k rule: pid_insert_place.induct) (auto split: if_splits)

text \<open>Lookup by id gives the one process with that id.\<close>

lemma client_find_process_iff:
  assumes "pids_ok (cl_pids cl)"
  shows "client_find_process cl pid = Some pr \<longleftrightarrow> pr \<in> set (nodes (cl_pids cl)) \<and> p_pid pr = pid"
proof (cases "pid_rb_search (cl_pids cl) pid")
  case None
  with pid_search_None [of pid "cl_pids cl" "[]"] assms show ?thesis
    by (auto simp: pid_rb_search_def client_find_process_def pids_ok_def)
next
  case (Some pos)
  with pid_search_Some [of pid "cl_pids cl" "[]"] have p: "pos_tree pos = cl_pids cl" "p_pid (pos_at pos) = pid"
    by (auto simp: pid_rb_search_def)
  have "distinct (map p_pid (nodes (cl_pids cl)))"
    using assms by (simp add: pids_ok_def strict_sorted_iff)
  moreover have "pos_at pos \<in> set (nodes (cl_pids cl))" using tbl.at_entry [of pos] p(1) by simp
  ultimately have "pr = pos_at pos" if "pr \<in> set (nodes (cl_pids cl))" "p_pid pr = pid"
    using that p(2) by (metis eq_key_imp_eq_value distinct_map inj_onD)
  with Some p \<open>pos_at pos \<in> _\<close> show ?thesis by (auto simp: client_find_process_def)
qed

lemma client_find_process_None:
  "pids_ok (cl_pids cl) \<Longrightarrow> client_find_process cl pid = None \<longleftrightarrow> (\<forall>pr \<in> set (nodes (cl_pids cl)). p_pid pr \<noteq> pid)"
  using client_find_process_iff [of cl pid] by (metis not_None_eq option.exhaust)

lemma client_add_process_ok:
  assumes "pids_ok (cl_pids cl)" "client_find_process cl (p_pid pr) = None"
  shows "pids_ok (cl_pids (client_add_process cl pr))"
    and "set (nodes (cl_pids (client_add_process cl pr))) = insert pr (set (nodes (cl_pids cl)))"
proof -
  from assms pid_insert_None [of "p_pid pr" "cl_pids cl" "[]"] client_find_process_None obtain k where
    k: "pid_insert_place (p_pid pr) (cl_pids cl) [] = Some k" by fastforce
  have t: "cl_pids (client_add_process cl pr) = tree_link pr k" using k by (simp add: client_add_process_def process_rb_insert_def)
  from pid_insert_order [OF k] assms(1) obtain xs ys where
    xy: "before k = xs" "after k = ys" "nodes (cl_pids cl) = xs @ ys" "\<forall>x \<in> set xs. p_pid x < p_pid pr" "\<forall>y \<in> set ys. p_pid pr < p_pid y"
    by (auto simp: pids_ok_def)
  have "is_rbt (tree_link pr k)" using tbl.ok_link [of k pr] pid_insert_plug [OF k] assms(1) by (simp add: pids_ok_def)
  with xy t assms(1) show "pids_ok (cl_pids (client_add_process cl pr))"
    by (auto simp: pids_ok_def tree_link_def sorted_wrt_append)
  show "set (nodes (cl_pids (client_add_process cl pr))) = insert pr (set (nodes (cl_pids cl)))"
    using xy t by (auto simp: tree_link_def)
qed

lemma client_put_ok:
  assumes "pids_ok (cl_pids cl)"
  shows "pids_ok (cl_pids (client_put cl pr h))"
proof (cases "pid_rb_search (cl_pids cl) (p_pid pr)")
  case (Some pos)
  with pid_search_Some [of "p_pid pr" "cl_pids cl" "[]"] have p: "pos_tree pos = cl_pids cl" "p_pid (pos_at pos) = p_pid pr"
    by (auto simp: pid_rb_search_def)
  from tbl.at_split [of pos] obtain xs ys where "nodes (cl_pids cl) = xs @ pos_at pos # ys" "nodes (pos_replace pr pos) = xs @ pr # ys"
    using p(1) by auto
  with Some p assms tbl.ok_replace [of pos pr] show ?thesis by (simp add: client_put_def pids_ok_def)
qed (use assms in \<open>simp add: client_put_def\<close>)

lemma client_put_find:
  assumes "pids_ok (cl_pids cl)" "client_find_process cl (p_pid pr) \<noteq> None"
  shows "client_find_process (client_put cl pr h) pid = (if pid = p_pid pr then Some pr else client_find_process cl pid)"
proof -
  from assms(2) obtain pos where pos: "pid_rb_search (cl_pids cl) (p_pid pr) = Some pos" by (auto simp: client_find_process_def)
  with pid_search_Some [of "p_pid pr" "cl_pids cl" "[]"] have p: "pos_tree pos = cl_pids cl" "p_pid (pos_at pos) = p_pid pr"
    by (auto simp: pid_rb_search_def)
  from tbl.at_split [of pos] obtain xs ys where xy: "nodes (cl_pids cl) = xs @ pos_at pos # ys" "nodes (pos_replace pr pos) = xs @ pr # ys"
    using p(1) by auto
  have t: "cl_pids (client_put cl pr h) = pos_replace pr pos" using pos by (simp add: client_put_def)
  have d: "\<forall>x \<in> set xs \<union> set ys. p_pid x \<noteq> p_pid pr" using assms(1) xy(1) p(2) by (auto simp: pids_ok_def sorted_wrt_append)
  have "client_find_process (client_put cl pr h) pid = Some q \<longleftrightarrow>
      (if pid = p_pid pr then Some pr else client_find_process cl pid) = Some q" for q
    using client_find_process_iff [OF client_put_ok [OF assms(1)], of pr h pid q] client_find_process_iff [OF assms(1), of pid q]
    unfolding t xy using d p(2) by auto
  then show ?thesis by (metis not_Some_eq)
qed

lemma client_remove_process_ok:
  assumes "pids_ok (cl_pids cl)" "client_remove_process cl pr = Inr cl'"
  shows "pids_ok (cl_pids cl') \<and> client_find_process cl' (p_pid pr) = None"
proof (cases "pid_rb_search (cl_pids cl) (p_pid pr)")
  case None
  with assms show ?thesis by (auto simp: client_remove_process_def pid_rb_delete_def client_find_process_def)
next
  case (Some pos)
  with pid_search_Some [of "p_pid pr" "cl_pids cl" "[]"] have p: "pos_tree pos = cl_pids cl" "p_pid (pos_at pos) = p_pid pr"
    by (auto simp: pid_rb_search_def)
  from tbl.at_split [of pos] obtain xs ys where xy: "nodes (cl_pids cl) = xs @ pos_at pos # ys" "nodes (pos_erase pos) = xs @ ys"
    using p(1) by auto
  have t: "cl_pids cl' = pos_erase pos" using assms(2) Some by (auto simp: client_remove_process_def pid_rb_delete_def)
  have ok: "pids_ok (cl_pids cl')" using assms(1) xy p(1) tbl.ok_erase [of pos] unfolding t by (auto simp: pids_ok_def sorted_wrt_append)
  have "\<forall>x \<in> set xs \<union> set ys. p_pid x \<noteq> p_pid pr" using assms(1) xy(1) p(2) by (auto simp: pids_ok_def sorted_wrt_append)
  with client_find_process_None [OF ok] ok show ?thesis unfolding t xy(2) by auto
qed

subsection \<open>Every message keeps the table\<close>

lemma client_target_ok:
  assumes "pids_ok (cl_pids cl)" "client_target cl pid swap = (r, cl')"
  shows "pids_ok (cl_pids cl') \<and> (\<forall>pr. r = Some pr \<longrightarrow> p_pid pr = pid \<and> client_find_process cl' pid = Some pr)"
proof (cases "client_find_process cl pid")
  case None
  let ?pr = "process_new pid swap (mi_do_trace (cl_info cl) \<noteq> 0)"
  have p: "p_pid ?pr = pid" by (simp add: process_new_def)
  with None client_add_process_ok [OF assms(1), of ?pr] have
    a: "pids_ok (cl_pids (client_add_process cl ?pr))" "?pr \<in> set (nodes (cl_pids (client_add_process cl ?pr)))" by auto
  with assms(2) None p client_find_process_iff [OF a(1), of pid ?pr] show ?thesis
    by (auto simp: client_target_def Let_def)
next
  case (Some pr)
  with client_find_process_iff [OF assms(1), of pid pr] assms show ?thesis by (auto simp: client_target_def split: if_splits)
qed

lemma client_settle_ok:
  "pids_ok (cl_pids cl) \<Longrightarrow> client_settle cl r = Inr cl' \<Longrightarrow> pids_ok (cl_pids cl')"
  by (cases r) (auto simp: client_settle_def Let_def split: if_splits dest: client_put_ok client_remove_process_ok)

lemma client_dispatch_ok:
  assumes "pids_ok (cl_pids cl)" "client_dispatch env m cl = Inr (Some cl')"
  shows "pids_ok (cl_pids cl')"
proof -
  obtain opc pid len payload swap where m: "m = ((opc, pid, len), payload, swap)" by (metis prod.exhaust)
  show ?thesis
  proof (cases "pid = 0")
    case True
    with assms m show ?thesis
      by (auto simp: client_dispatch_def client_control_def client_close_def returned_def split: option.splits mt_operation.splits)
  next
    case False
    obtain r cl1 where t: "client_target cl (ucast pid) swap = (r, cl1)" by fastforce
    from client_target_ok [OF assms(1) t] assms(2) m False t client_settle_ok show ?thesis
      by (fastforce simp: client_dispatch_def client_process_msg_def returned_def split: option.splits)
  qed
qed

lemma client_func_ok:
  assumes "pids_ok (cl_pids cl)" "client_func env cl = Inr (Some (r, cl'))"
  shows "pids_ok (cl_pids cl')"
  using assms client_dispatch_ok [of "cl\<lparr>cl_in := cs\<rparr>" for cs]
  by (fastforce simp: client_func_def client_broken_def client_close_def split: prod.splits option.splits)

lemma client_loop_ok:
  assumes "client_loop env cl = Inr (Some cl')" "pids_ok (cl_pids cl)"
  shows "pids_ok (cl_pids cl') \<and> \<not> cl_open cl'"
  using assms
proof (induction env cl rule: client_loop.induct)
  case (1 env cl)
  show ?case
  proof (cases "cl_open cl")
    case True
    with "1.prems"(1) obtain r cl1 where f: "client_func env cl = Inr (Some (r, cl1))" "client_loop env cl1 = Inr (Some cl')"
      by (auto simp: client_loop.simps [of env cl] split: sum.splits option.splits)
    from "1.IH" [OF _ f(1)] True f(2) client_func_ok [OF "1.prems"(2) f(1)] show ?thesis by simp
  qed (use "1.prems" in \<open>simp add: client_loop.simps\<close>)
qed

subsection \<open>The loop handles the messages in order\<close>

text \<open>What a message does not depend on the input that follows it.\<close>

definition with_input :: "bytes list \<Rightarrow> client option res \<Rightarrow> client option res" where
  "with_input cs r = map_sum id (map_option (\<lambda>cl. cl\<lparr>cl_in := cs\<rparr>)) r"

lemma with_input_simps [simp]:
  "with_input cs (Inl e) = Inl e" "with_input cs (Inr None) = Inr None"
  "with_input cs (Inr (Some cl)) = Inr (Some (cl\<lparr>cl_in := cs\<rparr>))"
  by (simp_all add: with_input_def)

lemma with_input_bind: "with_input cs (bindE r f) = bindE r (\<lambda>x. with_input cs (f x))"
  by (cases r) (simp_all add: with_input_def)

lemma find_process_input [simp]: "client_find_process (cl\<lparr>cl_in := cs\<rparr>) pid = client_find_process cl pid"
  by (simp add: client_find_process_def)

lemma process_message_input [simp]:
  "process_message env (cl\<lparr>cl_in := cs\<rparr>) pr msg payload swap = process_message env cl pr msg payload swap"
  by (simp add: process_message_def process_fork_def Let_def cong: if_cong)

lemma client_target_input:
  "client_target (cl\<lparr>cl_in := cs\<rparr>) pid swap = apsnd (\<lambda>cl. cl\<lparr>cl_in := cs\<rparr>) (client_target cl pid swap)"
  by (auto simp: client_target_def client_add_process_def Let_def split: option.splits)

lemma client_settle_input:
  "returned (client_settle (cl\<lparr>cl_in := cs\<rparr>) r) = with_input cs (returned (client_settle cl r))"
proof -
  obtain g pr h where r: "r = (g, pr, h)" by (metis prod.exhaust)
  obtain o' t where d: "pid_rb_delete (cl_pids (client_put cl pr h)) (p_pid pr) = (o', t)" by fastforce
  have "client_put (cl\<lparr>cl_in := cs\<rparr>) pr h = (client_put cl pr h)\<lparr>cl_in := cs\<rparr>" by (simp add: client_put_def split: option.split)
  with r d show ?thesis
    by (cases o'; cases "process_reset (the o') (cl_heap (client_put cl pr h))")
       (auto simp: client_settle_def client_remove_process_def returned_def Let_def)
qed

lemma client_dispatch_with_input: "client_dispatch env m (cl\<lparr>cl_in := cs\<rparr>) = with_input cs (client_dispatch env m cl)"
proof -
  obtain opc pid len payload swap where m: "m = ((opc, pid, len), payload, swap)" by (metis prod.exhaust)
  show ?thesis
  proof (cases "pid = 0")
    case True
    with m show ?thesis
      by (auto simp: client_dispatch_def client_control_def client_close_def returned_def with_input_bind bindE_assoc split: option.splits mt_operation.splits intro!: bindE_cong)
  next
    case False
    obtain r cl1 where t: "client_target cl (ucast pid) swap = (r, cl1)" by fastforce
    with m False show ?thesis
      by (auto simp: client_dispatch_def client_process_msg_def client_target_input client_settle_input with_input_bind split: option.splits intro!: bindE_cong)
  qed
qed

text \<open>
  The messages one after the other, from a list: until one closes the connection, one of them ends the
  program, or the list ends and with it the connection.
\<close>

type_synonym message = "mt_operation \<times> u32 \<times> bytes"

fun client_replay :: "client_env \<Rightarrow> message list \<Rightarrow> client \<Rightarrow> client option res" where
  "client_replay env [] cl = Inr (Some (client_broken cl))"
| "client_replay env ((op, pid, payload) # ms) cl =
     (if \<not> cl_open cl then Inr (Some cl)
      else case client_dispatch env ((op_code op, ucast pid, of_nat (length payload)), payload, False) cl of
        Inl e \<Rightarrow> Inl e
      | Inr None \<Rightarrow> Inr None
      | Inr (Some cl) \<Rightarrow> client_replay env ms cl)"

definition sent_messages :: "message list \<Rightarrow> bytes" where
  "sent_messages ms = concat (map (\<lambda>(op, pid, payload). sock_send_msg (op_code op) pid payload) ms)"

lemma client_replay_closed: "\<not> cl_open cl \<Longrightarrow> client_replay env ms cl = Inr (Some cl)"
  by (cases ms) (auto simp: client_broken_def)

lemma client_loop_replay:
  assumes "flowing cs" "concat cs = sent_messages ms" "list_all (\<lambda>(op, pid, payload). length payload < 2 ^ 32) ms"
  shows "with_input [] (client_loop env (cl\<lparr>cl_in := cs\<rparr>)) = with_input [] (client_replay env ms cl)"
  using assms
proof (induction ms arbitrary: cs cl)
  case Nil
  then have "cs = []" by (cases cs) (auto simp: sent_messages_def)
  then have "socket_read_msg cs = (None, [])" by (simp add: socket_read_msg_def safe_read.simps)
  then show ?case
    by (auto simp: client_loop.simps [of env "cl\<lparr>cl_in := cs\<rparr>"] client_loop.simps [of env "cl\<lparr>cl_in := [], cl_open := False\<rparr>"]
        client_func_def client_broken_def client_close_def)
next
  case (Cons m ms)
  obtain op pid payload where m: "m = (op, pid, payload)" by (metis prod.exhaust)
  show ?case
  proof (cases "cl_open cl")
    case True
    have "concat cs = sock_send_msg (op_code op) pid payload @ sent_messages ms" "length payload < 2 ^ 32"
      using Cons.prems m by (simp_all add: sent_messages_def)
    from socket_read_sent [OF Cons.prems(1) this] obtain cs' where
      r: "socket_read_msg cs = (Some ((op_code op, ucast pid, of_nat (length payload)), payload, False), cs')"
        "flowing cs'" "concat cs' = sent_messages ms" by blast
    let ?d = "client_dispatch env ((op_code op, ucast pid, of_nat (length payload)), payload, False)"
    have "with_input [] (client_loop env (cl2\<lparr>cl_in := cs'\<rparr>)) = with_input [] (client_replay env ms cl2)" for cl2
      using Cons.IH [OF r(2,3)] Cons.prems(3) by simp
    with True m r(1) client_dispatch_with_input [of env _ cs' cl] show ?thesis
      by (cases "?d cl") (auto simp: client_loop.simps [of env "cl\<lparr>cl_in := cs\<rparr>"] client_func_def split: option.splits)
  next
    case False
    then show ?thesis using client_replay_closed [OF False, of env "m # ms"] by (simp add: client_loop.simps)
  qed
qed

end
