(* ===== verification/Trace_Client.thy ===== *)
theory Trace_Client
  imports Report Client_Table Client_Steps
begin

text \<open>
  Tracer and client together. The bytes a report of the tracer sends are read, dispatched and recorded by the
  client: an intercepted allocation becomes a block of the process with the call stack of the report; a
  library becomes a mapping; the state of the tracer becomes the one the client shows.
\<close>

subsection \<open>Allocations\<close>

definition sent_bytes :: "report_effect list \<Rightarrow> bytes" where
  "sent_bytes es = concat (map (\<lambda>e. case e of Sent b \<Rightarrow> b | SkippedBreakpoint \<Rightarrow> []) es)"

lemma length_sock_send_msg: "length (sock_send_msg op pid payload) = 8 + length payload"
  by (simp add: sock_send_msg_def Let_def)

lemma sock_send_nonempty: "sock_send_msg op pid payload \<noteq> []"
  using length_sock_send_msg [of op pid payload] by auto

text \<open>A 64-bit process of the byte order of the client, which does not ignore messages.\<close>

definition speaks64 :: "process \<Rightarrow> bool" where
  "speaks64 pr \<longleftrightarrow> \<not> swap_endian pr \<and> status pr \<noteq> MT_PROCESS_IGNORE \<and> is_64bit pr \<and> get_ulong pr = get_uint64"

lemma ucast_of_nat_small:
  assumes "n < 2 ^ 32"
  shows "ucast (of_nat n :: u32) = (of_nat n :: u64)" "ucast (of_nat n :: u64) = (of_nat n :: u32)"
  using assms by (simp_all add: word_unat_eq_iff unsigned_ucast_eq unat_of_nat take_bit_nat_eq_self)

lemma ucast_small_pid:
  fixes pid :: u32
  assumes "pid < 65536"
  shows "ucast (ucast pid :: u16) = pid"
  using assms by (simp add: word_unat_eq_iff unsigned_ucast_eq unsigned_take_bit_eq take_bit_nat_eq_self word_less_nat_alt)

lemma alloc_payload_64:
  assumes "speaks64 pr" "length stk + 16 < 2 ^ 32"
  shows "alloc_payload pr \<lparr>operation = op, msg_pid = pid, payload_len = of_nat (length (le_bytes 8 ptr @ le_bytes 8 sz @ stk))\<rparr>
     (le_bytes 8 ptr @ le_bytes 8 sz @ stk) = Inr (ptr, sz, stk, of_nat (length stk))"
proof -
  have "(ucast (of_nat (16 + length stk) :: u32) :: u64) = of_nat (16 + length stk)"
    by (rule ucast_of_nat_small) (use assms(2) in simp)
  with assms show ?thesis
    by (simp add: alloc_payload_def speaks64_def get_uint64_def read_bytes_def add.assoc)
qed

lemma frames_length:
  assumes "frames_ok conv depth libsym data"
  shows "length (concat (map (le_bytes 8) data)) \<le> 8 * depth"
proof -
  have "length (concat (map (le_bytes 8) data)) = 8 * length data" by (induction data) auto
  with assms show ?thesis by (simp add: frames_ok_def)
qed

definition frames_known :: "process \<Rightarrow> heap \<Rightarrow> nat \<Rightarrow> library_symbol \<Rightarrow> mt_operation \<Rightarrow> bool" where
  "frames_known pr h depth libsym op \<longleftrightarrow>
     (\<forall>data. frames_ok id depth libsym data \<longrightarrow>
        stack_ready pr h (concat (map (le_bytes 8) data)) (of_nat (length (concat (map (le_bytes 8) data)))) op)"

lemma client_func_alloc:
  assumes cs: "flowing (cl_in cl)" "concat (cl_in cl) = sock_send_msg (op_code op) pid (le_bytes 8 ptr @ le_bytes 8 sz @ stk) @ rest"
    and op: "op \<in> set alloc_ops" and pid: "(ucast pid :: u16) \<noteq> 0"
    and pr: "pids_ok (cl_pids cl)" "client_find_process cl (ucast (ucast pid :: u16)) = Some pr" "speaks64 pr" "tracing pr"
    and inv: "proc_inv pr (cl_heap cl)" "normal env (pr, cl_heap cl)"
    and fresh: "list_all (\<lambda>b. \<not> starts_in ptr (at_least_1 sz) b) (blocks pr)"
    and stk: "stack_ready pr (cl_heap cl) stk (of_nat (length stk)) op" "length stk + 16 < 2 ^ 32"
  shows "\<exists>cl' pr' i xs ys. client_func env cl = Inr (Some (Some (op_code op), cl')) \<and> concat (cl_in cl') = rest \<and>
     client_find_process cl' (ucast (ucast pid :: u16)) = Some pr' \<and> proc_inv pr' (cl_heap cl') \<and>
     stack_key (cl_heap cl') i = stk \<and> blocks pr' = xs @ \<lparr>b_flags = 0, b_addr = ptr, b_size = sz, b_stack = i\<rparr> # ys \<and>
     xs @ ys = blocks pr"
proof -
  let ?payload = "le_bytes 8 ptr @ le_bytes 8 sz @ stk"
  let ?msg = "\<lparr>operation = op, msg_pid = ucast pid, payload_len = of_nat (length ?payload)\<rparr>"
  have "length ?payload < 2 ^ 32" using stk(2) by simp
  from socket_read_sent [OF cs this] obtain cs' where
    rd: "socket_read_msg (cl_in cl) = (Some ((op_code op, ucast pid, of_nat (length ?payload)), ?payload, False), cs')"
      "concat cs' = rest" by blast
  have pl: "alloc_payload pr ?msg ?payload = Inr (ptr, sz, stk, of_nat (length stk))"
    by (rule alloc_payload_64 [OF pr(3) stk(2)])
  have u: "(ucast (of_nat (length stk) :: u64) :: u32) = of_nat (length stk)" by (rule ucast_of_nat_small) (use stk(2) in simp)
  from process_alloc_returns [OF inv(1) _ _ _ pl, of 1 env] inv(2) fresh stk u obtain pr' h' where
    al: "process_alloc env pr (cl_heap cl) ?msg ?payload = Inr (pr', h')"
    by (fastforce simp: normal_def numeral_2_eq_2 list_all_iff)
  from process_alloc_inv [OF inv(1) _ _ _ _ pr(4) pl al, of 1] inv(2) obtain i xs ys where
    res: "proc_inv pr' h'" "stack_key h' i = take (unat (of_nat (length stk) :: u32)) stk"
      "blocks pr' = xs @ \<lparr>b_flags = 0, b_addr = ptr, b_size = sz, b_stack = i\<rparr> # ys"
      "xs @ ys = filter (\<lambda>b. \<not> starts_in ptr (if sz = 0 then 1 else sz) b) (blocks pr)"
    unfolding u by (auto simp: normal_def numeral_2_eq_2)
  have "filter (\<lambda>b. \<not> starts_in ptr (if sz = 0 then 1 else sz) b) (blocks pr) = blocks pr"
    using fresh by (simp add: list_all_iff)
  then have xy: "xs @ ys = blocks pr" using res(4) by simp
  have key: "stack_key h' i = stk" using res(2) stk(2) by (simp add: unat_of_nat take_bit_nat_eq_self)
  let ?cl = "cl\<lparr>cl_in := cs'\<rparr>"
  have pid': "p_pid pr' = ucast (ucast pid :: u16)"
    using process_alloc_pid [OF al] client_find_process_iff [OF pr(1)] pr(2) by metis
  have msg: "process_message env ?cl pr ?msg ?payload False = Inr (Some (False, pr', h'))"
    using op al by (simp add: process_message_def kept_def returned_def Let_def)
  have "client_func env cl = Inr (Some (Some (op_code op), client_put ?cl pr' h'))"
    using rd(1) pid pr(2,3) msg
    by (simp add: client_func_def client_dispatch_def client_process_msg_def client_target_def speaks64_def client_settle_def returned_def)
  moreover have "client_find_process (client_put ?cl pr' h') (ucast (ucast pid :: u16)) = Some pr'"
    using client_put_find [of ?cl pr' h'] pr(1,2) pid' by simp
  moreover have "cl_heap (client_put ?cl pr' h') = h'" by (simp add: client_put_def)
  ultimately show ?thesis using rd(2) res(1,3) key xy
    by (intro exI [of _ "client_put ?cl pr' h'"] exI [of _ pr'] exI [of _ i] exI [of _ xs] exI [of _ ys]) simp
qed

subsection \<open>Libraries\<close>

text \<open>The mapping of the client for a library of the tracer.\<close>

definition map_of_lib :: "libref \<Rightarrow> map_entry" where
  "map_of_lib lr =
     \<lparr>m_offset = txt_offset lr, m_addr = txt_vaddr lr, m_size = txt_size lr, m_bias = lr_bias lr,
      m_filename = the (lr_filename lr), m_binfile = None, m_ignore = False\<rparr>"

definition lib_named :: "libref \<Rightarrow> bool" where
  "lib_named lr \<longleftrightarrow> (\<exists>f. lr_filename lr = Some f \<and> CHR 0x00 \<notin> set f \<and> length f < 2 ^ 31)"

lemma c_string_filename:
  assumes "CHR 0x00 \<notin> set f"
  shows "c_string (map of_char f @ [0 :: u8]) = f"
proof -
  have n: "unat (of_char c :: u8) = (of_char c :: nat)" for c
  proof -
    have "unat (of_char c :: u8) = unat (of_nat (of_char c) :: u8)" by (simp only: of_nat_of_char)
    also have "\<dots> = of_char c mod 256" by (simp only: unat_of_nat) (simp add: take_bit_eq_mod)
    finally show ?thesis by simp
  qed
  then have u: "char_of (unat (of_char c :: u8)) = c" for c by simp
  then have c: "(of_char c :: u8) = 0 \<longleftrightarrow> c = CHR 0x00" for c 
    using u [of c] n [of "CHR 0x00"] by (cases c) (auto simp: unat_eq_0 [symmetric] simp flip: n)
  have "takeWhile (\<lambda>b. b \<noteq> 0) (map of_char f @ [0 :: u8]) = map of_char f"
    using assms by (induction f) (auto simp: c)
  then show ?thesis by (simp add: c_string_def u comp_def)
qed

lemma process_add_map_reported:
  assumes "lib_named lr" "pval64 pr = val64"
  shows "process_add_map pr (map_payload lr) (of_nat (length (map_payload lr))) =
     Inr (process_add_map_entry pr (txt_vaddr lr) (txt_offset lr) (txt_size lr) (lr_bias lr) (the (lr_filename lr)) None)"
proof -
  from assms(1) obtain f where f: "lr_filename lr = Some f" "CHR 0x00 \<notin> set f" "length f < 2 ^ 31" by (auto simp: lib_named_def)
  have len: "length (map_payload lr) = 33 + length f" using f(1) by (simp add: map_payload_def)
  have "unat (of_nat (length (map_payload lr)) :: u32) = length (map_payload lr)"
    using len f(3) by (simp only: unat_of_nat) (simp add: take_bit_nat_eq_self)
  moreover have "drop 32 (map_payload lr) = map of_char f @ [0]" using f(1) by (simp add: map_payload_def)
  ultimately show ?thesis using f assms(2) c_string_filename [OF f(2)]
    by (simp add: process_add_map_def payload_u64_def read_bytes_def len map_payload_def val64_def)
qed

text \<open>What \<open>report_process\<close> sends for a process.\<close>

definition map_messages :: "u32 \<Rightarrow> library list \<Rightarrow> message list" where
  "map_messages pid libs = map (\<lambda>lib. (MT_ADD_MAP, pid, map_payload (lib_ref lib))) libs"

lemma report_libs_sends:
  assumes "rp_connected env" "list_all (\<lambda>lib. lib_named (lib_ref lib)) libs"
  shows "report_libs env libs s = (Inr (), s\<lparr>rp_effects := rp_effects s @
     map (\<lambda>(op, pid, payload). Sent (sock_send_msg (op_code op) pid payload)) (map_messages (rt_pid (rp_task s)) libs)\<rparr>)"
  using assms(2)
proof (induction libs arbitrary: s)
  case (Cons lib libs)
  then obtain f where "lr_filename (lib_ref lib) = Some f" by (auto simp: lib_named_def)
  with assms(1) have "report_add_map env lib s =
      (Inr True, s\<lparr>rp_effects := rp_effects s @ [Sent (sock_send_msg (op_code MT_ADD_MAP) (rt_pid (rp_task s)) (map_payload (lib_ref lib)))]\<rparr>)"
    by (simp add: report_add_map_def when_connected_def report_map_def server_send_msg_def bindS_def dop_defs)
  with Cons show ?case by (simp add: bindS_def dop_defs map_messages_def)
qed (simp add: dop_defs map_messages_def)

lemma report_process_sends:
  assumes "rp_connected env" "list_all (\<lambda>lib. lib_named (lib_ref lib)) (libraries_list (rp_libs env))" "rp_64bit s"
  shows "\<exists>s'. report_process env s = (Inr (), s') \<and> sent_bytes (drop (length (rp_effects s)) (rp_effects s')) =
     sent_messages ((MT_ATTACH64, rt_pid (rp_task s), [1]) # map_messages (rt_pid (rp_task s)) (libraries_list (rp_libs env)))"
proof -
  let ?s1 = "s\<lparr>rp_effects := rp_effects s @ [Sent (sock_send_msg (op_code MT_ATTACH64) (rt_pid (rp_task s)) [1])]\<rparr>"
  have a: "report_attach env True s = (Inr True, ?s1)"
    using assms(1,3) by (simp add: report_attach_def report_pid_def when_connected_def server_send_msg_def bindS_def dop_defs)
  have m: "sent_bytes (map (\<lambda>(op, pid, payload). Sent (sock_send_msg (op_code op) pid payload)) ms) = sent_messages ms" for ms
    by (auto simp: sent_bytes_def sent_messages_def comp_def split_def)
  have "sent_bytes (Sent b # es) = b @ sent_bytes es" "sent_messages ((op, pid, pl) # ms) = sock_send_msg (op_code op) pid pl @ sent_messages ms"
    for b es op pid pl ms by (simp_all add: sent_bytes_def sent_messages_def)
  with a report_libs_sends [OF assms(1,2), of ?s1] show ?thesis by (simp add: report_process_def bindS_def dop_defs m)
qed

text \<open>A new mapping, seen by the client.\<close>

definition add_lib :: "process \<Rightarrow> library \<Rightarrow> process" where
  "add_lib pr lib = process_add_map_entry pr (txt_vaddr (lib_ref lib)) (txt_offset (lib_ref lib)) (txt_size (lib_ref lib))
     (lr_bias (lib_ref lib)) (the (lr_filename (lib_ref lib))) None"

definition native64 :: "process \<Rightarrow> bool" where
  "native64 pr \<longleftrightarrow> speaks64 pr \<and> pval64 pr = val64"

lemma add_lib_keeps [simp]: "native64 (add_lib pr lib) = native64 pr" "p_pid (add_lib pr lib) = p_pid pr"
  "map_list (add_lib pr lib) = map_list pr @ [map_of_lib (lib_ref lib)]" "attached (add_lib pr lib) = attached pr"
  "block_table (add_lib pr lib) = block_table pr"
  by (simp_all add: add_lib_def process_add_map_entry_def native64_def speaks64_def map_of_lib_def Let_def)

lemma client_replay_maps:
  assumes "(ucast pid :: u16) \<noteq> 0" "list_all (\<lambda>lib. lib_named (lib_ref lib)) libs" "cl_open cl" "pids_ok (cl_pids cl)"
    and "client_find_process cl (ucast (ucast pid :: u16)) = Some pr" "native64 pr"
  shows "\<exists>cl'. client_replay env (map_messages pid libs) cl = Inr (Some cl') \<and> \<not> cl_open cl' \<and>
     client_find_process cl' (ucast (ucast pid :: u16)) = Some (foldl add_lib pr libs)"
  using assms(2-)
proof (induction libs arbitrary: cl pr)
  case Nil
  then show ?case by (auto simp: map_messages_def client_broken_def client_close_def client_find_process_def)
next
  case (Cons lib libs)
  let ?pid = "ucast (ucast pid :: u16) :: u32" and ?h = "cl_heap cl"
  let ?cl = "client_put cl (add_lib pr lib) ?h"
  let ?m = "((op_code MT_ADD_MAP, ucast pid :: u16, of_nat (length (map_payload (lib_ref lib))) :: u32), map_payload (lib_ref lib), False)"
  have p: "p_pid pr = ?pid" using client_find_process_iff [OF Cons.prems(3)] Cons.prems(4) by blast
  have lib: "lib_named (lib_ref lib)" and n: "speaks64 pr" "pval64 pr = val64" using Cons.prems by (simp_all add: native64_def)
  have "client_dispatch env ?m cl = Inr (Some ?cl)"
    using assms(1) Cons.prems(4) n(1) process_add_map_reported [OF lib n(2)]
    by (simp add: client_dispatch_def client_process_msg_def client_target_def speaks64_def process_message_def client_settle_def
        returned_def alloc_ops_def free_ops_def add_lib_def)
  moreover have "client_find_process ?cl ?pid = Some (add_lib pr lib)"
    using client_put_find [OF Cons.prems(3), of "add_lib pr lib"] Cons.prems(4) p by simp
  ultimately show ?case
    using Cons.IH [of ?cl "add_lib pr lib"] Cons.prems client_put_ok [OF Cons.prems(3), of "add_lib pr lib" ?h]
    by (simp add: map_messages_def)
qed

lemma foldl_add_lib: "map_list (foldl add_lib pr libs) = map_list pr @ map (\<lambda>lib. map_of_lib (lib_ref lib)) libs"
    "attached (foldl add_lib pr libs) = attached pr" "native64 (foldl add_lib pr libs) = native64 pr"
    "block_table (foldl add_lib pr libs) = block_table pr"
  by (induction libs arbitrary: pr) auto

text \<open>The first message about a process the client does not know.\<close>

lemma client_replay_attach:
  assumes "(ucast pid :: u16) \<noteq> 0" "cl_open cl" "pids_ok (cl_pids cl)" "client_find_process cl (ucast (ucast pid :: u16)) = None"
  shows "\<exists>cl' pr. client_dispatch env ((op_code MT_ATTACH64, ucast pid, 1), [1], False) cl = Inr (Some cl') \<and> cl_open cl' \<and>
     pids_ok (cl_pids cl') \<and> client_find_process cl' (ucast (ucast pid :: u16)) = Some pr \<and> native64 pr \<and> map_list pr = [] \<and>
     block_table pr = Leaf \<and> attached pr"
proof -
  let ?pid = "ucast (ucast pid :: u16) :: u32"
  let ?pr = "process_new ?pid False (mi_do_trace (cl_info cl) \<noteq> 0)"
  let ?pr1 = "process_init False True True ?pr" and ?cl = "client_add_process cl ?pr"
  have t: "client_target cl ?pid False = (Some ?pr, ?cl)" using assms(4) by (simp add: client_target_def Let_def)
  from client_target_ok [OF assms(3) t] have ok: "pids_ok (cl_pids ?cl)" "client_find_process ?cl ?pid = Some ?pr" by auto
  have p: "p_pid ?pr1 = ?pid" by (simp add: process_new_def)
  have r: "process_reset ?pr h = Inr (?pr, h)" for h
    by (simp add: process_reset_def process_reset_allocations_def process_new_def process_init_def)
  have d: "client_dispatch env ((op_code MT_ATTACH64, ucast pid, 1), [1], False) cl = Inr (Some (client_put ?cl ?pr1 (cl_heap ?cl)))"
    using assms(1) t r
    by (simp add: client_dispatch_def client_process_msg_def process_message_def attached_payload_def process_reinit_def
        kept_def returned_def client_settle_def alloc_ops_def free_ops_def)
  have f: "client_find_process (client_put ?cl ?pr1 (cl_heap ?cl)) ?pid = Some ?pr1"
    using client_put_find [OF ok(1), of ?pr1 "cl_heap ?cl" ?pid] ok(2) p by simp
  have o: "cl_open (client_put ?cl ?pr1 (cl_heap ?cl))" using assms(2) by (simp add: client_add_process_def)
  show ?thesis
    using d f o client_put_ok [OF ok(1), of ?pr1 "cl_heap ?cl"]
    by (intro exI [of _ "client_put ?cl ?pr1 (cl_heap ?cl)"] exI [of _ ?pr1])
       (simp add: native64_def speaks64_def process_init_def process_new_def)
qed

lemma map_messages_short:
  "list_all (\<lambda>lib. lib_named (lib_ref lib)) libs \<Longrightarrow>
   list_all (\<lambda>(op, pid, payload). length payload < 2 ^ 32) (map_messages pid libs)"
  by (auto simp: list_all_iff map_messages_def lib_named_def map_payload_def)

lemma with_input_Some:
  assumes "with_input [] r = Inr (Some (c2\<lparr>cl_in := []\<rparr>))"
  obtains c1 where "r = Inr (Some c1)" "c1\<lparr>cl_in := []\<rparr> = c2\<lparr>cl_in := []\<rparr>"
  using assms by (cases r rule: sum.exhaust) (auto simp: with_input_def)

end
