(* ===== verification/Trace_Properties.thy ===== *)
theory Trace_Properties
  imports Trace_Client Server_Properties
begin

text \<open>
  What tracer and client guarantee together: the reports of the tracer arrive, are handled in order and leave
  the client with the blocks and mappings of the traced process.
\<close>

subsection \<open>A report arrives\<close>










subsection \<open>All messages are handled\<close>




subsection \<open>A client that connects\<close>





end
