(* ===== verification/Tracer_State.thy ===== *)
theory Tracer_State
  imports Dict Report
begin

text \<open>
  The state of the tracer: tasks, breakpoints, the table of process ids and the queue of events
  (\<open>task.h\<close>, \<open>breakpoint.h\<close>, \<open>event.h\<close>), together with what the kernel holds of the traced threads. Tasks and
  breakpoints are named by numbers in place of their addresses. The kernel is the part with prefix \<open>os\<close>: the
  memory of a process, the debug registers of a thread, what \<open>ptrace\<close> answers for a thread, and the statuses
  \<open>waitpid\<close> will report, in order.
\<close>

subsection \<open>Breakpoints\<close>

datatype bp_type = BP_SW | BP_HW_SCRATCH | BP_HW | BP_AUTO

text \<open>\<open>type >= BP_HW\<close>\<close>

fun wants_slot :: "bp_type \<Rightarrow> bool" where
  "wants_slot BP_HW = True"
| "wants_slot BP_AUTO = True"
| "wants_slot _ = False"

text \<open>What is called when a breakpoint is hit.\<close>

datatype bp_on_hit = NoHandler | HandleCallAfter | EntryOnHit | RdebugOnHit

text \<open>The original byte and the slot share their memory: a number of 32 bits whose lowest byte is the former.\<close>

record breakpoint =
  bp_hwcnt :: u32
  bp_refcnt :: u32
  bp_hits :: u32
  bp_ext :: nat
  bp_type :: bp_type
  bp_enabled :: bool
  bp_locked :: bool
  bp_deleted :: bool
  bp_sw :: bool
  bp_hw :: bool
  bp_was_hw :: bool
  bp_break_insn :: bool
  bp_union :: u32
  bp_on_hit :: bp_on_hit
  bp_addr :: ulong
  bp_libsym :: "library_symbol option"

definition bp_orig_value :: "breakpoint \<Rightarrow> u8" where
  "bp_orig_value bp = ucast (bp_union bp)"

definition set_orig_value :: "u8 \<Rightarrow> breakpoint \<Rightarrow> breakpoint" where
  "set_orig_value v bp = bp\<lparr>bp_union := (bp_union bp AND NOT 0xff) OR ucast v\<rparr>"

abbreviation bp_slot :: "breakpoint \<Rightarrow> nat" where
  "bp_slot bp \<equiv> unat (bp_union bp)"

definition HW_BREAKPOINTS :: nat where "HW_BREAKPOINTS = 4"
definition HW_BP_SCRATCH_SLOT :: nat where "HW_BP_SCRATCH_SLOT = 0"

subsection \<open>Tasks\<close>

datatype event_type =
    EVENT_NONE | EVENT_SIGNAL | EVENT_ABOUT_EXIT | EVENT_EXIT | EVENT_EXIT_SIGNAL | EVENT_FORK | EVENT_CLONE
  | EVENT_VFORK | EVENT_EXEC | EVENT_BREAKPOINT | EVENT_NEW

text \<open>
  A task. The union of an event is \<open>tk_ev_num\<close> (exit code, signal or new process id) and \<open>tk_ev_bp\<close>; \<open>tk_defer\<close>
  is the task that waits for this one (\<open>defer_func\<close> is always \<open>do_clone_cb\<close>). The fields from
  \<open>tk_threads\<close> on are used in a leader.
\<close>

record task =
  tk_pid :: u32
  tk_leader :: nat
  tk_event :: event_type
  tk_ev_num :: nat
  tk_ev_bp :: "nat option"
  tk_attached :: bool
  tk_deleted :: bool
  tk_about_exit :: bool
  tk_stopped :: bool
  tk_is_new :: bool
  tk_bad :: bool
  tk_bp_skipped :: bool
  tk_in_realloc :: bool
  tk_breakpoint :: "nat option"
  tk_libsym :: "library_symbol option"
  tk_regs :: reg_context
  tk_dr7 :: ulong
  tk_hw_addr :: "ulong list"
  tk_skip_bp :: "nat option"
  tk_hw_bp :: "nat option list"
  tk_defer :: "nat option"
  tk_threads :: u32
  tk_threads_stopped :: u32
  tk_breakpoints :: "nat dict option"
  tk_libs :: leader_libs
  tk_backtrace :: "dwarf_addr_space option"
  tk_task_list :: "nat list"
  tk_hw_bp_list :: "nat list"
  tk_hw_bp_num :: ulong
  tk_debug_addr :: ulong
  tk_debug_state :: nat

text \<open>A bucket of \<open>pid_hash\<close>: its capacity and the tasks in it.\<close>

record pid_entry =
  pe_size :: nat
  pe_tasks :: "nat list"

definition PID_HASH_SIZE :: nat where "PID_HASH_SIZE = 256"

text \<open>
  A status of \<open>waitpid\<close>: killed by a signal, exited with a code, or stopped by a signal with the event of
  \<open>ptrace\<close> in the upper half.
\<close>

datatype wstatus = WSignaled nat | WExited nat | WStopped nat nat | WOther

text \<open>
  A thread of a process that stops: what \<open>waitpid\<close> reports and what \<open>ptrace\<close> answers from then on: the message of
  the event, the sender of the signal, the registers, the debug register 6, an error for a thread that is gone;
  and what the program has done to its memory since the last stop.
\<close>

record wait_item =
  wi_pid :: u32
  wi_tgid :: u32
  wi_status :: wstatus
  wi_msg :: ulong
  wi_sender :: "u32 option"
  wi_regs :: "iregs option"
  wi_dr6 :: ulong
  wi_ptrace :: "errno option"
  wi_mem :: "mem \<Rightarrow> mem"

text \<open>What the tracer asks of the kernel, in order.\<close>

datatype os_call = Cont u32 nat | Detach u32 nat | Attach u32 | Kill u32 nat | SingleStep u32 | SetRip u32 ulong | SetOptions u32 bool

text \<open>
  \<open>tr_wakeup\<close> is the process id \<open>wait_event_wakeup\<close> made to end a wait, \<open>tr_sent\<close> the messages to the client. \<open>os_stop\<close> holds the last report of a
  thread, \<open>os_waits\<close> the reports to come: \<open>waitpid\<close> fails with \<open>ECHILD\<close> behind the last. The memory is that
  of the process with the given leader.
\<close>

record tracer =
  tr_tasks :: "nat \<Rightarrow> task option"
  tr_bps :: "nat \<Rightarrow> breakpoint option"
  tr_next :: nat
  tr_leaders :: "nat list"
  tr_pid_hash :: "pid_entry option list"
  tr_queue :: "nat list"
  tr_refs :: ref_store
  tr_wakeup :: "u32 option"
  tr_connected :: bool
  tr_sent :: "bytes list"
  tr_bt_depth :: nat
  os_mem :: "u32 \<Rightarrow> mem"
  os_dr :: "u32 \<Rightarrow> nat \<Rightarrow> ulong"
  os_stop :: "u32 \<Rightarrow> wait_item"
  os_waits :: "wait_item list"
  os_log :: "os_call list"

text \<open>
  Options, what is read from \<open>/proc\<close>, the leader of a thread, zero when there is none, the value of memory the
  source has not set, the environment of the reports (options, timers), the memory of the tracer with the mapped
  images, and the two parts of the tracer that read ELF files and link maps: the setup of a new program and what the
  breakpoints of the dynamic loader do.
\<close>

record trace_env =
  opt_nohwbp :: bool
  opt_verbose :: nat
  opt_follow :: bool
  opt_follow_exec :: bool
  opt_logfile :: bool
  te_mtrace_pid :: u32
  te_tgid :: "u32 \<Rightarrow> u32"
  te_junk :: bool
  te_locs :: "dwarf_loc list"
  te_report :: report_env
  te_local :: mem
  te_elf_read_main_binary :: "nat \<Rightarrow> bool \<Rightarrow> tracer \<Rightarrow> bool dres \<times> tracer"
  te_on_hit :: "bp_on_hit \<Rightarrow> nat \<Rightarrow> nat \<Rightarrow> tracer \<Rightarrow> bool dres \<times> tracer"

abbreviation os_ptrace :: "tracer \<Rightarrow> u32 \<Rightarrow> errno option" where
  "os_ptrace s pid \<equiv> wi_ptrace (os_stop s pid)"

type_synonym 'a top = "(tracer, 'a) dop"

subsection \<open>Access\<close>

definition getT :: "nat \<Rightarrow> task top" where
  "getT t s = (case tr_tasks s t of None \<Rightarrow> (Inl (Fault Segfault), s) | Some tk \<Rightarrow> (Inr tk, s))"

definition updT :: "nat \<Rightarrow> (task \<Rightarrow> task) \<Rightarrow> unit top" where
  "updT t f s =
     (case tr_tasks s t of None \<Rightarrow> (Inl (Fault Segfault), s)
      | Some tk \<Rightarrow> (Inr (), s\<lparr>tr_tasks := (tr_tasks s)(t \<mapsto> f tk)\<rparr>))"

definition getB :: "nat \<Rightarrow> breakpoint top" where
  "getB b s = (case tr_bps s b of None \<Rightarrow> (Inl (Fault Segfault), s) | Some bp \<Rightarrow> (Inr bp, s))"

definition updB :: "nat \<Rightarrow> (breakpoint \<Rightarrow> breakpoint) \<Rightarrow> unit top" where
  "updB b f s =
     (case tr_bps s b of None \<Rightarrow> (Inl (Fault Segfault), s)
      | Some bp \<Rightarrow> (Inr (), s\<lparr>tr_bps := (tr_bps s)(b \<mapsto> f bp)\<rparr>))"

definition assertS :: "bool \<Rightarrow> unit top" where
  "assertS p = (if p then retS () else failS (Fault AssertionFailed))"

definition whenS :: "bool \<Rightarrow> unit top \<Rightarrow> unit top" where
  "whenS p m = (if p then m else retS ())"

definition seqS :: "unit top \<Rightarrow> 'a top \<Rightarrow> 'a top" where
  "seqS m n = bindS m (\<lambda>_. n)"

definition os_do :: "os_call \<Rightarrow> unit top" where
  "os_do c = modS (\<lambda>s. s\<lparr>os_log := os_log s @ [c]\<rparr>)"

text \<open>Whether \<open>ptrace\<close> fails for a thread, and with which error.\<close>

definition ptraceS :: "u32 \<Rightarrow> errno option top" where
  "ptraceS pid = getS (\<lambda>s. os_ptrace s pid)"

text \<open>The process as \<open>ptrace\<close> sees it from a task: the memory of the process, and whether it can be accessed.\<close>

definition traced_of :: "tracer \<Rightarrow> u32 \<Rightarrow> task \<Rightarrow> traced" where
  "traced_of s tgid tk =
     \<lparr>t_mem = os_mem s tgid, t_stopped = (os_ptrace s (tk_pid tk) = None), t_readv = (\<lambda>_ _. Inl ENOSYS)\<rparr>"

definition procS :: "nat \<Rightarrow> (traced \<Rightarrow> 'a \<times> traced) \<Rightarrow> 'a top" where
  "procS t f =
     bindS (getT t) (\<lambda>tk. bindS (getT (tk_leader tk)) (\<lambda>l.
       bindS (getS (\<lambda>s. f (traced_of s (tk_pid l) tk))) (\<lambda>(x, tr).
         seqS (modS (\<lambda>s. s\<lparr>os_mem := (os_mem s)(tk_pid l := t_mem tr)\<rparr>)) (retS x))))"

text \<open>A callback for every task of a process, the threads first.\<close>

fun each_loop :: "nat list \<Rightarrow> (nat \<Rightarrow> unit top) \<Rightarrow> unit top" where
  "each_loop [] cb = retS ()"
| "each_loop (t # ts) cb = seqS (cb t) (each_loop ts cb)"

definition each_task :: "nat \<Rightarrow> (nat \<Rightarrow> unit top) \<Rightarrow> unit top" where
  "each_task leader cb = bindS (getT leader) (\<lambda>tk. each_loop (tk_task_list tk @ [leader]) cb)"

subsection \<open>Running an operation\<close>

named_theorems top_simps \<open>results of operations on the tracer\<close>

lemma getT_Inr [top_simps]: "getT t s = (Inr tk, s') \<longleftrightarrow> tr_tasks s t = Some tk \<and> s' = s"
  by (auto simp: getT_def split: option.splits)

lemma updT_Inr [top_simps]:
  "updT t f s = (Inr u, s') \<longleftrightarrow> (\<exists>tk. tr_tasks s t = Some tk \<and> s' = s\<lparr>tr_tasks := (tr_tasks s)(t \<mapsto> f tk)\<rparr>)"
  by (auto simp: updT_def split: option.splits)

lemma getB_Inr [top_simps]: "getB b s = (Inr bp, s') \<longleftrightarrow> tr_bps s b = Some bp \<and> s' = s"
  by (auto simp: getB_def split: option.splits)

lemma updB_Inr [top_simps]:
  "updB b f s = (Inr u, s') \<longleftrightarrow> (\<exists>bp. tr_bps s b = Some bp \<and> s' = s\<lparr>tr_bps := (tr_bps s)(b \<mapsto> f bp)\<rparr>)"
  by (auto simp: updB_def split: option.splits)

lemma assertS_Inr [top_simps]: "assertS p s = (Inr u, s') \<longleftrightarrow> p \<and> s' = s"
  by (auto simp: assertS_def dop_defs)

lemma seqS_Inr [top_simps]: "seqS m n s = (Inr y, s') \<longleftrightarrow> (\<exists>s1. m s = (Inr (), s1) \<and> n s1 = (Inr y, s'))"
  by (simp add: seqS_def bindS_Inr)

lemma retS_Inr [top_simps]: "retS x s = (Inr y, s') \<longleftrightarrow> y = x \<and> s' = s"
  by (auto simp: retS_def)

lemma modS_Inr [top_simps]: "modS f s = (Inr y, s') \<longleftrightarrow> s' = f s"
  by (auto simp: modS_def)

lemma getS_Inr [top_simps]: "getS f s = (Inr y, s') \<longleftrightarrow> y = f s \<and> s' = s"
  by (auto simp: getS_def)

lemma failS_Inr [top_simps]: "failS e s \<noteq> (Inr y, s')"
  by (simp add: failS_def)

lemma os_do_Inr [top_simps]: "os_do c s = (Inr y, s') \<longleftrightarrow> s' = s\<lparr>os_log := os_log s @ [c]\<rparr>"
  by (simp add: os_do_def top_simps)

lemma ptraceS_Inr [top_simps]: "ptraceS pid s = (Inr y, s') \<longleftrightarrow> y = os_ptrace s pid \<and> s' = s"
  by (simp add: ptraceS_def top_simps)


lemma whenS_Inr [top_simps]: "whenS p m s = (Inr y, s') \<longleftrightarrow> (if p then m s = (Inr y, s') else s' = s)"
  by (auto simp: whenS_def retS_def)

lemmas top_run = top_simps bindS_Inr

subsection \<open>What an operation keeps\<close>

text \<open>Every run that returns relates the states before and behind it.\<close>

definition framed :: "(tracer \<Rightarrow> tracer \<Rightarrow> bool) \<Rightarrow> 'a top \<Rightarrow> bool" where
  "framed R m \<longleftrightarrow> (\<forall>s x s'. m s = (Inr x, s') \<longrightarrow> R s s')"

lemma framedD: "framed R m \<Longrightarrow> m s = (Inr x, s') \<Longrightarrow> R s s'"
  by (simp add: framed_def)

lemma framed_mono: "framed R m \<Longrightarrow> (\<And>s s'. R s s' \<Longrightarrow> Q s s') \<Longrightarrow> framed Q m"
  by (simp add: framed_def)

text \<open>A relation that composes is kept by a sequence of operations that keep it.\<close>

locale kept =
  fixes R :: "tracer \<Rightarrow> tracer \<Rightarrow> bool"
  assumes refl: "R s s" and trans: "R s s' \<Longrightarrow> R s' s'' \<Longrightarrow> R s s''"
begin

lemma bind: "framed R m \<Longrightarrow> (\<And>x. framed R (f x)) \<Longrightarrow> framed R (bindS m f)"
  unfolding framed_def bindS_Inr by (blast intro: trans)

lemma seq: "framed R m \<Longrightarrow> framed R n \<Longrightarrow> framed R (seqS m n)"
  unfolding framed_def seqS_Inr by (blast intro: trans)

lemma ret: "framed R (retS x)"
  by (simp add: framed_def retS_Inr refl)

lemma get: "framed R (getS f)"
  by (simp add: framed_def getS_Inr refl)

lemma fail: "framed R (failS e)"
  by (simp add: framed_def failS_Inr)

lemma task: "framed R (getT t)"
  by (simp add: framed_def getT_Inr refl)

lemma bp: "framed R (getB b)"
  by (simp add: framed_def getB_Inr refl)

lemma asserted: "framed R (assertS p)"
  by (simp add: framed_def assertS_Inr refl)

lemma traced: "framed R (ptraceS pid)"
  by (simp add: framed_def ptraceS_Inr refl)

lemma cond: "(p \<Longrightarrow> framed R m) \<Longrightarrow> (\<not> p \<Longrightarrow> framed R n) \<Longrightarrow> framed R (if p then m else n)"
  by simp

lemma whenever: "framed R m \<Longrightarrow> framed R (whenS p m)"
  by (simp add: whenS_def ret)

lemma opt: "framed R m \<Longrightarrow> (\<And>x. framed R (f x)) \<Longrightarrow> framed R (case r of None \<Rightarrow> m | Some x \<Rightarrow> f x)"
  by (cases r) auto

lemma pair: "(\<And>x y. framed R (f x y)) \<Longrightarrow> framed R (case r of (x, y) \<Rightarrow> f x y)"
  by (cases r) auto

lemma each: "(\<And>t. framed R (cb t)) \<Longrightarrow> framed R (each_loop ts cb)"
  by (induction ts) (auto intro: ret seq)

lemma every: "(\<And>t. framed R (cb t)) \<Longrightarrow> framed R (each_task l cb)"
  unfolding each_task_def by (intro bind task each)

lemma modify: "(\<And>s. R s (f s)) \<Longrightarrow> framed R (modS f)"
  by (auto simp: framed_def modS_Inr)

lemmas rules = bind seq ret get fail task bp asserted traced cond whenever opt pair every

end

end
