(* ===== verification/Debug_Regs.thy ===== *)
theory Debug_Regs
  imports Tracer_State
begin

text \<open>
  Hardware breakpoints of x86 (\<open>x86/arch.c\<close>): four address registers and the control register 7, written with
  \<open>PTRACE_POKEUSER\<close> and cached in the task. A thread that is gone (\<open>ESRCH\<close>) is no error. The lemmas show
  which bits of the control register a slot uses, and that the cache equals the registers.
\<close>

unbundle bit_operations_syntax

subsection \<open>Operations\<close>

text \<open>A write to a debug register; the result is false on an error other than a thread that is gone.\<close>

definition poke_dr :: "u32 \<Rightarrow> nat \<Rightarrow> ulong \<Rightarrow> bool top" where
  "poke_dr pid n v =
     bindS (ptraceS pid) (\<lambda>r. case r of
       None \<Rightarrow> seqS (modS (\<lambda>s. s\<lparr>os_dr := (os_dr s)(pid := (os_dr s pid)(n := v))\<rparr>)) (retS True)
     | Some e \<Rightarrow> retS (e = ESRCH))"

definition get_hw_bp_state :: "nat \<Rightarrow> nat \<Rightarrow> bool top" where
  "get_hw_bp_state t n =
     bindS (getT t) (\<lambda>tk.
     bindS (ptraceS (tk_pid tk)) (\<lambda>r. case r of
       Some _ \<Rightarrow> retS False
     | None \<Rightarrow> getS (\<lambda>s. bit (os_dr s (tk_pid tk) 6) n)))"

definition apply_hw_bp_raw :: "nat \<Rightarrow> u32 \<Rightarrow> bool top" where
  "apply_hw_bp_raw t dr7 =
     seqS (updT t (\<lambda>tk. tk\<lparr>tk_dr7 := ucast dr7\<rparr>))
       (bindS (getT t) (\<lambda>tk. poke_dr (tk_pid tk) 7 (tk_dr7 tk)))"

definition apply_hw_bp :: "nat \<Rightarrow> u32 \<Rightarrow> bool top" where
  "apply_hw_bp t dr7 =
     bindS (getT t) (\<lambda>tk. if ucast dr7 = tk_dr7 tk then retS True else apply_hw_bp_raw t dr7)"

definition set_breakpoint_addr :: "nat \<Rightarrow> ulong \<Rightarrow> nat \<Rightarrow> bool top" where
  "set_breakpoint_addr t addr n =
     bindS (getT t) (\<lambda>tk.
       let addr = (if \<not> task_is_64bit (tk_regs tk) then addr AND 0xffffffff else addr) in
       if tk_hw_addr tk ! n = addr then retS True
       else
         bindS (poke_dr (tk_pid tk) n addr) (\<lambda>ok.
           if \<not> ok then retS False
           else seqS (updT t (\<lambda>tk. tk\<lparr>tk_hw_addr := (tk_hw_addr tk)[n := addr]\<rparr>)) (retS True)))"

datatype bp_access = BP_X | BP_RW | BP_W

fun access_mode :: "bp_access \<Rightarrow> u32" where
  "access_mode BP_X = 0"
| "access_mode BP_W = 1"
| "access_mode BP_RW = 3"

definition length_mode :: "nat \<Rightarrow> u32" where
  "length_mode len = (if len = 2 then 4 else if len = 4 then 12 else if len = 8 then 8 else 0)"

definition slot_mask :: "nat \<Rightarrow> u32" where
  "slot_mask n = push_bit (16 + 4 * n) 15 OR push_bit (2 * n) 3"

definition mode_dr7 :: "u32 \<Rightarrow> nat \<Rightarrow> bp_access \<Rightarrow> nat \<Rightarrow> bool \<Rightarrow> bool \<Rightarrow> u32" where
  "mode_dr7 old n type len local global =
     (let mode = access_mode type OR length_mode len;
          dr7 = old AND NOT (slot_mask n);
          dr7 = dr7 OR push_bit (16 + 4 * n) mode;
          dr7 = (if local then dr7 OR push_bit (2 * n) 1 OR push_bit 8 1
                 else if dr7 AND 0x55 = 0 then dr7 AND NOT (push_bit 8 1) else dr7);
          dr7 = (if global then dr7 OR push_bit (2 * n) 2 OR push_bit 9 1
                 else if dr7 AND 0xaa = 0 then dr7 AND NOT (push_bit 9 1) else dr7)
      in dr7)"

definition set_breakpoint_mode :: "nat \<Rightarrow> nat \<Rightarrow> bp_access \<Rightarrow> nat \<Rightarrow> bool \<Rightarrow> bool \<Rightarrow> bool top" where
  "set_breakpoint_mode t n type len local global =
     bindS (getT t) (\<lambda>tk. apply_hw_bp t (mode_dr7 (ucast (tk_dr7 tk)) n type len local global))"

definition set_hw_bp :: "nat \<Rightarrow> nat \<Rightarrow> ulong \<Rightarrow> bool top" where
  "set_hw_bp t n addr =
     bindS (set_breakpoint_addr t addr n) (\<lambda>ok.
       if \<not> ok then retS False else set_breakpoint_mode t n BP_X 1 True False)"

definition reset_dr7 :: "u32 \<Rightarrow> nat \<Rightarrow> u32" where
  "reset_dr7 old n =
     (let dr7 = old AND NOT (slot_mask n);
          dr7 = (if dr7 AND 0x55 = 0 then dr7 AND NOT (push_bit 8 1) else dr7)
      in if dr7 AND 0xaa = 0 then dr7 AND NOT (push_bit 9 1) else dr7)"

definition reset_hw_bp :: "nat \<Rightarrow> nat \<Rightarrow> bool top" where
  "reset_hw_bp t n = bindS (getT t) (\<lambda>tk. apply_hw_bp t (reset_dr7 (ucast (tk_dr7 tk)) n))"

definition reset_all_hw_bp :: "nat \<Rightarrow> bool top" where
  "reset_all_hw_bp t = apply_hw_bp t 0"

definition arch_task_init :: "nat \<Rightarrow> bool top" where
  "arch_task_init t = seqS (updT t (\<lambda>tk. tk\<lparr>tk_hw_addr := replicate HW_BREAKPOINTS 0\<rparr>)) (apply_hw_bp_raw t 0)"

definition arch_task_destroy :: "nat \<Rightarrow> unit top" where
  "arch_task_destroy t = bindS (apply_hw_bp t 0) (\<lambda>_. retS ())"

subsection \<open>The bits of a slot\<close>

text \<open>A slot traps on execution: enabled, with access mode and length zero.\<close>

definition slot_on :: "u32 \<Rightarrow> nat \<Rightarrow> bool" where
  "slot_on dr7 n \<longleftrightarrow> bit dr7 (2 * n)"

definition slot_plain :: "u32 \<Rightarrow> nat \<Rightarrow> bool" where
  "slot_plain dr7 n \<longleftrightarrow> \<not> bit dr7 (2 * n + 1) \<and> (\<forall>i < 4. \<not> bit dr7 (16 + 4 * n + i))"

lemma four_slots: "n < 4 \<Longrightarrow> n = 0 \<or> n = 1 \<or> n = 2 \<or> n = (3 :: nat)"
  by linarith

lemma bit_slot_mask: "bit (slot_mask n) i \<longleftrightarrow> i < 32 \<and> (16 + 4 * n \<le> i \<and> i < 20 + 4 * n \<or> 2 * n \<le> i \<and> i < 2 * n + 2)"
proof -
  have 15: "(15 :: u32) = Bit_Operations.mask 4" and 3: "(3 :: u32) = Bit_Operations.mask 2" by (simp_all add: mask_eq_exp_minus_1)
  show ?thesis unfolding slot_mask_def 15 3 by (auto simp: bit_or_iff bit_push_bit_iff bit_mask_iff)
qed

lemma bit_word_single: "bit (push_bit k (1 :: u32)) i \<longleftrightarrow> i < 32 \<and> i = k"
  unfolding push_bit_of_1 bit_exp_iff by (auto simp: possible_bit_def)

lemma bit_clear_single: "bit ((x :: u32) AND NOT (push_bit k 1)) i \<longleftrightarrow> bit x i \<and> i \<noteq> k"
  by (simp only: bit_and_iff bit_not_iff bit_word_single) (auto dest: bit_imp_possible_bit simp: possible_bit_def)

lemma bit_clear_slot:
  "bit ((x :: u32) AND NOT (slot_mask n)) i \<longleftrightarrow>
     bit x i \<and> \<not> (16 + 4 * n \<le> i \<and> i < 20 + 4 * n \<or> 2 * n \<le> i \<and> i < 2 * n + 2)"
  by (auto simp: bit_and_iff bit_not_iff bit_slot_mask dest: bit_imp_possible_bit simp: possible_bit_def)

lemma set_mode_bit:
  assumes "i \<noteq> 8" "i \<noteq> 9"
  shows "bit (mode_dr7 old n BP_X 1 True False) i \<longleftrightarrow>
    bit old i \<and> \<not> (16 + 4 * n \<le> i \<and> i < 20 + 4 * n \<or> 2 * n \<le> i \<and> i < 2 * n + 2) \<or> i < 32 \<and> i = 2 * n"
proof -
  have m: "x OR push_bit k (access_mode BP_X OR length_mode 1) = x" for x k by (simp add: length_mode_def)
  show ?thesis unfolding mode_dr7_def Let_def m
    using assms by (simp only: if_True if_False if_distrib [of "\<lambda>x. bit x i"] bit_clear_single bit_or_iff bit_word_single bit_clear_slot if_cancel) auto
qed

lemma reset_bit:
  assumes "i \<noteq> 8" "i \<noteq> 9"
  shows "bit (reset_dr7 old n) i \<longleftrightarrow>
    bit old i \<and> \<not> (16 + 4 * n \<le> i \<and> i < 20 + 4 * n \<or> 2 * n \<le> i \<and> i < 2 * n + 2)"
  unfolding reset_dr7_def Let_def
  using assms by (simp only: if_distrib [of "\<lambda>x. bit x i"] bit_clear_single bit_clear_slot if_cancel) auto

lemma set_mode_bits:
  assumes "n < 4" "m < 4"
  shows "slot_on (mode_dr7 old n BP_X 1 True False) m \<longleftrightarrow> m = n \<or> slot_on old m"
    and "slot_plain (mode_dr7 old n BP_X 1 True False) m \<longleftrightarrow> m = n \<or> slot_plain old m"
proof -
  have "m \<noteq> n \<Longrightarrow> 2 * m \<noteq> 2 * n \<and> (\<forall>i < 4. 16 + 4 * m + i \<noteq> 16 + 4 * n)" by presburger
  then show "slot_on (mode_dr7 old n BP_X 1 True False) m \<longleftrightarrow> m = n \<or> slot_on old m"
    using assms by (auto simp: slot_on_def set_mode_bit simp del: One_nat_def)
  show "slot_plain (mode_dr7 old n BP_X 1 True False) m \<longleftrightarrow> m = n \<or> slot_plain old m"
  proof (cases "m = n")
    case True
    with assms show ?thesis by (auto simp: slot_plain_def set_mode_bit simp del: One_nat_def)
  next
    case False
    then have "i < 4 \<Longrightarrow> \<not> (16 + 4 * n \<le> 16 + 4 * m + i \<and> 16 + 4 * m + i < 20 + 4 * n)" for i by linarith
    moreover have "\<not> (2 * n \<le> 2 * m + 1 \<and> 2 * m + 1 < 2 * n + 2)" "2 * m + 1 \<noteq> 2 * n" using False by presburger+
    ultimately show ?thesis using assms False by (auto simp: slot_plain_def set_mode_bit simp del: One_nat_def)
  qed
qed

lemma reset_bits:
  assumes "n < 4" "m < 4"
  shows "slot_on (reset_dr7 old n) m \<longleftrightarrow> m \<noteq> n \<and> slot_on old m"
    and "slot_plain (reset_dr7 old n) m \<longleftrightarrow> m = n \<or> slot_plain old m"
proof -
  show "slot_on (reset_dr7 old n) m \<longleftrightarrow> m \<noteq> n \<and> slot_on old m"
    using assms by (auto simp: slot_on_def reset_bit)
  show "slot_plain (reset_dr7 old n) m \<longleftrightarrow> m = n \<or> slot_plain old m"
  proof (cases "m = n")
    case True
    with assms show ?thesis by (auto simp: slot_plain_def reset_bit)
  next
    case False
    then have "i < 4 \<Longrightarrow> \<not> (16 + 4 * n \<le> 16 + 4 * m + i \<and> 16 + 4 * m + i < 20 + 4 * n)" for i by linarith
    moreover have "\<not> (2 * n \<le> 2 * m + 1 \<and> 2 * m + 1 < 2 * n + 2)" using False by presburger
    ultimately show ?thesis using assms False by (auto simp: slot_plain_def reset_bit)
  qed
qed

subsection \<open>The registers of a thread\<close>

text \<open>The cache of a task equals the registers of its thread.\<close>

definition dr_cached :: "tracer \<Rightarrow> task \<Rightarrow> bool" where
  "dr_cached s tk \<longleftrightarrow>
     length (tk_hw_addr tk) = HW_BREAKPOINTS \<and> tk_dr7 tk = ucast (ucast (tk_dr7 tk) :: u32) \<and>
     os_dr s (tk_pid tk) 7 = tk_dr7 tk \<and> (\<forall>n < HW_BREAKPOINTS. os_dr s (tk_pid tk) n = tk_hw_addr tk ! n)"

text \<open>A slot of a thread traps on the execution of an address.\<close>

definition armed :: "tracer \<Rightarrow> u32 \<Rightarrow> nat \<Rightarrow> ulong \<Rightarrow> bool" where
  "armed s pid n addr \<longleftrightarrow>
     os_dr s pid n = addr \<and> slot_on (ucast (os_dr s pid 7)) n \<and> slot_plain (ucast (os_dr s pid 7)) n"

definition hw_address :: "task \<Rightarrow> ulong \<Rightarrow> ulong" where
  "hw_address tk addr = (if \<not> task_is_64bit (tk_regs tk) then addr AND 0xffffffff else addr)"

lemma poke_dr_run:
  assumes "os_ptrace s pid = None"
  shows "poke_dr pid n v s = (Inr True, s\<lparr>os_dr := (os_dr s)(pid := (os_dr s pid)(n := v))\<rparr>)"
  using assms by (simp add: poke_dr_def ptraceS_def seqS_def bindS_def getS_def modS_def retS_def)

lemma poke_dr_gone: "os_ptrace s pid = Some ESRCH \<Longrightarrow> poke_dr pid n v s = (Inr True, s)"
  by (simp add: poke_dr_def ptraceS_def bindS_def getS_def retS_def)

lemma same_dr: "os_dr s pid n = v \<Longrightarrow> (os_dr s)(pid := (os_dr s pid)(n := v)) = os_dr s"
  by auto

lemma apply_hw_bp_run:
  assumes t: "tr_tasks s t = Some tk" and p: "os_ptrace s (tk_pid tk) = None" and d: "os_dr s (tk_pid tk) 7 = tk_dr7 tk"
  shows "apply_hw_bp t dr7 s =
    (Inr True, s\<lparr>tr_tasks := (tr_tasks s)(t \<mapsto> tk\<lparr>tk_dr7 := ucast dr7\<rparr>),
                os_dr := (os_dr s)(tk_pid tk := (os_dr s (tk_pid tk))(7 := ucast dr7))\<rparr>)"
proof (cases "ucast dr7 = tk_dr7 tk")
  case True
  with d have "(os_dr s)(tk_pid tk := (os_dr s (tk_pid tk))(7 := ucast dr7)) = os_dr s" by (simp add: same_dr)
  moreover from True t have "(tr_tasks s)(t \<mapsto> tk\<lparr>tk_dr7 := ucast dr7\<rparr>) = tr_tasks s" by auto
  ultimately show ?thesis using True t by (simp add: apply_hw_bp_def getT_def bindS_def retS_def)
next
  case False
  with t p show ?thesis
    by (simp add: apply_hw_bp_def apply_hw_bp_raw_def getT_def updT_def seqS_def bindS_def poke_dr_run)
qed

lemma set_breakpoint_addr_run:
  assumes t: "tr_tasks s t = Some tk" and p: "os_ptrace s (tk_pid tk) = None" and c: "dr_cached s tk" and n: "n < HW_BREAKPOINTS"
  shows "set_breakpoint_addr t addr n s =
    (Inr True, s\<lparr>tr_tasks := (tr_tasks s)(t \<mapsto> tk\<lparr>tk_hw_addr := (tk_hw_addr tk)[n := hw_address tk addr]\<rparr>),
                os_dr := (os_dr s)(tk_pid tk := (os_dr s (tk_pid tk))(n := hw_address tk addr))\<rparr>)"
proof (cases "tk_hw_addr tk ! n = hw_address tk addr")
  case True
  with c n have "os_dr s (tk_pid tk) n = hw_address tk addr" by (simp add: dr_cached_def)
  then have "(os_dr s)(tk_pid tk := (os_dr s (tk_pid tk))(n := hw_address tk addr)) = os_dr s" by (rule same_dr)
  moreover have "(tr_tasks s)(t \<mapsto> tk\<lparr>tk_hw_addr := (tk_hw_addr tk)[n := hw_address tk addr]\<rparr>) = tr_tasks s"
    using t list_update_id [of "tk_hw_addr tk" n] unfolding True by auto
  ultimately show ?thesis using True t
    by (simp add: set_breakpoint_addr_def getT_def bindS_def retS_def Let_def flip: hw_address_def)
next
  case False
  with t p show ?thesis
    by (simp add: set_breakpoint_addr_def getT_def updT_def seqS_def bindS_def retS_def poke_dr_run Let_def flip: hw_address_def)
qed

definition with_slot :: "task \<Rightarrow> nat \<Rightarrow> ulong \<Rightarrow> task" where
  "with_slot tk n addr =
     tk\<lparr>tk_hw_addr := (tk_hw_addr tk)[n := hw_address tk addr], tk_dr7 := ucast (mode_dr7 (ucast (tk_dr7 tk)) n BP_X 1 True False)\<rparr>"

lemma set_hw_bp_run:
  assumes "tr_tasks s t = Some tk" "os_ptrace s (tk_pid tk) = None" "dr_cached s tk" "n < HW_BREAKPOINTS"
  shows "set_hw_bp t n addr s =
    (Inr True, s\<lparr>tr_tasks := (tr_tasks s)(t \<mapsto> with_slot tk n addr),
                os_dr := (os_dr s)(tk_pid tk :=
                  (os_dr s (tk_pid tk))(n := hw_address tk addr, 7 := tk_dr7 (with_slot tk n addr)))\<rparr>)"
proof -
  have n: "n \<noteq> 7" using assms(4) by (simp add: HW_BREAKPOINTS_def)
  let ?s = "s\<lparr>tr_tasks := (tr_tasks s)(t \<mapsto> tk\<lparr>tk_hw_addr := (tk_hw_addr tk)[n := hw_address tk addr]\<rparr>),
              os_dr := (os_dr s)(tk_pid tk := (os_dr s (tk_pid tk))(n := hw_address tk addr))\<rparr>"
  from assms(2,3) n have "apply_hw_bp t d ?s =
    (Inr True, s\<lparr>tr_tasks := (tr_tasks s)(t \<mapsto> tk\<lparr>tk_hw_addr := (tk_hw_addr tk)[n := hw_address tk addr], tk_dr7 := ucast d\<rparr>),
                os_dr := (os_dr s)(tk_pid tk := (os_dr s (tk_pid tk))(n := hw_address tk addr, 7 := ucast d))\<rparr>)" for d
    by (subst apply_hw_bp_run [where tk = "tk\<lparr>tk_hw_addr := (tk_hw_addr tk)[n := hw_address tk addr]\<rparr>"]) (simp_all add: dr_cached_def)
  then show ?thesis
    by (simp add: set_hw_bp_def set_breakpoint_addr_run [OF assms] set_breakpoint_mode_def bindS_def getT_def with_slot_def)
qed

lemma reset_hw_bp_run:
  assumes "tr_tasks s t = Some tk" "os_ptrace s (tk_pid tk) = None" "dr_cached s tk"
  shows "reset_hw_bp t n s =
    (Inr True, s\<lparr>tr_tasks := (tr_tasks s)(t \<mapsto> tk\<lparr>tk_dr7 := ucast (reset_dr7 (ucast (tk_dr7 tk)) n)\<rparr>),
                os_dr := (os_dr s)(tk_pid tk := (os_dr s (tk_pid tk))(7 := ucast (reset_dr7 (ucast (tk_dr7 tk)) n)))\<rparr>)"
  using assms by (simp add: reset_hw_bp_def bindS_def getT_def apply_hw_bp_run dr_cached_def)

lemma with_slot_cached:
  assumes "dr_cached s tk" "n < HW_BREAKPOINTS" "os_dr s' (tk_pid tk) =
    (os_dr s (tk_pid tk))(n := hw_address tk addr, 7 := tk_dr7 (with_slot tk n addr))"
  shows "dr_cached s' (with_slot tk n addr)"
  using assms by (auto simp: dr_cached_def with_slot_def HW_BREAKPOINTS_def nth_list_update ucast_ucast_32)

text \<open>Setting a slot arms it and leaves the others alone; resetting it switches it off.\<close>

lemma set_hw_bp_arms:
  assumes "tr_tasks s t = Some tk" "os_ptrace s (tk_pid tk) = None" "dr_cached s tk" "n < HW_BREAKPOINTS"
  shows "\<exists>s' tk'. set_hw_bp t n addr s = (Inr True, s') \<and> tr_tasks s' t = Some tk' \<and> dr_cached s' tk' \<and>
    armed s' (tk_pid tk) n (hw_address tk addr) \<and>
    (\<forall>m < HW_BREAKPOINTS. m \<noteq> n \<longrightarrow> (\<forall>a. armed s' (tk_pid tk) m a \<longleftrightarrow> armed s (tk_pid tk) m a))"
proof -
  let ?s = "snd (set_hw_bp t n addr s)"
  have n: "n < 4" "n \<noteq> 7" using assms(4) by (simp_all add: HW_BREAKPOINTS_def)
  note run = set_hw_bp_run [OF assms, of addr]
  have dr: "os_dr ?s (tk_pid tk) = (os_dr s (tk_pid tk))(n := hw_address tk addr, 7 := tk_dr7 (with_slot tk n addr))"
    by (simp add: run)
  have d7: "(ucast (tk_dr7 (with_slot tk n addr)) :: u32) = mode_dr7 (ucast (os_dr s (tk_pid tk) 7)) n BP_X 1 True False"
    using assms(3) by (simp add: with_slot_def dr_cached_def ucast_ucast_32)
  have "armed ?s (tk_pid tk) n (hw_address tk addr)"
    unfolding armed_def dr using n by (simp add: d7 set_mode_bits del: One_nat_def)
  moreover have "armed ?s (tk_pid tk) m a \<longleftrightarrow> armed s (tk_pid tk) m a" if "m < HW_BREAKPOINTS" "m \<noteq> n" for m a
    unfolding armed_def dr using n that by (simp add: d7 set_mode_bits HW_BREAKPOINTS_def del: One_nat_def)
  moreover have "dr_cached ?s (with_slot tk n addr)" by (rule with_slot_cached [OF assms(3,4) dr])
  moreover have "tr_tasks ?s t = Some (with_slot tk n addr)" by (simp add: run)
  ultimately show ?thesis using run by (metis (no_types, lifting) snd_conv)
qed

lemma reset_hw_bp_disarms:
  assumes "tr_tasks s t = Some tk" "os_ptrace s (tk_pid tk) = None" "dr_cached s tk" "n < HW_BREAKPOINTS"
  shows "\<exists>s' tk'. reset_hw_bp t n s = (Inr True, s') \<and> tr_tasks s' t = Some tk' \<and> dr_cached s' tk' \<and>
    \<not> slot_on (ucast (os_dr s' (tk_pid tk) 7)) n \<and>
    (\<forall>m < HW_BREAKPOINTS. m \<noteq> n \<longrightarrow> (\<forall>a. armed s' (tk_pid tk) m a \<longleftrightarrow> armed s (tk_pid tk) m a))"
proof -
  let ?d = "reset_dr7 (ucast (tk_dr7 tk)) n"
  let ?s = "s\<lparr>tr_tasks := (tr_tasks s)(t \<mapsto> tk\<lparr>tk_dr7 := ucast ?d\<rparr>),
              os_dr := (os_dr s)(tk_pid tk := (os_dr s (tk_pid tk))(7 := ucast ?d))\<rparr>"
  have "dr_cached ?s (tk\<lparr>tk_dr7 := ucast ?d\<rparr>)"
    using assms(3) by (auto simp: dr_cached_def HW_BREAKPOINTS_def ucast_ucast_32)
  moreover have "armed ?s (tk_pid tk) m a \<longleftrightarrow> armed s (tk_pid tk) m a" if "m < HW_BREAKPOINTS" "m \<noteq> n" for m a
    using that assms by (auto simp: armed_def HW_BREAKPOINTS_def reset_bits ucast_ucast_32 dr_cached_def)
  moreover have "\<not> slot_on (ucast (os_dr ?s (tk_pid tk) 7)) n"
    using assms(4) by (simp add: HW_BREAKPOINTS_def reset_bits ucast_ucast_32)
  ultimately show ?thesis using reset_hw_bp_run [OF assms(1-3), of n] by fastforce
qed

end
