(* ===== verification/Task_Table.thy ===== *)
theory Task_Table
  imports Debug_Regs
begin

text \<open>
  The table that finds a task by its process id, the breakpoints of a task as far as tasks need them, and the
  creation of a task (\<open>task.c\<close>, \<open>breakpoint.c\<close>). The table is a hash of 256 buckets; the contract of such a table is a
  locale.
\<close>

subsection \<open>Process ids\<close>

definition PID_HASH :: "u32 \<Rightarrow> nat" where
  "PID_HASH pid = unat pid mod PID_HASH_SIZE"

fun pid_pos :: "nat list \<Rightarrow> u32 \<Rightarrow> nat option top" where
  "pid_pos [] pid = retS None"
| "pid_pos (t # ts) pid =
     bindS (getT t) (\<lambda>tk.
       if tk_pid tk = pid then retS (Some 0)
       else bindS (pid_pos ts pid) (\<lambda>r. retS (map_option Suc r)))"

definition set_bucket :: "nat \<Rightarrow> pid_entry \<Rightarrow> unit top" where
  "set_bucket i e = modS (\<lambda>s. s\<lparr>tr_pid_hash := (tr_pid_hash s)[i := Some e]\<rparr>)"

definition delete_pid :: "nat \<Rightarrow> unit top" where
  "delete_pid t =
     bindS (getT t) (\<lambda>tk.
     bindS (getS (\<lambda>s. tr_pid_hash s ! PID_HASH (tk_pid tk))) (\<lambda>entry. case entry of
       None \<Rightarrow> failS (Fault Segfault)
     | Some e \<Rightarrow>
         bindS (pid_pos (pe_tasks e) (tk_pid tk)) (\<lambda>r. case r of
           None \<Rightarrow> retS ()
         | Some i \<Rightarrow> set_bucket (PID_HASH (tk_pid tk)) (e\<lparr>pe_tasks := take i (pe_tasks e) @ drop (Suc i) (pe_tasks e)\<rparr>))))"

text \<open>A bucket starts with room for eight tasks and grows by eight; memory is taken to be there, else the program aborts.\<close>

definition insert_pid :: "nat \<Rightarrow> unit top" where
  "insert_pid t =
     bindS (getT t) (\<lambda>tk.
     let pidhash = PID_HASH (tk_pid tk) in
     bindS (getS (\<lambda>s. tr_pid_hash s ! pidhash)) (\<lambda>entry.
       let e = (case entry of
                  None \<Rightarrow> \<lparr>pe_size = 8, pe_tasks = []\<rparr>
                | Some e \<Rightarrow> if pe_size e = length (pe_tasks e) then e\<lparr>pe_size := pe_size e + 8\<rparr> else e)
       in set_bucket pidhash (e\<lparr>pe_tasks := pe_tasks e @ [t]\<rparr>)))"

definition pid2task :: "u32 \<Rightarrow> nat option top" where
  "pid2task pid =
     bindS (getS (\<lambda>s. tr_pid_hash s ! PID_HASH pid)) (\<lambda>entry. case entry of
       None \<Rightarrow> retS None
     | Some e \<Rightarrow> bindS (pid_pos (pe_tasks e) pid) (\<lambda>r. retS (map_option (\<lambda>i. pe_tasks e ! i) r)))"

subsection \<open>Breakpoints of a task\<close>

text \<open>The lookup reads through a null pointer when the leader has no table.\<close>

definition breakpoint_find :: "nat \<Rightarrow> ulong \<Rightarrow> nat option top" where
  "breakpoint_find t addr =
     bindS (getT t) (\<lambda>tk. bindS (getT (tk_leader tk)) (\<lambda>l.
       case tk_breakpoints l of
         None \<Rightarrow> failS (Fault Segfault)
       | Some d \<Rightarrow> (case dict_find_entry d addr of None \<Rightarrow> failS (Fault DivisionFault) | Some r \<Rightarrow> retS r)))"

definition breakpoint_get :: "nat option \<Rightarrow> nat option top" where
  "breakpoint_get bp =
     (case bp of None \<Rightarrow> retS None | Some b \<Rightarrow> seqS (updB b (\<lambda>bp. bp\<lparr>bp_refcnt := bp_refcnt bp + 1\<rparr>)) (retS bp))"

definition breakpoint_put :: "nat option \<Rightarrow> bool top" where
  "breakpoint_put bp =
     (case bp of
        None \<Rightarrow> retS True
      | Some b \<Rightarrow>
          bindS (getB b) (\<lambda>bp.
          seqS (assertS (bp_refcnt bp \<noteq> 0))
          (seqS (updB b (\<lambda>bp. bp\<lparr>bp_refcnt := bp_refcnt bp - 1\<rparr>))
            (if bp_refcnt bp - 1 \<noteq> 0 then retS False
             else seqS (assertS (\<not> bp_enabled bp)) (seqS (modS (\<lambda>s. s\<lparr>tr_bps := (tr_bps s)(b := None)\<rparr>)) (retS True))))))"

definition breakpoint_setup :: "nat \<Rightarrow> unit top" where
  "breakpoint_setup t =
     bindS (getT t) (\<lambda>tk.
       seqS (assertS (tk_breakpoints tk = None))
         (updT t (\<lambda>tk. tk\<lparr>tk_breakpoints := Some (dict_init 12401 target_address_hash target_address_cmp)\<rparr>)))"

definition breakpoint_hw_destroy :: "trace_env \<Rightarrow> nat \<Rightarrow> unit top" where
  "breakpoint_hw_destroy env t =
     (if opt_nohwbp env then retS ()
      else seqS (updT t (\<lambda>tk. tk\<lparr>tk_hw_bp := replicate HW_BREAKPOINTS None\<rparr>)) (bindS (reset_all_hw_bp t) (\<lambda>_. retS ())))"

definition task_reset_bp :: "nat \<Rightarrow> unit top" where
  "task_reset_bp t =
     bindS (getT t) (\<lambda>tk.
       seqS (if tk_skip_bp tk = None then retS ()
             else bindS (breakpoint_put (tk_skip_bp tk)) (\<lambda>_. updT t (\<lambda>tk. tk\<lparr>tk_skip_bp := None\<rparr>)))
         (updT t (\<lambda>tk. tk\<lparr>tk_breakpoint := None\<rparr>)))"

subsection \<open>A new task\<close>

definition os_task_init :: "nat \<Rightarrow> unit top" where
  "os_task_init t =
     bindS (getT t) (\<lambda>tk. whenS (t = tk_leader tk) (updT t (\<lambda>tk. tk\<lparr>tk_debug_addr := 0, tk_debug_state := 1\<rparr>)))"

text \<open>The result is false for -1.\<close>

definition task_link :: "nat \<Rightarrow> nat \<Rightarrow> unit top" where
  "task_link t leader =
     (if t = leader then
        seqS (updT t (\<lambda>tk. tk\<lparr>tk_threads := 1\<rparr>))
          (seqS (breakpoint_setup t) (modS (\<lambda>s. s\<lparr>tr_leaders := tr_leaders s @ [t]\<rparr>)))
      else
        seqS (updT leader (\<lambda>l. l\<lparr>tk_threads := tk_threads l + 1\<rparr>))
          (seqS (updT t (\<lambda>tk. tk\<lparr>tk_breakpoints := None\<rparr>))
            (updT leader (\<lambda>l. l\<lparr>tk_task_list := tk_task_list l @ [t]\<rparr>))))"

definition task_init :: "trace_env \<Rightarrow> nat \<Rightarrow> bool top" where
  "task_init env t =
     bindS (getT t) (\<lambda>tk.
     let tgid = te_tgid env (tk_pid tk) in
     if tgid = 0 then retS False
     else
       bindS (if tgid = tk_pid tk then retS (Some t) else pid2task tgid) (\<lambda>r. case r of
         None \<Rightarrow> retS False
       | Some leader \<Rightarrow>
           seqS (updT t (\<lambda>tk. tk\<lparr>tk_leader := leader\<rparr>))
             (bindS (arch_task_init t) (\<lambda>ok.
                if \<not> ok then retS False
                else seqS (os_task_init t) (seqS (task_link t leader) (seqS (breakpoint_hw_destroy env t) (retS True)))))))"

text \<open>
  Memory filled with zeros; the null pointer of the field \<open>leader\<close> is the task itself here, which \<open>task_init\<close>
  replaces before it is read.
\<close>

definition new_task :: "nat \<Rightarrow> u32 \<Rightarrow> task" where
  "new_task t pid =
     \<lparr>tk_pid = pid, tk_leader = t, tk_event = EVENT_NONE, tk_ev_num = 0, tk_ev_bp = None, tk_attached = False,
      tk_deleted = False, tk_about_exit = False, tk_stopped = False, tk_is_new = True, tk_bad = False,
      tk_bp_skipped = False, tk_in_realloc = False, tk_breakpoint = None, tk_libsym = None,
      tk_regs = \<lparr>task_is_64bit = False, cx_iregs = (\<lambda>_. 0), saved_iregs = (\<lambda>_. 0)\<rparr>, tk_dr7 = 0,
      tk_hw_addr = replicate HW_BREAKPOINTS 0, tk_skip_bp = None, tk_hw_bp = replicate HW_BREAKPOINTS None,
      tk_defer = None, tk_threads = 0, tk_threads_stopped = 0, tk_breakpoints = None, tk_libs = library_setup,
      tk_backtrace = None, tk_task_list = [], tk_hw_bp_list = [], tk_hw_bp_num = 0, tk_debug_addr = 0, tk_debug_state = 0\<rparr>"

definition task_new :: "trace_env \<Rightarrow> u32 \<Rightarrow> nat option top" where
  "task_new env pid =
     bindS (getS tr_next) (\<lambda>t.
     seqS (modS (\<lambda>s. s\<lparr>tr_next := Suc t, tr_tasks := (tr_tasks s)(t \<mapsto> new_task t pid)\<rparr>))
       (bindS (task_init env t) (\<lambda>ok.
          if \<not> ok then seqS (modS (\<lambda>s. s\<lparr>tr_tasks := (tr_tasks s)(t := None)\<rparr>)) (retS None)
          else seqS (insert_pid t) (retS (Some t)))))"

subsection \<open>The contract of the table\<close>

text \<open>
  A table of tasks by process id, seen as the map \<open>alpha\<close>: a lookup is a read of the map, and the two changes
  touch nothing of the tracer but the table.
\<close>

locale pid_table =
  fixes inv :: "tracer \<Rightarrow> bool" and alpha :: "tracer \<Rightarrow> u32 \<Rightarrow> nat option"
    and look :: "u32 \<Rightarrow> nat option top" and ins :: "nat \<Rightarrow> unit top" and del :: "nat \<Rightarrow> unit top"
  assumes look_alpha: "inv s \<Longrightarrow> look pid s = (Inr (alpha s pid), s)"
    and ins_alpha: "inv s \<Longrightarrow> tr_tasks s t = Some tk \<Longrightarrow> alpha s (tk_pid tk) = None \<Longrightarrow>
      \<exists>h. ins t s = (Inr (), s\<lparr>tr_pid_hash := h\<rparr>) \<and> inv (s\<lparr>tr_pid_hash := h\<rparr>) \<and>
          alpha (s\<lparr>tr_pid_hash := h\<rparr>) = (alpha s)(tk_pid tk \<mapsto> t)"
    and del_alpha: "inv s \<Longrightarrow> tr_tasks s t = Some tk \<Longrightarrow> alpha s (tk_pid tk) \<noteq> None \<Longrightarrow>
      \<exists>h. del t s = (Inr (), s\<lparr>tr_pid_hash := h\<rparr>) \<and> inv (s\<lparr>tr_pid_hash := h\<rparr>) \<and>
          alpha (s\<lparr>tr_pid_hash := h\<rparr>) = (alpha s)(tk_pid tk := None)"
begin

lemma ins_look:
  assumes "inv s" "tr_tasks s t = Some tk" "alpha s (tk_pid tk) = None" "ins t s = (Inr u, s')"
  shows "look pid s' = (Inr (if pid = tk_pid tk then Some t else alpha s pid), s')"
  using ins_alpha [OF assms(1-3)] assms(4) by (auto simp: look_alpha)

lemma ins_del:
  assumes "inv s" "tr_tasks s t = Some tk" "alpha s (tk_pid tk) = None"
  shows "\<exists>s1 s2. ins t s = (Inr (), s1) \<and> del t s1 = (Inr (), s2) \<and> inv s2 \<and> alpha s2 = alpha s"
proof -
  obtain h where h: "ins t s = (Inr (), s\<lparr>tr_pid_hash := h\<rparr>)" "inv (s\<lparr>tr_pid_hash := h\<rparr>)"
    "alpha (s\<lparr>tr_pid_hash := h\<rparr>) = (alpha s)(tk_pid tk \<mapsto> t)" using ins_alpha [OF assms] by blast
  from del_alpha [OF h(2), of t tk] assms(2) h(3)
  obtain h2 where "del t (s\<lparr>tr_pid_hash := h\<rparr>) = (Inr (), s\<lparr>tr_pid_hash := h2\<rparr>)" "inv (s\<lparr>tr_pid_hash := h2\<rparr>)"
    "alpha (s\<lparr>tr_pid_hash := h2\<rparr>) = (alpha s)(tk_pid tk \<mapsto> t, tk_pid tk := None)" by auto
  moreover have "(alpha s)(tk_pid tk \<mapsto> t, tk_pid tk := None) = alpha s" using assms(3) by auto
  ultimately show ?thesis using h(1) by auto
qed

end

definition pid_of :: "tracer \<Rightarrow> nat \<Rightarrow> u32 option" where
  "pid_of s t = map_option tk_pid (tr_tasks s t)"

definition bucket_ok :: "tracer \<Rightarrow> nat \<Rightarrow> pid_entry \<Rightarrow> bool" where
  "bucket_ok s i e \<longleftrightarrow>
     length (pe_tasks e) \<le> pe_size e \<and> distinct (map (pid_of s) (pe_tasks e)) \<and>
     (\<forall>t \<in> set (pe_tasks e). \<exists>pid. pid_of s t = Some pid \<and> PID_HASH pid = i)"

definition hash_ok :: "tracer \<Rightarrow> bool" where
  "hash_ok s \<longleftrightarrow> length (tr_pid_hash s) = PID_HASH_SIZE \<and>
     (\<forall>i < PID_HASH_SIZE. \<forall>e. tr_pid_hash s ! i = Some e \<longrightarrow> bucket_ok s i e)"

definition pid_map :: "tracer \<Rightarrow> u32 \<Rightarrow> nat option" where
  "pid_map s pid = (case tr_pid_hash s ! PID_HASH pid of
      None \<Rightarrow> None | Some e \<Rightarrow> List.find (\<lambda>t. pid_of s t = Some pid) (pe_tasks e))"

lemma PID_HASH_bound [simp]: "PID_HASH pid < PID_HASH_SIZE"
  by (simp add: PID_HASH_def PID_HASH_SIZE_def)

lemma pid_of_hash [simp]: "pid_of (s\<lparr>tr_pid_hash := h\<rparr>) = pid_of s"
  by (simp add: pid_of_def fun_eq_iff)

lemma pid_pos_run:
  assumes "\<forall>t \<in> set ts. pid_of s t \<noteq> None"
  shows "\<exists>r. pid_pos ts pid s = (Inr r, s) \<and>
    (case r of None \<Rightarrow> Some pid \<notin> pid_of s ` set ts | Some i \<Rightarrow> i < length ts \<and> pid_of s (ts ! i) = Some pid) \<and>
    map_option (\<lambda>i. ts ! i) r = List.find (\<lambda>t. pid_of s t = Some pid) ts"
  using assms
proof (induction ts)
  case (Cons t ts)
  then obtain r where r: "pid_pos ts pid s = (Inr r, s)"
    "case r of None \<Rightarrow> Some pid \<notin> pid_of s ` set ts | Some i \<Rightarrow> i < length ts \<and> pid_of s (ts ! i) = Some pid"
    "map_option (\<lambda>i. ts ! i) r = List.find (\<lambda>t. pid_of s t = Some pid) ts" by auto
  from Cons.prems obtain tk where tk: "tr_tasks s t = Some tk" by (auto simp: pid_of_def)
  show ?case
  proof (cases "tk_pid tk = pid")
    case True
    with tk show ?thesis by (simp add: bindS_def getT_def retS_def pid_of_def)
  next
    case False
    with tk r show ?thesis
      by (cases r) (auto simp: bindS_def getT_def retS_def pid_of_def)
  qed
qed (simp add: retS_def)

lemma bucket_pids: "bucket_ok s i e \<Longrightarrow> \<forall>t \<in> set (pe_tasks e). pid_of s t \<noteq> None"
  by (auto simp: bucket_ok_def)

lemma hash_ok_bucket: "hash_ok s \<Longrightarrow> tr_pid_hash s ! PID_HASH pid = Some e \<Longrightarrow> bucket_ok s (PID_HASH pid) e"
  by (simp add: hash_ok_def)

lemma pid2task_run: "hash_ok s \<Longrightarrow> pid2task pid s = (Inr (pid_map s pid), s)"
  using pid_pos_run [OF bucket_pids [OF hash_ok_bucket], of s pid _ pid]
  by (fastforce simp: pid2task_def bindS_def getS_def retS_def pid_map_def split: option.split)

lemma hash_update:
  assumes "hash_ok s" "bucket_ok s (PID_HASH pid) e"
  shows "hash_ok (s\<lparr>tr_pid_hash := (tr_pid_hash s)[PID_HASH pid := Some e]\<rparr>)"
  using assms by (auto simp: hash_ok_def bucket_ok_def nth_list_update)

lemma pid_map_update:
  assumes "hash_ok s"
  shows "pid_map (s\<lparr>tr_pid_hash := (tr_pid_hash s)[PID_HASH pid := Some e]\<rparr>) p =
    (if PID_HASH p = PID_HASH pid then List.find (\<lambda>t. pid_of s t = Some p) (pe_tasks e) else pid_map s p)"
  using assms by (auto simp: pid_map_def hash_ok_def nth_list_update split: option.split)

lemma find_append: "List.find P (xs @ ys) = (case List.find P xs of None \<Rightarrow> List.find P ys | Some x \<Rightarrow> Some x)"
  by (induction xs) auto

lemma pid_map_None:
  "pid_map s pid = None \<longleftrightarrow>
     (case tr_pid_hash s ! PID_HASH pid of None \<Rightarrow> True | Some e \<Rightarrow> Some pid \<notin> pid_of s ` set (pe_tasks e))"
  by (fastforce simp: pid_map_def find_None_iff image_iff split: option.split)

lemma insert_pid_run:
  assumes "hash_ok s" "tr_tasks s t = Some tk" "pid_map s (tk_pid tk) = None"
  shows "\<exists>h. insert_pid t s = (Inr (), s\<lparr>tr_pid_hash := h\<rparr>) \<and> hash_ok (s\<lparr>tr_pid_hash := h\<rparr>) \<and>
    pid_map (s\<lparr>tr_pid_hash := h\<rparr>) = (pid_map s)(tk_pid tk \<mapsto> t)"
proof -
  let ?i = "PID_HASH (tk_pid tk)"
  define e where "e = (case tr_pid_hash s ! ?i of
      None \<Rightarrow> \<lparr>pe_size = 8, pe_tasks = []\<rparr>
    | Some e \<Rightarrow> if pe_size e = length (pe_tasks e) then e\<lparr>pe_size := pe_size e + 8\<rparr> else e)"
  let ?e = "e\<lparr>pe_tasks := pe_tasks e @ [t]\<rparr>"
  have p: "pid_of s t = Some (tk_pid tk)" using assms(2) by (simp add: pid_of_def)
  have b: "bucket_ok s ?i e" "length (pe_tasks e) < pe_size e"
    using hash_ok_bucket [OF assms(1), of "tk_pid tk"]
    by (fastforce simp: e_def bucket_ok_def split: option.split)+
  have new: "Some (tk_pid tk) \<notin> pid_of s ` set (pe_tasks e)"
    using assms(3) by (auto simp: pid_map_None e_def split: option.splits if_splits)
  have "insert_pid t s = (Inr (), s\<lparr>tr_pid_hash := (tr_pid_hash s)[?i := Some ?e]\<rparr>)"
    using assms(2) by (simp add: insert_pid_def bindS_def getT_def getS_def set_bucket_def modS_def Let_def flip: e_def)
  moreover have "bucket_ok s ?i ?e" using b new p by (auto simp: bucket_ok_def)
  moreover have "pid_map (s\<lparr>tr_pid_hash := (tr_pid_hash s)[?i := Some ?e]\<rparr>) q = ((pid_map s)(tk_pid tk \<mapsto> t)) q" for q
  proof -
    have old: "PID_HASH q = ?i \<Longrightarrow> List.find (\<lambda>t. pid_of s t = Some q) (pe_tasks e) = pid_map s q"
      by (auto simp: pid_map_def e_def split: option.split)
    show ?thesis
      using p assms(3) old by (auto simp: pid_map_update [OF assms(1)] find_append split: option.split)
  qed
  ultimately show ?thesis using hash_update [OF assms(1)] by blast
qed

lemma find_without:
  assumes "distinct (map f ts)" "i < length ts" "f (ts ! i) = Some p"
  shows "List.find (\<lambda>t. f t = Some q) (take i ts @ drop (Suc i) ts) = (if q = p then None else List.find (\<lambda>t. f t = Some q) ts)"
proof -
  have ts: "ts = take i ts @ ts ! i # drop (Suc i) ts" by (simp add: assms(2) id_take_nth_drop)
  have "distinct (map f (take i ts @ ts ! i # drop (Suc i) ts))" using assms(1) ts by simp
  then have "Some p \<notin> f ` set (take i ts) \<union> f ` set (drop (Suc i) ts)" using assms(3) by (auto simp: image_iff)
  then have "List.find (\<lambda>t. f t = Some p) (take i ts @ drop (Suc i) ts) = None" by (auto simp: find_None_iff image_iff)
  moreover have "q \<noteq> p \<Longrightarrow> List.find (\<lambda>t. f t = Some q) ts = List.find (\<lambda>t. f t = Some q) (take i ts @ drop (Suc i) ts)"
    by (subst ts) (use assms(3) in \<open>auto simp: find_append split: option.split\<close>)
  ultimately show ?thesis by auto
qed

lemma delete_pid_run:
  assumes "hash_ok s" "tr_tasks s t = Some tk" "pid_map s (tk_pid tk) \<noteq> None"
  shows "\<exists>h. delete_pid t s = (Inr (), s\<lparr>tr_pid_hash := h\<rparr>) \<and> hash_ok (s\<lparr>tr_pid_hash := h\<rparr>) \<and>
    pid_map (s\<lparr>tr_pid_hash := h\<rparr>) = (pid_map s)(tk_pid tk := None)"
proof -
  let ?i = "PID_HASH (tk_pid tk)"
  obtain e where e: "tr_pid_hash s ! ?i = Some e" "Some (tk_pid tk) \<in> pid_of s ` set (pe_tasks e)"
    using assms(3) by (auto simp: pid_map_None split: option.splits)
  note b = hash_ok_bucket [OF assms(1) e(1)]
  from pid_pos_run [OF bucket_pids [OF b], of "tk_pid tk"] e(2) obtain i where
    i: "pid_pos (pe_tasks e) (tk_pid tk) s = (Inr (Some i), s)" "i < length (pe_tasks e)"
      "pid_of s (pe_tasks e ! i) = Some (tk_pid tk)" by (auto split: option.splits)
  let ?ts = "take i (pe_tasks e) @ drop (Suc i) (pe_tasks e)"
  let ?e = "e\<lparr>pe_tasks := ?ts\<rparr>"
  have d: "distinct (map (pid_of s) (pe_tasks e))" using b by (simp add: bucket_ok_def)
  have "delete_pid t s = (Inr (), s\<lparr>tr_pid_hash := (tr_pid_hash s)[?i := Some ?e]\<rparr>)"
    using assms(2) e(1) i(1) by (simp add: delete_pid_def bindS_def getT_def getS_def set_bucket_def modS_def)
  moreover have "distinct (map (pid_of s) ?ts)"
  proof -
    have "distinct (map (pid_of s) (take i (pe_tasks e) @ pe_tasks e ! i # drop (Suc i) (pe_tasks e)))"
      using d by (simp add: i(2) flip: id_take_nth_drop)
    then show ?thesis by auto
  qed
  then have "bucket_ok s ?i ?e" using b by (auto simp: bucket_ok_def dest: in_set_takeD in_set_dropD)
  moreover have "pid_map (s\<lparr>tr_pid_hash := (tr_pid_hash s)[?i := Some ?e]\<rparr>) q = ((pid_map s)(tk_pid tk := None)) q" for q
  proof -
    have "PID_HASH q = ?i \<Longrightarrow> pid_map s q = List.find (\<lambda>t. pid_of s t = Some q) (pe_tasks e)"
      using e(1) by (simp add: pid_map_def)
    then show ?thesis by (simp add: pid_map_update [OF assms(1)] find_without [OF d i(2,3)])
  qed
  ultimately show ?thesis using hash_update [OF assms(1)] by blast
qed

interpretation pid_hash: pid_table hash_ok pid_map pid2task insert_pid delete_pid
  by unfold_locales (simp add: pid2task_run, erule (2) insert_pid_run, erule (2) delete_pid_run)

end
