(* ===== verification/Trace_Events.thy ===== *)
theory Trace_Events
  imports Task_Table
begin

text \<open>
  Stopping, continuing and waiting for traced threads (\<open>sysdeps/linux-gnu/trace.c\<close>) and the queue of events
  (first part of \<open>event.c\<close>). Messages to the terminal and the timing of the verbose mode are left out. The result -1 of a
  function that returns -1 or 0 is \<open>False\<close>.
\<close>

subsection \<open>The kernel\<close>

definition SIGTRAP :: nat where "SIGTRAP = 5"
definition SIGSTOP :: nat where "SIGSTOP = 19"
definition SIGCONT :: nat where "SIGCONT = 18"

text \<open>A thread that runs cannot be accessed until it is reported again.\<close>

definition os_run :: "u32 \<Rightarrow> unit top" where
  "os_run pid = modS (\<lambda>s. s\<lparr>os_stop := (os_stop s)(pid := (os_stop s pid)\<lparr>wi_ptrace := Some ESRCH\<rparr>)\<rparr>)"

definition os_report :: "wait_item \<Rightarrow> tracer \<Rightarrow> tracer" where
  "os_report w s =
     s\<lparr>os_stop := (os_stop s)(wi_pid w := w),
       os_dr := (os_dr s)(wi_pid w := (os_dr s (wi_pid w))(6 := wi_dr6 w)),
       os_mem := (os_mem s)(wi_tgid w := wi_mem w (os_mem s (wi_tgid w)))\<rparr>"

definition task_kill :: "nat \<Rightarrow> nat \<Rightarrow> unit top" where
  "task_kill t sig = bindS (getT t) (\<lambda>tk. os_do (Kill (tk_pid tk) sig))"

text \<open>\<open>waitpid\<close> for one thread and for every thread: the first report of it, which is taken from the list.\<close>

definition wait_task :: "nat \<Rightarrow> wstatus option top" where
  "wait_task t =
     bindS (getT t) (\<lambda>tk.
     bindS (getS (\<lambda>s. List.find (\<lambda>w. wi_pid w = tk_pid tk) (os_waits s))) (\<lambda>r. case r of
       None \<Rightarrow> retS None
     | Some w \<Rightarrow>
         seqS (modS (\<lambda>s. os_report w
                (s\<lparr>os_waits := takeWhile (\<lambda>w. wi_pid w \<noteq> tk_pid tk) (os_waits s) @
                              tl (dropWhile (\<lambda>w. wi_pid w \<noteq> tk_pid tk) (os_waits s))\<rparr>)))
           (retS (Some (wi_status w)))))"

definition wait_any :: "(u32 \<times> wstatus) option top" where
  "wait_any =
     bindS (getS os_waits) (\<lambda>ws. case ws of
       [] \<Rightarrow> retS None
     | w # ws \<Rightarrow> seqS (modS (\<lambda>s. os_report w (s\<lparr>os_waits := ws\<rparr>))) (retS (Some (wi_pid w, wi_status w))))"

subsection \<open>The queue of events\<close>

text \<open>A task that is queued twice breaks the list; the model ends there.\<close>

definition queue_event :: "nat \<Rightarrow> unit top" where
  "queue_event t =
     bindS (getT t) (\<lambda>tk.
     seqS (assertS (tk_event tk \<noteq> EVENT_NONE))
     (seqS (assertS (tk_stopped tk))
       (bindS (getS tr_queue) (\<lambda>q.
          if t \<in> set q then failS (Fault Segfault) else modS (\<lambda>s. s\<lparr>tr_queue := q @ [t]\<rparr>)))))"

definition remove_event :: "nat \<Rightarrow> unit top" where
  "remove_event t =
     seqS (updT t (\<lambda>tk. tk\<lparr>tk_event := EVENT_NONE\<rparr>)) (modS (\<lambda>s. s\<lparr>tr_queue := filter (\<lambda>u. u \<noteq> t) (tr_queue s)\<rparr>))"

definition init_event :: "nat \<Rightarrow> unit top" where
  "init_event t = updT t (\<lambda>tk. tk\<lparr>tk_event := EVENT_NONE\<rparr>)"

subsection \<open>Stops\<close>

definition add_stopped :: "nat \<Rightarrow> u32 \<Rightarrow> unit top" where
  "add_stopped t n = bindS (getT t) (\<lambda>tk. updT (tk_leader tk) (\<lambda>l. l\<lparr>tk_threads_stopped := tk_threads_stopped l + n\<rparr>))"

definition set_event :: "nat \<Rightarrow> event_type \<Rightarrow> nat \<Rightarrow> unit top" where
  "set_event t ev n = updT t (\<lambda>tk. tk\<lparr>tk_event := ev, tk_ev_num := n\<rparr>)"

definition trace_setup :: "nat \<Rightarrow> wstatus \<Rightarrow> nat \<Rightarrow> bool top" where
  "trace_setup t status signum = (case status of
      WStopped sig _ \<Rightarrow>
        seqS (updT t (\<lambda>tk. tk\<lparr>tk_attached := True, tk_stopped := True\<rparr>))
        (seqS (add_stopped t 1)
        (seqS (set_event t EVENT_NEW 0)
          (if sig \<noteq> signum then seqS (set_event t EVENT_NEW sig) (retS False) else retS True)))
    | _ \<Rightarrow> retS False)"

definition trace_wait_signal :: "nat \<Rightarrow> nat \<Rightarrow> bool top" where
  "trace_wait_signal t signum =
     bindS (wait_task t) (\<lambda>r. case r of
       None \<Rightarrow> retS False
     | Some (WExited _) \<Rightarrow> retS False
     | Some status \<Rightarrow> trace_setup t status signum)"

definition trace_wait :: "nat \<Rightarrow> bool top" where
  "trace_wait t = bindS (getT t) (\<lambda>tk. seqS (assertS (\<not> tk_attached tk)) (trace_wait_signal t SIGTRAP))"

text \<open>\<open>PTRACE_GETEVENTMSG\<close>, zero when it fails, and the sender \<open>PTRACE_GETSIGINFO\<close> names.\<close>

definition event_msg :: "u32 \<Rightarrow> ulong top" where
  "event_msg pid = getS (\<lambda>s. if os_ptrace s pid = None then wi_msg (os_stop s pid) else 0)"

definition sig_sender :: "u32 \<Rightarrow> u32 option top" where
  "sig_sender pid = getS (\<lambda>s. if os_ptrace s pid = None then wi_sender (os_stop s pid) else None)"

definition WEXITSTATUS :: "ulong \<Rightarrow> nat" where
  "WEXITSTATUS v = unat (drop_bit 8 v AND 0xff)"

definition child_event :: "trace_env \<Rightarrow> nat \<Rightarrow> event_type \<Rightarrow> int top" where
  "child_event env t ev =
     bindS (getT t) (\<lambda>tk.
     bindS (event_msg (tk_pid tk)) (\<lambda>data.
     let pid = ucast data in
     if pid = 0 then retS (-1)
     else
       bindS (pid2task pid) (\<lambda>r.
       bindS (case r of
                Some _ \<Rightarrow> retS True
              | None \<Rightarrow>
                  bindS (task_new env pid) (\<lambda>c. case c of
                    None \<Rightarrow> retS False
                  | Some child \<Rightarrow> seqS (updT child (\<lambda>tk. tk\<lparr>tk_attached := True\<rparr>)) (retS True))) (\<lambda>ok.
         if \<not> ok then retS (-1) else seqS (set_event t ev (unat pid)) (retS 0)))))"

text \<open>A stop by a signal; one that the tracer sent itself is not passed on.\<close>

definition signal_event :: "trace_env \<Rightarrow> nat \<Rightarrow> nat \<Rightarrow> int top" where
  "signal_event env t sig =
     bindS (getT t) (\<lambda>tk.
     bindS (sig_sender (tk_pid tk)) (\<lambda>sender.
       let sig = (if sig = SIGSTOP \<and> (sender = None \<or> sender = Some (te_mtrace_pid env)) then 0 else sig)
       in seqS (set_event t EVENT_SIGNAL sig) (retS (int sig))))"

definition stopped_event :: "trace_env \<Rightarrow> nat \<Rightarrow> nat \<Rightarrow> nat \<Rightarrow> int top" where
  "stopped_event env t sig ev =
     (if ev = 2 then child_event env t EVENT_VFORK
      else if ev = 1 then child_event env t EVENT_FORK
      else if ev = 3 then child_event env t EVENT_CLONE
      else if ev = 4 then seqS (updT t (\<lambda>tk. tk\<lparr>tk_event := EVENT_EXEC\<rparr>)) (retS 0)
      else if ev = 6 then
        bindS (getT t) (\<lambda>tk. bindS (event_msg (tk_pid tk)) (\<lambda>data.
          seqS (set_event t EVENT_ABOUT_EXIT (WEXITSTATUS data)) (retS 0)))
      else signal_event env t sig)"

text \<open>\<open>_process_event\<close>\<close>

definition process_event_status :: "trace_env \<Rightarrow> nat \<Rightarrow> wstatus \<Rightarrow> int top" where
  "process_event_status env t status =
     seqS (updT t (\<lambda>tk. tk\<lparr>tk_stopped := True\<rparr>))
     (bindS (getT t) (\<lambda>tk.
      seqS (assertS (tk_event tk = EVENT_NONE))
      (case status of
         WSignaled n \<Rightarrow> seqS (set_event t EVENT_EXIT_SIGNAL n) (retS 0)
       | WExited n \<Rightarrow> seqS (set_event t EVENT_EXIT n) (retS 0)
       | WOther \<Rightarrow> retS (-1)
       | WStopped sig ev \<Rightarrow>
           if tk_is_new tk \<and> sig = SIGSTOP \<and> ev = 0 then seqS (set_event t EVENT_NEW 0) (retS 0)
           else seqS (whenS (tk_is_new tk \<and> \<not> tk_bad tk) (updT t (\<lambda>tk. tk\<lparr>tk_bad := True\<rparr>))) (stopped_event env t sig ev))))"

definition continue_task :: "nat \<Rightarrow> nat \<Rightarrow> bool top" where
  "continue_task t signum =
     bindS (getT t) (\<lambda>tk.
     seqS (assertS (tk_stopped tk))
     (seqS (add_stopped t (-1))
     (seqS (updT t (\<lambda>tk. tk\<lparr>tk_stopped := False, tk_event := EVENT_NONE\<rparr>))
       (bindS (ptraceS (tk_pid tk)) (\<lambda>r. case r of
          Some _ \<Rightarrow> retS False
        | None \<Rightarrow> seqS (os_do (Cont (tk_pid tk) signum)) (seqS (os_run (tk_pid tk)) (retS True)))))))"

subsection \<open>Breakpoints that are hit\<close>

text \<open>The first slot that holds the address, and its breakpoint if the debug register 6 names the slot.\<close>

fun hw_slot_loop :: "nat list \<Rightarrow> nat option list \<Rightarrow> ulong \<Rightarrow> (nat \<times> nat) option top" where
  "hw_slot_loop [] hw ip = retS None"
| "hw_slot_loop (i # is) hw ip = (case hw ! i of
      None \<Rightarrow> hw_slot_loop is hw ip
    | Some b \<Rightarrow> bindS (getB b) (\<lambda>bp. if bp_addr bp = ip then retS (Some (i, b)) else hw_slot_loop is hw ip))"

definition hw_bp_hit :: "nat \<Rightarrow> ulong \<Rightarrow> (nat \<times> nat) option top" where
  "hw_bp_hit t ip =
     bindS (getT t) (\<lambda>tk.
     bindS (hw_slot_loop [0..<HW_BREAKPOINTS] (tk_hw_bp tk) ip) (\<lambda>r. case r of
       None \<Rightarrow> retS None
     | Some (i, b) \<Rightarrow> bindS (get_hw_bp_state t i) (\<lambda>h. retS (if h then Some (i, b) else None))))"

definition set_task_ip :: "nat \<Rightarrow> ulong \<Rightarrow> unit top" where
  "set_task_ip t addr =
     bindS (getT t) (\<lambda>tk. case set_instruction_pointer (tk_regs tk) addr of (cx, w) \<Rightarrow>
       seqS (updT t (\<lambda>tk. tk\<lparr>tk_regs := cx\<rparr>))
       (case w of
          None \<Rightarrow> retS ()
        | Some val \<Rightarrow>
            bindS (ptraceS (tk_pid tk)) (\<lambda>r. whenS (r = None)
              (seqS (os_do (SetRip (tk_pid tk) val))
                (modS (\<lambda>s. s\<lparr>os_stop := (os_stop s)(tk_pid tk := (os_stop s (tk_pid tk))
                   \<lparr>wi_regs := map_option (\<lambda>r. r(RIP := val)) (wi_regs (os_stop s (tk_pid tk)))\<rparr>)\<rparr>))))))"

definition fetch_task_context :: "nat \<Rightarrow> bool top" where
  "fetch_task_context t =
     bindS (getT t) (\<lambda>tk.
     bindS (getS (\<lambda>s. if os_ptrace s (tk_pid tk) = None then wi_regs (os_stop s (tk_pid tk)) else None)) (\<lambda>r.
       case fetch_context (tk_regs tk) r of (ret, cx) \<Rightarrow>
         seqS (updT t (\<lambda>tk. tk\<lparr>tk_regs := cx\<rparr>)) (retS (ret = 0))))"

text \<open>\<open>DECR_PC_AFTER_BREAK\<close> is one.\<close>

definition breakpoint_hit :: "nat \<Rightarrow> ulong \<Rightarrow> nat option top" where
  "breakpoint_hit t ip =
     bindS (hw_bp_hit t ip) (\<lambda>h. case h of
       Some (i, b) \<Rightarrow>
         bindS (getB b) (\<lambda>bp.
           seqS (assertS (bp_type bp \<noteq> BP_SW)) (seqS (assertS (bp_slot bp = i)) (retS (Some b))))
     | None \<Rightarrow>
         bindS (getT t) (\<lambda>tk.
         bindS (breakpoint_find (tk_leader tk) (ip - 1)) (\<lambda>r. case r of
           None \<Rightarrow> retS None
         | Some b \<Rightarrow>
             bindS (getB b) (\<lambda>bp.
               seqS (assertS (bp_type bp \<noteq> BP_HW_SCRATCH))
               (seqS (assertS (\<not> bp_hw bp)) (seqS (set_task_ip t (bp_addr bp)) (retS (Some b))))))))"

definition trap_event :: "nat \<Rightarrow> nat option top" where
  "trap_event t =
     bindS (fetch_task_context t) (\<lambda>ok.
       if \<not> ok then seqS (updT t (\<lambda>tk. tk\<lparr>tk_event := EVENT_NONE\<rparr>)) (bindS (continue_task t 0) (\<lambda>_. retS None))
       else
         bindS (getT t) (\<lambda>tk.
         bindS (breakpoint_hit t (get_instruction_pointer (tk_regs tk))) (\<lambda>r. case r of
           None \<Rightarrow> retS (Some t)
         | Some b \<Rightarrow>
             bindS (getB b) (\<lambda>bp. seqS (assertS (bp_enabled bp))
               (bindS (breakpoint_get (Some b)) (\<lambda>r.
                  seqS (updT t (\<lambda>tk. tk\<lparr>tk_event := EVENT_BREAKPOINT, tk_ev_bp := r\<rparr>)) (retS (Some t))))))))"

definition process_event :: "trace_env \<Rightarrow> nat \<Rightarrow> wstatus \<Rightarrow> nat option top" where
  "process_event env t status =
     bindS (getT t) (\<lambda>tk.
     seqS (assertS (\<not> tk_stopped tk))
     (seqS (add_stopped t 1)
       (bindS (process_event_status env t status) (\<lambda>sig.
          if sig < 0 then bindS (continue_task t 0) (\<lambda>_. retS None)
          else
            bindS (getT t) (\<lambda>tk.
              if tk_event tk = EVENT_NONE then bindS (continue_task t (tk_ev_num tk)) (\<lambda>_. retS None)
              else if sig \<noteq> int SIGTRAP then retS (Some t)
              else trap_event t)))))"

subsection \<open>Attach, detach and wait\<close>

definition ptrace_request :: "u32 \<Rightarrow> os_call \<Rightarrow> bool top" where
  "ptrace_request pid c = bindS (ptraceS pid) (\<lambda>r. case r of Some _ \<Rightarrow> retS False | None \<Rightarrow> seqS (os_do c) (retS True))"

text \<open>The signal passed on is always zero.\<close>

definition untrace_task :: "nat \<Rightarrow> bool top" where
  "untrace_task t =
     bindS (getT t) (\<lambda>tk.
     seqS (assertS (tk_stopped tk))
       (bindS (ptrace_request (tk_pid tk) (SetOptions (tk_pid tk) False)) (\<lambda>ok.
          if \<not> ok then retS False
          else bindS (ptrace_request (tk_pid tk) (Detach (tk_pid tk) 0)) (\<lambda>ok.
            if \<not> ok then retS False else seqS (os_run (tk_pid tk)) (retS True)))))"

definition stop_task :: "trace_env \<Rightarrow> nat \<Rightarrow> unit top" where
  "stop_task env t =
     bindS (getT t) (\<lambda>tk.
     seqS (assertS (tk_attached tk))
       (if tk_stopped tk then retS ()
        else seqS (task_kill t SIGSTOP)
          (bindS (wait_task t) (\<lambda>r. case r of
             None \<Rightarrow> retS ()
           | Some status \<Rightarrow> bindS (process_event_status env t status) (\<lambda>_. retS ())))))"

text \<open>Whether the kernel lets the tracer attach is the argument.\<close>

definition trace_attach :: "bool \<Rightarrow> nat \<Rightarrow> bool top" where
  "trace_attach allowed t =
     bindS (getT t) (\<lambda>tk.
     seqS (assertS (\<not> tk_attached tk))
       (if \<not> allowed then retS False
        else seqS (os_do (Attach (tk_pid tk))) (trace_wait_signal t SIGSTOP)))"

definition trace_set_options :: "nat \<Rightarrow> bool top" where
  "trace_set_options t = bindS (getT t) (\<lambda>tk. ptrace_request (tk_pid tk) (SetOptions (tk_pid tk) True))"

definition set_exit_event :: "nat \<Rightarrow> wstatus \<Rightarrow> bool top" where
  "set_exit_event t status =
     bindS (getT t) (\<lambda>tk. case status of
       WSignaled n \<Rightarrow> seqS (set_event t EVENT_EXIT_SIGNAL n) (retS True)
     | WExited n \<Rightarrow> seqS (set_event t EVENT_EXIT n) (retS True)
     | WStopped _ ev \<Rightarrow>
         if ev = 6 then
           bindS (event_msg (tk_pid tk)) (\<lambda>data. seqS (set_event t EVENT_ABOUT_EXIT (WEXITSTATUS data)) (retS True))
         else retS False
     | WOther \<Rightarrow> retS False)"

definition wait_event :: "trace_env \<Rightarrow> nat option top" where
  "wait_event env =
     bindS wait_any (\<lambda>r. case r of
       None \<Rightarrow> retS None
     | Some (pid, status) \<Rightarrow>
         bindS (getS tr_wakeup) (\<lambda>wakeup.
           if wakeup = Some pid then seqS (modS (\<lambda>s. s\<lparr>tr_wakeup := None\<rparr>)) (retS None)
           else
             bindS (pid2task pid) (\<lambda>r. case r of
               None \<Rightarrow>
                 bindS (task_new env pid) (\<lambda>c. case c of
                   None \<Rightarrow> retS None
                 | Some t \<Rightarrow> bindS (trace_setup t status SIGSTOP) (\<lambda>_. retS None))
             | Some t \<Rightarrow>
                 bindS (getT t) (\<lambda>tk.
                 bindS (if tk_stopped tk then set_exit_event t status else retS False) (\<lambda>done.
                   if done then retS None else process_event env t status)))))"

definition wait_event_wakeup :: "u32 \<Rightarrow> unit top" where
  "wait_event_wakeup pid =
     bindS (getS tr_wakeup) (\<lambda>w. whenS (w = None) (modS (\<lambda>s. s\<lparr>tr_wakeup := Some pid\<rparr>)))"

definition next_event :: "trace_env \<Rightarrow> nat option top" where
  "next_event env =
     bindS (getS tr_queue) (\<lambda>q. case q of
       t # q \<Rightarrow> seqS (modS (\<lambda>s. s\<lparr>tr_queue := q\<rparr>)) (retS (Some t))
     | [] \<Rightarrow> wait_event env)"

subsection \<open>Stopping every thread of a process\<close>

definition do_stop_cb :: "nat \<Rightarrow> unit top" where
  "do_stop_cb t = bindS (getT t) (\<lambda>tk. if tk_stopped tk then retS () else task_kill t SIGSTOP)"

text \<open>
  Every round but one in which no report is left takes a report; without a report the source waits for ever in
  this loop, which is the fault at the end.
\<close>

fun stop_loop :: "trace_env \<Rightarrow> nat \<Rightarrow> nat \<Rightarrow> unit top" where
  "stop_loop env leader 0 =
     bindS (getT leader) (\<lambda>l.
       if tk_threads l = tk_threads_stopped l then retS ()
       else seqS (assertS (tk_threads_stopped l < tk_threads l)) (failS (Fault NoReturn)))"
| "stop_loop env leader (Suc n) =
     bindS (getT leader) (\<lambda>l.
       if tk_threads l = tk_threads_stopped l then retS ()
       else seqS (assertS (tk_threads_stopped l < tk_threads l))
         (bindS (wait_event env) (\<lambda>r.
            seqS (case r of None \<Rightarrow> retS () | Some t \<Rightarrow> queue_event t) (stop_loop env leader n))))"

definition stop_threads :: "trace_env \<Rightarrow> nat \<Rightarrow> unit top" where
  "stop_threads env t =
     bindS (getT t) (\<lambda>tk.
     let leader = tk_leader tk in
     bindS (getT leader) (\<lambda>l.
       if tk_threads l = tk_threads_stopped l then retS ()
       else seqS (each_task leader do_stop_cb)
         (bindS (getS (\<lambda>s. Suc (length (os_waits s)))) (\<lambda>fuel. stop_loop env leader fuel))))"

subsection \<open>Single steps\<close>

text \<open>The result is -1, 0 or 1.\<close>

definition handle_singlestep :: "trace_env \<Rightarrow> nat \<Rightarrow> (nat \<Rightarrow> bool top) \<Rightarrow> nat \<Rightarrow> int top" where
  "handle_singlestep env t singlestep b =
     bindS (getT t) (\<lambda>tk. bindS (getB b) (\<lambda>bp.
     seqS (assertS (tk_stopped tk)) (seqS (assertS (tk_skip_bp tk = None)) (seqS (assertS (\<not> bp_enabled bp))
     (seqS (updT t (\<lambda>tk. tk\<lparr>tk_event := EVENT_NONE\<rparr>))
     (bindS (singlestep t) (\<lambda>ok.
        if \<not> ok then retS (-1)
        else
          bindS (wait_task t) (\<lambda>r. case r of
            None \<Rightarrow> retS 0
          | Some status \<Rightarrow>
              bindS (process_event_status env t status) (\<lambda>sig.
                if sig = -1 then retS 0
                else
                  bindS (getT t) (\<lambda>tk.
                  seqS (assertS (tk_stopped tk)) (seqS (assertS (tk_event tk \<noteq> EVENT_NONE))
                  (seqS (assertS (tk_event tk \<noteq> EVENT_BREAKPOINT))
                    (if tk_event tk \<noteq> EVENT_SIGNAL \<or> sig \<noteq> int SIGTRAP then seqS (queue_event t) (retS 1)
                     else if bp_break_insn bp then seqS (queue_event t) (retS 0)
                     else seqS (updT t (\<lambda>tk. tk\<lparr>tk_event := EVENT_BREAKPOINT, tk_ev_bp := Some b\<rparr>)) (retS 0))))))))))))))"

definition ptrace_singlestep :: "nat \<Rightarrow> bool top" where
  "ptrace_singlestep t =
     bindS (getT t) (\<lambda>tk.
     bindS (ptrace_request (tk_pid tk) (SingleStep (tk_pid tk))) (\<lambda>ok.
       if \<not> ok then retS False else seqS (os_run (tk_pid tk)) (retS True)))"

definition do_singlestep :: "trace_env \<Rightarrow> nat \<Rightarrow> nat \<Rightarrow> int top" where
  "do_singlestep env t b = handle_singlestep env t ptrace_singlestep b"

end
