(* ===== verification/Breakpoint.thy ===== *)
theory Breakpoint
  imports Trace_Events
begin

text \<open>
  Breakpoints (\<open>breakpoint.c\<close>, built with four debug registers). A software breakpoint replaces a byte of the
  program by the trap instruction; a hardware breakpoint uses a slot of the debug registers of every thread, the first slot being kept
  for the breakpoints on return addresses. Memory is taken to be there.
\<close>

subsection \<open>Software breakpoints\<close>

definition break_insn :: bytes where "break_insn = [0xcc]"

text \<open>The result of the copy is not looked at: the byte is kept when it could not be read.\<close>

definition enable_sw_breakpoint :: "nat \<Rightarrow> nat \<Rightarrow> unit top" where
  "enable_sw_breakpoint t b =
     bindS (getT t) (\<lambda>tk. bindS (getB b) (\<lambda>bp.
     seqS (assertS (tk_stopped tk)) (seqS (assertS (\<not> bp_sw bp)) (seqS (assertS (\<not> bp_hw bp))
     (bindS (procS t (\<lambda>tr. case copy_from_to_proc tr (bp_addr bp) break_insn of (_, dst, tr) \<Rightarrow> (dst, tr))) (\<lambda>dst.
        updB b (\<lambda>bp.
          let bp = (case dst of [] \<Rightarrow> bp | v # _ \<Rightarrow> set_orig_value v bp)
          in bp\<lparr>bp_break_insn := (break_insn = [bp_orig_value bp]), bp_was_hw := False, bp_sw := True, bp_enabled := True\<rparr>)))))))"

definition disable_sw_breakpoint :: "nat \<Rightarrow> nat \<Rightarrow> unit top" where
  "disable_sw_breakpoint t b =
     bindS (getT t) (\<lambda>tk. bindS (getB b) (\<lambda>bp.
     seqS (assertS (tk_stopped tk)) (seqS (assertS (bp_sw bp)) (seqS (assertS (\<not> bp_hw bp))
     (bindS (procS t (\<lambda>tr. copy_to_proc tr (bp_addr bp) [bp_orig_value bp])) (\<lambda>_.
        updB b (\<lambda>bp. bp\<lparr>bp_sw := False, bp_enabled := False\<rparr>)))))))"

subsection \<open>Hardware breakpoints\<close>

definition fatalS :: "bool \<Rightarrow> unit top" where
  "fatalS ok = (if ok then retS () else failS (Fault Aborted))"

definition in_slot :: "breakpoint \<Rightarrow> 'a top \<Rightarrow> 'a top" where
  "in_slot bp m = (if bp_slot bp < HW_BREAKPOINTS then m else failS (Fault OutOfBounds))"

definition enable_hw_bp :: "nat \<Rightarrow> nat \<Rightarrow> unit top" where
  "enable_hw_bp t b =
     bindS (getT t) (\<lambda>tk. bindS (getB b) (\<lambda>bp.
     let slot = bp_slot bp in
     seqS (assertS (bp_type bp \<noteq> BP_SW))
     (in_slot bp
       (seqS (assertS (\<not> wants_slot (bp_type bp) \<or> tk_hw_bp tk ! slot = None))
       (seqS (assertS (\<not> bp_sw bp))
       (seqS (updT t (\<lambda>tk. tk\<lparr>tk_hw_bp := (tk_hw_bp tk)[slot := Some b]\<rparr>))
         (bindS (set_hw_bp t slot (bp_addr bp)) fatalS)))))))"

definition disable_hw_bp :: "nat \<Rightarrow> nat \<Rightarrow> unit top" where
  "disable_hw_bp t b =
     bindS (getT t) (\<lambda>tk. bindS (getB b) (\<lambda>bp.
     let slot = bp_slot bp in
     seqS (assertS (\<not> bp_sw bp))
     (in_slot bp
       (if tk_hw_bp tk ! slot = None then retS ()
        else seqS (assertS (tk_hw_bp tk ! slot = Some b))
          (seqS (bindS (reset_hw_bp t slot) fatalS)
            (updT t (\<lambda>tk. tk\<lparr>tk_hw_bp := (tk_hw_bp tk)[slot := None]\<rparr>)))))))"

definition hw2sw_bp :: "nat \<Rightarrow> nat \<Rightarrow> unit top" where
  "hw2sw_bp leader b =
     seqS (each_task leader (\<lambda>t. disable_hw_bp t b))
       (seqS (updB b (\<lambda>bp. bp\<lparr>bp_hw := False\<rparr>)) (enable_sw_breakpoint leader b))"

text \<open>The order of \<open>qsort\<close>: breakpoints that must be in hardware first, then those hit most; the sort is stable.\<close>

definition hw_bp_sort :: "breakpoint \<Rightarrow> breakpoint \<Rightarrow> int" where
  "hw_bp_sort p q =
     (if bp_type p \<noteq> bp_type q then (if bp_type p = BP_HW then -1 else 1)
      else sint (bp_hwcnt q - bp_hwcnt p))"

fun hw_bp_insort :: "(nat \<times> breakpoint) \<Rightarrow> (nat \<times> breakpoint) list \<Rightarrow> (nat \<times> breakpoint) list" where
  "hw_bp_insort x [] = [x]"
| "hw_bp_insort x (y # ys) = (if hw_bp_sort (snd x) (snd y) \<le> 0 then x # y # ys else y # hw_bp_insort x ys)"

definition hw_bp_qsort :: "(nat \<times> breakpoint) list \<Rightarrow> (nat \<times> breakpoint) list" where
  "hw_bp_qsort xs = foldr hw_bp_insort xs []"

fun read_bps :: "nat list \<Rightarrow> (nat \<times> breakpoint) list top" where
  "read_bps [] = retS []"
| "read_bps (b # bs) = bindS (getB b) (\<lambda>bp. bindS (read_bps bs) (\<lambda>r. retS ((b, bp) # r)))"

text \<open>The slots of those that are in hardware already, each used once, and the others.\<close>

fun used_slots :: "(nat \<times> breakpoint) list \<Rightarrow> nat list \<Rightarrow> (nat list \<times> nat list) top" where
  "used_slots [] used = retS (used, [])"
| "used_slots ((b, bp) # bs) used =
     (if bp_hw bp then
        seqS (assertS (bp_slot bp \<noteq> HW_BP_SCRATCH_SLOT))
        (seqS (assertS (bp_slot bp < HW_BREAKPOINTS))
        (seqS (assertS (bp_slot bp \<notin> set used)) (used_slots bs (bp_slot bp # used))))
      else bindS (used_slots bs used) (\<lambda>(used, rest). retS (used, b # rest)))"

function next_slot :: "nat list \<Rightarrow> nat \<Rightarrow> nat" where
  "next_slot used i = (if i < 32 \<and> i \<in> set used then next_slot used (Suc i) else i)"
  by pat_completeness auto
termination by (relation "measure (\<lambda>(used, i). 32 - i)") auto

declare next_slot.simps [simp del]

definition use_slot :: "nat \<Rightarrow> nat \<Rightarrow> nat \<Rightarrow> unit top" where
  "use_slot leader b i =
     seqS (updB b (\<lambda>bp. bp\<lparr>bp_enabled := True, bp_union := of_nat i, bp_hw := True, bp_was_hw := True\<rparr>))
       (each_task leader (\<lambda>t. enable_hw_bp t b))"

fun fill_slots :: "nat \<Rightarrow> nat list \<Rightarrow> nat list \<Rightarrow> nat \<Rightarrow> unit top" where
  "fill_slots leader used [] i = retS ()"
| "fill_slots leader used (b # bs) i =
     (let i = next_slot used i in
      seqS (disable_sw_breakpoint leader b)
      (bindS (getT leader) (\<lambda>l.
        if i \<ge> HW_BREAKPOINTS then failS (Fault OutOfBounds)
        else
          seqS (case tk_hw_bp l ! i of None \<Rightarrow> retS () | Some old \<Rightarrow> hw2sw_bp leader old)
          (seqS (use_slot leader b i) (fill_slots leader used bs (Suc i))))))"

definition reorder_hw_bp :: "trace_env \<Rightarrow> nat \<Rightarrow> unit top" where
  "reorder_hw_bp env t =
     bindS (getT t) (\<lambda>tk.
     let leader = tk_leader tk in
     bindS (getT leader) (\<lambda>l.
       if tk_hw_bp_num l = 0 then retS ()
       else
         bindS (read_bps (tk_hw_bp_list l)) (\<lambda>bps.
         let enabled = filter (\<lambda>(b, bp). bp_enabled bp) bps;
             clear = each_loop (map fst enabled) (\<lambda>b. updB b (\<lambda>bp. bp\<lparr>bp_hwcnt := 0\<rparr>)) in
         seqS (assertS (length enabled \<le> unat (tk_hw_bp_num l)))
           (seqS clear
             (if length enabled < HW_BREAKPOINTS - 1 then retS ()
              else
                bindS (used_slots (take (HW_BREAKPOINTS - 1) (hw_bp_qsort enabled)) []) (\<lambda>(used, bs).
                  if bs = [] then retS ()
                  else seqS (stop_threads env leader) (fill_slots leader used bs (HW_BP_SCRATCH_SLOT + 1))))))))"

text \<open>The first free slot, or for a breakpoint that must be in hardware the first held by one that need not.\<close>

fun find_slot :: "nat list \<Rightarrow> nat \<Rightarrow> bp_type \<Rightarrow> nat option top" where
  "find_slot [] leader ty = retS None"
| "find_slot (i # is) leader ty =
     bindS (getT leader) (\<lambda>l. case tk_hw_bp l ! i of
       None \<Rightarrow> retS (Some i)
     | Some old \<Rightarrow>
         bindS (getB old) (\<lambda>o_bp.
           if ty = BP_HW \<and> bp_type o_bp = BP_AUTO then seqS (hw2sw_bp leader old) (retS (Some i))
           else find_slot is leader ty))"

text \<open>The result tells whether there was a slot.\<close>

definition insert_hw_bp_slot :: "nat \<Rightarrow> nat \<Rightarrow> bool top" where
  "insert_hw_bp_slot t b =
     bindS (getT t) (\<lambda>tk.
     let leader = tk_leader tk in
     bindS (getB b) (\<lambda>bp.
     bindS (find_slot [HW_BP_SCRATCH_SLOT + 1..<HW_BREAKPOINTS] leader (bp_type bp)) (\<lambda>r. case r of
       None \<Rightarrow> retS False
     | Some i \<Rightarrow>
         seqS (updB b (\<lambda>bp. bp\<lparr>bp_hwcnt := 0\<rparr>)) (seqS (use_slot leader b i) (retS True)))))"

definition breakpoint_hw_clone :: "nat \<Rightarrow> unit top" where
  "breakpoint_hw_clone t =
     bindS (getT t) (\<lambda>tk.
     let leader = tk_leader tk in
     if leader = t then retS ()
     else
       each_loop [HW_BP_SCRATCH_SLOT + 1..<HW_BREAKPOINTS] (\<lambda>i.
         bindS (getT leader) (\<lambda>l. case tk_hw_bp l ! i of
           None \<Rightarrow> bindS (getT t) (\<lambda>tk. assertS (tk_hw_bp tk ! i = None))
         | Some b \<Rightarrow>
             bindS (getB b) (\<lambda>bp.
               seqS (assertS (bp_enabled bp)) (seqS (assertS (bp_slot bp = i)) (enable_hw_bp t b))))))"

definition enable_scratch_hw_bp :: "nat \<Rightarrow> nat \<Rightarrow> unit top" where
  "enable_scratch_hw_bp t b =
     bindS (getB b) (\<lambda>bp.
       if bp_deleted bp \<or> bp_type bp \<noteq> BP_HW_SCRATCH then retS ()
       else
         seqS (assertS (bp_hw bp)) (seqS (assertS (bp_slot bp = HW_BP_SCRATCH_SLOT))
           (bindS (getT t) (\<lambda>tk. if tk_hw_bp tk ! bp_slot bp \<noteq> Some b then enable_hw_bp t b else retS ()))))"

definition disable_scratch_hw_bp :: "nat \<Rightarrow> nat \<Rightarrow> unit top" where
  "disable_scratch_hw_bp t b =
     bindS (getB b) (\<lambda>bp.
       if bp_deleted bp \<or> bp_type bp \<noteq> BP_HW_SCRATCH then retS ()
       else seqS (assertS (bp_hw bp)) (seqS (assertS (bp_slot bp = HW_BP_SCRATCH_SLOT)) (disable_hw_bp t b)))"

definition remove_hw_scratch_bp_cb :: "nat \<Rightarrow> nat \<Rightarrow> unit top" where
  "remove_hw_scratch_bp_cb b t =
     bindS (getT t) (\<lambda>tk.
       if tk_hw_bp tk ! HW_BP_SCRATCH_SLOT = Some b then
         bindS (getB b) (\<lambda>bp. seqS (assertS (bp_slot bp = HW_BP_SCRATCH_SLOT)) (disable_hw_bp t b))
       else retS ())"

subsection \<open>Breakpoints of a process\<close>

text \<open>The table of the leader; a division by a size of zero ends the program.\<close>

definition with_table :: "nat \<Rightarrow> (nat dict \<Rightarrow> ('a \<times> nat dict) option) \<Rightarrow> 'a top" where
  "with_table leader f =
     bindS (getT leader) (\<lambda>l. case tk_breakpoints l of
       None \<Rightarrow> failS (Fault Segfault)
     | Some d \<Rightarrow> (case f d of
         None \<Rightarrow> failS (Fault DivisionFault)
       | Some (x, d) \<Rightarrow> seqS (updT leader (\<lambda>l. l\<lparr>tk_breakpoints := Some d\<rparr>)) (retS x)))"

definition new_breakpoint :: "trace_env \<Rightarrow> ulong \<Rightarrow> library_symbol option \<Rightarrow> bp_type \<Rightarrow> nat \<Rightarrow> breakpoint" where
  "new_breakpoint env addr libsym ty ext =
     \<lparr>bp_hwcnt = 0, bp_refcnt = 1, bp_hits = 0, bp_ext = ext mod 256, bp_type = ty, bp_enabled = False, bp_locked = False,
      bp_deleted = False, bp_sw = False, bp_hw = (ty = BP_HW_SCRATCH),
      bp_was_hw = (if ty = BP_HW_SCRATCH then te_junk env else False), bp_break_insn = False,
      bp_union = 0, bp_on_hit = NoHandler, bp_addr = addr, bp_libsym = libsym\<rparr>"

definition link_hw_bp :: "nat \<Rightarrow> nat \<Rightarrow> unit top" where
  "link_hw_bp leader b = updT leader (\<lambda>l. l\<lparr>tk_hw_bp_list := tk_hw_bp_list l @ [b], tk_hw_bp_num := tk_hw_bp_num l + 1\<rparr>)"

text \<open>When the address is taken already the new breakpoint is freed, though it stays in the list of the leader.\<close>

definition breakpoint_new_ext :: "trace_env \<Rightarrow> nat \<Rightarrow> ulong \<Rightarrow> library_symbol option \<Rightarrow> bp_type \<Rightarrow> nat \<Rightarrow> nat option top" where
  "breakpoint_new_ext env t addr libsym ty ext =
     bindS (getT t) (\<lambda>tk.
     let leader = tk_leader tk; ty = (if opt_nohwbp env then BP_SW else ty) in
     bindS (getS tr_next) (\<lambda>b.
     seqS (modS (\<lambda>s. s\<lparr>tr_next := Suc b, tr_bps := (tr_bps s)(b \<mapsto> new_breakpoint env addr libsym ty ext)\<rparr>))
     (seqS (whenS (wants_slot ty) (link_hw_bp leader b))
     (bindS (with_table leader (\<lambda>d. dict_add d addr b)) (\<lambda>r.
        if r < 0 then seqS (modS (\<lambda>s. s\<lparr>tr_bps := (tr_bps s)(b := None)\<rparr>)) (retS None)
        else retS (Some b))))))"

definition breakpoint_new :: "trace_env \<Rightarrow> nat \<Rightarrow> ulong \<Rightarrow> library_symbol option \<Rightarrow> bp_type \<Rightarrow> nat option top" where
  "breakpoint_new env t addr libsym ty = breakpoint_new_ext env t addr libsym ty 0"

definition breakpoint_enable :: "trace_env \<Rightarrow> nat \<Rightarrow> nat \<Rightarrow> unit top" where
  "breakpoint_enable env t b =
     bindS (getB b) (\<lambda>bp.
       if bp_deleted bp \<or> bp_enabled bp then retS ()
       else if bp_type bp = BP_HW_SCRATCH then updB b (\<lambda>bp. bp\<lparr>bp_enabled := True\<rparr>)
       else
         seqS (stop_threads env t)
         (bindS (if wants_slot (bp_type bp) then insert_hw_bp_slot t b else retS False) (\<lambda>done.
            if done then retS ()
            else seqS (updB b (\<lambda>bp. bp\<lparr>bp_hw := False\<rparr>)) (enable_sw_breakpoint t b))))"

definition breakpoint_disable :: "trace_env \<Rightarrow> nat \<Rightarrow> nat \<Rightarrow> unit top" where
  "breakpoint_disable env t b =
     bindS (getB b) (\<lambda>bp.
       if bp_deleted bp \<or> \<not> bp_enabled bp then retS ()
       else
         seqS (stop_threads env t)
         (bindS (getB b) (\<lambda>bp. bindS (getT t) (\<lambda>tk.
            if bp_hw bp then
              seqS (if bp_type bp \<noteq> BP_HW_SCRATCH then
                      seqS (assertS (bp_slot bp \<noteq> HW_BP_SCRATCH_SLOT))
                      (seqS (each_task (tk_leader tk) (\<lambda>t. disable_hw_bp t b)) (updB b (\<lambda>bp. bp\<lparr>bp_hw := False\<rparr>)))
                    else
                      seqS (assertS (bp_slot bp = HW_BP_SCRATCH_SLOT)) (each_task (tk_leader tk) (remove_hw_scratch_bp_cb b)))
                (updB b (\<lambda>bp. bp\<lparr>bp_enabled := False\<rparr>))
            else disable_sw_breakpoint t b))))"

definition breakpoint_insert :: "trace_env \<Rightarrow> nat \<Rightarrow> ulong \<Rightarrow> library_symbol option \<Rightarrow> bp_type \<Rightarrow> nat option top" where
  "breakpoint_insert env t addr libsym ty =
     (if addr = 0 then retS None
      else
        bindS (breakpoint_find t addr) (\<lambda>r.
        bindS (case r of None \<Rightarrow> breakpoint_new env t addr libsym ty | Some b \<Rightarrow> retS (Some b)) (\<lambda>r. case r of
          None \<Rightarrow> retS None
        | Some b \<Rightarrow> seqS (breakpoint_enable env t b) (retS (Some b)))))"

definition breakpoint_delete :: "trace_env \<Rightarrow> nat \<Rightarrow> nat \<Rightarrow> unit top" where
  "breakpoint_delete env t b =
     bindS (getT t) (\<lambda>tk. bindS (getB b) (\<lambda>bp.
       if bp_deleted bp then retS ()
       else
         seqS (breakpoint_disable env t b)
         (seqS (whenS (wants_slot (bp_type bp))
                  (updT (tk_leader tk) (\<lambda>l. l\<lparr>tk_hw_bp_list := filter (\<lambda>c. c \<noteq> b) (tk_hw_bp_list l), tk_hw_bp_num := tk_hw_bp_num l - 1\<rparr>)))
         (bindS (with_table (tk_leader tk) (\<lambda>d. dict_remove_entry d (bp_addr bp))) (\<lambda>_.
          seqS (updB b (\<lambda>bp. bp\<lparr>bp_deleted := True, bp_libsym := None\<rparr>))
            (bindS (breakpoint_put (Some b)) (\<lambda>_. retS ())))))))"

text \<open>A callback for every entry of the table; the table may change under the loop by the removal of the entry.\<close>

definition each_bp :: "nat dict \<Rightarrow> (nat \<Rightarrow> int top) \<Rightarrow> int top" where
  "each_bp d cb s =
     (case dict_apply_to_all d (\<lambda>_ b (_, s). case cb b s of (Inl e, s) \<Rightarrow> (1, Some e, s) | (Inr r, s) \<Rightarrow> (r, None, s)) (None, s) of
        (_, Some e, s) \<Rightarrow> (Inl e, s)
      | (r, None, s) \<Rightarrow> (Inr r, s))"

definition all_bps :: "nat \<Rightarrow> (nat \<Rightarrow> unit top) \<Rightarrow> unit top" where
  "all_bps leader cb =
     bindS (getT leader) (\<lambda>l. case tk_breakpoints l of
       None \<Rightarrow> retS ()
     | Some d \<Rightarrow> bindS (each_bp d (\<lambda>b. seqS (cb b) (retS 0))) (\<lambda>_. retS ()))"

definition enable_nonlocked_bp_cb :: "trace_env \<Rightarrow> nat \<Rightarrow> nat \<Rightarrow> unit top" where
  "enable_nonlocked_bp_cb env leader b = bindS (getB b) (\<lambda>bp. whenS (\<not> bp_locked bp) (breakpoint_enable env leader b))"

definition disable_nonlocked_bp_cb :: "trace_env \<Rightarrow> nat \<Rightarrow> nat \<Rightarrow> unit top" where
  "disable_nonlocked_bp_cb env leader b = bindS (getB b) (\<lambda>bp. whenS (\<not> bp_locked bp) (breakpoint_disable env leader b))"

definition breakpoint_enable_all_nonlocked :: "trace_env \<Rightarrow> nat \<Rightarrow> unit top" where
  "breakpoint_enable_all_nonlocked env leader = all_bps leader (enable_nonlocked_bp_cb env leader)"

definition breakpoint_disable_all_nonlocked :: "trace_env \<Rightarrow> nat \<Rightarrow> unit top" where
  "breakpoint_disable_all_nonlocked env leader = all_bps leader (disable_nonlocked_bp_cb env leader)"

definition breakpoint_enable_all :: "trace_env \<Rightarrow> nat \<Rightarrow> unit top" where
  "breakpoint_enable_all env leader = all_bps leader (breakpoint_enable env leader)"

definition breakpoint_disable_all :: "trace_env \<Rightarrow> nat \<Rightarrow> unit top" where
  "breakpoint_disable_all env leader = all_bps leader (breakpoint_disable env leader)"

definition breakpoint_invalidate_all :: "nat \<Rightarrow> unit top" where
  "breakpoint_invalidate_all leader =
     all_bps leader (\<lambda>b. updB b (\<lambda>bp. bp\<lparr>bp_enabled := False, bp_sw := False, bp_hw := False\<rparr>))"

definition breakpoint_clear_all :: "trace_env \<Rightarrow> nat \<Rightarrow> unit top" where
  "breakpoint_clear_all env leader =
     bindS (getT leader) (\<lambda>l. case tk_breakpoints l of
       None \<Rightarrow> retS ()
     | Some _ \<Rightarrow>
         seqS (all_bps leader (breakpoint_delete env leader))
         (bindS (getT leader) (\<lambda>l.
          seqS (assertS (tk_hw_bp_num l = 0)) (updT leader (\<lambda>l. l\<lparr>tk_breakpoints := None\<rparr>)))))"

subsection \<open>A new process\<close>

text \<open>Some bits of the copy are not set: \<open>was_hw\<close> and \<open>break_insn\<close>.\<close>

definition clone_of :: "trace_env \<Rightarrow> breakpoint \<Rightarrow> breakpoint" where
  "clone_of env bp =
     \<lparr>bp_hwcnt = 0, bp_refcnt = 1, bp_hits = 0, bp_ext = bp_ext bp, bp_type = bp_type bp, bp_enabled = bp_enabled bp,
      bp_locked = bp_locked bp, bp_deleted = False, bp_sw = bp_sw bp, bp_hw = bp_hw bp, bp_was_hw = te_junk env,
      bp_break_insn = te_junk env, bp_union = (if bp_hw bp then bp_union bp else if bp_sw bp then ucast (bp_orig_value bp) else 0),
      bp_on_hit = bp_on_hit bp, bp_addr = bp_addr bp, bp_libsym = bp_libsym bp\<rparr>"

definition clone_single_cb :: "trace_env \<Rightarrow> nat \<Rightarrow> nat \<Rightarrow> int top" where
  "clone_single_cb env nt b =
     bindS (getB b) (\<lambda>bp.
       if bp_deleted bp then retS 0
       else
         seqS (assertS (bp_type bp = BP_HW_SCRATCH \<longrightarrow> bp_slot bp = HW_BP_SCRATCH_SLOT))
         (if bp_type bp = BP_HW_SCRATCH \<and> bp_hw bp then retS 0
          else
            bindS (getS tr_next) (\<lambda>c.
            let new_bp = clone_of env bp; slot = bp_slot bp in
            seqS (modS (\<lambda>s. s\<lparr>tr_next := Suc c, tr_bps := (tr_bps s)(c \<mapsto> new_bp)\<rparr>))
            (seqS (whenS (wants_slot (bp_type bp)) (link_hw_bp nt c))
            (seqS (whenS (bp_hw bp)
                     (seqS (assertS (slot \<noteq> HW_BP_SCRATCH_SLOT))
                     (in_slot bp
                     (seqS (updT nt (\<lambda>tk. tk\<lparr>tk_hw_bp := (tk_hw_bp tk)[slot := Some c]\<rparr>))
                       (whenS (bp_enabled bp) (bindS (set_hw_bp nt slot (bp_addr bp)) fatalS))))))
            (bindS (with_table nt (\<lambda>d. dict_add d (bp_addr bp) c)) (\<lambda>r.
               if r < 0 then seqS (modS (\<lambda>s. s\<lparr>tr_bps := (tr_bps s)(c := None)\<rparr>)) (retS (-1)) else retS 0)))))))"

definition breakpoint_clone_all :: "trace_env \<Rightarrow> nat \<Rightarrow> nat \<Rightarrow> int top" where
  "breakpoint_clone_all env clone leader =
     bindS (getT leader) (\<lambda>l. case tk_breakpoints l of
       None \<Rightarrow> failS (Fault Segfault)
     | Some d \<Rightarrow> each_bp d (clone_single_cb env clone))"

end
