(* ===== verification/Tasks.thy ===== *)
theory Tasks
  imports Breakpoint
begin

text \<open>
  The life of a task: libraries and their breakpoints (\<open>library.c\<close>), attach, fork, clone, exec and the end of a task
  (\<open>task.c\<close>, \<open>backtrace.h\<close>), and the step over a breakpoint (\<open>trace.c\<close>). The result -1 is \<open>False\<close>.
\<close>

subsection \<open>Messages\<close>

text \<open>
  The operations of \<open>report.c\<close> run on what they use of a task and its leader; the memory is read word by word, as on a
  kernel without \<open>process_vm_readv\<close>.
\<close>

definition report_env_of :: "trace_env \<Rightarrow> tracer \<Rightarrow> task \<Rightarrow> task \<Rightarrow> report_env" where
  "report_env_of env s tk l =
     (te_report env)\<lparr>rp_mem := \<lparr>local_mem = te_local env, traced_proc = traced_of s (tk_pid l) tk\<rparr>, rp_libs := tk_libs l,
                    rp_connected := tr_connected s, opt_bt_depth := tr_bt_depth s\<rparr>"

definition report_state_of :: "trace_env \<Rightarrow> task \<Rightarrow> task \<Rightarrow> report_state" where
  "report_state_of env tk l =
     \<lparr>rp_task = \<lparr>rt_pid = tk_pid tk, rt_leader_pid = tk_pid l, rt_regs = tk_regs tk, rt_in_realloc = tk_in_realloc tk,
                rt_bp_skipped = tk_bp_skipped tk,
                rt_backtrace = (case tk_backtrace l of Some as \<Rightarrow> as | None \<Rightarrow> dwarf_init (task_is_64bit (tk_regs l)) (te_locs env))\<rparr>,
      rp_effects = []\<rparr>"

definition sent_of :: "report_effect list \<Rightarrow> bytes list" where
  "sent_of effs = concat (map (\<lambda>e. case e of Sent bs \<Rightarrow> [bs] | SkippedBreakpoint \<Rightarrow> []) effs)"

text \<open>A message about a task that does not unwind; the result tells whether a client is connected.\<close>

definition tellS :: "trace_env \<Rightarrow> nat \<Rightarrow> (report_env \<Rightarrow> told) \<Rightarrow> bool top" where
  "tellS env t m =
     bindS (getT t) (\<lambda>tk. bindS (getT (tk_leader tk)) (\<lambda>l.
     bindS (getS (\<lambda>s. m (report_env_of env s tk l) (report_state_of env tk l))) (\<lambda>(r, rs). case r of
       Inl e \<Rightarrow> failS e
     | Inr x \<Rightarrow> seqS (modS (\<lambda>s. s\<lparr>tr_sent := tr_sent s @ sent_of (rp_effects rs)\<rparr>)) (retS x))))"

subsection \<open>Libraries\<close>

fun delete_symbols :: "trace_env \<Rightarrow> nat \<Rightarrow> library_symbol list \<Rightarrow> unit top" where
  "delete_symbols env leader [] = retS ()"
| "delete_symbols env leader (sy # sys) =
     bindS (breakpoint_find leader (ls_addr sy)) (\<lambda>r.
       seqS (case r of None \<Rightarrow> retS () | Some b \<Rightarrow> breakpoint_delete env leader b) (delete_symbols env leader sys))"

definition library_delete :: "trace_env \<Rightarrow> nat \<Rightarrow> library \<Rightarrow> unit top" where
  "library_delete env leader lib =
     seqS (delete_symbols env leader (sym_list (lib_ref lib)))
     (bindS (getT leader) (\<lambda>l. bindS (getS (\<lambda>s. library_unlink lib (tk_libs l) (tr_refs s))) (\<lambda>r. case r of
        Inl e \<Rightarrow> failS e
      | Inr (libs, refs) \<Rightarrow>
          seqS (updT leader (\<lambda>l. l\<lparr>tk_libs := libs\<rparr>)) (modS (\<lambda>s. s\<lparr>tr_refs := refs\<rparr>)))))"

fun library_delete_list :: "trace_env \<Rightarrow> nat \<Rightarrow> library list \<Rightarrow> unit top" where
  "library_delete_list env leader [] = retS ()"
| "library_delete_list env leader (lib # libs) = seqS (library_delete env leader lib) (library_delete_list env leader libs)"

definition library_clear_all :: "trace_env \<Rightarrow> nat \<Rightarrow> unit top" where
  "library_clear_all env leader = bindS (getT leader) (\<lambda>l. library_delete_list env leader (libraries_list (tk_libs l)))"

text \<open>When no breakpoint could be made the null pointer is enabled.\<close>

definition cb_breakpoint_for_symbol :: "trace_env \<Rightarrow> nat \<Rightarrow> library_symbol \<Rightarrow> unit top" where
  "cb_breakpoint_for_symbol env t libsym =
     bindS (breakpoint_find t (ls_addr libsym)) (\<lambda>r. case r of
       Some b \<Rightarrow>
         bindS (getB b) (\<lambda>bp. seqS (assertS (bp_libsym bp = None)) (updB b (\<lambda>bp. bp\<lparr>bp_libsym := Some libsym\<rparr>)))
     | None \<Rightarrow>
         bindS (breakpoint_new env t (ls_addr libsym) (Some libsym) BP_AUTO) (\<lambda>r.
         bindS (getS tr_connected) (\<lambda>c.
           if \<not> c then retS ()
           else case r of None \<Rightarrow> failS (Fault Segfault) | Some b \<Rightarrow> breakpoint_enable env t b)))"

fun library_each_symbol :: "(library_symbol \<Rightarrow> unit top) \<Rightarrow> library_symbol list \<Rightarrow> unit top" where
  "library_each_symbol cb [] = retS ()"
| "library_each_symbol cb (sy # sys) = seqS (cb sy) (library_each_symbol cb sys)"

definition library_add :: "trace_env \<Rightarrow> nat \<Rightarrow> libref \<Rightarrow> unit top" where
  "library_add env leader lr =
     bindS (getT leader) (\<lambda>l.
     seqS (assertS (tk_leader l = leader))
     (bindS (getS (\<lambda>s. library_add_ref (tk_libs l) lr (tr_refs s))) (\<lambda>r. case r of
        Inl e \<Rightarrow> failS e
      | Inr (libs, refs) \<Rightarrow>
          seqS (updT leader (\<lambda>l. l\<lparr>tk_libs := libs\<rparr>))
          (seqS (modS (\<lambda>s. s\<lparr>tr_refs := refs\<rparr>))
          (seqS (library_each_symbol (cb_breakpoint_for_symbol env leader) (sym_list lr))
            (bindS (tellS env leader (\<lambda>re. report_add_map re (last (libraries_list libs)))) (\<lambda>_. retS ())))))))"

subsection \<open>The unwinder of a process\<close>

text \<open>The result of \<open>backtrace_init\<close> is zero or one, which no caller takes for an error.\<close>

definition backtrace_init :: "trace_env \<Rightarrow> nat \<Rightarrow> unit top" where
  "backtrace_init env t =
     bindS (getT t) (\<lambda>tk.
     seqS (assertS (tk_leader tk = t)) (seqS (assertS (tk_backtrace tk = None))
       (updT t (\<lambda>tk. tk\<lparr>tk_backtrace := Some (dwarf_init (task_is_64bit (tk_regs tk)) (te_locs env))\<rparr>))))"

definition backtrace_destroy :: "nat \<Rightarrow> unit top" where
  "backtrace_destroy t =
     bindS (getT t) (\<lambda>tk. seqS (assertS (tk_leader tk = t)) (updT t (\<lambda>tk. tk\<lparr>tk_backtrace := None\<rparr>)))"

subsection \<open>The end of a task\<close>

definition free_task :: "nat \<Rightarrow> unit top" where
  "free_task t = modS (\<lambda>s. s\<lparr>tr_tasks := (tr_tasks s)(t := None)\<rparr>)"

text \<open>The task is freed as it is, also from the lists that hold it.\<close>

definition delete_task :: "trace_env \<Rightarrow> nat \<Rightarrow> unit top" where
  "delete_task env t =
     seqS (arch_task_destroy t) (seqS (delete_pid t) (seqS (breakpoint_clear_all env t) (free_task t)))"

definition leader_setup :: "trace_env \<Rightarrow> nat \<Rightarrow> bool \<Rightarrow> bool top" where
  "leader_setup env leader was_attached =
     bindS (te_elf_read_main_binary env leader was_attached) (\<lambda>ok.
       if \<not> ok then retS False else seqS (backtrace_init env leader) (retS True))"

definition leader_cleanup :: "trace_env \<Rightarrow> nat \<Rightarrow> unit top" where
  "leader_cleanup env leader =
     seqS (library_clear_all env leader)
     (seqS (breakpoint_clear_all env leader)
     (seqS (backtrace_destroy leader) (modS (\<lambda>s. s\<lparr>tr_leaders := filter (\<lambda>l. l \<noteq> leader) (tr_leaders s)\<rparr>))))"

definition task_destroy :: "trace_env \<Rightarrow> nat \<Rightarrow> unit top" where
  "task_destroy env t =
     bindS (getT t) (\<lambda>tk.
     let leader = tk_leader tk in
     if tk_deleted tk then retS ()
     else
       seqS (updT t (\<lambda>tk. tk\<lparr>tk_deleted := True\<rparr>))
       (seqS (stop_task env t)
       (seqS (whenS (leader \<noteq> t) (updT leader (\<lambda>l. l\<lparr>tk_task_list := filter (\<lambda>u. u \<noteq> t) (tk_task_list l)\<rparr>)))
       (seqS (updT leader (\<lambda>l. l\<lparr>tk_threads := tk_threads l - 1, tk_threads_stopped := tk_threads_stopped l - 1\<rparr>))
       (seqS (bindS (getT t) (\<lambda>tk.
                if tk_event tk = EVENT_BREAKPOINT then bindS (breakpoint_put (tk_ev_bp tk)) (\<lambda>_. retS ()) else retS ()))
       (seqS (arch_task_destroy t)
       (seqS (task_reset_bp t)
       (seqS (breakpoint_hw_destroy env t)
       (seqS (delete_pid t)
       (bindS (getT leader) (\<lambda>l.
        seqS (whenS (tk_threads l = 0) (leader_cleanup env leader))
        (bindS (untrace_task t) (\<lambda>_.
         seqS (remove_event t)
         (seqS (whenS (leader \<noteq> t) (free_task t)) (whenS (tk_threads l = 0) (free_task leader))))))))))))))))"

definition remove_task :: "trace_env \<Rightarrow> nat \<Rightarrow> unit top" where
  "remove_task env t = task_destroy env t"

definition remove_task_cb :: "trace_env \<Rightarrow> nat \<Rightarrow> nat \<Rightarrow> unit top" where
  "remove_task_cb env leader t = (if t \<noteq> leader then task_destroy env t else retS ())"

definition assert_leader :: "nat \<Rightarrow> unit top" where
  "assert_leader t = bindS (getT t) (\<lambda>tk. assertS (tk_leader tk = t))"

definition assert_single :: "nat \<Rightarrow> unit top" where
  "assert_single t = bindS (getT t) (\<lambda>tk. assertS (tk_threads tk = 1))"

definition remove_proc :: "trace_env \<Rightarrow> nat \<Rightarrow> unit top" where
  "remove_proc env leader =
     seqS (assert_leader leader)
     (seqS (stop_threads env leader)
     (seqS (breakpoint_disable_all env leader)
     (seqS (each_task leader (remove_task_cb env leader))
     (seqS (assert_single leader) (task_destroy env leader)))))"

definition untrace_proc :: "trace_env \<Rightarrow> nat \<Rightarrow> unit top" where
  "untrace_proc env leader =
     seqS (assert_leader leader) (seqS (breakpoint_invalidate_all leader) (remove_proc env leader))"

subsection \<open>Exec, clone and fork\<close>

definition process_exec :: "trace_env \<Rightarrow> nat \<Rightarrow> bool top" where
  "process_exec env t =
     bindS (getT t) (\<lambda>tk.
     let leader = tk_leader tk; fail = seqS (task_destroy env leader) (retS False) in
     seqS (breakpoint_invalidate_all leader)
     (seqS (each_task leader (remove_task_cb env leader))
     (seqS (assert_single leader)
     (seqS (arch_task_destroy leader)
     (seqS (leader_cleanup env leader)
     (bindS (task_init env leader) (\<lambda>ok.
        if \<not> ok then fail
        else
          seqS (assert_leader leader) (seqS (assert_single leader)
          (bindS (getT leader) (\<lambda>l.
           seqS (assertS (tk_threads_stopped l = 1))
             (bindS (leader_setup env leader False) (\<lambda>ok. if \<not> ok then fail else retS True))))))))))))"

definition set_64bit :: "bool \<Rightarrow> task \<Rightarrow> task" where
  "set_64bit is64 tk = tk\<lparr>tk_regs := (tk_regs tk)\<lparr>task_is_64bit := is64\<rparr>\<rparr>"

definition task_clone :: "nat \<Rightarrow> nat \<Rightarrow> unit top" where
  "task_clone t nt =
     bindS (getT t) (\<lambda>tk. bindS (getT nt) (\<lambda>ntk.
     seqS (assertS (tk_attached ntk)) (seqS (assertS (tk_leader ntk \<noteq> nt)) (seqS (assertS (tk_backtrace ntk = None))
     (seqS (updT nt (set_64bit (task_is_64bit (tk_regs tk)))) (breakpoint_hw_clone nt))))))"

text \<open>
  The addresses of the breakpoints are read from the new task, whose pointers are null, not from the task that forked.
\<close>

definition fork_bp :: "nat option \<Rightarrow> nat \<Rightarrow> nat option \<Rightarrow> nat option top" where
  "fork_bp old nt own =
     (if old = None then retS None
      else case own of
        None \<Rightarrow> failS (Fault Segfault)
      | Some b \<Rightarrow> bindS (getB b) (\<lambda>bp. breakpoint_find nt (bp_addr bp)))"

definition task_fork :: "trace_env \<Rightarrow> nat \<Rightarrow> nat \<Rightarrow> bool top" where
  "task_fork env t nt =
     bindS (getT t) (\<lambda>tk. bindS (getT nt) (\<lambda>ntk.
     let leader = tk_leader tk in
     seqS (assertS (tk_leader ntk = nt)) (seqS (assertS (tk_attached ntk)) (seqS (assertS (tk_backtrace ntk = None))
     (seqS (updT nt (set_64bit (task_is_64bit (tk_regs tk))))
     (seqS (backtrace_init env nt)
     (bindS (getT leader) (\<lambda>l. bindS (getT nt) (\<lambda>ntk.
      bindS (getS (\<lambda>s. library_clone_all (tk_libs ntk) (tk_libs l) (tr_refs s))) (\<lambda>r. case r of
        Inl e \<Rightarrow> failS e
      | Inr (libs, refs) \<Rightarrow>
          seqS (updT nt (\<lambda>tk. tk\<lparr>tk_libs := libs\<rparr>))
          (seqS (modS (\<lambda>s. s\<lparr>tr_refs := refs\<rparr>))
          (bindS (breakpoint_clone_all env nt leader) (\<lambda>ret.
             if ret \<noteq> 0 then seqS (task_destroy env nt) (retS False)
             else
               seqS (updT nt (\<lambda>n. n\<lparr>tk_libsym := tk_libsym tk, tk_regs := (tk_regs n)\<lparr>cx_iregs := cx_iregs (tk_regs tk)\<rparr>,
                                   tk_attached := tk_attached tk\<rparr>))
               (bindS (getT nt) (\<lambda>ntk.
                bindS (fork_bp (tk_breakpoint tk) nt (tk_breakpoint ntk)) (\<lambda>b.
                seqS (updT nt (\<lambda>n. n\<lparr>tk_breakpoint := b\<rparr>))
                (bindS (case tk_skip_bp tk of
                          None \<Rightarrow> retS None
                        | Some sb \<Rightarrow> bindS (getB sb) (\<lambda>bp.
                            if bp_deleted bp then retS None
                            else bindS (fork_bp (Some sb) nt (tk_skip_bp ntk)) breakpoint_get)) (\<lambda>sb.
                 seqS (updT nt (\<lambda>n. n\<lparr>tk_skip_bp := sb, tk_debug_addr := tk_debug_addr l, tk_debug_state := tk_debug_state l\<rparr>))
                   (retS True)))))))))))))))))))"

subsection \<open>Attach\<close>

text \<open>\<open>allowed\<close> is whether the kernel lets the tracer attach to a thread.\<close>

definition open_one_pid :: "trace_env \<Rightarrow> (u32 \<Rightarrow> bool) \<Rightarrow> u32 \<Rightarrow> nat option top" where
  "open_one_pid env allowed pid =
     bindS (task_new env pid) (\<lambda>r. case r of
       None \<Rightarrow> retS None
     | Some t \<Rightarrow>
         bindS (trace_attach (allowed pid) t) (\<lambda>ok.
         bindS (if ok then trace_set_options t else retS False) (\<lambda>ok.
           if ok then seqS (queue_event t) (retS (Some t))
           else seqS (delete_task env t) (seqS (os_do (Kill pid SIGCONT)) (retS None)))))"

fun open_tasks :: "trace_env \<Rightarrow> (u32 \<Rightarrow> bool) \<Rightarrow> u32 list \<Rightarrow> bool \<Rightarrow> bool top" where
  "open_tasks env allowed [] have_all = retS have_all"
| "open_tasks env allowed (pid # pids) have_all =
     bindS (pid2task pid) (\<lambda>r. case r of
       Some _ \<Rightarrow> open_tasks env allowed pids have_all
     | None \<Rightarrow> bindS (open_one_pid env allowed pid) (\<lambda>_. open_tasks env allowed pids False))"

text \<open>The rounds over the threads of the process; the list holds what \<open>process_tasks\<close> answers in each round.\<close>

fun open_rounds :: "trace_env \<Rightarrow> (u32 \<Rightarrow> bool) \<Rightarrow> u32 list option list \<Rightarrow> nat \<Rightarrow> bool top" where
  "open_rounds env allowed [] old_ntasks = failS (Fault NoReturn)"
| "open_rounds env allowed (None # rs) old_ntasks = retS False"
| "open_rounds env allowed (Some tasks # rs) old_ntasks =
     bindS (open_tasks env allowed tasks True) (\<lambda>have_all.
       if have_all \<and> old_ntasks = length tasks then retS True
       else open_rounds env allowed rs (length tasks))"

definition open_pid :: "trace_env \<Rightarrow> (u32 \<Rightarrow> bool) \<Rightarrow> u32 list option list \<Rightarrow> u32 \<Rightarrow> unit top" where
  "open_pid env allowed rounds pid =
     bindS (pid2task pid) (\<lambda>r.
       if r \<noteq> None then retS ()
       else
         bindS (open_one_pid env allowed pid) (\<lambda>r. case r of
           None \<Rightarrow> retS ()
         | Some leader \<Rightarrow>
             bindS (open_rounds env allowed rounds 0) (\<lambda>ok.
             bindS (if ok then leader_setup env leader True else retS False) (\<lambda>ok.
               if \<not> ok then remove_proc env leader
               else
                 bindS (getT leader) (\<lambda>l.
                 each_loop (tk_task_list l) (\<lambda>t. bindS (getT t) (\<lambda>tk.
                   seqS (assertS (tk_leader tk = leader)) (updT t (set_64bit (task_is_64bit (tk_regs l)))))))))))"

definition each_process :: "(nat \<Rightarrow> unit top) \<Rightarrow> unit top" where
  "each_process cb = bindS (getS tr_leaders) (\<lambda>ls. each_loop (rev ls) cb)"

text \<open>The tasks of a bucket are copied before the callbacks run.\<close>

definition each_pid :: "(nat \<Rightarrow> unit top) \<Rightarrow> unit top" where
  "each_pid cb =
     each_loop [0..<PID_HASH_SIZE] (\<lambda>i.
       bindS (getS (\<lambda>s. tr_pid_hash s ! i)) (\<lambda>entry. case entry of
         None \<Rightarrow> retS ()
       | Some e \<Rightarrow> each_loop (pe_tasks e) cb))"

definition task_list_empty :: "bool top" where
  "task_list_empty = getS (\<lambda>s. tr_leaders s = [])"

subsection \<open>Stepping over a breakpoint\<close>

definition skip_breakpoint :: "trace_env \<Rightarrow> nat \<Rightarrow> nat \<Rightarrow> int top" where
  "skip_breakpoint env t b =
     bindS (getT t) (\<lambda>tk. bindS (getB b) (\<lambda>bp.
     seqS (assertS (tk_event tk = EVENT_BREAKPOINT)) (seqS (assertS (tk_stopped tk)) (seqS (assertS (tk_skip_bp tk = None))
     (bindS (if bp_sw bp \<and> bp_enabled bp then
               seqS (breakpoint_disable env t b)
               (bindS (do_singlestep env t b) (\<lambda>ret. seqS (breakpoint_enable env t b) (retS ret)))
             else retS 0) (\<lambda>ret.
        if ret \<noteq> 0 then
          bindS (breakpoint_get (Some b)) (\<lambda>r. seqS (updT t (\<lambda>tk. tk\<lparr>tk_skip_bp := r\<rparr>)) (retS ret))
        else bindS (continue_task t 0) (\<lambda>_. retS 0)))))))"

definition fix_about_exit :: "nat \<Rightarrow> unit top" where
  "fix_about_exit t =
     bindS (getT t) (\<lambda>tk.
       if tk_about_exit tk then
         seqS (updT t (\<lambda>tk. tk\<lparr>tk_about_exit := False\<rparr>)) (bindS (continue_task t 0) (\<lambda>_. retS ()))
       else retS ())"

definition detach_proc :: "trace_env \<Rightarrow> nat \<Rightarrow> unit top" where
  "detach_proc env leader =
     seqS (assert_leader leader) (seqS (breakpoint_disable_all env leader) (each_task leader (remove_task env)))"

end
