(* ===== verification/Events.thy ===== *)
theory Events
  imports Tasks
begin

text \<open>
  The events of the traced threads (\<open>event.c\<close>): signals, children, exec, exit, and the breakpoints at which the calls
  are reported. The handlers of breakpoints that the dynamic loader needs are a parameter.
\<close>

definition RET_DELETED :: int where "RET_DELETED = 1"
definition RET_DEFERED :: int where "RET_DEFERED = 2"

definition ret_of :: "bool \<Rightarrow> int" where
  "ret_of ok = (if ok then 0 else -1)"

subsection \<open>Reports of calls\<close>

fun do_effects :: "trace_env \<Rightarrow> nat \<Rightarrow> report_effect list \<Rightarrow> unit top" where
  "do_effects env t [] = retS ()"
| "do_effects env t (Sent bs # effs) =
     seqS (modS (\<lambda>s. s\<lparr>tr_sent := tr_sent s @ [bs]\<rparr>)) (do_effects env t effs)"
| "do_effects env t (SkippedBreakpoint # effs) =
     bindS (getT t) (\<lambda>tk. case tk_ev_bp tk of
       None \<Rightarrow> failS (Fault Segfault)
     | Some b \<Rightarrow> bindS (skip_breakpoint env t b) (\<lambda>_. do_effects env t effs))"

text \<open>A report of a call runs on the registers and the unwinder of the task; what it did is done in order.\<close>

definition reportS :: "trace_env \<Rightarrow> nat \<Rightarrow> reporter \<Rightarrow> library_symbol \<Rightarrow> unit top" where
  "reportS env t rep libsym =
     bindS (getT t) (\<lambda>tk. bindS (getT (tk_leader tk)) (\<lambda>l.
     seqS (assertS (tk_backtrace l \<noteq> None))
     (bindS (getS (\<lambda>s. rep (report_env_of env s tk l) libsym (report_state_of env tk l))) (\<lambda>(r, rs). case r of
        Inl e \<Rightarrow> failS e
      | Inr _ \<Rightarrow>
          seqS (updT t (\<lambda>tk. tk\<lparr>tk_in_realloc := rt_in_realloc (rp_task rs), tk_bp_skipped := rt_bp_skipped (rp_task rs)\<rparr>))
          (seqS (updT (tk_leader tk) (\<lambda>l. l\<lparr>tk_backtrace := Some (rt_backtrace (rp_task rs))\<rparr>))
            (do_effects env t (rp_effects rs)))))))"

text \<open>The entry of the table of functions that a symbol points to.\<close>

definition symbol_func :: "trace_env \<Rightarrow> library_symbol \<Rightarrow> fn_entry top" where
  "symbol_func env libsym =
     (case flist_matches_symbol (te_report env) (ls_func libsym) of
        None \<Rightarrow> failS (Fault Segfault) | Some f \<Rightarrow> retS f)"

definition opt_reportS :: "trace_env \<Rightarrow> nat \<Rightarrow> reporter option \<Rightarrow> library_symbol \<Rightarrow> unit top" where
  "opt_reportS env t rep libsym = (case rep of None \<Rightarrow> retS () | Some r \<Rightarrow> reportS env t r libsym)"

subsection \<open>Handlers\<close>

definition do_clone :: "trace_env \<Rightarrow> nat \<Rightarrow> nat \<Rightarrow> int top" where
  "do_clone env t nt =
     bindS (getT t) (\<lambda>tk. bindS (getT nt) (\<lambda>ntk.
     seqS (assertS (tk_stopped tk)) (seqS (assertS (tk_stopped ntk)) (seqS (assertS (tk_is_new ntk))
     (let run = seqS (updT nt (\<lambda>n. n\<lparr>tk_is_new := False\<rparr>)) (bindS (continue_task nt 0) (\<lambda>ok. retS (ret_of ok))) in
      if tk_leader ntk = nt then
        bindS (task_fork env t nt) (\<lambda>ok.
          if \<not> ok then retS (-1)
          else if \<not> opt_follow env then seqS (remove_proc env nt) (retS RET_DELETED)
          else
            bindS (getT (tk_leader tk)) (\<lambda>l. bindS (tellS env nt (\<lambda>re. report_fork re (tk_pid l))) (\<lambda>_. run)))
      else seqS (task_clone t nt) run)))))"

definition do_clone_cb :: "trace_env \<Rightarrow> nat \<Rightarrow> nat \<Rightarrow> int top" where
  "do_clone_cb env nt t = bindS (do_clone env t nt) (\<lambda>ret. bindS (continue_task t 0) (\<lambda>_. retS ret))"

definition handle_child :: "trace_env \<Rightarrow> nat \<Rightarrow> int top" where
  "handle_child env t =
     bindS (getT t) (\<lambda>tk.
     bindS (pid2task (of_nat (tk_ev_num tk))) (\<lambda>r. case r of
       None \<Rightarrow> failS (Fault AssertionFailed)
     | Some nt \<Rightarrow>
         bindS (getT nt) (\<lambda>ntk.
           if \<not> tk_stopped ntk then seqS (updT nt (\<lambda>n. n\<lparr>tk_defer := Some t\<rparr>)) (retS RET_DEFERED)
           else bindS (do_clone env t nt) (\<lambda>_. bindS (continue_task t 0) (\<lambda>ok. retS (ret_of ok))))))"

definition handle_signal :: "nat \<Rightarrow> int top" where
  "handle_signal t = bindS (getT t) (\<lambda>tk. bindS (continue_task t (tk_ev_num tk)) (\<lambda>ok. retS (ret_of ok)))"

definition handle_new :: "nat \<Rightarrow> int top" where
  "handle_new t =
     bindS (getT t) (\<lambda>tk.
     seqS (assertS (tk_is_new tk))
     (seqS (updT t (\<lambda>tk. tk\<lparr>tk_is_new := False\<rparr>)) (bindS (continue_task t (tk_ev_num tk)) (\<lambda>ok. retS (ret_of ok)))))"

text \<open>A process that is about to end waits for the client, which may scan it for leaks.\<close>

definition handle_about_exit :: "trace_env \<Rightarrow> nat \<Rightarrow> int top" where
  "handle_about_exit env t =
     bindS (getT t) (\<lambda>tk.
     bindS (if tk_leader tk = t \<and> \<not> opt_logfile env then tellS env t report_about_exit else retS False) (\<lambda>told.
       if told then seqS (updT t (\<lambda>tk. tk\<lparr>tk_about_exit := True\<rparr>)) (retS 0)
       else bindS (continue_task t 0) (\<lambda>ok. retS (ret_of ok))))"

text \<open>\<open>handle_exit\<close> and \<open>handle_exit_signal\<close> differ in what they print.\<close>

definition handle_exit :: "trace_env \<Rightarrow> nat \<Rightarrow> int top" where
  "handle_exit env t =
     bindS (getT t) (\<lambda>tk.
     seqS (if tk_leader tk = t then bindS (tellS env t report_exit) (\<lambda>_. untrace_proc env t) else remove_task env t)
       (retS RET_DELETED))"

definition handle_exec :: "trace_env \<Rightarrow> nat \<Rightarrow> int top" where
  "handle_exec env t =
     (if \<not> opt_follow_exec env then
        bindS (tellS env t report_nofollow) (\<lambda>_. seqS (untrace_proc env t) (retS RET_DELETED))
      else
        bindS (process_exec env t) (\<lambda>ok.
          if \<not> ok then seqS (untrace_proc env t) (retS RET_DELETED)
          else bindS (continue_task t 0) (\<lambda>ok. retS (ret_of ok))))"

definition handle_call_after :: "trace_env \<Rightarrow> nat \<Rightarrow> nat \<Rightarrow> bool top" where
  "handle_call_after env t b =
     bindS (getT t) (\<lambda>tk.
       if tk_breakpoint tk = None then retS False
       else
         seqS (disable_scratch_hw_bp t b)
         (case tk_libsym tk of
            None \<Rightarrow> failS (Fault Segfault)
          | Some libsym \<Rightarrow>
              bindS (symbol_func env libsym) (\<lambda>f.
              seqS (opt_reportS env t (fn_report_out f) libsym)
              (seqS (updT t (\<lambda>tk. tk\<lparr>tk_breakpoint := None, tk_libsym := None\<rparr>)) (retS False)))))"

definition on_hit :: "trace_env \<Rightarrow> nat \<Rightarrow> nat \<Rightarrow> bool top" where
  "on_hit env t b =
     bindS (getB b) (\<lambda>bp. case bp_on_hit bp of
       NoHandler \<Rightarrow> retS False
     | HandleCallAfter \<Rightarrow> handle_call_after env t b
     | h \<Rightarrow> te_on_hit env h t b)"

definition return_addr :: "nat \<Rightarrow> ulong top" where
  "return_addr t =
     bindS (getT t) (\<lambda>tk. bindS (getT (tk_leader tk)) (\<lambda>l.
       getS (\<lambda>s. get_return_addr (tk_regs tk)
         (\<lambda>a. case peek (traced_of s (tk_pid l) tk) a of Inl _ \<Rightarrow> None | Inr v \<Rightarrow> Some v))))"

text \<open>A call of an intercepted function: its return address gets a breakpoint, then the call is reported.\<close>

definition handle_call :: "trace_env \<Rightarrow> nat \<Rightarrow> library_symbol \<Rightarrow> unit top" where
  "handle_call env t libsym =
     seqS (updT t (\<lambda>tk. tk\<lparr>tk_regs := save_param_context (tk_regs tk)\<rparr>))
     (bindS (symbol_func env libsym) (\<lambda>f.
      seqS (if fn_report_out f \<noteq> None \<or> \<not> opt_nocpp (te_report env) then
              bindS (return_addr t) (\<lambda>a.
              bindS (breakpoint_insert env t a None BP_HW_SCRATCH) (\<lambda>r.
              seqS (updT t (\<lambda>tk. tk\<lparr>tk_breakpoint := r\<rparr>))
              (case r of
                 None \<Rightarrow> retS ()
               | Some c \<Rightarrow>
                   seqS (updT t (\<lambda>tk. tk\<lparr>tk_libsym := Some libsym\<rparr>))
                   (seqS (updB c (\<lambda>bp. bp\<lparr>bp_on_hit := HandleCallAfter\<rparr>)) (enable_scratch_hw_bp t c)))))
            else retS ())
        (opt_reportS env t (fn_report_in f) libsym)))"

definition BP_REORDER_THRESHOLD :: u32 where "BP_REORDER_THRESHOLD = 2048"

definition count_hit :: "trace_env \<Rightarrow> nat \<Rightarrow> nat \<Rightarrow> bool \<Rightarrow> unit top" where
  "count_hit env t b hw =
     bindS (getB b) (\<lambda>bp.
       if wants_slot (bp_type bp) then
         seqS (updB b (\<lambda>bp. bp\<lparr>bp_hwcnt := bp_hwcnt bp + 1\<rparr>))
           (whenS (push_bit (of_bool hw) BP_REORDER_THRESHOLD \<le> bp_hwcnt bp + 1) (reorder_hw_bp env t))
       else retS ())"

definition breakpoint_action :: "trace_env \<Rightarrow> nat \<Rightarrow> nat \<Rightarrow> unit top" where
  "breakpoint_action env t b =
     bindS (on_hit env t b) (\<lambda>handled.
       if handled then bindS (continue_task t 0) (\<lambda>_. retS ())
       else
         bindS (getB b) (\<lambda>bp. bindS (getT t) (\<lambda>tk.
         seqS (case bp_libsym bp of
                 Some libsym \<Rightarrow> if tk_breakpoint tk = None then handle_call env t libsym else retS ()
               | None \<Rightarrow> retS ())
           (bindS (getT t) (\<lambda>tk.
              if tk_bp_skipped tk then updT t (\<lambda>tk. tk\<lparr>tk_bp_skipped := False\<rparr>)
              else bindS (skip_breakpoint env t b) (\<lambda>_. retS ()))))))"

definition handle_breakpoint :: "trace_env \<Rightarrow> nat \<Rightarrow> int top" where
  "handle_breakpoint env t =
     bindS (getT t) (\<lambda>tk. case tk_ev_bp tk of
       None \<Rightarrow> failS (Fault Segfault)
     | Some b \<Rightarrow>
         bindS (getB b) (\<lambda>bp.
         seqS (assertS (tk_stopped tk))
         (seqS (whenS (opt_verbose env > 0) (updB b (\<lambda>bp. bp\<lparr>bp_hits := bp_hits bp + 1\<rparr>)))
         (seqS (if tk_skip_bp tk \<noteq> None then
                  seqS (updT t (\<lambda>tk. tk\<lparr>tk_skip_bp := None\<rparr>)) (bindS (breakpoint_put (tk_skip_bp tk)) (\<lambda>_. retS ()))
                else retS ())
         (seqS (if tk_skip_bp tk = Some b then bindS (skip_breakpoint env t b) (\<lambda>_. retS ())
                else if bp_deleted bp then bindS (continue_task t 0) (\<lambda>_. retS ())
                else seqS (count_hit env t b (bp_hw bp)) (breakpoint_action env t b))
           (bindS (breakpoint_put (Some b)) (\<lambda>_. retS 0)))))))"

subsection \<open>One event\<close>

text \<open>What holds behind a handler that kept the task.\<close>

definition check_running :: "nat \<Rightarrow> int \<Rightarrow> unit top" where
  "check_running t ret =
     (if ret = RET_DEFERED then retS ()
      else bindS (getT t) (\<lambda>tk. seqS (assertS (tk_event tk = EVENT_NONE)) (assertS (\<not> tk_stopped tk))))"

definition check_known :: "nat \<Rightarrow> unit top" where
  "check_known t = bindS (getT t) (\<lambda>tk. assertS (\<not> tk_is_new tk))"

definition event_result :: "int \<Rightarrow> int" where
  "event_result ret = (if ret < 0 then ret else 0)"

definition handle_event :: "trace_env \<Rightarrow> nat option \<Rightarrow> int top" where
  "handle_event env task = (case task of
      None \<Rightarrow> retS 0
    | Some t \<Rightarrow>
        bindS (getT t) (\<lambda>tk.
        seqS (assertS (tk_stopped tk))
        (case tk_defer tk of
           Some parent \<Rightarrow>
             bindS (do_clone_cb env t parent) (\<lambda>ret.
               if ret = RET_DELETED then retS 1
               else seqS (updT t (\<lambda>tk. tk\<lparr>tk_defer := None\<rparr>)) (seqS (check_known t) (retS (event_result ret))))
         | None \<Rightarrow>
             let finish = (\<lambda>m. bindS m (\<lambda>ret.
                   if ret = RET_DELETED then retS 1
                   else seqS (check_running t ret) (seqS (check_known t) (retS (event_result ret))))) in
             (case tk_event tk of
                EVENT_NONE \<Rightarrow> finish (bindS (continue_task t (tk_ev_num tk)) (\<lambda>ok. retS (ret_of ok)))
              | EVENT_SIGNAL \<Rightarrow> finish (handle_signal t)
              | EVENT_ABOUT_EXIT \<Rightarrow> bindS (handle_about_exit env t) (\<lambda>ret. retS (event_result ret))
              | EVENT_EXIT \<Rightarrow> finish (handle_exit env t)
              | EVENT_EXIT_SIGNAL \<Rightarrow> finish (handle_exit env t)
              | EVENT_FORK \<Rightarrow> finish (handle_child env t)
              | EVENT_VFORK \<Rightarrow> finish (handle_child env t)
              | EVENT_CLONE \<Rightarrow> finish (handle_child env t)
              | EVENT_EXEC \<Rightarrow> finish (handle_exec env t)
              | EVENT_BREAKPOINT \<Rightarrow> bindS (handle_breakpoint env t) (\<lambda>ret. seqS (check_known t) (retS (event_result ret)))
              | EVENT_NEW \<Rightarrow> finish (handle_new t)))))"

end
