(* ===== verification/Server.thy ===== *)
theory Server
  imports Events Mem_Scan
begin

text \<open>
  The commands of the client and the loop of the tracer (\<open>server.c\<close>, \<open>main.c\<close>). The thread that waits for the
  client is left out: what it found is the mode of a command, and the bytes the client sent come in chunks as \<open>read\<close> delivers them.
\<close>

subsection \<open>Start and stop of the trace\<close>

definition stop_trace :: "trace_env \<Rightarrow> nat \<Rightarrow> unit top" where
  "stop_trace env leader =
     seqS (breakpoint_disable_all_nonlocked env leader)
     (bindS (getT leader) (\<lambda>l. seqS (each_loop (tk_task_list l) task_reset_bp) (task_reset_bp leader)))"

definition start_trace :: "trace_env \<Rightarrow> nat \<Rightarrow> unit top" where
  "start_trace env leader = breakpoint_enable_all_nonlocked env leader"

definition server_close :: "trace_env \<Rightarrow> unit top" where
  "server_close env =
     bindS (getS tr_connected) (\<lambda>c.
       if c then
         seqS (modS (\<lambda>s. s\<lparr>tr_connected := False\<rparr>)) (seqS (each_process (stop_trace env)) (each_pid fix_about_exit))
       else retS ())"

subsection \<open>Commands\<close>

datatype server_mode = MODE_NONE | MODE_COMMAND | MODE_ACCEPTED | MODE_DISCONNECT

text \<open>Messages that are not about a task.\<close>

definition tell_server :: "trace_env \<Rightarrow> (report_env \<Rightarrow> told) \<Rightarrow> unit top" where
  "tell_server env m =
     bindS (getS (\<lambda>s. m ((te_report env)\<lparr>rp_connected := tr_connected s, opt_bt_depth := tr_bt_depth s\<rparr>)
                        (report_state_of env (new_task 0 0) (new_task 0 0)))) (\<lambda>(r, rs). case r of
       Inl e \<Rightarrow> failS e
     | Inr _ \<Rightarrow> modS (\<lambda>s. s\<lparr>tr_sent := tr_sent s @ sent_of (rp_effects rs)\<rparr>))"

definition report_processes :: "trace_env \<Rightarrow> unit top" where
  "report_processes env =
     bindS (getS tr_connected) (\<lambda>c. whenS c
       (each_process (\<lambda>t. bindS (tellS env t (\<lambda>re. bindS (report_process re) (\<lambda>_. retS True))) (\<lambda>_. retS ()))))"

text \<open>
  The payload of \<open>MT_DEPTH\<close>, one byte, is read without a look at its length: without a payload through the null
  pointer.
\<close>

definition set_bt_depth :: "bytes \<Rightarrow> unit top" where
  "set_bt_depth payload =
     (if payload = [] then failS (Fault Segfault)
      else
        let depth = unat (hd payload) in whenS (depth \<noteq> 0) (modS (\<lambda>s. s\<lparr>tr_bt_depth := depth\<rparr>)))"

definition scan_process :: "trace_env \<Rightarrow> scan_env \<Rightarrow> nat \<Rightarrow> u16 \<Rightarrow> bytes \<Rightarrow> unit top" where
  "scan_process env scan t pid payload =
     seqS (stop_threads env t)
     (case mem_scan scan (of_nat (length payload)) payload of
        None \<Rightarrow> failS (Fault OutOfBounds)
      | Some data \<Rightarrow> tell_server env (\<lambda>re. report_scan re (ucast pid) (case data of None \<Rightarrow> [] | Some d \<Rightarrow> d)))"

definition process_command :: "trace_env \<Rightarrow> scan_env \<Rightarrow> nat \<Rightarrow> u16 \<Rightarrow> u16 \<Rightarrow> bytes \<Rightarrow> unit top" where
  "process_command env scan t opn pid payload =
     bindS (getT t) (\<lambda>tk.
       if tk_leader tk \<noteq> t then retS ()
       else if opn = op_code MT_SCAN then scan_process env scan t pid payload
       else if opn = op_code MT_START then start_trace env t
       else if opn = op_code MT_STOP then stop_trace env t
       else if opn = op_code MT_DETACH then detach_proc env t
       else if opn = op_code MT_ABOUT_EXIT then bindS (continue_task t 0) (\<lambda>_. retS ())
       else retS ())"

definition command :: "trace_env \<Rightarrow> scan_env \<Rightarrow> u16 \<Rightarrow> u16 \<Rightarrow> bytes \<Rightarrow> unit top" where
  "command env scan opn pid payload =
     (if pid = 0 then
        (if opn = op_code MT_INFO then tell_server env (\<lambda>re. report_info re True)
         else if opn = op_code MT_DEPTH then set_bt_depth payload
         else server_close env)
      else
        bindS (pid2task (ucast pid)) (\<lambda>r. case r of
          None \<Rightarrow> retS ()
        | Some t \<Rightarrow> process_command env scan t opn pid payload))"

text \<open>The result is the operation, -1 or 0, and the input that is left; \<open>trace\<close> is the option of that name.\<close>

definition server_handle_command :: "trace_env \<Rightarrow> bool \<Rightarrow> scan_env \<Rightarrow> server_mode \<Rightarrow> bytes list \<Rightarrow> (int \<times> bytes list) top" where
  "server_handle_command env trace scan mode inp =
     (if opt_logfile env then retS (-1, inp)
      else if mode = MODE_ACCEPTED then
        seqS (tell_server env (\<lambda>re. report_info re True))
        (seqS (report_processes env) (seqS (each_process (start_trace env)) (retS (0, inp))))
      else if mode = MODE_DISCONNECT then seqS (server_close env) (retS (-1, inp))
      else
        bindS (getS tr_connected) (\<lambda>c.
          if \<not> c then retS (-1, inp)
          else (case safe_read 8 inp of
            (None, inp) \<Rightarrow> seqS (server_close env) (retS (if trace then 0 else -1, inp))
          | (Some b, inp) \<Rightarrow>
              (case header_of b of (opn, pid, len) \<Rightarrow>
                 if len = 0 then seqS (command env scan opn pid []) (retS (uint opn, inp))
                 else (case safe_read (unat len) inp of
                   (None, inp) \<Rightarrow> retS (uint opn, inp)
                 | (Some payload, inp) \<Rightarrow> seqS (command env scan opn pid payload) (retS (uint opn, inp)))))))"

subsection \<open>The loop of the tracer\<close>

text \<open>A command that is pending: what the thread found, the input and what a scan reads.\<close>

type_synonym pending = "server_mode \<times> bytes list \<times> scan_env"

definition server_poll :: "trace_env \<Rightarrow> bool \<Rightarrow> pending option \<Rightarrow> int top" where
  "server_poll env trace p = (case p of
      None \<Rightarrow> retS 0
    | Some (mode, inp, scan) \<Rightarrow>
        bindS (server_handle_command env trace scan mode inp) (\<lambda>(ret, _). retS (if trace then 0 else ret)))"

text \<open>
  The rounds of \<open>mtrace_main\<close>, one element of the list each: whether the exit was requested, and the command found after the
  event. A list that ends leaves the loop in the middle.
\<close>

fun mtrace_main :: "trace_env \<Rightarrow> bool \<Rightarrow> (bool \<times> pending option) list \<Rightarrow> unit top" where
  "mtrace_main env trace [] = failS (Fault NoReturn)"
| "mtrace_main env trace ((do_exit, p) # ps) =
     (if do_exit then retS ()
      else
        bindS task_list_empty (\<lambda>e.
          if e then retS ()
          else
            bindS (next_event env) (\<lambda>t.
            bindS (handle_event env t) (\<lambda>ret.
              if t \<noteq> None \<and> ret = -1 then retS ()
              else bindS (server_poll env trace p) (\<lambda>ret. if ret = -1 then retS () else mtrace_main env trace ps)))))"

subsection \<open>The end of the tracer\<close>

text \<open>
  The commands of a client that was told of the end: they are handled until the connection ends, the process is gone or
  runs. A list that ends leaves the loop in the middle.
\<close>

fun detach_commands :: "trace_env \<Rightarrow> bool \<Rightarrow> u32 \<Rightarrow> pending list \<Rightarrow> unit top" where
  "detach_commands env trace pid [] = failS (Fault NoReturn)"
| "detach_commands env trace pid ((mode, inp, scan) # ps) =
     bindS (server_handle_command env trace scan mode inp) (\<lambda>(ret, _).
       if ret = -1 then retS ()
       else
         bindS (pid2task pid) (\<lambda>r. case r of
           None \<Rightarrow> retS ()
         | Some t \<Rightarrow> bindS (getT t) (\<lambda>tk. if \<not> tk_stopped tk then retS () else detach_commands env trace pid ps)))"

definition detach_process :: "trace_env \<Rightarrow> bool \<Rightarrow> (u32 \<Rightarrow> pending list) \<Rightarrow> nat \<Rightarrow> unit top" where
  "detach_process env trace cmds leader =
     bindS (getT leader) (\<lambda>l.
     bindS (tellS env leader report_detach) (\<lambda>_. detach_commands env trace (tk_pid l) (cmds (tk_pid l))))"

definition mtrace_exit :: "trace_env \<Rightarrow> bool \<Rightarrow> bool \<Rightarrow> (u32 \<Rightarrow> pending list) \<Rightarrow> unit top" where
  "mtrace_exit env interactive trace cmds =
     seqS (whenS (\<not> interactive) (seqS (each_process (stop_threads env)) (each_process (detach_process env trace cmds))))
       (seqS (each_process (remove_proc env)) (each_pid (remove_task env)))"

end
