(* ===== verification/Trace_Invariant.thy ===== *)
theory Trace_Invariant
  imports Trace_Events
begin

text \<open>
  The threads of a traced process are counted: a leader knows how many threads there are and how many of them are
  stopped, and every task is found by its process id. The invariant is stated over the part of a task that it needs, its
  skeleton, with an offset per process for the moments between the two halves of a change. It is kept by every wait, stop
  and continuation.
\<close>

subsection \<open>Skeletons\<close>

record skeleton =
  sk_pid :: u32
  sk_leader :: nat
  sk_stopped :: bool
  sk_threads :: u32
  sk_threads_stopped :: u32
  sk_list :: "nat list"

definition skel :: "task \<Rightarrow> skeleton" where
  "skel tk = \<lparr>sk_pid = tk_pid tk, sk_leader = tk_leader tk, sk_stopped = tk_stopped tk, sk_threads = tk_threads tk,
              sk_threads_stopped = tk_threads_stopped tk, sk_list = tk_task_list tk\<rparr>"

lemma skel_sel [simp]:
  "sk_pid (skel tk) = tk_pid tk" "sk_leader (skel tk) = tk_leader tk" "sk_stopped (skel tk) = tk_stopped tk"
  "sk_threads (skel tk) = tk_threads tk" "sk_threads_stopped (skel tk) = tk_threads_stopped tk" "sk_list (skel tk) = tk_task_list tk"
  by (simp_all add: skel_def)

definition sk :: "tracer \<Rightarrow> nat \<Rightarrow> skeleton option" where
  "sk s t = map_option skel (tr_tasks s t)"

definition same_skel :: "tracer \<Rightarrow> tracer \<Rightarrow> bool" where
  "same_skel s s' \<longleftrightarrow> sk s' = sk s \<and> tr_leaders s' = tr_leaders s \<and> tr_pid_hash s' = tr_pid_hash s \<and> tr_next s' = tr_next s"

interpretation skel: kept same_skel
  by unfold_locales (auto simp: same_skel_def)

lemma skel_updT:
  assumes "\<And>tk. skel (f tk) = skel tk"
  shows "framed same_skel (updT t f)"
  using assms by (auto simp: framed_def updT_Inr same_skel_def sk_def fun_eq_iff)

lemma skel_updB: "framed same_skel (updB b f)"
  by (auto simp: framed_def updB_Inr same_skel_def sk_def)

lemma skel_modS:
  assumes "\<And>s. tr_tasks (f s) = tr_tasks s" "\<And>s. tr_leaders (f s) = tr_leaders s"
    "\<And>s. tr_pid_hash (f s) = tr_pid_hash s" "\<And>s. tr_next (f s) = tr_next s"
  shows "framed same_skel (modS f)"
  using assms by (intro skel.modify) (simp add: same_skel_def sk_def fun_eq_iff)

lemma skel_os_do: "framed same_skel (os_do c)"
  unfolding os_do_def by (intro skel_modS) simp_all

lemmas skel_rules = skel.rules skel_updB skel_os_do

lemma skel_poke_dr: "framed same_skel (poke_dr pid n v)"
  unfolding poke_dr_def by (intro skel_rules skel_modS) simp_all

lemma skel_apply_hw_bp_raw: "framed same_skel (apply_hw_bp_raw t d)"
  unfolding apply_hw_bp_raw_def by (intro skel_rules skel_updT skel_poke_dr) (simp add: skel_def)

lemma skel_apply_hw_bp: "framed same_skel (apply_hw_bp t d)"
  unfolding apply_hw_bp_def by (intro skel_rules skel_apply_hw_bp_raw)

lemma skel_arch_task_init: "framed same_skel (arch_task_init t)"
  unfolding arch_task_init_def by (intro skel_rules skel_updT skel_apply_hw_bp_raw) (simp add: skel_def)

lemma skel_os_task_init: "framed same_skel (os_task_init t)"
  unfolding os_task_init_def by (intro skel_rules skel_updT) (simp add: skel_def)

lemma skel_hw_destroy: "framed same_skel (breakpoint_hw_destroy env t)"
  unfolding breakpoint_hw_destroy_def reset_all_hw_bp_def by (intro skel_rules skel_updT skel_apply_hw_bp) (simp add: skel_def)

lemma skel_set_event: "framed same_skel (set_event t ev n)"
  unfolding set_event_def by (intro skel_updT) (simp add: skel_def)

lemma skel_signal_event: "framed same_skel (signal_event env t sig)"
  unfolding signal_event_def sig_sender_def Let_def by (intro skel_rules skel_set_event)

lemma skel_os_run: "framed same_skel (os_run pid)"
  unfolding os_run_def by (intro skel_modS) simp_all

lemma skel_breakpoint_get: "framed same_skel (breakpoint_get b)"
  unfolding breakpoint_get_def by (intro skel_rules)

lemma skel_breakpoint_find: "framed same_skel (breakpoint_find t addr)"
  unfolding breakpoint_find_def by (intro skel_rules)

lemma skel_set_task_ip: "framed same_skel (set_task_ip t addr)"
  unfolding set_task_ip_def by (intro skel_rules skel_updT skel_modS) (simp_all add: skel_def)

lemma skel_hw_slot_loop: "framed same_skel (hw_slot_loop is hw ip)"
proof (induction "is")
  case Nil
  show ?case by (simp add: skel.ret)
next
  case (Cons i "is")
  show ?case unfolding hw_slot_loop.simps by (intro skel_rules Cons)
qed

lemma skel_hw_bp_hit: "framed same_skel (hw_bp_hit t ip)"
  unfolding hw_bp_hit_def get_hw_bp_state_def by (intro skel_rules skel_hw_slot_loop)

lemma skel_breakpoint_hit: "framed same_skel (breakpoint_hit t ip)"
  unfolding breakpoint_hit_def by (intro skel_rules skel_hw_bp_hit skel_breakpoint_find skel_set_task_ip)

lemma skel_fetch: "framed same_skel (fetch_task_context t)"
  unfolding fetch_task_context_def by (intro skel_rules skel_updT) (simp add: skel_def)

lemma skel_queue_event: "framed same_skel (queue_event t)"
  unfolding queue_event_def by (intro skel_rules skel_modS) simp_all

lemma skel_wait_any: "framed same_skel wait_any"
  unfolding wait_any_def list.case_distrib
  by (auto simp: framed_def top_run same_skel_def sk_def os_report_def fun_eq_iff split: list.splits)

lemma skel_wait_task: "framed same_skel (wait_task t)"
  unfolding wait_task_def by (intro skel_rules skel_modS) (simp_all add: os_report_def)

lemma skel_do_stop_cb: "framed same_skel (do_stop_cb t)"
  unfolding do_stop_cb_def task_kill_def by (intro skel_rules)

subsection \<open>The invariant\<close>

definition stopped_in :: "(nat \<Rightarrow> skeleton option) \<Rightarrow> nat list \<Rightarrow> nat" where
  "stopped_in K ts = length (filter (\<lambda>t. case K t of None \<Rightarrow> False | Some k \<Rightarrow> sk_stopped k) ts)"

text \<open>A process: its threads know their leader, and the two counters are right but for the offset.\<close>

definition group_ok :: "(nat \<Rightarrow> u32) \<Rightarrow> (nat \<Rightarrow> skeleton option) \<Rightarrow> nat \<Rightarrow> bool" where
  "group_ok X K l \<longleftrightarrow> (\<exists>k. K l = Some k \<and> sk_leader k = l \<and> distinct (l # sk_list k) \<and>
     (\<forall>t \<in> set (sk_list k). \<exists>k'. K t = Some k' \<and> sk_leader k' = l) \<and>
     sk_threads k = of_nat (length (l # sk_list k)) \<and>
     sk_threads_stopped k = of_nat (stopped_in K (l # sk_list k)) + X l)"

text \<open>A task: it is found by its process id and is a thread of a process whose id is the one \<open>/proc\<close> gives.\<close>

definition task_ok :: "trace_env \<Rightarrow> tracer \<Rightarrow> nat \<Rightarrow> skeleton \<Rightarrow> bool" where
  "task_ok env s t k \<longleftrightarrow> t < tr_next s \<and> pid_map s (sk_pid k) = Some t \<and> sk_leader k \<in> set (tr_leaders s) \<and>
     (\<exists>lk. sk s (sk_leader k) = Some lk \<and> t \<in> set (sk_leader k # sk_list lk) \<and> te_tgid env (sk_pid k) = sk_pid lk)"

definition tasks_inv :: "trace_env \<Rightarrow> (nat \<Rightarrow> u32) \<Rightarrow> tracer \<Rightarrow> bool" where
  "tasks_inv env X s \<longleftrightarrow> hash_ok s \<and> distinct (tr_leaders s) \<and> (\<forall>l \<in> set (tr_leaders s). group_ok X (sk s) l) \<and>
     (\<forall>t k. sk s t = Some k \<longrightarrow> task_ok env s t k)"

lemma pid_of_sk: "pid_of s t = map_option sk_pid (sk s t)"
  by (cases "tr_tasks s t") (simp_all add: pid_of_def sk_def skel_def)

lemma hash_cong:
  assumes "pid_of s' = pid_of s" "tr_pid_hash s' = tr_pid_hash s"
  shows "hash_ok s' \<longleftrightarrow> hash_ok s" "pid_map s' = pid_map s"
  unfolding hash_ok_def bucket_ok_def pid_map_def assms by (rule refl)+

lemma same_skel_inv: "same_skel s s' \<Longrightarrow> tasks_inv env X s' \<longleftrightarrow> tasks_inv env X s"
proof -
  assume r: "same_skel s s'"
  then have "pid_of s' = pid_of s" by (simp add: same_skel_def pid_of_sk fun_eq_iff)
  from hash_cong [OF this] r show ?thesis by (simp add: same_skel_def tasks_inv_def task_ok_def)
qed

lemma stopped_in_other: "t \<notin> set ts \<Longrightarrow> stopped_in (K(t := k)) ts = stopped_in K ts"
  by (induction ts) (auto simp: stopped_in_def)

lemma stopped_in_update:
  assumes "distinct ts" "t \<in> set ts" "K t = Some k"
  shows "(of_nat (stopped_in (K(t \<mapsto> k')) ts) :: u32) =
    of_nat (stopped_in K ts) - of_bool (sk_stopped k) + of_bool (sk_stopped k')"
  using assms(1,2)
proof (induction ts)
  case (Cons u ts)
  show ?case
  proof (cases "u = t")
    case True
    with Cons.prems have "stopped_in (K(t \<mapsto> k')) ts = stopped_in K ts" by (intro stopped_in_other) simp
    with True assms(3) show ?thesis by (auto simp: stopped_in_def)
  next
    case False
    with Cons show ?thesis by (auto simp: stopped_in_def)
  qed
qed simp

lemma stopped_in_cong: "(\<And>t. t \<in> set ts \<Longrightarrow> map_option sk_stopped (K' t) = map_option sk_stopped (K t)) \<Longrightarrow> stopped_in K' ts = stopped_in K ts"
  by (induction ts) (force simp: stopped_in_def split: option.splits)+

text \<open>A change of the stop bit of a task moves the offset of its process; so does a change of the counter.\<close>

lemma group_ok_stop:
  assumes "group_ok X K l" "K t = Some k" "K' = K(t \<mapsto> k\<lparr>sk_stopped := b\<rparr>)"
    "X' = X(sk_leader k := X (sk_leader k) + of_bool (sk_stopped k) - of_bool b)"
    "K (sk_leader k) = Some lk" "t \<in> set (sk_leader k # sk_list lk)"
  shows "group_ok X' K' l"
proof -
  obtain g where g: "K l = Some g" "sk_leader g = l" "distinct (l # sk_list g)"
    "\<forall>t \<in> set (sk_list g). \<exists>k'. K t = Some k' \<and> sk_leader k' = l"
    "sk_threads g = of_nat (length (l # sk_list g))"
    "sk_threads_stopped g = of_nat (stopped_in K (l # sk_list g)) + X l" using assms(1) unfolding group_ok_def by blast
  have "\<exists>g'. K' l = Some g' \<and> sk_leader g' = l \<and> sk_list g' = sk_list g \<and> sk_threads g' = sk_threads g \<and>
    sk_threads_stopped g' = sk_threads_stopped g"
    using g(1,2) assms(2,3) by (cases "l = t") auto
  moreover have "\<forall>t \<in> set (sk_list g). \<exists>k'. K' t = Some k' \<and> sk_leader k' = l" using g(4) assms(2,3) by auto
  moreover have "of_nat (stopped_in K (l # sk_list g)) + X l = of_nat (stopped_in K' (l # sk_list g)) + X' l"
  proof (cases "sk_leader k = l")
    case True
    with assms(5,6) g(1) have "t \<in> set (l # sk_list g)" by auto
    from stopped_in_update [of "l # sk_list g" t K k "k\<lparr>sk_stopped := b\<rparr>", OF g(3) this assms(2)]
    show ?thesis using assms(3,4) True by simp
  next
    case False
    with g(1,2,4) assms(2) have "t \<notin> set (l # sk_list g)" by auto
    from stopped_in_other [OF this, of K "Some (k\<lparr>sk_stopped := b\<rparr>)"] show ?thesis using assms(3,4) False by simp
  qed
  ultimately show ?thesis using g(3,5,6) unfolding group_ok_def by metis
qed

lemma tasks_inv_stop:
  assumes "tasks_inv env X s" "sk s t = Some k" "sk s' = (sk s)(t \<mapsto> k\<lparr>sk_stopped := b\<rparr>)"
    "tr_leaders s' = tr_leaders s" "tr_pid_hash s' = tr_pid_hash s" "tr_next s' = tr_next s"
  shows "tasks_inv env (X(sk_leader k := X (sk_leader k) + of_bool (sk_stopped k) - of_bool b)) s'"
proof -
  have p: "pid_of s' = pid_of s" using assms(2,3) by (auto simp: pid_of_sk fun_eq_iff)
  from assms(1,2) have "task_ok env s t k" by (simp add: tasks_inv_def)
  then obtain lk where "sk s (sk_leader k) = Some lk" "t \<in> set (sk_leader k # sk_list lk)" by (auto simp: task_ok_def)
  from group_ok_stop [OF _ assms(2,3) refl this] assms(1,4)
  have "\<forall>l \<in> set (tr_leaders s'). group_ok (X(sk_leader k := X (sk_leader k) + of_bool (sk_stopped k) - of_bool b)) (sk s') l"
    by (simp add: tasks_inv_def)
  moreover have "task_ok env s' u k'" if k': "sk s' u = Some k'" for u k'
  proof -
    obtain k0 where "sk s u = Some k0" "sk_pid k' = sk_pid k0" "sk_leader k' = sk_leader k0"
      using k' assms(2,3) by (auto split: if_splits)
    with assms(1) hash_cong [OF p assms(5)] show ?thesis using assms(2-4,6)
      by (fastforce simp: tasks_inv_def task_ok_def)
  qed
  ultimately show ?thesis using assms(1,4) hash_cong [OF p assms(5)] by (simp add: tasks_inv_def)
qed

lemma tasks_inv_add:
  assumes "tasks_inv env X s" "l \<in> set (tr_leaders s)" "sk s l = Some k"
    "sk s' = (sk s)(l \<mapsto> k\<lparr>sk_threads_stopped := sk_threads_stopped k + n\<rparr>)"
    "tr_leaders s' = tr_leaders s" "tr_pid_hash s' = tr_pid_hash s" "tr_next s' = tr_next s"
  shows "tasks_inv env (X(l := X l + n)) s'"
proof -
  have p: "pid_of s' = pid_of s" using assms(3,4) by (auto simp: pid_of_sk fun_eq_iff)
  have st: "stopped_in (sk s') ts = stopped_in (sk s) ts" for ts using assms(3,4) by (intro stopped_in_cong) auto
  have "group_ok (X(l := X l + n)) (sk s') u" if "u \<in> set (tr_leaders s)" for u
  proof -
    have "group_ok X (sk s) u" using that assms(1) by (simp add: tasks_inv_def)
    then show ?thesis using assms(3,4) unfolding group_ok_def st by (cases "u = l") fastforce+
  qed
  moreover have "task_ok env s' u k'" if k': "sk s' u = Some k'" for u k'
  proof -
    obtain k0 where "sk s u = Some k0" "sk_pid k' = sk_pid k0" "sk_leader k' = sk_leader k0"
      using k' assms(3,4) by (auto split: if_splits)
    with assms(1) hash_cong [OF p assms(6)] show ?thesis using assms(3-5,7)
      by (fastforce simp: tasks_inv_def task_ok_def)
  qed
  ultimately show ?thesis using assms(1,5) hash_cong [OF p assms(6)] by (simp add: tasks_inv_def)
qed

subsection \<open>New tasks\<close>

text \<open>Tasks stay, with their process id, leader and stop bit.\<close>

definition grows :: "tracer \<Rightarrow> tracer \<Rightarrow> bool" where
  "grows s s' \<longleftrightarrow> (\<forall>t k. sk s t = Some k \<longrightarrow>
     (\<exists>k'. sk s' t = Some k' \<and> sk_pid k' = sk_pid k \<and> sk_leader k' = sk_leader k \<and> sk_stopped k' = sk_stopped k))"

interpretation grow: kept grows
  by unfold_locales (fastforce simp: grows_def)+

lemma growsE:
  assumes "grows s s'" "sk s t = Some k"
  obtains k' where "sk s' t = Some k'" "sk_pid k' = sk_pid k" "sk_leader k' = sk_leader k" "sk_stopped k' = sk_stopped k"
  using assms by (auto simp: grows_def)

lemma same_skel_grows: "same_skel s s' \<Longrightarrow> grows s s'"
  by (simp add: same_skel_def grows_def)

lemma updT_sk:
  assumes "updT t f s = (Inr u, s')"
  shows "\<exists>tk. tr_tasks s t = Some tk \<and> sk s' = (sk s)(t \<mapsto> skel (f tk)) \<and>
    tr_leaders s' = tr_leaders s \<and> tr_pid_hash s' = tr_pid_hash s \<and> tr_next s' = tr_next s"
  using assms by (auto simp: updT_Inr sk_def fun_eq_iff)

text \<open>What becomes of the skeletons when the new task \<open>t\<close> is linked to \<open>leader\<close>.\<close>

definition linked :: "u32 \<Rightarrow> nat \<Rightarrow> nat \<Rightarrow> (nat \<Rightarrow> skeleton option) \<Rightarrow> nat \<Rightarrow> skeleton option" where
  "linked pid t leader K =
     (if leader = t then K(t \<mapsto> \<lparr>sk_pid = pid, sk_leader = t, sk_stopped = False, sk_threads = 1, sk_threads_stopped = 0, sk_list = []\<rparr>)
      else (K(t \<mapsto> \<lparr>sk_pid = pid, sk_leader = leader, sk_stopped = False, sk_threads = 0, sk_threads_stopped = 0, sk_list = []\<rparr>))
        (leader := map_option (\<lambda>l. l\<lparr>sk_threads := sk_threads l + 1, sk_list := sk_list l @ [t]\<rparr>) (K leader)))"

lemma task_link_sk:
  assumes "task_link t leader s = (Inr u, s')" "sk s t = Some k"
    "k = \<lparr>sk_pid = pid, sk_leader = leader, sk_stopped = False, sk_threads = 0, sk_threads_stopped = 0, sk_list = []\<rparr>"
  shows "sk s' = linked pid t leader (sk s) \<and> sk s leader \<noteq> None \<and>
    tr_leaders s' = (if leader = t then tr_leaders s @ [t] else tr_leaders s) \<and>
    tr_pid_hash s' = tr_pid_hash s \<and> tr_next s' = tr_next s"
  using assms
  by (auto simp: task_link_def breakpoint_setup_def top_run sk_def skel_def linked_def fun_eq_iff split: if_splits)

lemma task_init_sk:
  assumes "task_init env t s = (Inr ok, s')" "hash_ok s" "tr_tasks s t = Some tk"
    "skel tk = \<lparr>sk_pid = pid, sk_leader = x, sk_stopped = False, sk_threads = 0, sk_threads_stopped = 0, sk_list = []\<rparr>"
  shows "if ok then \<exists>leader. te_tgid env pid \<noteq> 0 \<and>
      (if te_tgid env pid = pid then leader = t else pid_map s (te_tgid env pid) = Some leader) \<and>
      sk s' = linked pid t leader (sk s) \<and> (leader = t \<or> sk s leader \<noteq> None) \<and>
      tr_leaders s' = (if leader = t then tr_leaders s @ [t] else tr_leaders s) \<and>
      tr_pid_hash s' = tr_pid_hash s \<and> tr_next s' = tr_next s
    else (\<forall>u. u \<noteq> t \<longrightarrow> sk s' u = sk s u) \<and> tr_leaders s' = tr_leaders s \<and> tr_pid_hash s' = tr_pid_hash s \<and> tr_next s' = tr_next s"
proof (cases "te_tgid env pid = 0")
  case True
  with assms show ?thesis by (auto simp: task_init_def top_run skel_def Let_def)
next
  case False
  have pid: "tk_pid tk = pid" using assms(4) by (simp add: skel_def)
  let ?r = "if te_tgid env pid = pid then Some t else pid_map s (te_tgid env pid)"
  have r: "(if te_tgid env pid = pid then retS (Some t) else pid2task (te_tgid env pid)) s = (Inr ?r, s)"
    using pid2task_run [OF assms(2)] by (simp add: retS_def)
  show ?thesis
  proof (cases ?r)
    case None
    with assms(1,3) r False pid show ?thesis
      by (auto simp: task_init_def bindS_def getT_def Let_def retS_def split: if_splits)
  next
    case (Some leader)
    with assms(1,3) r False pid have
      "seqS (updT t (\<lambda>tk. tk\<lparr>tk_leader := leader\<rparr>))
         (bindS (arch_task_init t) (\<lambda>ok. if \<not> ok then retS False
            else seqS (os_task_init t) (seqS (task_link t leader) (seqS (breakpoint_hw_destroy env t) (retS True))))) s = (Inr ok, s')"
      by (simp add: task_init_def bindS_def [of "getT t"] getT_def Let_def bindS_def [of "if _ then _ else _"] cong: if_cong)
    then obtain s1 s2 a where s1: "updT t (\<lambda>tk. tk\<lparr>tk_leader := leader\<rparr>) s = (Inr (), s1)"
      and s2: "arch_task_init t s1 = (Inr a, s2)"
      and rest: "(if \<not> a then retS False
            else seqS (os_task_init t) (seqS (task_link t leader) (seqS (breakpoint_hw_destroy env t) (retS True)))) s2 = (Inr ok, s')"
      by (auto simp: seqS_Inr bindS_Inr)
    let ?k = "\<lparr>sk_pid = pid, sk_leader = leader, sk_stopped = False, sk_threads = 0, sk_threads_stopped = 0, sk_list = []\<rparr>"
    have k1: "sk s1 = (sk s)(t \<mapsto> ?k)" "tr_leaders s1 = tr_leaders s" "tr_pid_hash s1 = tr_pid_hash s" "tr_next s1 = tr_next s"
      using updT_sk [OF s1] assms(3,4) by (auto simp: skel_def)
    note k2 = framedD [OF skel_arch_task_init s2]
    show ?thesis
    proof (cases a)
      case False
      with rest k1 k2 show ?thesis by (auto simp: retS_Inr same_skel_def)
    next
      case True
      with rest obtain s3 s4 where s3: "os_task_init t s2 = (Inr (), s3)" and s4: "task_link t leader s3 = (Inr (), s4)"
        and s5: "breakpoint_hw_destroy env t s4 = (Inr (), s')" and ok
        by (auto simp: seqS_Inr retS_Inr)
      note k3 = framedD [OF skel_os_task_init s3] and k5 = framedD [OF skel_hw_destroy s5]
      have t3: "sk s3 t = Some ?k" using k1 k2 k3 by (simp add: same_skel_def)
      note k4 = task_link_sk [OF s4 t3 refl]
      have "linked pid t leader (sk s3) = linked pid t leader (sk s)"
        using k1 k2 k3 by (auto simp: same_skel_def linked_def fun_eq_iff)
      moreover have "leader = t \<or> sk s leader \<noteq> None" using k1 k2 k3 k4 by (auto simp: same_skel_def)
      ultimately show ?thesis using \<open>ok\<close> k1 k2 k3 k4 k5 False Some \<open>te_tgid env pid \<noteq> 0\<close>
        by (auto simp: same_skel_def split: if_splits)
    qed
  qed
qed

text \<open>What \<open>/proc\<close> says of a leader: it is its own leader.\<close>

definition tgid_ok :: "trace_env \<Rightarrow> bool" where
  "tgid_ok env \<longleftrightarrow> (\<forall>p. te_tgid env p \<noteq> 0 \<longrightarrow> te_tgid env (te_tgid env p) = te_tgid env p)"

lemma hash_grow:
  assumes "hash_ok s" "tr_pid_hash s' = tr_pid_hash s" "\<And>u. pid_of s u \<noteq> None \<Longrightarrow> pid_of s' u = pid_of s u"
  shows "hash_ok s'" "pid_map s' = pid_map s"
proof -
  have same: "\<forall>t \<in> set (pe_tasks e). pid_of s' t = pid_of s t" if "i < PID_HASH_SIZE" "tr_pid_hash s ! i = Some e" for i e
    using that assms(1,3) by (fastforce simp: hash_ok_def bucket_ok_def)
  have "bucket_ok s' i e \<longleftrightarrow> bucket_ok s i e" if "i < PID_HASH_SIZE" "tr_pid_hash s ! i = Some e" for i e
    using same [OF that] by (simp add: bucket_ok_def cong: map_cong)
  then show "hash_ok s'" using assms(1,2) by (simp add: hash_ok_def)
  show "pid_map s' = pid_map s"
  proof
    fix p
    show "pid_map s' p = pid_map s p"
    proof (cases "tr_pid_hash s ! PID_HASH p")
      case (Some e)
      from same [OF PID_HASH_bound this] show ?thesis
        using Some assms(2) by (simp add: pid_map_def cong: find_cong)
    qed (simp add: pid_map_def assms(2))
  qed
qed

lemma tasks_inv_sk: "tasks_inv env X s \<Longrightarrow> sk s t = Some k \<Longrightarrow> task_ok env s t k"
  by (simp add: tasks_inv_def)

lemma pid_map_pid: "pid_map s p = Some t \<Longrightarrow> \<exists>k. sk s t = Some k \<and> sk_pid k = p"
  by (auto simp: pid_map_def pid_of_sk find_Some_iff split: option.splits)

text \<open>The task found for the process id of a leader is a leader.\<close>

lemma leader_found:
  assumes "tasks_inv env X s" "tgid_ok env" "te_tgid env pid \<noteq> 0" "pid_map s (te_tgid env pid) = Some l"
  shows "l \<in> set (tr_leaders s)" "\<exists>k. sk s l = Some k \<and> sk_pid k = te_tgid env pid"
proof -
  obtain k where k: "sk s l = Some k" "sk_pid k = te_tgid env pid" using pid_map_pid [OF assms(4)] by blast
  obtain lk where lk: "sk s (sk_leader k) = Some lk" "te_tgid env (sk_pid k) = sk_pid lk" "sk_leader k \<in> set (tr_leaders s)"
    using tasks_inv_sk [OF assms(1) k(1)] by (auto simp: task_ok_def)
  have "sk_pid lk = te_tgid env pid" using lk(2) k(2) assms(2,3) by (simp add: tgid_ok_def)
  with tasks_inv_sk [OF assms(1) lk(1)] assms(4) have "sk_leader k = l" by (simp add: task_ok_def)
  with lk(3) k show "l \<in> set (tr_leaders s)" "\<exists>k. sk s l = Some k \<and> sk_pid k = te_tgid env pid" by auto
qed

lemma linked_other: "u \<noteq> t \<Longrightarrow> u \<noteq> leader \<Longrightarrow> linked pid t leader K u = K u"
  by (simp add: linked_def)

lemma group_ok_linked:
  assumes "group_ok X K l" "K t = None" "leader = t \<or> K leader = Some lk"
  shows "group_ok X (linked pid t leader K) l"
proof -
  obtain g where g: "K l = Some g" "sk_leader g = l" "distinct (l # sk_list g)"
    "\<forall>t \<in> set (sk_list g). \<exists>k'. K t = Some k' \<and> sk_leader k' = l"
    "sk_threads g = of_nat (length (l # sk_list g))"
    "sk_threads_stopped g = of_nat (stopped_in K (l # sk_list g)) + X l" using assms(1) unfolding group_ok_def by blast
  have t: "t \<notin> set (l # sk_list g)" "l \<noteq> t" using g(1,4) assms(2) by auto
  have st: "stopped_in (linked pid t leader K) (l # sk_list g) = stopped_in K (l # sk_list g)"
    using t assms(3) by (intro stopped_in_cong) (auto simp: linked_def)
  have mem: "\<forall>u \<in> set (sk_list g). \<exists>k'. linked pid t leader K u = Some k' \<and> sk_leader k' = l"
    using g(4) t assms(3) by (auto simp: linked_def)
  show ?thesis
  proof (cases "l = leader")
    case True
    then have K: "linked pid t leader K l = Some (g\<lparr>sk_threads := sk_threads g + 1, sk_list := sk_list g @ [t]\<rparr>)"
      "\<exists>k'. linked pid t leader K t = Some k' \<and> sk_leader k' = l \<and> \<not> sk_stopped k'"
      using g(1) t by (auto simp: linked_def)
    then have "stopped_in (linked pid t leader K) (l # sk_list g @ [t]) = stopped_in K (l # sk_list g)"
      using st by (auto simp: stopped_in_def)
    with K(2) mem t g(2,3,5,6) show ?thesis
      unfolding group_ok_def
      by (intro exI [of _ "g\<lparr>sk_threads := sk_threads g + 1, sk_list := sk_list g @ [t]\<rparr>"] conjI K(1)) (auto simp: ball_Un)
  next
    case False
    then have "linked pid t leader K l = Some g" using g(1) t by (simp add: linked_other)
    then show ?thesis using g mem st unfolding group_ok_def by (intro exI [of _ g] conjI) simp_all
  qed
qed

lemma task_new_inv:
  assumes "task_new env pid s = (Inr r, s')" "tasks_inv env X s" "pid_map s pid = None" "tgid_ok env" "X (tr_next s) = 0"
  shows "tasks_inv env X s'" "grows s s'"
    "r = Some c \<Longrightarrow> sk s c = None \<and> (\<exists>k. sk s' c = Some k \<and> \<not> sk_stopped k)"
proof -
  let ?t = "tr_next s" and ?tk = "new_task (tr_next s) pid"
  define s1 where "s1 = s\<lparr>tr_next := Suc ?t, tr_tasks := (tr_tasks s)(?t \<mapsto> ?tk)\<rparr>"
  have fresh: "sk s ?t = None" using tasks_inv_sk [OF assms(2), of ?t] by (fastforce simp: task_ok_def)
  have k1: "sk s1 = (sk s)(?t \<mapsto> skel ?tk)" "tr_leaders s1 = tr_leaders s" "tr_pid_hash s1 = tr_pid_hash s" "tr_next s1 = Suc ?t"
    by (auto simp: s1_def sk_def fun_eq_iff)
  have old: "hash_ok s" using assms(2) by (simp add: tasks_inv_def)
  have h1: "hash_ok s1" "pid_map s1 = pid_map s"
  proof -
    have "pid_of s u \<noteq> None \<Longrightarrow> pid_of s1 u = pid_of s u" for u using fresh by (auto simp: pid_of_sk k1(1))
    from hash_grow [OF old k1(3) this] show "hash_ok s1" "pid_map s1 = pid_map s" by simp_all
  qed
  obtain ok s2 where s2: "task_init env ?t s1 = (Inr ok, s2)" and
    rest: "(if \<not> ok then seqS (modS (\<lambda>s. s\<lparr>tr_tasks := (tr_tasks s)(?t := None)\<rparr>)) (retS None)
            else seqS (insert_pid ?t) (retS (Some ?t))) s2 = (Inr r, s')"
    using assms(1) by (auto simp: task_new_def top_run s1_def)
  have tk: "tr_tasks s1 ?t = Some ?tk" by (simp add: s1_def)
  have sk_tk: "skel ?tk = \<lparr>sk_pid = pid, sk_leader = ?t, sk_stopped = False, sk_threads = 0, sk_threads_stopped = 0, sk_list = []\<rparr>"
    by (simp add: skel_def new_task_def)
  note k2 = task_init_sk [OF s2 h1(1) tk sk_tk]
  have "tasks_inv env X s' \<and> grows s s' \<and> (r = Some c \<longrightarrow> sk s c = None \<and> (\<exists>k. sk s' c = Some k \<and> \<not> sk_stopped k))"
  proof (cases ok)
    case False
    with rest have s': "r = None" "s' = s2\<lparr>tr_tasks := (tr_tasks s2)(?t := None)\<rparr>" by (auto simp: top_run)
    have K: "sk s' = sk s" "tr_leaders s' = tr_leaders s" "tr_pid_hash s' = tr_pid_hash s" "tr_next s' = Suc ?t"
      using k2 k1 fresh False s' by (auto simp: sk_def fun_eq_iff)
    then have "pid_of s' = pid_of s" by (simp add: pid_of_sk fun_eq_iff)
    from hash_cong [OF this K(3)] have "tasks_inv env X s'"
      using assms(2) K by (auto simp: tasks_inv_def task_ok_def less_Suc_eq)
    then show ?thesis using K s'(1) by (simp add: grows_def)
  next
    case True
    with k2 obtain leader where l: "te_tgid env pid \<noteq> 0"
      "if te_tgid env pid = pid then leader = ?t else pid_map s1 (te_tgid env pid) = Some leader"
      "sk s2 = linked pid ?t leader (sk s1)" "leader = ?t \<or> sk s1 leader \<noteq> None"
      "tr_leaders s2 = (if leader = ?t then tr_leaders s1 @ [?t] else tr_leaders s1)"
      "tr_pid_hash s2 = tr_pid_hash s1" "tr_next s2 = tr_next s1" by auto
    have sk2: "sk s2 = linked pid ?t leader (sk s)" using l(3) k1(1) by (auto simp: linked_def fun_eq_iff)
    have thread: "leader \<in> set (tr_leaders s) \<and> leader \<noteq> ?t \<and> (\<exists>lk. sk s leader = Some lk \<and> sk_pid lk = te_tgid env pid)"
      if "te_tgid env pid \<noteq> pid"
      using leader_found [OF assms(2,4) l(1), of leader] that l(2) h1(2) fresh by auto
    have lead: "leader = ?t \<or> (\<exists>lk. sk s leader = Some lk)" using thread l(2) by (auto split: if_splits)
    have p2: "pid_of s2 u = pid_of s u" if "pid_of s u \<noteq> None" for u
      using that fresh lead by (auto simp: pid_of_sk sk2 linked_def)
    note h2 = hash_grow [OF old l(6) [unfolded k1(3)] p2]
    have "pid_of s2 ?t = Some pid" using fresh lead by (auto simp: pid_of_sk sk2 linked_def)
    then obtain tk2 where tk2: "tr_tasks s2 ?t = Some tk2" "tk_pid tk2 = pid" by (auto simp: pid_of_def)
    from insert_pid_run [OF h2(1) tk2(1)] tk2(2) assms(3) h2(2)
    obtain h where h: "insert_pid ?t s2 = (Inr (), s2\<lparr>tr_pid_hash := h\<rparr>)" "hash_ok (s2\<lparr>tr_pid_hash := h\<rparr>)"
      "pid_map (s2\<lparr>tr_pid_hash := h\<rparr>) = (pid_map s)(pid \<mapsto> ?t)" by auto
    with rest True have s': "r = Some ?t" "s' = s2\<lparr>tr_pid_hash := h\<rparr>" by (auto simp: top_run)
    have K: "sk s' = linked pid ?t leader (sk s)" "tr_leaders s' = (if leader = ?t then tr_leaders s @ [?t] else tr_leaders s)"
      "tr_next s' = Suc ?t" "pid_map s' = (pid_map s)(pid \<mapsto> ?t)" "hash_ok s'"
      using sk2 l(5,7) k1 h(2,3) s'(2) by (auto simp: sk_def fun_eq_iff)
    have nl: "?t \<notin> set (tr_leaders s)" using assms(2) fresh by (auto simp: tasks_inv_def group_ok_def)
    have gr: "grows s s'" using K(1) fresh lead by (auto simp: grows_def linked_def)
    have "group_ok X (sk s') g" if "g \<in> set (tr_leaders s')" for g
    proof (cases "g = ?t")
      case True
      then have "leader = ?t" using that nl K(2) by (auto split: if_splits)
      then show ?thesis using True assms(5) by (simp add: K(1) group_ok_def linked_def stopped_in_def)
    next
      case False
      then have "group_ok X (sk s) g" using that K(2) assms(2) by (auto simp: tasks_inv_def split: if_splits)
      from group_ok_linked [OF this fresh] lead show ?thesis unfolding K(1) by blast
    qed
    moreover have "task_ok env s' u k" if k: "sk s' u = Some k" for u k
    proof (cases "u = ?t")
      case True
      then show ?thesis using k thread l(2) fresh
        by (cases "te_tgid env pid = pid") (auto simp: K task_ok_def linked_def)
    next
      case False
      then obtain k0 where k0: "sk s u = Some k0" "sk_pid k = sk_pid k0" "sk_leader k = sk_leader k0"
        using k lead by (auto simp: K(1) linked_def split: if_splits)
      have o: "task_ok env s u k0" by (rule tasks_inv_sk [OF assms(2) k0(1)])
      then obtain lk where lk: "sk s (sk_leader k0) = Some lk" "u \<in> set (sk_leader k0 # sk_list lk)" "te_tgid env (sk_pid k0) = sk_pid lk"
        by (auto simp: task_ok_def)
      then have "sk_leader k0 \<noteq> ?t" using fresh by auto
      then have "\<exists>lk'. sk s' (sk_leader k0) = Some lk' \<and> sk_pid lk' = sk_pid lk \<and> set (sk_list lk) \<subseteq> set (sk_list lk')"
        using lk(1) by (auto simp: K(1) linked_def)
      moreover have "sk_pid k0 \<noteq> pid" using o assms(3) by (auto simp: task_ok_def)
      ultimately show ?thesis using o lk k0(2,3) K(2-4) by (auto simp: task_ok_def)
    qed
    ultimately have "tasks_inv env X s'" using assms(2) K(2,5) nl by (simp add: tasks_inv_def)
    moreover have "\<exists>k. sk s' ?t = Some k \<and> \<not> sk_stopped k" using lead fresh by (auto simp: K(1) linked_def)
    ultimately show ?thesis using gr fresh s'(1) by auto
  qed
  then show "tasks_inv env X s'" "grows s s'" "r = Some c \<Longrightarrow> sk s c = None \<and> (\<exists>k. sk s' c = Some k \<and> \<not> sk_stopped k)" by auto
qed

subsection \<open>Stopping and continuing\<close>

lemma sk_Some: "sk s t = Some k \<longleftrightarrow> (\<exists>tk. tr_tasks s t = Some tk \<and> skel tk = k)"
  by (simp add: sk_def)

lemma same_skel_run:
  assumes "framed same_skel m" "m s = (Inr x, s')"
  shows "tasks_inv env X s' \<longleftrightarrow> tasks_inv env X s" "sk s' = sk s" "tr_next s' = tr_next s" "grows s s'"
  using framedD [OF assms] same_skel_inv [of s s'] by (simp_all add: same_skel_def same_skel_grows)

lemma add_stopped_inv:
  assumes "add_stopped t n s = (Inr u, s')" "tasks_inv env X s" "sk s t = Some k"
  shows "tasks_inv env (X(sk_leader k := X (sk_leader k) + n)) s'" "grows s s'" "tr_next s' = tr_next s"
proof -
  obtain tk where tk: "tr_tasks s t = Some tk" "skel tk = k" using assms(3) by (auto simp: sk_Some)
  obtain lk where lk: "sk s (sk_leader k) = Some lk" "sk_leader k \<in> set (tr_leaders s)"
    using tasks_inv_sk [OF assms(2,3)] by (auto simp: task_ok_def)
  have "updT (sk_leader k) (\<lambda>l. l\<lparr>tk_threads_stopped := tk_threads_stopped l + n\<rparr>) s = (Inr u, s')"
    using assms(1) tk by (auto simp: add_stopped_def top_run skel_def)
  from updT_sk [OF this] lk(1)
  have K: "sk s' = (sk s)(sk_leader k \<mapsto> lk\<lparr>sk_threads_stopped := sk_threads_stopped lk + n\<rparr>)" "tr_leaders s' = tr_leaders s"
    "tr_pid_hash s' = tr_pid_hash s" "tr_next s' = tr_next s" by (auto simp: sk_Some skel_def)
  show "tasks_inv env (X(sk_leader k := X (sk_leader k) + n)) s'" by (rule tasks_inv_add [OF assms(2) lk(2,1) K])
  show "grows s s'" using K(1) lk(1) by (simp add: grows_def)
  show "tr_next s' = tr_next s" by (rule K(4))
qed

lemma stop_bit_inv:
  assumes "updT t f s = (Inr u, s')" "tasks_inv env X s" "sk s t = Some k" "\<And>tk. skel (f tk) = (skel tk)\<lparr>sk_stopped := b\<rparr>"
  shows "tasks_inv env (X(sk_leader k := X (sk_leader k) + of_bool (sk_stopped k) - of_bool b)) s'"
    "sk s' = (sk s)(t \<mapsto> k\<lparr>sk_stopped := b\<rparr>)" "tr_next s' = tr_next s"
proof -
  from updT_sk [OF assms(1)] assms(3,4)
  have K: "sk s' = (sk s)(t \<mapsto> k\<lparr>sk_stopped := b\<rparr>)" "tr_leaders s' = tr_leaders s"
    "tr_pid_hash s' = tr_pid_hash s" "tr_next s' = tr_next s" by (auto simp: sk_Some)
  show "tasks_inv env (X(sk_leader k := X (sk_leader k) + of_bool (sk_stopped k) - of_bool b)) s'"
    by (rule tasks_inv_stop [OF assms(2,3) K])
  show "sk s' = (sk s)(t \<mapsto> k\<lparr>sk_stopped := b\<rparr>)" "tr_next s' = tr_next s" by (rule K(1), rule K(4))
qed

text \<open>Tasks other than \<open>t\<close> are as they were, \<open>t\<close> may have stopped or run on.\<close>

definition grows_but :: "nat \<Rightarrow> tracer \<Rightarrow> tracer \<Rightarrow> bool" where
  "grows_but t s s' \<longleftrightarrow> (\<forall>u k. sk s u = Some k \<longrightarrow>
     (\<exists>k'. sk s' u = Some k' \<and> sk_pid k' = sk_pid k \<and> sk_leader k' = sk_leader k \<and> (u \<noteq> t \<longrightarrow> sk_stopped k' = sk_stopped k)))"

interpretation grow_but: kept "grows_but t"
  by unfold_locales (fastforce simp: grows_but_def)+

lemma grows_weaken: "grows s s' \<Longrightarrow> grows_but t s s'"
  by (fastforce simp: grows_def grows_but_def)

lemma continue_task_inv:
  assumes "continue_task t n s = (Inr r, s')" "tasks_inv env X s"
  shows "tasks_inv env X s'" "grows_but t s s'" "tr_next s' = tr_next s" "\<exists>k. sk s' t = Some k \<and> \<not> sk_stopped k"
proof -
  obtain tk s1 s2 where tk: "tr_tasks s t = Some tk" "tk_stopped tk" and s1: "add_stopped t (-1) s = (Inr (), s1)"
    and s2: "updT t (\<lambda>tk. tk\<lparr>tk_stopped := False, tk_event := EVENT_NONE\<rparr>) s1 = (Inr (), s2)"
    and s3: "bindS (ptraceS (tk_pid tk)) (\<lambda>r. case r of Some _ \<Rightarrow> retS False
        | None \<Rightarrow> seqS (os_do (Cont (tk_pid tk) n)) (seqS (os_run (tk_pid tk)) (retS True))) s2 = (Inr r, s')"
    using assms(1) unfolding continue_task_def bindS_Inr seqS_Inr getT_Inr assertS_Inr by auto
  have k: "sk s t = Some (skel tk)" using tk by (simp add: sk_Some)
  note i1 = add_stopped_inv [OF s1 assms(2) k]
  from growsE [OF i1(2) k] tk(2) obtain k1 where k1: "sk s1 t = Some k1" "sk_leader k1 = tk_leader tk" "sk_stopped k1" by auto
  note i2 = stop_bit_inv [OF s2 i1(1) k1(1), of False]
  have f: "framed same_skel (bindS (ptraceS (tk_pid tk)) (\<lambda>r. case r of Some _ \<Rightarrow> retS False
        | None \<Rightarrow> seqS (os_do (Cont (tk_pid tk) n)) (seqS (os_run (tk_pid tk)) (retS True))))"
    by (intro skel_rules skel_os_run)
  note i3 = same_skel_run [OF f s3]
  have X: "X(tk_leader tk := X (tk_leader tk) + - 1,
       sk_leader k1 := (X(tk_leader tk := X (tk_leader tk) + - 1)) (sk_leader k1) + 1) = X"
    using k1(2) by auto
  show "tasks_inv env X s'" using i2(1) i3(1) k1(3) X by (simp add: skel_def)
  show "grows_but t s s'" using i1(2) i2(2) i3(2) k1 by (fastforce simp: grows_def grows_but_def)
  show "tr_next s' = tr_next s" using i1(3) i2(3) i3(3) by simp
  show "\<exists>k. sk s' t = Some k \<and> \<not> sk_stopped k" using i2(2) i3(2) by simp
qed

end
