(* ===== verification/Trace_Stop.thy ===== *)
theory Trace_Stop
  imports Trace_Invariant
begin

text \<open>
  The invariant through the events of a wait, and what it means for \<open>stop_threads\<close>: when it returns, every thread of the
  process is stopped, and it returns when every thread that runs is reported.
\<close>

subsection \<open>Events of a stopped thread\<close>

lemma child_event_inv:
  assumes "child_event env t ev s = (Inr r, s')" "tasks_inv env X s" "tgid_ok env" "X (tr_next s) = 0"
  shows "tasks_inv env X s' \<and> grows s s'"
proof -
  obtain tk data where tk: "tr_tasks s t = Some tk" and data: "event_msg (tk_pid tk) s = (Inr data, s)"
    and body: "(if ucast data = (0 :: u32) then retS (-1) else
       bindS (pid2task (ucast data)) (\<lambda>r. bindS (case r of Some _ \<Rightarrow> retS True
              | None \<Rightarrow> bindS (task_new env (ucast data)) (\<lambda>c. case c of None \<Rightarrow> retS False
                  | Some child \<Rightarrow> seqS (updT child (\<lambda>tk. tk\<lparr>tk_attached := True\<rparr>)) (retS True))) (\<lambda>ok.
         if \<not> ok then retS (-1) else seqS (set_event t ev (unat (ucast data :: u32))) (retS 0)))) s = (Inr r, s')"
    using assms(1) by (auto simp: child_event_def Let_def bindS_Inr getT_Inr event_msg_def getS_Inr)
  show ?thesis
  proof (cases "ucast data = (0 :: u32) \<or> pid_map s (ucast data) \<noteq> None")
    case True
    have ev: "framed same_skel (seqS (set_event t ev n) (retS (0 :: int)))" for n by (intro skel_rules skel_set_event)
    from True body assms(2) have "s' = s \<or> (\<exists>n. seqS (set_event t ev n) (retS 0) s = (Inr r, s'))"
      by (auto simp: bindS_Inr pid2task_run tasks_inv_def retS_Inr split: if_splits option.splits)
    then show ?thesis using same_skel_run [OF ev] assms(2) grow.refl by metis
  next
    case False
    let ?pid = "ucast data :: u32"
    from False body assms(2) obtain ok s1 where
      s1: "bindS (task_new env ?pid) (\<lambda>c. case c of None \<Rightarrow> retS False
                  | Some child \<Rightarrow> seqS (updT child (\<lambda>tk. tk\<lparr>tk_attached := True\<rparr>)) (retS True)) s = (Inr ok, s1)"
      and s2: "(if \<not> ok then retS (-1) else seqS (set_event t ev (unat ?pid)) (retS 0)) s1 = (Inr r, s')"
      by (auto simp: bindS_Inr pid2task_run tasks_inv_def)
    then obtain c s0 where s0: "task_new env ?pid s = (Inr c, s0)"
      and s1: "(case c of None \<Rightarrow> retS False | Some child \<Rightarrow> seqS (updT child (\<lambda>tk. tk\<lparr>tk_attached := True\<rparr>)) (retS True)) s0 = (Inr ok, s1)"
      by (auto simp: bindS_Inr)
    note i0 = task_new_inv [OF s0 assms(2) _ assms(3,4)]
    have f1: "framed same_skel (case c of None \<Rightarrow> retS False | Some child \<Rightarrow> seqS (updT child (\<lambda>tk. tk\<lparr>tk_attached := True\<rparr>)) (retS True))"
      by (intro skel_rules skel_updT) (simp add: skel_def)
    have f2: "framed same_skel (if \<not> ok then retS (-1 :: int) else seqS (set_event t ev (unat ?pid)) (retS 0))"
      by (intro skel_rules skel_set_event)
    show ?thesis using i0(1,2) same_skel_run [OF f1 s1] same_skel_run [OF f2 s2] False by (meson grow.trans)
  qed
qed

lemma stopped_event_inv:
  assumes "stopped_event env t sig ev s = (Inr r, s')" "tasks_inv env X s" "tgid_ok env" "X (tr_next s) = 0"
  shows "tasks_inv env X s' \<and> grows s s'"
proof (cases "ev \<in> {1, 2, 3}")
  case True
  with assms(1) obtain e where "child_event env t e s = (Inr r, s')" by (auto simp: stopped_event_def)
  then show ?thesis by (rule child_event_inv [OF _ assms(2-4)])
next
  case False
  then have f: "framed same_skel (stopped_event env t sig ev)"
    unfolding stopped_event_def event_msg_def
    by (simp, intro conjI impI skel_rules skel_signal_event skel_set_event skel_updT) (simp_all add: skel_def)
  show ?thesis using same_skel_run [OF f assms(1)] assms(2) by simp
qed

lemma event_set_inv:
  assumes "seqS (set_event t ev n) (retS x) s = (Inr r, s')" "tasks_inv env X s"
  shows "tasks_inv env X s' \<and> grows s s'"
proof -
  have f: "framed same_skel (seqS (set_event t ev n) (retS x))" by (intro skel_rules skel_set_event)
  from same_skel_run [OF f assms(1)] assms(2) show ?thesis by simp
qed

lemma process_event_status_inv:
  assumes "process_event_status env t status s = (Inr r, s')" "tasks_inv env X s" "tgid_ok env" "X (tr_next s) = 0"
    "sk s t = Some k"
  shows "tasks_inv env (X(sk_leader k := X (sk_leader k) + of_bool (sk_stopped k) - 1)) s'" "grows_but t s s'"
    "\<exists>k'. sk s' t = Some k' \<and> sk_pid k' = sk_pid k \<and> sk_leader k' = sk_leader k \<and> sk_stopped k'"
proof -
  let ?X = "X(sk_leader k := X (sk_leader k) + of_bool (sk_stopped k) - 1)"
  obtain s1 tk where s1: "updT t (\<lambda>tk. tk\<lparr>tk_stopped := True\<rparr>) s = (Inr (), s1)" and tk: "tr_tasks s1 t = Some tk"
    and body: "(case status of
         WSignaled n \<Rightarrow> seqS (set_event t EVENT_EXIT_SIGNAL n) (retS 0)
       | WExited n \<Rightarrow> seqS (set_event t EVENT_EXIT n) (retS 0)
       | WOther \<Rightarrow> retS (-1)
       | WStopped sig ev \<Rightarrow>
           if tk_is_new tk \<and> sig = SIGSTOP \<and> ev = 0 then seqS (set_event t EVENT_NEW 0) (retS 0)
           else seqS (whenS (tk_is_new tk \<and> \<not> tk_bad tk) (updT t (\<lambda>tk. tk\<lparr>tk_bad := True\<rparr>))) (stopped_event env t sig ev)) s1 = (Inr r, s')"
    using assms(1) unfolding process_event_status_def seqS_Inr bindS_Inr getT_Inr assertS_Inr by auto
  have sb: "skel (tk\<lparr>tk_stopped := True\<rparr>) = (skel tk)\<lparr>sk_stopped := True\<rparr>" for tk by (simp add: skel_def)
  note i1 = stop_bit_inv [OF s1 assms(2,5) sb, unfolded of_bool_eq(2)]
  have ev: "seqS (set_event t e n) (retS x) s1 = (Inr r, s') \<Longrightarrow> tasks_inv env ?X s' \<and> grows s1 s'" for e n x
    by (rule event_set_inv [OF _ i1(1)])
  have "sk_leader k \<noteq> tr_next s"
    using tasks_inv_sk [OF assms(2,5)] tasks_inv_sk [OF assms(2)] by (fastforce simp: task_ok_def)
  then have x1: "?X (tr_next s1) = 0" using assms(4) i1(3) by simp
  have "tasks_inv env ?X s' \<and> grows s1 s'"
  proof (cases status)
    case (WStopped sig ev)
    show ?thesis
    proof (cases "tk_is_new tk \<and> sig = SIGSTOP \<and> ev = 0")
      case True
      with body WStopped show ?thesis by (intro ev) simp
    next
      case False
      with body WStopped obtain s2 where
        s2: "whenS (tk_is_new tk \<and> \<not> tk_bad tk) (updT t (\<lambda>tk. tk\<lparr>tk_bad := True\<rparr>)) s1 = (Inr (), s2)"
        and s3: "stopped_event env t sig ev s2 = (Inr r, s')" by (auto simp: seqS_Inr)
      have f: "framed same_skel (whenS (tk_is_new tk \<and> \<not> tk_bad tk) (updT t (\<lambda>tk. tk\<lparr>tk_bad := True\<rparr>)))"
        by (intro skel_rules skel_updT) (simp add: skel_def)
      note i2 = same_skel_run [OF f s2]
      from stopped_event_inv [OF s3 _ assms(3), of ?X] i1(1) i2 x1 show ?thesis by (simp add: grow.trans)
    qed
  next
    case (WSignaled n)
    with body show ?thesis by (intro ev) simp
  next
    case (WExited n)
    with body show ?thesis by (intro ev) simp
  next
    case WOther
    with body have "s' = s1" by (simp add: retS_Inr)
    then show ?thesis using i1(1) grow.refl by simp
  qed
  then have i: "tasks_inv env ?X s'" and g: "grows s1 s'" by auto
  show "tasks_inv env ?X s'" by (rule i)
  have "grows_but t s s1" using i1(2) assms(5) by (simp add: grows_but_def)
  then show "grows_but t s s'" using grows_weaken [OF g] by (rule grow_but.trans)
  show "\<exists>k'. sk s' t = Some k' \<and> sk_pid k' = sk_pid k \<and> sk_leader k' = sk_leader k \<and> sk_stopped k'"
  proof -
    have "sk s1 t = Some (k\<lparr>sk_stopped := True\<rparr>)" using i1(2) by simp
    from growsE [OF g this] show ?thesis by auto
  qed
qed

lemma trap_event_inv:
  assumes "trap_event t s = (Inr r, s')" "tasks_inv env X s"
  shows "tasks_inv env X s'" "grows_but t s s'" "r = Some u \<Longrightarrow> u = t \<and> sk s' = sk s"
proof -
  obtain ok s1 where s1: "fetch_task_context t s = (Inr ok, s1)" and
    body: "(if \<not> ok then seqS (updT t (\<lambda>tk. tk\<lparr>tk_event := EVENT_NONE\<rparr>)) (bindS (continue_task t 0) (\<lambda>_. retS None))
       else
         bindS (getT t) (\<lambda>tk.
         bindS (breakpoint_hit t (get_instruction_pointer (tk_regs tk))) (\<lambda>r. case r of
           None \<Rightarrow> retS (Some t)
         | Some b \<Rightarrow>
             bindS (getB b) (\<lambda>bp. seqS (assertS (bp_enabled bp))
               (bindS (breakpoint_get (Some b)) (\<lambda>r.
                  seqS (updT t (\<lambda>tk. tk\<lparr>tk_event := EVENT_BREAKPOINT, tk_ev_bp := r\<rparr>)) (retS (Some t)))))))) s1 = (Inr r, s')"
    using assms(1) by (auto simp: trap_event_def bindS_Inr)
  note i1 = same_skel_run [OF skel_fetch s1]
  have "tasks_inv env X s' \<and> grows_but t s s' \<and> (r = Some u \<longrightarrow> u = t \<and> sk s' = sk s)"
  proof (cases ok)
    case True
    let ?m = "bindS (getT t) (\<lambda>tk.
         bindS (breakpoint_hit t (get_instruction_pointer (tk_regs tk))) (\<lambda>r. case r of
           None \<Rightarrow> retS (Some t)
         | Some b \<Rightarrow>
             bindS (getB b) (\<lambda>bp. seqS (assertS (bp_enabled bp))
               (bindS (breakpoint_get (Some b)) (\<lambda>r.
                  seqS (updT t (\<lambda>tk. tk\<lparr>tk_event := EVENT_BREAKPOINT, tk_ev_bp := r\<rparr>)) (retS (Some t)))))))"
    have f: "framed same_skel ?m"
      by (intro skel_rules skel_updT skel_breakpoint_hit skel_breakpoint_get) (simp add: skel_def)
    have run: "?m s1 = (Inr r, s')" using body True by simp
    note i2 = same_skel_run [OF f run]
    have "r = Some t" using run by (auto simp: top_run split: option.splits)
    then show ?thesis using i1 i2 assms(2) grow_but.trans grows_weaken by (metis option.inject)
  next
    case False
    with body obtain s2 r2 where s2: "updT t (\<lambda>tk. tk\<lparr>tk_event := EVENT_NONE\<rparr>) s1 = (Inr (), s2)"
      and s3: "continue_task t 0 s2 = (Inr r2, s')" and r: "r = None" by (auto simp: top_run)
    have f: "framed same_skel (updT t (\<lambda>tk. tk\<lparr>tk_event := EVENT_NONE\<rparr>))" by (intro skel_updT) (simp add: skel_def)
    note i2 = same_skel_run [OF f s2]
    have "tasks_inv env X s2" using i1(1) i2(1) assms(2) by simp
    note i3 = continue_task_inv [OF s3 this]
    show ?thesis using i3(1,2) r grows_weaken [OF i1(4)] grows_weaken [OF i2(4)] by (metis grow_but.trans option.distinct(1))
  qed
  then show "tasks_inv env X s'" "grows_but t s s'" "r = Some u \<Longrightarrow> u = t \<and> sk s' = sk s" by auto
qed

text \<open>An event of a running thread keeps the invariant; the task it returns is stopped.\<close>

lemma process_event_inv:
  assumes "process_event env t status s = (Inr r, s')" "tasks_inv env X s" "tgid_ok env" "X (tr_next s) = 0"
  shows "tasks_inv env X s' \<and> grows_but t s s' \<and> (\<forall>u. r = Some u \<longrightarrow> u = t \<and> (\<exists>k. sk s' t = Some k \<and> sk_stopped k))"
proof -
  obtain tk s1 s2 sig where tk: "tr_tasks s t = Some tk" "\<not> tk_stopped tk" and s1: "add_stopped t 1 s = (Inr (), s1)"
    and s2: "process_event_status env t status s1 = (Inr sig, s2)"
    and body: "(if sig < 0 then bindS (continue_task t 0) (\<lambda>_. retS None)
          else
            bindS (getT t) (\<lambda>tk.
              if tk_event tk = EVENT_NONE then bindS (continue_task t (tk_ev_num tk)) (\<lambda>_. retS None)
              else if sig \<noteq> int SIGTRAP then retS (Some t)
              else trap_event t)) s2 = (Inr r, s')"
    using assms(1) unfolding process_event_def bindS_Inr seqS_Inr getT_Inr assertS_Inr by auto
  have k: "sk s t = Some (skel tk)" using tk by (simp add: sk_Some)
  note i1 = add_stopped_inv [OF s1 assms(2) k]
  from growsE [OF i1(2) k] tk(2) obtain k1 where k1: "sk s1 t = Some k1" "sk_leader k1 = tk_leader tk" "\<not> sk_stopped k1" by auto
  let ?X = "X(tk_leader tk := X (tk_leader tk) + 1)"
  have "tk_leader tk \<noteq> tr_next s"
    using tasks_inv_sk [OF assms(2) k] tasks_inv_sk [OF assms(2)] by (fastforce simp: task_ok_def)
  then have x: "?X (tr_next s1) = 0" using assms(4) i1(3) by simp
  note i2 = process_event_status_inv [OF s2 i1(1) [unfolded skel_sel] assms(3) x k1(1)]
  have X: "?X(sk_leader k1 := ?X (sk_leader k1) + of_bool (sk_stopped k1) - 1) = X" using k1(2,3) by auto
  have i2': "tasks_inv env X s2" using i2(1) by (simp only: X)
  have g2: "grows_but t s s2" using grows_weaken [OF i1(2)] i2(2) by (rule grow_but.trans)
  have cont: ?thesis if "continue_task t n s2 = (Inr q, s')" "r = None" for n q
    using continue_task_inv [OF that(1) i2'] that(2) grow_but.trans [OF g2] by simp
  show ?thesis
  proof (cases "sig < 0")
    case True
    with body cont show ?thesis by (auto simp: top_run)
  next
    case False
    with body obtain tk2 where tk2: "tr_tasks s2 t = Some tk2" and
      body: "(if tk_event tk2 = EVENT_NONE then bindS (continue_task t (tk_ev_num tk2)) (\<lambda>_. retS None)
              else if sig \<noteq> int SIGTRAP then retS (Some t) else trap_event t) s2 = (Inr r, s')" by (auto simp: top_run)
    consider "tk_event tk2 = EVENT_NONE" | "tk_event tk2 \<noteq> EVENT_NONE" "sig \<noteq> int SIGTRAP" | "tk_event tk2 \<noteq> EVENT_NONE" "sig = int SIGTRAP" by blast
    then show ?thesis
    proof cases
      case 1
      with body cont show ?thesis by (auto simp: top_run)
    next
      case 2
      with body have "r = Some t" "s' = s2" by (auto simp: top_run)
      then show ?thesis using i2' g2 i2(3) by auto
    next
      case 3
      with body have "trap_event t s2 = (Inr r, s')" by simp
      note i3 = trap_event_inv [OF this i2']
      show ?thesis using i3 i2(3) grow_but.trans [OF g2 i3(2)] by auto
    qed
  qed
qed

subsection \<open>Waiting\<close>

lemma trace_setup_inv:
  assumes "trace_setup t status signum s = (Inr r, s')" "tasks_inv env X s" "sk s t = Some k" "\<not> sk_stopped k"
  shows "tasks_inv env X s'" "grows_but t s s'"
proof -
  have "tasks_inv env X s' \<and> grows_but t s s'"
  proof (cases status)
    case (WStopped sig ev)
    with assms(1) obtain s1 s2 where s1: "updT t (\<lambda>tk. tk\<lparr>tk_attached := True, tk_stopped := True\<rparr>) s = (Inr (), s1)"
      and s2: "add_stopped t 1 s1 = (Inr (), s2)"
      and s3: "seqS (set_event t EVENT_NEW 0)
          (if sig \<noteq> signum then seqS (set_event t EVENT_NEW sig) (retS False) else retS True) s2 = (Inr r, s')"
      by (auto simp: trace_setup_def seqS_Inr)
    have sb: "skel (tk\<lparr>tk_attached := True, tk_stopped := True\<rparr>) = (skel tk)\<lparr>sk_stopped := True\<rparr>" for tk by (simp add: skel_def)
    note i1 = stop_bit_inv [OF s1 assms(2,3) sb]
    have k1: "sk s1 t = Some (k\<lparr>sk_stopped := True\<rparr>)" using i1(2) by simp
    note i2 = add_stopped_inv [OF s2 i1(1) k1]
    have f: "framed same_skel (seqS (set_event t EVENT_NEW 0)
          (if sig \<noteq> signum then seqS (set_event t EVENT_NEW sig) (retS False) else retS True))"
      by (intro skel_rules skel_set_event)
    note i3 = same_skel_run [OF f s3]
    let ?X = "X(sk_leader k := X (sk_leader k) + of_bool (sk_stopped k) - of_bool True)" and ?k = "k\<lparr>sk_stopped := True\<rparr>"
    have X: "?X(sk_leader ?k := ?X (sk_leader ?k) + 1) = X" using assms(4) by auto
    have "tasks_inv env X s2" using i2(1) by (simp only: X)
    moreover have "grows_but t s s1" using i1(2) assms(3) by (simp add: grows_but_def)
    ultimately show ?thesis using i3(1) grows_weaken [OF i2(2)] grows_weaken [OF i3(4)] by (meson grow_but.trans)
  qed (use assms(1,2) grow_but.refl in \<open>auto simp: trace_setup_def retS_Inr\<close>)
  then show "tasks_inv env X s'" "grows_but t s s'" by auto
qed

lemma set_exit_event_inv: "framed same_skel (set_exit_event t status)"
  unfolding set_exit_event_def event_msg_def
  by (intro skel.bind skel.task, cases status) (auto intro!: skel_rules skel_set_event)

text \<open>A wait keeps the invariant, and a task it returns is stopped.\<close>

lemma wait_event_inv:
  assumes "wait_event env s = (Inr r, s')" "tasks_inv env (\<lambda>_. 0) s" "tgid_ok env"
  shows "tasks_inv env (\<lambda>_. 0) s' \<and> (\<forall>t. r = Some t \<longrightarrow> (\<exists>k. sk s' t = Some k \<and> sk_stopped k))"
proof -
  obtain w s1 where s1: "wait_any s = (Inr w, s1)" and
    body: "(case w of
       None \<Rightarrow> retS None
     | Some (pid, status) \<Rightarrow>
         bindS (getS tr_wakeup) (\<lambda>wakeup.
           if wakeup = Some pid then seqS (modS (\<lambda>s. s\<lparr>tr_wakeup := None\<rparr>)) (retS None)
           else
             bindS (pid2task pid) (\<lambda>r. case r of
               None \<Rightarrow>
                 bindS (task_new env pid) (\<lambda>c. case c of
                   None \<Rightarrow> retS None
                 | Some t \<Rightarrow> bindS (trace_setup t status SIGSTOP) (\<lambda>_. retS None))
             | Some t \<Rightarrow>
                 bindS (getT t) (\<lambda>tk.
                 bindS (if tk_stopped tk then set_exit_event t status else retS False) (\<lambda>done.
                   if done then retS None else process_event env t status))))) s1 = (Inr r, s')"
    using assms(1) by (auto simp: wait_event_def bindS_Inr)
  note i1 = same_skel_run [OF skel_wait_any s1]
  have t1: "tasks_inv env (\<lambda>_. 0) s1" using i1(1) assms(2) by simp
  then have h: "hash_ok s1" by (simp add: tasks_inv_def)
  show ?thesis
  proof (cases "\<exists>pid status. w = Some (pid, status) \<and> tr_wakeup s1 \<noteq> Some pid")
    case False
    have f: "framed same_skel (modS (\<lambda>s. s\<lparr>tr_wakeup := None\<rparr>))" by (intro skel_modS) simp_all
    from False body have "r = None \<and> (s' = s1 \<or> modS (\<lambda>s. s\<lparr>tr_wakeup := None\<rparr>) s1 = (Inr (), s'))"
      by (auto simp: top_run split: option.splits)
    then show ?thesis using t1 same_skel_run [OF f] by auto
  next
    case True
    then obtain pid status where w: "w = Some (pid, status)" "tr_wakeup s1 \<noteq> Some pid" by blast
    show ?thesis
    proof (cases "pid_map s1 pid")
      case None
      with body w h obtain c s2 where s2: "task_new env pid s1 = (Inr c, s2)" and
        s3: "(case c of None \<Rightarrow> retS None | Some t \<Rightarrow> bindS (trace_setup t status SIGSTOP) (\<lambda>_. retS None)) s2 = (Inr r, s')"
        by (auto simp: bindS_Inr getS_Inr pid2task_run)
      note i2 = task_new_inv [OF s2 t1 None assms(3)]
      show ?thesis
      proof (cases c)
        case None
        with s3 i2(1) show ?thesis by (auto simp: retS_Inr)
      next
        case (Some t)
        with s3 obtain q where q: "trace_setup t status SIGSTOP s2 = (Inr q, s')" and r: "r = None" by (auto simp: top_run)
        from i2(3) [OF _ Some] obtain k where "sk s2 t = Some k" "\<not> sk_stopped k" by auto
        from trace_setup_inv [OF q _ this] i2(1) r show ?thesis by auto
      qed
    next
      case (Some t)
      with body w h obtain tk d s2 where tk: "tr_tasks s1 t = Some tk" and
        s2: "(if tk_stopped tk then set_exit_event t status else retS False) s1 = (Inr d, s2)" and
        s3: "(if d then retS None else process_event env t status) s2 = (Inr r, s')"
        by (auto simp: bindS_Inr getS_Inr getT_Inr pid2task_run)
      have f: "framed same_skel (if tk_stopped tk then set_exit_event t status else retS False)"
        by (intro skel_rules set_exit_event_inv)
      note i2 = same_skel_run [OF f s2]
      have t2: "tasks_inv env (\<lambda>_. 0) s2" using i2(1) t1 by simp
      show ?thesis
      proof (cases d)
        case True
        with s3 t2 show ?thesis by (auto simp: retS_Inr)
      next
        case False
        with s3 have "process_event env t status s2 = (Inr r, s')" by simp
        from process_event_inv [OF this t2 assms(3)] show ?thesis by auto
      qed
    qed
  qed
qed

lemma next_event_inv:
  assumes "next_event env s = (Inr r, s')" "tasks_inv env (\<lambda>_. 0) s" "tgid_ok env"
  shows "tasks_inv env (\<lambda>_. 0) s'"
proof (cases "tr_queue s")
  case Nil
  with assms(1) have "wait_event env s = (Inr r, s')" by (simp add: next_event_def bindS_Inr getS_Inr)
  from wait_event_inv [OF this assms(2,3)] show ?thesis by simp
next
  case (Cons t q)
  have f: "framed same_skel (modS (\<lambda>s. s\<lparr>tr_queue := q\<rparr>))" by (intro skel_modS) simp_all
  from assms(1) Cons have "modS (\<lambda>s. s\<lparr>tr_queue := q\<rparr>) s = (Inr (), s')" by (auto simp: next_event_def top_run)
  from same_skel_run [OF f this] assms(2) show ?thesis by simp
qed

lemma stop_loop_inv:
  assumes "stop_loop env l fuel s = (Inr u, s')" "tasks_inv env (\<lambda>_. 0) s" "tgid_ok env"
  shows "tasks_inv env (\<lambda>_. 0) s' \<and> (\<exists>lk. tr_tasks s' l = Some lk \<and> tk_threads lk = tk_threads_stopped lk)"
  using assms(1,2)
proof (induction fuel arbitrary: s)
  case 0
  then show ?case by (auto simp: top_run split: if_splits)
next
  case (Suc n)
  from Suc.prems(1) obtain lk where lk: "tr_tasks s l = Some lk" by (auto simp: top_run)
  show ?case
  proof (cases "tk_threads lk = tk_threads_stopped lk")
    case True
    with Suc.prems lk show ?thesis by (auto simp: top_run)
  next
    case False
    with Suc.prems(1) lk obtain r s1 s2 where s1: "wait_event env s = (Inr r, s1)"
      and s2: "(case r of None \<Rightarrow> retS () | Some t \<Rightarrow> queue_event t) s1 = (Inr (), s2)"
      and s3: "stop_loop env l n s2 = (Inr u, s')" by (auto simp: top_run)
    have f: "framed same_skel (case r of None \<Rightarrow> retS () | Some t \<Rightarrow> queue_event t)" by (intro skel_rules skel_queue_event)
    have "tasks_inv env (\<lambda>_. 0) s2"
      using same_skel_run(1) [OF f s2] wait_event_inv [OF s1 Suc.prems(2) assms(3)] by simp
    from Suc.IH [OF s3 this] show ?thesis .
  qed
qed

subsection \<open>Leaders stay\<close>

definition keeps_leaders :: "tracer \<Rightarrow> tracer \<Rightarrow> bool" where
  "keeps_leaders s s' \<longleftrightarrow> set (tr_leaders s) \<subseteq> set (tr_leaders s')"

interpretation lead: kept keeps_leaders
  by unfold_locales (auto simp: keeps_leaders_def)

lemma lead_skel: "framed same_skel m \<Longrightarrow> framed keeps_leaders m"
  by (erule framed_mono) (simp add: same_skel_def keeps_leaders_def)

lemma lead_updT: "framed keeps_leaders (updT t f)"
  by (auto simp: framed_def updT_Inr keeps_leaders_def)

lemma lead_modS: "(\<And>s. set (tr_leaders s) \<subseteq> set (tr_leaders (f s))) \<Longrightarrow> framed keeps_leaders (modS f)"
  by (intro lead.modify) (simp add: keeps_leaders_def)

lemmas lead_rules = lead.rules lead_updT skel_updB [THEN lead_skel] skel_os_do [THEN lead_skel] skel_os_run [THEN lead_skel]

lemma lead_task_new: "framed keeps_leaders (task_new env pid)"
proof -
  have pos: "framed keeps_leaders (pid_pos ts p)" for ts p
    by (induction ts) (simp_all, intro lead_rules, intro lead_rules)
  show ?thesis
    unfolding task_new_def task_init_def task_link_def breakpoint_setup_def insert_pid_def set_bucket_def pid2task_def Let_def
    by (intro lead_rules lead_modS pos skel_arch_task_init [THEN lead_skel] skel_os_task_init [THEN lead_skel]
        skel_hw_destroy [THEN lead_skel]) auto
qed

lemma lead_pid2task: "framed keeps_leaders (pid2task pid)"
proof -
  have pos: "framed keeps_leaders (pid_pos ts p)" for ts p
    by (induction ts) (simp_all, intro lead_rules, intro lead_rules)
  show ?thesis unfolding pid2task_def by (intro lead_rules pos)
qed

lemma lead_child_event: "framed keeps_leaders (child_event env t ev)"
  unfolding child_event_def event_msg_def Let_def
  by (intro lead_rules lead_pid2task lead_task_new skel_set_event [THEN lead_skel])

lemma lead_process_event_status: "framed keeps_leaders (process_event_status env t status)"
  unfolding process_event_status_def stopped_event_def event_msg_def
  by (cases status) (simp_all only: wstatus.case, (intro lead_rules lead_child_event skel_set_event [THEN lead_skel] skel_signal_event [THEN lead_skel])+)

lemma lead_continue_task: "framed keeps_leaders (continue_task t n)"
  unfolding continue_task_def add_stopped_def by (intro lead_rules)

lemma lead_trap_event: "framed keeps_leaders (trap_event t)"
  unfolding trap_event_def
  by (intro lead_rules lead_continue_task skel_fetch [THEN lead_skel] skel_breakpoint_hit [THEN lead_skel] skel_breakpoint_get [THEN lead_skel])

lemma lead_wait_event: "framed keeps_leaders (wait_event env)"
proof -
  have "framed keeps_leaders (trace_setup t status sig)" for t status sig
    unfolding trace_setup_def add_stopped_def by (cases status) (auto intro!: lead_rules skel_set_event [THEN lead_skel])
  then show ?thesis
    unfolding wait_event_def process_event_def add_stopped_def
    by (intro lead_rules lead_modS lead_continue_task lead_trap_event lead_process_event_status lead_task_new lead_pid2task
        skel_wait_any [THEN lead_skel] set_exit_event_inv [THEN lead_skel]) auto
qed

lemma lead_stop_loop: "framed keeps_leaders (stop_loop env l fuel)"
proof (induction fuel)
  case 0
  show ?case unfolding stop_loop.simps by (intro lead_rules)
next
  case (Suc n)
  show ?case unfolding stop_loop.simps by (intro lead_rules lead_wait_event skel_queue_event [THEN lead_skel] Suc)
qed

subsection \<open>All threads are stopped\<close>

lemma stopped_in_le: "stopped_in K ts \<le> length ts"
  by (simp add: stopped_in_def)

lemma stopped_in_all: "stopped_in K ts = length ts \<longleftrightarrow> (\<forall>t \<in> set ts. \<exists>k. K t = Some k \<and> sk_stopped k)"
proof -
  have "length (filter P ts) = length ts \<longleftrightarrow> (\<forall>t \<in> set ts. P t)" for P :: "nat \<Rightarrow> bool"
    by (metis filter_id_conv length_filter_less less_irrefl)
  then show ?thesis unfolding stopped_in_def by (auto split: option.splits)
qed

text \<open>The counters of a process of fewer than \<open>2 ^ 32\<close> threads are compared as the numbers they stand for.\<close>

lemma group_counts:
  assumes "group_ok (\<lambda>_. 0) K l" "K l = Some k" "length (l # sk_list k) < 2 ^ 32"
  shows "sk_threads k = sk_threads_stopped k \<longleftrightarrow> (\<forall>t \<in> set (l # sk_list k). \<exists>k. K t = Some k \<and> sk_stopped k)"
    "sk_threads k \<noteq> sk_threads_stopped k \<Longrightarrow> sk_threads_stopped k < sk_threads k"
proof -
  let ?n = "length (l # sk_list k)" and ?m = "stopped_in K (l # sk_list k)"
  have c: "sk_threads k = of_nat ?n" "sk_threads_stopped k = of_nat ?m" using assms(1,2) by (auto simp: group_ok_def)
  have le: "?m \<le> ?n" by (rule stopped_in_le)
  have u: "unat (of_nat ?n :: u32) = ?n" "unat (of_nat ?m :: u32) = ?m"
  proof -
    have "i < 2 ^ 32 \<Longrightarrow> unat (of_nat i :: u32) = i" for i by (simp add: unat_of_nat take_bit_nat_eq_self)
    from this [of ?n] this [of ?m] assms(3) le show "unat (of_nat ?n :: u32) = ?n" "unat (of_nat ?m :: u32) = ?m" by linarith+
  qed
  have "sk_threads k = sk_threads_stopped k \<longleftrightarrow> ?n = ?m" unfolding c using u by metis
  then show "sk_threads k = sk_threads_stopped k \<longleftrightarrow> (\<forall>t \<in> set (l # sk_list k). \<exists>k. K t = Some k \<and> sk_stopped k)"
    using stopped_in_all [of K "l # sk_list k"] by auto
  show "sk_threads k \<noteq> sk_threads_stopped k \<Longrightarrow> sk_threads_stopped k < sk_threads k"
    unfolding c using u le by (metis le_neq_implies_less word_less_nat_alt)
qed

lemma stop_threads_inv:
  assumes "stop_threads env t s = (Inr u, s')" "tasks_inv env (\<lambda>_. 0) s" "tgid_ok env" "tr_tasks s t = Some tk"
  shows "tasks_inv env (\<lambda>_. 0) s' \<and> tk_leader tk \<in> set (tr_leaders s') \<and>
    (\<exists>lk. tr_tasks s' (tk_leader tk) = Some lk \<and> tk_threads lk = tk_threads_stopped lk)"
proof -
  have k: "sk s t = Some (skel tk)" using assms(4) by (simp add: sk_Some)
  from tasks_inv_sk [OF assms(2) k] obtain lk where lk: "tr_tasks s (tk_leader tk) = Some lk" "tk_leader tk \<in> set (tr_leaders s)"
    by (auto simp: task_ok_def sk_Some)
  show ?thesis
  proof (cases "tk_threads lk = tk_threads_stopped lk")
    case True
    with assms lk show ?thesis by (auto simp: stop_threads_def top_run Let_def)
  next
    case False
    with assms(1,4) lk(1) obtain s1 fuel where s1: "each_task (tk_leader tk) do_stop_cb s = (Inr (), s1)"
      and s2: "stop_loop env (tk_leader tk) fuel s1 = (Inr u, s')" by (auto simp: stop_threads_def top_run Let_def simp del: stop_loop.simps)
    have f: "framed same_skel (each_task (tk_leader tk) do_stop_cb)" by (intro skel_rules skel_do_stop_cb)
    have "tasks_inv env (\<lambda>_. 0) s1" "tr_leaders s1 = tr_leaders s"
      using same_skel_run(1) [OF f s1] framedD [OF f s1] assms(2) by (simp_all add: same_skel_def)
    with stop_loop_inv [OF s2 _ assms(3)] framedD [OF lead_stop_loop s2] lk(2) show ?thesis by (auto simp: keeps_leaders_def)
  qed
qed

subsection \<open>Every running thread is reported\<close>

text \<open>What a wait reads of a task but the counters.\<close>

definition view :: "task \<Rightarrow> u32 \<times> nat \<times> bool \<times> event_type \<times> nat list" where
  "view tk = (tk_pid tk, tk_leader tk, tk_stopped tk, tk_event tk, tk_task_list tk)"

definition views :: "tracer \<Rightarrow> nat \<Rightarrow> (u32 \<times> nat \<times> bool \<times> event_type \<times> nat list) option" where
  "views s t = map_option view (tr_tasks s t)"

text \<open>A report of a running thread that was stopped by a signal other than the trap.\<close>

definition plain_report :: "tracer \<Rightarrow> wait_item \<Rightarrow> nat \<Rightarrow> bool" where
  "plain_report s w t \<longleftrightarrow> (\<exists>tk. tr_tasks s t = Some tk \<and> wi_pid w = tk_pid tk \<and> \<not> tk_stopped tk \<and> tk_event tk = EVENT_NONE) \<and>
     (\<exists>sig. wi_status w = WStopped sig 0 \<and> sig \<noteq> SIGTRAP) \<and> tr_wakeup s \<noteq> Some (wi_pid w)"

lemma add_stopped_run:
  assumes "tr_tasks s t = Some tk" "tr_tasks s (tk_leader tk) = Some lk"
  shows "add_stopped t n s = (Inr (), s\<lparr>tr_tasks := (tr_tasks s)(tk_leader tk \<mapsto> lk\<lparr>tk_threads_stopped := tk_threads_stopped lk + n\<rparr>)\<rparr>)"
  using assms by (simp add: add_stopped_def bindS_def getT_def updT_def)

lemma updT_run: "tr_tasks s t = Some tk \<Longrightarrow> updT t f s = (Inr (), s\<lparr>tr_tasks := (tr_tasks s)(t \<mapsto> f tk)\<rparr>)"
  by (simp add: updT_def)

lemma process_event_status_plain:
  assumes "tr_tasks s t = Some tk" "tk_event tk = EVENT_NONE" "sig \<noteq> SIGTRAP"
  shows "\<exists>n ev bad. process_event_status env t (WStopped sig 0) s =
      (Inr (int n), s\<lparr>tr_tasks := (tr_tasks s)(t \<mapsto> tk\<lparr>tk_stopped := True, tk_bad := bad, tk_event := ev, tk_ev_num := n\<rparr>)\<rparr>) \<and>
    n \<noteq> SIGTRAP \<and> ev \<noteq> EVENT_NONE"
proof (cases "tk_is_new tk \<and> sig = SIGSTOP")
  case True
  have "process_event_status env t (WStopped sig 0) s =
    (Inr (int 0), s\<lparr>tr_tasks := (tr_tasks s)(t \<mapsto> tk\<lparr>tk_stopped := True, tk_bad := tk_bad tk, tk_event := EVENT_NEW, tk_ev_num := 0\<rparr>)\<rparr>)"
    using assms(1,2) True
    by (simp add: process_event_status_def seqS_def bindS_def getT_def updT_run assertS_def set_event_def retS_def)
  then show ?thesis by (intro exI [of _ 0] exI [of _ EVENT_NEW] exI [of _ "tk_bad tk"]) (simp add: SIGTRAP_def)
next
  case False
  define bad where "bad = (tk_is_new tk \<or> tk_bad tk)"
  let ?tk = "tk\<lparr>tk_stopped := True, tk_bad := bad\<rparr>"
  let ?s = "s\<lparr>tr_tasks := (tr_tasks s)(t \<mapsto> ?tk)\<rparr>"
  define g where "g = (if os_ptrace s (tk_pid tk) = None then wi_sender (os_stop s (tk_pid tk)) else None)"
  define n where "n = (if sig = SIGSTOP \<and> (g = None \<or> g = Some (te_mtrace_pid env)) then 0 else sig)"
  have g: "sig_sender (tk_pid tk) ?s = (Inr g, ?s)" by (simp add: sig_sender_def getS_def g_def)
  have n: "n \<noteq> SIGTRAP" using assms(3) by (simp add: SIGTRAP_def n_def)
  have "process_event_status env t (WStopped sig 0) s = stopped_event env t sig 0 ?s"
  proof (cases "tk_is_new tk \<and> \<not> tk_bad tk")
    case True
    with assms(1,2) False show ?thesis
      by (simp add: process_event_status_def seqS_def bindS_def getT_def updT_run assertS_def retS_def whenS_def bad_def)
  next
    case bad: False
    then have "?tk = tk\<lparr>tk_stopped := True\<rparr>" by (auto simp: bad_def)
    with assms(1,2) False bad show ?thesis
      by (auto simp: process_event_status_def seqS_def bindS_def getT_def updT_run assertS_def retS_def whenS_def)
  qed
  also have "\<dots> = (Inr (int n), s\<lparr>tr_tasks := (tr_tasks s)(t \<mapsto> ?tk\<lparr>tk_event := EVENT_SIGNAL, tk_ev_num := n\<rparr>)\<rparr>)"
    by (simp add: stopped_event_def signal_event_def bindS_def getT_def g Let_def seqS_def set_event_def updT_run retS_def flip: n_def)
  finally show ?thesis using n by (intro exI [of _ n] exI [of _ EVENT_SIGNAL] exI [of _ bad]) simp
qed

lemma process_event_plain:
  assumes tk: "tr_tasks s t = Some tk" "\<not> tk_stopped tk" "tk_event tk = EVENT_NONE" and lk: "tr_tasks s (tk_leader tk) = Some lk"
    and sig: "sig \<noteq> SIGTRAP" and lead: "tk_leader lk = tk_leader tk"
  shows "\<exists>ts tk'. process_event env t (WStopped sig 0) s = (Inr (Some t), s\<lparr>tr_tasks := ts\<rparr>) \<and>
    (\<forall>u. u \<noteq> t \<longrightarrow> map_option view (ts u) = views s u) \<and>
    ts t = Some tk' \<and> tk_stopped tk' \<and> tk_event tk' \<noteq> EVENT_NONE \<and> tk_task_list tk' = tk_task_list tk"
proof -
  define tk1 where "tk1 = (if t = tk_leader tk then tk\<lparr>tk_threads_stopped := tk_threads_stopped lk + 1\<rparr> else tk)"
  let ?ts = "(tr_tasks s)(tk_leader tk \<mapsto> lk\<lparr>tk_threads_stopped := tk_threads_stopped lk + 1\<rparr>)"
  let ?s = "s\<lparr>tr_tasks := ?ts\<rparr>"
  have 1: "tr_tasks ?s t = Some tk1" "tk_event tk1 = EVENT_NONE" using tk lk by (auto simp: tk1_def)
  from process_event_status_plain [OF 1 sig, of env] obtain n ev bad where
    2: "process_event_status env t (WStopped sig 0) ?s =
        (Inr (int n), ?s\<lparr>tr_tasks := ?ts(t \<mapsto> tk1\<lparr>tk_stopped := True, tk_bad := bad, tk_event := ev, tk_ev_num := n\<rparr>)\<rparr>)"
      "n \<noteq> SIGTRAP" "ev \<noteq> EVENT_NONE" by auto
  have run: "process_event env t (WStopped sig 0) s =
    (Inr (Some t), s\<lparr>tr_tasks := ?ts(t \<mapsto> tk1\<lparr>tk_stopped := True, tk_bad := bad, tk_event := ev, tk_ev_num := n\<rparr>)\<rparr>)"
    using tk(1,2) 2 by (simp add: process_event_def bindS_def seqS_def getT_def assertS_def retS_def add_stopped_run [OF tk(1) lk])
  have "map_option view ((?ts(t \<mapsto> tk1\<lparr>tk_stopped := True, tk_bad := bad, tk_event := ev, tk_ev_num := n\<rparr>)) u) = views s u" if "u \<noteq> t" for u
    using that lk by (simp add: views_def view_def)
  then show ?thesis using run 2(3)
    by (intro exI [of _ "?ts(t \<mapsto> tk1\<lparr>tk_stopped := True, tk_bad := bad, tk_event := ev, tk_ev_num := n\<rparr>)"]
        exI [of _ "tk1\<lparr>tk_stopped := True, tk_bad := bad, tk_event := ev, tk_ev_num := n\<rparr>"]) (simp add: tk1_def)
qed

lemma wait_event_plain:
  assumes "tasks_inv env (\<lambda>_. 0) s" "os_waits s = w # ws" "plain_report s w t" "tr_tasks s t = Some tk0"
  shows "\<exists>s1 tk'. wait_event env s = (Inr (Some t), s1) \<and> os_waits s1 = ws \<and> tr_queue s1 = tr_queue s \<and> tr_wakeup s1 = tr_wakeup s \<and>
    (\<forall>u. u \<noteq> t \<longrightarrow> views s1 u = views s u) \<and> tr_tasks s1 t = Some tk' \<and> tk_stopped tk' \<and> tk_event tk' \<noteq> EVENT_NONE \<and>
    tk_task_list tk' = tk_task_list tk0"
proof -
  obtain tk sig where tk: "tr_tasks s t = Some tk" "wi_pid w = tk_pid tk" "\<not> tk_stopped tk" "tk_event tk = EVENT_NONE"
    and sig: "wi_status w = WStopped sig 0" "sig \<noteq> SIGTRAP" and wake: "tr_wakeup s \<noteq> Some (wi_pid w)"
    using assms(3) by (auto simp: plain_report_def)
  let ?s = "os_report w (s\<lparr>os_waits := ws\<rparr>)"
  have eqs: "tr_tasks ?s = tr_tasks s" "tr_pid_hash ?s = tr_pid_hash s" "tr_wakeup ?s = tr_wakeup s" "tr_queue ?s = tr_queue s"
    "os_waits ?s = ws" by (simp_all add: os_report_def)
  have p: "pid_of ?s = pid_of s" by (simp add: pid_of_def fun_eq_iff eqs)
  have k: "task_ok env s t (skel tk)" using tasks_inv_sk [OF assms(1)] tk(1) by (simp add: sk_Some)
  then obtain lk where lk: "tr_tasks s (tk_leader tk) = Some lk" "tk_leader tk \<in> set (tr_leaders s)" by (auto simp: task_ok_def sk_Some)
  then have lead: "tk_leader lk = tk_leader tk" using assms(1) by (auto simp: tasks_inv_def group_ok_def sk_Some)
  have found: "pid2task (wi_pid w) ?s = (Inr (Some t), ?s)"
    using hash_cong [OF p eqs(2)] assms(1) k tk(2) by (simp add: pid2task_run tasks_inv_def task_ok_def)
  from process_event_plain [of ?s, unfolded eqs views_def, OF tk(1,3,4) lk(1) sig(2) lead, of env] obtain ts tk' where
    ev: "process_event env t (WStopped sig 0) ?s = (Inr (Some t), ?s\<lparr>tr_tasks := ts\<rparr>)"
      "\<forall>u. u \<noteq> t \<longrightarrow> map_option view (ts u) = map_option view (tr_tasks s u)" "ts t = Some tk'" "tk_stopped tk'" "tk_event tk' \<noteq> EVENT_NONE"
      "tk_task_list tk' = tk_task_list tk" by blast
  have "wait_any s = (Inr (Some (wi_pid w, wi_status w)), ?s)"
    using assms(2) by (simp add: wait_any_def bindS_def getS_def seqS_def modS_def retS_def)
  then have "wait_event env s = (Inr (Some t), ?s\<lparr>tr_tasks := ts\<rparr>)"
    using wake found tk sig(1) ev(1) by (simp add: wait_event_def bindS_def getS_def getT_def retS_def eqs)
  then show ?thesis using ev eqs tk(1) assms(4) by (intro exI [of _ "?s\<lparr>tr_tasks := ts\<rparr>"] exI [of _ tk']) (simp add: views_def)
qed

text \<open>The threads of a process that run.\<close>

definition running :: "tracer \<Rightarrow> nat \<Rightarrow> nat set" where
  "running s l = {t. \<exists>lk tk. tr_tasks s l = Some lk \<and> t \<in> set (l # tk_task_list lk) \<and> tr_tasks s t = Some tk \<and> \<not> tk_stopped tk}"

definition process_size :: "tracer \<Rightarrow> nat \<Rightarrow> nat" where
  "process_size s l = (case tr_tasks s l of None \<Rightarrow> 0 | Some lk \<Rightarrow> Suc (length (tk_task_list lk)))"

lemma leader_counts:
  assumes "tasks_inv env (\<lambda>_. 0) s" "l \<in> set (tr_leaders s)" "process_size s l < 2 ^ 32"
  shows "\<exists>lk. tr_tasks s l = Some lk \<and> (tk_threads lk = tk_threads_stopped lk \<longleftrightarrow> running s l = {}) \<and>
    (running s l \<noteq> {} \<longrightarrow> tk_threads_stopped lk < tk_threads lk)"
proof -
  have g: "group_ok (\<lambda>_. 0) (sk s) l" using assms(1,2) by (simp add: tasks_inv_def)
  then obtain lk where lk: "tr_tasks s l = Some lk" by (auto simp: group_ok_def sk_Some)
  have k: "sk s l = Some (skel lk)" "length (l # sk_list (skel lk)) < 2 ^ 32"
    using lk assms(3) by (simp_all add: sk_Some process_size_def)
  have "(\<forall>t \<in> set (l # tk_task_list lk). \<exists>k. sk s t = Some k \<and> sk_stopped k) \<longleftrightarrow> running s l = {}"
    using g lk by (fastforce simp: running_def sk_Some group_ok_def)
  with group_counts [OF g k] lk show ?thesis by auto
qed

lemma views_eq:
  assumes "\<forall>u. u \<noteq> t \<longrightarrow> views s1 u = views s u" "tr_tasks s u = Some tk" "u \<noteq> t"
  obtains tk1 where "tr_tasks s1 u = Some tk1" "view tk1 = view tk"
proof -
  from assms have "map_option view (tr_tasks s1 u) = Some (view tk)" unfolding views_def by fastforce
  then show thesis using that by auto
qed

text \<open>
  With a report for every running thread the loop ends, having queued the events of the threads in the order of the
  reports.
\<close>

lemma stop_loop_ends:
  assumes "tasks_inv env (\<lambda>_. 0) s" "tgid_ok env" "l \<in> set (tr_leaders s)" "process_size s l < 2 ^ 32"
    "list_all2 (plain_report s) ws ts" "distinct ts" "set ts = running s l" "set ts \<inter> set (tr_queue s) = {}"
    "os_waits s = ws @ rest" "length ws \<le> fuel"
  shows "\<exists>s'. stop_loop env l fuel s = (Inr (), s') \<and> tr_queue s' = tr_queue s @ ts \<and> os_waits s' = rest \<and> process_size s' l = process_size s l"
  using assms
proof (induction ts arbitrary: s ws fuel)
  case Nil
  then have ws: "ws = []" and none: "running s l = {}" by auto
  from leader_counts [OF Nil.prems(1,3,4)] none obtain lk where "tr_tasks s l = Some lk" "tk_threads lk = tk_threads_stopped lk" by auto
  then show ?case using Nil.prems(9) ws by (cases fuel) (simp_all add: bindS_def getT_def retS_def)
next
  case (Cons t ts)
  from Cons.prems(5) obtain w ws' where ws: "ws = w # ws'" "plain_report s w t" "list_all2 (plain_report s) ws' ts"
    by (auto simp: list_all2_Cons2)
  from Cons.prems(10) ws(1) obtain n where fuel: "fuel = Suc n" "length ws' \<le> n" by (cases fuel) auto
  have t: "t \<in> running s l" "t \<notin> set ts" using Cons.prems(6,7) by auto
  from leader_counts [OF Cons.prems(1,3,4)] t(1) obtain lk where
    lk: "tr_tasks s l = Some lk" "tk_threads lk \<noteq> tk_threads_stopped lk" "tk_threads_stopped lk < tk_threads lk" by blast
  obtain tk where tk: "tr_tasks s t = Some tk" using t(1) by (auto simp: running_def)
  from wait_event_plain [OF Cons.prems(1) _ ws(2) tk, of "ws' @ rest"] Cons.prems(9) ws(1) obtain s1 tk' where
    s1: "wait_event env s = (Inr (Some t), s1)" "os_waits s1 = ws' @ rest" "tr_queue s1 = tr_queue s" "tr_wakeup s1 = tr_wakeup s"
      "\<forall>u. u \<noteq> t \<longrightarrow> views s1 u = views s u" and tk': "tr_tasks s1 t = Some tk'" "tk_stopped tk'" "tk_event tk' \<noteq> EVENT_NONE"
      "tk_task_list tk' = tk_task_list tk" by auto
  let ?s = "s1\<lparr>tr_queue := tr_queue s @ [t]\<rparr>"
  have q: "queue_event t s1 = (Inr (), ?s)"
    using tk' s1(3) Cons.prems(8) by (simp add: queue_event_def bindS_def seqS_def getT_def getS_def assertS_def retS_def modS_def)
  have step: "stop_loop env l fuel s = stop_loop env l n ?s"
    using lk s1(1) q fuel(1) by (simp add: bindS_def seqS_def getT_def assertS_def retS_def)
  have "tasks_inv env (\<lambda>_. 0) s1" using wait_event_inv [OF s1(1) Cons.prems(1,2)] by simp
  then have inv: "tasks_inv env (\<lambda>_. 0) ?s" using same_skel_run(1) [OF skel_queue_event q] by simp
  have lead: "l \<in> set (tr_leaders ?s)" using framedD [OF lead_wait_event s1(1)] Cons.prems(3) by (auto simp: keeps_leaders_def)
  have other: "\<exists>uk1. tr_tasks s1 u = Some uk1 \<and> view uk1 = view uk" if "tr_tasks s u = Some uk" "u \<noteq> t" for u uk
    using views_eq [OF s1(5) that] by blast
  obtain lk1 where lk1: "tr_tasks s1 l = Some lk1" "tk_task_list lk1 = tk_task_list lk"
    using other [OF lk(1)] tk tk'(1,4) lk(1) by (cases "l = t") (auto simp: view_def)
  have same: "process_size ?s l = process_size s l" using lk(1) lk1 by (simp add: process_size_def)
  then have size: "process_size ?s l < 2 ^ 32" using Cons.prems(4) by simp
  have run: "set ts = running ?s l"
  proof -
    have "u \<in> running ?s l \<longleftrightarrow> u \<in> running s l \<and> u \<noteq> t" for u
    proof (cases "u = t")
      case False
      have "map_option view (tr_tasks s1 u) = map_option view (tr_tasks s u)" using False s1(5) by (simp add: views_def)
      then show ?thesis using False lk(1) lk1 by (cases "tr_tasks s u"; cases "tr_tasks s1 u") (auto simp: running_def view_def)
    qed (use tk' in \<open>simp add: running_def\<close>)
    then show ?thesis using Cons.prems(6,7) by auto
  qed
  have "plain_report ?s v u" if "plain_report s v u" "u \<noteq> t" for v u
    using that other [of u] s1(4) by (fastforce simp: plain_report_def view_def)
  then have "list_all2 (plain_report ?s) ws' ts"
    using ws(3) t(2) by (metis (no_types, lifting) list_all2_conv_all_nth nth_mem)
  from Cons.IH [OF inv Cons.prems(2) lead size this _ run _ _ fuel(2)] Cons.prems(6,8) t(2) s1(2)
  show ?case unfolding step same by auto
qed

text \<open>Every running thread is sent the stop signal first.\<close>

definition stop_signals :: "tracer \<Rightarrow> nat list \<Rightarrow> os_call list" where
  "stop_signals s ts =
     concat (map (\<lambda>t. case tr_tasks s t of None \<Rightarrow> [] | Some tk \<Rightarrow> if tk_stopped tk then [] else [Kill (tk_pid tk) SIGSTOP]) ts)"

lemma do_stop_loop:
  assumes "\<forall>t \<in> set ts. tr_tasks s t \<noteq> None"
  shows "each_loop ts do_stop_cb s = (Inr (), s\<lparr>os_log := os_log s @ stop_signals s ts\<rparr>)"
  using assms
proof (induction ts arbitrary: s)
  case (Cons t ts)
  then obtain tk where tk: "tr_tasks s t = Some tk" by auto
  have sig: "stop_signals (s\<lparr>os_log := x\<rparr>) ts = stop_signals s ts" for x by (simp add: stop_signals_def)
  have head: "do_stop_cb t s = (Inr (), s\<lparr>os_log := os_log s @ stop_signals s [t]\<rparr>)"
    using tk by (simp add: do_stop_cb_def task_kill_def bindS_def getT_def retS_def os_do_def modS_def stop_signals_def)
  have "stop_signals s (t # ts) = stop_signals s [t] @ stop_signals s ts" by (simp add: stop_signals_def)
  with Cons.IH [of "s\<lparr>os_log := os_log s @ stop_signals s [t]\<rparr>"] Cons.prems head sig show ?case
    by (simp add: seqS_def bindS_def)
qed (simp add: retS_def stop_signals_def)

lemma running_log: "running (s\<lparr>os_log := x\<rparr>) l = running s l" "plain_report (s\<lparr>os_log := x\<rparr>) = plain_report s"
  "process_size (s\<lparr>os_log := x\<rparr>) l = process_size s l"
  by (simp_all add: running_def plain_report_def process_size_def fun_eq_iff)

lemma stop_threads_ends:
  assumes inv: "tasks_inv env (\<lambda>_. 0) s" "tgid_ok env" and t: "tr_tasks s t = Some tk" "process_size s (tk_leader tk) < 2 ^ 32"
    and r: "list_all2 (plain_report s) ws ts" "distinct ts" "set ts = running s (tk_leader tk)" "set ts \<inter> set (tr_queue s) = {}"
      "os_waits s = ws @ rest"
  shows "\<exists>s'. stop_threads env t s = (Inr (), s') \<and> tr_queue s' = tr_queue s @ ts \<and> os_waits s' = rest \<and> process_size s' (tk_leader tk) = process_size s (tk_leader tk)"
proof -
  let ?l = "tk_leader tk"
  have l: "?l \<in> set (tr_leaders s)" using tasks_inv_sk [OF inv(1), of t] t(1) by (simp add: task_ok_def sk_Some)
  from leader_counts [OF inv(1) l t(2)] obtain lk where
    lk: "tr_tasks s ?l = Some lk" "tk_threads lk = tk_threads_stopped lk \<longleftrightarrow> running s ?l = {}" by blast
  show ?thesis
  proof (cases "running s ?l = {}")
    case True
    then have "ts = []" "ws = []" using r(1,3) by auto
    then show ?thesis using True t(1) lk r(5) by (simp add: stop_threads_def bindS_def getT_def retS_def Let_def)
  next
    case False
    let ?s = "s\<lparr>os_log := os_log s @ stop_signals s (tk_task_list lk @ [?l])\<rparr>"
    have "group_ok (\<lambda>_. 0) (sk s) ?l" using inv(1) l by (simp add: tasks_inv_def)
    then have "\<forall>u \<in> set (tk_task_list lk @ [?l]). tr_tasks s u \<noteq> None" using lk(1) by (fastforce simp: group_ok_def sk_Some)
    note kill = do_stop_loop [OF this]
    have ss: "same_skel s ?s" by (simp add: same_skel_def sk_def fun_eq_iff)
    have "\<exists>s'. stop_loop env ?l (Suc (length (os_waits ?s))) ?s = (Inr (), s') \<and> tr_queue s' = tr_queue ?s @ ts \<and> os_waits s' = rest \<and>
      process_size s' ?l = process_size ?s ?l"
    proof (rule stop_loop_ends [OF _ inv(2)])
      show "length ws \<le> Suc (length (os_waits ?s))" 
      proof -
        have "os_waits ?s = ws @ rest" using r(5) by simp
        then show ?thesis by (simp only: length_append)
      qed
    qed (use inv(1) l t(2) r in \<open>simp_all add: running_log same_skel_inv [OF ss]\<close>)
    then show ?thesis using False t(1) lk kill
      by (simp add: running_log stop_threads_def bindS_def [of "getT _"] seqS_def getT_def Let_def each_task_def bindS_def [of "each_loop _ _"]
          bindS_def [of "getS _"] getS_def bindS_def [of "bindS _ _"] del: stop_loop.simps)
  qed
qed

end
