(* ===== verification/Event_Invariant.thy ===== *)
theory Event_Invariant
  imports Server Trace_Stop
begin

text \<open>
  The handlers of the events keep the counters of the processes right: what a handler does is put together from
  operations that keep the invariant. The handlers that end tasks are not among them.
\<close>

definition keeps_inv :: "trace_env \<Rightarrow> tracer \<Rightarrow> tracer \<Rightarrow> bool" where
  "keeps_inv env s s' \<longleftrightarrow> (tgid_ok env \<longrightarrow> tasks_inv env (\<lambda>_. 0) s \<longrightarrow> tasks_inv env (\<lambda>_. 0) s')"

interpretation ki: kept "keeps_inv env"
  by unfold_locales (auto simp: keeps_inv_def)

lemma ki_skel: "framed same_skel m \<Longrightarrow> framed (keeps_inv env) m"
  by (erule framed_mono) (simp add: keeps_inv_def same_skel_inv)

lemma ki_updT: "(\<And>tk. skel (f tk) = skel tk) \<Longrightarrow> framed (keeps_inv env) (updT t f)"
  by (rule ki_skel [OF skel_updT])

lemma ki_modS:
  assumes "\<And>s. tr_tasks (f s) = tr_tasks s" "\<And>s. tr_leaders (f s) = tr_leaders s"
    "\<And>s. tr_pid_hash (f s) = tr_pid_hash s" "\<And>s. tr_next s \<le> tr_next (f s)"
  shows "framed (keeps_inv env) (modS f)"
proof (rule ki.modify)
  fix s
  have K: "sk (f s) = sk s" "pid_of (f s) = pid_of s" using assms(1) [of s] by (simp_all add: sk_def pid_of_def fun_eq_iff)
  have "task_ok env s t k \<Longrightarrow> task_ok env (f s) t k" for t k
    using hash_cong(2) [OF K(2) assms(3)] K(1) assms(2,4) [of s] by (auto simp: task_ok_def)
  then show "keeps_inv env s (f s)"
    using hash_cong(1) [OF K(2) assms(3)] K(1) assms(2) [of s] by (auto simp: keeps_inv_def tasks_inv_def)
qed

lemma ki_run: "framed (keeps_inv env) m \<Longrightarrow> m s = (Inr x, s') \<Longrightarrow> tasks_inv env (\<lambda>_. 0) s \<Longrightarrow> tgid_ok env \<Longrightarrow> tasks_inv env (\<lambda>_. 0) s'"
  using framedD [of "keeps_inv env" m s x s'] by (simp add: keeps_inv_def)

lemmas ki_rules = ki.rules ki.each skel_updB [THEN ki_skel] skel_os_do [THEN ki_skel]

subsection \<open>Waiting and continuing\<close>

lemma ki_continue: "framed (keeps_inv env) (continue_task t n)"
  using continue_task_inv(1) by (auto simp: framed_def keeps_inv_def)

lemma ki_wait: "framed (keeps_inv env) (wait_event env)"
  using wait_event_inv by (force simp: framed_def keeps_inv_def)

lemma ki_next: "framed (keeps_inv env) (next_event env)"
  using next_event_inv by (auto simp: framed_def keeps_inv_def)

lemma ki_queue: "framed (keeps_inv env) (queue_event t)"
  by (rule ki_skel [OF skel_queue_event])

lemma ki_stop_threads: "framed (keeps_inv env) (stop_threads env t)"
proof (unfold framed_def, intro allI impI)
  fix s x s' assume run: "stop_threads env t s = (Inr x, s')"
  then obtain tk where "tr_tasks s t = Some tk" by (auto simp: stop_threads_def bindS_Inr getT_Inr)
  with run show "keeps_inv env s s'" using stop_threads_inv by (auto simp: keeps_inv_def)
qed

text \<open>A single step ends with the thread stopped as it was.\<close>

lemma ki_status:
  assumes "sk s t = Some k" "sk_stopped k" "process_event_status env t status s = (Inr r, s')"
  shows "keeps_inv env s s'"
proof -
  have X: "(\<lambda>_. 0 :: u32)(sk_leader k := (\<lambda>_. 0) (sk_leader k) + of_bool (sk_stopped k) - 1) = (\<lambda>_. 0)" using assms(2) by auto
  from process_event_status_inv(1) [OF assms(3), of "\<lambda>_. 0" k] X assms(1) show ?thesis unfolding keeps_inv_def by simp
qed

lemma skel_singlestep: "framed same_skel (ptrace_singlestep t)"
  unfolding ptrace_singlestep_def ptrace_request_def by (intro skel_rules skel_os_run)

text \<open>What follows the report of a single step.\<close>

definition step_rest :: "nat \<Rightarrow> nat \<Rightarrow> breakpoint \<Rightarrow> int \<Rightarrow> int top" where
  "step_rest t b bp sig =
     (if sig = -1 then retS 0
      else
        bindS (getT t) (\<lambda>tk.
        seqS (assertS (tk_stopped tk)) (seqS (assertS (tk_event tk \<noteq> EVENT_NONE))
        (seqS (assertS (tk_event tk \<noteq> EVENT_BREAKPOINT))
          (if tk_event tk \<noteq> EVENT_SIGNAL \<or> sig \<noteq> int SIGTRAP then seqS (queue_event t) (retS 1)
           else if bp_break_insn bp then seqS (queue_event t) (retS 0)
           else seqS (updT t (\<lambda>tk. tk\<lparr>tk_event := EVENT_BREAKPOINT, tk_ev_bp := Some b\<rparr>)) (retS 0))))))"

lemma do_singlestep_rest:
  "do_singlestep env t b =
     bindS (getT t) (\<lambda>tk. bindS (getB b) (\<lambda>bp.
     seqS (assertS (tk_stopped tk)) (seqS (assertS (tk_skip_bp tk = None)) (seqS (assertS (\<not> bp_enabled bp))
     (seqS (updT t (\<lambda>tk. tk\<lparr>tk_event := EVENT_NONE\<rparr>))
     (bindS (ptrace_singlestep t) (\<lambda>ok.
        if \<not> ok then retS (-1)
        else bindS (wait_task t) (\<lambda>r. case r of
          None \<Rightarrow> retS 0
        | Some status \<Rightarrow> bindS (process_event_status env t status) (step_rest t b bp)))))))))"
  unfolding do_singlestep_def handle_singlestep_def step_rest_def ..

lemma ki_singlestep: "framed (keeps_inv env) (do_singlestep env t b)"
proof (unfold framed_def, intro allI impI)
  fix s x s' assume run: "do_singlestep env t b s = (Inr x, s')"
  have rest: "framed (keeps_inv env) (step_rest t b bp sig)" for bp sig
    unfolding step_rest_def by (intro ki_rules ki_queue ki_updT) (simp_all add: skel_def)
  from run obtain tk bp s1 ok s2 where tk: "tr_tasks s t = Some tk" "tk_stopped tk"
    and s1: "updT t (\<lambda>tk. tk\<lparr>tk_event := EVENT_NONE\<rparr>) s = (Inr (), s1)" and s2: "ptrace_singlestep t s1 = (Inr ok, s2)"
    and body: "(if \<not> ok then retS (-1) else bindS (wait_task t) (\<lambda>r. case r of None \<Rightarrow> retS 0
          | Some status \<Rightarrow> bindS (process_event_status env t status) (step_rest t b bp))) s2 = (Inr x, s')"
    unfolding do_singlestep_rest bindS_Inr seqS_Inr getT_Inr getB_Inr assertS_Inr by blast
  have f1: "framed same_skel (updT t (\<lambda>tk. tk\<lparr>tk_event := EVENT_NONE\<rparr>))" by (intro skel_updT) (simp add: skel_def)
  have K2: "sk s2 = sk s" "keeps_inv env s s2"
    using same_skel_run(2) [OF f1 s1] same_skel_run(2) [OF skel_singlestep s2]
      ki.trans framedD [OF ki_skel [OF f1] s1] framedD [OF ki_skel [OF skel_singlestep] s2] by (simp, blast)
  have "keeps_inv env s2 s'"
  proof (cases ok)
    case True
    with body obtain r s3 where s3: "wait_task t s2 = (Inr r, s3)"
      and body: "(case r of None \<Rightarrow> retS 0 | Some status \<Rightarrow> bindS (process_event_status env t status) (step_rest t b bp)) s3 = (Inr x, s')"
      by (auto simp: bindS_Inr)
    have K3: "sk s3 = sk s" "keeps_inv env s2 s3"
      using same_skel_run(2) [OF skel_wait_task s3] K2(1) framedD [OF ki_skel [OF skel_wait_task] s3] by simp_all
    have "keeps_inv env s3 s'"
    proof (cases r)
      case None
      then show ?thesis using body by (simp add: retS_Inr ki.refl)
    next
      case (Some status)
      with body obtain sig s4 where "process_event_status env t status s3 = (Inr sig, s4)" "step_rest t b bp sig s4 = (Inr x, s')"
        by (auto simp: bindS_Inr)
      moreover have "sk s3 t = Some (skel tk)" "sk_stopped (skel tk)" using K3(1) tk by (simp_all add: sk_Some)
      ultimately show ?thesis using ki_status framedD [OF rest] ki.trans by metis
    qed
    then show ?thesis using K3(2) ki.trans by blast
  qed (use body in \<open>simp add: retS_Inr ki.refl\<close>)
  then show "keeps_inv env s s'" using K2(2) ki.trans by blast
qed

subsection \<open>Breakpoints\<close>

lemma skel_reset_hw_bp: "framed same_skel (reset_hw_bp t n)"
  unfolding reset_hw_bp_def by (intro skel_rules skel_apply_hw_bp)

lemma skel_set_hw_bp: "framed same_skel (set_hw_bp t n addr)"
  unfolding set_hw_bp_def set_breakpoint_addr_def set_breakpoint_mode_def Let_def
  by (intro skel_rules skel_apply_hw_bp skel_poke_dr skel_updT) (simp_all add: skel_def)

lemma skel_procS: "framed same_skel (procS t f)"
  unfolding procS_def by (intro skel_rules skel_modS) simp_all

lemma skel_fatalS: "framed same_skel (fatalS ok)"
  unfolding fatalS_def by (intro skel_rules)

lemma skel_in_slot: "framed same_skel m \<Longrightarrow> framed same_skel (in_slot bp m)"
  unfolding in_slot_def by (intro skel_rules)

lemmas skel_slots = skel_rules skel.each skel_reset_hw_bp skel_set_hw_bp skel_procS skel_fatalS skel_in_slot

lemma skel_enable_sw: "framed same_skel (enable_sw_breakpoint t b)"
  unfolding enable_sw_breakpoint_def by (intro skel_slots)

lemma skel_disable_sw: "framed same_skel (disable_sw_breakpoint t b)"
  unfolding disable_sw_breakpoint_def by (intro skel_slots)

lemma skel_enable_hw: "framed same_skel (enable_hw_bp t b)"
  unfolding enable_hw_bp_def Let_def by (intro skel_slots skel_updT) (simp add: skel_def)

lemma skel_disable_hw: "framed same_skel (disable_hw_bp t b)"
  unfolding disable_hw_bp_def Let_def by (intro skel_slots skel_updT) (simp add: skel_def)

lemma skel_hw2sw: "framed same_skel (hw2sw_bp leader b)"
  unfolding hw2sw_bp_def by (intro skel_slots skel_disable_hw skel_enable_sw)

lemma skel_use_slot: "framed same_skel (use_slot leader b i)"
  unfolding use_slot_def by (intro skel_slots skel_enable_hw)

lemma skel_find_slot: "framed same_skel (find_slot is leader ty)"
  by (induction "is") (auto intro!: skel_slots skel_hw2sw)

lemma skel_insert_slot: "framed same_skel (insert_hw_bp_slot t b)"
  unfolding insert_hw_bp_slot_def Let_def by (intro skel_slots skel_find_slot skel_use_slot)

lemma skel_hw_clone: "framed same_skel (breakpoint_hw_clone t)"
  unfolding breakpoint_hw_clone_def Let_def by (intro skel_slots skel_enable_hw)

lemma skel_read_bps: "framed same_skel (read_bps bs)"
  by (induction bs) (auto intro!: skel_slots)

lemma skel_used_slots: "framed same_skel (used_slots bs used)"
  by (induction bs used rule: used_slots.induct) (auto intro!: skel_slots)

lemma skel_fill_slots: "framed same_skel (fill_slots leader used bs i)"
  by (induction bs arbitrary: i) (auto simp: Let_def intro!: skel_slots skel_disable_sw skel_hw2sw skel_use_slot)

lemma skel_with_table: "framed same_skel (with_table leader f)"
  unfolding with_table_def by (intro skel_slots skel_updT) (simp add: skel_def)

lemma skel_breakpoint_put: "framed same_skel (breakpoint_put b)"
  unfolding breakpoint_put_def by (intro skel_slots skel_modS) simp_all

lemma skel_link_hw: "framed same_skel (link_hw_bp leader b)"
  unfolding link_hw_bp_def by (intro skel_updT) (simp add: skel_def)

lemma skel_scratch: "framed same_skel (enable_scratch_hw_bp t b)" "framed same_skel (disable_scratch_hw_bp t b)"
  "framed same_skel (remove_hw_scratch_bp_cb b t)"
  unfolding enable_scratch_hw_bp_def disable_scratch_hw_bp_def remove_hw_scratch_bp_cb_def
  by (intro skel_slots skel_enable_hw skel_disable_hw)+

lemma skel_reset_bp: "framed same_skel (task_reset_bp t)"
  unfolding task_reset_bp_def by (intro skel_slots skel_breakpoint_put skel_updT) (simp_all add: skel_def)

lemmas skel_bps = skel_enable_sw skel_disable_sw skel_enable_hw skel_disable_hw skel_hw2sw skel_use_slot skel_find_slot
  skel_insert_slot skel_hw_clone skel_read_bps skel_used_slots skel_fill_slots skel_with_table skel_breakpoint_put skel_link_hw
  skel_scratch skel_reset_bp skel_breakpoint_find skel_breakpoint_get

lemma ki_reorder: "framed (keeps_inv env) (reorder_hw_bp env t)"
  unfolding reorder_hw_bp_def Let_def by (intro ki_rules skel_bps [THEN ki_skel] ki_stop_threads)

text \<open>A new breakpoint takes the next number.\<close>

lemma ki_fresh:
  assumes "\<And>b. framed (keeps_inv env) (m b)"
  shows "framed (keeps_inv env) (bindS (getS tr_next) (\<lambda>b.
    seqS (modS (\<lambda>s. s\<lparr>tr_next := Suc b, tr_bps := (tr_bps s)(b \<mapsto> new_bp)\<rparr>)) (m b)))"
proof -
  have f: "framed (keeps_inv env) (modS (\<lambda>s. s\<lparr>tr_next := Suc (tr_next s), tr_bps := (tr_bps s)(tr_next s \<mapsto> new_bp)\<rparr>))"
    by (rule ki_modS) simp_all
  have "keeps_inv env s s'" if "bindS (getS tr_next) (\<lambda>b.
    seqS (modS (\<lambda>s. s\<lparr>tr_next := Suc b, tr_bps := (tr_bps s)(b \<mapsto> new_bp)\<rparr>)) (m b)) s = (Inr x, s')" for s x s'
  proof -
    let ?s = "s\<lparr>tr_next := Suc (tr_next s), tr_bps := (tr_bps s)(tr_next s \<mapsto> new_bp)\<rparr>"
    from that have "m (tr_next s) ?s = (Inr x, s')" by (simp add: top_run)
    then have "keeps_inv env ?s s'" by (rule framedD [OF assms])
    moreover have "keeps_inv env s ?s" using framedD [OF f, of s "()" ?s] by (simp add: modS_Inr)
    ultimately show ?thesis using ki.trans by blast
  qed
  then show ?thesis by (simp add: framed_def)
qed

lemma ki_new_ext: "framed (keeps_inv env) (breakpoint_new_ext env t addr libsym ty ext)"
  unfolding breakpoint_new_ext_def Let_def by (intro ki.task ki.bind [OF ki.task] ki_fresh ki_rules skel_bps [THEN ki_skel] ki_modS) simp_all

lemma ki_enable: "framed (keeps_inv env) (breakpoint_enable env t b)"
  unfolding breakpoint_enable_def by (intro ki_rules skel_bps [THEN ki_skel] ki_stop_threads)

lemma ki_disable: "framed (keeps_inv env) (breakpoint_disable env t b)"
  unfolding breakpoint_disable_def by (intro ki_rules skel_bps [THEN ki_skel] ki_stop_threads)

lemma ki_insert: "framed (keeps_inv env) (breakpoint_insert env t addr libsym ty)"
  unfolding breakpoint_insert_def breakpoint_new_def by (intro ki_rules skel_bps [THEN ki_skel] ki_new_ext ki_enable)

lemma ki_delete: "framed (keeps_inv env) (breakpoint_delete env t b)"
  unfolding breakpoint_delete_def by (intro ki_rules skel_bps [THEN ki_skel] ki_disable ki_updT) (simp add: skel_def)

text \<open>A callback for every breakpoint.\<close>

definition bp_call :: "(nat \<Rightarrow> int top) \<Rightarrow> ulong \<Rightarrow> nat \<Rightarrow> derr option \<times> tracer \<Rightarrow> int \<times> derr option \<times> tracer" where
  "bp_call cb = (\<lambda>_ b (_, s). case cb b s of (Inl e, s) \<Rightarrow> (1, Some e, s) | (Inr r, s) \<Rightarrow> (r, None, s))"

lemma bp_call_ok: "bp_call cb k b (x, s) = (r, None, s') \<longleftrightarrow> cb b s = (Inr r, s')"
  by (auto simp: bp_call_def split: sum.splits prod.splits)

lemma bp_call_stop: "fst (bp_call cb k b x) = 0 \<Longrightarrow> fst (snd (bp_call cb k b x)) = None"
  by (auto simp: bp_call_def split: sum.splits prod.splits)

context kept
begin

lemma bucket:
  assumes "\<And>b. framed R (cb b)"
  shows "apply_bucket (bp_call cb) es (x, s) = (r, None, s') \<Longrightarrow> R s s'"
proof (induction es arbitrary: x s)
  case (Cons e es)
  obtain k b where e: "e = (k, b)" by force
  obtain r1 x1 s1 where call: "bp_call cb k b (x, s) = (r1, x1, s1)" by (metis prod_cases3)
  show ?case
  proof (cases "r1 = 0")
    case True
    with bp_call_stop [of cb k b "(x, s)"] call have "x1 = None" by simp
    with call have "R s s1" using framedD [OF assms] bp_call_ok by metis
    moreover have "R s1 s'" using Cons.prems True call e Cons.IH by simp
    ultimately show ?thesis by (rule trans)
  next
    case False
    with Cons.prems call e have "bp_call cb k b (x, s) = (r1, None, s')" by simp
    then show ?thesis using framedD [OF assms] bp_call_ok by metis
  qed
qed (simp add: refl)

lemma bucket_stop: "apply_bucket (bp_call cb) es (None, s) = (0, x, s') \<Longrightarrow> x = None"
proof (induction es arbitrary: s)
  case (Cons e es)
  obtain k b where e: "e = (k, b)" by force
  obtain r1 x1 s1 where call: "bp_call cb k b (None, s) = (r1, x1, s1)" by (metis prod_cases3)
  with Cons.prems e have "r1 = 0" by (auto split: if_splits)
  with bp_call_stop [of cb k b "(None, s)"] call Cons e show ?case by simp
qed simp

lemma table:
  assumes "\<And>b. framed R (cb b)"
  shows "apply_buckets (bp_call cb) bs (None, s) = (r, None, s') \<Longrightarrow> R s s'"
proof (induction bs arbitrary: s)
  case (Cons es bs)
  obtain r1 x1 s1 where run: "apply_bucket (bp_call cb) es (None, s) = (r1, x1, s1)" by (metis prod_cases3)
  show ?case
  proof (cases "r1 = 0")
    case True
    with bucket_stop run have "x1 = None" by blast
    with run have "R s s1" using bucket [where cb = cb, OF assms] by blast
    moreover have "R s1 s'" using Cons.prems True run \<open>x1 = None\<close> Cons.IH by simp
    ultimately show ?thesis by (rule trans)
  next
    case False
    with Cons.prems run have "apply_bucket (bp_call cb) es (None, s) = (r1, None, s')" by simp
    then show ?thesis by (rule bucket [where cb = cb, OF assms])
  qed
qed (simp add: refl)

lemma each_entry:
  assumes "\<And>b. framed R (cb b)"
  shows "framed R (each_bp d cb)"
proof (unfold framed_def, intro allI impI)
  fix s r s' assume "each_bp d cb s = (Inr r, s')"
  then have "apply_buckets (bp_call cb) (buckets d) (None, s) = (r, None, s')"
    by (auto simp: each_bp_def dict_apply_to_all_def bp_call_def split: prod.splits option.splits)
  then show "R s s'" by (rule table [where cb = cb, OF assms])
qed

lemma every_bp: "(\<And>b. framed R (cb b)) \<Longrightarrow> framed R (all_bps leader cb)"
  unfolding all_bps_def by (intro rules each_entry)

end

lemma ki_all_bps:
  "framed (keeps_inv env) (breakpoint_enable_all_nonlocked env l)" "framed (keeps_inv env) (breakpoint_disable_all_nonlocked env l)"
  "framed (keeps_inv env) (breakpoint_enable_all env l)" "framed (keeps_inv env) (breakpoint_disable_all env l)"
  "framed (keeps_inv env) (breakpoint_invalidate_all l)"
  unfolding breakpoint_enable_all_nonlocked_def breakpoint_disable_all_nonlocked_def breakpoint_enable_all_def
    breakpoint_disable_all_def breakpoint_invalidate_all_def enable_nonlocked_bp_cb_def disable_nonlocked_bp_cb_def
  by (intro ki_rules ki.every_bp ki_enable ki_disable)+

lemma ki_clear_all: "framed (keeps_inv env) (breakpoint_clear_all env l)"
  unfolding breakpoint_clear_all_def by (intro ki_rules ki.every_bp ki_delete ki_updT) (simp add: skel_def)

lemma ki_clone_all: "framed (keeps_inv env) (breakpoint_clone_all env nt l)"
proof -
  have "framed (keeps_inv env) (clone_single_cb env nt b)" for b
    unfolding clone_single_cb_def Let_def
    by (intro ki.bind [OF ki.bp] ki.cond ki.seq [OF ki.asserted] ki_fresh ki_rules skel_bps [THEN ki_skel]
        skel_in_slot [THEN ki_skel] skel_slots ki_modS skel_updT) (simp_all add: skel_def)
  then show ?thesis unfolding breakpoint_clone_all_def by (intro ki_rules ki.each_entry)
qed

subsection \<open>Reports and calls\<close>

lemma skel_tellS: "framed same_skel (tellS env t m)"
  unfolding tellS_def by (intro skel.bind skel.task skel.get skel.pair)
    (auto split: sum.split intro!: skel_rules skel_modS)

lemma ki_skip: "framed (keeps_inv env) (skip_breakpoint env t b)"
  unfolding skip_breakpoint_def
  by (intro ki_rules ki_disable ki_enable ki_singlestep ki_continue skel_breakpoint_get [THEN ki_skel] ki_updT) (simp add: skel_def)

lemma ki_effects: "framed (keeps_inv env) (do_effects env t effs)"
proof (induction effs)
  case (Cons e effs)
  then show ?case by (cases e) (auto intro!: ki_rules ki_modS ki_skip)
qed (simp add: ki.ret)

lemma ki_report: "framed (keeps_inv env) (opt_reportS env t rep libsym)"
  unfolding opt_reportS_def reportS_def
  by (intro ki_rules) (auto split: sum.split intro!: ki_rules ki_updT ki_effects simp: skel_def)

lemma ki_symbol_func: "framed (keeps_inv env) (symbol_func env libsym)"
  unfolding symbol_func_def by (intro ki_rules)

lemma ki_call_after: "framed (keeps_inv env) (handle_call_after env t b)"
  unfolding handle_call_after_def
  by (intro ki_rules skel_scratch [THEN ki_skel] ki_symbol_func ki_report ki_updT) (simp add: skel_def)

lemma ki_return_addr: "framed (keeps_inv env) (return_addr t)"
  unfolding return_addr_def by (intro ki_rules)

lemma ki_call: "framed (keeps_inv env) (handle_call env t libsym)"
  unfolding handle_call_def
  by (intro ki_rules skel_scratch [THEN ki_skel] ki_symbol_func ki_report ki_return_addr ki_insert ki_updT) (simp_all add: skel_def)

lemma ki_count_hit: "framed (keeps_inv env) (count_hit env t b hw)"
  unfolding count_hit_def by (intro ki_rules ki_reorder)

text \<open>The handlers of the dynamic loader keep the counters too.\<close>

definition loader_ok :: "trace_env \<Rightarrow> bool" where
  "loader_ok env \<longleftrightarrow> (\<forall>h t b. framed (keeps_inv env) (te_on_hit env h t b))"

lemma ki_on_hit: "loader_ok env \<Longrightarrow> framed (keeps_inv env) (on_hit env t b)"
  unfolding on_hit_def
  by (intro ki.bind ki.bp) (auto simp: loader_ok_def split: bp_on_hit.split intro!: ki.ret ki_call_after)

lemma ki_action: "loader_ok env \<Longrightarrow> framed (keeps_inv env) (breakpoint_action env t b)"
  unfolding breakpoint_action_def
  by (intro ki_rules ki_on_hit ki_continue ki_call ki_skip ki_updT) (simp_all add: skel_def)

lemma ki_breakpoint: "loader_ok env \<Longrightarrow> framed (keeps_inv env) (handle_breakpoint env t)"
  unfolding handle_breakpoint_def
  by (intro ki_rules ki_skip ki_continue ki_count_hit ki_action skel_breakpoint_put [THEN ki_skel] ki_updT) (simp_all add: skel_def)

subsection \<open>Other handlers\<close>

lemma ki_signal: "framed (keeps_inv env) (handle_signal t)"
  unfolding handle_signal_def by (intro ki_rules ki_continue)

lemma ki_new: "framed (keeps_inv env) (handle_new t)"
  unfolding handle_new_def by (intro ki_rules ki_continue ki_updT) (simp add: skel_def)

lemma ki_about_exit: "framed (keeps_inv env) (handle_about_exit env t)"
  unfolding handle_about_exit_def by (intro ki_rules ki_continue ki_updT skel_tellS [THEN ki_skel]) (simp add: skel_def)

lemma ki_task_clone: "framed (keeps_inv env) (task_clone t nt)"
  unfolding task_clone_def set_64bit_def by (intro ki_rules ki_updT skel_hw_clone [THEN ki_skel]) (simp add: skel_def)

lemma ki_start_trace: "framed (keeps_inv env) (start_trace env l)"
  unfolding start_trace_def by (rule ki_all_bps)

lemma ki_stop_trace: "framed (keeps_inv env) (stop_trace env l)"
  unfolding stop_trace_def by (intro ki_rules ki_all_bps skel_reset_bp [THEN ki_skel])

lemma ki_server_close: "framed (keeps_inv env) (server_close env)"
  unfolding server_close_def each_process_def each_pid_def fix_about_exit_def
  by (intro ki_rules ki_modS ki_stop_trace ki_continue ki_updT) (simp_all add: skel_def)

end
