(* ===== verification/Task_End.thy ===== *)
theory Task_End
  imports Event_Invariant
begin

text \<open>
  The end of a task and of a process: a stopped task is taken out of its process and out of the table of process ids, and
  nothing else changes; a process is removed thread by thread.
\<close>

subsection \<open>A process that is stopped\<close>

text \<open>Nothing is waited for while every thread of the process is stopped.\<close>

definition idle :: "nat \<Rightarrow> tracer \<Rightarrow> tracer \<Rightarrow> bool" where
  "idle l s s' \<longleftrightarrow> (\<forall>lk. sk s l = Some lk \<longrightarrow> sk_leader lk = l \<longrightarrow> sk_threads lk = sk_threads_stopped lk \<longrightarrow> same_skel s s')"

interpretation idle: kept "idle l"
  by unfold_locales (auto simp: idle_def same_skel_def)

lemma idle_skel: "framed same_skel m \<Longrightarrow> framed (idle l) m"
  by (erule framed_mono) (simp add: idle_def)

lemma idle_stop_threads: "framed (idle l) (stop_threads env l)"
  by (auto simp: framed_def idle_def stop_threads_def top_run Let_def sk_Some same_skel_def)

lemmas idle_rules = idle.rules idle.each idle_stop_threads skel_bps [THEN idle_skel] skel_updB [THEN idle_skel]

lemma idle_updT: "(\<And>tk. skel (f tk) = skel tk) \<Longrightarrow> framed (idle l) (updT t f)"
  by (rule idle_skel [OF skel_updT])

lemma idle_disable: "framed (idle l) (breakpoint_disable env l b)"
  unfolding breakpoint_disable_def by (intro idle_rules)

lemma idle_delete: "framed (idle l) (breakpoint_delete env l b)"
  unfolding breakpoint_delete_def by (intro idle_rules idle_disable idle_updT) (simp add: skel_def)

lemma idle_clear_all: "framed (idle l) (breakpoint_clear_all env l)"
  unfolding breakpoint_clear_all_def by (intro idle_rules idle.every_bp idle_delete idle_updT) (simp add: skel_def)

lemma idle_disable_all: "framed (idle l) (breakpoint_disable_all env l)"
  unfolding breakpoint_disable_all_def by (intro idle.every_bp idle_disable)

lemma idle_delete_symbols: "framed (idle l) (delete_symbols env l sys)"
  by (induction sys) (auto intro!: idle_rules idle_delete)

lemma idle_library_delete: "framed (idle l) (library_delete env l lib)"
  unfolding library_delete_def
  by (intro idle_rules idle_delete_symbols)
    (auto split: sum.split intro!: idle_rules idle_updT skel_modS [THEN idle_skel] simp: skel_def)

lemma idle_libraries: "framed (idle l) (library_clear_all env l)"
proof -
  have "framed (idle l) (library_delete_list env l libs)" for libs
    by (induction libs) (auto intro!: idle_rules idle_library_delete)
  then show ?thesis unfolding library_clear_all_def by (intro idle_rules)
qed

lemma skel_backtrace_destroy: "framed same_skel (backtrace_destroy t)"
  unfolding backtrace_destroy_def by (intro skel_rules skel_updT) (simp add: skel_def)

lemma leader_cleanup_run:
  assumes "leader_cleanup env l s = (Inr u, s')" "sk s l = Some lk" "sk_leader lk = l" "sk_threads lk = sk_threads_stopped lk"
  shows "sk s' = sk s \<and> tr_leaders s' = filter (\<lambda>x. x \<noteq> l) (tr_leaders s) \<and> tr_pid_hash s' = tr_pid_hash s \<and> tr_next s' = tr_next s"
proof -
  let ?m = "seqS (library_clear_all env l) (seqS (breakpoint_clear_all env l) (backtrace_destroy l))"
  obtain s1 where s1: "?m s = (Inr (), s1)" "s' = s1\<lparr>tr_leaders := filter (\<lambda>x. x \<noteq> l) (tr_leaders s1)\<rparr>"
    using assms(1) unfolding leader_cleanup_def seqS_Inr modS_Inr by auto
  have "framed (idle l) ?m" by (intro idle_rules idle_libraries idle_clear_all skel_backtrace_destroy [THEN idle_skel])
  from framedD [OF this s1(1)] assms(2-4) have "same_skel s s1" by (simp add: idle_def)
  then show ?thesis using s1(2) by (simp add: same_skel_def sk_def fun_eq_iff)
qed

subsection \<open>One task\<close>

lemma skel_untrace: "framed same_skel (untrace_task t)"
  unfolding untrace_task_def ptrace_request_def by (intro skel_rules skel_os_run)

lemma skel_remove_event: "framed same_skel (remove_event t)"
  unfolding remove_event_def by (intro skel_rules skel_updT skel_modS) (simp_all add: skel_def)

text \<open>A task that is not in the table is forgotten.\<close>

lemma free_hash:
  assumes "hash_ok s" "pid_of s t = Some p" "pid_map s p = None" "tr_pid_hash s' = tr_pid_hash s" "pid_of s' = (pid_of s)(t := None)"
  shows "hash_ok s' \<and> pid_map s' = pid_map s"
proof -
  have out: "t \<notin> set (pe_tasks e)" if "i < PID_HASH_SIZE" "tr_pid_hash s ! i = Some e" for i e
  proof
    assume t: "t \<in> set (pe_tasks e)"
    have "bucket_ok s i e" using assms(1) that by (simp add: hash_ok_def)
    with t assms(2) have "PID_HASH p = i" by (auto simp: bucket_ok_def)
    with that(2) t assms(2,3) show False by (force simp: pid_map_None)
  qed
  have same: "\<forall>u \<in> set (pe_tasks e). pid_of s' u = pid_of s u" if "i < PID_HASH_SIZE" "tr_pid_hash s ! i = Some e" for i e
    using out [OF that] assms(5) by auto
  have "bucket_ok s' i e \<longleftrightarrow> bucket_ok s i e" if "i < PID_HASH_SIZE" "tr_pid_hash s ! i = Some e" for i e
    using same [OF that] by (simp add: bucket_ok_def cong: map_cong)
  then have "hash_ok s'" using assms(1,4) by (simp add: hash_ok_def)
  moreover have "pid_map s' q = pid_map s q" for q
  proof (cases "tr_pid_hash s ! PID_HASH q")
    case (Some e)
    from same [OF PID_HASH_bound this] show ?thesis using Some assms(4) by (simp add: pid_map_def cong: find_cong)
  qed (simp add: pid_map_def assms(4))
  ultimately show ?thesis by blast
qed

text \<open>The leader when one of its threads, or itself, is taken from the counters.\<close>

definition uncounted :: "nat \<Rightarrow> skeleton \<Rightarrow> skeleton" where
  "uncounted t lk = lk\<lparr>sk_list := filter (\<lambda>u. u \<noteq> t) (sk_list lk), sk_threads := sk_threads lk - 1,
                       sk_threads_stopped := sk_threads_stopped lk - 1\<rparr>"

definition unlink_task :: "nat \<Rightarrow> nat \<Rightarrow> unit top" where
  "unlink_task t leader =
     seqS (whenS (leader \<noteq> t) (updT leader (\<lambda>l. l\<lparr>tk_task_list := filter (\<lambda>u. u \<noteq> t) (tk_task_list l)\<rparr>)))
       (updT leader (\<lambda>l. l\<lparr>tk_threads := tk_threads l - 1, tk_threads_stopped := tk_threads_stopped l - 1\<rparr>))"

definition release_task :: "trace_env \<Rightarrow> nat \<Rightarrow> unit top" where
  "release_task env t =
     seqS (bindS (getT t) (\<lambda>tk.
             if tk_event tk = EVENT_BREAKPOINT then bindS (breakpoint_put (tk_ev_bp tk)) (\<lambda>_. retS ()) else retS ()))
       (seqS (arch_task_destroy t) (seqS (task_reset_bp t) (breakpoint_hw_destroy env t)))"

lemma task_destroy_parts:
  assumes "task_destroy env t s = (Inr u, s')" "tr_tasks s t = Some tk" "\<not> tk_deleted tk"
  obtains s1 s2 s3 s4 s5 s6 s7 l ok where
    "seqS (updT t (\<lambda>tk. tk\<lparr>tk_deleted := True\<rparr>)) (stop_task env t) s = (Inr (), s1)"
    "unlink_task t (tk_leader tk) s1 = (Inr (), s2)" "release_task env t s2 = (Inr (), s3)" "delete_pid t s3 = (Inr (), s4)"
    "tr_tasks s4 (tk_leader tk) = Some l"
    "whenS (tk_threads l = 0) (leader_cleanup env (tk_leader tk)) s4 = (Inr (), s5)"
    "untrace_task t s5 = (Inr ok, s6)" "remove_event t s6 = (Inr (), s7)"
    "seqS (whenS (tk_leader tk \<noteq> t) (free_task t)) (whenS (tk_threads l = 0) (free_task (tk_leader tk))) s7 = (Inr (), s')"
  using assms unfolding task_destroy_def unlink_task_def release_task_def seqS_Inr bindS_Inr getT_Inr Let_def
  by (auto simp: seqS_Inr bindS_Inr getT_Inr simp del: whenS_Inr)

lemma unlink_task_sk:
  assumes "unlink_task t l s = (Inr u, s')" "sk s l = Some lk" "t = l \<Longrightarrow> l \<notin> set (sk_list lk)"
  shows "sk s' = (sk s)(l \<mapsto> uncounted t lk) \<and> tr_leaders s' = tr_leaders s \<and> tr_pid_hash s' = tr_pid_hash s \<and> tr_next s' = tr_next s"
proof -
  obtain tk where tk: "tr_tasks s l = Some tk" "skel tk = lk" using assms(2) by (auto simp: sk_Some)
  have "t = l \<Longrightarrow> filter (\<lambda>u. u \<noteq> t) (sk_list lk) = sk_list lk" using assms(3) by (auto simp: filter_id_conv)
  with assms(1) tk show ?thesis
    by (cases "t = l") (auto simp: unlink_task_def top_run sk_def fun_eq_iff uncounted_def skel_def)
qed

lemma skel_release: "framed same_skel (release_task env t)"
  unfolding release_task_def arch_task_destroy_def by (intro skel_rules skel_bps skel_apply_hw_bp skel_hw_destroy)

lemma stop_stopped:
  assumes "seqS (updT t (\<lambda>tk. tk\<lparr>tk_deleted := True\<rparr>)) (stop_task env t) s = (Inr (), s1)" "tr_tasks s t = Some tk" "tk_stopped tk"
  shows "same_skel s s1"
  using assms by (auto simp: stop_task_def top_run same_skel_def sk_def fun_eq_iff skel_def)

text \<open>The skeletons behind the end of a task: a thread is taken from its leader, a leader without threads goes.\<close>

definition without :: "nat \<Rightarrow> nat \<Rightarrow> skeleton \<Rightarrow> (nat \<Rightarrow> skeleton option) \<Rightarrow> nat \<Rightarrow> skeleton option" where
  "without t l lk K = K(l \<mapsto> uncounted t lk, t := None)"

lemma of_nat_u32_0: "n < 2 ^ 32 \<Longrightarrow> of_nat n = (0 :: u32) \<longleftrightarrow> n = 0"
  by (auto simp: word_of_nat_eq_0_iff dest: dvd_imp_le)

lemma free_tasks_sk:
  assumes "seqS (whenS (l \<noteq> t) (free_task t)) (whenS z (free_task l)) s = (Inr u, s')" "z \<longleftrightarrow> l = t"
  shows "sk s' = (sk s)(t := None) \<and> tr_leaders s' = tr_leaders s \<and> tr_pid_hash s' = tr_pid_hash s \<and> tr_next s' = tr_next s"
  using assms by (cases "l = t") (auto simp: top_run free_task_def sk_def fun_eq_iff)

lemma task_destroy_sk:
  assumes run: "task_destroy env t s = (Inr u, s')" and tk: "tr_tasks s t = Some tk" "\<not> tk_deleted tk" "tk_stopped tk"
    and inv: "tasks_inv env (\<lambda>_. 0) s" and l: "l = tk_leader tk" "sk s l = Some lk" "Suc (length (sk_list lk)) < 2 ^ 32"
    and only: "l = t \<Longrightarrow> sk_list lk = []"
  shows "sk s' = without t l lk (sk s) \<and> tr_leaders s' = (if l = t then filter (\<lambda>x. x \<noteq> t) (tr_leaders s) else tr_leaders s) \<and>
    hash_ok s' \<and> pid_map s' = (pid_map s)(tk_pid tk := None) \<and> tr_next s' = tr_next s"
proof -
  have k: "sk s t = Some (skel tk)" using tk by (simp add: sk_Some)
  have t: "task_ok env s t (skel tk)" by (rule tasks_inv_sk [OF inv k])
  have g: "group_ok (\<lambda>_. 0) (sk s) l" using t l(1) inv by (simp add: tasks_inv_def task_ok_def)
  have mem: "t \<in> set (l # sk_list lk)" using t l(1,2) by (auto simp: task_ok_def)
  from task_destroy_parts [OF run tk(1,2)] obtain s1 s2 s3 s4 s5 s6 s7 l' ok where
    parts: "seqS (updT t (\<lambda>tk. tk\<lparr>tk_deleted := True\<rparr>)) (stop_task env t) s = (Inr (), s1)"
      "unlink_task t l s1 = (Inr (), s2)" "release_task env t s2 = (Inr (), s3)" "delete_pid t s3 = (Inr (), s4)"
      "tr_tasks s4 l = Some l'" "whenS (tk_threads l' = 0) (leader_cleanup env l) s4 = (Inr (), s5)"
      "untrace_task t s5 = (Inr ok, s6)" "remove_event t s6 = (Inr (), s7)"
      "seqS (whenS (l \<noteq> t) (free_task t)) (whenS (tk_threads l' = 0) (free_task l)) s7 = (Inr (), s')"
    unfolding l(1) by metis
  have 1: "same_skel s s1" by (rule stop_stopped [OF parts(1) tk(1,3)])
  have "sk s1 l = Some lk" using 1 l(2) by (simp add: same_skel_def)
  from unlink_task_sk [OF parts(2) this] 1 only
  have 2: "sk s2 = (sk s)(l \<mapsto> uncounted t lk)" "tr_leaders s2 = tr_leaders s" "tr_pid_hash s2 = tr_pid_hash s" "tr_next s2 = tr_next s"
    by (auto simp: same_skel_def)
  have 3: "sk s3 = sk s2" "tr_leaders s3 = tr_leaders s" "tr_pid_hash s3 = tr_pid_hash s" "tr_next s3 = tr_next s"
    using framedD [OF skel_release parts(3)] 2 by (simp_all add: same_skel_def)
  have pid3: "pid_of s3 = pid_of s" using 2(1) 3(1) l(2) by (auto simp: pid_of_sk fun_eq_iff uncounted_def)
  have h3: "hash_ok s3" "pid_map s3 = pid_map s" using hash_cong [OF pid3 3(3)] inv by (simp_all add: tasks_inv_def)
  have p: "pid_of s3 t = Some (tk_pid tk)" using pid3 tk(1) by (simp add: pid_of_def)
  then obtain tk3 where tk3: "tr_tasks s3 t = Some tk3" "tk_pid tk3 = tk_pid tk" by (auto simp: pid_of_def)
  have "pid_map s3 (tk_pid tk3) \<noteq> None" using h3(2) t tk3(2) by (simp add: task_ok_def)
  from delete_pid_run [OF h3(1) tk3(1) this] parts(4) tk3(2) obtain h where
    4: "s4 = s3\<lparr>tr_pid_hash := h\<rparr>" "hash_ok s4" "pid_map s4 = (pid_map s)(tk_pid tk := None)" using h3(2) by auto
  have K4: "sk s4 = sk s2" using 4(1) 3(1) by (simp add: sk_def fun_eq_iff)
  have l': "skel l' = uncounted t lk" using parts(5) K4 2(1) by (auto simp: sk_def fun_eq_iff split: if_splits)
  have th: "tk_threads l' = of_nat (length (sk_list lk))"
  proof -
    have "sk_threads (skel l') = sk_threads lk - 1" unfolding l' by (simp add: uncounted_def)
    then show ?thesis using g l(2) by (auto simp: group_ok_def)
  qed
  have "of_nat (length (sk_list lk)) = (0 :: u32) \<longleftrightarrow> sk_list lk = []"
    using l(3) by (simp add: of_nat_u32_0)
  then have last: "tk_threads l' = 0 \<longleftrightarrow> l = t" using th only mem by auto
  have 5: "sk s5 = sk s4 \<and> tr_leaders s5 = (if l = t then filter (\<lambda>x. x \<noteq> l) (tr_leaders s) else tr_leaders s) \<and>
    tr_pid_hash s5 = tr_pid_hash s4 \<and> tr_next s5 = tr_next s"
  proof (cases "l = t")
    case True
    have c: "sk s4 l = Some (uncounted t lk)" using K4 2(1) by simp
    have "sk_threads lk = 1" "sk_threads_stopped lk = 1" "sk_leader lk = l"
      using g l(1,2) only True tk(3) k by (auto simp: group_ok_def stopped_in_def)
    then have "sk_leader (uncounted t lk) = l" "sk_threads (uncounted t lk) = sk_threads_stopped (uncounted t lk)" by (simp_all add: uncounted_def)
    with leader_cleanup_run [of env l s4 "()" s5, OF _ c] parts(6) last True
    show ?thesis using 4(1) 3 by (simp add: whenS_Inr)
  qed (use parts(6) last 4(1) 3 in \<open>simp add: whenS_Inr\<close>)
  have 7: "sk s7 = sk s4" "tr_leaders s7 = tr_leaders s5" "tr_pid_hash s7 = tr_pid_hash s4" "tr_next s7 = tr_next s"
    using framedD [OF skel_untrace parts(7)] framedD [OF skel_remove_event parts(8)] 5 by (simp_all add: same_skel_def)
  note 8 = free_tasks_sk [OF parts(9) last]
  have pid4: "pid_of s4 = pid_of s" using K4 3(1) pid3 by (simp add: pid_of_sk fun_eq_iff)
  have "hash_ok s' \<and> pid_map s' = pid_map s4"
    by (rule free_hash [OF 4(2), of t "tk_pid tk"]) (use 8 7 pid4 p pid3 4(3) in \<open>auto simp: pid_of_sk fun_eq_iff\<close>)
  then show ?thesis using 8 7 5 K4 2(1) 4(3) by (auto simp: without_def)
qed

subsection \<open>The invariant\<close>

lemma stopped_in_without:
  assumes "distinct ts" "t \<in> set ts" "K t = Some k" "sk_stopped k"
  shows "stopped_in K ts = Suc (stopped_in (K(t := x)) (filter (\<lambda>u. u \<noteq> t) ts))"
  using assms(1,2)
proof (induction ts)
  case (Cons u ts)
  show ?case
  proof (cases "u = t")
    case True
    with Cons.prems have "t \<notin> set ts" by simp
    then have "filter (\<lambda>u. u \<noteq> t) ts = ts" by (auto simp: filter_id_conv)
    then show ?thesis using True \<open>t \<notin> set ts\<close> assms(3,4) stopped_in_other [of t ts K x] by (simp add: stopped_in_def)
  next
    case False
    with Cons show ?thesis by (auto simp: stopped_in_def split: option.splits)
  qed
qed simp

lemma length_without: "distinct ts \<Longrightarrow> t \<in> set ts \<Longrightarrow> length ts = Suc (length (filter (\<lambda>u. u \<noteq> t) ts))"
proof (induction ts)
  case (Cons u ts)
  then show ?case by (cases "u = t") (auto simp: filter_id_conv intro!: arg_cong [of _ _ length] filter_True [symmetric])
qed simp

lemma group_without:
  assumes "group_ok (\<lambda>_. 0) K l" "K l = Some lk" "K t = Some k" "sk_stopped k" "sk_leader k = l" "t \<in> set (sk_list lk)"
  shows "group_ok (\<lambda>_. 0) (without t l lk K) l"
proof -
  have g: "sk_leader lk = l" "distinct (l # sk_list lk)" "\<forall>u \<in> set (sk_list lk). \<exists>k'. K u = Some k' \<and> sk_leader k' = l"
    "sk_threads lk = of_nat (length (l # sk_list lk))" "sk_threads_stopped lk = of_nat (stopped_in K (l # sk_list lk))"
    using assms(1,2) by (auto simp: group_ok_def)
  have tl: "t \<noteq> l" using assms(6) g(2) by auto
  let ?ts = "filter (\<lambda>u. u \<noteq> t) (sk_list lk)"
  have len: "length (sk_list lk) = Suc (length ?ts)"
    using length_without [OF _ assms(6)] g(2) by simp
  have "stopped_in K (l # sk_list lk) = Suc (stopped_in (K(t := None)) (filter (\<lambda>u. u \<noteq> t) (l # sk_list lk)))"
    using stopped_in_without [of "l # sk_list lk" t K k] g(2) assms(3,4,6) by simp
  moreover have "stopped_in (without t l lk K) (l # ?ts) = stopped_in (K(t := None)) (l # ?ts)"
    using assms(2) tl by (intro stopped_in_cong) (auto simp: without_def uncounted_def)
  ultimately have st: "stopped_in K (l # sk_list lk) = Suc (stopped_in (without t l lk K) (l # ?ts))" using tl by simp
  have "without t l lk K l = Some (uncounted t lk)" using tl by (simp add: without_def)
  moreover have "\<forall>u \<in> set ?ts. \<exists>k'. without t l lk K u = Some k' \<and> sk_leader k' = l"
    using g(1,3) by (auto simp: without_def uncounted_def)
  ultimately show ?thesis using g st len by (auto simp: group_ok_def uncounted_def)
qed

lemma without_inv:
  assumes inv: "tasks_inv env (\<lambda>_. 0) s" and k: "sk s t = Some k" "sk_stopped k" "sk_leader k = l"
    and lk: "sk s l = Some lk" and only: "l = t \<Longrightarrow> sk_list lk = []"
    and s': "sk s' = without t l lk (sk s)" "tr_leaders s' = (if l = t then filter (\<lambda>x. x \<noteq> t) (tr_leaders s) else tr_leaders s)"
      "hash_ok s'" "pid_map s' = (pid_map s)(sk_pid k := None)" "tr_next s' = tr_next s"
  shows "tasks_inv env (\<lambda>_. 0) s'"
proof -
  have t: "task_ok env s t k" by (rule tasks_inv_sk [OF inv k(1)])
  have mem: "t \<in> set (l # sk_list lk)" "l \<in> set (tr_leaders s)" using t k(3) lk by (auto simp: task_ok_def)
  have grp: "group_ok (\<lambda>_. 0) (sk s) x" if "x \<in> set (tr_leaders s)" for x using that inv by (simp add: tasks_inv_def)
  have other: "without t l lk (sk s) u = sk s u" if "u \<noteq> t" "u \<noteq> l" for u using that by (simp add: without_def)
  have "group_ok (\<lambda>_. 0) (sk s') x" if x: "x \<in> set (tr_leaders s')" for x
  proof (cases "x = l")
    case True
    with x have "l \<noteq> t" using s'(2) by auto
    with mem(1) group_without [OF grp [OF mem(2)] lk k] True show ?thesis unfolding s'(1) by simp
  next
    case False
    have g: "group_ok (\<lambda>_. 0) (sk s) x" using x grp s'(2) by (auto split: if_splits)
    then obtain xk where xk: "sk s x = Some xk" "sk_leader xk = x" "\<forall>u \<in> set (sk_list xk). \<exists>k'. sk s u = Some k' \<and> sk_leader k' = x"
      by (auto simp: group_ok_def)
    have lkl: "sk_leader lk = l" using grp [OF mem(2)] lk by (auto simp: group_ok_def)
    have out: "u \<noteq> t \<and> u \<noteq> l" if "u \<in> set (x # sk_list xk)" for u
      using that xk False k(1,3) lk lkl by auto
    then have same: "sk s' u = sk s u" if "u \<in> set (x # sk_list xk)" for u using other that s'(1) by simp
    then have "stopped_in (sk s') (x # sk_list xk) = stopped_in (sk s) (x # sk_list xk)" by (intro stopped_in_cong) simp
    then show ?thesis using g xk same by (auto simp: group_ok_def)
  qed
  moreover have "task_ok env s' u k'" if u: "sk s' u = Some k'" for u k'
  proof -
    have ut: "u \<noteq> t" using u s'(1) by (auto simp: without_def)
    obtain k0 where k0: "sk s u = Some k0" "sk_pid k' = sk_pid k0" "sk_leader k' = sk_leader k0"
      using u ut other [of u] s'(1) lk by (cases "u = l") (auto simp: without_def uncounted_def)
    note ok = tasks_inv_sk [OF inv k0(1)]
    have "sk_pid k0 \<noteq> sk_pid k" using ok t ut by (auto simp: task_ok_def)
    moreover have "sk_leader k0 \<noteq> t"
    proof
      assume "sk_leader k0 = t"
      with ok k(1) have "t \<in> set (tr_leaders s)" "u \<in> set (t # sk_list k)" by (auto simp: task_ok_def)
      then have "l = t" using grp [of t] k(1,3) by (auto simp: group_ok_def)
      then show False using only lk k(1) ut \<open>u \<in> set (t # sk_list k)\<close> by auto
    qed
    moreover obtain xk where "sk s (sk_leader k0) = Some xk" "u \<in> set (sk_leader k0 # sk_list xk)" "te_tgid env (sk_pid k0) = sk_pid xk"
      "sk_leader k0 \<in> set (tr_leaders s)" using ok by (auto simp: task_ok_def)
    ultimately show ?thesis
      using ok k0 s' ut lk other [of "sk_leader k0"] by (cases "sk_leader k0 = l") (auto simp: task_ok_def without_def uncounted_def)
  qed
  ultimately show ?thesis using inv s'(2,3) by (auto simp: tasks_inv_def)
qed

text \<open>The end of a stopped task.\<close>

lemma task_destroy_inv:
  assumes run: "task_destroy env t s = (Inr u, s')" and tk: "tr_tasks s t = Some tk" "\<not> tk_deleted tk" "tk_stopped tk"
    and inv: "tasks_inv env (\<lambda>_. 0) s" and lk: "sk s (tk_leader tk) = Some lk" "Suc (length (sk_list lk)) < 2 ^ 32"
    and only: "tk_leader tk = t \<Longrightarrow> sk_list lk = []"
  shows "tasks_inv env (\<lambda>_. 0) s'" "tr_tasks s' t = None" "pid_map s' (tk_pid tk) = None"
proof -
  note d = task_destroy_sk [OF run tk inv refl lk only, simplified]
  have k: "sk s t = Some (skel tk)" using tk by (simp add: sk_Some)
  show "tasks_inv env (\<lambda>_. 0) s'" by (rule without_inv [OF inv k _ _ lk(1)]) (use d tk only in auto)
  show "tr_tasks s' t = None" using d by (auto simp: without_def sk_def fun_eq_iff split: if_splits)
  show "pid_map s' (tk_pid tk) = None" using d by simp
qed

subsection \<open>A whole process\<close>

text \<open>A process of fewer than \<open>2 ^ 32\<close> threads, every one stopped, with the threads \<open>ts\<close> among its own.\<close>

definition halted :: "tracer \<Rightarrow> nat \<Rightarrow> nat list \<Rightarrow> bool" where
  "halted s l ts \<longleftrightarrow> l \<in> set (tr_leaders s) \<and> (\<exists>lk. sk s l = Some lk \<and> set ts \<subseteq> set (l # sk_list lk) \<and>
     Suc (length (sk_list lk)) < 2 ^ 32 \<and> (\<forall>u \<in> set (l # sk_list lk). \<exists>k. sk s u = Some k \<and> sk_stopped k))"

lemma remove_task_cb_inv:
  assumes run: "remove_task_cb env l t s = (Inr u, s')" and inv: "tasks_inv env (\<lambda>_. 0) s" and h: "halted s l (t # ts)"
    and d: "t \<notin> set ts"
  shows "tasks_inv env (\<lambda>_. 0) s' \<and> halted s' l ts"
proof (cases "t = l")
  case True
  with run inv h show ?thesis by (auto simp: remove_task_cb_def retS_Inr halted_def)
next
  case False
  obtain lk where l: "l \<in> set (tr_leaders s)" "sk s l = Some lk" "set (t # ts) \<subseteq> set (l # sk_list lk)"
    "\<forall>u \<in> set (l # sk_list lk). \<exists>k. sk s u = Some k \<and> sk_stopped k" and size: "Suc (length (sk_list lk)) < 2 ^ 32"
    using h by (auto simp: halted_def)
  from False l(3) have t: "t \<in> set (sk_list lk)" by simp
  have g: "group_ok (\<lambda>_. 0) (sk s) l" using inv l(1) by (simp add: tasks_inv_def)
  then obtain tk where tk: "tr_tasks s t = Some tk" "tk_leader tk = l" "tk_stopped tk"
    using t l(2,4) by (fastforce simp: group_ok_def sk_Some)
  have run: "task_destroy env t s = (Inr u, s')" using run False by (simp add: remove_task_cb_def)
  show ?thesis
  proof (cases "tk_deleted tk")
    case True
    with run tk(1) have "s' = s" by (auto simp: task_destroy_def top_run Let_def)
    then show ?thesis using inv h by (auto simp: halted_def)
  next
    case del: False
    have lk: "sk s (tk_leader tk) = Some lk" using l(2) tk(2) by simp
    note sk' = task_destroy_sk [OF run tk(1) del tk(3) inv refl lk size]
    have leader: "tk_leader tk \<noteq> t" using False tk(2) by simp
    have "tasks_inv env (\<lambda>_. 0) s'" by (rule task_destroy_inv(1) [OF run tk(1) del tk(3) inv lk size]) (use leader in auto)
    moreover have K: "sk s' = without t l lk (sk s)" "tr_leaders s' = tr_leaders s"
      using sk' leader tk(2) by auto
    moreover have "sk s' l = Some (uncounted t lk)" using K(1) False by (simp add: without_def)
    moreover have "\<forall>u \<in> set (l # sk_list (uncounted t lk)). \<exists>k. sk s' u = Some k \<and> sk_stopped k"
      unfolding K(1) using l(2,4) False by (auto simp: without_def uncounted_def)
    moreover have "set ts \<subseteq> set (l # sk_list (uncounted t lk))" using l(3) d by (auto simp: uncounted_def)
    moreover have "length (sk_list (uncounted t lk)) \<le> length (sk_list lk)" by (simp add: uncounted_def)
    ultimately show ?thesis using l(1) size by (auto simp: halted_def)
  qed
qed

lemma remove_loop_inv:
  assumes "each_loop ts (remove_task_cb env l) s = (Inr u, s')" "tasks_inv env (\<lambda>_. 0) s" "halted s l ts" "distinct ts"
  shows "tasks_inv env (\<lambda>_. 0) s' \<and> halted s' l []"
  using assms
proof (induction ts arbitrary: s)
  case (Cons t ts)
  then obtain s1 where s1: "remove_task_cb env l t s = (Inr (), s1)" "each_loop ts (remove_task_cb env l) s1 = (Inr u, s')"
    by (auto simp: seqS_Inr)
  from remove_task_cb_inv [OF s1(1) Cons.prems(2,3)] Cons.prems(4) have
    "tasks_inv env (\<lambda>_. 0) s1" "halted s1 l ts" by auto
  with Cons.IH [OF s1(2)] Cons.prems(4) show ?case by simp
qed (auto simp: retS_Inr)

lemma stop_threads_halted:
  assumes "stop_threads env l s = (Inr (), s1)" "tasks_inv env (\<lambda>_. 0) s" "tgid_ok env" "process_size s1 l < 2 ^ 32"
    "tr_tasks s l = Some lk" "tk_leader lk = l"
  shows "tasks_inv env (\<lambda>_. 0) s1" "halted s1 l []" "\<exists>lk. sk s1 l = Some lk \<and> sk_leader lk = l \<and> sk_threads lk = sk_threads_stopped lk"
proof -
  from stop_threads_inv [OF assms(1-3,5)] assms(6) obtain lk1 where
    inv: "tasks_inv env (\<lambda>_. 0) s1" "l \<in> set (tr_leaders s1)" "tr_tasks s1 l = Some lk1" "tk_threads lk1 = tk_threads_stopped lk1" by auto
  have g: "group_ok (\<lambda>_. 0) (sk s1) l" using inv(1,2) by (simp add: tasks_inv_def)
  have k: "sk s1 l = Some (skel lk1)" "length (l # sk_list (skel lk1)) < 2 ^ 32"
    using inv(3) assms(4) by (simp_all add: sk_Some process_size_def)
  show "tasks_inv env (\<lambda>_. 0) s1" by (rule inv(1))
  show "halted s1 l []" using group_counts(1) [OF g k] inv(2,4) k by (auto simp: halted_def)
  show "\<exists>lk. sk s1 l = Some lk \<and> sk_leader lk = l \<and> sk_threads lk = sk_threads_stopped lk" using g k(1) inv(4) by (auto simp: group_ok_def)
qed

text \<open>The leader goes last, unless it is marked as deleted already.\<close>

lemma remove_proc_inv:
  assumes run: "remove_proc env l s = (Inr u, s')" and inv: "tasks_inv env (\<lambda>_. 0) s" "tgid_ok env"
    and stop: "stop_threads env l s = (Inr (), s1)" "process_size s1 l < 2 ^ 32"
  shows "tasks_inv env (\<lambda>_. 0) s' \<and>
    (case tr_tasks s' l of None \<Rightarrow> l \<notin> set (tr_leaders s') | Some tk \<Rightarrow> tk_deleted tk)"
proof -
  from run stop(1) obtain lk s2 lk2 s3 tk where lk: "tr_tasks s l = Some lk" "tk_leader lk = l"
    and s2: "breakpoint_disable_all env l s1 = (Inr (), s2)" "tr_tasks s2 l = Some lk2"
    and s3: "each_loop (tk_task_list lk2 @ [l]) (remove_task_cb env l) s2 = (Inr (), s3)"
    and tk: "tr_tasks s3 l = Some tk" "tk_threads tk = 1" and fin: "task_destroy env l s3 = (Inr u, s')"
    by (auto simp: remove_proc_def assert_leader_def assert_single_def each_task_def top_run)
  note h1 = stop_threads_halted [OF stop(1) inv stop(2) lk]
  have same: "same_skel s1 s2" using framedD [OF idle_disable_all s2(1)] h1(3) by (auto simp: idle_def)
  have inv2: "tasks_inv env (\<lambda>_. 0) s2" using same_skel_inv [OF same] h1(1) by simp
  have "sk s2 l = Some (skel lk2)" using s2(2) by (simp add: sk_Some)
  then have "halted s2 l (tk_task_list lk2 @ [l])" "distinct (tk_task_list lk2 @ [l])"
    using h1(2) same inv2 by (auto simp: halted_def same_skel_def tasks_inv_def group_ok_def)
  from remove_loop_inv [OF s3 inv2 this] have inv3: "tasks_inv env (\<lambda>_. 0) s3" "halted s3 l []" by simp_all
  then have l3: "l \<in> set (tr_leaders s3)" "tk_stopped tk" "Suc (length (tk_task_list tk)) < 2 ^ 32"
    using tk(1) by (auto simp: halted_def sk_Some)
  have g: "group_ok (\<lambda>_. 0) (sk s3) l" using inv3(1) l3(1) by (simp add: tasks_inv_def)
  then have ld: "tk_leader tk = l" "(1 :: u32) = of_nat (Suc (length (tk_task_list tk)))"
    using tk by (auto simp: group_ok_def sk_Some)
  then have none: "tk_task_list tk = []" using of_nat_u32_0 [of "length (tk_task_list tk)"] l3(3) by auto
  show ?thesis
  proof (cases "tk_deleted tk")
    case True
    with fin tk(1) have "s' = s3" by (auto simp: task_destroy_def top_run Let_def)
    then show ?thesis using inv3(1) tk(1) True by simp
  next
    case False
    have k: "sk s3 (tk_leader tk) = Some (skel tk)" "Suc (length (sk_list (skel tk))) < 2 ^ 32" using ld tk(1) l3(3) by (simp_all add: sk_Some)
    have only: "tk_leader tk = l \<Longrightarrow> sk_list (skel tk) = []" using none by simp
    note d = task_destroy_inv [OF fin tk(1) False l3(2) inv3(1) k only]
    have "l \<notin> set (tr_leaders s')" using task_destroy_sk [OF fin tk(1) False l3(2) inv3(1) refl k only] ld(1) by simp
    then show ?thesis using d by simp
  qed
qed

end
