(* ===== verification/Trace_Reach.thy ===== *)
theory Trace_Reach
  imports Task_End
begin

text \<open>
  The states the tracer reaches: it starts without tasks and then takes events, stops and continues threads, follows the
  commands of the client and ends tasks. The threads of every process are counted in all of them.
\<close>

subsection \<open>Events\<close>

text \<open>
  An event that leaves the program of a thread as it is: not a new process, not another program, and not the end of a
  whole process. The new task of a clone is a thread of a process, also when the clone waits for it.
\<close>

definition new_thread :: "tracer \<Rightarrow> u32 \<Rightarrow> bool" where
  "new_thread s pid = (case pid_map s pid of None \<Rightarrow> False | Some nt \<Rightarrow>
     (case tr_tasks s nt of None \<Rightarrow> False | Some ntk \<Rightarrow> tk_leader ntk \<noteq> nt))"

definition plain_event :: "tracer \<Rightarrow> nat \<Rightarrow> bool" where
  "plain_event s t = (case tr_tasks s t of None \<Rightarrow> False | Some tk \<Rightarrow>
     if tk_defer tk \<noteq> None then tk_leader tk \<noteq> t
     else
       tk_event tk \<in> {EVENT_NONE, EVENT_SIGNAL, EVENT_NEW, EVENT_ABOUT_EXIT, EVENT_BREAKPOINT} \<or>
       tk_event tk \<in> {EVENT_EXIT, EVENT_EXIT_SIGNAL} \<and> tk_leader tk \<noteq> t \<and> process_size s (tk_leader tk) < 2 ^ 32 \<or>
       tk_event tk \<in> {EVENT_CLONE, EVENT_FORK, EVENT_VFORK} \<and> new_thread s (of_nat (tk_ev_num tk)))"

lemma do_clone_inv:
  assumes "do_clone env t nt s = (Inr r, s')" "tr_tasks s nt = Some ntk" "tk_leader ntk \<noteq> nt"
  shows "keeps_inv env s s'"
proof -
  have f: "framed (keeps_inv env) (seqS (task_clone t nt)
      (seqS (updT nt (\<lambda>n. n\<lparr>tk_is_new := False\<rparr>)) (bindS (continue_task nt 0) (\<lambda>ok. retS (ret_of ok)))))"
    by (intro ki_rules ki_task_clone ki_continue ki_updT) (simp add: skel_def)
  from assms have "seqS (task_clone t nt)
      (seqS (updT nt (\<lambda>n. n\<lparr>tk_is_new := False\<rparr>)) (bindS (continue_task nt 0) (\<lambda>ok. retS (ret_of ok)))) s = (Inr r, s')"
    by (auto simp: do_clone_def bindS_Inr [of "getT _"] getT_Inr seqS_Inr [of "assertS _"] assertS_Inr Let_def)
  then show ?thesis by (rule framedD [OF f])
qed

lemma do_clone_cb_inv:
  assumes "do_clone_cb env nt t s = (Inr r, s')" "tr_tasks s nt = Some ntk" "tk_leader ntk \<noteq> nt"
  shows "keeps_inv env s s'"
proof -
  obtain r1 s1 where s1: "do_clone env t nt s = (Inr r1, s1)" "bindS (continue_task t 0) (\<lambda>_. retS r1) s1 = (Inr r, s')"
    using assms(1) unfolding do_clone_cb_def bindS_Inr [of "do_clone _ _ _"] by blast
  have "framed (keeps_inv env) (bindS (continue_task t 0) (\<lambda>_. retS r1))" by (intro ki_rules ki_continue)
  from framedD [OF this s1(2)] do_clone_inv [OF s1(1) assms(2,3)] show ?thesis using ki.trans by blast
qed

lemma handle_child_inv:
  assumes run: "handle_child env t s = (Inr r, s')" and tk: "tr_tasks s t = Some tk" "new_thread s (of_nat (tk_ev_num tk))" and h: "hash_ok s"
  shows "keeps_inv env s s'"
proof -
  obtain nt ntk where nt: "pid_map s (of_nat (tk_ev_num tk)) = Some nt" "tr_tasks s nt = Some ntk" "tk_leader ntk \<noteq> nt"
    using tk(2) by (auto simp: new_thread_def split: option.splits)
  have found: "pid2task (of_nat (tk_ev_num tk)) s = (Inr (Some nt), s)" using pid2task_run [OF h] nt(1) by simp
  show ?thesis
  proof (cases "tk_stopped ntk")
    case True
    with run tk(1) found nt(2) obtain r1 s1 where s1: "do_clone env t nt s = (Inr r1, s1)"
      and s2: "bindS (continue_task t 0) (\<lambda>ok. retS (ret_of ok)) s1 = (Inr r, s')"
      by (auto simp: handle_child_def bindS_Inr [of "getT _"] getT_Inr bindS_Inr [of "pid2task _"] bindS_Inr [of "do_clone _ _ _"])
    have "framed (keeps_inv env) (bindS (continue_task t 0) (\<lambda>ok. retS (ret_of ok)))" by (intro ki_rules ki_continue)
    from framedD [OF this s2] do_clone_inv [OF s1 nt(2,3)] show ?thesis using ki.trans by blast
  next
    case False
    have f: "framed (keeps_inv env) (seqS (updT nt (\<lambda>n. n\<lparr>tk_defer := Some t\<rparr>)) (retS RET_DEFERED))"
      by (intro ki_rules ki_updT) (simp add: skel_def)
    from False run tk(1) found nt(2) have "seqS (updT nt (\<lambda>n. n\<lparr>tk_defer := Some t\<rparr>)) (retS RET_DEFERED) s = (Inr r, s')"
      by (auto simp: handle_child_def bindS_Inr [of "getT _"] getT_Inr bindS_Inr [of "pid2task _"])
    then show ?thesis by (rule framedD [OF f])
  qed
qed

lemma handle_exit_inv:
  assumes run: "handle_exit env t s = (Inr r, s')" and tk: "tr_tasks s t = Some tk" "tk_stopped tk" "tk_leader tk \<noteq> t"
    and inv: "tasks_inv env (\<lambda>_. 0) s" and size: "process_size s (tk_leader tk) < 2 ^ 32"
  shows "tasks_inv env (\<lambda>_. 0) s' \<and> r = RET_DELETED"
proof -
  have d: "task_destroy env t s = (Inr (), s')" and r: "r = RET_DELETED"
    using run tk by (auto simp: handle_exit_def remove_task_def top_run)
  obtain lk where lk: "tr_tasks s (tk_leader tk) = Some lk" using tasks_inv_sk [OF inv, of t] tk(1) by (auto simp: sk_Some task_ok_def)
  have k: "sk s (tk_leader tk) = Some (skel lk)" "Suc (length (sk_list (skel lk))) < 2 ^ 32"
    using lk size by (simp_all add: sk_Some process_size_def)
  show ?thesis
  proof (cases "tk_deleted tk")
    case True
    with d tk(1) have "s' = s" by (auto simp: task_destroy_def top_run Let_def)
    then show ?thesis using inv r by simp
  next
    case False
    have "tasks_inv env (\<lambda>_. 0) s'" by (rule task_destroy_inv(1) [OF d tk(1) False tk(2) inv k]) (use tk in auto)
    then show ?thesis using r by simp
  qed
qed

lemma ki_checks: "framed (keeps_inv env) (check_running t ret)" "framed (keeps_inv env) (check_known t)"
  unfolding check_running_def check_known_def by (intro ki_rules)+

lemma ki_finish:
  assumes "framed (keeps_inv env) m"
  shows "framed (keeps_inv env) (bindS m (\<lambda>ret.
    if ret = RET_DELETED then retS 1 else seqS (check_running t ret) (seqS (check_known t) (retS (event_result ret)))))"
  by (intro ki_rules ki_checks assms)

lemmas event_run = handle_event_def bindS_Inr [of "getT _"] getT_Inr seqS_Inr [of "assertS _"] assertS_Inr Let_def

lemma handle_event_alone_inv:
  assumes run: "handle_event env (Some t) s = (Inr r, s')" and plain: "plain_event s t" and alone: "map_option tk_defer (tr_tasks s t) = Some None"
    and inv: "tasks_inv env (\<lambda>_. 0) s" "tgid_ok env" "loader_ok env"
  shows "tasks_inv env (\<lambda>_. 0) s'"
proof -
  obtain tk where tk: "tr_tasks s t = Some tk" "tk_defer tk = None" using plain alone by (auto simp: plain_event_def split: option.splits)
  let ?fin = "\<lambda>m. bindS m (\<lambda>ret. if ret = RET_DELETED then retS 1
    else seqS (check_running t ret) (seqS (check_known t) (retS (event_result ret))))"
  have st: "tk_stopped tk" using run tk by (auto simp: handle_event_def top_run)
  note use = ki_run [OF _ _ inv(1,2)]
  consider "tk_event tk = EVENT_NONE" | "tk_event tk = EVENT_SIGNAL" | "tk_event tk = EVENT_NEW" | "tk_event tk = EVENT_ABOUT_EXIT"
    | "tk_event tk = EVENT_BREAKPOINT" | "tk_event tk = EVENT_EXIT \<or> tk_event tk = EVENT_EXIT_SIGNAL"
    | "tk_event tk \<in> {EVENT_CLONE, EVENT_FORK, EVENT_VFORK}" "new_thread s (of_nat (tk_ev_num tk))"
    using plain tk by (auto simp: plain_event_def)
  then show ?thesis
  proof cases
    case 1
    then have "?fin (bindS (continue_task t (tk_ev_num tk)) (\<lambda>ok. retS (ret_of ok))) s = (Inr r, s')"
      using run tk st by (simp add: event_run)
    then show ?thesis by (rule use [rotated]) (intro ki_finish ki_rules ki_continue)
  next
    case 2
    then have "?fin (handle_signal t) s = (Inr r, s')"
      using run tk st by (simp add: event_run)
    then show ?thesis by (rule use [rotated]) (intro ki_finish ki_signal)
  next
    case 3
    then have "?fin (handle_new t) s = (Inr r, s')"
      using run tk st by (simp add: event_run)
    then show ?thesis by (rule use [rotated]) (intro ki_finish ki_new)
  next
    case 4
    then have "bindS (handle_about_exit env t) (\<lambda>ret. retS (event_result ret)) s = (Inr r, s')"
      using run tk st by (simp add: event_run)
    then show ?thesis by (rule use [rotated]) (intro ki_rules ki_about_exit)
  next
    case 5
    then have "bindS (handle_breakpoint env t) (\<lambda>ret. seqS (check_known t) (retS (event_result ret))) s = (Inr r, s')"
      using run tk st by (simp add: event_run)
    then show ?thesis by (rule use [rotated]) (intro ki_rules ki_breakpoint ki_checks inv(3))
  next
    case 6
    then have "?fin (handle_exit env t) s = (Inr r, s')"
      using run tk st by (auto simp: event_run)
    then obtain ret s1 where s1: "handle_exit env t s = (Inr ret, s1)"
      and rest: "(if ret = RET_DELETED then retS 1 else seqS (check_running t ret) (seqS (check_known t) (retS (event_result ret)))) s1 = (Inr r, s')"
      by (auto simp: bindS_Inr)
    from 6 plain tk have "tk_leader tk \<noteq> t" "process_size s (tk_leader tk) < 2 ^ 32" by (auto simp: plain_event_def)
    from handle_exit_inv [OF s1 tk(1) st this(1) inv(1) this(2)] rest show ?thesis by (auto simp: retS_Inr)
  next
    case 7
    then have "?fin (handle_child env t) s = (Inr r, s')"
      using run tk st by (auto simp: event_run)
    then obtain ret s1 where s1: "handle_child env t s = (Inr ret, s1)"
      and rest: "(if ret = RET_DELETED then retS 1 else seqS (check_running t ret) (seqS (check_known t) (retS (event_result ret)))) s1 = (Inr r, s')"
      by (auto simp: bindS_Inr)
    have "hash_ok s" using inv(1) by (simp add: tasks_inv_def)
    from handle_child_inv [OF s1 tk(1) 7(2) this] inv have k: "tasks_inv env (\<lambda>_. 0) s1" by (simp add: keeps_inv_def)
    have f: "framed (keeps_inv env) (if ret = RET_DELETED then retS 1
        else seqS (check_running t ret) (seqS (check_known t) (retS (event_result ret))))" by (intro ki_rules ki_checks)
    from k rest inv(2) framedD [OF f rest] show ?thesis by (simp add: keeps_inv_def)
  qed
qed

lemma handle_event_inv:
  assumes run: "handle_event env (Some t) s = (Inr r, s')" and plain: "plain_event s t"
    and inv: "tasks_inv env (\<lambda>_. 0) s" "tgid_ok env" "loader_ok env"
  shows "tasks_inv env (\<lambda>_. 0) s'"
proof -
  obtain tk where tk: "tr_tasks s t = Some tk" using plain by (auto simp: plain_event_def split: option.splits)
  show ?thesis
  proof (cases "tk_defer tk")
    case None
    with tk handle_event_alone_inv [OF run plain _ inv] show ?thesis by simp
  next
    case (Some parent)
    then have lead: "tk_leader tk \<noteq> t" using plain tk by (simp add: plain_event_def)
    from run tk Some obtain ret s1 where s1: "do_clone_cb env t parent s = (Inr ret, s1)"
      and rest: "(if ret = RET_DELETED then retS 1
        else seqS (updT t (\<lambda>tk. tk\<lparr>tk_defer := None\<rparr>)) (seqS (check_known t) (retS (event_result ret)))) s1 = (Inr r, s')"
      by (auto simp: event_run bindS_Inr [of "do_clone_cb _ _ _"])
    from do_clone_cb_inv [OF s1 tk lead] inv have k: "tasks_inv env (\<lambda>_. 0) s1" by (simp add: keeps_inv_def)
    have f: "framed (keeps_inv env) (if ret = RET_DELETED then retS 1
        else seqS (updT t (\<lambda>tk. tk\<lparr>tk_defer := None\<rparr>)) (seqS (check_known t) (retS (event_result ret))))"
      by (intro ki_rules ki_checks ki_updT) (simp add: skel_def)
    from k rest inv(2) framedD [OF f rest] show ?thesis by (simp add: keeps_inv_def)
  qed
qed

subsection \<open>Reachable states\<close>

definition no_tasks :: "tracer \<Rightarrow> bool" where
  "no_tasks s \<longleftrightarrow> (\<forall>t. tr_tasks s t = None) \<and> tr_leaders s = [] \<and> tr_pid_hash s = replicate PID_HASH_SIZE None"

inductive reached :: "trace_env \<Rightarrow> tracer \<Rightarrow> bool" for env where
  start: "no_tasks s \<Longrightarrow> reached env s"
| wait: "reached env s \<Longrightarrow> next_event env s = (Inr r, s') \<Longrightarrow> reached env s'"
| event: "reached env s \<Longrightarrow> plain_event s t \<Longrightarrow> handle_event env (Some t) s = (Inr r, s') \<Longrightarrow> reached env s'"
| stop: "reached env s \<Longrightarrow> stop_threads env t s = (Inr u, s') \<Longrightarrow> reached env s'"
| trace_on: "reached env s \<Longrightarrow> start_trace env l s = (Inr u, s') \<Longrightarrow> reached env s'"
| trace_off: "reached env s \<Longrightarrow> stop_trace env l s = (Inr u, s') \<Longrightarrow> reached env s'"
| close: "reached env s \<Longrightarrow> server_close env s = (Inr u, s') \<Longrightarrow> reached env s'"
| remove: "reached env s \<Longrightarrow> stop_threads env l s = (Inr (), s1) \<Longrightarrow> process_size s1 l < 2 ^ 32 \<Longrightarrow>
    remove_proc env l s = (Inr u, s') \<Longrightarrow> reached env s'"

lemma reached_inv:
  assumes "reached env s" "tgid_ok env" "loader_ok env"
  shows "tasks_inv env (\<lambda>_. 0) s"
  using assms(1)
proof (induction rule: reached.induct)
  case (start s)
  then show ?case by (auto simp: no_tasks_def tasks_inv_def hash_ok_def sk_def)
next
  case (wait s r s')
  then show ?case using ki_run [OF ki_next] assms(2) by blast
next
  case (event s t r s')
  then show ?case using handle_event_inv assms(2,3) by blast
next
  case (stop s t u s')
  then show ?case using ki_run [OF ki_stop_threads] assms(2) by blast
next
  case (trace_on s l u s')
  then show ?case using ki_run [OF ki_start_trace] assms(2) by blast
next
  case (trace_off s l u s')
  then show ?case using ki_run [OF ki_stop_trace] assms(2) by blast
next
  case (close s u s')
  then show ?case using ki_run [OF ki_server_close] assms(2) by blast
next
  case (remove s l s1 u s')
  then show ?case using remove_proc_inv assms(2) by blast
qed

text \<open>The counters as numbers.\<close>

lemma stopped_split:
  "length (filter P ts) + length (filter (\<lambda>t. \<not> P t) ts) = length ts"
  by (induction ts) auto

lemma leader_numbers:
  assumes "tasks_inv env (\<lambda>_. 0) s" "l \<in> set (tr_leaders s)" "process_size s l < 2 ^ 32" "tr_tasks s l = Some lk"
  shows "unat (tk_threads lk) = process_size s l" "unat (tk_threads_stopped lk) + card (running s l) = process_size s l"
proof -
  let ?ts = "l # tk_task_list lk"
  have g: "group_ok (\<lambda>_. 0) (sk s) l" using assms(1,2) by (simp add: tasks_inv_def)
  then have c: "tk_threads lk = of_nat (length ?ts)" "tk_threads_stopped lk = of_nat (stopped_in (sk s) ?ts)" "distinct ?ts"
    "\<forall>t \<in> set ?ts. sk s t \<noteq> None" using assms(4) by (fastforce simp: group_ok_def sk_Some)+
  have n: "length ?ts = process_size s l" using assms(4) by (simp add: process_size_def)
  have small: "i \<le> process_size s l \<Longrightarrow> unat (of_nat i :: u32) = i" for i
    using assms(3) by (simp add: unat_of_nat take_bit_nat_eq_self)
  show "unat (tk_threads lk) = process_size s l" unfolding c(1) n by (rule small) simp
  let ?P = "\<lambda>t. case sk s t of None \<Rightarrow> False | Some k \<Rightarrow> sk_stopped k"
  have "t \<in> running s l \<longleftrightarrow> t \<in> set ?ts \<and> \<not> ?P t" for t
  proof (cases "tr_tasks s t")
    case None
    then have "t \<notin> set ?ts" using c(4) by (auto simp: sk_def)
    then show ?thesis using None by (simp add: running_def)
  qed (use assms(4) in \<open>simp add: running_def sk_def\<close>)
  then have "running s l = set (filter (\<lambda>t. \<not> ?P t) ?ts)" by (intro set_eqI) (simp only: set_filter mem_Collect_eq)
  then have "card (running s l) = length (filter (\<lambda>t. \<not> ?P t) ?ts)" using c(3) distinct_card [of "filter (\<lambda>t. \<not> ?P t) ?ts"] by simp
  then show "unat (tk_threads_stopped lk) + card (running s l) = process_size s l"
    using small [of "stopped_in (sk s) ?ts"] stopped_in_le [of "sk s" ?ts] stopped_split [of ?P ?ts] n
    unfolding c(2) by (simp add: stopped_in_def)
qed

end
