(* ===== verification/Breakpoint_Facts.thy ===== *)
theory Breakpoint_Facts
  imports Breakpoint Trace_Stop
begin

text \<open>
  What the breakpoints do to a stopped process: a software breakpoint puts the trap instruction into the memory and
  takes it out again without a trace, a hardware breakpoint is armed in every thread of the process.
\<close>

subsection \<open>Software breakpoints\<close>

lemma words_1 [simp]: "words (Suc 0) = 8"
  by (simp add: words_def)

lemma procS_run:
  assumes "tr_tasks s t = Some tk" "tr_tasks s (tk_leader tk) = Some lk" "f (traced_of s (tk_pid lk) tk) = (x, tr)"
  shows "procS t f s = (Inr x, s\<lparr>os_mem := (os_mem s)(tk_pid lk := t_mem tr)\<rparr>)"
  using assms by (simp add: procS_def bindS_def getT_def getS_def seqS_def modS_def retS_def)

text \<open>A stopped thread through which the memory of its process can be reached, and the word at an address.\<close>

definition reaches :: "tracer \<Rightarrow> nat \<Rightarrow> u32 \<Rightarrow> ulong \<Rightarrow> bool" where
  "reaches s t pid addr \<longleftrightarrow> (\<exists>tk lk. tr_tasks s t = Some tk \<and> tk_stopped tk \<and> os_ptrace s (tk_pid tk) = None \<and>
     tr_tasks s (tk_leader tk) = Some lk \<and> tk_pid lk = pid \<and> read_mem (os_mem s pid) addr 8 \<noteq> None)"

definition trapped :: "u8 \<Rightarrow> breakpoint \<Rightarrow> breakpoint" where
  "trapped v bp = (set_orig_value v bp)\<lparr>bp_break_insn := (v = 0xcc), bp_was_hw := False, bp_sw := True, bp_enabled := True\<rparr>"

lemma orig_set_orig [simp]: "bp_orig_value (set_orig_value v bp) = v"
proof -
  have "bit (ucast ((bp_union bp AND NOT 0xff) OR ucast v) :: u8) i \<longleftrightarrow> bit v i" if "i < 8" for i
  proof -
    have ff: "(0xff :: u32) = mask 8" by (simp add: mask_eq_exp_minus_1)
    have "bit (0xff :: u32) i" unfolding ff bit_mask_iff using that by simp
    then have "\<not> bit (NOT (0xff :: u32)) i" unfolding bit_not_iff by simp
    then show ?thesis using that by (simp only: bit_ucast_iff bit_or_iff bit_and_iff) simp
  qed
  then have "ucast ((bp_union bp AND NOT 0xff) OR ucast v) = v" by (intro bit_word_eqI) simp
  then show ?thesis by (simp add: bp_orig_value_def set_orig_value_def)
qed

lemma trapped_sel [simp]:
  "bp_orig_value (trapped v bp) = v" "bp_addr (trapped v bp) = bp_addr bp" "bp_sw (trapped v bp)" "bp_hw (trapped v bp) = bp_hw bp"
  "bp_enabled (trapped v bp)" "bp_type (trapped v bp) = bp_type bp" "bp_deleted (trapped v bp) = bp_deleted bp"
  using orig_set_orig [of v bp] by (simp_all add: trapped_def bp_orig_value_def set_orig_value_def)

lemma read_mem_first: "read_mem m addr 8 = Some bs \<Longrightarrow> m addr = Some (hd bs)"
  using read_mem_nth [of m addr 8 bs 0] length_read_mem [of m addr 8 bs] by (cases bs) auto

lemma enable_sw_run:
  assumes "reaches s t pid (bp_addr bp)" "tr_bps s b = Some bp" "\<not> bp_sw bp" "\<not> bp_hw bp"
  shows "\<exists>v. os_mem s pid (bp_addr bp) = Some v \<and>
    enable_sw_breakpoint t b s =
      (Inr (), s\<lparr>os_mem := (os_mem s)(pid := (os_mem s pid)(bp_addr bp \<mapsto> 0xcc)), tr_bps := (tr_bps s)(b \<mapsto> trapped v bp)\<rparr>)"
proof -
  obtain tk lk bs where tk: "tr_tasks s t = Some tk" "tk_stopped tk" "os_ptrace s (tk_pid tk) = None"
    and lk: "tr_tasks s (tk_leader tk) = Some lk" "tk_pid lk = pid" and bs: "read_mem (os_mem s pid) (bp_addr bp) 8 = Some bs"
    using assms(1) by (auto simp: reaches_def)
  let ?tr = "traced_of s (tk_pid lk) tk"
  have l: "length bs = 8" using length_read_mem [OF bs] .
  have m: "t_stopped ?tr" "read_mem (t_mem ?tr) (bp_addr bp) (words (length break_insn)) = Some bs" "words (length break_insn) < 2 ^ 64"
    using tk(3) bs lk(2) by (simp_all add: traced_of_def break_insn_def)
  have hd: "take 1 bs = [hd bs]" using l by (cases bs) auto
  have "copy_from_to_proc ?tr (bp_addr bp) break_insn =
    (Some [hd bs], [hd bs], ?tr\<lparr>t_mem := write_mem (t_mem ?tr) (bp_addr bp) break_insn\<rparr>)"
    using copy_from_to_loop_mapped [OF m, of "[]"] hd by (simp add: copy_from_to_proc_def break_insn_def)
  then have c: "(case copy_from_to_proc ?tr (bp_addr bp) break_insn of (_, dst, tr) \<Rightarrow> (dst, tr)) =
    ([hd bs], ?tr\<lparr>t_mem := (os_mem s pid)(bp_addr bp \<mapsto> 0xcc)\<rparr>)" using lk(2) by (simp add: traced_of_def break_insn_def)
  have "enable_sw_breakpoint t b s =
      (Inr (), s\<lparr>os_mem := (os_mem s)(pid := (os_mem s pid)(bp_addr bp \<mapsto> 0xcc)), tr_bps := (tr_bps s)(b \<mapsto> trapped (hd bs) bp)\<rparr>)"
    using tk(1,2) assms(2-4) lk(2) procS_run [of s t tk lk "\<lambda>tr. case copy_from_to_proc tr (bp_addr bp) break_insn of (_, dst, tr) \<Rightarrow> (dst, tr)", OF tk(1) lk(1) c]
    by (simp add: enable_sw_breakpoint_def bindS_def seqS_def getT_def getB_def updB_def assertS_def retS_def Let_def trapped_def break_insn_def)
  then show ?thesis using read_mem_first [OF bs] by blast
qed

lemma disable_sw_run:
  assumes "reaches s t pid (bp_addr bp)" "tr_bps s b = Some bp" "bp_sw bp" "\<not> bp_hw bp"
  shows "disable_sw_breakpoint t b s =
    (Inr (), s\<lparr>os_mem := (os_mem s)(pid := (os_mem s pid)(bp_addr bp \<mapsto> bp_orig_value bp)),
              tr_bps := (tr_bps s)(b \<mapsto> bp\<lparr>bp_sw := False, bp_enabled := False\<rparr>)\<rparr>)"
proof -
  obtain tk lk bs where tk: "tr_tasks s t = Some tk" "tk_stopped tk" "os_ptrace s (tk_pid tk) = None"
    and lk: "tr_tasks s (tk_leader tk) = Some lk" "tk_pid lk = pid" and bs: "read_mem (os_mem s pid) (bp_addr bp) 8 = Some bs"
    using assms(1) by (auto simp: reaches_def)
  let ?tr = "traced_of s (tk_pid lk) tk" and ?o = "[bp_orig_value bp]"
  have m: "t_stopped ?tr" "read_mem (t_mem ?tr) (bp_addr bp) (words (length ?o)) = Some bs" "words (length ?o) < 2 ^ 64"
    using tk(3) bs lk(2) by (simp_all add: traced_of_def)
  have c: "copy_to_proc ?tr (bp_addr bp) ?o = (Some 1, ?tr\<lparr>t_mem := (os_mem s pid)(bp_addr bp \<mapsto> bp_orig_value bp)\<rparr>)"
    using copy_to_loop_mapped [OF m, of 0] lk(2) by (simp add: copy_to_proc_def traced_of_def)
  show ?thesis
    using tk(1,2) assms(2-4) lk(2) procS_run [of s t tk lk "\<lambda>tr. copy_to_proc tr (bp_addr bp) ?o", OF tk(1) lk(1) c]
    by (simp add: disable_sw_breakpoint_def bindS_def seqS_def getT_def getB_def updB_def assertS_def retS_def)
qed

lemma read_mem_written: "read_mem m addr n \<noteq> None \<Longrightarrow> read_mem (m(a \<mapsto> v)) addr n \<noteq> None"
proof -
  have some: "those (map f xs) \<noteq> None \<longleftrightarrow> (\<forall>x \<in> set xs. f x \<noteq> None)" for f :: "nat \<Rightarrow> u8 option" and xs
    by (induction xs) (auto split: option.splits)
  show "read_mem m addr n \<noteq> None \<Longrightarrow> read_mem (m(a \<mapsto> v)) addr n \<noteq> None"
    unfolding read_mem_def some by auto
qed

lemma reaches_after:
  "reaches s t pid addr \<Longrightarrow> reaches (s\<lparr>os_mem := (os_mem s)(pid := (os_mem s pid)(a \<mapsto> v)), tr_bps := B\<rparr>) t pid addr"
  using read_mem_written by (fastforce simp: reaches_def)

text \<open>A software breakpoint that is set and removed leaves the memory of the process as it was.\<close>

lemma sw_breakpoint_restores:
  assumes "reaches s t pid (bp_addr bp)" "tr_bps s b = Some bp" "\<not> bp_sw bp" "\<not> bp_hw bp"
  shows "\<exists>s1 s2. enable_sw_breakpoint t b s = (Inr (), s1) \<and> os_mem s1 pid (bp_addr bp) = Some 0xcc \<and>
    (\<forall>p a. (p, a) \<noteq> (pid, bp_addr bp) \<longrightarrow> os_mem s1 p a = os_mem s p a) \<and>
    disable_sw_breakpoint t b s1 = (Inr (), s2) \<and> os_mem s2 = os_mem s"
proof -
  obtain v where v: "os_mem s pid (bp_addr bp) = Some v" and run: "enable_sw_breakpoint t b s =
    (Inr (), s\<lparr>os_mem := (os_mem s)(pid := (os_mem s pid)(bp_addr bp \<mapsto> 0xcc)), tr_bps := (tr_bps s)(b \<mapsto> trapped v bp)\<rparr>)"
    using enable_sw_run [OF assms] by blast
  let ?s = "s\<lparr>os_mem := (os_mem s)(pid := (os_mem s pid)(bp_addr bp \<mapsto> 0xcc)), tr_bps := (tr_bps s)(b \<mapsto> trapped v bp)\<rparr>"
  have "reaches ?s t pid (bp_addr (trapped v bp))" using reaches_after [OF assms(1)] by simp
  from disable_sw_run [OF this, of b] assms(4)
  have "disable_sw_breakpoint t b ?s =
    (Inr (), ?s\<lparr>os_mem := (os_mem ?s)(pid := (os_mem ?s pid)(bp_addr bp \<mapsto> v)),
              tr_bps := (tr_bps ?s)(b \<mapsto> (trapped v bp)\<lparr>bp_sw := False, bp_enabled := False\<rparr>)\<rparr>)" by simp
  moreover have "(os_mem ?s)(pid := (os_mem ?s pid)(bp_addr bp \<mapsto> v)) = os_mem s" using v by (auto simp: fun_eq_iff)
  ultimately show ?thesis using run by auto
qed

subsection \<open>Hardware breakpoints\<close>

text \<open>A thread that is stopped with its debug registers known, and slot \<open>i\<close> free.\<close>

definition slot_free :: "tracer \<Rightarrow> nat \<Rightarrow> nat \<Rightarrow> bool" where
  "slot_free s i t \<longleftrightarrow> (\<exists>tk. tr_tasks s t = Some tk \<and> os_ptrace s (tk_pid tk) = None \<and> dr_cached s tk \<and>
     length (tk_hw_bp tk) = HW_BREAKPOINTS \<and> tk_hw_bp tk ! i = None)"

text \<open>A thread in which breakpoint \<open>b\<close> holds slot \<open>i\<close> and traps at \<open>addr\<close>.\<close>

definition slot_armed :: "tracer \<Rightarrow> nat \<Rightarrow> nat \<Rightarrow> ulong \<Rightarrow> nat \<Rightarrow> bool" where
  "slot_armed s b i addr t \<longleftrightarrow> (\<exists>tk. tr_tasks s t = Some tk \<and> tk_hw_bp tk ! i = Some b \<and> dr_cached s tk \<and>
     armed s (tk_pid tk) i (hw_address tk addr))"

definition only_thread :: "tracer \<Rightarrow> tracer \<Rightarrow> nat \<Rightarrow> u32 \<Rightarrow> bool" where
  "only_thread s s' t pid \<longleftrightarrow> (\<forall>u. u \<noteq> t \<longrightarrow> tr_tasks s' u = tr_tasks s u) \<and> pid_of s' = pid_of s \<and>
     map_option tk_task_list (tr_tasks s' t) = map_option tk_task_list (tr_tasks s t) \<and>
     (\<forall>p. p \<noteq> pid \<longrightarrow> os_dr s' p = os_dr s p) \<and> os_stop s' = os_stop s \<and> tr_bps s' = tr_bps s"

lemma enable_hw_bp_run:
  assumes "slot_free s i t" "tr_tasks s t = Some tk" "tr_bps s b = Some bp" "wants_slot (bp_type bp)" "\<not> bp_sw bp" "bp_slot bp = i" "i < HW_BREAKPOINTS"
  shows "\<exists>s'. enable_hw_bp t b s = (Inr (), s') \<and> slot_armed s' b i (bp_addr bp) t \<and> only_thread s s' t (tk_pid tk)"
proof -
  let ?tk = "tk\<lparr>tk_hw_bp := (tk_hw_bp tk)[i := Some b]\<rparr>"
  let ?s = "s\<lparr>tr_tasks := (tr_tasks s)(t \<mapsto> ?tk)\<rparr>"
  have f: "os_ptrace s (tk_pid tk) = None" "dr_cached s tk" "length (tk_hw_bp tk) = HW_BREAKPOINTS" "tk_hw_bp tk ! i = None"
    using assms(1,2) by (auto simp: slot_free_def)
  have pre: "tr_tasks ?s t = Some ?tk" "os_ptrace ?s (tk_pid ?tk) = None" "dr_cached ?s ?tk"
    using f by (simp_all add: dr_cached_def)
  note run = set_hw_bp_run [OF pre assms(7), of "bp_addr bp"]
  let ?s' = "snd (set_hw_bp t i (bp_addr bp) ?s)"
  have ty: "bp_type bp \<noteq> BP_SW" using assms(4) by auto
  have e: "enable_hw_bp t b s = (Inr (), ?s')"
    using assms f ty run
    by (simp add: enable_hw_bp_def bindS_def seqS_def getT_def getB_def updT_def assertS_def retS_def Let_def in_slot_def fatalS_def)
  have "only_thread s ?s' t (tk_pid tk)"
    using assms(2) by (simp add: run only_thread_def pid_of_def fun_eq_iff with_slot_def)
  moreover have "slot_armed ?s' b i (bp_addr bp) t"
  proof -
    from set_hw_bp_arms [OF pre assms(7), of "bp_addr bp"] obtain tk' where
      "tr_tasks ?s' t = Some tk'" "dr_cached ?s' tk'" "armed ?s' (tk_pid ?tk) i (hw_address ?tk (bp_addr bp))" by auto
    moreover have "tk' = with_slot ?tk i (bp_addr bp)" using calculation(1) by (simp add: run)
    ultimately show ?thesis using f(3) assms(7) by (auto simp: slot_armed_def with_slot_def hw_address_def)
  qed
  ultimately show ?thesis using e by blast
qed

lemma slot_free_other: "only_thread s s' t pid \<Longrightarrow> u \<noteq> t \<Longrightarrow> pid_of s u \<noteq> Some pid \<Longrightarrow> slot_free s' i u \<longleftrightarrow> slot_free s i u"
  by (auto simp: only_thread_def slot_free_def dr_cached_def pid_of_def)

lemma slot_armed_other:
  "only_thread s s' t pid \<Longrightarrow> u \<noteq> t \<Longrightarrow> pid_of s u \<noteq> Some pid \<Longrightarrow> slot_armed s' b i addr u \<longleftrightarrow> slot_armed s b i addr u"
  by (auto simp: only_thread_def slot_armed_def dr_cached_def armed_def pid_of_def)

lemma arm_loop:
  assumes "distinct (map (pid_of s) ts)" "\<forall>t \<in> set ts. slot_free s i t" "tr_bps s b = Some bp" "wants_slot (bp_type bp)"
    "\<not> bp_sw bp" "bp_slot bp = i" "i < HW_BREAKPOINTS"
  shows "\<exists>s'. each_loop ts (\<lambda>t. enable_hw_bp t b) s = (Inr (), s') \<and> (\<forall>t \<in> set ts. slot_armed s' b i (bp_addr bp) t) \<and>
    (\<forall>u. pid_of s u \<notin> pid_of s ` set ts \<longrightarrow> slot_armed s b i (bp_addr bp) u \<longrightarrow> slot_armed s' b i (bp_addr bp) u)"
  using assms(1-3)
proof (induction ts arbitrary: s)
  case (Cons t ts)
  then obtain tk where tk: "tr_tasks s t = Some tk" by (auto simp: slot_free_def)
  have p: "pid_of s t = Some (tk_pid tk)" using tk by (simp add: pid_of_def)
  have "slot_free s i t" using Cons.prems(2) by simp
  from enable_hw_bp_run [OF this tk Cons.prems(3) assms(4-7)] obtain s1 where
    s1: "enable_hw_bp t b s = (Inr (), s1)" "slot_armed s1 b i (bp_addr bp) t" "only_thread s s1 t (tk_pid tk)" by blast
  have po: "pid_of s1 = pid_of s" "tr_bps s1 = tr_bps s" using s1(3) by (simp_all add: only_thread_def)
  have other: "u \<noteq> t \<and> pid_of s u \<noteq> Some (tk_pid tk)" if "u \<in> set ts" for u
    using that Cons.prems(1) p by force
  have 1: "\<forall>u \<in> set ts. slot_free s1 i u" using Cons.prems(2) other slot_free_other [OF s1(3)] by simp
  have 2: "distinct (map (pid_of s1) ts)" "tr_bps s1 b = Some bp" using Cons.prems(1,3) po by simp_all
  from Cons.IH [OF 2(1) 1 2(2)] obtain s' where
    s': "each_loop ts (\<lambda>t. enable_hw_bp t b) s1 = (Inr (), s')" "\<forall>t \<in> set ts. slot_armed s' b i (bp_addr bp) t"
      "\<forall>u. pid_of s u \<notin> pid_of s ` set ts \<longrightarrow> slot_armed s1 b i (bp_addr bp) u \<longrightarrow> slot_armed s' b i (bp_addr bp) u"
    unfolding po by blast
  have "pid_of s t \<notin> pid_of s ` set ts" using Cons.prems(1) by simp
  then have "slot_armed s' b i (bp_addr bp) t" using s'(3) s1(2) by blast
  moreover have "slot_armed s' b i (bp_addr bp) u"
    if "pid_of s u \<notin> pid_of s ` set (t # ts)" "slot_armed s b i (bp_addr bp) u" for u
  proof -
    have "u \<noteq> t" "pid_of s u \<noteq> Some (tk_pid tk)" using that(1) p by auto
    from slot_armed_other [OF s1(3) this] that show ?thesis using s'(3) by auto
  qed
  ultimately show ?case using s1(1) s' by (auto simp: seqS_def bindS_def)
qed (simp add: retS_def)

text \<open>The breakpoint that takes a slot is armed in every thread of the process.\<close>

lemma use_slot_arms:
  assumes l: "tr_tasks s l = Some lk" and d: "distinct (map (pid_of s) (tk_task_list lk @ [l]))"
    and f: "\<forall>t \<in> set (tk_task_list lk @ [l]). slot_free s i t" and b: "tr_bps s b = Some bp" "wants_slot (bp_type bp)" "\<not> bp_sw bp"
    and i: "i < HW_BREAKPOINTS"
  shows "\<exists>s'. use_slot l b i s = (Inr (), s') \<and> (\<forall>t \<in> set (tk_task_list lk @ [l]). slot_armed s' b i (bp_addr bp) t)"
proof -
  let ?bp = "bp\<lparr>bp_enabled := True, bp_union := of_nat i, bp_hw := True, bp_was_hw := True\<rparr>"
  let ?s = "s\<lparr>tr_bps := (tr_bps s)(b \<mapsto> ?bp)\<rparr>"
  have "i < 2 ^ 32" using i by (simp add: HW_BREAKPOINTS_def)
  then have slot: "bp_slot ?bp = i" by (simp add: unat_of_nat take_bit_nat_eq_self)
  have same: "pid_of ?s = pid_of s" "slot_free ?s i t \<longleftrightarrow> slot_free s i t" for t
    by (auto simp: pid_of_def slot_free_def dr_cached_def fun_eq_iff)
  have pre: "distinct (map (pid_of ?s) (tk_task_list lk @ [l]))" "\<forall>t \<in> set (tk_task_list lk @ [l]). slot_free ?s i t"
    "tr_bps ?s b = Some ?bp" "wants_slot (bp_type ?bp)" "\<not> bp_sw ?bp" using d f b unfolding same by simp_all
  from arm_loop [OF pre slot i] obtain s' where
    "each_loop (tk_task_list lk @ [l]) (\<lambda>t. enable_hw_bp t b) ?s = (Inr (), s')"
    "\<forall>t \<in> set (tk_task_list lk @ [l]). slot_armed s' b i (bp_addr bp) t" by auto
  then show ?thesis using l b(1)
    by (simp add: use_slot_def seqS_def bindS_def updB_def each_task_def getT_def)
qed

end
