(* ===== verification/Step_Over.thy ===== *)
theory Step_Over
  imports Breakpoint_Facts Tasks
begin

text \<open>
  The step over a software breakpoint (\<open>skip_breakpoint\<close>): with every thread of the process stopped the original byte is put
  back, the thread does one instruction, the trap is set again and the thread goes on.
\<close>

lemma stop_threads_noop:
  assumes "tr_tasks s t = Some tk" "tr_tasks s (tk_leader tk) = Some lk" "tk_threads lk = tk_threads_stopped lk"
  shows "stop_threads env t s = (Inr (), s)"
  using assms by (simp add: stop_threads_def bindS_def getT_def Let_def retS_def)

lemma breakpoint_disable_sw:
  assumes "reaches s t pid (bp_addr bp)" "tr_bps s b = Some bp" "bp_sw bp" "bp_enabled bp" "\<not> bp_hw bp" "\<not> bp_deleted bp"
    "tr_tasks s t = Some tk" "stop_threads env t s = (Inr (), s)"
  shows "breakpoint_disable env t b s =
    (Inr (), s\<lparr>os_mem := (os_mem s)(pid := (os_mem s pid)(bp_addr bp \<mapsto> bp_orig_value bp)),
              tr_bps := (tr_bps s)(b \<mapsto> bp\<lparr>bp_sw := False, bp_enabled := False\<rparr>)\<rparr>)"
  using assms disable_sw_run [OF assms(1,2,3,5)]
  by (simp add: breakpoint_disable_def bindS_def seqS_def getB_def getT_def)

lemma breakpoint_enable_sw:
  assumes "reaches s t pid (bp_addr bp)" "tr_bps s b = Some bp" "\<not> bp_sw bp" "\<not> bp_enabled bp" "\<not> bp_hw bp" "\<not> bp_deleted bp"
    "bp_type bp = BP_SW" "stop_threads env t s = (Inr (), s)"
  shows "\<exists>v. os_mem s pid (bp_addr bp) = Some v \<and> breakpoint_enable env t b s =
      (Inr (), s\<lparr>os_mem := (os_mem s)(pid := (os_mem s pid)(bp_addr bp \<mapsto> 0xcc)), tr_bps := (tr_bps s)(b \<mapsto> trapped v bp)\<rparr>)"
proof -
  have same: "s\<lparr>tr_bps := (tr_bps s)(b \<mapsto> bp\<lparr>bp_hw := False\<rparr>)\<rparr> = s" using assms(2,5) by (auto intro!: tracer.equality simp: fun_upd_idem_iff)
  from enable_sw_run [OF assms(1,2,3,5)] obtain v where v: "os_mem s pid (bp_addr bp) = Some v"
    "enable_sw_breakpoint t b s =
      (Inr (), s\<lparr>os_mem := (os_mem s)(pid := (os_mem s pid)(bp_addr bp \<mapsto> 0xcc)), tr_bps := (tr_bps s)(b \<mapsto> trapped v bp)\<rparr>)" by blast
  have "breakpoint_enable env t b s = enable_sw_breakpoint t b s"
    using assms(2,4,6-8) same by (simp add: breakpoint_enable_def bindS_def seqS_def getB_def updB_def retS_def)
  then show ?thesis using v by auto
qed

text \<open>A single step of a stopped thread that ends with the trap.\<close>

definition stepped :: "wait_item \<Rightarrow> nat \<Rightarrow> nat \<Rightarrow> task \<Rightarrow> tracer \<Rightarrow> tracer" where
  "stepped w t b tk s =
     os_report w (s\<lparr>os_log := os_log s @ [SingleStep (tk_pid tk)],
       os_waits := takeWhile (\<lambda>w. wi_pid w \<noteq> tk_pid tk) (os_waits s) @ tl (dropWhile (\<lambda>w. wi_pid w \<noteq> tk_pid tk) (os_waits s)),
       tr_tasks := (tr_tasks s)(t \<mapsto> tk\<lparr>tk_stopped := True, tk_ev_num := SIGTRAP, tk_event := EVENT_BREAKPOINT, tk_ev_bp := Some b\<rparr>)\<rparr>)"

lemma do_singlestep_run:
  assumes tk: "tr_tasks s t = Some tk" "tk_stopped tk" "tk_skip_bp tk = None" "\<not> tk_is_new tk" "os_ptrace s (tk_pid tk) = None"
    and bp: "tr_bps s b = Some bp" "\<not> bp_enabled bp" "\<not> bp_break_insn bp"
    and w: "List.find (\<lambda>w. wi_pid w = tk_pid tk) (os_waits s) = Some w" "wi_status w = WStopped SIGTRAP 0"
  shows "do_singlestep env t b s = (Inr 0, stepped w t b tk s)"
proof -
  have p: "wi_pid w = tk_pid tk" using w(1) by (auto simp: find_Some_iff)
  show ?thesis
    using assms p
    by (simp add: do_singlestep_def handle_singlestep_def ptrace_singlestep_def ptrace_request_def ptraceS_def process_event_status_def
        stopped_event_def signal_event_def sig_sender_def set_event_def wait_task_def os_run_def os_do_def os_report_def stepped_def
        bindS_def seqS_def getT_def getB_def getS_def updT_def modS_def retS_def assertS_def whenS_def Let_def SIGTRAP_def SIGSTOP_def)
qed

text \<open>
  The memory the thread runs its one instruction on holds the original byte, and the trap is back behind it; the other
  threads of the process are stopped all the time.
\<close>

lemma skip_breakpoint_run:
  assumes tk: "tr_tasks s t = Some tk" "tk_stopped tk" "tk_skip_bp tk = None" "\<not> tk_is_new tk" "os_ptrace s (tk_pid tk) = None"
      "tk_event tk = EVENT_BREAKPOINT"
    and lk: "tr_tasks s (tk_leader tk) = Some lk" "tk_pid lk = pid" "tk_threads lk = tk_threads_stopped lk"
    and bp: "tr_bps s b = Some bp" "bp_sw bp" "bp_enabled bp" "\<not> bp_hw bp" "\<not> bp_deleted bp" "\<not> bp_break_insn bp" "bp_type bp = BP_SW"
    and w: "List.find (\<lambda>w. wi_pid w = tk_pid tk) (os_waits s) = Some w" "wi_status w = WStopped SIGTRAP 0" "wi_tgid w = pid" "wi_ptrace w = None"
    and mem: "read_mem (os_mem s pid) (bp_addr bp) 8 \<noteq> None"
      "read_mem (wi_mem w ((os_mem s pid)(bp_addr bp \<mapsto> bp_orig_value bp))) (bp_addr bp) 8 \<noteq> None"
  shows "\<exists>s' tk'. skip_breakpoint env t b s = (Inr 0, s') \<and>
    os_mem s' = (os_mem s)(pid := (wi_mem w ((os_mem s pid)(bp_addr bp \<mapsto> bp_orig_value bp)))(bp_addr bp \<mapsto> 0xcc)) \<and>
    os_log s' = os_log s @ [SingleStep (tk_pid tk), Cont (tk_pid tk) 0] \<and>
    tr_tasks s' t = Some tk' \<and> \<not> tk_stopped tk' \<and> tk_event tk' = EVENT_NONE"
proof -
  let ?bp = "bp\<lparr>bp_sw := False, bp_enabled := False\<rparr>" and ?a = "bp_addr bp"
  let ?s1 = "s\<lparr>os_mem := (os_mem s)(pid := (os_mem s pid)(?a \<mapsto> bp_orig_value bp)), tr_bps := (tr_bps s)(b \<mapsto> ?bp)\<rparr>"
  have p: "wi_pid w = tk_pid tk" using w(1) by (auto simp: find_Some_iff)
  have r: "reaches s t pid ?a" using tk lk mem(1) by (auto simp: reaches_def)
  have 1: "breakpoint_disable env t b s = (Inr (), ?s1)"
    by (rule breakpoint_disable_sw [OF r bp(1-5) tk(1) stop_threads_noop [OF tk(1) lk(1,3)]])
  let ?tk = "tk\<lparr>tk_stopped := True, tk_ev_num := SIGTRAP, tk_event := EVENT_BREAKPOINT, tk_ev_bp := Some b\<rparr>"
  let ?s2 = "stepped w t b tk ?s1"
  have 2: "do_singlestep env t b ?s1 = (Inr 0, ?s2)"
    by (rule do_singlestep_run [where bp = ?bp]) (use tk bp w in simp_all)
  have s2: "tr_tasks ?s2 = (tr_tasks s)(t \<mapsto> ?tk)" "tr_bps ?s2 = (tr_bps s)(b \<mapsto> ?bp)" "os_stop ?s2 (tk_pid tk) = w"
    "os_mem ?s2 = (os_mem s)(pid := wi_mem w ((os_mem s pid)(?a \<mapsto> bp_orig_value bp)))" "os_log ?s2 = os_log s @ [SingleStep (tk_pid tk)]"
    using w(3) p by (simp_all add: stepped_def os_report_def)
  obtain lk2 where lk2: "tr_tasks ?s2 (tk_leader ?tk) = Some lk2" "tk_pid lk2 = pid" "tk_threads lk2 = tk_threads_stopped lk2"
    using lk tk(1) s2(1) by (cases "tk_leader tk = t") auto
  have "reaches ?s2 t pid (bp_addr ?bp)" using s2 lk2 mem(2) w(4) by (auto simp: reaches_def)
  from breakpoint_enable_sw [OF this, of b env] s2(1,2) lk2 bp stop_threads_noop [of ?s2 t ?tk lk2 env] obtain v where
    3: "breakpoint_enable env t b ?s2 = (Inr (), ?s2\<lparr>os_mem := (os_mem ?s2)(pid := (os_mem ?s2 pid)(?a \<mapsto> 0xcc)),
       tr_bps := (tr_bps ?s2)(b \<mapsto> trapped v ?bp)\<rparr>)" by auto
  let ?s3 = "?s2\<lparr>os_mem := (os_mem ?s2)(pid := (os_mem ?s2 pid)(?a \<mapsto> 0xcc)), tr_bps := (tr_bps ?s2)(b \<mapsto> trapped v ?bp)\<rparr>"
  have skip: "skip_breakpoint env t b s = bindS (continue_task t 0) (\<lambda>_. retS 0) ?s3"
    using tk bp 1 2 3 by (simp add: skip_breakpoint_def bindS_def [of "getT t"] bindS_def [of "getB b"] getT_def getB_def
        seqS_def assertS_def bindS_def [of "retS _"] retS_def bindS_def [of "breakpoint_disable _ _ _"] bindS_def [of "do_singlestep _ _ _"]
        bindS_def [of "breakpoint_enable _ _ _"] bindS_def [of "bindS _ _"])
  have t3: "tr_tasks ?s3 t = Some ?tk" "tr_tasks ?s3 (tk_leader ?tk) = Some lk2" using s2(1) lk2(1) by simp_all
  let ?lk = "lk2\<lparr>tk_threads_stopped := tk_threads_stopped lk2 + -1\<rparr>"
  obtain tk3 where t4: "((tr_tasks ?s3)(tk_leader ?tk \<mapsto> ?lk)) t = Some tk3" using t3(1) by (cases "t = tk_leader tk") auto
  let ?tk3 = "tk3\<lparr>tk_stopped := False, tk_event := EVENT_NONE\<rparr>"
  have run: "continue_task t 0 ?s3 = (Inr True, (snd (os_run (tk_pid tk)
     (?s3\<lparr>tr_tasks := (tr_tasks ?s3)(tk_leader ?tk \<mapsto> ?lk, t \<mapsto> ?tk3), os_log := os_log ?s3 @ [Cont (tk_pid tk) 0]\<rparr>))))"
    using t3 t4 s2(3) w(4)
    by (simp add: continue_task_def bindS_def seqS_def getT_def assertS_def retS_def add_stopped_run [OF t3] updT_def
        ptraceS_def getS_def os_do_def modS_def os_run_def)
  show ?thesis unfolding skip
    by (rule exI [of _ "snd (continue_task t 0 ?s3)"], rule exI [of _ ?tk3])
      (use run s2 in \<open>simp add: bindS_def retS_def os_run_def modS_def\<close>)
qed

end
