(* ===== verification/Tracer_Faults.thy ===== *)
theory Tracer_Faults
  imports Server Trace_Stop
begin

text \<open>Two ways the tracer ends up in a state its own assertions exclude.\<close>

subsection \<open>A process about to end\<close>

lemma op_code_inject: "op_code a = op_code b \<longleftrightarrow> a = b"
  by (metis op_of_code_code option.inject)

lemma about_exit_asserts:
  assumes tk: "tr_tasks s t = Some tk" "tk_leader tk = t" "tk_stopped tk" "tk_about_exit tk"
  shows "\<exists>s1 s2. process_command env scan t (op_code MT_ABOUT_EXIT) pid [] s = (Inr (), s1) \<and>
    fix_about_exit t s1 = (Inl (Fault AssertionFailed), s2)"
proof -
  let ?tk = "tk\<lparr>tk_threads_stopped := tk_threads_stopped tk + -1, tk_stopped := False, tk_event := EVENT_NONE\<rparr>"
  have "\<exists>r s1. continue_task t 0 s = (Inr r, s1) \<and> tr_tasks s1 t = Some ?tk"
    using tk by (auto simp: continue_task_def bindS_def seqS_def getT_def assertS_def retS_def add_stopped_def updT_def
        ptraceS_def getS_def os_do_def modS_def os_run_def split: option.split)
  then obtain r s1 where s1: "continue_task t 0 s = (Inr r, s1)" "tr_tasks s1 t = Some ?tk" by blast
  have "process_command env scan t (op_code MT_ABOUT_EXIT) pid [] s = (Inr (), s1)"
    using tk s1(1) by (simp add: process_command_def bindS_def getT_def retS_def op_code_inject)
  moreover have "\<exists>s2. fix_about_exit t s1 = (Inl (Fault AssertionFailed), s2)"
    using s1(2) tk(4) by (simp add: fix_about_exit_def continue_task_def bindS_def seqS_def getT_def updT_def assertS_def failS_def)
  ultimately show ?thesis by blast
qed

subsection \<open>A process that cannot be attached\<close>

lemma all_bps_empty:
  assumes "tr_tasks s l = Some tk" "tk_breakpoints tk = Some (dict_init n h c)"
  shows "all_bps l cb s = (Inr (), s)"
proof -
  have "apply_buckets f (replicate k []) x = (0, x)" for f :: "ulong \<Rightarrow> nat \<Rightarrow> derr option \<times> tracer \<Rightarrow> int \<times> derr option \<times> tracer" and k x
    by (induction k) auto
  then show ?thesis using assms
    by (simp add: all_bps_def bindS_def getT_def each_bp_def dict_apply_to_all_def dict_init_def retS_def)
qed

text \<open>A new process whose thread is not attached yet.\<close>

definition fresh_leader :: "trace_env \<Rightarrow> nat \<Rightarrow> u32 \<Rightarrow> task" where
  "fresh_leader env t pid =
     (new_task t pid)\<lparr>tk_debug_state := 1, tk_threads := 1, tk_breakpoints := Some (dict_init 12401 target_address_hash target_address_cmp)\<rparr>"

lemma task_new_leader:
  assumes "te_tgid env pid = pid" "pid \<noteq> 0" "os_ptrace s pid = Some ESRCH" "hash_ok s" "pid_map s pid = None" "tr_tasks s (tr_next s) = None"
  shows "\<exists>h. task_new env pid s = (Inr (Some (tr_next s)), s\<lparr>tr_next := Suc (tr_next s),
      tr_tasks := (tr_tasks s)(tr_next s \<mapsto> fresh_leader env (tr_next s) pid), tr_leaders := tr_leaders s @ [tr_next s], tr_pid_hash := h\<rparr>) \<and>
    hash_ok (s\<lparr>tr_next := Suc (tr_next s), tr_tasks := (tr_tasks s)(tr_next s \<mapsto> fresh_leader env (tr_next s) pid),
      tr_leaders := tr_leaders s @ [tr_next s], tr_pid_hash := h\<rparr>) \<and>
    pid_map (s\<lparr>tr_next := Suc (tr_next s), tr_tasks := (tr_tasks s)(tr_next s \<mapsto> fresh_leader env (tr_next s) pid),
      tr_leaders := tr_leaders s @ [tr_next s], tr_pid_hash := h\<rparr>) pid = Some (tr_next s)"
proof -
  let ?t = "tr_next s"
  let ?s = "s\<lparr>tr_next := Suc ?t, tr_tasks := (tr_tasks s)(?t \<mapsto> new_task ?t pid)\<rparr>"
  let ?s1 = "s\<lparr>tr_next := Suc ?t, tr_tasks := (tr_tasks s)(?t \<mapsto> fresh_leader env ?t pid), tr_leaders := tr_leaders s @ [?t]\<rparr>"
  have init: "task_init env ?t ?s = (Inr True, ?s1)"
    using assms(1-3)
    by (cases "opt_nohwbp env") (simp_all add: task_init_def new_task_def fresh_leader_def arch_task_init_def apply_hw_bp_raw_def poke_dr_def
        os_task_init_def task_link_def breakpoint_setup_def breakpoint_hw_destroy_def reset_all_hw_bp_def apply_hw_bp_def ptraceS_def
        bindS_def seqS_def getT_def getS_def updT_def modS_def retS_def assertS_def whenS_def Let_def HW_BREAKPOINTS_def)
  have p: "\<And>u. pid_of s u \<noteq> None \<Longrightarrow> pid_of ?s1 u = pid_of s u" using assms(6) by (auto simp: pid_of_def)
  have h: "hash_ok ?s1" "pid_map ?s1 = pid_map s" using hash_grow [OF assms(4) _ p] by simp_all
  have t: "tr_tasks ?s1 ?t = Some (fresh_leader env ?t pid)" "pid_map ?s1 (tk_pid (fresh_leader env ?t pid)) = None"
    using assms(5) h(2) by (simp_all add: fresh_leader_def new_task_def)
  from insert_pid_run [OF h(1) t] obtain b where b: "insert_pid ?t ?s1 = (Inr (), ?s1\<lparr>tr_pid_hash := b\<rparr>)"
    "hash_ok (?s1\<lparr>tr_pid_hash := b\<rparr>)" "pid_map (?s1\<lparr>tr_pid_hash := b\<rparr>) = (pid_map ?s1)(pid \<mapsto> ?t)"
    by (auto simp: fresh_leader_def new_task_def)
  have "task_new env pid s = (Inr (Some ?t), ?s1\<lparr>tr_pid_hash := b\<rparr>)"
    using init b(1) by (simp add: task_new_def bindS_def seqS_def getS_def modS_def retS_def)
  then show ?thesis using b(2,3) by (intro exI [of _ b]) simp
qed

text \<open>The process is freed, yet it stays in the list of processes.\<close>

lemma failed_attach_dangles:
  assumes "te_tgid env pid = pid" "pid \<noteq> 0" "os_ptrace s pid = Some ESRCH" "hash_ok s" "pid_map s pid = None" "tr_tasks s (tr_next s) = None"
    and denied: "\<not> allowed pid"
  shows "\<exists>s'. open_one_pid env allowed pid s = (Inr None, s') \<and> tr_tasks s' (tr_next s) = None \<and>
    tr_leaders s' = tr_leaders s @ [tr_next s]"
proof -
  let ?t = "tr_next s" and ?tk = "fresh_leader env (tr_next s) pid"
  from task_new_leader [OF assms(1-6)] obtain b where
    ex: "task_new env pid s = (Inr (Some ?t), s\<lparr>tr_next := Suc ?t, tr_tasks := (tr_tasks s)(?t \<mapsto> ?tk),
          tr_leaders := tr_leaders s @ [?t], tr_pid_hash := b\<rparr>)"
      "hash_ok (s\<lparr>tr_next := Suc ?t, tr_tasks := (tr_tasks s)(?t \<mapsto> ?tk), tr_leaders := tr_leaders s @ [?t], tr_pid_hash := b\<rparr>)"
      "pid_map (s\<lparr>tr_next := Suc ?t, tr_tasks := (tr_tasks s)(?t \<mapsto> ?tk), tr_leaders := tr_leaders s @ [?t], tr_pid_hash := b\<rparr>) pid = Some ?t"
    by blast
  let ?s = "s\<lparr>tr_next := Suc ?t, tr_tasks := (tr_tasks s)(?t \<mapsto> ?tk), tr_leaders := tr_leaders s @ [?t], tr_pid_hash := b\<rparr>"
  note new = ex(1) and h = ex(2,3)
  have tk: "tr_tasks ?s ?t = Some ?tk" "tk_pid ?tk = pid" "tk_attached ?tk = False" "tk_dr7 ?tk = 0"
    by (simp_all add: fresh_leader_def new_task_def)
  from delete_pid_run [OF h(1) tk(1)] h(2) tk(2) obtain b2 where del: "delete_pid ?t ?s = (Inr (), ?s\<lparr>tr_pid_hash := b2\<rparr>)" by auto
  let ?s2 = "?s\<lparr>tr_pid_hash := b2\<rparr>"
  have all: "all_bps ?t cb ?s2 = (Inr (), ?s2)" for cb by (rule all_bps_empty [of _ _ ?tk]) (simp_all add: fresh_leader_def)
  have clear: "breakpoint_clear_all env ?t ?s2 = (Inr (), ?s2\<lparr>tr_tasks := (tr_tasks ?s2)(?t \<mapsto> ?tk\<lparr>tk_breakpoints := None\<rparr>)\<rparr>)"
    using all by (simp add: breakpoint_clear_all_def bindS_def seqS_def getT_def updT_def assertS_def retS_def fresh_leader_def new_task_def)
  have "delete_task env ?t ?s = (Inr (), ?s2\<lparr>tr_tasks := (tr_tasks ?s2)(?t := None)\<rparr>)"
    using tk(1,4) del clear
    by (simp add: delete_task_def arch_task_destroy_def apply_hw_bp_def bindS_def seqS_def getT_def retS_def free_task_def modS_def)
  then show ?thesis using new tk denied
    by (simp add: open_one_pid_def trace_attach_def bindS_def seqS_def getT_def retS_def assertS_def os_do_def modS_def)
qed

end
