(* ===== verification/Tracer_Properties.thy ===== *)
theory Tracer_Properties
  imports Trace_Reach Step_Over Tracer_Faults
begin

text \<open>
  What the tracer guarantees of the processes it traces: their threads are counted and can all be stopped, breakpoints are
  set in every thread and leave no trace in the program, tasks are found by their process id and processes end as a whole; and where
  it fails.
\<close>

subsection \<open>A process to look at\<close>

text \<open>Process 100 at a breakpoint, alone or with a second thread 101 that runs; memory is full of no-ops.\<close>

definition ex_tenv :: trace_env where
  "ex_tenv = \<lparr>opt_nohwbp = False, opt_verbose = 0, opt_follow = True, opt_follow_exec = False, opt_logfile = False,
     te_mtrace_pid = 1, te_tgid = (\<lambda>p. if p = 101 then 100 else p), te_junk = False, te_locs = [],
     te_report = \<lparr>rp_mem = \<lparr>local_mem = Map.empty, traced_proc = \<lparr>t_mem = Map.empty, t_stopped = True, t_readv = (\<lambda>_ _. Inl ENOSYS)\<rparr>\<rparr>,
       rp_libs = library_setup, rp_connected = True, opt_bt_depth = 1, opt_sanity = False, opt_nocpp = False,
       rp_verbose = 0, rp_follow = True, rp_follow_exec = False, rp_timers = [], rp_junk = 0\<rparr>,
     te_local = Map.empty, te_elf_read_main_binary = (\<lambda>_ _. retS False), te_on_hit = (\<lambda>_ _ _. retS False)\<rparr>"

definition ex_item :: "u32 \<Rightarrow> wstatus \<Rightarrow> errno option \<Rightarrow> wait_item" where
  "ex_item pid status p = \<lparr>wi_pid = pid, wi_tgid = 100, wi_status = status, wi_msg = 0, wi_sender = None, wi_regs = None,
     wi_dr6 = 0, wi_ptrace = p, wi_mem = id\<rparr>"

definition ex_leader :: "nat list \<Rightarrow> task" where
  "ex_leader ts = (new_task 0 100)\<lparr>tk_event := EVENT_BREAKPOINT, tk_attached := True, tk_stopped := True, tk_is_new := False,
     tk_threads := of_nat (Suc (length ts)), tk_threads_stopped := 1, tk_task_list := ts\<rparr>"

definition ex_thread :: task where
  "ex_thread = (new_task 1 101)\<lparr>tk_leader := 0, tk_attached := True, tk_is_new := False\<rparr>"

definition ex_bp :: breakpoint where
  "ex_bp = (new_breakpoint ex_tenv 4096 None BP_SW 0)\<lparr>bp_enabled := True, bp_sw := True, bp_union := 0x90\<rparr>"

definition ex_bucket :: "nat \<Rightarrow> pid_entry option" where
  "ex_bucket t = Some \<lparr>pe_size = 8, pe_tasks = [t]\<rparr>"

definition ex_state :: "(nat \<Rightarrow> task option) \<Rightarrow> nat list \<Rightarrow> pid_entry option list \<Rightarrow> wait_item list \<Rightarrow> tracer" where
  "ex_state ts ls h ws = \<lparr>tr_tasks = ts, tr_bps = [2 \<mapsto> ex_bp], tr_next = 3, tr_leaders = ls, tr_pid_hash = h, tr_queue = [],
     tr_refs = \<lparr>refcnt = Map.empty, next_id = 0, munmaps = []\<rparr>, tr_wakeup = None, tr_connected = False, tr_sent = [], tr_bt_depth = 1,
     os_mem = (\<lambda>_ _. Some 0x90), os_dr = (\<lambda>_ _. 0), os_stop = (\<lambda>p. ex_item p WOther None), os_waits = ws, os_log = []\<rparr>"

definition ex_none :: "wait_item list \<Rightarrow> tracer" where
  "ex_none ws = ex_state Map.empty [] (replicate PID_HASH_SIZE None) ws"

definition ex_one :: tracer where
  "ex_one = ex_state [0 \<mapsto> ex_leader []] [0] ((replicate PID_HASH_SIZE None)[100 := ex_bucket 0]) [ex_item 100 (WStopped SIGTRAP 0) None]"

definition ex_two :: tracer where
  "ex_two = ex_state [0 \<mapsto> ex_leader [1], 1 \<mapsto> ex_thread] [0]
     ((replicate PID_HASH_SIZE None)[100 := ex_bucket 0, 101 := ex_bucket 1]) [ex_item 101 (WStopped SIGSTOP 0) None]"

lemmas ex_simps = ex_tenv_def ex_leader_def ex_thread_def ex_state_def ex_item_def new_task_def





subsection \<open>Threads\<close>









text \<open>C18. The table of process ids is a map: a task that is inserted under a free process id is found under it, all
  other lookups answer as before, and its deletion gives the map there was; none of this changes anything but the
  table.\<close>

theorem pid_table_is_map:
  assumes "hash_ok s" "tr_tasks s t = Some tk" "pid2task (tk_pid tk) s = (Inr None, s)"
  shows "\<exists>h h'. insert_pid t s = (Inr (), s\<lparr>tr_pid_hash := h\<rparr>) \<and>
    (\<forall>pid. pid2task pid (s\<lparr>tr_pid_hash := h\<rparr>) =
       (Inr (if pid = tk_pid tk then Some t else pid_map s pid), s\<lparr>tr_pid_hash := h\<rparr>)) \<and>
    delete_pid t (s\<lparr>tr_pid_hash := h\<rparr>) = (Inr (), s\<lparr>tr_pid_hash := h'\<rparr>) \<and>
    (\<forall>pid. pid2task pid (s\<lparr>tr_pid_hash := h'\<rparr>) = (Inr (pid_map s pid), s\<lparr>tr_pid_hash := h'\<rparr>))"
proof -
  have free: "pid_map s (tk_pid tk) = None" using assms(1,3) by (simp add: pid_hash.look_alpha)
  from pid_hash.ins_alpha [OF assms(1,2) free] obtain h where h: "insert_pid t s = (Inr (), s\<lparr>tr_pid_hash := h\<rparr>)"
    "hash_ok (s\<lparr>tr_pid_hash := h\<rparr>)" "pid_map (s\<lparr>tr_pid_hash := h\<rparr>) = (pid_map s)(tk_pid tk \<mapsto> t)" by blast
  from pid_hash.del_alpha [OF h(2), of t tk] assms(2) h(3) obtain h' where
    h': "delete_pid t (s\<lparr>tr_pid_hash := h\<rparr>) = (Inr (), s\<lparr>tr_pid_hash := h'\<rparr>)" "hash_ok (s\<lparr>tr_pid_hash := h'\<rparr>)"
      "pid_map (s\<lparr>tr_pid_hash := h'\<rparr>) = (pid_map s)(tk_pid tk \<mapsto> t, tk_pid tk := None)" by auto
  have "(pid_map s)(tk_pid tk \<mapsto> t, tk_pid tk := None) = pid_map s" using free by auto
  then show ?thesis using h h' pid_hash.look_alpha by (intro exI [of _ h] exI [of _ h']) simp
qed

theorem pid_table_is_map_witness:
  "\<exists>h. insert_pid 0 ((ex_none [])\<lparr>tr_tasks := [0 \<mapsto> ex_leader []]\<rparr>) = (Inr (), (ex_none [])\<lparr>tr_tasks := [0 \<mapsto> ex_leader []], tr_pid_hash := h\<rparr>) \<and>
    fst (pid2task 100 ((ex_none [])\<lparr>tr_tasks := [0 \<mapsto> ex_leader []], tr_pid_hash := h\<rparr>)) = Inr (Some 0)"
proof -
  let ?s = "(ex_none [])\<lparr>tr_tasks := [0 \<mapsto> ex_leader []]\<rparr>"
  have h: "hash_ok ?s" "pid_map ?s = Map.empty" by (simp_all add: hash_ok_def pid_map_def fun_eq_iff ex_none_def ex_state_def)
  have t: "tr_tasks ?s 0 = Some (ex_leader [])" "tk_pid (ex_leader []) = 100" by (simp_all add: ex_leader_def new_task_def)
  from pid_table_is_map [OF h(1) t(1)] pid2task_run [OF h(1)] h(2) t(2) show ?thesis by fastforce
qed

subsection \<open>Breakpoints\<close>


lemma read_mem_full: "read_mem (\<lambda>_. Some v) addr n = Some (replicate n v)"
proof -
  have "those (map (\<lambda>_. Some v) xs) = Some (replicate (length xs) v)" for xs :: "nat list" by (induction xs) auto
  then show ?thesis by (simp add: read_mem_def)
qed


text \<open>C17. A software breakpoint that is enabled and disabled again leaves the memory of every process as it was, and while it is
  enabled only the byte at its address is another, the trap instruction.\<close>

theorem sw_breakpoint_round_trip:
  assumes "reaches s t pid (bp_addr bp)" "tr_bps s b = Some bp" "\<not> bp_sw bp" "\<not> bp_hw bp"
  shows "\<exists>s1 s2. enable_sw_breakpoint t b s = (Inr (), s1) \<and> os_mem s1 pid (bp_addr bp) = Some 0xcc \<and>
    (\<forall>p a. (p, a) \<noteq> (pid, bp_addr bp) \<longrightarrow> os_mem s1 p a = os_mem s p a) \<and>
    disable_sw_breakpoint t b s1 = (Inr (), s2) \<and> os_mem s2 = os_mem s"
  by (rule sw_breakpoint_restores [OF assms])

theorem sw_breakpoint_round_trip_witness:
  "\<exists>s1 s2. enable_sw_breakpoint 0 2 (ex_one\<lparr>tr_bps := [2 \<mapsto> ex_bp\<lparr>bp_sw := False\<rparr>]\<rparr>) = (Inr (), s1) \<and> os_mem s1 100 4096 = Some 0xcc \<and>
    disable_sw_breakpoint 0 2 s1 = (Inr (), s2) \<and> os_mem s2 100 4096 = Some 0x90"
proof -
  let ?s = "ex_one\<lparr>tr_bps := [2 \<mapsto> ex_bp\<lparr>bp_sw := False\<rparr>]\<rparr>"
  have "reaches ?s 0 100 (bp_addr (ex_bp\<lparr>bp_sw := False\<rparr>))" by (simp add: reaches_def ex_one_def ex_simps read_mem_full)
  from sw_breakpoint_round_trip [OF this, of 2] show ?thesis
    by (simp add: ex_bp_def new_breakpoint_def) (auto simp: ex_one_def ex_state_def)
qed

text \<open>C16. A breakpoint that takes a hardware slot is armed in every thread of the process: the debug registers of each
  thread hold its address and enable the slot for execution, and the slot of the thread names it.\<close>

theorem hw_breakpoint_armed_everywhere:
  assumes "tr_tasks s l = Some lk" "distinct (map (pid_of s) (tk_task_list lk @ [l]))"
    and "\<forall>t \<in> set (tk_task_list lk @ [l]). slot_free s i t" "tr_bps s b = Some bp" "wants_slot (bp_type bp)" "\<not> bp_sw bp"
    and "i < HW_BREAKPOINTS"
  shows "\<exists>s'. use_slot l b i s = (Inr (), s') \<and> (\<forall>t \<in> set (tk_task_list lk @ [l]). slot_armed s' b i (bp_addr bp) t)"
  by (rule use_slot_arms [OF assms])

theorem hw_breakpoint_armed_everywhere_witness:
  "\<exists>s'. use_slot 0 2 1 (ex_two\<lparr>tr_bps := [2 \<mapsto> ex_bp\<lparr>bp_sw := False, bp_type := BP_HW\<rparr>]\<rparr>) = (Inr (), s') \<and>
    slot_armed s' 2 1 4096 0 \<and> slot_armed s' 2 1 4096 1"
proof -
  let ?bp = "ex_bp\<lparr>bp_sw := False, bp_type := BP_HW\<rparr>"
  let ?s = "ex_two\<lparr>tr_bps := [2 \<mapsto> ?bp]\<rparr>"
  have t: "tr_tasks ?s 0 = Some (ex_leader [1])" "tk_task_list (ex_leader [1]) = [1]" by (simp_all add: ex_two_def ex_simps)
  have d: "distinct (map (pid_of ?s) (tk_task_list (ex_leader [1]) @ [0]))" by (simp add: pid_of_def ex_two_def ex_simps)
  have f: "\<forall>t \<in> set (tk_task_list (ex_leader [1]) @ [0]). slot_free ?s 1 t"
    by (simp add: slot_free_def dr_cached_def ex_two_def ex_simps HW_BREAKPOINTS_def)
  have b: "tr_bps ?s 2 = Some ?bp" "wants_slot (bp_type ?bp)" "\<not> bp_sw ?bp" "1 < HW_BREAKPOINTS" "bp_addr ?bp = 4096"
    by (simp_all add: ex_bp_def new_breakpoint_def HW_BREAKPOINTS_def)
  from hw_breakpoint_armed_everywhere [OF t(1) d f b(1-4)] b(5) t(2) show ?thesis by auto
qed

subsection \<open>Where the tracer fails\<close>



text \<open>C40. A process that cannot be attached is freed, but stays in the list of processes: the list is not empty, so the
  tracer does not end, and the end of the connection to the client follows the dangling pointer.\<close>

theorem failed_attach_listed:
  assumes "te_tgid env pid = pid" "pid \<noteq> 0" "os_ptrace s pid = Some ESRCH" "hash_ok s" "pid_map s pid = None" "tr_tasks s (tr_next s) = None"
    and "\<not> allowed pid"
  shows "\<exists>s'. open_one_pid env allowed pid s = (Inr None, s') \<and> tr_tasks s' (tr_next s) = None \<and>
    task_list_empty s' = (Inr False, s') \<and> fst (each_process (stop_trace env) s') = Inl (Fault Segfault)"
proof -
  from failed_attach_dangles [where allowed = allowed, OF assms] obtain s' where s': "open_one_pid env allowed pid s = (Inr None, s')"
    "tr_tasks s' (tr_next s) = None" "tr_leaders s' = tr_leaders s @ [tr_next s]" by blast
  moreover have "fst (each_process (stop_trace env) s') = Inl (Fault Segfault)"
    using s'(2,3) by (simp add: each_process_def bindS_def getS_def seqS_def stop_trace_def breakpoint_disable_all_nonlocked_def all_bps_def getT_def)
  ultimately show ?thesis by (simp add: task_list_empty_def getS_def)
qed

theorem failed_attach_listed_witness:
  "\<exists>s'. open_one_pid ex_tenv (\<lambda>_. False) 100 ((ex_none [])\<lparr>os_stop := (\<lambda>p. ex_item p WOther (Some ESRCH))\<rparr>) = (Inr None, s') \<and>
    task_list_empty s' = (Inr False, s') \<and> fst (each_process (stop_trace ex_tenv) s') = Inl (Fault Segfault)"
proof -
  let ?s = "(ex_none [])\<lparr>os_stop := (\<lambda>p. ex_item p WOther (Some ESRCH))\<rparr>"
  have "te_tgid ex_tenv 100 = 100" "(100 :: u32) \<noteq> 0" "os_ptrace ?s 100 = Some ESRCH" "hash_ok ?s" "pid_map ?s 100 = None" "tr_tasks ?s (tr_next ?s) = None"
    by (simp_all add: ex_tenv_def ex_item_def hash_ok_def pid_map_def ex_none_def ex_state_def)
  from failed_attach_listed [of ex_tenv 100 ?s "\<lambda>_. False", OF this] show ?thesis by auto
qed

end
