(* ===== verification/Client_Config.thy ===== *)
theory Client_Config
  imports Client_Loop
begin

text \<open>
  The configuration file of the client (\<open>_parse_config\<close> of \<open>client/client.c\<close>). The text that is left is a string;
  \<open>regcomp\<close> is the check of a regular expression. The lemmas show that the pointer arithmetic of the parser
  is the reading of the file line by line.
\<close>

subsection \<open>The parser\<close>

abbreviation is_nl :: "char \<Rightarrow> bool" where
  "is_nl c \<equiv> c = CHR 0x0A \<or> c = CHR 0x0D"

abbreviation is_blank :: "char \<Rightarrow> bool" where
  "is_blank c \<equiv> c = CHR '' '' \<or> c = CHR 0x09"

fun skip_nl :: "string \<Rightarrow> nat" where
  "skip_nl [] = 0"
| "skip_nl (c # p) = (if \<not> is_nl c then 0 else Suc (skip_nl p))"

fun get_line :: "string \<Rightarrow> nat" where
  "get_line [] = 0"
| "get_line (c # p) = (if is_nl c then 0 else Suc (get_line p))"

fun skip_space :: "string \<Rightarrow> nat" where
  "skip_space [] = 0"
| "skip_space (c # p) = (if \<not> is_blank c then 0 else Suc (skip_space p))"

fun trim_space :: "string \<Rightarrow> nat \<Rightarrow> nat" where
  "trim_space p 0 = 0"
| "trim_space p (Suc c) = (if \<not> is_blank (p ! c) then Suc c else trim_space p c)"

text \<open>The keyword must be followed by a blank; the end of the keyword is the zero character.\<close>

fun cmp_loop :: "nat \<Rightarrow> string \<Rightarrow> string \<Rightarrow> nat" where
  "cmp_loop c [] str = 0"
| "cmp_loop c (x # p) [] = (if is_blank x then c else 0)"
| "cmp_loop c (x # p) (y # str) = (if x \<noteq> y then 0 else cmp_loop (Suc c) p str)"

definition cmp_n :: "string \<Rightarrow> string \<Rightarrow> nat \<Rightarrow> nat" where
  "cmp_n p str n = cmp_loop 0 (take n p) str"

datatype config_effect = AddIgnoreRegex string | InvalidRegex string | InvalidLine string

text \<open>What one line does; \<open>p\<close> starts at its first character that is not a blank, \<open>l\<close> is its length.\<close>

definition parse_line :: "(string \<Rightarrow> bool) \<Rightarrow> string \<Rightarrow> nat \<Rightarrow> config_effect list" where
  "parse_line regcomp p l =
     (if hd p \<noteq> CHR ''#'' then
        let c = cmp_n p ''ignore'' l in
        if c \<noteq> 0 then
          let c = c + skip_space (take (l - c) (drop c p)) in
          if c \<noteq> l then
            let regex = takeWhile (\<lambda>x. x \<noteq> CHR 0x00) (take (trim_space (drop c p) (l - c)) (drop c p))
            in [if regcomp regex then AddIgnoreRegex regex else InvalidRegex regex]
          else []
        else [InvalidLine (take l p)]
      else [])"

lemma skip_nl_drop: "drop (skip_nl p) p = dropWhile is_nl p"
  by (induction p) auto

lemma get_line_take: "take (get_line p) p = takeWhile (\<lambda>c. \<not> is_nl c) p" "drop (get_line p) p = dropWhile (\<lambda>c. \<not> is_nl c) p"
  "get_line p = length (takeWhile (\<lambda>c. \<not> is_nl c) p)"
  by (induction p) auto

lemma skip_space_drop: "drop (skip_space p) p = dropWhile is_blank p" "skip_space p = length (takeWhile is_blank p)"
  by (induction p) auto

lemma get_line_le: "get_line p \<le> length p"
  by (induction p) auto

lemma skip_space_le: "skip_space p \<le> length p"
  by (induction p) auto

function parse_config :: "(string \<Rightarrow> bool) \<Rightarrow> string \<Rightarrow> config_effect list" where
  "parse_config regcomp p =
     (let p = drop (skip_nl p) p in
      if p = [] then []
      else
        let l = get_line p; c = skip_space (take l p); p = drop c p; l = l - c in
        if p = [] then []
        else
          let es = parse_line regcomp p l; p = drop l p in
          if p = [] then es else es @ parse_config regcomp p)"
  by pat_completeness auto
termination
proof (relation "measure (\<lambda>(regcomp, p). length p)")
  fix regcomp :: "string \<Rightarrow> bool" and p q l c q2 l2 es q3
  assume q: "q = drop (skip_nl p) p" "q \<noteq> []" and l: "l = get_line q" and c: "c = skip_space (take l q)"
    and q2: "q2 = drop c q" "l2 = l - c" and q3: "q3 = drop l2 q2"
  have "q = dropWhile is_nl p" using q(1) by (simp add: skip_nl_drop)
  then have "\<not> is_nl (hd q)" using q(2) hd_dropWhile [of is_nl p] by simp
  then have "0 < l" using q(2) l by (cases q) auto
  moreover have "c \<le> l" using c skip_space_le [of "take l q"] by simp
  ultimately have "length q3 < length q" using q(2) q2 q3 by (auto simp: neq_Nil_conv)
  then show "((regcomp, q3), regcomp, p) \<in> measure (\<lambda>(regcomp, p). length p)" using q(1) by simp
qed simp

declare parse_config.simps [simp del]

subsection \<open>Line by line\<close>

text \<open>A line as a reader of the file sees it.\<close>

definition rstrip :: "string \<Rightarrow> string" where
  "rstrip s = rev (dropWhile is_blank (rev s))"

definition line_effect :: "(string \<Rightarrow> bool) \<Rightarrow> string \<Rightarrow> config_effect list" where
  "line_effect regcomp line =
     (let w = dropWhile is_blank line in
      if take 1 w = ''#'' then []
      else if take 6 w = ''ignore'' \<and> 6 < length w \<and> is_blank (w ! 6) then
        let arg = dropWhile is_blank (drop 6 w) in
        if arg = [] then []
        else let regex = takeWhile (\<lambda>x. x \<noteq> CHR 0x00) (rstrip arg)
          in [if regcomp regex then AddIgnoreRegex regex else InvalidRegex regex]
      else [InvalidLine w])"

function config_lines :: "string \<Rightarrow> string list" where
  "config_lines p =
     (let p = dropWhile is_nl p in
      if p = [] then [] else takeWhile (\<lambda>c. \<not> is_nl c) p # config_lines (dropWhile (\<lambda>c. \<not> is_nl c) p))"
  by pat_completeness auto
termination
proof (relation "measure length")
  fix p q :: string
  assume q: "q = dropWhile is_nl p" "q \<noteq> []"
  then obtain x xs where x: "q = x # xs" by (meson neq_Nil_conv)
  with q hd_dropWhile [of is_nl p] have "\<not> is_nl x" by (metis list.sel(1))
  with x have "length (dropWhile (\<lambda>c. \<not> is_nl c) q) \<le> length xs" by (simp add: length_dropWhile_le)
  with x q(1) length_dropWhile_le [of is_nl p] show "(dropWhile (\<lambda>c. \<not> is_nl c) q, p) \<in> measure length" by simp
qed simp

declare config_lines.simps [simp del]

lemma cmp_loop_take: "cmp_loop c p str =
   (if take (length str) p = str \<and> length str < length p \<and> is_blank (p ! length str) then c + length str else 0)"
proof (induction c p str rule: cmp_loop.induct)
  case (3 c x p y str)
  then show ?case by auto
qed auto

lemma trim_space_take: "n \<le> length p \<Longrightarrow> take (trim_space p n) p = rstrip (take n p)"
  by (induction p n rule: trim_space.induct) (auto simp: rstrip_def take_Suc_conv_app_nth)

lemma parse_line_effect:
  assumes "p = dropWhile is_blank line @ rest" "p \<noteq> []" "l = length (dropWhile is_blank line)"
    and "rest \<noteq> [] \<longrightarrow> is_nl (hd rest)"
  shows "parse_line regcomp p l = line_effect regcomp line"
proof -
  let ?w = "dropWhile is_blank line"
  have hd: "hd p = CHR ''#'' \<longleftrightarrow> take 1 ?w = ''#''"
  proof (cases "?w = []")
    case True
    then have pr: "p = rest" using assms(1) by (simp only: append_Nil)
    from assms(2,4) have "is_nl (hd p)" unfolding pr by (simp only: not_False_eq_True simp_thms)
    then have "hd p \<noteq> CHR ''#''" by (elim disjE) simp_all
    then show ?thesis unfolding True by (simp only: take_Nil list.distinct)
  next
    case False
    then obtain x xs where "?w = x # xs" by (meson neq_Nil_conv)
    with assms(1) show ?thesis by simp
  qed
  have t: "take l p = ?w" using assms(1,3) by simp
  have c: "cmp_n p ''ignore'' l = (if take 6 ?w = ''ignore'' \<and> 6 < length ?w \<and> is_blank (?w ! 6) then 6 else 0)"
  proof -
    have "length ''ignore'' = 6" by simp
    then show ?thesis unfolding cmp_n_def t cmp_loop_take by (simp only: add_0)
  qed
  show ?thesis
  proof (cases "take 6 ?w = ''ignore'' \<and> 6 < length ?w \<and> is_blank (?w ! 6)")
    case True
    let ?arg = "dropWhile is_blank (drop 6 ?w)" and ?k = "length (takeWhile is_blank (drop 6 ?w))"
    have l: "6 \<le> l" using True assms(3) by linarith
    have d: "take (l - 6) (drop 6 p) = drop 6 ?w" unfolding drop_take [symmetric] t ..
    have k: "6 + ?k + length ?arg = l"
    proof -
      have "?k + length ?arg = length (drop 6 ?w)" by (simp only: length_append [symmetric] takeWhile_dropWhile_id)
      then show ?thesis using l assms(3) by (simp only: length_drop)
    qed
    have a: "take (l - (6 + ?k)) (drop (6 + ?k) p) = ?arg"
    proof -
      have "drop (6 + ?k) ?w = ?arg" unfolding dropWhile_eq_drop [of is_blank "drop 6 ?w"] drop_drop by (simp only: add.commute)
      then show ?thesis unfolding drop_take [symmetric] t .
    qed
    have le: "l - (6 + ?k) \<le> length (drop (6 + ?k) p)" using k assms(1,3) by (simp only: length_drop length_append)
    have r: "take (trim_space (drop (6 + ?k) p) (l - (6 + ?k))) (drop (6 + ?k) p) = rstrip ?arg"
      using trim_space_take [OF le] a by simp
    have e: "6 + ?k \<noteq> l \<longleftrightarrow> ?arg \<noteq> []" using k length_0_conv [of ?arg] by linarith
    have c6: "cmp_n p ''ignore'' l = 6" using True unfolding c by (rule if_P)
    have n: "take 1 ?w \<noteq> ''#''"
    proof
      assume "take 1 ?w = ''#''"
      then have "take 1 (take 6 ?w) = ''#''" by (simp only: take_take) simp
      with True show False by simp
    qed
    have n6: "(6 :: nat) \<noteq> 0" by simp
    show ?thesis unfolding parse_line_def line_effect_def Let_def c6 d skip_space_drop(2) r e hd if_P [OF n] if_not_P [OF n] if_P [OF n6] if_P [OF True]
      by (cases "?arg = []") (simp_all only: if_True if_False not_False_eq_True not_True_eq_False simp_thms)
  next
    case False
    then show ?thesis using hd by (simp only: parse_line_def line_effect_def c t Let_def) auto
  qed
qed

text \<open>A text whose last line is ended is read as its lines.\<close>

lemma parse_config_lines:
  assumes "p = [] \<or> is_nl (last p)"
  shows "parse_config regcomp p = concat (map (line_effect regcomp) (config_lines p))"
  using assms
proof (induction p rule: length_induct)
  case (1 p)
  define q line rest where "q = dropWhile is_nl p" and "line = takeWhile (\<lambda>c. \<not> is_nl c) q" and "rest = dropWhile (\<lambda>c. \<not> is_nl c) q"
  show ?case
  proof (cases "q = []")
    case True
    then show ?thesis
      by (subst parse_config.simps, subst config_lines.simps) (simp only: skip_nl_drop Let_def q_def [symmetric] if_True list.map concat.simps)
  next
    case False
    obtain ys where p: "p = ys @ q" unfolding q_def by (metis takeWhile_dropWhile_id)
    have lq: "is_nl (last q)" using "1.prems" False p by auto
    have q: "q = line @ rest" by (simp add: line_def rest_def)
    have rest: "rest \<noteq> []" using lq last_in_set [OF False] unfolding rest_def dropWhile_eq_Nil_conv by blast
    have hd: "is_nl (hd rest)" using rest hd_dropWhile [of "\<lambda>c. \<not> is_nl c" q] by (simp add: rest_def)
    have lr: "is_nl (last rest)" using lq q rest by simp
    have "\<not> is_nl (hd q)" using False hd_dropWhile [of is_nl p] unfolding q_def by blast
    then have ne: "line \<noteq> []" using False unfolding line_def takeWhile_eq_Nil_iff by blast
    have len: "length rest < length p" using p q ne by simp
    have g: "get_line q = length line" "take (length line) q = line"
      unfolding line_def get_line_take(3) by (simp_all add: takeWhile_eq_take [symmetric])
    have d: "drop (skip_space line) q = dropWhile is_blank line @ rest"
      using q skip_space_drop(1) [of line] skip_space_le [of line] by simp
    have l2: "length line - skip_space line = length (dropWhile is_blank line)"
      using skip_space_drop(1) [of line] by (metis length_drop)
    have pl: "parse_line regcomp (dropWhile is_blank line @ rest) (length (dropWhile is_blank line)) = line_effect regcomp line"
      by (rule parse_line_effect [OF refl _ refl]) (use rest hd in auto)
    have "parse_config regcomp p = line_effect regcomp line @ parse_config regcomp rest"
      using False rest pl
      by (simp only: parse_config.simps [of _ p] skip_nl_drop Let_def q_def [symmetric] g d l2) simp
    also have "\<dots> = line_effect regcomp line @ concat (map (line_effect regcomp) (config_lines rest))"
      using "1.IH" [rule_format, OF len] lr by metis
    also have "\<dots> = concat (map (line_effect regcomp) (config_lines p))"
      using False by (simp add: config_lines.simps [of p] line_def rest_def flip: q_def)
    finally show ?thesis .
  qed
qed

text \<open>A line of blanks is reported as invalid, unless it is the last one and has no end.\<close>

lemma blank_line_invalid:
  "parse_config regcomp ('' '' @ [CHR 0x0A]) = [InvalidLine []]" "parse_config regcomp ('' '') = []"
  by (simp_all add: parse_config.simps parse_line_def cmp_n_def)

end
