(* ===== verification/Spec2Isabelle.thy ===== *)
theory Spec2Isabelle
  imports Client_Properties Container_Properties Server_Properties Trace_Properties Tracer_Properties Client_Config
begin

text \<open>
  Verification of mtrace-ng, a tracer for the dynamic memory of running processes.

  \<^bold>\<open>The program.\<close> A tracer attaches to processes with \<open>ptrace\<close>, sets breakpoints on the allocation functions
  of their libraries and, when one is hit, sends a message with the arguments, the result and the call stack of
  the call (\<open>report.c\<close>, \<open>dwarf.c\<close>, \<open>library.c\<close>, \<open>breakpoint.c\<close>, \<open>event.c\<close>). A client reads the messages, keeps
  a table of the blocks of every process, and reports what is in use, leaked, or freed wrongly
  (\<open>client/process.c\<close>, \<open>client/client.c\<close>). For a leak scan the client sends the addresses of its blocks and the
  tracer looks for them in the writable memory of the process (\<open>os.c\<close>). Both use the lists and red-black
  trees of \<open>list.h\<close> and \<open>rbtree.c\<close>.

  \<^bold>\<open>Conventions.\<close> \<open>unsigned long\<close> is \<open>64 word\<close> and wraps around, as on x86-64, the build that is modelled;
  narrower integers have their width. Structures are records, enumerations datatypes, and each function of the
  sources is one definition with the name of the source. A function that can stop the program (null pointer, read
  past a buffer, assertion, \<open>fatal\<close>) returns a sum whose left side is the reason (\<open>client_error\<close> in the
  client, \<open>derr\<close> in the tracer). State is passed explicitly; pointers are addresses of a store where aliasing
  matters (\<open>list.h\<close>, \<open>rbtree.c\<close>, stack nodes), otherwise identities. Calls outside the sources (the kernel,
  \<open>libelf\<close>, \<open>libbfd\<close>, \<open>malloc\<close>) are fields of an environment record.

  \<^bold>\<open>Theories, containers.\<close>
  \<^item> \<open>Prelude\<close>: shared lemmas on lists, words and the result type.
  \<^item> \<open>Linked_List\<close>: \<open>list.h\<close> as pointer assignments; each operation is shown to be an operation on the list of nodes.
  \<^item> \<open>RBTree\<close>, \<open>RBTree_Heap\<close>, \<open>RBTree_Iter\<close>: the trees as values, the pointer code of \<open>rbtree.c\<close> with parent and
    colour, the proof that it computes the functions on values and keeps the red-black invariants, traversals and
    \<open>rb_iterate\<close>.
  \<^item> \<open>Dict\<close>: the hash table \<open>dict.c\<close> with the hash of \<open>breakpoint.c\<close>; interface \<open>pointer_table\<close>.
  \<^item> \<open>Common\<close>: string copy and binary search of \<open>common.c\<close>.

  \<^bold>\<open>Theories, client.\<close>
  \<^item> \<open>Client_Types\<close>: operations, byte order, comparison of byte strings. \<open>Block_Table\<close>: the interface
    \<open>ordered_table\<close> of a table in a tree, and the descents of \<open>client/process.c\<close>.
  \<^item> \<open>Client_Process\<close>: the state of a traced process and every function of \<open>client/process.c\<close> that changes it.
  \<^item> \<open>Client_Invariant\<close>, \<open>Client_Handlers\<close>, \<open>Client_Munmap\<close>, \<open>Client_Steps\<close>: the bookkeeping invariant \<open>proc_inv\<close>
    (tables, counters, statistics and reference counts agree), that every handler keeps it, and the step relation
    of a process.
  \<^item> \<open>Wire\<close>: messages on a stream (\<open>memtrace.h\<close>, \<open>socket.c\<close>), in any segmentation. \<open>Client_Loop\<close>, \<open>Client_Table\<close>: the
    table of processes, the dispatch of messages and the main loops of \<open>client/client.c\<close>. \<open>Client_Config\<close>: its
    configuration parser.

  \<^bold>\<open>Theories, tracer.\<close>
  \<^item> \<open>Server_Types\<close>: errors and the state monad of the tracer. \<open>Proc_Copy\<close>: access to the memory of a process by words.
  \<^item> \<open>Mem_Scan\<close>, \<open>Leak_Scan\<close>: the leak scan, alone and together with the client.
  \<^item> \<open>Libraries\<close>, \<open>Library_Steps\<close>: libraries of a process, their shared references and the search by address.
  \<^item> \<open>X86_Regs\<close>: registers and arguments. \<open>Dwarf_Read\<close>, \<open>Dwarf_Cie\<close>, \<open>Dwarf_Cfi\<close>, \<open>Dwarf_Expr\<close>, \<open>Dwarf_Step\<close>: the
    unwinder, from the bytes of an image to a step from frame to frame.
  \<^item> \<open>Report\<close>: the messages of the intercepted functions. \<open>Trace_Client\<close>: reports and client together.

  \<^bold>\<open>Theories, traced processes.\<close>
  \<^item> \<open>Tracer_State\<close>: tasks, breakpoints, the queue of events and the kernel the tracer talks to: memory and debug registers of
    the processes, the answers of \<open>ptrace\<close> since the last stop of a thread, the reports \<open>waitpid\<close> will give, in order, and
    the requests made. The interface \<open>kept\<close> composes what operations keep.
  \<^item> \<open>Debug_Regs\<close>: \<open>x86/arch.c\<close>, the slots of the debug registers, bit by bit. \<open>Task_Table\<close>: the table of process ids with the interface
    \<open>pid_table\<close>, and new tasks (\<open>task.c\<close>). \<open>Trace_Events\<close>: waiting, stopping, continuing, single steps (\<open>sysdeps/linux-gnu/trace.c\<close>, \<open>event.c\<close>).
  \<^item> \<open>Breakpoint\<close>: \<open>breakpoint.c\<close>. \<open>Tasks\<close>: attach, clone, fork, exec and end (\<open>task.c\<close>, \<open>library.c\<close>, \<open>trace.c\<close>).
    \<open>Events\<close>: the handlers of \<open>event.c\<close>. \<open>Server\<close>: commands, the loop and the end of the tracer (\<open>server.c\<close>, \<open>main.c\<close>).
  \<^item> \<open>Trace_Invariant\<close>, \<open>Trace_Stop\<close>: the invariant of the thread counters, and that all threads stop.
    \<open>Event_Invariant\<close>, \<open>Task_End\<close>, \<open>Trace_Reach\<close>: breakpoints, handlers and the end of tasks keep it, and the reachable states.
    \<open>Breakpoint_Facts\<close>, \<open>Step_Over\<close>: what breakpoints do to memory and registers. \<open>Tracer_Faults\<close>: two ways to fail.

  \<^bold>\<open>Properties.\<close> \<open>Client_Properties\<close> (accounts of a process in every reachable state, exact effect of each
  handler, termination, errors), \<open>Container_Properties\<close> (trees, lists, search depth), \<open>Server_Properties\<close> (scan,
  hash table, libraries, unwinder), \<open>Trace_Properties\<close> (reports arrive and are recorded, every message is handled,
  a client that connects mirrors the process), \<open>Tracer_Properties\<close> (threads are counted and stop, breakpoints leave no trace and are
  armed everywhere, processes end as a whole, and two faults).

  \<^bold>\<open>Loops and bounds.\<close> Loops over data are structural or have a measure. \<open>process_munmap\<close> has fuel, one more
  than the number of blocks, and is shown to need no more; loops that may not end (\<open>rb_iterate\<close> with a failing
  callback, call frame programs, location expressions, the search of the unwind table, the walk up a call stack) are
  partial functions whose missing value is the missing return; the properties say when they return. \<open>stop_threads\<close> has
  as fuel one more than the reports that are left, as each round takes one; \<open>mtrace_main\<close>, \<open>open_pid\<close> and the loop at the end
  of the tracer run along a list of what is found in each round. The steps of \<open>Trace_Reach\<close> follow new threads and their
  end; new processes, other programs (\<open>EVENT_EXEC\<close>) and the exit of a leader are reported but not handled there.

  \<^bold>\<open>Not modelled.\<close> Terminal, pager and symbol lookup through \<open>libbfd\<close> (\<open>readline.c\<close>, \<open>dump.c\<close>, \<open>job.c\<close>,
  \<open>binfile.c\<close>), ELF files through \<open>libelf\<close> (\<open>mtelf.c\<close>) and the breakpoint of the dynamic loader, which are the parameters
  \<open>te_elf_read_main_binary\<close> and \<open>te_on_hit\<close>, option parsing, threads, sockets and \<open>/proc\<close> files, the ARM
  and PowerPC ports, and the text of reports.
\<close>

end
